(* ===== verification/Prelude.thy ===== *)
theory Prelude
  imports Main "HOL-Library.AList" "HOL-Library.Multiset" "HOL-Library.Sublist"
begin

text \<open>
  The part of the ECMAScript standard library that the frontend uses, and the lemmas that the
  component theories share.

  Strings are lists of UTF-16 code units.  The model's \<open>char\<close> covers the code units 0 to 255, on
  which every operation below agrees with the language; label keys, namespaces, host names and
  filter queries are ASCII.

  A \<open>Map\<close> is an association list with distinct keys in insertion order: \<open>set\<close> on a present key
  keeps its position, on a new key it appends (\<open>AList.update\<close>).  A \<open>Set\<close> is a list without
  duplicates in insertion order.  \<open>null\<close> and \<open>undefined\<close> are both \<open>None\<close>; the sources compare
  with \<open>== null\<close> throughout, which does not distinguish them.

  The named collections \<open>js_string\<close>, \<open>js_map\<close> and \<open>js_set\<close> hold the laws that the component proofs
  pass to the simplifier.
\<close>

named_theorems js_string "laws of the string operations"
named_theorems js_map "laws of insertion-ordered maps"
named_theorems js_set "laws of insertion-ordered sets"

section \<open>Strings\<close>

text \<open>\<open>s.split(sep)\<close> for a one-character separator, and \<open>s.split(/[...]/)\<close> for a class of
  characters.\<close>

fun split_by :: "(char \<Rightarrow> bool) \<Rightarrow> string \<Rightarrow> string list" where
  "split_by p [] = [[]]"
| "split_by p (c # cs) =
     (if p c then [] # split_by p cs
      else (case split_by p cs of [] \<Rightarrow> [[c]] | w # ws \<Rightarrow> (c # w) # ws))"

abbreviation split_on :: "char \<Rightarrow> string \<Rightarrow> string list" where
  "split_on c \<equiv> split_by (\<lambda>x. x = c)"

text \<open>\<open>parts.join(sep)\<close>.\<close>

fun join_with :: "string \<Rightarrow> string list \<Rightarrow> string" where
  "join_with sep [] = []"
| "join_with sep [w] = w"
| "join_with sep (w # v # vs) = w @ sep @ join_with sep (v # vs)"

text \<open>\<open>s.startsWith(p)\<close>, and \<open>s.replace(p, '')\<close> for a string pattern: the first occurrence
  only.\<close>

definition starts_with :: "string \<Rightarrow> string \<Rightarrow> bool" where
  "starts_with s p \<longleftrightarrow> take (length p) s = p"

fun remove_first :: "string \<Rightarrow> string \<Rightarrow> string" where
  "remove_first p [] = []"
| "remove_first p (c # cs) =
     (if starts_with (c # cs) p then drop (length p) (c # cs) else c # remove_first p cs)"

text \<open>\<open>s.indexOf(c)\<close>, with \<open>-1\<close> for an absent character.\<close>

fun index_of :: "char \<Rightarrow> string \<Rightarrow> int" where
  "index_of c [] = -1"
| "index_of c (x # xs) =
     (if x = c then 0 else (let i = index_of c xs in if i = -1 then -1 else i + 1))"

text \<open>\<open>s.slice(i)\<close> and \<open>s.slice(i, j)\<close> at non-negative positions.\<close>

definition slice_from :: "string \<Rightarrow> int \<Rightarrow> string" where
  "slice_from s i = drop (nat i) s"

definition str_slice :: "string \<Rightarrow> int \<Rightarrow> int \<Rightarrow> string" where
  "str_slice s i j = take (nat (j - i)) (drop (nat i) s)"

text \<open>\<open>s.toLowerCase()\<close> on the code units 0 to 255: the letters A to Z and the Latin-1 capitals.\<close>

definition lower_char :: "char \<Rightarrow> char" where
  "lower_char c =
     (let n = (of_char c :: nat)
      in if 65 \<le> n \<and> n \<le> 90 \<or> 192 \<le> n \<and> n \<le> 222 \<and> n \<noteq> 215 then char_of (n + 32) else c)"

definition to_lower :: "string \<Rightarrow> string" where
  "to_lower s = map lower_char s"

text \<open>\<open>s.toUpperCase()\<close> on the same code units but the sharp s, the micro sign and y with diaeresis,
  whose upper-case forms are longer or outside the range; they do not occur where it is used.\<close>

definition upper_char :: "char \<Rightarrow> char" where
  "upper_char c =
     (let n = (of_char c :: nat)
      in if 97 \<le> n \<and> n \<le> 122 \<or> 224 \<le> n \<and> n \<le> 254 \<and> n \<noteq> 247 then char_of (n - 32) else c)"

definition to_upper :: "string \<Rightarrow> string" where
  "to_upper s = map upper_char s"

text \<open>\<open>s.charAt(0).toUpperCase() + s.slice(1)\<close>.\<close>

definition capitalize :: "string \<Rightarrow> string" where
  "capitalize s = to_upper (take 1 s) @ drop 1 s"

text \<open>\<open>s.trim()\<close>: the white space and line terminators among the code units 0 to 255.\<close>

definition is_space :: "char \<Rightarrow> bool" where
  "is_space c = (let n = (of_char c :: nat) in (9 \<le> n \<and> n \<le> 13) \<or> n = 32 \<or> n = 160)"

definition trim :: "string \<Rightarrow> string" where
  "trim s = rev (dropWhile is_space (rev (dropWhile is_space s)))"

text \<open>\<open>s.replace(/c+$/, '')\<close>: drop the trailing run of a character.\<close>

definition strip_trailing :: "char \<Rightarrow> string \<Rightarrow> string" where
  "strip_trailing c s = rev (dropWhile (\<lambda>x. x = c) (rev s))"

subsection \<open>Laws of the string operations\<close>

lemma split_by_not_Nil [simp, js_string]: "split_by p s \<noteq> []"
  by (cases s) (auto split: list.splits)

lemma split_by_none [js_string]:
  "(\<And>c. c \<in> set s \<Longrightarrow> \<not> p c) \<Longrightarrow> split_by p s = [s]"
  by (induction s) auto

lemma split_by_append [js_string]:
  "(\<And>c. c \<in> set s \<Longrightarrow> \<not> p c) \<Longrightarrow> p c \<Longrightarrow> split_by p (s @ c # t) = s # split_by p t"
  by (induction s) auto

lemma split_by_parts_clean: "w \<in> set (split_by p s) \<Longrightarrow> c \<in> set w \<Longrightarrow> \<not> p c"
proof (induction s arbitrary: w)
  case (Cons x xs)
  then show ?case
    by (cases "split_by p xs") (fastforce split: if_splits)+
qed simp

lemma join_with_Cons: "ws \<noteq> [] \<Longrightarrow> join_with sep (w # ws) = w @ sep @ join_with sep ws"
  by (cases ws) auto

lemma join_split [simp, js_string]: "join_with [c] (split_on c s) = s"
proof (induction s)
  case (Cons x xs)
  then show ?case
    by (cases "split_on c xs"; cases "tl (split_on c xs)") (auto simp: join_with_Cons)
qed simp

lemma split_join [js_string]:
  "ws \<noteq> [] \<Longrightarrow> (\<And>w. w \<in> set ws \<Longrightarrow> c \<notin> set w) \<Longrightarrow> split_on c (join_with [c] ws) = ws"
proof (induction ws rule: list_nonempty_induct)
  case (single w)
  then show ?case by (auto intro: split_by_none)
next
  case (cons w ws)
  have "split_on c (w @ c # join_with [c] ws) = w # split_on c (join_with [c] ws)"
    using cons.prems by (intro split_by_append) auto
  with cons show ?case by (simp add: join_with_Cons)
qed

lemma starts_with_append [simp, js_string]: "starts_with (p @ s) p"
  by (simp add: starts_with_def)

lemma starts_withD: "starts_with s p \<Longrightarrow> \<exists>t. s = p @ t"
  unfolding starts_with_def by (metis append_take_drop_id)

lemma starts_with_iff: "starts_with s p \<longleftrightarrow> prefix p s"
  by (auto simp: prefix_def dest: starts_withD)

lemma set_remove_first: "set (remove_first p s) \<subseteq> set s"
  by (induction p s rule: remove_first.induct) (auto dest: in_set_dropD)

lemma remove_first_prefix [js_string]: "p \<noteq> [] \<Longrightarrow> remove_first p (p @ s) = s"
  by (cases p) (auto simp: starts_with_def)

lemma index_of_ge: "-1 \<le> index_of c s"
  by (induction s) (auto simp: Let_def)

lemma index_of_absent [js_string]: "index_of c s = -1 \<longleftrightarrow> c \<notin> set s"
proof (induction s)
  case (Cons x xs)
  then show ?case using index_of_ge [of c xs] by (auto simp: Let_def)
qed simp

lemma index_of_append [js_string]: "c \<notin> set s \<Longrightarrow> index_of c (s @ c # t) = int (length s)"
proof (induction s)
  case (Cons x xs)
  then show ?case by (auto simp: Let_def)
qed simp

lemma slice_from_append [js_string]: "slice_from (s @ t) (int (length s)) = t"
  by (simp add: slice_from_def)

lemma slice_from_append_Suc [js_string]: "slice_from (s @ c # t) (int (length s) + 1) = t"
  by (simp add: slice_from_def nat_add_distrib)

lemma slice_from_zero [simp, js_string]: "slice_from s 0 = s"
  by (simp add: slice_from_def)

lemma slice_prefix [js_string]: "str_slice (s @ t) 0 (int (length s)) = s"
  by (simp add: str_slice_def)

lemma slice_infix [js_string]:
  "str_slice (s @ c # t @ u) (int (length s) + 1) (int (length s) + 1 + int (length t)) = t"
  by (simp add: str_slice_def nat_add_distrib)

lemma lower_char_idem [simp]: "lower_char (lower_char c) = lower_char c"
proof -
  have "of_char c < (256 :: nat)" by simp
  then show ?thesis by (auto simp: lower_char_def Let_def)
qed

lemma to_lower_idem [simp, js_string]: "to_lower (to_lower s) = to_lower s"
  by (simp add: to_lower_def)

lemma to_lower_Nil [simp]: "to_lower [] = []" and
  to_lower_Cons [simp]: "to_lower (c # s) = lower_char c # to_lower s" and
  to_lower_append: "to_lower (s @ t) = to_lower s @ to_lower t"
  by (simp_all add: to_lower_def)

lemma set_strip_trailing: "set (strip_trailing c s) \<subseteq> set s"
  unfolding strip_trailing_def by (auto dest: set_dropWhileD)

lemma strip_trailing_absent [js_string]: "c \<notin> set s \<Longrightarrow> strip_trailing c s = s"
  unfolding strip_trailing_def
  by (cases "rev s") (auto dest: arg_cong [of "rev s" _ rev])

text \<open>The order of code units, in which \<open>sort()\<close> without a comparator puts strings.\<close>

fun codes_compare :: "nat list \<Rightarrow> nat list \<Rightarrow> int" where
  "codes_compare [] [] = 0"
| "codes_compare [] (y # ys) = -1"
| "codes_compare (x # xs) [] = 1"
| "codes_compare (x # xs) (y # ys) =
     (if x < y then -1 else if y < x then 1 else codes_compare xs ys)"

definition str_compare :: "string \<Rightarrow> string \<Rightarrow> int" where
  "str_compare s t = codes_compare (map of_char s) (map of_char t)"

lemma codes_compare_eq_0 [simp]: "codes_compare xs ys = 0 \<longleftrightarrow> xs = ys"
  by (induction xs ys rule: codes_compare.induct) auto

lemma codes_compare_anti: "codes_compare ys xs = - codes_compare xs ys"
  by (induction xs ys rule: codes_compare.induct) auto

lemma codes_compare_trans:
  "codes_compare xs ys \<le> 0 \<Longrightarrow> codes_compare ys zs \<le> 0 \<Longrightarrow> codes_compare xs zs \<le> 0"
proof (induction xs ys arbitrary: zs rule: codes_compare.induct)
  case (2 y ys)
  then show ?case by (cases zs) auto
next
  case (4 x xs y ys)
  then obtain z zs' where zs: "zs = z # zs'" by (cases zs) auto
  have le: "x \<le> y" "y \<le> z" using 4(2,3) by (simp_all add: zs split: if_splits)
  show ?case
  proof (cases "x = y \<and> y = z")
    case True
    have "codes_compare xs ys \<le> 0" "codes_compare ys zs' \<le> 0"
      using 4(2,3) True by (simp_all add: zs)
    with True have "codes_compare xs zs' \<le> 0" using 4(1) by blast
    with True show ?thesis by (simp add: zs)
  next
    case False
    with le have "x < z" by linarith
    then show ?thesis by (simp add: zs)
  qed
qed simp_all

lemma str_compare_eq_0 [simp]: "str_compare s t = 0 \<longleftrightarrow> s = t"
proof -
  have "inj (of_char :: char \<Rightarrow> nat)" by (metis injI char_of_char)
  then show ?thesis by (auto simp: str_compare_def inj_map_eq_map)
qed

section \<open>Insertion-ordered maps\<close>

type_synonym ('k, 'v) js_map = "('k \<times> 'v) list"

abbreviation map_get :: "('k, 'v) js_map \<Rightarrow> 'k \<Rightarrow> 'v option" where
  "map_get \<equiv> map_of"

abbreviation map_set :: "'k \<Rightarrow> 'v \<Rightarrow> ('k, 'v) js_map \<Rightarrow> ('k, 'v) js_map" where
  "map_set \<equiv> AList.update"

abbreviation map_delete :: "'k \<Rightarrow> ('k, 'v) js_map \<Rightarrow> ('k, 'v) js_map" where
  "map_delete \<equiv> AList.delete"

abbreviation map_has :: "('k, 'v) js_map \<Rightarrow> 'k \<Rightarrow> bool" where
  "map_has m k \<equiv> map_of m k \<noteq> None"

abbreviation map_keys :: "('k, 'v) js_map \<Rightarrow> 'k list" where
  "map_keys m \<equiv> map fst m"

abbreviation map_values :: "('k, 'v) js_map \<Rightarrow> 'v list" where
  "map_values m \<equiv> map snd m"

abbreviation wf_map :: "('k, 'v) js_map \<Rightarrow> bool" where
  "wf_map m \<equiv> distinct (map fst m)"

lemma map_get_set [simp, js_map]: "map_get (map_set k v m) k' = (if k' = k then Some v else map_get m k')"
  by (simp add: update_conv')

lemma map_get_delete [simp, js_map]: "map_get (map_delete k m) k' = (if k' = k then None else map_get m k')"
  by (simp add: delete_conv')

lemma wf_map_set [simp, js_map]: "wf_map m \<Longrightarrow> wf_map (map_set k v m)"
  by (rule distinct_update)

lemma wf_map_delete [simp, js_map]: "wf_map m \<Longrightarrow> wf_map (map_delete k m)"
  by (rule distinct_delete)

lemma map_set_new [js_map]: "map_get m k = None \<Longrightarrow> map_set k v m = m @ [(k, v)]"
  by (induction m) (auto split: if_splits)

lemma map_keys_set [js_map]:
  "map_keys (map_set k v m) = (if k \<in> fst ` set m then map_keys m else map_keys m @ [k])"
  by (simp add: update_keys image_image)

lemma map_set_same [js_map]: "map_get m k = Some v \<Longrightarrow> map_set k v m = m"
  by (rule update_triv)

lemma wf_map_get_iff: "wf_map m \<Longrightarrow> map_get m k = Some v \<longleftrightarrow> (k, v) \<in> set m"
  by simp

section \<open>Insertion-ordered sets\<close>

definition set_add :: "'a \<Rightarrow> 'a list \<Rightarrow> 'a list" where
  "set_add x xs = (if x \<in> set xs then xs else xs @ [x])"

definition set_add_all :: "'a list \<Rightarrow> 'a list \<Rightarrow> 'a list" where
  "set_add_all ys xs = fold set_add ys xs"

text \<open>\<open>new Set(iterable)\<close>.\<close>

definition set_of_list :: "'a list \<Rightarrow> 'a list" where
  "set_of_list ys = set_add_all ys []"

lemma set_set_add [simp, js_set]: "set (set_add x xs) = insert x (set xs)"
  by (auto simp: set_add_def)

lemma distinct_set_add [simp, js_set]: "distinct xs \<Longrightarrow> distinct (set_add x xs)"
  by (simp add: set_add_def)

lemma set_add_present [js_set]: "x \<in> set xs \<Longrightarrow> set_add x xs = xs"
  by (simp add: set_add_def)

lemma set_add_all_simps [simp]:
  "set_add_all [] xs = xs"
  "set_add_all (y # ys) xs = set_add_all ys (set_add y xs)"
  by (simp_all add: set_add_all_def)

lemma set_set_add_all [simp, js_set]: "set (set_add_all ys xs) = set xs \<union> set ys"
  by (induction ys arbitrary: xs) auto

lemma distinct_set_add_all [simp, js_set]: "distinct xs \<Longrightarrow> distinct (set_add_all ys xs)"
  by (induction ys arbitrary: xs) auto

lemma set_add_all_absorb [js_set]: "set ys \<subseteq> set xs \<Longrightarrow> set_add_all ys xs = xs"
  by (induction ys arbitrary: xs) (auto simp: set_add_present)

lemma set_add_all_idem [simp, js_set]: "set_add_all ys (set_add_all ys xs) = set_add_all ys xs"
  by (rule set_add_all_absorb) simp

lemma set_set_of_list [simp, js_set]: "set (set_of_list ys) = set ys"
  by (simp add: set_of_list_def)

lemma distinct_set_of_list [simp, js_set]: "distinct (set_of_list ys)"
  by (simp add: set_of_list_def)

lemma set_add_all_distinct_append:
  "distinct ys \<Longrightarrow> set ys \<inter> set xs = {} \<Longrightarrow> set_add_all ys xs = xs @ ys"
proof (induction ys arbitrary: xs)
  case (Cons y ys)
  then have "set_add y xs = xs @ [y]" by (simp add: set_add_def)
  moreover have "set_add_all ys (xs @ [y]) = (xs @ [y]) @ ys"
    using Cons.prems by (intro Cons.IH) auto
  ultimately show ?case by simp
qed simp

lemma set_of_list_distinct [simp, js_set]: "distinct ys \<Longrightarrow> set_of_list ys = ys"
  by (simp add: set_of_list_def set_add_all_distinct_append)

section \<open>Arrays of objects with an identifier\<close>

text \<open>\<open>findIndex\<close>, with \<open>None\<close> for -1, and what replacing or removing the element it finds does to an
  array whose elements have distinct keys.\<close>

fun find_index :: "('a \<Rightarrow> bool) \<Rightarrow> 'a list \<Rightarrow> nat option" where
  "find_index p [] = None"
| "find_index p (x # xs) = (if p x then Some 0 else map_option Suc (find_index p xs))"

lemma find_index_None_iff: "find_index p xs = None \<longleftrightarrow> (\<forall>x \<in> set xs. \<not> p x)"
  by (induction xs) auto

lemma find_index_SomeD: "find_index p xs = Some i \<Longrightarrow> i < length xs \<and> p (xs ! i)"
  by (induction xs arbitrary: i) (auto split: if_splits)

lemma other_keys: "distinct (map key (x # xs)) \<Longrightarrow> y \<in> set xs \<Longrightarrow> key y \<noteq> key x"
  by (metis distinct.simps(2) imageI list.map(2) list.set_map)

lemma replace_at_key:
  "distinct (map key xs) \<Longrightarrow> find_index (\<lambda>x. key x = k) xs = Some i \<Longrightarrow>
     xs[i := f (xs ! i)] = map (\<lambda>x. if key x = k then f x else x) xs"
proof (induction xs arbitrary: i)
  case (Cons x xs)
  show ?case
  proof (cases "key x = k")
    case True
    then have "map (\<lambda>x. if key x = k then f x else x) xs = xs" using other_keys [OF Cons.prems(1)] True by (intro map_idI) simp
    with True Cons.prems show ?thesis by simp
  next
    case False
    with Cons.prems obtain j where "i = Suc j" "find_index (\<lambda>x. key x = k) xs = Some j" by auto
    with False Cons show ?thesis by simp
  qed
qed simp

lemma remove_at_key:
  "distinct (map key xs) \<Longrightarrow> find_index (\<lambda>x. key x = k) xs = Some i \<Longrightarrow>
     take i xs @ drop (Suc i) xs = filter (\<lambda>x. key x \<noteq> k) xs"
proof (induction xs arbitrary: i)
  case (Cons x xs)
  show ?case
  proof (cases "key x = k")
    case True
    then have "filter (\<lambda>x. key x \<noteq> k) xs = xs" using other_keys [OF Cons.prems(1)] True by (intro filter_True) simp
    with True Cons.prems show ?thesis by simp
  next
    case False
    with Cons.prems obtain j where "i = Suc j" "find_index (\<lambda>x. key x = k) xs = Some j" by auto
    with False Cons show ?thesis by simp
  qed
qed simp

lemma map_get_fold_set:
  "map_get (fold (\<lambda>x m. map_set (key x) x m) xs m) k =
     (case find (\<lambda>x. key x = k) (rev xs) of None \<Rightarrow> map_get m k | Some x \<Rightarrow> Some x)"
proof (induction xs arbitrary: m)
  case (Cons x xs)
  have "find (\<lambda>x. key x = k) (ys @ [y]) =
      (case find (\<lambda>x. key x = k) ys of None \<Rightarrow> (if key y = k then Some y else None) | Some z \<Rightarrow> Some z)"
    for y and ys by (induction ys) auto
  then show ?case by (auto simp: Cons split: option.split)
qed simp

lemma map_has_fold_set:
  "map_has (fold (\<lambda>x m. map_set (key x) x m) xs []) k \<longleftrightarrow> k \<in> key ` set xs"
proof -
  have "find (\<lambda>x. key x = k) (rev xs) = None \<longleftrightarrow> k \<notin> key ` set xs" by (auto simp: find_None_iff)
  then show ?thesis by (cases "find (\<lambda>x. key x = k) (rev xs)") (simp_all add: map_get_fold_set)
qed

lemma find_distinct_key:
  "distinct (map key xs) \<Longrightarrow> x \<in> set xs \<Longrightarrow> find (\<lambda>y. key y = key x) xs = Some x"
  by (induction xs) (auto intro: rev_image_eqI)

lemma map_get_fold_set_distinct:
  "distinct (map key xs) \<Longrightarrow> x \<in> set xs \<Longrightarrow>
     map_get (fold (\<lambda>x m. map_set (key x) x m) xs []) (key x) = Some x"
  using find_distinct_key [of key "rev xs" x] by (simp add: map_get_fold_set rev_map [symmetric])

section \<open>Sorting with a comparator\<close>

text \<open>
  \<open>Array.prototype.sort(cmp)\<close> is a stable sort: where \<open>cmp\<close> is a consistent comparator the language
  fixes the result, and insertion computes it.  The locale states what a consistent comparator on
  the elements \<open>A\<close> of an array is; the components that sort interpret it.
\<close>

fun sort_insert :: "('a \<Rightarrow> 'a \<Rightarrow> 'n::linordered_idom) \<Rightarrow> 'a \<Rightarrow> 'a list \<Rightarrow> 'a list" where
  "sort_insert cmp x [] = [x]"
| "sort_insert cmp x (y # ys) =
     (if cmp x y \<le> 0 then x # y # ys else y # sort_insert cmp x ys)"

definition js_sort :: "('a \<Rightarrow> 'a \<Rightarrow> 'n::linordered_idom) \<Rightarrow> 'a list \<Rightarrow> 'a list" where
  "js_sort cmp xs = foldr (sort_insert cmp) xs []"

lemma mset_sort_insert [simp]: "mset (sort_insert cmp x xs) = add_mset x (mset xs)"
  by (induction xs) auto

lemma mset_js_sort [simp]: "mset (js_sort cmp xs) = mset xs"
  unfolding js_sort_def by (induction xs) auto

lemma set_js_sort [simp]: "set (js_sort cmp xs) = set xs"
  by (metis mset_js_sort set_mset_mset)

lemma length_js_sort [simp]: "length (js_sort cmp xs) = length xs"
  by (metis mset_js_sort size_mset)

locale comparator =
  fixes cmp :: "'a \<Rightarrow> 'a \<Rightarrow> 'n::linordered_idom" and A :: "'a set"
  assumes cmp_swap: "x \<in> A \<Longrightarrow> y \<in> A \<Longrightarrow> 0 < cmp x y \<Longrightarrow> cmp y x < 0"
    and cmp_trans: "x \<in> A \<Longrightarrow> y \<in> A \<Longrightarrow> z \<in> A \<Longrightarrow> cmp x y \<le> 0 \<Longrightarrow> cmp y z \<le> 0 \<Longrightarrow> cmp x z \<le> 0"
begin

lemma sorted_sort_insert:
  "x \<in> A \<Longrightarrow> set xs \<subseteq> A \<Longrightarrow> sorted_wrt (\<lambda>a b. cmp a b \<le> 0) xs \<Longrightarrow>
     sorted_wrt (\<lambda>a b. cmp a b \<le> 0) (sort_insert cmp x xs)"
proof (induction xs)
  case (Cons y ys)
  show ?case
  proof (cases "cmp x y \<le> 0")
    case True
    with Cons.prems show ?thesis by (auto intro: cmp_trans [of x y])
  next
    case False
    then have "cmp y x \<le> 0" using Cons.prems cmp_swap [of x y] by force
    moreover have "set (sort_insert cmp x ys) = insert x (set ys)"
      by (metis mset_sort_insert set_mset_add_mset_insert set_mset_mset)
    ultimately show ?thesis using False Cons by auto
  qed
qed simp

lemma sorted_js_sort: "set xs \<subseteq> A \<Longrightarrow> sorted_wrt (\<lambda>a b. cmp a b \<le> 0) (js_sort cmp xs)"
proof (induction xs)
  case Nil
  then show ?case by (simp add: js_sort_def)
next
  case (Cons x xs)
  then have "set (js_sort cmp xs) \<subseteq> A" by simp
  with Cons have "sorted_wrt (\<lambda>a b. cmp a b \<le> 0) (sort_insert cmp x (js_sort cmp xs))"
    by (intro sorted_sort_insert) auto
  then show ?case by (simp add: js_sort_def)
qed

end

text \<open>The default order of strings is a consistent comparator.\<close>

interpretation string_order: comparator str_compare UNIV
proof
  show "str_compare y x < 0" if "0 < str_compare x y" for x y
    using that codes_compare_anti [of "map of_char y" "map of_char x"] by (simp add: str_compare_def)
  show "str_compare x z \<le> 0" if "str_compare x y \<le> 0" "str_compare y z \<le> 0" for x y z
    using that codes_compare_trans unfolding str_compare_def by blast
qed

end
