(* ===== verification/Emitter.thy ===== *)
theory Emitter
  imports Prelude
begin

text \<open>
  \<open>src/utils/emitter.ts\<close>: handlers per event, handlers that run once, and events kept while nobody
  listens.  A handler is an identifier (two registrations of one function are one handler, as in the
  \<open>Set\<close>); an operation returns the calls it makes, in order, as pairs of handler and arguments.  The
  handlers do not call back into the emitter while it runs.
\<close>

section \<open>State and operations\<close>

record ('e, 'h, 'a) emitter =
  em_onHandlers :: "('e, 'h list) js_map"
  em_onceHandlers :: "('e, 'h list) js_map"
  em_cachedEvents :: "('e, 'a list) js_map"
  em_isCaching :: bool

type_synonym ('h, 'a) calls = "('h \<times> 'a) list"

definition emitter_new :: "bool \<Rightarrow> ('e, 'h, 'a) emitter" where
  "emitter_new caching =
     \<lparr>em_onHandlers = [], em_onceHandlers = [], em_cachedEvents = [], em_isCaching = caching\<rparr>"

definition emitter_setCaching :: "bool \<Rightarrow> ('e, 'h, 'a) emitter \<Rightarrow> ('e, 'h, 'a) emitter" where
  "emitter_setCaching c em = em\<lparr>em_isCaching := c\<rparr>"

text \<open>The set under a key, empty when there is none.\<close>

definition at_key :: "('k, 'v list) js_map \<Rightarrow> 'k \<Rightarrow> 'v list" where
  "at_key m k = (case map_get m k of None \<Rightarrow> [] | Some vs \<Rightarrow> vs)"

text \<open>\<open>?.delete(h)\<close> on the set under a key.\<close>

definition delete_at :: "'k \<Rightarrow> 'v \<Rightarrow> ('k, 'v list) js_map \<Rightarrow> ('k, 'v list) js_map" where
  "delete_at k v m = (case map_get m k of None \<Rightarrow> m | Some vs \<Rightarrow> map_set k (filter (\<lambda>w. w \<noteq> v) vs) m)"

definition clear_at :: "'k \<Rightarrow> ('k, 'v list) js_map \<Rightarrow> ('k, 'v list) js_map" where
  "clear_at k m = (case map_get m k of None \<Rightarrow> m | Some vs \<Rightarrow> map_set k [] m)"

definition emitter_emitCached ::
  "'e \<Rightarrow> 'h \<Rightarrow> bool \<Rightarrow> ('e, 'h, 'a) emitter \<Rightarrow> ('e, 'h, 'a) emitter \<times> ('h, 'a) calls" where
  "emitter_emitCached evt handler once em =
     (case at_key (em_cachedEvents em) evt of
        [] \<Rightarrow> (em, [])
      | datum # rest \<Rightarrow>
          if once
          then (em\<lparr>em_cachedEvents := map_set evt rest (em_cachedEvents em),
                   em_onceHandlers := delete_at evt handler (em_onceHandlers em)\<rparr>, [(handler, datum)])
          else (em\<lparr>em_cachedEvents := map_set evt [] (em_cachedEvents em)\<rparr>,
                map (\<lambda>args. (handler, args)) (datum # rest)))"

definition emitter_on ::
  "'e \<Rightarrow> 'h \<Rightarrow> ('e, 'h, 'a) emitter \<Rightarrow> ('e, 'h, 'a) emitter \<times> ('h, 'a) calls" where
  "emitter_on evt handler em =
     emitter_emitCached evt handler False
       (em\<lparr>em_onHandlers := map_set evt (set_add handler (at_key (em_onHandlers em) evt)) (em_onHandlers em)\<rparr>)"

definition emitter_once ::
  "'e \<Rightarrow> 'h \<Rightarrow> ('e, 'h, 'a) emitter \<Rightarrow> ('e, 'h, 'a) emitter \<times> ('h, 'a) calls" where
  "emitter_once evt handler em =
     emitter_emitCached evt handler True
       (em\<lparr>em_onceHandlers := map_set evt (set_add handler (at_key (em_onceHandlers em) evt)) (em_onceHandlers em)\<rparr>)"

definition emitter_off :: "'e \<Rightarrow> 'h option \<Rightarrow> ('e, 'h, 'a) emitter \<Rightarrow> ('e, 'h, 'a) emitter" where
  "emitter_off evt handler em =
     (case handler of
        None \<Rightarrow> em\<lparr>em_onHandlers := clear_at evt (em_onHandlers em),
                   em_onceHandlers := clear_at evt (em_onceHandlers em)\<rparr>
      | Some h \<Rightarrow> em\<lparr>em_onHandlers := delete_at evt h (em_onHandlers em),
                    em_onceHandlers := delete_at evt h (em_onceHandlers em)\<rparr>)"

definition emitter_saveCached :: "'e \<Rightarrow> 'a \<Rightarrow> ('e, 'h, 'a) emitter \<Rightarrow> ('e, 'h, 'a) emitter" where
  "emitter_saveCached evt args em =
     em\<lparr>em_cachedEvents := map_set evt (at_key (em_cachedEvents em) evt @ [args]) (em_cachedEvents em)\<rparr>"

definition emitter_emit ::
  "'e \<Rightarrow> 'a \<Rightarrow> ('e, 'h, 'a) emitter \<Rightarrow> ('e, 'h, 'a) emitter \<times> ('h, 'a) calls" where
  "emitter_emit evt args em =
     (let onHandlers = at_key (em_onHandlers em) evt; onceHandlers = at_key (em_onceHandlers em) evt
      in if em_isCaching em \<and> onHandlers = [] \<and> onceHandlers = []
         then (emitter_saveCached evt args em, [])
         else (em\<lparr>em_onceHandlers := clear_at evt (em_onceHandlers em)\<rparr>,
               map (\<lambda>h. (h, args)) onHandlers @ map (\<lambda>h. (h, args)) onceHandlers))"

definition emitter_offAllEvents :: "('e, 'h, 'a) emitter \<Rightarrow> ('e, 'h, 'a) emitter" where
  "emitter_offAllEvents em = em\<lparr>em_onHandlers := [], em_onceHandlers := []\<rparr>"

definition emitter_hasHandlers :: "'e \<Rightarrow> ('e, 'h, 'a) emitter \<Rightarrow> bool" where
  "emitter_hasHandlers evt em \<longleftrightarrow> at_key (em_onHandlers em) evt \<noteq> [] \<or> at_key (em_onceHandlers em) evt \<noteq> []"

definition emitter_getCachedEvents :: "('e, 'h, 'a) emitter \<Rightarrow> ('e, 'a list) js_map" where
  "emitter_getCachedEvents em =
     fold (\<lambda>(evt, payloads) m. map_set evt payloads m) (em_cachedEvents em) []"

text \<open>The other emitter, this one, and the calls the other one makes.\<close>

definition emitter_moveCachedEventsTo ::
  "('e, 'h, 'a) emitter \<Rightarrow> ('e, 'h, 'a) emitter \<Rightarrow>
   ('e, 'h, 'a) emitter \<times> ('e, 'h, 'a) emitter \<times> ('h, 'a) calls" where
  "emitter_moveCachedEventsTo target em =
     fold (\<lambda>(evt, payloads) s.
       fold (\<lambda>payload (target, em, calls).
         let (target', cs) = emitter_emit evt payload target
         in (target', em\<lparr>em_cachedEvents := map_set evt [] (em_cachedEvents em)\<rparr>, calls @ cs)) payloads s)
       (emitter_getCachedEvents em) (target, em, [])"

definition emitter_dropCachedEvents :: "'e list \<Rightarrow> ('e, 'h, 'a) emitter \<Rightarrow> ('e, 'h, 'a) emitter" where
  "emitter_dropCachedEvents eventsToDrop em =
     em\<lparr>em_cachedEvents := fold (\<lambda>evt m. map_set evt [] m) eventsToDrop (em_cachedEvents em)\<rparr>"

section \<open>Runs\<close>

datatype ('e, 'h, 'a) emitter_op =
    Op_On 'e 'h
  | Op_Once 'e 'h
  | Op_Off 'e "'h option"
  | Op_Emit 'e 'a

fun emitter_apply ::
  "('e, 'h, 'a) emitter_op \<Rightarrow> ('e, 'h, 'a) emitter \<Rightarrow> ('e, 'h, 'a) emitter \<times> ('e \<times> 'h \<times> 'a) list" where
  "emitter_apply (Op_On e h) em = (let (em', cs) = emitter_on e h em in (em', map (Pair e) cs))"
| "emitter_apply (Op_Once e h) em = (let (em', cs) = emitter_once e h em in (em', map (Pair e) cs))"
| "emitter_apply (Op_Off e h) em = (emitter_off e h em, [])"
| "emitter_apply (Op_Emit e a) em = (let (em', cs) = emitter_emit e a em in (em', map (Pair e) cs))"

fun emitter_run ::
  "('e, 'h, 'a) emitter_op list \<Rightarrow> ('e, 'h, 'a) emitter \<Rightarrow> ('e, 'h, 'a) emitter \<times> ('e \<times> 'h \<times> 'a) list" where
  "emitter_run [] em = (em, [])"
| "emitter_run (x # ops) em =
     (let (em1, cs1) = emitter_apply x em; (em2, cs2) = emitter_run ops em1 in (em2, cs1 @ cs2))"

lemma at_key_set [simp]: "at_key (map_set k vs m) k' = (if k' = k then vs else at_key m k')"
  by (simp add: at_key_def)

lemma at_key_delete [simp]:
  "at_key (delete_at k v m) k' = (if k' = k then filter (\<lambda>w. w \<noteq> v) (at_key m k) else at_key m k')"
  by (simp add: at_key_def delete_at_def split: option.split)

lemma at_key_clear [simp]: "at_key (clear_at k m) k' = (if k' = k then [] else at_key m k')"
  by (simp add: at_key_def clear_at_def split: option.split)

text \<open>Payloads of an event: emitted, delivered and kept.\<close>

definition emitted :: "'e \<Rightarrow> ('e, 'h, 'a) emitter_op list \<Rightarrow> 'a list" where
  "emitted e ops = concat (map (\<lambda>x. case x of Op_Emit e' a \<Rightarrow> if e' = e then [a] else [] | _ \<Rightarrow> []) ops)"

definition delivered :: "'e \<Rightarrow> ('e \<times> 'h \<times> 'a) list \<Rightarrow> 'a set" where
  "delivered e cs = {a. \<exists>h. (e, h, a) \<in> set cs}"

definition kept :: "'e \<Rightarrow> ('e, 'h, 'a) emitter \<Rightarrow> 'a set" where
  "kept e em = set (at_key (em_cachedEvents em) e)"

lemma emitted_Cons:
  "emitted e (x # ops) = (case x of Op_Emit e' a \<Rightarrow> if e' = e then [a] else [] | _ \<Rightarrow> []) @ emitted e ops"
  by (simp add: emitted_def)

lemma caching_kept:
  "em_isCaching em \<Longrightarrow> em_isCaching (fst (emitter_apply x em))"
  by (cases x)
    (simp_all add: emitter_on_def emitter_once_def emitter_emitCached_def emitter_off_def emitter_emit_def
      emitter_saveCached_def Let_def split: list.split option.split)

lemma apply_conserves:
  assumes "em_isCaching em"
  shows "kept e em \<union> set (emitted e [x]) \<subseteq>
    delivered e (snd (emitter_apply x em)) \<union> kept e (fst (emitter_apply x em))"
proof (cases x)
  case (Op_Emit e' a)
  then show ?thesis
    using assms by (auto simp: emitter_emit_def Let_def emitter_saveCached_def kept_def delivered_def emitted_def
        neq_Nil_conv)
next
  case (Op_Off e' h)
  then show ?thesis by (auto simp: emitter_off_def kept_def emitted_def split: option.split)
qed (auto simp: emitter_on_def emitter_once_def emitter_emitCached_def kept_def emitted_def delivered_def
    split: list.split)

text \<open>an emitter that caches loses no event: of every event emitted in any sequence of operations that starts
  with a new emitter, the payload was given to some handler or is still kept for the next one.\<close>

theorem caching_loses_nothing:
  assumes "emitter_run ops (emitter_new True) = (em, cs)"
  shows "set (emitted e ops) \<subseteq> {a. \<exists>h. (e, h, a) \<in> set cs} \<union> set (at_key (em_cachedEvents em) e)"
proof -
  have "set (emitted e ops) \<union> kept e em0 \<subseteq>
      delivered e (snd (emitter_run ops em0)) \<union> kept e (fst (emitter_run ops em0))"
    if "em_isCaching em0" for em0 :: "('a, 'b, 'c) emitter"
    using that
  proof (induction ops arbitrary: em0)
    case (Cons x ops)
    obtain em1 cs1 where step: "emitter_apply x em0 = (em1, cs1)" by (cases "emitter_apply x em0")
    obtain em2 cs2 where rest: "emitter_run ops em1 = (em2, cs2)" by (cases "emitter_run ops em1")
    have "kept e em0 \<union> set (emitted e [x]) \<subseteq> delivered e cs1 \<union> kept e em1"
      using apply_conserves [OF Cons.prems, of e x] step by simp
    moreover have "set (emitted e ops) \<union> kept e em1 \<subseteq> delivered e cs2 \<union> kept e em2"
      using Cons.IH [of em1] caching_kept [OF Cons.prems, of x] step rest by simp
    moreover have "delivered e (cs1 @ cs2) = delivered e cs1 \<union> delivered e cs2" by (auto simp: delivered_def)
    moreover have "set (emitted e (x # ops)) = set (emitted e [x]) \<union> set (emitted e ops)"
      by (simp add: emitted_def)
    ultimately show ?case using step rest by auto
  qed (simp add: emitted_def)
  from this [of "emitter_new True"] show ?thesis
    using assms by (simp add: emitter_new_def delivered_def kept_def)
qed

theorem caching_loses_nothing_witness:
  "set (emitted ''message'' [Op_Emit ''message'' (1 :: nat), Op_Once ''message'' ''h'', Op_Emit ''message'' 2])
     \<subseteq> {a. \<exists>h. (''message'', h, a) \<in> set [(''message'', ''h'', 1)]} \<union> {2}"
proof -
  let ?ops = "[Op_Emit ''message'' (1 :: nat), Op_Once ''message'' ''h'', Op_Emit ''message'' 2]"
  obtain em cs where run: "emitter_run ?ops (emitter_new True) = (em, cs)"
    by (cases "emitter_run ?ops (emitter_new True)")
  then have "cs = [(''message'', ''h'', 1)]" "at_key (em_cachedEvents em) ''message'' = [2]"
    by (auto simp: emitter_new_def emitter_emit_def emitter_once_def emitter_emitCached_def emitter_saveCached_def
        at_key_def delete_at_def set_add_def)
  then show ?thesis using caching_loses_nothing [OF run, of "''message''"] by simp
qed

section \<open>Handlers that run once\<close>

definition calls_of :: "'e \<Rightarrow> 'h \<Rightarrow> ('e \<times> 'h \<times> 'a) list \<Rightarrow> nat" where
  "calls_of e h cs = length (filter (\<lambda>(e', h', a). e' = e \<and> h' = h) cs)"

definition once_registrations :: "'e \<Rightarrow> 'h \<Rightarrow> ('e, 'h, 'a) emitter_op list \<Rightarrow> nat" where
  "once_registrations e h ops = length (filter (\<lambda>x. x = Op_Once e h) ops)"

definition waiting :: "'e \<Rightarrow> 'h \<Rightarrow> ('e, 'h, 'a) emitter \<Rightarrow> nat" where
  "waiting e h em = (if h \<in> set (at_key (em_onceHandlers em) e) then 1 else 0)"

definition once_only :: "'e \<Rightarrow> 'h \<Rightarrow> ('e, 'h, 'a) emitter \<Rightarrow> bool" where
  "once_only e h em \<longleftrightarrow>
     h \<notin> set (at_key (em_onHandlers em) e) \<and> distinct (at_key (em_onceHandlers em) e)"

lemma count_distinct: "distinct hs \<Longrightarrow> length (filter (\<lambda>h'. h' = h) hs) = (if h \<in> set hs then 1 else 0)"
  by (induction hs) auto

lemma calls_of_emit:
  "calls_of e h (map (Pair e') (map (\<lambda>h. (h, a)) hs)) =
     (if e' = e then length (filter (\<lambda>h'. h' = h) hs) else 0)"
  by (induction hs) (auto simp: calls_of_def)

lemma calls_of_append [simp]: "calls_of e h (cs @ ds) = calls_of e h cs + calls_of e h ds"
  by (simp add: calls_of_def)

lemma calls_of_others [simp]: "h' \<noteq> h \<Longrightarrow> calls_of e h (map (\<lambda>args. (e', h', args)) as) = 0"
  by (induction as) (simp_all add: calls_of_def)

lemma calls_of_other_event [simp]: "e' \<noteq> e \<Longrightarrow> calls_of e h (map (\<lambda>args. (e', h', args)) as) = 0"
  by (induction as) (simp_all add: calls_of_def)

lemma apply_once_only:
  assumes "once_only e h em" "x \<noteq> Op_On e h"
  shows "once_only e h (fst (emitter_apply x em))
    \<and> calls_of e h (snd (emitter_apply x em)) + waiting e h (fst (emitter_apply x em))
        \<le> waiting e h em + once_registrations e h [x]"
proof (cases x)
  case (Op_On e' h')
  then have "e' \<noteq> e \<or> h' \<noteq> h" using assms(2) by simp
  then show ?thesis
    using assms(1) Op_On
    by (auto simp: emitter_on_def emitter_emitCached_def once_only_def waiting_def comp_def
        split: list.split) (simp_all add: calls_of_def)
next
  case (Op_Once e' h')
  then show ?thesis
    using assms(1)
    by (auto simp: emitter_once_def emitter_emitCached_def once_only_def waiting_def once_registrations_def
        calls_of_def split: list.split)
next
  case (Op_Off e' h')
  then show ?thesis
    using assms(1)
    by (auto simp: emitter_off_def once_only_def waiting_def once_registrations_def calls_of_def split: option.split)
next
  case (Op_Emit e' a)
  have "length (filter (\<lambda>h'. h' = h) (at_key (em_onHandlers em) e)) = 0"
    using assms(1) by (auto simp: once_only_def filter_empty_conv)
  then have "calls_of e h (map (Pair e') (map (\<lambda>h. (h, a)) (at_key (em_onHandlers em) e') @
        map (\<lambda>h. (h, a)) (at_key (em_onceHandlers em) e'))) = (if e' = e then waiting e h em else 0)"
    using assms(1) unfolding map_append calls_of_append calls_of_emit
    by (simp add: once_only_def waiting_def count_distinct)
  then show ?thesis
    using assms(1) Op_Emit
    by (simp add: emitter_emit_def emitter_saveCached_def Let_def once_only_def waiting_def once_registrations_def)
      (simp add: calls_of_def)
qed

text \<open>a handler that is registered with \<open>once\<close> only is called at most as often as it was registered, cached
  events included.\<close>

theorem once_handlers_run_once:
  assumes "Op_On e h \<notin> set ops" "emitter_run ops (emitter_new caching) = (em, cs)"
  shows "calls_of e h cs \<le> length (filter (\<lambda>x. x = Op_Once e h) ops)"
proof -
  have "calls_of e h (snd (emitter_run ops em0)) \<le> waiting e h em0 + once_registrations e h ops"
    if "once_only e h em0" for em0
    using that assms(1)
  proof (induction ops arbitrary: em0)
    case (Cons x ops)
    obtain em1 cs1 where step: "emitter_apply x em0 = (em1, cs1)" by (cases "emitter_apply x em0")
    obtain em2 cs2 where rest: "emitter_run ops em1 = (em2, cs2)" by (cases "emitter_run ops em1")
    have "once_only e h em1 \<and> calls_of e h cs1 + waiting e h em1 \<le> waiting e h em0 + once_registrations e h [x]"
      using apply_once_only [OF Cons.prems(1), of x] Cons.prems(2) step by auto
    moreover from this have "calls_of e h cs2 \<le> waiting e h em1 + once_registrations e h ops"
      using Cons.IH [of em1] Cons.prems(2) rest by simp
    ultimately show ?case using step rest by (simp add: once_registrations_def split: if_splits)
  qed (simp add: calls_of_def)
  from this [of "emitter_new caching"] show ?thesis
    using assms(2) by (simp add: emitter_new_def once_only_def at_key_def waiting_def once_registrations_def)
qed

theorem once_handlers_run_once_witness:
  "calls_of ''e'' ''h'' [(''e'', ''h'', 1 :: nat)] \<le> 1"
proof -
  have "emitter_run [Op_Once ''e'' ''h'', Op_Emit ''e'' (1 :: nat), Op_Emit ''e'' 2] (emitter_new False) =
      (\<lparr>em_onHandlers = [], em_onceHandlers = [(''e'', [])], em_cachedEvents = [], em_isCaching = False\<rparr>,
       [(''e'', ''h'', 1)])"
    by (simp add: emitter_new_def emitter_emit_def emitter_once_def emitter_emitCached_def at_key_def clear_at_def
        set_add_def)
  from once_handlers_run_once [OF _ this, of "''e''" "''h''"] show ?thesis by simp
qed

end
