(* ===== verification/JS_Number.thy ===== *)
theory JS_Number
  imports Prelude "HOL-Library.Log_Nat"
begin

text \<open>
  The language's numbers.  A finite number is a rational, and each arithmetic operation is the exact
  rational operation followed by \<open>fl\<close>, rounding to the nearest IEEE double with ties to even and
  gradual underflow (results beyond the largest double, which the sources' times and counters do not
  reach, are not represented as infinities).  Integers whose size the sources bound (ports,
  identities, counters) are \<open>int\<close>.

  \<open>to_number\<close> is \<open>Number(s)\<close> on strings and \<open>parse_int\<close> is \<open>parseInt(s)\<close>; \<open>int_to_string\<close> is the
  decimal conversion of an integer in a template or a \<open>join\<close>.
\<close>

named_theorems js_number "laws of rounding and conversion"

section \<open>Rounding\<close>

text \<open>The exponent of the leading binary digit of a positive rational.\<close>

definition ilog2 :: "rat \<Rightarrow> int" where
  "ilog2 x =
     (let (p, q) = quotient_of x;
          k = int (floorlog 2 (nat p)) - int (floorlog 2 (nat q))
      in if 2 powi k \<le> x then k else k - 1)"

text \<open>To the nearest integer, ties to even.\<close>

definition round_even :: "rat \<Rightarrow> int" where
  "round_even x =
     (let f = \<lfloor>x\<rfloor>; d = x - of_int f
      in if d < 1/2 then f else if 1/2 < d then f + 1 else if even f then f else f + 1)"

definition ulp_exp :: "rat \<Rightarrow> int" where
  "ulp_exp x = max (-1074) (ilog2 x - 52)"

definition fl_pos :: "rat \<Rightarrow> rat" where
  "fl_pos x = of_int (round_even (x / 2 powi ulp_exp x)) * 2 powi ulp_exp x"

definition fl :: "rat \<Rightarrow> rat" where
  "fl x = (if x = 0 then 0 else if 0 < x then fl_pos x else - fl_pos (- x))"

abbreviation js_add :: "rat \<Rightarrow> rat \<Rightarrow> rat" where "js_add x y \<equiv> fl (x + y)"
abbreviation js_sub :: "rat \<Rightarrow> rat \<Rightarrow> rat" where "js_sub x y \<equiv> fl (x - y)"
abbreviation js_mul :: "rat \<Rightarrow> rat \<Rightarrow> rat" where "js_mul x y \<equiv> fl (x * y)"
abbreviation js_div :: "rat \<Rightarrow> rat \<Rightarrow> rat" where "js_div x y \<equiv> fl (x / y)"

subsection \<open>The leading binary digit\<close>

lemma floorlog_powi:
  assumes "0 < p"
  shows "2 powi (int (floorlog 2 (nat p)) - 1) \<le> (of_int p :: rat)"
    and "(of_int p :: rat) < 2 powi int (floorlog 2 (nat p))"
proof -
  let ?k = "floorlog 2 (nat p)"
  have p: "0 < nat p" using assms by simp
  then have k: "0 < ?k" using floorlog_eq_zero_iff [of 2 "nat p"] by auto
  have b: "2 ^ (?k - 1) \<le> nat p \<and> nat p < 2 ^ ?k"
    using floorlog_bounds [of "nat p" 2] p by simp
  have e: "int ?k - 1 = int (?k - 1)" using k by simp
  have "(of_nat (2 ^ (?k - 1)) :: rat) \<le> of_nat (nat p)" using b by (intro of_nat_mono) blast
  then show "2 powi (int ?k - 1) \<le> (of_int p :: rat)" using assms unfolding e by simp
  have "(of_nat (nat p) :: rat) < of_nat (2 ^ ?k)" using b by (simp only: of_nat_less_iff)
  then show "(of_int p :: rat) < 2 powi int ?k" using assms by simp
qed

text \<open>The number of binary digits, counted on integers, so that rounding can be evaluated.\<close>

fun bit_count :: "int \<Rightarrow> int" where
  "bit_count p = (if p \<le> 0 then 0 else 1 + bit_count (p div 2))"

declare bit_count.simps [simp del]

lemma bit_count_floorlog: "bit_count p = int (floorlog 2 (nat p))"
proof (induction p rule: bit_count.induct)
  case (1 p)
  show ?case
  proof (cases "p \<le> 0")
    case False
    then have "floorlog 2 (nat p) = floorlog 2 (nat p div 2) + 1" by (subst compute_floorlog) simp
    moreover have "nat p div 2 = nat (p div 2)" by (simp add: nat_div_distrib)
    ultimately show ?thesis using 1 False by (simp add: bit_count.simps [of p])
  qed (simp add: bit_count.simps floorlog_eq_zero_iff)
qed

lemma ilog2_code [code]:
  "ilog2 x = (let (p, q) = quotient_of x; k = bit_count p - bit_count q in if 2 powi k \<le> x then k else k - 1)"
  by (simp add: ilog2_def bit_count_floorlog)

lemma powi2_pos [simp]: "0 < (2 powi k :: rat)"
  by (simp add: zero_less_power_int)

lemma powi2_mono: "j \<le> k \<Longrightarrow> (2 powi j :: rat) \<le> 2 powi k"
  by (rule power_int_increasing) auto

lemma powi2_less: "(2 powi j :: rat) < 2 powi k \<Longrightarrow> j < k"
  by (meson leD not_le powi2_mono)

lemma powi2_add: "(2 powi (j + k) :: rat) = 2 powi j * 2 powi k"
  by (simp add: power_int_add)

lemma ilog2_bounds:
  assumes "0 < x"
  shows "2 powi ilog2 x \<le> x" and "x < 2 powi (ilog2 x + 1)"
proof -
  obtain p q where pq: "quotient_of x = (p, q)" by force
  have q: "0 < q" using pq by (rule quotient_of_denom_pos)
  have x: "x = of_int p / of_int q" using pq by (rule quotient_of_div)
  have p: "0 < p" using assms q by (simp add: x zero_less_divide_iff)
  let ?a = "int (floorlog 2 (nat p))" and ?b = "int (floorlog 2 (nat q))"
  note P = floorlog_powi [OF p] and Q = floorlog_powi [OF q]
  have q0: "0 < (of_int q :: rat)" using q by simp
  have "x * of_int q < 2 powi ?a" using P(2) q0 by (simp add: x)
  also have "2 powi ?a = 2 powi (?a - ?b + 1) * (2 powi (?b - 1) :: rat)"
    by (simp flip: powi2_add)
  also have "\<dots> \<le> 2 powi (?a - ?b + 1) * of_int q"
    using Q(1) by (intro mult_left_mono) auto
  finally have hi: "x < 2 powi (?a - ?b + 1)" using q0 by simp
  have "2 powi (?a - ?b - 1) * of_int q \<le> 2 powi (?a - ?b - 1) * (2 powi ?b :: rat)"
    using Q(2) by (intro mult_left_mono) auto
  also have "\<dots> = 2 powi (?a - 1)" by (simp flip: powi2_add del: power_int_of_nat)
  also have "\<dots> \<le> x * of_int q" using P(1) q0 by (simp add: x)
  finally have lo: "2 powi (?a - ?b - 1) \<le> x" using q0 by simp
  show "2 powi ilog2 x \<le> x" and "x < 2 powi (ilog2 x + 1)"
    using hi lo by (auto simp: ilog2_def pq Let_def)
qed

lemma ilog2_mono: "0 < x \<Longrightarrow> x \<le> y \<Longrightarrow> ilog2 x \<le> ilog2 y"
  using powi2_less [of "ilog2 x" "ilog2 y + 1"] ilog2_bounds(1) [of x] ilog2_bounds(2) [of y]
  by simp

lemma ilog2_powi [simp]: "ilog2 (2 powi k) = k"
proof -
  let ?l = "ilog2 (2 powi k)"
  have "k < ?l + 1" by (rule powi2_less) (simp add: ilog2_bounds(2))
  moreover have "\<not> k + 1 \<le> ?l"
  proof
    assume "k + 1 \<le> ?l"
    then have "2 powi (k + 1) \<le> (2 powi ?l :: rat)" by (rule powi2_mono)
    also have "\<dots> \<le> 2 powi k" by (simp add: ilog2_bounds(1))
    finally show False by (simp add: powi2_add)
  qed
  ultimately show ?thesis by simp
qed

lemma ulp_exp_mono: "0 < x \<Longrightarrow> x \<le> y \<Longrightarrow> ulp_exp x \<le> ulp_exp y"
  by (simp add: ulp_exp_def ilog2_mono max.coboundedI2)

subsection \<open>Rounding is monotone, odd, and exact on the doubles\<close>

lemma round_even_of_int [simp]: "round_even (of_int k) = k"
  by (simp add: round_even_def)

lemma round_even_bounds: "\<lfloor>x\<rfloor> \<le> round_even x \<and> round_even x \<le> \<lfloor>x\<rfloor> + 1"
  by (auto simp: round_even_def Let_def)

lemma round_even_mono:
  assumes "x \<le> y"
  shows "round_even x \<le> round_even y"
proof (cases "\<lfloor>x\<rfloor> = \<lfloor>y\<rfloor>")
  case True
  with assms show ?thesis by (auto simp: round_even_def Let_def)
next
  case False
  with assms have "\<lfloor>x\<rfloor> + 1 \<le> \<lfloor>y\<rfloor>" using floor_mono [OF assms] by linarith
  with round_even_bounds [of x] round_even_bounds [of y] show ?thesis by linarith
qed

lemma round_even_ge: "of_int k \<le> x \<Longrightarrow> k \<le> round_even x"
  using round_even_mono [of "of_int k" x] by simp

lemma round_even_le: "x \<le> of_int k \<Longrightarrow> round_even x \<le> k"
  using round_even_mono [of x "of_int k"] by simp

lemma fl_pos_upper:
  assumes "0 < x" "x \<le> 2 powi k" "ulp_exp x \<le> k"
  shows "fl_pos x \<le> 2 powi k"
proof -
  let ?u = "2 powi ulp_exp x :: rat"
  obtain n where n: "k - ulp_exp x = int n" using assms(3) by (metis diff_ge_0_iff_ge nonneg_int_cases)
  have k: "(2 powi k :: rat) = of_int (2 ^ n) * ?u"
    using n powi2_add [of "int n" "ulp_exp x"] by (simp add: algebra_simps)
  have "x / ?u \<le> of_int (2 ^ n)" using assms(2) k by (simp add: pos_divide_le_eq)
  then have "round_even (x / ?u) \<le> 2 ^ n" by (rule round_even_le)
  then have "(of_int (round_even (x / ?u)) :: rat) \<le> of_int (2 ^ n)" by (simp only: of_int_le_iff)
  then show ?thesis unfolding fl_pos_def k by (intro mult_right_mono) auto
qed

lemma fl_pos_lower:
  assumes "0 < x" "2 powi k \<le> x" "ulp_exp x \<le> k"
  shows "2 powi k \<le> fl_pos x"
proof -
  let ?u = "2 powi ulp_exp x :: rat"
  obtain n where n: "k - ulp_exp x = int n" using assms(3) by (metis diff_ge_0_iff_ge nonneg_int_cases)
  have k: "(2 powi k :: rat) = of_int (2 ^ n) * ?u"
    using n powi2_add [of "int n" "ulp_exp x"] by (simp add: algebra_simps)
  have "of_int (2 ^ n) \<le> x / ?u" using assms(2) k by (simp add: pos_le_divide_eq)
  then have "2 ^ n \<le> round_even (x / ?u)" by (rule round_even_ge)
  then have "of_int (2 ^ n) \<le> (of_int (round_even (x / ?u)) :: rat)" by (simp only: of_int_le_iff)
  then show ?thesis unfolding fl_pos_def k by (intro mult_right_mono) auto
qed

lemma fl_pos_nonneg: "0 < x \<Longrightarrow> 0 \<le> fl_pos x"
  unfolding fl_pos_def using round_even_ge [of 0 "x / 2 powi ulp_exp x"] by simp

lemma fl_pos_mono:
  assumes "0 < x" "x \<le> y"
  shows "fl_pos x \<le> fl_pos y"
proof (cases "ulp_exp x = ulp_exp y")
  case True
  have "round_even (x / 2 powi ulp_exp y) \<le> round_even (y / 2 powi ulp_exp y)"
    using assms by (intro round_even_mono divide_right_mono) auto
  then show ?thesis unfolding fl_pos_def True by (intro mult_right_mono) auto
next
  case False
  then have lt: "ulp_exp x < ulp_exp y" using ulp_exp_mono [OF assms] by simp
  then have y: "ulp_exp y = ilog2 y - 52" by (auto simp: ulp_exp_def)
  have "x < 2 powi (ilog2 x + 1)" using assms(1) by (rule ilog2_bounds(2))
  also have "\<dots> \<le> 2 powi ilog2 y"
    using lt y by (intro powi2_mono) (auto simp: ulp_exp_def)
  finally have "fl_pos x \<le> 2 powi ilog2 y"
    using lt y assms(1) by (intro fl_pos_upper) auto
  also have "\<dots> \<le> fl_pos y"
    using assms y by (intro fl_pos_lower ilog2_bounds(1)) auto
  finally show ?thesis .
qed

lemma fl_zero [simp]: "fl 0 = 0"
  by (simp add: fl_def)

lemma fl_uminus [js_number]: "fl (- x) = - fl x"
  by (simp add: fl_def)

lemma fl_nonneg: "0 \<le> x \<Longrightarrow> 0 \<le> fl x"
  by (simp add: fl_def fl_pos_nonneg)

lemma fl_mono [js_number]: "x \<le> y \<Longrightarrow> fl x \<le> fl y"
proof (cases "0 < x")
  case True
  then show "x \<le> y \<Longrightarrow> fl x \<le> fl y" by (simp add: fl_def fl_pos_mono)
next
  case False
  then show "fl x \<le> fl y" if "x \<le> y"
  proof (cases "0 \<le> y")
    case True
    have "0 \<le> fl (- x)" using False by (intro fl_nonneg) simp
    then show ?thesis using fl_nonneg [OF True] by (simp add: fl_uminus)
  next
    case False
    with that show ?thesis by (auto simp: fl_def intro: fl_pos_mono)
  qed
qed

text \<open>Every result is a multiple of the smallest positive double, and on multiples of it rounding
  keeps the sign: this is what makes the sign of a difference of doubles reliable.\<close>

definition on_grid :: "rat \<Rightarrow> bool" where
  "on_grid x \<longleftrightarrow> x * 2 ^ 1074 \<in> \<int>"

lemma on_grid_fl_pos: "on_grid (fl_pos x)"
proof -
  obtain n where "ulp_exp x + 1074 = int n"
    by (metis add.commute diff_minus_eq_add max.cobounded1 nonneg_int_cases ulp_exp_def diff_ge_0_iff_ge)
  then have "2 powi ulp_exp x * (2 powi 1074 :: rat) = 2 ^ n"
    by (simp flip: powi2_add del: power_int_numeral)
  then have "fl_pos x * 2 ^ 1074 = of_int (round_even (x / 2 powi ulp_exp x) * 2 ^ n)"
    by (simp add: fl_pos_def)
  then show ?thesis unfolding on_grid_def by (metis Ints_of_int)
qed

lemma on_grid_fl [simp]: "on_grid (fl x)"
proof -
  have "on_grid (- y)" if "on_grid y" for y using that by (simp add: on_grid_def)
  moreover have "on_grid 0" by (simp add: on_grid_def)
  ultimately show ?thesis by (auto simp: fl_def on_grid_fl_pos)
qed

lemma on_grid_diff: "on_grid x \<Longrightarrow> on_grid y \<Longrightarrow> on_grid (x - y)"
  by (simp add: on_grid_def left_diff_distrib)

lemma fl_grid_pos:
  assumes "on_grid x" "0 < x"
  shows "0 < fl x"
proof -
  obtain k where k: "x * 2 ^ 1074 = of_int k" using assms(1) by (auto simp: on_grid_def elim: Ints_cases)
  have "0 < x * 2 ^ 1074" using assms(2) by simp
  then have "1 \<le> k" unfolding k by simp
  then have "(1 :: rat) \<le> of_int k" by (simp only: of_int_1_le_iff)
  then have "1 \<le> x * 2 ^ 1074" by (simp only: k)
  then have "2 powi (-1074) \<le> x" by (simp add: power_int_minus divide_simps)
  then have "fl (2 powi (-1074)) \<le> fl x" by (rule fl_mono)
  moreover have "2 powi (-1074) \<le> fl_pos (2 powi (-1074))"
    by (rule fl_pos_lower) (simp_all only: powi2_pos order_refl ulp_exp_def ilog2_powi)
  ultimately show ?thesis
    using powi2_pos [of "-1074"] unfolding fl_def [of "2 powi (-1074)"]
    by (smt (verit) order_less_le_trans)
qed

lemma fl_sub_pos_iff [js_number]: "0 < js_sub (fl x) (fl y) \<longleftrightarrow> fl y < fl x"
proof
  assume "0 < js_sub (fl x) (fl y)"
  then show "fl y < fl x" using fl_mono [of "fl x - fl y" 0] by fastforce
next
  assume "fl y < fl x"
  then show "0 < js_sub (fl x) (fl y)" by (intro fl_grid_pos on_grid_diff) auto
qed

lemma fl_sub_neg_iff [js_number]: "js_sub (fl x) (fl y) < 0 \<longleftrightarrow> fl x < fl y"
  using fl_sub_pos_iff [of y x] fl_uminus [of "fl x - fl y"] by simp

lemma fl_sub_zero_iff [js_number]: "js_sub (fl x) (fl y) = 0 \<longleftrightarrow> fl x = fl y"
  using fl_sub_pos_iff [of x y] fl_sub_neg_iff [of x y] by (metis linorder_neq_iff)

lemma fl_sub_le_iff [js_number]: "js_sub (fl x) (fl y) \<le> 0 \<longleftrightarrow> fl x \<le> fl y"
  using fl_sub_pos_iff [of x y] by (simp add: linorder_not_less [symmetric])


text \<open>The integers of up to 53 bits are doubles.\<close>

lemma fl_pos_scaled:
  assumes "0 < k" "k < 2 ^ 53" "n \<le> 1074"
  shows "fl_pos (of_int k / 2 ^ n) = of_int k / 2 ^ n"
proof -
  let ?x = "of_int k / 2 ^ n :: rat"
  have "(of_int k :: rat) < of_int (2 ^ 53)" using assms(2) by (simp only: of_int_less_iff)
  then have "?x < 2 powi 53 / 2 ^ n" by (simp add: divide_strict_right_mono)
  also have "\<dots> = 2 powi (53 - int n)" by (simp add: power_int_diff)
  finally have "?x < 2 powi (53 - int n)" .
  moreover have "2 powi ilog2 ?x \<le> ?x" using assms(1) by (intro ilog2_bounds(1)) simp
  ultimately have "2 powi ilog2 ?x < (2 powi (53 - int n) :: rat)" by (rule order.strict_trans1 [rotated])
  then have "ilog2 ?x < 53 - int n" by (rule powi2_less)
  then have "ulp_exp ?x \<le> - int n" using assms(3) by (simp add: ulp_exp_def)
  then have m: "ulp_exp ?x = - int (n + nat (- int n - ulp_exp ?x))" by simp
  define m where "m = nat (- int n - ulp_exp ?x)"
  note m = m [folded m_def]
  have "?x / 2 powi ulp_exp ?x = (of_int (k * 2 ^ m) :: rat)"
    unfolding m power_int_minus power_int_of_nat
    by (simp add: divide_inverse power_add flip: of_nat_add)
  then have "fl_pos ?x = of_int (k * 2 ^ m) * 2 powi (- int (n + m))"
    by (simp only: fl_pos_def round_even_of_int m)
  then show ?thesis
    unfolding power_int_minus power_int_of_nat by (simp add: power_add divide_inverse)
qed

lemma fl_scaled [js_number]: "\<bar>k\<bar> < 2 ^ 53 \<Longrightarrow> n \<le> 1074 \<Longrightarrow> fl (of_int k / 2 ^ n) = of_int k / 2 ^ n"
  using fl_pos_scaled [of k n] fl_pos_scaled [of "- k" n]
  by (auto simp: fl_def divide_less_0_iff zero_less_divide_iff)

lemma fl_of_int [js_number]: "\<bar>k\<bar> < 2 ^ 53 \<Longrightarrow> fl (of_int k) = of_int k"
  using fl_scaled [of k 0] by simp

text \<open>Rounding \<open>q + r / 1000\<close> for a whole number of thousandths does not reach the next integer while
  \<open>q\<close> has at most 42 bits.\<close>

lemma fl_thousandths:
  assumes "0 \<le> q" "q < 2 ^ 42" "0 \<le> r" "r < 1000"
  shows "of_int q \<le> fl (of_int q + of_int r / 1000)"
    and "fl (of_int q + of_int r / 1000) < of_int q + 1"
    and "\<lfloor>fl (of_int q + of_int r / 1000)\<rfloor> = q"
proof -
  have "of_int q \<le> (of_int q + of_int r / 1000 :: rat)" using assms by simp
  then have "fl (of_int q) \<le> fl (of_int q + of_int r / 1000)" by (rule fl_mono)
  then show lo: "of_int q \<le> fl (of_int q + of_int r / 1000)" using assms by (simp add: fl_of_int)
  let ?k = "q * 2 ^ 10 + 1023 :: int"
  have "(of_int r :: rat) \<le> 999" using assms(4) by simp
  then have "(of_int r / 1000 :: rat) \<le> 1023 / 2 ^ 10" by simp
  then have "(of_int q + of_int r / 1000 :: rat) \<le> of_int ?k / 2 ^ 10" by (simp add: add_divide_distrib)
  then have "fl (of_int q + of_int r / 1000) \<le> fl (of_int ?k / 2 ^ 10)" by (rule fl_mono)
  also have "\<dots> = of_int ?k / 2 ^ 10" using assms by (intro fl_scaled) auto
  also have "\<dots> < of_int q + 1" by (simp add: add_divide_distrib)
  finally show "fl (of_int q + of_int r / 1000) < of_int q + 1" .
  with lo show "\<lfloor>fl (of_int q + of_int r / 1000)\<rfloor> = q" by (simp add: floor_eq_iff)
qed

section \<open>Conversions\<close>

datatype js_num = JNaN | JInf bool | JNum rat

definition js_finite :: "rat \<Rightarrow> js_num" where
  "js_finite x = (let y = fl x in if \<bar>y\<bar> < 2 ^ 1024 then JNum y else JInf (y < 0))"

definition js_neg :: "js_num \<Rightarrow> js_num" where
  "js_neg n = (case n of JNaN \<Rightarrow> JNaN | JInf b \<Rightarrow> JInf (\<not> b) | JNum x \<Rightarrow> JNum (- x))"

text \<open>The value of a digit, of a letter 10 and up.\<close>

definition digit_of :: "char \<Rightarrow> nat option" where
  "digit_of c =
     (let n = (of_char c :: nat)
      in if 48 \<le> n \<and> n \<le> 57 then Some (n - 48)
         else if 97 \<le> n \<and> n \<le> 122 then Some (n - 87)
         else if 65 \<le> n \<and> n \<le> 90 then Some (n - 55) else None)"

definition is_digit :: "nat \<Rightarrow> char \<Rightarrow> bool" where
  "is_digit b c = (case digit_of c of None \<Rightarrow> False | Some d \<Rightarrow> d < b)"

definition digits_val :: "nat \<Rightarrow> string \<Rightarrow> nat" where
  "digits_val b s = foldl (\<lambda>acc c. acc * b + (case digit_of c of None \<Rightarrow> 0 | Some d \<Rightarrow> d)) 0 s"

text \<open>An exponent part: nothing, or e, a sign and digits.\<close>

definition parse_exponent :: "string \<Rightarrow> int option" where
  "parse_exponent s =
     (case s of
        [] \<Rightarrow> Some 0
      | c # t \<Rightarrow>
          if c = CHR ''e'' \<or> c = CHR ''E''
          then (let neg = (take 1 t = ''-'');
                    ds = (if take 1 t = ''-'' \<or> take 1 t = ''+'' then drop 1 t else t)
                in if ds \<noteq> [] \<and> list_all (is_digit 10) ds
                   then Some (if neg then - int (digits_val 10 ds) else int (digits_val 10 ds))
                   else None)
          else None)"

definition parse_decimal :: "string \<Rightarrow> js_num" where
  "parse_decimal s =
     (if s = ''Infinity'' then JInf False
      else (let ip = takeWhile (is_digit 10) s; r = dropWhile (is_digit 10) s;
                fp = (if take 1 r = ''.'' then takeWhile (is_digit 10) (drop 1 r) else []);
                r' = (if take 1 r = ''.'' then dropWhile (is_digit 10) (drop 1 r) else r)
            in if ip = [] \<and> fp = [] then JNaN
               else (case parse_exponent r' of
                       None \<Rightarrow> JNaN
                     | Some e \<Rightarrow>
                         js_finite (of_nat (digits_val 10 (ip @ fp)) * 10 powi (e - int (length fp))))))"

definition radix_prefix :: "string \<Rightarrow> nat option" where
  "radix_prefix s =
     (let p = to_lower (take 2 s)
      in if p = ''0x'' then Some 16 else if p = ''0o'' then Some 8 else if p = ''0b'' then Some 2
         else None)"

text \<open>\<open>Number(s)\<close>, also written \<open>+s\<close>.\<close>

definition to_number :: "string \<Rightarrow> js_num" where
  "to_number s =
     (let t = trim s
      in if t = [] then JNum 0
         else (case radix_prefix t of
                 Some b \<Rightarrow>
                   (let ds = drop 2 t
                    in if ds \<noteq> [] \<and> list_all (is_digit b) ds
                       then js_finite (of_nat (digits_val b ds)) else JNaN)
               | None \<Rightarrow>
                   if take 1 t = ''-'' then js_neg (parse_decimal (drop 1 t))
                   else if take 1 t = ''+'' then parse_decimal (drop 1 t)
                   else parse_decimal t))"

text \<open>\<open>parseInt(s)\<close> with no radix, \<open>None\<close> for \<open>NaN\<close>: the longest prefix of digits counts.\<close>

definition parse_int :: "string \<Rightarrow> int option" where
  "parse_int s =
     (let t = dropWhile is_space s;
          neg = (take 1 t = ''-'');
          u = (if take 1 t = ''-'' \<or> take 1 t = ''+'' then drop 1 t else t);
          hex = (to_lower (take 2 u) = ''0x'');
          b = (if hex then 16 else 10);
          ds = takeWhile (is_digit b) (if hex then drop 2 u else u)
      in if ds = [] then None
         else (let n = \<lfloor>fl (of_nat (digits_val b ds))\<rfloor> in Some (if neg then - n else n)))"

text \<open>The decimal string of an integer.\<close>

fun nat_to_string :: "nat \<Rightarrow> string" where
  "nat_to_string n =
     (if n < 10 then [char_of (48 + n)]
      else nat_to_string (n div 10) @ [char_of (48 + n mod 10)])"

declare nat_to_string.simps [simp del]

definition int_to_string :: "int \<Rightarrow> string" where
  "int_to_string k = (if k < 0 then CHR ''-'' # nat_to_string (nat (- k)) else nat_to_string (nat k))"

subsection \<open>Decimal strings\<close>

lemma digit_of_char_of [simp]: "(d :: nat) < 10 \<Longrightarrow> digit_of (char_of (48 + d)) = Some d"
  by (simp add: digit_of_def Let_def)

lemma is_digit_char_of [simp]: "(d :: nat) < 10 \<Longrightarrow> is_digit 10 (char_of (48 + d))"
  by (simp add: is_digit_def)

lemma nat_to_string_digits: "list_all (is_digit 10) (nat_to_string n)"
proof (induction n rule: nat_to_string.induct)
  case (1 n)
  then show ?case by (subst nat_to_string.simps) simp
qed

lemma nat_to_string_not_Nil [simp]: "nat_to_string n \<noteq> []"
  by (subst nat_to_string.simps) simp

lemma digits_val_append: "digits_val b (s @ [c]) = digits_val b s * b + (case digit_of c of None \<Rightarrow> 0 | Some d \<Rightarrow> d)"
  by (simp add: digits_val_def)

lemma digits_val_nat_to_string [simp, js_number]: "digits_val 10 (nat_to_string n) = n"
proof (induction n rule: nat_to_string.induct)
  case (1 n)
  show ?case
  proof (cases "n < 10")
    case True
    then show ?thesis by (subst nat_to_string.simps) (simp add: digits_val_def)
  next
    case False
    with 1 show ?thesis by (subst nat_to_string.simps) (simp add: digits_val_append)
  qed
qed

lemma is_digit_10_iff: "is_digit 10 c \<longleftrightarrow> 48 \<le> (of_char c :: nat) \<and> (of_char c :: nat) \<le> 57"
  by (auto simp: is_digit_def digit_of_def Let_def split: if_splits)

lemma digit_neq [simp]:
  assumes "is_digit 10 c"
  shows "c \<noteq> CHR ''-''" "c \<noteq> CHR ''+''" "c \<noteq> CHR '',''" "c \<noteq> CHR ''x''" "c \<noteq> CHR ''X''"
    "c \<noteq> CHR ''I''" "c \<noteq> CHR ''.''" "c \<noteq> CHR '':''" "c \<noteq> CHR ''=''" "c \<noteq> CHR ''e''" "\<not> is_space c" "\<not> (9 \<le> (of_char c :: nat) \<and> (of_char c :: nat) \<le> 13)"
  using assms by (auto simp: is_digit_10_iff is_space_def Let_def)

lemma nat_to_string_inj [simp]: "nat_to_string m = nat_to_string n \<longleftrightarrow> m = n"
  by (metis digits_val_nat_to_string)

lemma int_to_string_chars: "c \<in> set (int_to_string k) \<Longrightarrow> is_digit 10 c \<or> c = CHR ''-''"
  using nat_to_string_digits [of "nat k"] nat_to_string_digits [of "nat (- k)"]
  by (auto simp: int_to_string_def list_all_iff split: if_splits)

lemma int_to_string_not_Nil [simp]: "int_to_string k \<noteq> []"
  by (simp add: int_to_string_def)

lemma nat_to_string_hd: "nat_to_string n = c # s \<Longrightarrow> is_digit 10 c"
  using nat_to_string_digits [of n] by simp

lemma int_to_string_inj [simp, js_number]: "int_to_string j = int_to_string k \<longleftrightarrow> j = k"
proof
  assume eq: "int_to_string j = int_to_string k"
  have neq: "CHR ''-'' # s \<noteq> nat_to_string n" for s n
    using nat_to_string_hd [of n "CHR ''-''" s] digit_neq(1) by metis
  from eq show "j = k"
    by (auto simp: int_to_string_def neq neq [symmetric] split: if_splits)
qed simp

lemma trim_digits: "(\<And>c. c \<in> set s \<Longrightarrow> \<not> is_space c) \<Longrightarrow> trim s = s"
  unfolding trim_def by (metis dropWhile_eq_self_iff list.set_sel(1) rev_rev_ident set_rev)

lemma parse_decimal_nat: "parse_decimal (nat_to_string n) = js_finite (of_nat n)"
proof -
  have d: "list_all (is_digit 10) (nat_to_string n)" by (rule nat_to_string_digits)
  then have "takeWhile (is_digit 10) (nat_to_string n) = nat_to_string n"
    and "dropWhile (is_digit 10) (nat_to_string n) = []"
    by (simp_all add: list_all_iff)
  moreover have "nat_to_string n \<noteq> ''Infinity''"
    using d by (auto simp: is_digit_10_iff)
  ultimately show ?thesis by (simp add: parse_decimal_def parse_exponent_def Let_def
        del: takeWhile_eq_all_conv dropWhile_eq_Nil_conv)
qed

lemma radix_prefix_nat: "radix_prefix (nat_to_string n) = None"
proof -
  have "\<not> (\<exists>c. nat_to_string n = [a, c] @ t \<and> (lower_char c = CHR ''x'' \<or> lower_char c = CHR ''o'' \<or> lower_char c = CHR ''b''))" for a t
  proof
    assume "\<exists>c. nat_to_string n = [a, c] @ t \<and> (lower_char c = CHR ''x'' \<or> lower_char c = CHR ''o'' \<or> lower_char c = CHR ''b'')"
    then obtain c where c: "nat_to_string n = [a, c] @ t"
      and l: "lower_char c = CHR ''x'' \<or> lower_char c = CHR ''o'' \<or> lower_char c = CHR ''b''" by blast
    have "is_digit 10 c" using nat_to_string_digits [of n] by (simp add: c)
    then have "lower_char c = c" by (simp add: lower_char_def is_digit_10_iff Let_def)
    with l \<open>is_digit 10 c\<close> show False by (auto simp: is_digit_10_iff)
  qed
  then show ?thesis
    by (cases "nat_to_string n"; cases "tl (nat_to_string n)")
      (auto simp: radix_prefix_def Let_def)
qed

lemma js_finite_int: "\<bar>k\<bar> < 2 ^ 53 \<Longrightarrow> js_finite (of_int k) = JNum (of_int k)"
proof -
  assume k: "\<bar>k\<bar> < 2 ^ 53"
  then have "\<bar>k\<bar> < 2 ^ 1024" by (rule less_trans) simp
  then have "(of_int \<bar>k\<bar> :: rat) < of_int (2 ^ 1024)" by (simp only: of_int_less_iff)
  then show ?thesis using k by (simp add: js_finite_def fl_of_int del: power_increasing_iff)
qed

text \<open>Reading back an integer that was printed.\<close>

lemma to_number_int_to_string [js_number]:
  assumes "\<bar>k\<bar> < 2 ^ 53"
  shows "to_number (int_to_string k) = JNum (of_int k)"
proof -
  have sp: "trim (int_to_string k) = int_to_string k"
  proof (rule trim_digits)
    fix c assume "c \<in> set (int_to_string k)"
    then have "is_digit 10 c \<or> c = CHR ''-''" by (rule int_to_string_chars)
    then show "\<not> is_space c" by (auto simp: is_space_def Let_def simp del: digit_neq dest: digit_neq(11))
  qed
  show ?thesis
  proof (cases "k < 0")
    case True
    then have s: "int_to_string k = CHR ''-'' # nat_to_string (nat (- k))" by (simp add: int_to_string_def)
    have r: "radix_prefix (CHR ''-'' # t) = None" for t
      by (cases t) (simp_all add: radix_prefix_def Let_def lower_char_def)
    have "js_finite (of_nat (nat (- k))) = JNum (of_int (- k))"
      using js_finite_int [of "- k"] assms True by simp
    then show ?thesis using sp by (simp add: to_number_def s r parse_decimal_nat js_neg_def)
  next
    case False
    then have s: "int_to_string k = nat_to_string (nat k)" by (simp add: int_to_string_def)
    obtain c t where ct: "nat_to_string (nat k) = c # t" by (cases "nat_to_string (nat k)") auto
    then have c: "is_digit 10 c" by (rule nat_to_string_hd)
    have "js_finite (of_nat (nat k)) = JNum (of_int k)"
      using js_finite_int [of k] assms False by simp
    then show ?thesis
      using sp c radix_prefix_nat [of "nat k"] parse_decimal_nat [of "nat k"]
      by (simp add: to_number_def s ct Let_def)
  qed
qed

end
