(* ===== verification/Hubble.thy ===== *)
theory Hubble
  imports JS_Number
begin

text \<open>
  The data of \<open>src/domain/hubble.ts\<close> and \<open>src/domain/misc.ts\<close>: flows, services, links and the
  enumerations they hold.  An optional property is an \<open>option\<close>.  Ports, identities, counters and
  codes are integers; the seconds and nanoseconds of a \<open>Time\<close> are numbers, because the frontend also
  builds times with fractional parts.

  A \<open>HubbleLink\<close> object is shared by every \<open>Link\<close> made from it and two of its properties are assigned
  after construction; \<open>hl_ref\<close> is the object's identity, and the current values of the two counters are
  kept in a store from identities to counters (theory \<open>Interaction_Store\<close>).  The record's own counters
  are the values the message arrived with.

  The status values at the end are \<open>HubbleServerStatus\<close> and \<open>HubbleNode\<close>; protobuf enumerations are
  open, so their values are plain integers.
\<close>

section \<open>Enumerations\<close>

datatype verdict = Verdict_Unknown | Verdict_Forwarded | Verdict_Dropped | Verdict_Error
  | Verdict_Audit | Verdict_Redirected | Verdict_Traced | Verdict_Translated

fun verdict_code :: "verdict \<Rightarrow> int" where
  "verdict_code Verdict_Unknown = 0"
| "verdict_code Verdict_Forwarded = 1"
| "verdict_code Verdict_Dropped = 2"
| "verdict_code Verdict_Error = 3"
| "verdict_code Verdict_Audit = 4"
| "verdict_code Verdict_Redirected = 5"
| "verdict_code Verdict_Traced = 6"
| "verdict_code Verdict_Translated = 7"

datatype flow_type = FlowType_Unknown | FlowType_L34 | FlowType_L7

datatype l7_flow_type = L7FlowType_Unknown | L7FlowType_Request | L7FlowType_Response
  | L7FlowType_Sample

fun l7_flow_type_code :: "l7_flow_type \<Rightarrow> int" where
  "l7_flow_type_code L7FlowType_Unknown = 0"
| "l7_flow_type_code L7FlowType_Request = 1"
| "l7_flow_type_code L7FlowType_Response = 2"
| "l7_flow_type_code L7FlowType_Sample = 3"

datatype traffic_direction = TrafficDirection_Unknown | TrafficDirection_Ingress
  | TrafficDirection_Egress

datatype auth_type = AuthType_Disbaled | AuthType_Spire | AuthType_TestAlwaysFail

datatype ip_protocol = IPProtocol_Unknown | IPProtocol_TCP | IPProtocol_UDP | IPProtocol_ICMPv4
  | IPProtocol_ICMPv6

datatype ip_version = IPVersion_NotUsed | IPVersion_V4 | IPVersion_V6

datatype l7_kind = L7Kind_DNS | L7Kind_HTTP | L7Kind_Kafka | L7Kind_Unknown

datatype state_change = StateChange_Unknown | StateChange_Added | StateChange_Modified
  | StateChange_Deleted | StateChange_Exists

text \<open>Verdicts and authentication types are ordered by their numeric values.\<close>

lemma verdict_code_inj [simp]: "verdict_code a = verdict_code b \<longleftrightarrow> a = b"
  by (cases a; cases b) simp_all

instantiation verdict :: linorder
begin

definition less_eq_verdict :: "verdict \<Rightarrow> verdict \<Rightarrow> bool" where
  "less_eq_verdict a b \<longleftrightarrow> verdict_code a \<le> verdict_code b"

definition less_verdict :: "verdict \<Rightarrow> verdict \<Rightarrow> bool" where
  "less_verdict a b \<longleftrightarrow> verdict_code a < verdict_code b"

instance
  by standard (auto simp: less_eq_verdict_def less_verdict_def)

end

section \<open>Records\<close>

record kv =
  kv_key :: string
  kv_value :: string

record time =
  seconds :: rat
  nanos :: rat

record workload =
  wl_kind :: string
  wl_name :: string

record endpoint =
  ep_id :: int
  ep_identity :: int
  ep_namespace :: string
  ep_labels :: "string list"
  ep_workloads :: "workload list"
  ep_podName :: string

record tcp_flags =
  tf_fin :: bool
  tf_syn :: bool
  tf_rst :: bool
  tf_psh :: bool
  tf_ack :: bool
  tf_urg :: bool
  tf_ece :: bool
  tf_cwr :: bool
  tf_ns :: bool

record tcp =
  tcp_sourcePort :: int
  tcp_destinationPort :: int
  tcp_flags :: "tcp_flags option"

record udp =
  udp_sourcePort :: int
  udp_destinationPort :: int

record icmp =
  icmp_type :: int
  icmp_code :: int

record layer4 =
  l4_tcp :: "tcp option"
  l4_udp :: "udp option"
  l4_icmpv4 :: "icmp option"
  l4_icmpv6 :: "icmp option"

record dns =
  dns_query :: string
  dns_ips :: "string list"
  dns_ttl :: int
  dns_cnames :: "string list"
  dns_observationSource :: string
  dns_rcode :: int
  dns_qtypes :: "string list"
  dns_rrtypes :: "string list"

record http =
  http_code :: int
  http_method :: string
  http_url :: string
  http_protocol :: string
  http_headersList :: "kv list"

record kafka =
  kafka_errorCode :: int
  kafka_apiVersion :: int
  kafka_apiKey :: string
  kafka_correlationId :: int
  kafka_topic :: string

record layer7 =
  l7_type :: l7_flow_type
  l7_latencyNs :: int
  l7_dns :: "dns option"
  l7_http :: "http option"
  l7_kafka :: "kafka option"

record ip =
  ip_source :: string
  ip_destination :: string
  ip_ipVersion :: ip_version
  ip_encrypted :: bool

record ethernet =
  eth_source :: string
  eth_destination :: string

record cilium_event_type =
  cet_type :: int
  cet_subType :: int

record flow_service =
  fs_name :: string
  fs_namespace :: string

record pod_selector =
  ps_pod :: string
  ps_namespace :: "string option"

record hubble_flow =
  hf_time :: "time option"
  hf_verdict :: verdict
  hf_dropReason :: int
  hf_ethernet :: "ethernet option"
  hf_ip :: "ip option"
  hf_l4 :: "layer4 option"
  hf_source :: "endpoint option"
  hf_destination :: "endpoint option"
  hf_type :: flow_type
  hf_nodeName :: string
  hf_sourceNamesList :: "string list"
  hf_destinationNamesList :: "string list"
  hf_l7 :: "layer7 option"
  hf_reply :: "bool option"
  hf_eventType :: "cilium_event_type option"
  hf_sourceService :: "flow_service option"
  hf_destinationService :: "flow_service option"
  hf_summary :: string
  hf_trafficDirection :: traffic_direction
  hf_authType :: auth_type

record hubble_service =
  hs_id :: string
  hs_name :: string
  hs_namespace :: string
  hs_labels :: "kv list"
  hs_dnsNames :: "string list"
  hs_egressPolicyEnforced :: bool
  hs_ingressPolicyEnforced :: bool
  hs_visibilityPolicyStatus :: string
  hs_creationTimestamp :: time
  hs_workloads :: "workload list"
  hs_identity :: int

record latency =
  lat_min :: time
  lat_max :: time
  lat_avg :: time

record link_throughput =
  lt_flowAmount :: int
  lt_latency :: latency
  lt_bytesTransfered :: int

record hubble_link =
  hl_ref :: nat
  hl_id :: string
  hl_sourceId :: string
  hl_destinationId :: string
  hl_destinationPort :: int
  hl_ipProtocol :: ip_protocol
  hl_verdict :: verdict
  hl_flowAmount :: int
  hl_latency :: latency
  hl_bytesTransfered :: int
  hl_authType :: auth_type
  hl_isEncrypted :: bool

section \<open>Server and node status\<close>

text \<open>Division whose result may be infinite or not a number.\<close>

definition js_quot :: "rat \<Rightarrow> rat \<Rightarrow> js_num" where
  "js_quot x y =
     (if y = 0 then (if x = 0 then JNaN else JInf (x < 0)) else js_finite (x / y))"

definition calcFlowsPerSecond :: "int \<Rightarrow> int \<Rightarrow> js_num" where
  "calcFlowsPerSecond uptimeNs seenFlows =
     (let uptimeSecs = js_div (js_div (of_int uptimeNs) 1000000) 1000
      in js_quot (of_int seenFlows) uptimeSecs)"

record hubble_server_status =
  st_numFlows :: int
  st_maxFlows :: int
  st_seenFlows :: int
  st_uptimeNs :: int
  st_numConnectedNodes :: "int option"
  st_numUnavailableNodes :: "int option"
  st_unavailableNodesList :: "string list"
  st_version :: string

definition status_flowsPerSecond :: "hubble_server_status \<Rightarrow> js_num" where
  "status_flowsPerSecond st = calcFlowsPerSecond (st_uptimeNs st) (st_seenFlows st)"

definition status_isFulfilled :: "hubble_server_status \<Rightarrow> bool" where
  "status_isFulfilled st \<longleftrightarrow>
     (case st_numConnectedNodes st of None \<Rightarrow> False | Some n \<Rightarrow> n \<noteq> 0)
     \<and> status_flowsPerSecond st \<noteq> JNaN"

definition status_totalNodes :: "hubble_server_status \<Rightarrow> int option" where
  "status_totalNodes st =
     (case (st_numConnectedNodes st, st_numUnavailableNodes st) of
        (Some c, Some u) \<Rightarrow> Some (c + u) | _ \<Rightarrow> None)"

definition status_hasUnavailableNodes :: "hubble_server_status \<Rightarrow> bool option" where
  "status_hasUnavailableNodes st =
     (case st_numConnectedNodes st of
        None \<Rightarrow> None
      | Some c \<Rightarrow> (case status_totalNodes st of None \<Rightarrow> None | Some t \<Rightarrow> Some (c < t)))"

datatype node_state = UnknownNodeState | NodeConnected | NodeUnavailable | NodeGone | NodeError

fun node_state_code :: "node_state \<Rightarrow> int" where
  "node_state_code UnknownNodeState = 0"
| "node_state_code NodeConnected = 1"
| "node_state_code NodeUnavailable = 2"
| "node_state_code NodeGone = 3"
| "node_state_code NodeError = 4"

record hubble_node =
  hn_name :: string
  hn_version :: string
  hn_address :: string
  hn_state :: "node_state option"
  hn_tls :: bool
  hn_uptimeNs :: int
  hn_numFlows :: int
  hn_maxFlows :: int
  hn_seenFlows :: int

text \<open>The switch has no default: a value outside the enumeration gives \<open>undefined\<close>.\<close>

definition pbNodeStateToState :: "int \<Rightarrow> node_state option" where
  "pbNodeStateToState n =
     (if n = 0 then Some UnknownNodeState else if n = 1 then Some NodeConnected
      else if n = 2 then Some NodeUnavailable else if n = 3 then Some NodeGone
      else if n = 4 then Some NodeError else None)"

definition bool_to_string :: "bool \<Rightarrow> string" where
  "bool_to_string b = (if b then ''true'' else ''false'')"

definition node_hash :: "hubble_node \<Rightarrow> string" where
  "node_hash n =
     join_with ''+''
       [hn_name n,
        (case hn_state n of None \<Rightarrow> [] | Some s \<Rightarrow> int_to_string (node_state_code s)),
        int_to_string (hn_maxFlows n), hn_version n, hn_address n, bool_to_string (hn_tls n)]"

definition node_humanState :: "hubble_node \<Rightarrow> string option" where
  "node_humanState n =
     map_option
       (\<lambda>s. case s of UnknownNodeState \<Rightarrow> ''Unknown'' | NodeConnected \<Rightarrow> ''Connected''
          | NodeUnavailable \<Rightarrow> ''Unavailable'' | NodeGone \<Rightarrow> ''Gone'' | NodeError \<Rightarrow> ''Error'')
       (hn_state n)"

definition node_isAvailable :: "hubble_node \<Rightarrow> bool" where
  "node_isAvailable n \<longleftrightarrow> hn_state n = Some NodeConnected"

definition node_flowsPerSecond :: "hubble_node \<Rightarrow> js_num" where
  "node_flowsPerSecond n = calcFlowsPerSecond (hn_uptimeNs n) (hn_seenFlows n)"

lemma status_totalNodes_Some_iff:
  "status_totalNodes st = Some t \<longleftrightarrow>
     (\<exists>c u. st_numConnectedNodes st = Some c \<and> st_numUnavailableNodes st = Some u \<and> t = c + u)"
  by (auto simp: status_totalNodes_def split: option.splits)

lemma status_hasUnavailableNodes_iff:
  "status_hasUnavailableNodes st = Some b \<longleftrightarrow>
     (\<exists>c u. st_numConnectedNodes st = Some c \<and> st_numUnavailableNodes st = Some u \<and> b = (0 < u))"
  by (auto simp: status_hasUnavailableNodes_def status_totalNodes_def split: option.splits)

lemma pbNodeStateToState_code: "pbNodeStateToState (node_state_code s) = Some s"
  by (cases s) (simp_all add: pbNodeStateToState_def)

text \<open>Before the server has been up for a measurable time the rate is infinite or not a number, and
  the status counts as unfulfilled only in the latter case.\<close>

lemma calcFlowsPerSecond_zero:
  "calcFlowsPerSecond 0 seen = (if seen = 0 then JNaN else JInf (seen < 0))"
  by (simp add: calcFlowsPerSecond_def js_quot_def)

end
