(* ===== verification/Labels.thy ===== *)
theory Labels
  imports Hubble
begin

text \<open>
  \<open>src/domain/labels.ts\<close>: splitting and normalising Kubernetes labels and reading from them the
  properties the rest of the frontend uses (reserved identities, application and cluster names).
  A string that is tested for truth is truthy when it is not empty.  The lemmas show that \<open>detect\<close>
  sets each flag exactly when some label carries the corresponding reserved key, which names it
  picks, and how parsing and printing of labels relate.
\<close>

definition truthy :: "string option \<Rightarrow> bool" where
  "truthy s \<longleftrightarrow> (case s of None \<Rightarrow> False | Some t \<Rightarrow> t \<noteq> [])"

text \<open>\<open>s || undefined\<close>.\<close>

definition or_undefined :: "string option \<Rightarrow> string option" where
  "or_undefined s = (if truthy s then s else None)"

datatype reserved_label = ReservedLabel_Host | ReservedLabel_KubeApiserver | ReservedLabel_World
  | ReservedLabel_Health | ReservedLabel_Init | ReservedLabel_Ingress | ReservedLabel_RemoteNode
  | ReservedLabel_Unmanaged | ReservedLabel_Unknown

fun reserved_str :: "reserved_label \<Rightarrow> string" where
  "reserved_str ReservedLabel_Host = ''reserved:host''"
| "reserved_str ReservedLabel_KubeApiserver = ''reserved:kube-apiserver''"
| "reserved_str ReservedLabel_World = ''reserved:world''"
| "reserved_str ReservedLabel_Health = ''reserved:health''"
| "reserved_str ReservedLabel_Init = ''reserved:init''"
| "reserved_str ReservedLabel_Ingress = ''reserved:ingress''"
| "reserved_str ReservedLabel_RemoteNode = ''reserved:remote-node''"
| "reserved_str ReservedLabel_Unmanaged = ''reserved:unmanaged''"
| "reserved_str ReservedLabel_Unknown = ''reserved:unknown''"

definition reservedLabelSet :: "string list" where
  "reservedLabelSet =
     map reserved_str
       [ReservedLabel_Host, ReservedLabel_KubeApiserver, ReservedLabel_World, ReservedLabel_Health,
        ReservedLabel_Init, ReservedLabel_Ingress, ReservedLabel_RemoteNode,
        ReservedLabel_Unmanaged, ReservedLabel_Unknown]"

datatype special_label = SpecialLabel_KubeDNS | SpecialLabel_PrometheusApp | SpecialLabel_Networks
  | SpecialLabel_CNPName | SpecialLabel_CNPUID

fun special_str :: "special_label \<Rightarrow> string" where
  "special_str SpecialLabel_KubeDNS = ''k8s:k8s-app=kube-dns''"
| "special_str SpecialLabel_PrometheusApp = ''k8s:app=prometheus''"
| "special_str SpecialLabel_Networks = ''cni:com.isovalent.v1alpha1.network.attachment''"
| "special_str SpecialLabel_CNPName = ''k8s:io.cilium.k8s.policy.name''"
| "special_str SpecialLabel_CNPUID = ''k8s:io.cilium.k8s.policy.uid''"

definition label_prefixes :: "string list" where
  "label_prefixes =
     [''any:'', ''k8s:'', ''cni:'', ''io.kubernetes.pod.'', ''app.kubernetes.io/'', ''covalent.io/'']"

definition appNameNormalizedKeys :: "string list" where
  "appNameNormalizedKeys = [''component'', ''app'', ''name'', ''functionname'', ''k8s-app'']"

definition ciliumClusterKeys :: "string list" where
  "ciliumClusterKeys = [''io.cilium.k8s.policy.cluster'']"

definition is_inner_separator :: "char \<Rightarrow> bool" where
  "is_inner_separator c \<longleftrightarrow> c \<in> {CHR ''-'', CHR ''.'', CHR ''/'', CHR ''=''}"

section \<open>Keys\<close>

definition labels_normalizeKey :: "string \<Rightarrow> string" where
  "labels_normalizeKey key =
     fold remove_first label_prefixes (strip_trailing (CHR ''='') (to_lower key))"

definition labels_toKV :: "string \<Rightarrow> bool \<Rightarrow> kv" where
  "labels_toKV label nrml =
     (let parts = split_on (CHR ''='') label; key = hd parts
      in \<lparr>kv_key = (if nrml then labels_normalizeKey key else key),
          kv_value = join_with ''='' (tl parts)\<rparr>)"

definition labels_labelsToKV :: "string list \<Rightarrow> bool \<Rightarrow> kv list" where
  "labels_labelsToKV labels nrml = map (\<lambda>l. labels_toKV l nrml) labels"

definition labels_normalizeLabel :: "kv \<Rightarrow> kv" where
  "labels_normalizeLabel lbl =
     \<lparr>kv_key = labels_normalizeKey (kv_key lbl), kv_value = kv_value lbl\<rparr>"

definition labels_normalizeLabelToString :: "kv \<Rightarrow> string" where
  "labels_normalizeLabelToString lbl =
     labels_normalizeKey (kv_key lbl) @ (if kv_value lbl \<noteq> [] then ''='' @ kv_value lbl else [])"

definition labels_normalizeNamespaceLabelKey :: "string \<Rightarrow> string" where
  "labels_normalizeNamespaceLabelKey key =
     fold remove_first
       [''k8s:io.kubernetes.pod.namespace.labels.'', ''k8s:io.kubernetes.pod.namespace'',
        ''io.kubernetes.pod.namespace.labels.'', ''io.kubernetes.pod.namespace'']
       (to_lower key)"

definition labels_concatKV :: "kv \<Rightarrow> bool \<Rightarrow> string" where
  "labels_concatKV lbl nrml =
     (if nrml then labels_normalizeKey (kv_key lbl) else kv_key lbl)
     @ (if kv_value lbl \<noteq> [] then ''='' @ kv_value lbl else [])"

definition specialLabelKeys :: "string list" where
  "specialLabelKeys =
     set_of_list
       (map (\<lambda>s. labels_normalizeKey (kv_key (labels_toKV (special_str s) False)))
         [SpecialLabel_KubeDNS, SpecialLabel_PrometheusApp, SpecialLabel_Networks,
          SpecialLabel_CNPName, SpecialLabel_CNPUID])"

text \<open>\<open>KeyFindOptions\<close>: whether the label's key, and whether the target keys, are normalised.\<close>

record key_find_options =
  kfo_normalizeLabel :: bool
  kfo_normalizeTargetKeys :: bool

definition no_options :: key_find_options where
  "no_options = \<lparr>kfo_normalizeLabel = False, kfo_normalizeTargetKeys = False\<rparr>"

definition labels_targetKeys :: "string list \<Rightarrow> key_find_options \<Rightarrow> string list" where
  "labels_targetKeys nkeys opts =
     (if kfo_normalizeTargetKeys opts then set_of_list (map labels_normalizeKey nkeys)
      else set_of_list nkeys)"

definition labels_containsKey :: "kv \<Rightarrow> string list \<Rightarrow> key_find_options \<Rightarrow> bool" where
  "labels_containsKey lbl nkeys opts =
     (let targetKeys = labels_targetKeys nkeys opts;
          kv = (if kfo_normalizeLabel opts then labels_normalizeLabel lbl else lbl)
      in kv_key kv \<in> set targetKeys)"

definition labels_prepareKeyPartsAndTarget ::
  "kv \<Rightarrow> string list \<Rightarrow> key_find_options \<Rightarrow> string list \<times> string list" where
  "labels_prepareKeyPartsAndTarget lbl tkeys opts =
     (let nkey = (if kfo_normalizeLabel opts then labels_normalizeKey (kv_key lbl) else kv_key lbl)
      in (split_by is_inner_separator nkey, labels_targetKeys tkeys opts))"

definition labels_containsKeyPart :: "kv \<Rightarrow> string list \<Rightarrow> key_find_options \<Rightarrow> bool" where
  "labels_containsKeyPart lbl tkeys opts =
     (let (parts, targetKeys) = labels_prepareKeyPartsAndTarget lbl tkeys opts
      in list_ex (\<lambda>p. p \<in> set targetKeys) parts)"

definition labels_containsAllKeyParts :: "kv \<Rightarrow> string list \<Rightarrow> key_find_options \<Rightarrow> bool" where
  "labels_containsAllKeyParts lbl tkeys opts =
     (let (parts, targetKeys) = labels_prepareKeyPartsAndTarget lbl tkeys opts
      in list_all (\<lambda>k. k \<in> set parts) targetKeys)"

section \<open>Reserved and special labels\<close>

definition labels_isReservedKey :: "string \<Rightarrow> bool \<Rightarrow> bool" where
  "labels_isReservedKey key nrml =
     ((if nrml then labels_normalizeKey key else key) \<in> set reservedLabelSet)"

definition labels_isReserved :: "kv \<Rightarrow> reserved_label option \<Rightarrow> bool \<Rightarrow> bool" where
  "labels_isReserved lbl reserved nrml =
     (let key = (if nrml then labels_normalizeKey (kv_key lbl) else kv_key lbl)
      in case reserved of
           None \<Rightarrow> labels_isReservedKey key False
         | Some r \<Rightarrow> key = reserved_str r)"

definition labels_haveReserved :: "kv list \<Rightarrow> reserved_label option \<Rightarrow> bool" where
  "labels_haveReserved labels reserved = list_ex (\<lambda>l. labels_isReserved l reserved True) labels"

definition labels_isSpecialKey :: "string \<Rightarrow> bool \<Rightarrow> bool" where
  "labels_isSpecialKey k nrml =
     ((if nrml then labels_normalizeKey k else k) \<in> set specialLabelKeys)"

definition labels_isSpecial :: "kv \<Rightarrow> special_label option \<Rightarrow> bool \<Rightarrow> bool" where
  "labels_isSpecial lbl special nrml =
     (let kv = (if nrml then labels_normalizeLabel lbl else lbl)
      in case special of
           None \<Rightarrow> labels_isSpecialKey (kv_key kv) False
         | Some s \<Rightarrow>
             (let specialKV = labels_toKV (special_str s) False;
                  normSpecial = (if nrml then labels_normalizeLabel specialKV else specialKV)
              in kv_key kv = kv_key normSpecial \<and> (kv_value normSpecial = [] \<or> kv_value kv = kv_value normSpecial)))"

definition labels_isWorld :: "kv list \<Rightarrow> bool" where
  "labels_isWorld labels = labels_haveReserved labels (Some ReservedLabel_World)"

definition labels_isHost :: "kv list \<Rightarrow> bool" where
  "labels_isHost labels = labels_haveReserved labels (Some ReservedLabel_Host)"

definition labels_isKubeApiserver :: "kv list \<Rightarrow> bool" where
  "labels_isKubeApiserver labels = labels_haveReserved labels (Some ReservedLabel_KubeApiserver)"

definition labels_isKubeApiServerLabel :: "kv \<Rightarrow> bool \<Rightarrow> bool" where
  "labels_isKubeApiServerLabel lbl nrml =
     labels_isReserved lbl (Some ReservedLabel_KubeApiserver) nrml"

definition labels_isInit :: "kv list \<Rightarrow> bool" where
  "labels_isInit labels = labels_haveReserved labels (Some ReservedLabel_Init)"

definition labels_isHealth :: "kv list \<Rightarrow> bool" where
  "labels_isHealth labels = labels_haveReserved labels (Some ReservedLabel_Health)"

definition labels_isRemoteNode :: "kv list \<Rightarrow> bool" where
  "labels_isRemoteNode labels = labels_haveReserved labels (Some ReservedLabel_RemoteNode)"

section \<open>Names\<close>

fun labels_findNamespaceInLabels :: "kv list \<Rightarrow> bool \<Rightarrow> string option" where
  "labels_findNamespaceInLabels [] normalizeLabels = None"
| "labels_findNamespaceInLabels (lbl # labels) normalizeLabels =
     (let kv = (if normalizeLabels then labels_normalizeLabel lbl else lbl)
      in if labels_containsKey kv [''namespace''] no_options then Some (kv_value kv)
         else labels_findNamespaceInLabels labels normalizeLabels)"

definition labels_getReservedAppName :: "kv \<Rightarrow> bool \<Rightarrow> string option" where
  "labels_getReservedAppName lbl normalizeLabel =
     (let kv = (if normalizeLabel then labels_normalizeLabel lbl else lbl)
      in if labels_isReserved kv None False then Some (remove_first ''reserved:'' (kv_key kv))
         else None)"

definition labels_getAppNameFromLabel :: "kv \<Rightarrow> bool \<Rightarrow> string option" where
  "labels_getAppNameFromLabel lbl nrml =
     (let kv = (if nrml then labels_normalizeLabel lbl else lbl)
      in if labels_containsKey kv appNameNormalizedKeys no_options then Some (kv_value kv)
         else or_undefined (labels_getReservedAppName kv False))"

fun labels_findAppNameFromLabelsParts :: "kv list \<Rightarrow> bool \<Rightarrow> string option" where
  "labels_findAppNameFromLabelsParts [] nrml = None"
| "labels_findAppNameFromLabelsParts (lbl # labels) nrml =
     (let kv = (if nrml then labels_normalizeLabel lbl else lbl)
      in if labels_containsKeyPart kv appNameNormalizedKeys no_options then Some (kv_value kv)
         else labels_findAppNameFromLabelsParts labels nrml)"

text \<open>The loop of \<open>findAppNameInLabels\<close>, and its fallback on the whole list.\<close>

fun labels_firstAppName :: "kv list \<Rightarrow> bool \<Rightarrow> string option" where
  "labels_firstAppName [] normalizeLabels = None"
| "labels_firstAppName (lbl # labels) normalizeLabels =
     (let kv = (if normalizeLabels then labels_normalizeLabel lbl else lbl);
          appName = labels_getAppNameFromLabel kv False
      in if truthy appName then appName else labels_firstAppName labels normalizeLabels)"

definition labels_findAppNameInLabels :: "kv list \<Rightarrow> bool \<Rightarrow> string option" where
  "labels_findAppNameInLabels labels normalizeLabels =
     (case labels_firstAppName labels normalizeLabels of
        Some n \<Rightarrow> Some n
      | None \<Rightarrow> labels_findAppNameFromLabelsParts labels True)"

text \<open>The networks of a label list, ordered by \<open>localeCompare\<close>, which is a parameter.\<close>

definition labels_findNetworksInLabels ::
  "(string \<Rightarrow> string \<Rightarrow> int) \<Rightarrow> kv list \<Rightarrow> string list" where
  "labels_findNetworksInLabels localeCompare labels =
     js_sort localeCompare
       (fold (\<lambda>l acc.
          if labels_normalizeKey (kv_key l) = labels_normalizeKey (special_str SpecialLabel_Networks)
          then set_add_all
                 (filter (\<lambda>s. s \<noteq> []) (map trim (split_on (CHR '','') (kv_value l)))) acc
          else acc) labels [])"

definition labels_isClusterNameLabel :: "kv \<Rightarrow> bool \<Rightarrow> bool" where
  "labels_isClusterNameLabel lbl nrml =
     (let kv = (if nrml then labels_normalizeLabel lbl else lbl)
      in labels_containsKey kv ciliumClusterKeys no_options)"

fun labels_findClusterNameInLabels :: "kv list \<Rightarrow> bool \<Rightarrow> string option" where
  "labels_findClusterNameInLabels [] nrml = None"
| "labels_findClusterNameInLabels (lbl # labels) nrml =
     (if labels_isClusterNameLabel lbl nrml then Some (kv_value lbl)
      else labels_findClusterNameInLabels labels nrml)"

fun labels_findKVByString :: "kv list \<Rightarrow> string \<Rightarrow> kv option" where
  "labels_findKVByString [] query = None"
| "labels_findKVByString (label # labels) query =
     (if kv_value label = [] \<and> kv_key label = query then Some label
      else if kv_key label @ ''='' @ kv_value label = query then Some label
      else labels_findKVByString labels query)"

definition labels_findKVByArray :: "kv list \<Rightarrow> string \<times> string \<Rightarrow> kv option" where
  "labels_findKVByArray labels kv = labels_findKVByString labels (fst kv @ ''='' @ snd kv)"

definition labels_getPolicyUUID :: "kv \<Rightarrow> bool \<Rightarrow> string option" where
  "labels_getPolicyUUID lbl nrml =
     (let kv = (if nrml then labels_normalizeLabel lbl else lbl)
      in if labels_containsAllKeyParts kv [special_str SpecialLabel_CNPUID]
              \<lparr>kfo_normalizeLabel = nrml, kfo_normalizeTargetKeys = True\<rparr>
         then Some (kv_value kv) else None)"

definition labels_ensureK8sPrefix :: "string \<Rightarrow> string" where
  "labels_ensureK8sPrefix str =
     (if starts_with str ''k8s:'' then str
      else if labels_isReservedKey str True then str
      else ''k8s:'' @ str)"

section \<open>Detection\<close>

record labels_props =
  lp_isHost :: bool
  lp_isKubeApiserver :: bool
  lp_isWorld :: bool
  lp_isRemoteNode :: bool
  lp_isKubeDNS :: bool
  lp_isInit :: bool
  lp_isHealth :: bool
  lp_isPrometheusApp :: bool
  lp_isIngress :: bool
  lp_appName :: "string option"
  lp_clusterName :: "string option"

definition labels_emptyProps :: labels_props where
  "labels_emptyProps =
     \<lparr>lp_isHost = False, lp_isKubeApiserver = False, lp_isWorld = False, lp_isRemoteNode = False,
      lp_isKubeDNS = False, lp_isInit = False, lp_isHealth = False, lp_isPrometheusApp = False,
      lp_isIngress = False, lp_appName = None, lp_clusterName = None\<rparr>"

text \<open>The body of the \<open>forEach\<close> callback.\<close>

definition labels_detectStep :: "kv \<Rightarrow> labels_props \<Rightarrow> labels_props" where
  "labels_detectStep lbl p =
     (let kv = labels_normalizeLabel lbl;
          res = (\<lambda>r. labels_isReserved kv (Some r) False)
      in \<lparr>lp_isHost = (lp_isHost p \<or> res ReservedLabel_Host),
          lp_isKubeApiserver = (lp_isKubeApiserver p \<or> res ReservedLabel_KubeApiserver),
          lp_isWorld = (lp_isWorld p \<or> res ReservedLabel_World),
          lp_isRemoteNode = (lp_isRemoteNode p \<or> res ReservedLabel_RemoteNode),
          lp_isKubeDNS = (lp_isKubeDNS p \<or> labels_isSpecial kv (Some SpecialLabel_KubeDNS) True),
          lp_isInit = (lp_isInit p \<or> res ReservedLabel_Init),
          lp_isHealth = (lp_isHealth p \<or> res ReservedLabel_Health),
          lp_isPrometheusApp =
            (lp_isPrometheusApp p \<or> kv_key kv = special_str SpecialLabel_PrometheusApp),
          lp_isIngress = (lp_isIngress p \<or> res ReservedLabel_Ingress),
          lp_appName =
            (if truthy (lp_appName p) then lp_appName p
             else or_undefined (labels_getAppNameFromLabel kv True)),
          lp_clusterName =
            (if truthy (lp_clusterName p) then lp_clusterName p
             else if labels_isClusterNameLabel kv False then Some (kv_value kv) else None)\<rparr>)"

definition labels_detect :: "kv list \<Rightarrow> labels_props" where
  "labels_detect labels =
     (let p = fold labels_detectStep labels labels_emptyProps
      in if truthy (lp_appName p) then p
         else p\<lparr>lp_appName := or_undefined (labels_findAppNameFromLabelsParts labels True)\<rparr>)"


section \<open>Lemmas\<close>

lemma truthy_simps [simp]:
  "\<not> truthy None" "\<not> truthy (Some [])" "truthy (Some (c # s))" "truthy (or_undefined x) = truthy x"
  by (auto simp: truthy_def or_undefined_def split: option.splits)

lemma or_undefined_eq_Some: "or_undefined s = Some t \<longleftrightarrow> s = Some t \<and> t \<noteq> []"
  by (auto simp: or_undefined_def truthy_def split: option.splits)

lemma or_undefined_truthy: "truthy s \<Longrightarrow> or_undefined s = s"
  by (simp add: or_undefined_def)

lemma normalizeLabel_simps [simp]:
  "kv_key (labels_normalizeLabel l) = labels_normalizeKey (kv_key l)"
  "kv_value (labels_normalizeLabel l) = kv_value l"
  by (simp_all add: labels_normalizeLabel_def)

lemma isReserved_simps [simp]:
  "labels_isReserved l (Some r) True \<longleftrightarrow> labels_normalizeKey (kv_key l) = reserved_str r"
  "labels_isReserved l (Some r) False \<longleftrightarrow> kv_key l = reserved_str r"
  by (simp_all add: labels_isReserved_def)

text \<open>Normalisation only removes characters from the lower-cased key.\<close>

lemma set_fold_remove_first: "set (fold remove_first ps s) \<subseteq> set s"
proof (induction ps arbitrary: s)
  case (Cons p ps)
  have "set (fold remove_first ps (remove_first p s)) \<subseteq> set (remove_first p s)" by (rule Cons)
  also have "\<dots> \<subseteq> set s" by (rule set_remove_first)
  finally show ?case by simp
qed simp

lemma set_normalizeKey: "set (labels_normalizeKey k) \<subseteq> set (to_lower k)"
proof -
  have "set (labels_normalizeKey k) \<subseteq> set (strip_trailing (CHR ''='') (to_lower k))"
    unfolding labels_normalizeKey_def by (rule set_fold_remove_first)
  also have "\<dots> \<subseteq> set (to_lower k)" by (rule set_strip_trailing)
  finally show ?thesis .
qed

lemma lower_char_eq_equals [simp]: "lower_char c = CHR ''='' \<longleftrightarrow> c = CHR ''=''"
proof
  assume l: "lower_char c = CHR ''=''"
  show "c = CHR ''=''"
  proof (rule ccontr)
    assume "c \<noteq> CHR ''=''"
    with l have n: "char_of ((of_char c :: nat) + 32) = CHR ''=''"
      "65 \<le> (of_char c :: nat)" "(of_char c :: nat) \<le> 222"
      by (auto simp: lower_char_def Let_def split: if_splits)
    have "((of_char c :: nat) + 32) mod 256 = 61"
      using arg_cong [OF n(1), of "of_char :: char \<Rightarrow> nat"] by simp
    with n show False by simp
  qed
qed (simp add: lower_char_def)

lemma normalizeKey_no_equals: "CHR ''='' \<notin> set k \<Longrightarrow> CHR ''='' \<notin> set (labels_normalizeKey k)"
  using set_normalizeKey [of k] lower_char_eq_equals unfolding to_lower_def
  by (metis (no_types, lifting) imageE list.set_map subsetD)

lemma lower_normalizeKey: "to_lower (labels_normalizeKey k) = labels_normalizeKey k"
  unfolding to_lower_def
proof (rule map_idI)
  fix c assume "c \<in> set (labels_normalizeKey k)"
  then have "c \<in> set (to_lower k)" using set_normalizeKey [of k] by blast
  then show "lower_char c = c" by (auto simp: to_lower_def)
qed

lemma toKV_key_no_equals: "CHR ''='' \<notin> set (kv_key (labels_toKV l False))"
proof -
  have "hd (split_on (CHR ''='') l) \<in> set (split_on (CHR ''='') l)" by (rule hd_in_set) simp
  then have "CHR ''='' \<notin> set (hd (split_on (CHR ''='') l))"
    using split_by_parts_clean by fast
  then show ?thesis by (simp add: labels_toKV_def Let_def)
qed

subsection \<open>Detection\<close>

lemma detectStep_flags:
  "lp_isHost (fold labels_detectStep ls p) \<longleftrightarrow>
     lp_isHost p \<or> labels_isHost ls"
  "lp_isKubeApiserver (fold labels_detectStep ls p) \<longleftrightarrow>
     lp_isKubeApiserver p \<or> labels_isKubeApiserver ls"
  "lp_isWorld (fold labels_detectStep ls p) \<longleftrightarrow> lp_isWorld p \<or> labels_isWorld ls"
  "lp_isRemoteNode (fold labels_detectStep ls p) \<longleftrightarrow> lp_isRemoteNode p \<or> labels_isRemoteNode ls"
  "lp_isInit (fold labels_detectStep ls p) \<longleftrightarrow> lp_isInit p \<or> labels_isInit ls"
  "lp_isHealth (fold labels_detectStep ls p) \<longleftrightarrow> lp_isHealth p \<or> labels_isHealth ls"
  "lp_isIngress (fold labels_detectStep ls p) \<longleftrightarrow>
     lp_isIngress p \<or> labels_haveReserved ls (Some ReservedLabel_Ingress)"
  by (induction ls arbitrary: p)
    (auto simp: labels_detectStep_def labels_isHost_def labels_isKubeApiserver_def
      labels_isWorld_def labels_isRemoteNode_def labels_isInit_def labels_isHealth_def
      labels_haveReserved_def Let_def)

lemma detectStep_kubeDNS:
  "lp_isKubeDNS (fold labels_detectStep ls p) \<longleftrightarrow>
     lp_isKubeDNS p \<or>
     (\<exists>l \<in> set ls. labels_isSpecial (labels_normalizeLabel l) (Some SpecialLabel_KubeDNS) True)"
  by (induction ls arbitrary: p) (auto simp: labels_detectStep_def Let_def)

lemma detectStep_prometheus:
  "lp_isPrometheusApp (fold labels_detectStep ls p) \<longleftrightarrow>
     lp_isPrometheusApp p \<or>
     (\<exists>l \<in> set ls. labels_normalizeKey (kv_key l) = special_str SpecialLabel_PrometheusApp)"
  by (induction ls arbitrary: p) (auto simp: labels_detectStep_def Let_def)

lemma detectStep_appName:
  "truthy (lp_appName p) \<Longrightarrow> lp_appName (fold labels_detectStep ls p) = lp_appName p"
  by (induction ls arbitrary: p) (simp_all add: labels_detectStep_def Let_def)

lemma detect_non_name_fields [simp]:
  "lp_isHost (labels_detect ls) = labels_isHost ls"
  "lp_isKubeApiserver (labels_detect ls) = labels_isKubeApiserver ls"
  "lp_isWorld (labels_detect ls) = labels_isWorld ls"
  "lp_isRemoteNode (labels_detect ls) = labels_isRemoteNode ls"
  "lp_isInit (labels_detect ls) = labels_isInit ls"
  "lp_isHealth (labels_detect ls) = labels_isHealth ls"
  "lp_isIngress (labels_detect ls) = labels_haveReserved ls (Some ReservedLabel_Ingress)"
  by (simp_all add: labels_detect_def Let_def detectStep_flags labels_emptyProps_def)

lemma detect_prometheus:
  "lp_isPrometheusApp (labels_detect ls) \<longleftrightarrow>
     (\<exists>l \<in> set ls. labels_normalizeKey (kv_key l) = special_str SpecialLabel_PrometheusApp)"
  by (simp add: labels_detect_def Let_def detectStep_prometheus labels_emptyProps_def)

text \<open>The first truthy application name, else the first key with an application-like part.\<close>

fun firstTruthy :: "string option list \<Rightarrow> string option" where
  "firstTruthy [] = None"
| "firstTruthy (x # xs) = (if truthy x then x else firstTruthy xs)"

lemma detectStep_appName_first:
  "\<not> truthy (lp_appName p) \<Longrightarrow>
   or_undefined (lp_appName (fold labels_detectStep ls p)) =
     firstTruthy (map (\<lambda>l. labels_getAppNameFromLabel (labels_normalizeLabel l) True) ls)"
proof (induction ls arbitrary: p)
  case Nil
  then show ?case by (simp add: or_undefined_def)
next
  case (Cons l ls)
  let ?a = "labels_getAppNameFromLabel (labels_normalizeLabel l) True"
  have a: "lp_appName (labels_detectStep l p) = or_undefined ?a"
    using Cons.prems by (simp add: labels_detectStep_def Let_def)
  show ?case
  proof (cases "truthy ?a")
    case True
    then show ?thesis
      using detectStep_appName [of "labels_detectStep l p" ls]
      by (simp add: a or_undefined_truthy)
  next
    case False
    then show ?thesis using Cons.IH [of "labels_detectStep l p"] by (simp add: a)
  qed
qed

subsection \<open>Round trips\<close>

lemma toKV_concatKV:
  assumes "CHR ''='' \<notin> set (kv_key l)"
  shows "labels_toKV (labels_concatKV l False) False = \<lparr>kv_key = kv_key l, kv_value = kv_value l\<rparr>"
proof (cases "kv_value l = []")
  case True
  have "split_on (CHR ''='') (kv_key l) = [kv_key l]"
    using assms by (intro split_by_none) auto
  with True show ?thesis by (simp add: labels_toKV_def labels_concatKV_def)
next
  case False
  have "split_on (CHR ''='') (kv_key l @ CHR ''='' # kv_value l) =
      kv_key l # split_on (CHR ''='') (kv_value l)"
    using assms by (intro split_by_append) auto
  with False show ?thesis by (simp add: labels_toKV_def labels_concatKV_def)
qed

lemma toKV_join: "join_with ''='' (kv_key (labels_toKV s False) # tl (split_on (CHR ''='') s)) = s"
proof -
  have "kv_key (labels_toKV s False) # tl (split_on (CHR ''='') s) = split_on (CHR ''='') s"
    by (simp add: labels_toKV_def Let_def)
  then show ?thesis by simp
qed

lemma concatKV_toKV:
  assumes "kv_value (labels_toKV s False) \<noteq> [] \<or> CHR ''='' \<notin> set s"
  shows "labels_concatKV (labels_toKV s False) False = s"
proof (cases "kv_value (labels_toKV s False) = []")
  case True
  with assms have "split_on (CHR ''='') s = [s]" by (intro split_by_none) auto
  then show ?thesis by (simp add: labels_toKV_def labels_concatKV_def)
next
  case False
  then have "tl (split_on (CHR ''='') s) \<noteq> []" by (auto simp: labels_toKV_def Let_def)
  with False toKV_join [of s] show ?thesis
    by (simp add: labels_concatKV_def join_with_Cons) (simp add: labels_toKV_def Let_def)
qed

lemma findKVByString_sound:
  "labels_findKVByString ls q = Some l \<Longrightarrow>
     l \<in> set ls \<and> (kv_key l @ ''='' @ kv_value l = q \<or> kv_value l = [] \<and> kv_key l = q)"
  by (induction ls) (auto split: if_splits)

lemma findKVByString_None_iff:
  "labels_findKVByString ls q = None \<longleftrightarrow>
     (\<forall>l \<in> set ls. kv_key l @ ''='' @ kv_value l \<noteq> q \<and> (kv_value l = [] \<longrightarrow> kv_key l \<noteq> q))"
  by (induction ls) auto

lemma ensureK8sPrefix_cases:
  "labels_ensureK8sPrefix s = s \<or> labels_ensureK8sPrefix s = ''k8s:'' @ s"
  by (simp add: labels_ensureK8sPrefix_def)

lemma ensureK8sPrefix_idem [simp]:
  "labels_ensureK8sPrefix (labels_ensureK8sPrefix s) = labels_ensureK8sPrefix s"
  by (simp add: labels_ensureK8sPrefix_def starts_with_def)

lemma ensureK8sPrefix_inj_unprefixed:
  "starts_with (labels_ensureK8sPrefix s) ''k8s:'' \<or> labels_isReservedKey (labels_ensureK8sPrefix s) True"
  by (auto simp: labels_ensureK8sPrefix_def starts_with_def)

section \<open>Properties\<close>

text \<open>each flag that \<open>detect\<close> computes in its single pass agrees with the dedicated predicate that
  scans the labels for one reserved key.\<close>

theorem labels_detect_flags:
  "lp_isWorld (labels_detect ls) = labels_isWorld ls \<and>
   lp_isHost (labels_detect ls) = labels_isHost ls \<and>
   lp_isKubeApiserver (labels_detect ls) = labels_isKubeApiserver ls \<and>
   lp_isInit (labels_detect ls) = labels_isInit ls \<and>
   lp_isHealth (labels_detect ls) = labels_isHealth ls \<and>
   lp_isRemoteNode (labels_detect ls) = labels_isRemoteNode ls \<and>
   lp_isIngress (labels_detect ls) = labels_haveReserved ls (Some ReservedLabel_Ingress)"
  by simp

text \<open>the application name that \<open>detect\<close> reports is the first non-empty name that a single label
  gives, in label order; only if no label gives one, the value of the first label whose key has an
  application-like part (when that value is not empty).\<close>

theorem labels_detect_appName:
  "or_undefined (lp_appName (labels_detect ls)) =
     (let names = map (\<lambda>l. labels_getAppNameFromLabel (labels_normalizeLabel l) True) ls
      in if truthy (firstTruthy names) then firstTruthy names
         else or_undefined (labels_findAppNameFromLabelsParts ls True))"
proof -
  have "\<not> truthy (lp_appName labels_emptyProps)" by (simp add: labels_emptyProps_def)
  note first = detectStep_appName_first [OF this, of ls]
  let ?p = "fold labels_detectStep ls labels_emptyProps"
  have t: "truthy (lp_appName ?p) \<longleftrightarrow>
      truthy (firstTruthy (map (\<lambda>l. labels_getAppNameFromLabel (labels_normalizeLabel l) True) ls))"
    using arg_cong [OF first, of truthy] by simp
  show ?thesis
  proof (cases "truthy (lp_appName ?p)")
    case True
    with first t show ?thesis by (simp add: labels_detect_def Let_def)
  next
    case False
    with t show ?thesis by (simp add: labels_detect_def Let_def or_undefined_def)
  qed
qed

text \<open>splitting a label into key and value loses nothing but a bare trailing equals sign: printing
  the parts of a label gives the label back, unless its value is empty and it contains the sign.\<close>

theorem labels_concat_of_toKV:
  assumes "kv_value (labels_toKV s False) \<noteq> [] \<or> CHR ''='' \<notin> set s"
  shows "labels_concatKV (labels_toKV s False) False = s"
  using assms by (rule concatKV_toKV)

theorem labels_concat_of_toKV_witness:
  "labels_concatKV (labels_toKV ''k8s:app=a=b'' False) False = ''k8s:app=a=b''"
  by (rule labels_concat_of_toKV) (simp add: labels_toKV_def Let_def)

text \<open>the Prometheus flag is never set on labels that come from label strings: a key contains no
  equals sign after splitting, and normalisation adds none, while the flag's test compares the key
  with \<open>k8s:app=prometheus\<close>.\<close>

theorem labels_never_prometheus:
  "\<not> lp_isPrometheusApp (labels_detect (labels_labelsToKV ls False))"
proof
  assume "lp_isPrometheusApp (labels_detect (labels_labelsToKV ls False))"
  then obtain l where "labels_normalizeKey (kv_key (labels_toKV l False)) = ''k8s:app=prometheus''"
    by (auto simp: detect_prometheus labels_labelsToKV_def)
  then have "CHR ''='' \<in> set (labels_normalizeKey (kv_key (labels_toKV l False)))" by simp
  then show False using normalizeKey_no_equals [OF toKV_key_no_equals [of l]] by simp
qed

end
