(* ===== verification/Cilium.thy ===== *)
theory Cilium
  imports Labels
begin

text \<open>
  The code tables of \<open>src/domain/cilium.ts\<close> and \<open>src/domain/http/index.ts\<close>: reserved identities, event
  sub-types, drop reasons and HTTP status texts, as association lists from the numeric code.
\<close>

definition cilium_reserved :: "(string \<times> int \<times> reserved_label) list" where
  "cilium_reserved =
     [(''host'', 1, ReservedLabel_Host), (''world'', 2, ReservedLabel_World),
      (''unmanaged'', 3, ReservedLabel_Unmanaged), (''health'', 4, ReservedLabel_Health),
      (''init'', 5, ReservedLabel_Init), (''remoteNode'', 6, ReservedLabel_RemoteNode)]"

definition ciliumEventSubTypesCodes :: "(int \<times> string) list" where
  "ciliumEventSubTypesCodes =
     [(0, ''to-endpoint''),
      (1, ''to-proxy''),
      (2, ''to-host''),
      (3, ''to-stack''),
      (4, ''to-overlay''),
      (5, ''from-endpoint''),
      (6, ''from-proxy''),
      (7, ''from-host''),
      (8, ''from-stack''),
      (9, ''from-overlay''),
      (10, ''from-network'')]"

definition ciliumDropReasonCodes :: "(int \<times> string) list" where
  "ciliumDropReasonCodes =
     [(0, ''Unknown drop reason''),
      (130, ''Invalid source mac''),
      (131, ''Invalid destination mac''),
      (132, ''Invalid source ip''),
      (133, ''Policy denied''),
      (134, ''Invalid packet''),
      (135, ''CT: Truncated or invalid header''),
      (136, ''CT; Missing TCP ACK flag''),
      (137, ''CT: Unknown L4 protocol''),
      (138, ''CT: Can't create entry from packet''),
      (139, ''Unsupported L3 protocol''),
      (140, ''Missed tail call''),
      (141, ''Error writing to packet''),
      (142, ''Unknown L4 protocol''),
      (143, ''Unknown ICMPv4 code''),
      (144, ''Unknown ICMPv4 type''),
      (145, ''Unknown ICMPv6 code''),
      (146, ''Unknown ICMPv6 type''),
      (147, ''Error retrieving tunnel key''),
      (148, ''Error retrieving tunnel options''),
      (149, ''Invalid Geneve option''),
      (150, ''Unknown L3 target address''),
      (151, ''Stale or unroutable IP''),
      (152, ''No matching local container found''),
      (153, ''Error while correcting L3 checksum''),
      (154, ''Error while correcting L4 checksum''),
      (155, ''CT: Map insertion failed''),
      (156, ''Invalid IPv6 extension header''),
      (157, ''IP fragmentation not supported''),
      (158, ''Service backend not found''),
      (160, ''No tunnel/encapsulation endpoint (datapath BUG!)''),
      (161, ''Failed to insert into proxymap''),
      (163, ''Unknown connection tracking state''),
      (164, ''Local host is unreachable''),
      (165, ''No configuration available to perform policy decision''),
      (166, ''Unsupported L2 protocol''),
      (167, ''No mapping for NAT masquerade''),
      (168, ''Unsupported protocol for NAT masquerade''),
      (169, ''FIB lookup failed''),
      (170, ''Encapsulation traffic is prohibited''),
      (171, ''Invalid identity''),
      (172, ''Unknown sender''),
      (173, ''NAT not needed''),
      (174, ''Is a ClusterIP''),
      (175, ''First logical datagram fragment not found''),
      (176, ''Forbidden ICMPv6 message''),
      (177, ''Denied by LB src range check''),
      (178, ''Socket assign failed''),
      (179, ''Socket assign failed''),
      (180, ''Proxy redirection not supported for protocol''),
      (181, ''Policy denied''),
      (182, ''VLAN traffic disallowed by VLAN filter''),
      (183, ''Incorrect VNI from VTEP''),
      (184, ''Failed to update or lookup TC buffer''),
      (185, ''No SID was found for the IP address''),
      (186, ''SRv6 state was removed during tail call''),
      (187, ''L3 translation from IPv4 to IPv6 failed (NAT46)''),
      (188, ''L3 translation from IPv6 to IPv4 failed (NAT64)''),
      (189, ''Authentication required''),
      (190, ''No conntrack map found''),
      (191, ''No NAT map found''),
      (192, ''Invalid ClusterID''),
      (193, ''Unsupported packet protocol for DSR encapsulation''),
      (194, ''No egress gateway found''),
      (195, ''Traffic is unencrypted''),
      (196, ''TTL exceeded''),
      (197, ''No node ID found'')]"

definition httpStatus :: "(int \<times> string) list" where
  "httpStatus =
     [(200, ''OK''),
      (201, ''Created''),
      (202, ''Accepted''),
      (203, ''Non-Authoritative Information''),
      (204, ''No Content''),
      (205, ''Reset Content''),
      (206, ''Partial Content''),
      (300, ''Multiple Choices''),
      (301, ''Moved Permanently''),
      (302, ''Found''),
      (303, ''See Other''),
      (304, ''Not Modified''),
      (305, ''Use Proxy''),
      (306, ''Unused''),
      (307, ''Temporary Redirect''),
      (400, ''Bad Request''),
      (401, ''Unauthorized''),
      (402, ''Payment Required''),
      (403, ''Forbidden''),
      (404, ''Not Found''),
      (405, ''Method Not Allowed''),
      (406, ''Not Acceptable''),
      (407, ''Proxy Authentication Required''),
      (408, ''Request Timeout''),
      (409, ''Conflict''),
      (410, ''Gone''),
      (411, ''Length Required''),
      (412, ''Precondition Required''),
      (413, ''Request Entry Too Large''),
      (414, ''Request-URI Too Long''),
      (415, ''Unsupported Media Type''),
      (416, ''Requested Range Not Satisfiable''),
      (417, ''Expectation Failed''),
      (418, (''I'' @ [CHR 0x27] @ ''m a teapot'')),
      (429, ''Too Many Requests''),
      (500, ''Internal Server Error''),
      (501, ''Not Implemented''),
      (502, ''Bad Gateway''),
      (503, ''Service Unavailable''),
      (504, ''Gateway Timeout''),
      (505, ''HTTP Version Not Supported'')]"

lemma httpStatus_codes: "distinct (map fst httpStatus)" "list_all (\<lambda>c. 100 \<le> c \<and> c < 600) (map fst httpStatus)"
  by (simp_all add: httpStatus_def)

lemma ciliumDropReasonCodes_distinct: "wf_map ciliumDropReasonCodes"
  by (simp add: ciliumDropReasonCodes_def)

end
