(* ===== verification/Helpers.thy ===== *)
theory Helpers
  imports Cilium "HOL-Library.Word"
begin

text \<open>
  \<open>src/domain/helpers\<close>, \<open>src/domain/misc.ts\<close> and the method part of \<open>src/domain/http/index.ts\<close>: verdicts
  and their textual and protobuf forms, workloads and their kind shorthands, authentication types,
  TCP flags, protocols, layer 7 kinds, times and latencies, and the conversions from the service-map
  messages.  Protobuf enumerations are integers, as their values are open.
\<close>

section \<open>Verdicts\<close>

definition verdictFromPb :: "int \<Rightarrow> verdict" where
  "verdictFromPb v =
     (if v = 0 then Verdict_Unknown else if v = 1 then Verdict_Forwarded
      else if v = 2 then Verdict_Dropped else if v = 3 then Verdict_Error
      else if v = 4 then Verdict_Audit else if v = 5 then Verdict_Redirected
      else if v = 6 then Verdict_Traced else if v = 7 then Verdict_Translated
      else Verdict_Unknown)"

fun verdictToPb :: "verdict \<Rightarrow> int" where
  "verdictToPb Verdict_Forwarded = 1"
| "verdictToPb Verdict_Dropped = 2"
| "verdictToPb Verdict_Error = 3"
| "verdictToPb Verdict_Audit = 4"
| "verdictToPb Verdict_Redirected = 5"
| "verdictToPb Verdict_Traced = 6"
| "verdictToPb Verdict_Translated = 7"
| "verdictToPb Verdict_Unknown = 0"

definition verdictFromNumber :: "rat \<Rightarrow> verdict option" where
  "verdictFromNumber num =
     (if num = 1 then Some Verdict_Forwarded else if num = 2 then Some Verdict_Dropped
      else if num = 3 then Some Verdict_Error else if num = 4 then Some Verdict_Audit
      else if num = 5 then Some Verdict_Redirected else if num = 6 then Some Verdict_Traced
      else if num = 7 then Some Verdict_Translated else if num = 0 then Some Verdict_Unknown
      else None)"

definition verdictFromStr :: "string \<Rightarrow> verdict option" where
  "verdictFromStr s =
     (if s = [] then None
      else (let v = to_lower s
            in if starts_with v ''forward'' then Some Verdict_Forwarded
               else if starts_with v ''drop'' then Some Verdict_Dropped
               else if starts_with v ''err'' then Some Verdict_Error
               else if starts_with v ''audit'' then Some Verdict_Audit
               else if starts_with v ''redirect'' then Some Verdict_Redirected
               else if starts_with v ''trace'' then Some Verdict_Traced
               else if starts_with v ''translate'' then Some Verdict_Translated
               else if starts_with v ''unknown'' then Some Verdict_Unknown
               else None))"

text \<open>What \<open>parse\<close> accepts: nothing, a number or a string.  A falsy value (also 0, \<open>NaN\<close> and the
  empty string) gives no verdict.\<close>

datatype verdict_src = VerdictSrc_Null | VerdictSrc_Number js_num | VerdictSrc_String string

definition verdict_of_js_num :: "js_num \<Rightarrow> verdict option" where
  "verdict_of_js_num n = (case n of JNum x \<Rightarrow> verdictFromNumber x | _ \<Rightarrow> None)"

definition verdict_parse :: "verdict_src \<Rightarrow> verdict option" where
  "verdict_parse v =
     (case v of
        VerdictSrc_Null \<Rightarrow> None
      | VerdictSrc_Number n \<Rightarrow> (if n = JNum 0 \<or> n = JNaN then None else verdict_of_js_num n)
      | VerdictSrc_String s \<Rightarrow>
          (if s = [] then None
           else if to_number s \<noteq> JNaN then verdict_of_js_num (to_number s)
           else verdictFromStr s))"

text \<open>What \<open>parseMany\<close> accepts besides: an iterable of such values.\<close>

datatype verdict_many = VerdictMany_One verdict_src | VerdictMany_Iter "verdict_src list"

definition verdict_parseMany :: "verdict_many \<Rightarrow> char \<Rightarrow> verdict list" where
  "verdict_parseMany v sep =
     (let parts =
        (case v of
           VerdictMany_One VerdictSrc_Null \<Rightarrow> []
         | VerdictMany_One (VerdictSrc_String s) \<Rightarrow> map VerdictSrc_String (split_on sep s)
         | VerdictMany_One (VerdictSrc_Number n) \<Rightarrow> [VerdictSrc_Number n]
         | VerdictMany_Iter xs \<Rightarrow> xs)
      in List.map_filter verdict_parse parts)"

definition verdict_parseManySet :: "verdict_many \<Rightarrow> char \<Rightarrow> verdict list" where
  "verdict_parseManySet v sep = set_of_list (verdict_parseMany v sep)"

text \<open>\<open>join\<close>: the numeric codes, an absent verdict as the empty string.\<close>

definition verdict_join :: "verdict option list option \<Rightarrow> char \<Rightarrow> string" where
  "verdict_join verdicts sep =
     (case verdicts of
        None \<Rightarrow> []
      | Some vs \<Rightarrow>
          join_with [sep]
            (map (\<lambda>v. case v of None \<Rightarrow> [] | Some w \<Rightarrow> int_to_string (verdict_code w)) vs))"

definition verdict_toString :: "verdict \<Rightarrow> bool \<Rightarrow> bool \<Rightarrow> string" where
  "verdict_toString v shorten capitalizeFirstLetter =
     (let str =
        (case v of
           Verdict_Forwarded \<Rightarrow> if shorten then ''forward'' else ''forwarded''
         | Verdict_Dropped \<Rightarrow> if shorten then ''drop'' else ''dropped''
         | Verdict_Error \<Rightarrow> ''error''
         | Verdict_Audit \<Rightarrow> ''audit''
         | Verdict_Redirected \<Rightarrow> if shorten then ''redirect'' else ''redirected''
         | Verdict_Traced \<Rightarrow> if shorten then ''trace'' else ''traced''
         | Verdict_Translated \<Rightarrow> if shorten then ''translate'' else ''translated''
         | Verdict_Unknown \<Rightarrow> ''unknown'')
      in if capitalizeFirstLetter then capitalize str else str)"

section \<open>Workloads\<close>

definition k8sShorthands :: "(string, string) js_map" where
  "k8sShorthands =
     [(''componentstatuses'', ''cs''),
      (''componentstatus'', ''cs''),
      (''configmaps'', ''cm''),
      (''configmap'', ''cm''),
      (''endpoints'', ''ep''),
      (''endpoint'', ''ep''),
      (''events'', ''ev''),
      (''limitranges'', ''limits''),
      (''namespaces'', ''ns''),
      (''namespace'', ''ns''),
      (''nodes'', ''no''),
      (''persistentvolumeclaims'', ''pvc''),
      (''persistentvolumes'', ''pv''),
      (''pods'', ''po''),
      (''pod'', ''po''),
      (''replicationcontrollers'', ''rc''),
      (''resourcequotas'', ''quota''),
      (''serviceaccounts'', ''sa''),
      (''services'', ''svc''),
      (''service'', ''svc''),
      (''customresourcedefinitions'', ''crd''),
      (''customresourcedefinition'', ''crd''),
      (''daemonset'', ''ds''),
      (''daemonsets'', ''ds''),
      (''deployment'', ''deploy''),
      (''deployments'', ''deploy''),
      (''dep'', ''deploy''),
      (''replicasets'', ''rs''),
      (''replicaset'', ''rs''),
      (''statefulsets'', ''sts''),
      (''statefulset'', ''sts''),
      (''horizontalpodautoscalers'', ''hpa''),
      (''cronjobs'', ''cj''),
      (''cronjob'', ''cj''),
      (''certificaterequests'', ''cr,crs''),
      (''certificates'', ''cert''),
      (''certificate'', ''cert''),
      (''certificatesigningrequests'', ''csr''),
      (''ciliumcidrgroups'', ''ccg''),
      (''ciliumclusterwideenvoyconfigs'', ''ccec''),
      (''ciliumclusterwidenetworkpolicies'', ''ccnp''),
      (''ciliumendpoints'', ''cep''),
      (''ciliumep'', ''cep''),
      (''ciliumenvoyconfigs'', ''cec''),
      (''ciliumexternalworkloads'', ''cew''),
      (''ciliumidentities'', ''ciliumid''),
      (''ciliumloadbalancerippools'', ''ippool''),
      (''ippools'', ''ippool''),
      (''lbippool'', ''ippool''),
      (''lbippools'', ''ippool''),
      (''ciliumnetworkpolicies'', ''cnp''),
      (''cnps'', ''cnp''),
      (''ciliumnodes'', ''cn''),
      (''ciliumn'', ''cn''),
      (''clickhouseinstallations'', ''chi''),
      (''clickhouseinstallationtemplates'', ''chit''),
      (''clickhouseoperatorconfigurations'', ''chopconf''),
      (''backendconfigs'', ''bc''),
      (''strimzipodsets'', ''sps''),
      (''events'', ''ev''),
      (''capacityrequests'', ''capreq''),
      (''isovalentfqdngroups'', ''ifg''),
      (''kafkabridges'', ''kb''),
      (''kafkabridge'', ''kb''),
      (''kafkaconnectors'', ''kctr''),
      (''kafkaconnects'', ''kc''),
      (''kafkamirrormaker2s'', ''kmm2''),
      (''kafkamirrormakers'', ''kmm''),
      (''kafkarebalances'', ''kr''),
      (''kafkas'', ''k''),
      (''kafka'', ''k''),
      (''kafkatopics'', ''kt''),
      (''kafkatopic'', ''kt''),
      (''kafkausers'', ''ku''),
      (''tenants'', ''tenant''),
      (''alertmanagerconfigs'', ''amcfg''),
      (''alertmanagers'', ''am''),
      (''podmonitors'', ''pmon''),
      (''probes'', ''prb''),
      (''prometheusagents'', ''promagent''),
      (''prometheuses'', ''prom''),
      (''prometheus'', ''prom''),
      (''prometheusrules'', ''promrule''),
      (''scrapeconfigs'', ''scfg''),
      (''servicemonitors'', ''smon''),
      (''thanosrulers'', ''ruler''),
      (''managedcertificates'', ''mcrt''),
      (''servicenetworkendpointgroups'', ''svcneg''),
      (''ingresses'', ''ing''),
      (''ingress'', ''ing''),
      (''networkpolicies'', ''netpol''),
      (''updateinfos'', ''updinf''),
      (''instrumentations'', ''otelinst''),
      (''otelinsts'', ''otelinst''),
      (''opentelemetrycollectors'', ''otelcol''),
      (''opentelemetrycollector'', ''otelcol''),
      (''otelcols'', ''otelcol''),
      (''poddisruptionbudgets'', ''pdb''),
      (''priorityclasses'', ''pc''),
      (''volumesnapshotclasses'', ''vsclass,vsclasses''),
      (''volumesnapshotcontents'', ''vsc,vscs''),
      (''volumesnapshots'', ''vs''),
      (''storageclasses'', ''sc'')]"

definition getKindShorthand :: "string \<Rightarrow> string" where
  "getKindShorthand kind =
     (let k = to_lower kind
      in case map_get k8sShorthands k of None \<Rightarrow> k | Some s \<Rightarrow> if s = [] then k else s)"

definition workload_equals :: "workload \<Rightarrow> workload \<Rightarrow> bool" where
  "workload_equals lhs rhs \<longleftrightarrow>
     (let lkind = getKindShorthand (trim (wl_kind lhs)); rkind = getKindShorthand (trim (wl_kind rhs))
      in if lkind \<noteq> rkind then False
         else to_lower (trim (wl_name lhs)) = to_lower (trim (wl_name rhs)))"

definition workload_includes :: "workload list \<Rightarrow> workload \<Rightarrow> bool" where
  "workload_includes arr target = list_ex (\<lambda>elem. workload_equals elem target) arr"

section \<open>Authentication types, TCP flags, protocols, layer 7\<close>

definition auth_toString :: "auth_type option \<Rightarrow> string" where
  "auth_toString a =
     (case a of
        Some AuthType_Disbaled \<Rightarrow> []
      | Some AuthType_Spire \<Rightarrow> ''Spire''
      | Some AuthType_TestAlwaysFail \<Rightarrow> ''TEST Always Fail''
      | None \<Rightarrow> ''Unkown'')"

definition authTypeFromPb :: "int \<Rightarrow> auth_type" where
  "authTypeFromPb a =
     (if a = 1 then AuthType_Spire else if a = 2 then AuthType_TestAlwaysFail
      else AuthType_Disbaled)"

definition authTypeFromStr :: "string \<Rightarrow> auth_type" where
  "authTypeFromStr str =
     (if str = [] then AuthType_Disbaled
      else (let s = to_lower str;
                t = (if starts_with s ''spire'' then AuthType_Spire else AuthType_Disbaled)
            in if starts_with s ''test'' then AuthType_TestAlwaysFail else t))"

text \<open>\<open>Object.keys(flags)\<close>, with the values of the flags.\<close>

definition tcp_flag_entries :: "tcp_flags \<Rightarrow> (string \<times> bool) list" where
  "tcp_flag_entries f =
     [(''fin'', tf_fin f), (''syn'', tf_syn f), (''rst'', tf_rst f), (''psh'', tf_psh f),
      (''ack'', tf_ack f), (''urg'', tf_urg f), (''ece'', tf_ece f), (''cwr'', tf_cwr f),
      (''ns'', tf_ns f)]"

definition tcpFlags_toArray :: "tcp_flags option \<Rightarrow> string list" where
  "tcpFlags_toArray flags =
     (case flags of
        None \<Rightarrow> []
      | Some f \<Rightarrow> js_sort str_compare (map fst (filter snd (tcp_flag_entries f))))"

definition tcpFlags_toString :: "tcp_flags option \<Rightarrow> string" where
  "tcpFlags_toString flags = join_with '' '' (map to_upper (tcpFlags_toArray flags))"

definition protocol_toString :: "ip_protocol \<Rightarrow> string" where
  "protocol_toString p =
     (case p of IPProtocol_TCP \<Rightarrow> ''TCP'' | IPProtocol_UDP \<Rightarrow> ''UDP'' | IPProtocol_ICMPv4 \<Rightarrow> ''ICMPv4''
      | IPProtocol_ICMPv6 \<Rightarrow> ''ICMPv6'' | IPProtocol_Unknown \<Rightarrow> ''Unknown protocol'')"

definition l7_getKind :: "layer7 \<Rightarrow> l7_kind" where
  "l7_getKind l7 =
     (if l7_http l7 \<noteq> None then L7Kind_HTTP
      else if l7_dns l7 \<noteq> None then L7Kind_DNS
      else if l7_kafka l7 \<noteq> None then L7Kind_Kafka
      else L7Kind_Unknown)"

fun l7_kind_str :: "l7_kind \<Rightarrow> string" where
  "l7_kind_str L7Kind_DNS = ''dns''"
| "l7_kind_str L7Kind_HTTP = ''http''"
| "l7_kind_str L7Kind_Kafka = ''kafka''"
| "l7_kind_str L7Kind_Unknown = ''unknown''"

definition l7KindToString :: "l7_kind \<Rightarrow> string" where
  "l7KindToString k =
     (if k \<in> {L7Kind_HTTP, L7Kind_DNS} then to_upper (l7_kind_str k) else capitalize (l7_kind_str k))"

definition parseL7Kind :: "string \<Rightarrow> l7_kind option" where
  "parseL7Kind s =
     (if s = ''dns'' then Some L7Kind_DNS else if s = ''http'' then Some L7Kind_HTTP
      else if s = ''kafka'' then Some L7Kind_Kafka else if s = ''unknown'' then Some L7Kind_Unknown
      else None)"

section \<open>HTTP methods\<close>

datatype http_verb = Method_GET | Method_POST | Method_PUT | Method_HEAD | Method_DELETE
  | Method_OPTIONS | Method_TRACE | Method_CONNECT | Method_PATCH

fun method_str :: "http_verb \<Rightarrow> string" where
  "method_str Method_GET = ''get''"
| "method_str Method_POST = ''post''"
| "method_str Method_PUT = ''put''"
| "method_str Method_HEAD = ''head''"
| "method_str Method_DELETE = ''delete''"
| "method_str Method_OPTIONS = ''options''"
| "method_str Method_TRACE = ''trace''"
| "method_str Method_CONNECT = ''connect''"
| "method_str Method_PATCH = ''patch''"

text \<open>\<open>/^get$/i.test(method)\<close> and its siblings.\<close>

definition method_test :: "http_verb \<Rightarrow> string \<Rightarrow> bool" where
  "method_test m s \<longleftrightarrow> to_lower s = method_str m"

definition parseMethod :: "string \<Rightarrow> http_verb option" where
  "parseMethod s =
     (if method_test Method_GET s then Some Method_GET
      else if method_test Method_POST s then Some Method_POST
      else if method_test Method_PUT s then Some Method_PUT
      else if method_test Method_HEAD s then Some Method_HEAD
      else if method_test Method_DELETE s then Some Method_DELETE
      else if method_test Method_OPTIONS s then Some Method_OPTIONS
      else if method_test Method_TRACE s then Some Method_TRACE
      else if method_test Method_CONNECT s then Some Method_CONNECT
      else if method_test Method_PATCH s then Some Method_PATCH
      else None)"

text \<open>\<open>sortMethods\<close>: the callback assigns every flag anew for each method.\<close>

record method_flags =
  hasGet :: bool
  hasPost :: bool
  hasDelete :: bool
  hasPatch :: bool
  hasPut :: bool
  hasOptions :: bool
  hasTrace :: bool
  hasHead :: bool
  hasConnect :: bool

definition methodFlags_step :: "string \<Rightarrow> method_flags \<Rightarrow> method_flags" where
  "methodFlags_step m f =
     \<lparr>hasGet = method_test Method_GET m, hasPost = method_test Method_POST m,
      hasDelete = method_test Method_DELETE m, hasPatch = method_test Method_PATCH m,
      hasPut = method_test Method_PUT m, hasOptions = method_test Method_OPTIONS m,
      hasTrace = method_test Method_TRACE m, hasHead = method_test Method_HEAD m,
      hasConnect = method_test Method_CONNECT m\<rparr>"

definition sortMethods :: "string list \<Rightarrow> http_verb list" where
  "sortMethods methods =
     (let f = fold methodFlags_step methods
                \<lparr>hasGet = False, hasPost = False, hasDelete = False, hasPatch = False,
                 hasPut = False, hasOptions = False, hasTrace = False, hasHead = False,
                 hasConnect = False\<rparr>
      in map snd (filter fst
           [(hasGet f, Method_GET), (hasPost f, Method_POST), (hasPut f, Method_PUT),
            (hasPatch f, Method_PATCH), (hasDelete f, Method_DELETE), (hasHead f, Method_HEAD),
            (hasOptions f, Method_OPTIONS), (hasTrace f, Method_TRACE),
            (hasConnect f, Method_CONNECT)]))"

section \<open>Lemmas on verdicts and workloads\<close>

lemma verdictFromPb_toPb [simp]: "verdictFromPb (verdictToPb v) = v"
  by (cases v) (simp_all add: verdictFromPb_def)

lemma verdictToPb_fromPb: "0 \<le> n \<Longrightarrow> n \<le> 7 \<Longrightarrow> verdictToPb (verdictFromPb n) = n"
  by (simp add: verdictFromPb_def)

lemma verdictFromNumber_code [simp]: "verdictFromNumber (of_int (verdict_code v)) = Some v"
  by (cases v) (simp_all add: verdictFromNumber_def)

lemma verdictFromNumber_Some_iff: "verdictFromNumber x = Some v \<longleftrightarrow> x = of_int (verdict_code v)"
  by (cases v) (auto simp: verdictFromNumber_def)

lemma verdict_code_bounds: "0 \<le> verdict_code v" "verdict_code v \<le> 7"
  by (cases v; simp)+

lemma to_number_verdict: "to_number (int_to_string (verdict_code v)) = JNum (of_int (verdict_code v))"
  using verdict_code_bounds [of v] by (intro to_number_int_to_string) simp

lemma verdict_parse_code [simp]:
  "verdict_parse (VerdictSrc_String (int_to_string (verdict_code v))) = Some v"
  by (simp add: verdict_parse_def to_number_verdict verdict_of_js_num_def)

lemma starts_with_Cons_simps [simp]:
  "starts_with s []"
  "starts_with [] (p # ps) \<longleftrightarrow> False"
  "starts_with (c # s) (p # ps) \<longleftrightarrow> c = p \<and> starts_with s ps"
  by (auto simp: starts_with_def)

lemma verdictFromStr_toString [simp]: "verdictFromStr (verdict_toString v sh cap) = Some v"
proof -
  have "verdictFromStr (verdict_toString v True True) = Some v"
    "verdictFromStr (verdict_toString v True False) = Some v"
    "verdictFromStr (verdict_toString v False True) = Some v"
    "verdictFromStr (verdict_toString v False False) = Some v"
    by (cases v; simp only:; code_simp)+
  then show ?thesis by (cases sh; cases cap) simp_all
qed

lemma int_to_string_no_comma: "CHR '','' \<notin> set (int_to_string k)"
  using int_to_string_chars [of "CHR '',''" k] by (auto simp: is_digit_10_iff)

lemma map_filter_parse_codes:
  "List.map_filter verdict_parse (map (\<lambda>v. VerdictSrc_String (int_to_string (verdict_code v))) vs) = vs"
  by (induction vs) (simp_all add: List.map_filter_simps)

lemma verdict_parseMany_join:
  "verdict_parseMany (VerdictMany_One (VerdictSrc_String (verdict_join (Some (map Some vs)) (CHR '','')))) (CHR '','') = vs"
proof (cases "vs = []")
  case True
  then show ?thesis
    by (simp add: verdict_parseMany_def verdict_join_def verdict_parse_def List.map_filter_simps)
next
  case False
  have "split_on (CHR '','') (join_with '','' (map (\<lambda>v. int_to_string (verdict_code v)) vs)) =
      map (\<lambda>v. int_to_string (verdict_code v)) vs"
    using False int_to_string_no_comma by (intro split_join) auto
  then show ?thesis
    by (simp add: verdict_parseMany_def verdict_join_def comp_def map_filter_parse_codes)
qed

lemma verdict_parseMany_sound:
  "v \<in> set (verdict_parseMany (VerdictMany_Iter xs) sep) \<longleftrightarrow> (\<exists>x \<in> set xs. verdict_parse x = Some v)"
  by (induction xs) (auto simp: verdict_parseMany_def List.map_filter_simps split: option.splits)

text \<open>Workload equality compares a normal form.\<close>

definition workload_key :: "workload \<Rightarrow> string \<times> string" where
  "workload_key w = (getKindShorthand (trim (wl_kind w)), to_lower (trim (wl_name w)))"

lemma workload_equals_iff: "workload_equals a b \<longleftrightarrow> workload_key a = workload_key b"
  by (simp add: workload_equals_def workload_key_def Let_def)

lemma workload_equals_refl [simp]: "workload_equals a a"
  and workload_equals_sym: "workload_equals a b \<Longrightarrow> workload_equals b a"
  and workload_equals_trans: "workload_equals a b \<Longrightarrow> workload_equals b c \<Longrightarrow> workload_equals a c"
  by (simp_all add: workload_equals_iff)

lemma parseMethod_lower: "to_lower s = method_str m \<Longrightarrow> parseMethod s = Some m"
  by (cases m) (simp_all add: parseMethod_def method_test_def)

lemma parseMethod_Some_iff: "parseMethod s = Some m \<longleftrightarrow> to_lower s = method_str m"
proof
  assume "parseMethod s = Some m"
  then show "to_lower s = method_str m"
    by (auto simp: parseMethod_def method_test_def split: if_splits)
qed (rule parseMethod_lower)

lemma l7_kind_round_trip: "parseL7Kind (l7_kind_str k) = Some k"
  by (cases k) (simp_all add: parseL7Kind_def)

text \<open>Only the method that comes last in the set survives.\<close>

lemma methodFlags_fold_last: "fold methodFlags_step (ms @ [m]) f = methodFlags_step m f"
  by (simp add: methodFlags_step_def)

lemma sortMethods_last:
  "sortMethods (ms @ [m]) = (case parseMethod m of None \<Rightarrow> [] | Some v \<Rightarrow> [v])"
  unfolding sortMethods_def methodFlags_fold_last
  by (cases "parseMethod m")
    (auto simp: methodFlags_step_def method_test_def parseMethod_def Let_def split: if_splits)

lemma sorted_tcpFlags: "sorted_wrt (\<lambda>a b. str_compare a b \<le> 0) (tcpFlags_toArray f)"
  by (cases f) (simp_all add: tcpFlags_toArray_def string_order.sorted_js_sort)

lemma set_tcpFlags:
  "x \<in> set (tcpFlags_toArray f) \<longleftrightarrow> (\<exists>g. f = Some g \<and> (x, True) \<in> set (tcp_flag_entries g))"
  by (cases f) (force simp: tcpFlags_toArray_def)+

section \<open>Properties\<close>

text \<open>a list of verdicts survives the trip through the comma-separated list of numeric codes that
  the URL holds: parsing what \<open>join\<close> printed gives the same verdicts in the same order.\<close>

theorem verdict_join_round_trip:
  "verdict_parseMany
     (VerdictMany_One (VerdictSrc_String (verdict_join (Some (map Some vs)) (CHR '','')))) (CHR '','') = vs"
  by (rule verdict_parseMany_join)

text \<open>every textual form of a verdict (shortened or not, capitalised or not) is read back as that
  verdict, and so is its protobuf value.\<close>

theorem verdict_text_round_trip:
  "verdictFromStr (verdict_toString v shorten cap) = Some v \<and> verdictFromPb (verdictToPb v) = v"
  by simp

text \<open>\<open>sortMethods\<close> keeps one method at most: the flags are overwritten for each element of the set,
  so the result holds only the method that was visited last.\<close>

theorem sortMethods_keeps_last:
  "sortMethods (ms @ [m]) = (case parseMethod m of None \<Rightarrow> [] | Some v \<Rightarrow> [v])"
  by (rule sortMethods_last)

end
