(* ===== verification/Times.thy ===== *)
theory Times
  imports Helpers
begin

text \<open>
  \<open>src/domain/helpers/time.ts\<close>, \<open>src/domain/helpers/link.ts\<close>, the time and message conversions of
  \<open>src/domain/helpers/index.ts\<close> and \<open>src/domain/time/index.ts\<close>.  A \<open>Date\<close> is its time value, a whole
  number of milliseconds; \<open>new Date(x)\<close> truncates.  Reading a date from text is a parameter.  The
  formatting functions (\<open>toLatencyString\<close>, \<open>unifiedFormatDate\<close>) are not modelled.

  The lemmas show that comparing times is a consistent comparator, what dates become and whether they
  come back, and what the latency averages and throughput sums are.
\<close>

section \<open>Times\<close>

definition trunc :: "rat \<Rightarrow> int" where
  "trunc x = (if x < 0 then \<lceil>x\<rceil> else \<lfloor>x\<rfloor>)"

text \<open>\<open>x | 0\<close>.\<close>

definition to_int32 :: "rat \<Rightarrow> int" where
  "to_int32 x = sint (word_of_int (trunc x) :: 32 word)"

text \<open>The milliseconds of a time, \<open>seconds * 1e3 + nanos / 1e6\<close>.\<close>

definition time_ms :: "time \<Rightarrow> rat" where
  "time_ms t = js_add (js_mul (seconds t) 1000) (js_div (nanos t) 1000000)"

definition compareTimes :: "time option \<Rightarrow> time option \<Rightarrow> rat" where
  "compareTimes lhs rhs =
     (case (lhs, rhs) of (Some l, Some r) \<Rightarrow> js_sub (time_ms l) (time_ms r) | _ \<Rightarrow> 0)"

definition getMin :: "time \<Rightarrow> time \<Rightarrow> time" where
  "getMin a b = (if compareTimes (Some a) (Some b) < 0 then a else b)"

definition getMax :: "time \<Rightarrow> time \<Rightarrow> time" where
  "getMax a b = (if compareTimes (Some a) (Some b) < 0 then b else a)"

text \<open>The callback of the reduction in \<open>getAverage\<close>.\<close>

definition average_step :: "time \<Rightarrow> time \<Rightarrow> time" where
  "average_step acc t =
     (let avg = js_div (js_add (time_ms acc) (time_ms t)) 2;
          avgSeconds = \<lfloor>js_div avg 1000\<rfloor>;
          avgNanos = \<lfloor>js_mul (js_sub avg (of_int avgSeconds)) 1000000\<rfloor>
      in \<lparr>seconds = of_int avgSeconds, nanos = of_int avgNanos\<rparr>)"

definition getAverage :: "time list \<Rightarrow> time option" where
  "getAverage xs =
     (case xs of [] \<Rightarrow> None | t # ts \<Rightarrow> Some (foldl average_step t ts))"

definition dateToTime :: "int \<Rightarrow> time" where
  "dateToTime d =
     (let ms = of_int d; secs = \<lfloor>js_div ms 1000\<rfloor>
      in \<lparr>seconds = of_int secs,
          nanos = js_mul (js_sub ms (js_mul (of_int secs) 1000)) 1000000\<rparr>)"

definition timeToDate :: "time \<Rightarrow> int" where
  "timeToDate t = trunc (js_add (js_mul (seconds t) 1000) (js_div (nanos t) 1000000000))"

text \<open>\<open>parseTimeFromObject\<close>: an object with both fields, one with a date under \<open>time\<close>, or a date
  itself; the constructor of dates from such values is the parameter.\<close>

datatype 'd time_object = TimeObject_Null | TimeObject_Fields string string
  | TimeObject_Time 'd | TimeObject_Date 'd

definition parseTimeFromObject :: "('d \<Rightarrow> int option) \<Rightarrow> 'd time_object \<Rightarrow> time option" where
  "parseTimeFromObject newDate obj =
     (case obj of
        TimeObject_Null \<Rightarrow> None
      | TimeObject_Fields s n \<Rightarrow>
          (case (parse_int s, parse_int n) of
             (Some secs, Some ns) \<Rightarrow> Some \<lparr>seconds = of_int secs, nanos = of_int ns\<rparr>
           | _ \<Rightarrow> None)
      | TimeObject_Time d \<Rightarrow> map_option dateToTime (newDate d)
      | TimeObject_Date d \<Rightarrow> map_option dateToTime (newDate d))"

definition time_normalize :: "time \<Rightarrow> time" where
  "time_normalize t =
     (let carry = (if 1000000000 \<le> nanos t then of_int \<lfloor>js_div (nanos t) 1000000000\<rfloor> else 0);
          rest = (if 1000000000 \<le> nanos t
                  then nanos t - 1000000000 * of_int \<lfloor>nanos t / 1000000000\<rfloor> else nanos t)
      in \<lparr>seconds = js_add (seconds t) carry, nanos = rest\<rparr>)"

text \<open>\<open>tooSmall\<close> of \<open>misc.ts\<close>, and \<open>isZero\<close>.\<close>

definition tooSmall :: "rat \<Rightarrow> bool" where
  "tooSmall num \<longleftrightarrow> \<bar>num\<bar> \<le> 1 / 2 ^ 52"

definition time_isZero :: "time \<Rightarrow> bool" where
  "time_isZero t \<longleftrightarrow> tooSmall (seconds t) \<and> tooSmall (nanos t)"

definition time_zero :: time where
  "time_zero = \<lparr>seconds = 0, nanos = 0\<rparr>"

definition msToPbTimestamp :: "int \<Rightarrow> time" where
  "msToPbTimestamp ms =
     (let secs = to_int32 (js_div (of_int ms) 1000)
      in \<lparr>seconds = of_int secs,
          nanos = js_mul (js_sub (of_int ms) (js_mul (of_int secs) 1000)) 1000000\<rparr>)"

text \<open>\<open>TimeDurationRange.covered\<close> of \<open>src/domain/time/index.ts\<close>; a duration is its milliseconds.\<close>

definition range_covered :: "rat \<times> rat \<Rightarrow> rat \<Rightarrow> bool \<Rightarrow> bool \<Rightarrow> bool" where
  "range_covered rng duration includeMin includeMax \<longleftrightarrow>
     (if includeMin then fst rng \<le> duration else fst rng < duration)
     \<and> (if includeMax then duration \<le> snd rng else duration < snd rng)"

section \<open>Links and services from messages\<close>

definition zeroLinkThroughput :: link_throughput where
  "zeroLinkThroughput =
     \<lparr>lt_flowAmount = 0,
      lt_latency = \<lparr>lat_min = time_zero, lat_max = time_zero, lat_avg = time_zero\<rparr>,
      lt_bytesTransfered = 0\<rparr>"

definition throughput_step :: "link_throughput \<Rightarrow> nat \<times> link_throughput \<Rightarrow> link_throughput" where
  "throughput_step combined it =
     (let idx = fst it; tp = snd it;
          c = combined\<lparr>lt_bytesTransfered := lt_bytesTransfered combined + lt_bytesTransfered tp,
                       lt_flowAmount := lt_flowAmount combined + lt_flowAmount tp\<rparr>
      in if idx = 0 then c\<lparr>lt_latency := lt_latency tp\<rparr>
         else (let l = lt_latency c
               in c\<lparr>lt_latency :=
                      \<lparr>lat_min = getMin (lat_min l) (lat_min (lt_latency tp)),
                       lat_max = getMax (lat_max l) (lat_max (lt_latency tp)),
                       lat_avg = the (getAverage [lat_avg l, lat_avg (lt_latency tp)])\<rparr>\<rparr>))"

definition reduceLinkThroughputs :: "link_throughput list \<Rightarrow> link_throughput" where
  "reduceLinkThroughputs tps = foldl throughput_step zeroLinkThroughput (enumerate 0 tps)"

definition isDumbLinkThroughput :: "link_throughput option \<Rightarrow> bool" where
  "isDumbLinkThroughput tp \<longleftrightarrow>
     (case tp of None \<Rightarrow> False | Some t \<Rightarrow> lt_flowAmount t \<le> 1 \<and> lt_bytesTransfered t \<le> 0)"

definition stateChangeFromPb :: "int \<Rightarrow> state_change" where
  "stateChangeFromPb c =
     (if c = 1 then StateChange_Added else if c = 2 then StateChange_Modified
      else if c = 3 then StateChange_Deleted else if c = 4 then StateChange_Exists
      else StateChange_Unknown)"

definition ipProtocolFromPb :: "int \<Rightarrow> ip_protocol" where
  "ipProtocolFromPb p =
     (if p = 1 then IPProtocol_TCP else if p = 2 then IPProtocol_UDP
      else if p = 3 then IPProtocol_ICMPv4 else if p = 4 then IPProtocol_ICMPv6
      else IPProtocol_Unknown)"

text \<open>The messages of the service map.\<close>

record pb_latency =
  pbl_min :: "time option"
  pbl_max :: "time option"
  pbl_avg :: "time option"

record pb_service_link =
  pbsl_id :: string
  pbsl_sourceId :: string
  pbsl_destinationId :: string
  pbsl_destinationPort :: int
  pbsl_ipProtocol :: int
  pbsl_verdict :: int
  pbsl_flowAmount :: int
  pbsl_bytesTransfered :: int
  pbsl_latency :: "pb_latency option"
  pbsl_authType :: int
  pbsl_isEncrypted :: bool

record pb_service =
  pbs_id :: string
  pbs_name :: string
  pbs_namespace :: string
  pbs_labels :: "string list"
  pbs_dnsNames :: "string list"
  pbs_egressPolicyEnforced :: bool
  pbs_ingressPolicyEnforced :: bool
  pbs_visibilityPolicyStatus :: string
  pbs_creationTimestamp :: "time option"
  pbs_workloads :: "workload list"
  pbs_identity :: int

definition fromDuration :: "time option \<Rightarrow> time option" where
  "fromDuration d = map_option (\<lambda>t. \<lparr>seconds = seconds t, nanos = nanos t\<rparr>) d"

definition or_zero :: "time option \<Rightarrow> time" where
  "or_zero t = (case t of None \<Rightarrow> time_zero | Some u \<Rightarrow> u)"

definition latencyFromPb :: "pb_latency option \<Rightarrow> latency" where
  "latencyFromPb lat =
     \<lparr>lat_min = or_zero (fromDuration (Option.bind lat pbl_min)),
      lat_max = or_zero (fromDuration (Option.bind lat pbl_max)),
      lat_avg = or_zero (fromDuration (Option.bind lat pbl_avg))\<rparr>"

text \<open>\<open>now\<close> is the clock's reading, and \<open>ref\<close> the identity of the new object.\<close>

definition relayServiceFromPb :: "int \<Rightarrow> pb_service \<Rightarrow> hubble_service" where
  "relayServiceFromPb now svc =
     \<lparr>hs_id = pbs_id svc, hs_name = pbs_name svc, hs_namespace = pbs_namespace svc,
      hs_labels = labels_labelsToKV (pbs_labels svc) False, hs_dnsNames = pbs_dnsNames svc,
      hs_egressPolicyEnforced = pbs_egressPolicyEnforced svc,
      hs_ingressPolicyEnforced = pbs_ingressPolicyEnforced svc,
      hs_visibilityPolicyStatus = pbs_visibilityPolicyStatus svc,
      hs_creationTimestamp =
        (case pbs_creationTimestamp svc of None \<Rightarrow> msToPbTimestamp now | Some t \<Rightarrow> t),
      hs_workloads = pbs_workloads svc, hs_identity = pbs_identity svc\<rparr>"

definition relayServiceLinkFromPb :: "nat \<Rightarrow> pb_service_link \<Rightarrow> hubble_link" where
  "relayServiceLinkFromPb ref link =
     \<lparr>hl_ref = ref, hl_id = pbsl_id link, hl_sourceId = pbsl_sourceId link,
      hl_destinationId = pbsl_destinationId link,
      hl_destinationPort = pbsl_destinationPort link,
      hl_ipProtocol = ipProtocolFromPb (pbsl_ipProtocol link),
      hl_verdict = verdictFromPb (pbsl_verdict link), hl_flowAmount = pbsl_flowAmount link,
      hl_latency = latencyFromPb (pbsl_latency link),
      hl_bytesTransfered = pbsl_bytesTransfered link,
      hl_authType = authTypeFromPb (pbsl_authType link), hl_isEncrypted = pbsl_isEncrypted link\<rparr>"

section \<open>Comparing times\<close>

lemma time_ms_sub:
  "compareTimes (Some a) (Some b) < 0 \<longleftrightarrow> time_ms a < time_ms b"
  "0 < compareTimes (Some a) (Some b) \<longleftrightarrow> time_ms b < time_ms a"
  "compareTimes (Some a) (Some b) \<le> 0 \<longleftrightarrow> time_ms a \<le> time_ms b"
  "compareTimes (Some a) (Some b) = 0 \<longleftrightarrow> time_ms a = time_ms b"
  unfolding compareTimes_def time_ms_def
  by (simp_all add: fl_sub_neg_iff fl_sub_pos_iff fl_sub_le_iff fl_sub_zero_iff)

lemma compareTimes_None [simp]: "compareTimes None t = 0" "compareTimes t None = 0"
  by (simp_all add: compareTimes_def split: option.split)

text \<open>Times that are present are compared consistently.\<close>

interpretation time_order: comparator compareTimes "{t. t \<noteq> None}"
proof
  show "compareTimes y x < 0" if "x \<in> {t. t \<noteq> None}" "y \<in> {t. t \<noteq> None}" "0 < compareTimes x y" for x y
    using that by (auto simp: time_ms_sub)
  show "compareTimes x z \<le> 0"
    if "x \<in> {t. t \<noteq> None}" "y \<in> {t. t \<noteq> None}" "z \<in> {t. t \<noteq> None}"
      "compareTimes x y \<le> 0" "compareTimes y z \<le> 0" for x y z
    using that by (auto simp: time_ms_sub)
qed

lemma getMin_ms: "time_ms (getMin a b) = min (time_ms a) (time_ms b)"
  by (simp add: getMin_def time_ms_sub)

lemma getMax_ms: "time_ms (getMax a b) = max (time_ms a) (time_ms b)"
  by (auto simp: getMax_def time_ms_sub)

lemma getMin_cases: "getMin a b = a \<or> getMin a b = b"
  and getMax_cases: "getMax a b = a \<or> getMax a b = b"
  by (simp_all add: getMin_def getMax_def)

section \<open>Dates\<close>

lemma div_1000_bounds:
  assumes "0 \<le> d" "(d :: int) < 2 ^ 42"
  shows "0 \<le> d div 1000" "d div 1000 < 2 ^ 42" "0 \<le> d div 1000 * 1000" "d div 1000 * 1000 < 2 ^ 42"
proof -
  have "d div 1000 * 1000 \<le> d" by simp
  then have "d div 1000 * 1000 < 2 ^ 42" using assms(2) by (rule order.strict_trans1)
  then show "d div 1000 * 1000 < 2 ^ 42" .
  show "0 \<le> d div 1000" "0 \<le> d div 1000 * 1000" using assms(1) by simp_all
  have "d div 1000 \<le> d" using assms(1) by (simp add: int_div_less_self div_le_dividend)
  then show "d div 1000 < 2 ^ 42" using assms(2) by (rule order.strict_trans1)
qed

lemma floor_div_1000:
  assumes "0 \<le> d" "d < 2 ^ 42"
  shows "\<lfloor>js_div (of_int d) 1000\<rfloor> = d div 1000"
proof -
  have "(of_int d :: rat) = of_int (1000 * (d div 1000) + d mod 1000)" by simp
  then have eq: "(of_int d / 1000 :: rat) = of_int (d div 1000) + of_int (d mod 1000) / 1000"
    by (simp only: of_int_add of_int_mult) simp
  show ?thesis
    unfolding eq using div_1000_bounds [OF assms] by (intro fl_thousandths(3)) simp_all
qed

lemma js_int_ops:
  "\<bar>a - b\<bar> < 2 ^ 53 \<Longrightarrow> js_sub (of_int a) (of_int b) = of_int (a - b)"
  "\<bar>a + b\<bar> < 2 ^ 53 \<Longrightarrow> js_add (of_int a) (of_int b) = of_int (a + b)"
  "\<bar>a * b\<bar> < 2 ^ 53 \<Longrightarrow> js_mul (of_int a) (of_int b) = of_int (a * b)"
  using fl_of_int [of "a - b"] fl_of_int [of "a + b"] fl_of_int [of "a * b"] by simp_all

lemma js_mul_numeral: "\<bar>a * numeral n\<bar> < 2 ^ 53 \<Longrightarrow> js_mul (of_int a) (numeral n) = of_int (a * numeral n)"
  using js_int_ops(3) [of a "numeral n"] by simp

text \<open>Up to the year 2109 a date is split exactly into whole seconds and the nanoseconds of its
  milliseconds.\<close>

lemma dateToTime_exact:
  assumes "0 \<le> d" "d < 2 ^ 42"
  shows "dateToTime d = \<lparr>seconds = of_int (d div 1000), nanos = of_int (d mod 1000 * 1000000)\<rparr>"
proof -
  have q: "\<bar>d div 1000 * 1000\<bar> < 2 ^ 53" using div_1000_bounds [OF assms] by simp
  have m: "js_mul (of_int (d div 1000)) 1000 = of_int (d div 1000 * 1000)"
    using q by (rule js_mul_numeral)
  have r: "d - d div 1000 * 1000 = d mod 1000" by (simp add: minus_div_mult_eq_mod)
  have "\<bar>d - d div 1000 * 1000\<bar> < 2 ^ 53" unfolding r using assms by simp
  then have s: "js_sub (of_int d) (of_int (d div 1000 * 1000)) = of_int (d mod 1000)"
    unfolding r [symmetric] by (rule js_int_ops(1))
  have "d mod 1000 < 1000" "0 \<le> d mod 1000" by simp_all
  then have "\<bar>d mod 1000 * 1000000\<bar> < 2 ^ 53" by simp
  then have n: "js_mul (of_int (d mod 1000)) 1000000 = of_int (d mod 1000 * 1000000)"
    by (rule js_mul_numeral)
  show ?thesis by (simp only: dateToTime_def floor_div_1000 [OF assms] Let_def m s n)
qed

lemma time_ms_dateToTime:
  assumes "0 \<le> d" "d < 2 ^ 42"
  shows "time_ms (dateToTime d) = of_int d"
proof -
  have q: "js_mul (of_int (d div 1000)) 1000 = of_int (d div 1000 * 1000)"
    using div_1000_bounds [OF assms] by (intro js_mul_numeral) simp
  have r: "js_div (of_int (d mod 1000 * 1000000)) 1000000 = of_int (d mod 1000)"
    using assms by (simp add: fl_of_int)
  have "js_add (of_int (d div 1000 * 1000)) (of_int (d mod 1000)) =
      of_int (d div 1000 * 1000 + d mod 1000)"
    using assms by (intro js_int_ops(2)) simp
  then show ?thesis
    by (simp only: time_ms_def dateToTime_exact [OF assms] time.simps q r) simp
qed

lemma timeToDate_dateToTime:
  assumes "0 \<le> d" "d < 2 ^ 42"
  shows "timeToDate (dateToTime d) = d - d mod 1000"
proof -
  let ?q = "d div 1000 * 1000" and ?r = "d mod 1000"
  have q: "js_mul (of_int (d div 1000)) 1000 = of_int ?q"
    using div_1000_bounds [OF assms] by (intro js_mul_numeral) simp
  have r: "0 \<le> ?r" "?r < 1000" by simp_all
  have "fl (of_int 0 + of_int ?r / 1000) < of_int 0 + 1" "of_int 0 \<le> fl (of_int 0 + of_int ?r / 1000)"
    using r by (intro fl_thousandths; simp)+
  have n: "js_div (of_int (?r * 1000000)) 1000000000 = fl (of_int ?r / 1000)" by simp
  let ?f = "fl (of_int ?r / 1000)"
  have "?f \<le> fl (of_int 1023 / 2 ^ 10)"
  proof (rule fl_mono)
    have "(of_int ?r :: rat) \<le> 999" using r(2) by simp
    then show "(of_int ?r / 1000 :: rat) \<le> of_int 1023 / 2 ^ 10" by simp
  qed
  also have "\<dots> = 1023 / 2 ^ 10" by (subst fl_scaled) simp_all
  finally have f: "?f \<le> 1023 / 2 ^ 10" .
  have f0: "0 \<le> ?f" using r by (intro fl_nonneg) simp
  have "fl (of_int ?q) \<le> fl (of_int ?q + ?f)" using f0 by (intro fl_mono) simp
  moreover have "fl (of_int ?q) = of_int ?q"
    using div_1000_bounds [OF assms] by (intro fl_of_int) simp
  ultimately have lo: "of_int ?q \<le> fl (of_int ?q + ?f)" by simp
  have "fl (of_int ?q + ?f) \<le> fl (of_int (?q * 2 ^ 10 + 1023) / 2 ^ 10)"
    using f by (intro fl_mono) (simp add: add_divide_distrib)
  also have "\<dots> = of_int (?q * 2 ^ 10 + 1023) / 2 ^ 10"
    using div_1000_bounds [OF assms] by (intro fl_scaled) simp_all
  also have "\<dots> < of_int ?q + 1" by (simp add: add_divide_distrib)
  finally have hi: "fl (of_int ?q + ?f) < of_int ?q + 1" .
  have "0 \<le> ?q" using assms by simp
  then have "(0 :: rat) \<le> of_int ?q" by (simp only: of_int_0_le_iff)
  with lo have "\<not> fl (of_int ?q + ?f) < 0" by linarith
  moreover have "\<lfloor>fl (of_int ?q + ?f)\<rfloor> = ?q" using lo hi by (simp add: floor_eq_iff)
  ultimately have "trunc (fl (of_int ?q + ?f)) = ?q" by (simp add: trunc_def)
  then show ?thesis
    by (simp only: timeToDate_def dateToTime_exact [OF assms] time.simps q n)
      (simp add: minus_mod_eq_div_mult)
qed

section \<open>Averages and throughputs\<close>

text \<open>The average of a date's time with itself: the nanoseconds are taken from the milliseconds
  less the seconds, not less the milliseconds of the seconds.\<close>

lemma average_same:
  assumes "0 \<le> d" "d < 2 ^ 33"
  shows "average_step (dateToTime d) (dateToTime d) =
     \<lparr>seconds = of_int (d div 1000), nanos = of_int ((d - d div 1000) * 1000000)\<rparr>"
proof -
  have d: "0 \<le> d" "d < 2 ^ 42" using assms by simp_all
  have b: "0 \<le> d - d div 1000" "d - d div 1000 < 2 ^ 33"
    using div_1000_bounds [OF d] assms by (simp_all add: zdiv_mono2)
  have "js_add (of_int d) (of_int d) = of_int (d + d)" using assms by (intro js_int_ops(2)) simp
  moreover have "js_div (of_int (d + d)) 2 = of_int d" using assms by (simp add: fl_of_int)
  moreover have "js_sub (of_int d) (of_int (d div 1000)) = of_int (d - d div 1000)"
    using b by (intro js_int_ops(1)) simp
  moreover have "js_mul (of_int (d - d div 1000)) 1000000 = of_int ((d - d div 1000) * 1000000)"
    using b by (intro js_mul_numeral) simp
  ultimately show ?thesis
    by (simp only: average_step_def time_ms_dateToTime [OF d] floor_div_1000 [OF d] Let_def
        floor_of_int)
qed

lemma throughput_fold:
  "lt_flowAmount (foldl throughput_step acc xs) = lt_flowAmount acc + (\<Sum>x\<leftarrow>xs. lt_flowAmount (snd x))"
  "lt_bytesTransfered (foldl throughput_step acc xs) =
     lt_bytesTransfered acc + (\<Sum>x\<leftarrow>xs. lt_bytesTransfered (snd x))"
  by (induction xs arbitrary: acc) (simp_all add: throughput_step_def Let_def)

lemma map_snd_enumerate: "map (\<lambda>x. f (snd x)) (enumerate n xs) = map f xs"
  by (induction xs arbitrary: n) simp_all

lemma throughput_latency:
  "0 < n \<Longrightarrow>
   (let c = foldl throughput_step acc (enumerate n tps);
        ms = (\<lambda>sel tp. time_ms (sel (lt_latency tp)))
    in ms lat_min c = fold min (map (ms lat_min) tps) (ms lat_min acc)
       \<and> ms lat_max c = fold max (map (ms lat_max) tps) (ms lat_max acc))"
proof (induction tps arbitrary: n acc)
  case Nil
  then show ?case by simp
next
  case (Cons tp tps)
  have "0 < Suc n" by simp
  note IH = Cons.IH [OF this, of "throughput_step acc (n, tp)"]
  from IH Cons.prems show ?case
    by (simp add: Let_def throughput_step_def getMin_ms getMax_ms min.commute max.commute)
qed

lemma reduce_latency:
  assumes "tps \<noteq> []"
  shows "time_ms (lat_min (lt_latency (reduceLinkThroughputs tps))) =
           Min ((\<lambda>tp. time_ms (lat_min (lt_latency tp))) ` set tps)"
    and "time_ms (lat_max (lt_latency (reduceLinkThroughputs tps))) =
           Max ((\<lambda>tp. time_ms (lat_max (lt_latency tp))) ` set tps)"
proof -
  obtain tp rest where tps: "tps = tp # rest" using assms by (cases tps) auto
  define acc where "acc = throughput_step zeroLinkThroughput (0, tp)"
  have acc: "lt_latency acc = lt_latency tp" by (simp add: acc_def throughput_step_def Let_def)
  have red: "reduceLinkThroughputs tps = foldl throughput_step acc (enumerate (Suc 0) rest)"
    by (simp add: reduceLinkThroughputs_def tps acc_def)
  note L = throughput_latency [of "Suc 0" acc rest, unfolded Let_def]
  show "time_ms (lat_min (lt_latency (reduceLinkThroughputs tps))) =
      Min ((\<lambda>tp. time_ms (lat_min (lt_latency tp))) ` set tps)"
    using L Min.set_eq_fold [of "time_ms (lat_min (lt_latency tp))"
        "map (\<lambda>tp. time_ms (lat_min (lt_latency tp))) rest"]
    unfolding red acc by (simp add: tps)
  show "time_ms (lat_max (lt_latency (reduceLinkThroughputs tps))) =
      Max ((\<lambda>tp. time_ms (lat_max (lt_latency tp))) ` set tps)"
    using L Max.set_eq_fold [of "time_ms (lat_max (lt_latency tp))"
        "map (\<lambda>tp. time_ms (lat_max (lt_latency tp))) rest"]
    unfolding red acc by (simp add: tps)
qed

section \<open>Properties\<close>

text \<open>the times made from two dates compare exactly as the dates do, to the millisecond.\<close>

theorem compareTimes_of_dates:
  assumes "0 \<le> a" "a < 2 ^ 42" "0 \<le> b" "b < 2 ^ 42"
  shows "compareTimes (Some (dateToTime a)) (Some (dateToTime b)) = of_int (a - b)"
proof -
  have "js_sub (of_int a) (of_int b) = of_int (a - b)"
    using assms by (intro js_int_ops(1)) (simp add: abs_less_iff)
  then show ?thesis using assms by (simp add: compareTimes_def time_ms_dateToTime)
qed

theorem compareTimes_of_dates_witness:
  "compareTimes (Some (dateToTime 1700000000123)) (Some (dateToTime 1700000000000)) = of_int (1700000000123 - 1700000000000)"
  by (rule compareTimes_of_dates) simp_all

text \<open>turning a date into a time and back loses its milliseconds: \<open>timeToDate\<close> divides the
  nanoseconds by \<open>1e9\<close> where a date counts milliseconds.\<close>

theorem date_round_trip_drops_milliseconds:
  assumes "0 \<le> d" "d < 2 ^ 42"
  shows "timeToDate (dateToTime d) = d - d mod 1000"
  using assms by (rule timeToDate_dateToTime)

theorem date_round_trip_drops_milliseconds_witness:
  "timeToDate (dateToTime 1700000000123) = 1700000000123 - 1700000000123 mod 1000"
  by (rule date_round_trip_drops_milliseconds) simp_all

text \<open>the average of two equal latencies of one second or more is not that latency: for a latency
  of \<open>d\<close> milliseconds the result carries \<open>d - d div 1000\<close> milliseconds of nanoseconds besides the
  \<open>d div 1000\<close> seconds.\<close>

theorem getAverage_of_equal_latencies:
  assumes "1000 \<le> d" "d < 2 ^ 33"
  shows "getAverage [dateToTime d, dateToTime d] =
           Some \<lparr>seconds = of_int (d div 1000), nanos = of_int ((d - d div 1000) * 1000000)\<rparr>
         \<and> getAverage [dateToTime d, dateToTime d] \<noteq> Some (dateToTime d)"
proof -
  have d: "0 \<le> d" "d < 2 ^ 42" using assms by simp_all
  have avg: "getAverage [dateToTime d, dateToTime d] =
      Some \<lparr>seconds = of_int (d div 1000), nanos = of_int ((d - d div 1000) * 1000000)\<rparr>"
    using average_same [of d] assms by (simp add: getAverage_def)
  have "1000 div 1000 \<le> d div 1000" using assms(1) by (rule zdiv_mono1) simp
  then have "d - d div 1000 \<noteq> d mod 1000" using div_mult_mod_eq [of d 1000] by linarith
  then have "(d - d div 1000) * 1000000 \<noteq> d mod 1000 * 1000000" by simp
  then have "(of_int ((d - d div 1000) * 1000000) :: rat) \<noteq> of_int (d mod 1000 * 1000000)"
    by (simp only: of_int_eq_iff not_False_eq_True)
  then have "\<lparr>seconds = of_int (d div 1000), nanos = of_int ((d - d div 1000) * 1000000)\<rparr> \<noteq> dateToTime d"
    by (simp only: dateToTime_exact [OF d] time.ext_inject simp_thms)
  with avg show ?thesis by (simp only: option.inject simp_thms)
qed

theorem getAverage_of_equal_latencies_witness:
  "getAverage [dateToTime 1500, dateToTime 1500] \<noteq> Some (dateToTime 1500)"
  by (rule getAverage_of_equal_latencies [THEN conjunct2]) simp_all

text \<open>combining link throughputs adds up the flow and byte counters, and for a non-empty list the
  combined minimum and maximum latency are the least and greatest of the list.\<close>

theorem reduceLinkThroughputs_spec:
  "lt_flowAmount (reduceLinkThroughputs tps) = sum_list (map lt_flowAmount tps) \<and>
   lt_bytesTransfered (reduceLinkThroughputs tps) = sum_list (map lt_bytesTransfered tps) \<and>
   (tps \<noteq> [] \<longrightarrow>
      time_ms (lat_min (lt_latency (reduceLinkThroughputs tps))) =
        Min ((\<lambda>tp. time_ms (lat_min (lt_latency tp))) ` set tps) \<and>
      time_ms (lat_max (lt_latency (reduceLinkThroughputs tps))) =
        Max ((\<lambda>tp. time_ms (lat_max (lt_latency tp))) ` set tps))"
  using reduce_latency [of tps]
  by (simp add: reduceLinkThroughputs_def throughput_fold map_snd_enumerate zeroLinkThroughput_def)

theorem reduceLinkThroughputs_spec_witness:
  "time_ms (lat_min (lt_latency (reduceLinkThroughputs [zeroLinkThroughput]))) =
     Min ((\<lambda>tp. time_ms (lat_min (lt_latency tp))) ` {zeroLinkThroughput})"
  using reduceLinkThroughputs_spec [of "[zeroLinkThroughput]"] by simp

end
