(* ===== verification/Flow_Conversions.thy ===== *)
theory Flow_Conversions
  imports Times
begin

text \<open>
  \<open>src/domain/helpers/flows.ts\<close>, \<open>namespaces.ts\<close>, \<open>notifications.ts\<close>: how the messages of the backend
  become flows, namespaces and notifications.  A protobuf message is a record of the fields that are
  read; a \<open>oneof\<close> is a datatype, an enumeration an integer.  Messages that are handed on as they are
  (services, event types, ethernet, DNS, Kafka, UDP and ICMP headers) have the type of the result.
  The readers of untyped JSON objects of log files are not modelled; the readers of their strings are.
\<close>

section \<open>Messages\<close>

record pb_endpoint =
  pbe_iD :: int
  pbe_identity :: int
  pbe_namespace :: string
  pbe_labels :: "string list"
  pbe_podName :: string
  pbe_workloads :: "workload list"

record pb_tcp_flags =
  pbf_fIN :: bool
  pbf_sYN :: bool
  pbf_rST :: bool
  pbf_pSH :: bool
  pbf_aCK :: bool
  pbf_uRG :: bool
  pbf_eCE :: bool
  pbf_cWR :: bool
  pbf_nS :: bool

record pb_tcp =
  pbt_sourcePort :: int
  pbt_destinationPort :: int
  pbt_flags :: "pb_tcp_flags option"

datatype pb_layer4 = PB_TCP pb_tcp | PB_UDP udp | PB_ICMPv4 icmp | PB_ICMPv6 icmp | PB_SCTP int int | PB_NoL4

record pb_http =
  pbh_code :: int
  pbh_method :: string
  pbh_url :: string
  pbh_protocol :: string
  pbh_headers :: "kv list"

datatype pb_l7_record = PB_DNS dns | PB_HTTP pb_http | PB_Kafka kafka | PB_NoL7

record pb_layer7 =
  pbl7_type :: int
  pbl7_latencyNs :: int
  pbl7_record :: pb_l7_record

record pb_ip =
  pbi_source :: string
  pbi_destination :: string
  pbi_ipVersion :: int
  pbi_encrypted :: bool

record pb_flow =
  pbfl_time :: "time option"
  pbfl_verdict :: int
  pbfl_dropReason :: int
  pbfl_dropReasonDesc :: int
  pbfl_authType :: int
  pbfl_ethernet :: "ethernet option"
  pbfl_iP :: "pb_ip option"
  pbfl_l4 :: "pb_layer4 option"
  pbfl_source :: "pb_endpoint option"
  pbfl_destination :: "pb_endpoint option"
  pbfl_type :: int
  pbfl_nodeName :: string
  pbfl_sourceNames :: "string list"
  pbfl_destinationNames :: "string list"
  pbfl_l7 :: "pb_layer7 option"
  pbfl_isReply :: "bool option"
  pbfl_eventType :: "cilium_event_type option"
  pbfl_sourceService :: "flow_service option"
  pbfl_destinationService :: "flow_service option"
  pbfl_trafficDirection :: int
  pbfl_summary :: string

section \<open>Enumerations\<close>

definition l7FlowTypeFromPb :: "int \<Rightarrow> l7_flow_type" where
  "l7FlowTypeFromPb pb =
     (if pb = 1 then L7FlowType_Request else if pb = 2 then L7FlowType_Response
      else if pb = 3 then L7FlowType_Sample else L7FlowType_Unknown)"

definition l7FlowTypeFromStr :: "string \<Rightarrow> l7_flow_type" where
  "l7FlowTypeFromStr str =
     (let s = to_lower str
      in if starts_with s ''request'' then L7FlowType_Request
         else if starts_with s ''response'' then L7FlowType_Response
         else if starts_with s ''sample'' then L7FlowType_Sample else L7FlowType_Unknown)"

definition trafficDirectionFromPb :: "int \<Rightarrow> traffic_direction" where
  "trafficDirectionFromPb pb =
     (if pb = 1 then TrafficDirection_Ingress else if pb = 2 then TrafficDirection_Egress
      else TrafficDirection_Unknown)"

definition trafficDirectionFromStr :: "string \<Rightarrow> traffic_direction" where
  "trafficDirectionFromStr str =
     (let s = to_lower str
      in if starts_with s ''ingress'' then TrafficDirection_Ingress
         else if starts_with s ''egress'' then TrafficDirection_Egress else TrafficDirection_Unknown)"

definition flowTypeFromPb :: "int \<Rightarrow> flow_type" where
  "flowTypeFromPb ft = (if ft = 1 then FlowType_L34 else if ft = 2 then FlowType_L7 else FlowType_Unknown)"

definition flowTypeFromStr :: "string \<Rightarrow> flow_type" where
  "flowTypeFromStr str =
     (let s = to_lower str; t = (if starts_with s ''l3_l4'' then FlowType_L34 else FlowType_Unknown)
      in if starts_with s ''l7'' then FlowType_L7 else t)"

definition flows_authTypeFromStr :: "string \<Rightarrow> auth_type" where
  "flows_authTypeFromStr str =
     (let s = to_lower str; t = (if starts_with s ''spire'' then AuthType_Spire else AuthType_Disbaled)
      in if starts_with s ''test'' then AuthType_TestAlwaysFail else t)"

definition ipVersionFromStr :: "string \<Rightarrow> ip_version" where
  "ipVersionFromStr ipv =
     (let s = to_lower ipv
      in if starts_with s ''ipv4'' then IPVersion_V4
         else if starts_with s ''ipv6'' then IPVersion_V6 else IPVersion_NotUsed)"

section \<open>Parts of flows\<close>

text \<open>\<open>isoTimeToHubbleTime\<close>: what \<open>Date\<close> makes of a string is a parameter, in milliseconds.\<close>

definition isoTimeToHubbleTime :: "(string \<Rightarrow> int option) \<Rightarrow> string \<Rightarrow> time option" where
  "isoTimeToHubbleTime parse_date t =
     (if t = [] then None
      else map_option
        (\<lambda>ms. let secs = to_int32 (js_div (of_int ms) 1000)
              in \<lparr>seconds = of_int secs,
                  nanos = js_mul (js_sub (js_div (of_int ms) 1000) (of_int secs)) 1000000000\<rparr>) (parse_date t))"

definition flowServiceFromPb :: "flow_service option \<Rightarrow> flow_service option" where
  "flowServiceFromPb svc = svc"

definition ciliumEventTypeFromPb :: "cilium_event_type option \<Rightarrow> cilium_event_type option" where
  "ciliumEventTypeFromPb cet = cet"

definition ethernetFromPb :: "ethernet option \<Rightarrow> ethernet option" where
  "ethernetFromPb e = e"

definition l7httpFromObj :: "pb_http \<Rightarrow> http" where
  "l7httpFromObj obj =
     \<lparr>http_code = pbh_code obj, http_method = pbh_method obj, http_url = pbh_url obj,
      http_protocol = pbh_protocol obj, http_headersList = pbh_headers obj\<rparr>"

definition l7FromPb :: "pb_layer7 option \<Rightarrow> layer7 option" where
  "l7FromPb l7 =
     map_option (\<lambda>l.
       \<lparr>l7_type = l7FlowTypeFromPb (pbl7_type l), l7_latencyNs = pbl7_latencyNs l,
        l7_dns = (case pbl7_record l of PB_DNS d \<Rightarrow> Some d | _ \<Rightarrow> None),
        l7_http = (case pbl7_record l of PB_HTTP h \<Rightarrow> Some (l7httpFromObj h) | _ \<Rightarrow> None),
        l7_kafka = (case pbl7_record l of PB_Kafka k \<Rightarrow> Some k | _ \<Rightarrow> None)\<rparr>) l7"

definition endpointFromPb :: "pb_endpoint option \<Rightarrow> endpoint option" where
  "endpointFromPb ep =
     map_option (\<lambda>e.
       \<lparr>ep_id = pbe_iD e, ep_identity = pbe_identity e, ep_namespace = pbe_namespace e, ep_labels = pbe_labels e,
        ep_workloads = pbe_workloads e, ep_podName = pbe_podName e\<rparr>) ep"

definition ipFromPb :: "pb_ip option \<Rightarrow> ip option" where
  "ipFromPb ip =
     map_option (\<lambda>i.
       \<lparr>ip_source = pbi_source i, ip_destination = pbi_destination i,
        ip_ipVersion = (if pbi_ipVersion i = 1 then IPVersion_V4 else if pbi_ipVersion i = 2 then IPVersion_V6
                        else IPVersion_NotUsed),
        ip_encrypted = pbi_encrypted i\<rparr>) ip"

text \<open>Of the names a flag can have in an object a message has the last one.\<close>

definition tcpFlagsFromObject :: "pb_tcp_flags option \<Rightarrow> tcp_flags option" where
  "tcpFlagsFromObject obj =
     map_option (\<lambda>f.
       \<lparr>tf_fin = pbf_fIN f, tf_syn = pbf_sYN f, tf_rst = pbf_rST f, tf_psh = pbf_pSH f, tf_ack = pbf_aCK f,
        tf_urg = pbf_uRG f, tf_ece = pbf_eCE f, tf_cwr = pbf_cWR f, tf_ns = pbf_nS f\<rparr>) obj"

definition tcpFlagsFromPb :: "pb_tcp_flags \<Rightarrow> tcp_flags" where
  "tcpFlagsFromPb flags = the (tcpFlagsFromObject (Some flags))"

definition tcpFromPb :: "pb_tcp \<Rightarrow> tcp" where
  "tcpFromPb t =
     \<lparr>tcp_sourcePort = pbt_sourcePort t, tcp_destinationPort = pbt_destinationPort t,
      tcp_flags = (case pbt_flags t of None \<Rightarrow> None | Some f \<Rightarrow> Some (tcpFlagsFromPb f))\<rparr>"

definition udpFromPb :: "udp \<Rightarrow> udp" where
  "udpFromPb u = u"

definition icmpv4FromPb :: "icmp \<Rightarrow> icmp" where
  "icmpv4FromPb i = i"

definition icmpv6FromPb :: "icmp \<Rightarrow> icmp" where
  "icmpv6FromPb i = icmpv4FromPb i"

definition l4FromPb :: "pb_layer4 option \<Rightarrow> layer4 option" where
  "l4FromPb l4 =
     map_option (\<lambda>l.
       \<lparr>l4_tcp = (case l of PB_TCP t \<Rightarrow> Some (tcpFromPb t) | _ \<Rightarrow> None),
        l4_udp = (case l of PB_UDP u \<Rightarrow> Some (udpFromPb u) | _ \<Rightarrow> None),
        l4_icmpv4 = (case l of PB_ICMPv4 i \<Rightarrow> Some (icmpv4FromPb i) | _ \<Rightarrow> None),
        l4_icmpv6 = (case l of PB_ICMPv6 i \<Rightarrow> Some (icmpv6FromPb i) | _ \<Rightarrow> None)\<rparr>) l4"

definition hubbleFlowFromPb :: "pb_flow \<Rightarrow> hubble_flow" where
  "hubbleFlowFromPb f =
     \<lparr>hf_time = map_option (\<lambda>t. \<lparr>seconds = seconds t, nanos = nanos t\<rparr>) (pbfl_time f),
      hf_verdict = verdictFromPb (pbfl_verdict f),
      hf_dropReason = (if pbfl_dropReasonDesc f \<noteq> 0 then pbfl_dropReasonDesc f else pbfl_dropReason f),
      hf_ethernet = ethernetFromPb (pbfl_ethernet f), hf_ip = ipFromPb (pbfl_iP f), hf_l4 = l4FromPb (pbfl_l4 f),
      hf_source = endpointFromPb (pbfl_source f), hf_destination = endpointFromPb (pbfl_destination f),
      hf_type = flowTypeFromPb (pbfl_type f), hf_nodeName = pbfl_nodeName f,
      hf_sourceNamesList = pbfl_sourceNames f, hf_destinationNamesList = pbfl_destinationNames f,
      hf_l7 = l7FromPb (pbfl_l7 f), hf_reply = pbfl_isReply f,
      hf_eventType = ciliumEventTypeFromPb (pbfl_eventType f),
      hf_sourceService = flowServiceFromPb (pbfl_sourceService f),
      hf_destinationService = flowServiceFromPb (pbfl_destinationService f), hf_summary = pbfl_summary f,
      hf_trafficDirection = trafficDirectionFromPb (pbfl_trafficDirection f),
      hf_authType = authTypeFromPb (pbfl_authType f)\<rparr>"

section \<open>Properties\<close>

text \<open>The names that the JSON form of a message gives to the values of an enumeration.\<close>

definition pb_name_tables ::
  "((int \<times> string) list) \<times> ((int \<times> string) list) \<times> ((int \<times> string) list) \<times> ((int \<times> string) list)" where
  "pb_name_tables =
     ([(0, ''TRAFFIC_DIRECTION_UNKNOWN''), (1, ''INGRESS''), (2, ''EGRESS'')],
      [(0, ''UNKNOWN_TYPE''), (1, ''L3_L4''), (2, ''L7''), (3, ''SOCK'')],
      [(0, ''UNKNOWN_L7_TYPE''), (1, ''REQUEST''), (2, ''RESPONSE''), (3, ''SAMPLE'')],
      [(0, ''DISABLED''), (1, ''SPIRE''), (2, ''TEST_ALWAYS_FAIL'')])"

text \<open>The values of the enumerations of a flow are read alike from their numbers in a message and
  from their names in a log file: traffic directions, kinds of flows and layer 7 flows, and kinds of
  authentication.\<close>

theorem flow_enums_agree:
  "case pb_name_tables of (directions, kinds, l7kinds, auths) \<Rightarrow>
     map (trafficDirectionFromStr \<circ> snd) directions = map (trafficDirectionFromPb \<circ> fst) directions
     \<and> map (flowTypeFromStr \<circ> snd) kinds = map (flowTypeFromPb \<circ> fst) kinds
     \<and> map (l7FlowTypeFromStr \<circ> snd) l7kinds = map (l7FlowTypeFromPb \<circ> fst) l7kinds
     \<and> map (flows_authTypeFromStr \<circ> snd) auths = map (authTypeFromPb \<circ> fst) auths"
  by code_simp

end
