(* ===== verification/Filter_Entry.thy ===== *)
theory Filter_Entry
  imports Helpers
begin

text \<open>
  \<open>src/domain/filtering/filter-entry.ts\<close>: one entry of the filter line, its textual form, and the
  combination of entry lists.  Entries are values; the setters that change the object
  (\<open>setQuery\<close>, \<open>setKind\<close>, \<open>prepareLabel\<close>) return the changed value.  The lemmas show that parsing
  inverts printing and what \<open>combine\<close> keeps.
\<close>

datatype filter_kind = Kind_Label | Kind_Ip | Kind_Dns | Kind_Identity | Kind_Workload
  | Kind_TCPFlag | Kind_Pod

fun kind_str :: "filter_kind \<Rightarrow> string" where
  "kind_str Kind_Label = ''label''"
| "kind_str Kind_Ip = ''ip''"
| "kind_str Kind_Dns = ''dns''"
| "kind_str Kind_Identity = ''identity''"
| "kind_str Kind_Workload = ''workload''"
| "kind_str Kind_TCPFlag = ''tcp-flag''"
| "kind_str Kind_Pod = ''pod''"

datatype filter_direction = Direction_From | Direction_To | Direction_Either

fun direction_str :: "filter_direction \<Rightarrow> string" where
  "direction_str Direction_From = ''from''"
| "direction_str Direction_To = ''to''"
| "direction_str Direction_Either = ''either''"

record filter_entry =
  fe_kind :: filter_kind
  fe_direction :: filter_direction
  fe_query :: string
  fe_meta :: "string option"
  fe_negative :: bool

section \<open>Parsing\<close>

definition fe_parseDirection :: "string \<Rightarrow> filter_direction option" where
  "fe_parseDirection s =
     find (\<lambda>d. direction_str d = s) [Direction_From, Direction_To, Direction_Either]"

definition fe_parseKind :: "string \<Rightarrow> filter_kind option" where
  "fe_parseKind s =
     find (\<lambda>k. kind_str k = s)
       [Kind_Label, Kind_Ip, Kind_Dns, Kind_Identity, Kind_Workload, Kind_TCPFlag, Kind_Pod]"

definition fe_parseParts :: "string \<Rightarrow> filter_direction \<times> filter_kind \<times> string \<times> bool" where
  "fe_parseParts userInput =
     (let negative = (take 1 userInput = ''!'');
          input = (if negative then drop 1 userInput else userInput);
          colon = index_of (CHR '':'') input;
          (direction, firstColonIdx) =
            (if colon \<noteq> -1
             then (case fe_parseDirection (str_slice input 0 colon) of
                     Some d \<Rightarrow> (d, colon)
                   | None \<Rightarrow> (Direction_Either, -1))
             else (Direction_Either, colon));
          firstEqualIdx = index_of (CHR ''='') input
      in if firstEqualIdx = -1
         then (direction, Kind_Label, slice_from input (firstColonIdx + 1), negative)
         else (case fe_parseKind (str_slice input (firstColonIdx + 1) firstEqualIdx) of
                 None \<Rightarrow> (direction, Kind_Label, slice_from input (firstColonIdx + 1), negative)
               | Some kind \<Rightarrow> (direction, kind, slice_from input (firstEqualIdx + 1), negative)))"

definition fe_parseWorkloadQueryAndMeta :: "string \<Rightarrow> string \<times> string option" where
  "fe_parseWorkloadQueryAndMeta v =
     (let parts0 = split_on (CHR '':'') v;
          sep = (if length parts0 < 2 then CHR ''/'' else CHR '':'');
          parts = (if length parts0 < 2 then split_on (CHR ''/'') v else parts0)
      in if length parts < 2 then (v, None)
         else (join_with [sep] (tl parts), Some (hd parts)))"

definition fe_parseRest :: "filter_kind \<Rightarrow> string \<Rightarrow> string \<times> string option" where
  "fe_parseRest kind rest =
     (case kind of Kind_Workload \<Rightarrow> fe_parseWorkloadQueryAndMeta rest | _ \<Rightarrow> (rest, None))"

definition fe_parse :: "string \<Rightarrow> filter_entry option" where
  "fe_parse userInput =
     (if userInput = [] then None
      else (let (direction, kind, rest, negative) = fe_parseParts userInput;
                (query, meta) = fe_parseRest kind rest
            in Some \<lparr>fe_kind = kind, fe_direction = direction, fe_query = query,
                     fe_meta = meta, fe_negative = negative\<rparr>))"

definition fe_parseMany :: "string option \<Rightarrow> char \<Rightarrow> filter_entry list" where
  "fe_parseMany src sep =
     (if \<not> truthy src then []
      else fold (\<lambda>part acc.
             let p = trim part
             in if p = [] then acc
                else (case fe_parse p of None \<Rightarrow> acc | Some e \<Rightarrow> acc @ [e]))
             (split_on sep (the src)) [])"

section \<open>Printing and constructors\<close>

definition fe_isWorkload :: "filter_entry \<Rightarrow> bool" where
  "fe_isWorkload fe \<longleftrightarrow> fe_kind fe = Kind_Workload"

text \<open>A template prints an absent value as \<open>undefined\<close>.\<close>

definition print_undefined :: "string option \<Rightarrow> string" where
  "print_undefined s = (case s of None \<Rightarrow> ''undefined'' | Some t \<Rightarrow> t)"

definition fe_toString :: "filter_entry \<Rightarrow> string" where
  "fe_toString fe =
     (let base = (if fe_negative fe then ''!'' else []) @ direction_str (fe_direction fe) @ '':''
                 @ kind_str (fe_kind fe) @ ''=''
      in if fe_isWorkload fe then base @ print_undefined (fe_meta fe) @ '':'' @ fe_query fe
         else base @ fe_query fe)"

definition fe_new :: "filter_kind \<Rightarrow> string \<Rightarrow> string option \<Rightarrow> filter_entry" where
  "fe_new kind query meta =
     \<lparr>fe_kind = kind, fe_direction = Direction_Either, fe_query = query, fe_meta = meta,
      fe_negative = False\<rparr>"

definition fe_newTCPFlag :: "string \<Rightarrow> filter_entry" where
  "fe_newTCPFlag flag = fe_new Kind_TCPFlag flag (Some [])"

definition fe_newLabel :: "string \<Rightarrow> filter_entry" where
  "fe_newLabel label = fe_new Kind_Label label (Some [])"

definition fe_newPod :: "string \<Rightarrow> filter_entry" where
  "fe_newPod podName = fe_new Kind_Pod podName (Some [])"

definition fe_newIdentity :: "string \<Rightarrow> filter_entry" where
  "fe_newIdentity identity = fe_new Kind_Identity identity (Some [])"

definition fe_newDNS :: "string \<Rightarrow> filter_entry" where
  "fe_newDNS dns = fe_new Kind_Dns dns (Some [])"

definition fe_newIP :: "string \<Rightarrow> filter_entry" where
  "fe_newIP ip = fe_new Kind_Ip ip (Some [])"

definition fe_newWorkload :: "workload \<Rightarrow> filter_entry" where
  "fe_newWorkload wl = fe_new Kind_Workload (wl_name wl) (Some (wl_kind wl))"

definition fe_setMeta :: "string \<Rightarrow> filter_entry \<Rightarrow> filter_entry" where
  "fe_setMeta meta fe = fe\<lparr>fe_meta := Some meta\<rparr>"

definition fe_setQuery :: "string \<Rightarrow> filter_entry \<Rightarrow> filter_entry" where
  "fe_setQuery q fe = fe\<lparr>fe_query := q\<rparr>"

definition fe_setDirection :: "filter_direction \<Rightarrow> filter_entry \<Rightarrow> filter_entry" where
  "fe_setDirection d fe = fe\<lparr>fe_direction := d\<rparr>"

definition fe_setKind :: "filter_kind \<Rightarrow> filter_entry \<Rightarrow> filter_entry" where
  "fe_setKind k fe = fe\<lparr>fe_kind := k\<rparr>"

definition fe_newPodSelector :: "pod_selector \<Rightarrow> filter_entry" where
  "fe_newPodSelector ps =
     fe_setMeta (case ps_namespace ps of None \<Rightarrow> [] | Some ns \<Rightarrow> ns) (fe_newPod (ps_pod ps))"

definition fe_asWorkload :: "filter_entry \<Rightarrow> workload option" where
  "fe_asWorkload fe =
     (if \<not> truthy (fe_meta fe) \<or> fe_query fe = [] then None
      else Some \<lparr>wl_kind = the (fe_meta fe), wl_name = fe_query fe\<rparr>)"

definition fe_prepareLabel :: "filter_entry \<Rightarrow> filter_entry" where
  "fe_prepareLabel fe =
     (if fe_kind fe \<noteq> Kind_Label then fe else fe\<lparr>fe_query := labels_ensureK8sPrefix (fe_query fe)\<rparr>)"

definition fe_equals :: "filter_entry \<Rightarrow> filter_entry \<Rightarrow> bool" where
  "fe_equals a b \<longleftrightarrow>
     fe_kind a = fe_kind b \<and> fe_direction a = fe_direction b \<and> fe_query a = fe_query b
     \<and> fe_negative a = fe_negative b"

definition fe_fromRequired :: "filter_entry \<Rightarrow> bool" where
  "fe_fromRequired fe \<longleftrightarrow> fe_direction fe \<in> {Direction_Either, Direction_From}"

definition fe_toRequired :: "filter_entry \<Rightarrow> bool" where
  "fe_toRequired fe \<longleftrightarrow> fe_direction fe \<in> {Direction_Either, Direction_To}"

definition fe_labelKeyValue :: "filter_entry \<Rightarrow> string \<times> string" where
  "fe_labelKeyValue fe =
     (let parts = split_on (CHR ''='') (fe_query fe) in (hd parts, join_with ''='' (tl parts)))"

definition fe_podNamespace :: "filter_entry \<Rightarrow> string option" where
  "fe_podNamespace fe = (if truthy (fe_meta fe) then fe_meta fe else None)"

section \<open>Combining lists\<close>

text \<open>The loops of \<open>combine\<close>; the state is the result so far, the set of excluded or already used
  strings, and whether anything changed.\<close>

type_synonym combine_state = "filter_entry list \<times> string list \<times> bool"

definition combine_base_step :: "filter_entry \<Rightarrow> combine_state \<Rightarrow> combine_state" where
  "combine_base_step fe st =
     (let (result, hashes, changed) = st; key = fe_toString fe
      in if key \<in> set hashes then (result, hashes, True)
         else (result @ [fe], set_add key hashes, changed))"

definition combine_include_step :: "filter_entry \<Rightarrow> combine_state \<Rightarrow> combine_state" where
  "combine_include_step fe st =
     (let (result, hashes, changed) = st; key = fe_toString fe
      in if key \<in> set hashes then (result, hashes, changed)
         else (result @ [fe], set_add key hashes, True))"

definition fe_combine ::
  "filter_entry list \<Rightarrow> filter_entry list \<Rightarrow> filter_entry list \<Rightarrow> filter_entry list \<times> bool" where
  "fe_combine base incl excl =
     (let (result, hashes, changed) =
            fold combine_include_step incl
              (fold combine_base_step base ([], set_of_list (map fe_toString excl), False))
      in (result, changed))"

definition fe_unique :: "filter_entry list \<Rightarrow> filter_entry list" where
  "fe_unique base = fst (fe_combine base [] [])"

section \<open>Lemmas\<close>

lemma direction_str_chars:
  "CHR '':'' \<notin> set (direction_str d)" "CHR ''='' \<notin> set (direction_str d)" "direction_str d \<noteq> []"
  "take 1 (direction_str d @ s) \<noteq> ''!''"
  by (cases d; simp)+

lemma kind_str_chars: "CHR '':'' \<notin> set (kind_str k)" "CHR ''='' \<notin> set (kind_str k)"
  by (cases k; simp)+

lemma fe_parseDirection_str [simp]: "fe_parseDirection (direction_str d) = Some d"
  by (cases d) (simp_all add: fe_parseDirection_def)

lemma fe_parseKind_str [simp]: "fe_parseKind (kind_str k) = Some k"
  by (cases k) (simp_all add: fe_parseKind_def)

text \<open>What the parts of a printed entry are.\<close>

definition negative_str :: "bool \<Rightarrow> string" where
  "negative_str n = (if n then ''!'' else [])"

lemma parseParts_printed:
  "fe_parseParts (negative_str n @ direction_str d @ CHR '':'' # kind_str k @ CHR ''='' # rest) =
     (d, k, rest, n)"
proof -
  let ?u = "direction_str d @ CHR '':'' # kind_str k @ CHR ''='' # rest"
  have neg: "take 1 (negative_str n @ ?u) = ''!'' \<longleftrightarrow> n"
    using direction_str_chars(4) [of d] by (simp add: negative_str_def)
  have input: "(if n then drop 1 (negative_str n @ ?u) else negative_str n @ ?u) = ?u"
    by (simp add: negative_str_def)
  have colon: "index_of (CHR '':'') ?u = int (length (direction_str d))"
    using direction_str_chars(1) by (rule index_of_append)
  have eq: "index_of (CHR ''='') ?u = int (length (direction_str d @ CHR '':'' # kind_str k))"
    using index_of_append [of "CHR ''=''" "direction_str d @ CHR '':'' # kind_str k" rest]
      direction_str_chars(2) [of d] kind_str_chars(2) [of k] by simp
  have s1: "str_slice ?u 0 (int (length (direction_str d))) = direction_str d" by (rule slice_prefix)
  have s2: "str_slice ?u (int (length (direction_str d)) + 1)
              (int (length (direction_str d @ CHR '':'' # kind_str k))) = kind_str k"
    using slice_infix [of "direction_str d" "CHR '':''" "kind_str k" "CHR ''='' # rest"]
    by (simp add: add.commute add.left_commute)
  have s3: "slice_from ?u (int (length (direction_str d @ CHR '':'' # kind_str k)) + 1) = rest"
    using slice_from_append_Suc [of "direction_str d @ CHR '':'' # kind_str k" "CHR ''=''" rest]
    by simp
  have "int (length (direction_str d)) \<noteq> -1"
    "int (length (direction_str d @ CHR '':'' # kind_str k)) \<noteq> -1" by simp_all
  then show ?thesis
    unfolding fe_parseParts_def Let_def neg input colon eq s1
    by (simp only: s2 s3 fe_parseDirection_str fe_parseKind_str option.case prod.case if_False
        not_False_eq_True if_True)
qed

lemma fe_toString_eq:
  "fe_toString fe =
     negative_str (fe_negative fe) @ direction_str (fe_direction fe) @ CHR '':'' # kind_str (fe_kind fe)
     @ CHR ''='' # (if fe_isWorkload fe then print_undefined (fe_meta fe) @ CHR '':'' # fe_query fe
                    else fe_query fe)"
  by (simp add: fe_toString_def negative_str_def)

lemma fe_toString_not_Nil [simp]: "fe_toString fe \<noteq> []"
  using direction_str_chars(3) by (simp add: fe_toString_eq)

lemma parseWorkload_printed:
  assumes "CHR '':'' \<notin> set m"
  shows "fe_parseWorkloadQueryAndMeta (m @ CHR '':'' # q) = (q, Some m)"
proof -
  have "split_on (CHR '':'') (m @ CHR '':'' # q) = m # split_on (CHR '':'') q"
    using assms by (intro split_by_append) auto
  moreover have "split_on (CHR '':'') q \<noteq> []" by simp
  ultimately show ?thesis by (simp add: fe_parseWorkloadQueryAndMeta_def Let_def Suc_le_eq)
qed

text \<open>The entry that a printed entry is read back as: the meta of a workload is printed, any other
  meta is not.\<close>

definition fe_canonical :: "filter_entry \<Rightarrow> filter_entry" where
  "fe_canonical fe =
     fe\<lparr>fe_meta := if fe_isWorkload fe then Some (print_undefined (fe_meta fe)) else None\<rparr>"

lemma fe_parse_toString:
  assumes "fe_isWorkload fe \<Longrightarrow> CHR '':'' \<notin> set (print_undefined (fe_meta fe))"
  shows "fe_parse (fe_toString fe) = Some (fe_canonical fe)"
proof (cases "fe_isWorkload fe")
  case True
  with assms have "fe_parseRest (fe_kind fe) (print_undefined (fe_meta fe) @ CHR '':'' # fe_query fe) =
      (fe_query fe, Some (print_undefined (fe_meta fe)))"
    by (simp add: fe_parseRest_def fe_isWorkload_def parseWorkload_printed)
  with True show ?thesis
    by (simp add: fe_parse_def fe_toString_eq parseParts_printed fe_canonical_def)
next
  case False
  then have "fe_parseRest (fe_kind fe) q = (q, None)" for q
    by (cases "fe_kind fe") (simp_all add: fe_parseRest_def fe_isWorkload_def)
  with False show ?thesis
    by (simp add: fe_parse_def fe_toString_eq parseParts_printed fe_canonical_def)
qed

lemma fe_toString_canonical [simp]: "fe_toString (fe_canonical fe) = fe_toString fe"
  by (simp add: fe_toString_eq fe_canonical_def fe_isWorkload_def print_undefined_def)

lemma fe_toString_eqD:
  assumes "fe_toString a = fe_toString b"
    and "fe_isWorkload a \<Longrightarrow> CHR '':'' \<notin> set (print_undefined (fe_meta a))"
    and "fe_isWorkload b \<Longrightarrow> CHR '':'' \<notin> set (print_undefined (fe_meta b))"
  shows "fe_canonical a = fe_canonical b"
  using fe_parse_toString [OF assms(2)] fe_parse_toString [OF assms(3)] assms(1) by simp

subsection \<open>Combination\<close>

text \<open>Both loops keep the results' strings distinct and among the used ones.\<close>

definition combine_inv :: "string set \<Rightarrow> combine_state \<Rightarrow> bool" where
  "combine_inv excl st \<longleftrightarrow>
     (case st of (result, hashes, changed) \<Rightarrow>
        distinct (map fe_toString result) \<and> set hashes = excl \<union> fe_toString ` set result
        \<and> excl \<inter> fe_toString ` set result = {})"

lemma combine_step_inv:
  "combine_inv excl st \<Longrightarrow> combine_inv excl (combine_base_step fe st)"
  "combine_inv excl st \<Longrightarrow> combine_inv excl (combine_include_step fe st)"
  by (auto simp: combine_inv_def combine_base_step_def combine_include_step_def Let_def split: prod.splits)

lemma combine_base_inv:
  "combine_inv excl st \<Longrightarrow> combine_inv excl (fold combine_base_step base st)"
  by (induction base arbitrary: st) (simp_all add: combine_step_inv)

lemma combine_include_inv:
  "combine_inv excl st \<Longrightarrow> combine_inv excl (fold combine_include_step incl st)"
  by (induction incl arbitrary: st) (simp_all add: combine_step_inv)

lemma combine_init_inv: "combine_inv (fe_toString ` set excl) ([], set_of_list (map fe_toString excl), False)"
  by (simp add: combine_inv_def)

lemma combine_base_strings:
  "combine_inv excl st \<Longrightarrow>
   fe_toString ` set (fst (fold combine_base_step base st)) =
     fe_toString ` set (fst st) \<union> (fe_toString ` set base - excl)"
proof (induction base arbitrary: st)
  case (Cons fe base)
  obtain r h c where st: "st = (r, h, c)" by (cases st) auto
  have inv: "combine_inv excl (combine_base_step fe st)"
    using combine_base_inv [OF Cons.prems, of "[fe]"] by simp
  show ?case
    using Cons.prems Cons.IH [OF inv]
    by (auto simp: st combine_base_step_def Let_def combine_inv_def split: if_splits)
qed simp

lemma combine_include_strings:
  "combine_inv excl st \<Longrightarrow>
   fe_toString ` set (fst (fold combine_include_step incl st)) =
     fe_toString ` set (fst st) \<union> (fe_toString ` set incl - excl)"
proof (induction incl arbitrary: st)
  case (Cons fe incl)
  obtain r h c where st: "st = (r, h, c)" by (cases st) auto
  have inv: "combine_inv excl (combine_include_step fe st)"
    using combine_include_inv [OF Cons.prems, of "[fe]"] by simp
  show ?case
    using Cons.prems Cons.IH [OF inv]
    by (auto simp: st combine_include_step_def Let_def combine_inv_def split: if_splits)
qed simp

lemma fe_combine_strings:
  "distinct (map fe_toString (fst (fe_combine base incl excl)))"
  "fe_toString ` set (fst (fe_combine base incl excl)) =
     fe_toString ` (set base \<union> set incl) - fe_toString ` set excl"
proof -
  let ?s0 = "([], set_of_list (map fe_toString excl), False) :: combine_state"
  let ?s1 = "fold combine_base_step base ?s0"
  let ?s2 = "fold combine_include_step incl ?s1"
  note i1 = combine_base_inv [OF combine_init_inv [of excl], of base]
  note i2 = combine_include_inv [OF i1, of incl]
  have f: "fst (fe_combine base incl excl) = fst ?s2"
    by (simp add: fe_combine_def split: prod.split)
  show "distinct (map fe_toString (fst (fe_combine base incl excl)))"
    using i2 unfolding f by (cases ?s2) (simp add: combine_inv_def)
  show "fe_toString ` set (fst (fe_combine base incl excl)) =
     fe_toString ` (set base \<union> set incl) - fe_toString ` set excl"
    unfolding f combine_include_strings [OF i1] combine_base_strings [OF combine_init_inv] by auto
qed

text \<open>Every entry of the result is one of the entries given.\<close>

lemma combine_base_subset: "set (fst (fold combine_base_step base st)) \<subseteq> set (fst st) \<union> set base"
proof (induction base arbitrary: st)
  case (Cons fe base)
  have "set (fst (combine_base_step fe st)) \<subseteq> insert fe (set (fst st))"
    by (auto simp: combine_base_step_def Let_def split: prod.splits if_splits)
  with Cons.IH [of "combine_base_step fe st"] show ?case by auto
qed simp

lemma combine_include_subset: "set (fst (fold combine_include_step incl st)) \<subseteq> set (fst st) \<union> set incl"
proof (induction incl arbitrary: st)
  case (Cons fe incl)
  have "set (fst (combine_include_step fe st)) \<subseteq> insert fe (set (fst st))"
    by (auto simp: combine_include_step_def Let_def split: prod.splits if_splits)
  with Cons.IH [of "combine_include_step fe st"] show ?case by auto
qed simp

lemma fe_combine_subset: "set (fst (fe_combine base incl excl)) \<subseteq> set base \<union> set incl"
proof -
  let ?s0 = "([], set_of_list (map fe_toString excl), False) :: combine_state"
  have "fst (fe_combine base incl excl) = fst (fold combine_include_step incl (fold combine_base_step base ?s0))"
    by (simp add: fe_combine_def split: prod.split)
  then show ?thesis
    using combine_include_subset [of incl "fold combine_base_step base ?s0"]
      combine_base_subset [of base ?s0] by auto
qed

text \<open>A list without repeated strings, none of them excluded, passes through the first loop.\<close>

lemma combine_base_id:
  "distinct (map fe_toString base) \<Longrightarrow> fe_toString ` set base \<inter> set (fst (snd st)) = {} \<Longrightarrow>
   fst (fold combine_base_step base st) = fst st @ base
   \<and> snd (snd (fold combine_base_step base st)) = snd (snd st)"
proof (induction base arbitrary: st)
  case (Cons fe base)
  obtain r h c where st: "st = (r, h, c)" by (cases st) auto
  have "combine_base_step fe st = (r @ [fe], set_add (fe_toString fe) h, c)"
    using Cons.prems by (simp add: st combine_base_step_def Let_def)
  moreover have "fe_toString ` set base \<inter> set (fst (snd (r @ [fe], set_add (fe_toString fe) h, c))) = {}"
    using Cons.prems by (auto simp: st)
  ultimately show ?case
    using Cons.IH [of "(r @ [fe], set_add (fe_toString fe) h, c)"] Cons.prems(1) by (simp add: st)
qed simp

lemma fe_unique_id: "distinct (map fe_toString base) \<Longrightarrow> fe_unique base = base"
  using combine_base_id [of base "([], set_of_list (map fe_toString []), False)"]
  by (auto simp: fe_unique_def fe_combine_def set_of_list_def split: prod.splits)

lemma fe_unique_idem [simp]: "fe_unique (fe_unique base) = fe_unique base"
proof -
  have "distinct (map fe_toString (fe_unique base))"
    unfolding fe_unique_def by (rule fe_combine_strings(1))
  then show ?thesis by (rule fe_unique_id)
qed

subsection \<open>Lists in one string\<close>

lemma fe_parseMany_fold:
  "fold (\<lambda>part acc. let p = trim part in if p = [] then acc
          else (case fe_parse p of None \<Rightarrow> acc | Some e \<Rightarrow> acc @ [e])) parts acc =
   acc @ List.map_filter (\<lambda>part. fe_parse (trim part)) parts"
proof (induction parts arbitrary: acc)
  case Nil
  then show ?case by (simp add: List.map_filter_simps)
next
  case (Cons p parts)
  have "fe_parse [] = None" by (simp add: fe_parse_def)
  then show ?case
    by (auto simp: Let_def Cons.IH [unfolded Let_def] List.map_filter_simps split: option.splits)
qed

lemma fe_parseMany_join:
  assumes "\<And>fe. fe \<in> set fes \<Longrightarrow> CHR '','' \<notin> set (fe_toString fe) \<and> trim (fe_toString fe) = fe_toString fe"
    and "\<And>fe. fe \<in> set fes \<Longrightarrow> fe_isWorkload fe \<Longrightarrow> CHR '':'' \<notin> set (print_undefined (fe_meta fe))"
  shows "fe_parseMany (Some (join_with '','' (map fe_toString fes))) (CHR '','') = map fe_canonical fes"
proof (cases "fes = []")
  case True
  then show ?thesis by (simp add: fe_parseMany_def)
next
  case False
  have split: "split_on (CHR '','') (join_with '','' (map fe_toString fes)) = map fe_toString fes"
    using False assms(1) by (intro split_join) auto
  have "truthy (Some (join_with '','' (map fe_toString fes)))"
    using False by (cases fes; cases "tl fes") (auto simp: truthy_def)
  moreover have "List.map_filter (\<lambda>part. fe_parse (trim part)) (map fe_toString fes) = map fe_canonical fes"
    using assms by (induction fes) (simp_all add: List.map_filter_simps fe_parse_toString)
  ultimately show ?thesis
    unfolding fe_parseMany_def fe_parseMany_fold by (simp add: split)
qed

section \<open>Properties\<close>

text \<open>parsing inverts printing: a printed filter entry is read back with its kind, direction, query
  and negation, and for a workload with its kind as meta (a meta of another kind is not printed);
  a workload kind must not contain a colon.\<close>

theorem filter_entry_round_trip:
  assumes "fe_isWorkload fe \<Longrightarrow> CHR '':'' \<notin> set (print_undefined (fe_meta fe))"
  shows "fe_parse (fe_toString fe) =
           Some (fe\<lparr>fe_meta := if fe_isWorkload fe then Some (print_undefined (fe_meta fe)) else None\<rparr>)"
  using fe_parse_toString [OF assms] by (simp add: fe_canonical_def)

theorem filter_entry_round_trip_witness:
  "fe_parse (fe_toString (fe_newWorkload \<lparr>wl_kind = ''Deployment'', wl_name = ''a:b=c''\<rparr>)) =
     Some (fe_newWorkload \<lparr>wl_kind = ''Deployment'', wl_name = ''a:b=c''\<rparr>)"
  by (subst filter_entry_round_trip)
    (simp_all add: fe_newWorkload_def fe_new_def fe_isWorkload_def print_undefined_def)

text \<open>\<open>combine\<close> returns entries with distinct strings, and their strings are exactly those of the
  base and included entries that are not excluded; every entry it returns was given.\<close>

theorem combine_spec:
  "distinct (map fe_toString (fst (fe_combine base incl excl))) \<and>
   fe_toString ` set (fst (fe_combine base incl excl)) =
     fe_toString ` (set base \<union> set incl) - fe_toString ` set excl \<and>
   set (fst (fe_combine base incl excl)) \<subseteq> set base \<union> set incl"
  using fe_combine_strings [of base incl excl] fe_combine_subset [of base incl excl] by simp

text \<open>C11: a list of filter entries survives the comma-separated query parameter, up to the metas that
  are not printed, when no printed entry contains a comma or surrounding white space and no workload
  kind contains a colon.\<close>

theorem filter_entries_round_trip:
  assumes "\<And>fe. fe \<in> set fes \<Longrightarrow> CHR '','' \<notin> set (fe_toString fe) \<and> trim (fe_toString fe) = fe_toString fe"
    and "\<And>fe. fe \<in> set fes \<Longrightarrow> fe_isWorkload fe \<Longrightarrow> CHR '':'' \<notin> set (print_undefined (fe_meta fe))"
  shows "fe_parseMany (Some (join_with '','' (map fe_toString fes))) (CHR '','') = map fe_canonical fes"
  using assms by (rule fe_parseMany_join)

theorem filter_entries_round_trip_witness:
  "fe_parseMany (Some (join_with '','' (map fe_toString [fe_newPod ''a'', fe_newLabel ''k=v'']))) (CHR '','')
     = map fe_canonical [fe_newPod ''a'', fe_newLabel ''k=v'']"
  by (rule filter_entries_round_trip)
    (auto simp: fe_newPod_def fe_newLabel_def fe_new_def fe_toString_def fe_isWorkload_def trim_def
      is_space_def)

end
