(* ===== verification/Diffs.thy ===== *)
theory Diffs
  imports Filter_Entry
begin

text \<open>
  \<open>src/domain/diff/index.ts\<close>, \<open>src/domain/filtering/filters.ts\<close> and
  \<open>src/domain/filtering/filters-diff.ts\<close>: the value before and after a step with a cached answer to
  whether they differ, the filters object, and the diff of its eight fields.  Copying a value is the
  identity; a type's own equality is an argument of the generic class.  The cache of the nested
  \<open>diff\<close> is not represented, the value it would hold is \<open>diff_computeDiff\<close>.

  A \<open>Set\<close> of verdicts is a list without duplicates; the sizes that the code compares are lengths.
\<close>

section \<open>Differences of a value\<close>

record 'a diff =
  d_changed :: "bool option"
  d_before :: "'a option"
  d_after :: "'a option"
  d_compare :: "('a \<Rightarrow> 'a \<Rightarrow> bool) option"

text \<open>\<open>equals\<close> of \<open>misc.ts\<close>: absent values first, then the comparator, then the own equality.\<close>

definition misc_equals ::
  "('a \<Rightarrow> 'a \<Rightarrow> bool) \<Rightarrow> 'a option \<Rightarrow> 'a option \<Rightarrow> ('a \<Rightarrow> 'a \<Rightarrow> bool) option \<Rightarrow> bool" where
  "misc_equals own lhs rhs compareFn =
     (case (lhs, rhs) of
        (Some _, None) \<Rightarrow> False
      | (None, Some _) \<Rightarrow> False
      | (None, None) \<Rightarrow> True
      | (Some l, Some r) \<Rightarrow> (case compareFn of Some cf \<Rightarrow> cf l r | None \<Rightarrow> own l r))"

definition diff_new :: "'a option \<Rightarrow> 'a diff" where
  "diff_new init = \<lparr>d_changed = None, d_before = None, d_after = init, d_compare = None\<rparr>"

definition diff_computeChanged :: "('a \<Rightarrow> 'a \<Rightarrow> bool) \<Rightarrow> 'a diff \<Rightarrow> bool" where
  "diff_computeChanged own d = (\<not> misc_equals own (d_before d) (d_after d) (d_compare d))"

definition diff_changed :: "('a \<Rightarrow> 'a \<Rightarrow> bool) \<Rightarrow> 'a diff \<Rightarrow> bool" where
  "diff_changed own d =
     (case d_changed d of Some b \<Rightarrow> b | None \<Rightarrow> diff_computeChanged own d)"

text \<open>Reading \<open>changed\<close> fills the cache.\<close>

definition diff_readChanged :: "('a \<Rightarrow> 'a \<Rightarrow> bool) \<Rightarrow> 'a diff \<Rightarrow> bool \<times> 'a diff" where
  "diff_readChanged own d = (diff_changed own d, d\<lparr>d_changed := Some (diff_changed own d)\<rparr>)"

definition diff_dropCached :: "'a diff \<Rightarrow> 'a diff" where
  "diff_dropCached d = d\<lparr>d_changed := None\<rparr>"

definition diff_replace :: "'a diff \<Rightarrow> 'a diff \<Rightarrow> 'a diff" where
  "diff_replace d rhs =
     d\<lparr>d_before := d_before rhs, d_after := d_after rhs, d_changed := d_changed rhs\<rparr>"

definition diff_setAfter :: "'a option \<Rightarrow> 'a diff \<Rightarrow> 'a diff" where
  "diff_setAfter after d = diff_dropCached (d\<lparr>d_after := after\<rparr>)"

definition diff_step :: "'a option \<Rightarrow> 'a diff \<Rightarrow> 'a diff" where
  "diff_step nextAfter d = diff_dropCached (d\<lparr>d_before := d_after d, d_after := nextAfter\<rparr>)"

definition diff_clone :: "'a diff \<Rightarrow> 'a diff" where
  "diff_clone d =
     \<lparr>d_changed = d_changed d, d_before = d_before d, d_after = d_after d, d_compare = None\<rparr>"

definition diff_invert :: "'a diff \<Rightarrow> 'a diff" where
  "diff_invert d = diff_dropCached (d\<lparr>d_before := d_after d, d_after := d_before d\<rparr>)"

definition diff_setUnchanged :: "'a diff \<Rightarrow> 'a diff" where
  "diff_setUnchanged d = d\<lparr>d_changed := Some False, d_before := d_after d\<rparr>"

definition diff_setComparator :: "('a \<Rightarrow> 'a \<Rightarrow> bool) option \<Rightarrow> 'a diff \<Rightarrow> 'a diff" where
  "diff_setComparator fn d = d\<lparr>d_compare := fn\<rparr>"

text \<open>The nested difference of values that can be compared themselves.\<close>

definition diff_computeDiff ::
  "('a \<Rightarrow> 'a option \<Rightarrow> 'd) \<Rightarrow> ('d \<Rightarrow> 'd) \<Rightarrow> 'a diff \<Rightarrow> 'd option" where
  "diff_computeDiff df ivt d =
     (case (d_before d, d_after d) of
        (Some b, Some a) \<Rightarrow> Some (df b (Some a))
      | (None, Some a) \<Rightarrow> Some (ivt (df a None))
      | (Some b, None) \<Rightarrow> Some (df b None)
      | (None, None) \<Rightarrow> None)"

section \<open>Filters\<close>

record filters =
  fi_namespace :: "string option"
  fi_verdicts :: "verdict list option"
  fi_httpStatus :: "string option"
  fi_filters :: "filter_entry list option"
  fi_skipHost :: "bool option"
  fi_skipKubeDns :: "bool option"
  fi_skipRemoteNode :: "bool option"
  fi_skipPrometheusApp :: "bool option"

definition filters_default :: filters where
  "filters_default =
     \<lparr>fi_namespace = None, fi_verdicts = Some [], fi_httpStatus = None, fi_filters = Some [],
      fi_skipHost = Some False, fi_skipKubeDns = Some False, fi_skipRemoteNode = Some False,
      fi_skipPrometheusApp = Some False\<rparr>"

text \<open>A flag tested for truth.\<close>

definition is_on :: "bool option \<Rightarrow> bool" where
  "is_on b \<longleftrightarrow> b = Some True"

definition filters_setNamespace :: "string option \<Rightarrow> filters \<Rightarrow> filters" where
  "filters_setNamespace ns fs = fs\<lparr>fi_namespace := ns\<rparr>"

definition filters_addFilterEntry :: "filter_entry \<Rightarrow> filters \<Rightarrow> filters" where
  "filters_addFilterEntry fe fs =
     fs\<lparr>fi_filters := Some ((case fi_filters fs of None \<Rightarrow> [] | Some l \<Rightarrow> l) @ [fe])\<rparr>"

definition or_empty :: "'a list option \<Rightarrow> 'a list" where
  "or_empty xs = (case xs of None \<Rightarrow> [] | Some l \<Rightarrow> l)"

definition fingerprints :: "filter_entry list \<Rightarrow> string list" where
  "fingerprints fes = set_of_list (map fe_toString fes)"

definition filters_equals :: "filters \<Rightarrow> filters \<Rightarrow> bool" where
  "filters_equals a b =
     (if fi_namespace a \<noteq> fi_namespace b \<or> fi_httpStatus a \<noteq> fi_httpStatus b
         \<or> fi_skipHost a \<noteq> fi_skipHost b \<or> fi_skipKubeDns a \<noteq> fi_skipKubeDns b
         \<or> fi_skipRemoteNode a \<noteq> fi_skipRemoteNode b
         \<or> fi_skipPrometheusApp a \<noteq> fi_skipPrometheusApp b
      then False
      else (let av = or_empty (fi_verdicts a); bv = or_empty (fi_verdicts b)
            in if length av \<noteq> length bv then False
               else if \<not> list_all (\<lambda>v. v \<in> set bv) av then False
               else (let af = fingerprints (or_empty (fi_filters a));
                         bf = fingerprints (or_empty (fi_filters b))
                     in if length af \<noteq> length bf then False
                        else list_all (\<lambda>f. f \<in> set bf) af)))"

definition filters_clone :: "bool \<Rightarrow> filters \<Rightarrow> filters" where
  "filters_clone deep fs =
     (if deep then fs\<lparr>fi_filters := Some (or_empty (fi_filters fs))\<rparr> else fs)"

section \<open>Differences of filters\<close>

record filters_diff =
  fd_namespace :: "string diff"
  fd_verdicts :: "verdict list diff"
  fd_httpStatus :: "string diff"
  fd_filters :: "filter_entry list diff"
  fd_skipHost :: "bool diff"
  fd_skipKubeDns :: "bool diff"
  fd_skipRemoteNode :: "bool diff"
  fd_skipPrometheusApp :: "bool diff"

text \<open>\<open>filterEntriesEqual\<close> and \<open>verdictsEqual\<close> take absent lists too.\<close>

definition filterEntriesEqual :: "filter_entry list option \<Rightarrow> filter_entry list option \<Rightarrow> bool" where
  "filterEntriesEqual lhs rhs =
     (if or_empty lhs = [] \<and> or_empty rhs = [] then True
      else if or_empty lhs = [] \<or> or_empty rhs = [] then False
      else (let l = fingerprints (or_empty lhs); r = fingerprints (or_empty rhs)
            in if length l \<noteq> length r then False else list_all (\<lambda>k. k \<in> set r) l))"

definition verdictsEqual :: "verdict list option \<Rightarrow> verdict list option \<Rightarrow> bool" where
  "verdictsEqual lhs rhs =
     (if or_empty lhs = [] \<and> or_empty rhs = [] then True
      else if or_empty lhs = [] \<or> or_empty rhs = [] then False
      else if length (or_empty lhs) \<noteq> length (or_empty rhs) then False
      else list_all (\<lambda>k. k \<in> set (or_empty rhs)) (or_empty lhs))"

definition filtersDiff_fromFilters :: "filters option \<Rightarrow> filters_diff" where
  "filtersDiff_fromFilters f =
     \<lparr>fd_namespace = diff_new (Option.bind f fi_namespace),
      fd_verdicts =
        diff_setComparator (Some (\<lambda>a b. verdictsEqual (Some a) (Some b)))
          (diff_new (Option.bind f fi_verdicts)),
      fd_httpStatus = diff_new (Option.bind f fi_httpStatus),
      fd_filters =
        diff_setComparator (Some (\<lambda>a b. filterEntriesEqual (Some a) (Some b)))
          (diff_new (Option.bind f fi_filters)),
      fd_skipHost = diff_new (Option.bind f fi_skipHost),
      fd_skipKubeDns = diff_new (Option.bind f fi_skipKubeDns),
      fd_skipRemoteNode = diff_new (Option.bind f fi_skipRemoteNode),
      fd_skipPrometheusApp = diff_new (Option.bind f fi_skipPrometheusApp)\<rparr>"

definition filtersDiff_step :: "filters option \<Rightarrow> filters_diff \<Rightarrow> filters_diff" where
  "filtersDiff_step rhs d =
     \<lparr>fd_namespace = diff_step (Option.bind rhs fi_namespace) (fd_namespace d),
      fd_verdicts = diff_step (Option.bind rhs fi_verdicts) (fd_verdicts d),
      fd_httpStatus = diff_step (Option.bind rhs fi_httpStatus) (fd_httpStatus d),
      fd_filters = diff_step (Option.bind rhs fi_filters) (fd_filters d),
      fd_skipHost = diff_step (Option.bind rhs fi_skipHost) (fd_skipHost d),
      fd_skipKubeDns = diff_step (Option.bind rhs fi_skipKubeDns) (fd_skipKubeDns d),
      fd_skipRemoteNode = diff_step (Option.bind rhs fi_skipRemoteNode) (fd_skipRemoteNode d),
      fd_skipPrometheusApp = diff_step (Option.bind rhs fi_skipPrometheusApp) (fd_skipPrometheusApp d)\<rparr>"

definition filtersDiff_new :: "filters option \<Rightarrow> filters option \<Rightarrow> filters_diff" where
  "filtersDiff_new lhs rhs = filtersDiff_step rhs (filtersDiff_fromFilters lhs)"

definition filtersDiff_newUnchanged :: filters_diff where
  "filtersDiff_newUnchanged = filtersDiff_new None None"

definition filtersDiff_invert :: "filters_diff \<Rightarrow> filters_diff" where
  "filtersDiff_invert d =
     \<lparr>fd_namespace = diff_invert (fd_namespace d), fd_verdicts = diff_invert (fd_verdicts d),
      fd_httpStatus = diff_invert (fd_httpStatus d), fd_filters = diff_invert (fd_filters d),
      fd_skipHost = diff_invert (fd_skipHost d), fd_skipKubeDns = diff_invert (fd_skipKubeDns d),
      fd_skipRemoteNode = diff_invert (fd_skipRemoteNode d),
      fd_skipPrometheusApp = diff_invert (fd_skipPrometheusApp d)\<rparr>"

definition filtersDiff_setUnchanged :: "filters_diff \<Rightarrow> filters_diff" where
  "filtersDiff_setUnchanged d =
     \<lparr>fd_namespace = diff_setUnchanged (fd_namespace d),
      fd_verdicts = diff_setUnchanged (fd_verdicts d),
      fd_httpStatus = diff_setUnchanged (fd_httpStatus d),
      fd_filters = diff_setUnchanged (fd_filters d),
      fd_skipHost = diff_setUnchanged (fd_skipHost d),
      fd_skipKubeDns = diff_setUnchanged (fd_skipKubeDns d),
      fd_skipRemoteNode = diff_setUnchanged (fd_skipRemoteNode d),
      fd_skipPrometheusApp = diff_setUnchanged (fd_skipPrometheusApp d)\<rparr>"

definition filtersDiff_changed :: "filters_diff \<Rightarrow> bool" where
  "filtersDiff_changed d \<longleftrightarrow>
     diff_changed (=) (fd_namespace d) \<or> diff_changed (=) (fd_verdicts d)
     \<or> diff_changed (=) (fd_httpStatus d) \<or> diff_changed (=) (fd_filters d)
     \<or> diff_changed (=) (fd_skipHost d) \<or> diff_changed (=) (fd_skipKubeDns d)
     \<or> diff_changed (=) (fd_skipRemoteNode d) \<or> diff_changed (=) (fd_skipPrometheusApp d)"

definition filtersDiff_podFiltersChanged :: "filters_diff \<Rightarrow> bool" where
  "filtersDiff_podFiltersChanged d =
     (let pods = map_option (filter (\<lambda>f. fe_kind f = Kind_Pod))
      in \<not> filterEntriesEqual (pods (d_before (fd_filters d))) (pods (d_after (fd_filters d))))"

definition filtersDiff_nothingChanged :: "filters_diff \<Rightarrow> bool" where
  "filtersDiff_nothingChanged d = (\<not> filtersDiff_changed d)"

definition filters_diff :: "filters \<Rightarrow> filters option \<Rightarrow> filters_diff" where
  "filters_diff fs rhs =
     (case rhs of
        None \<Rightarrow> filtersDiff_invert (filtersDiff_fromFilters (Some fs))
      | Some r \<Rightarrow> filtersDiff_new (Some fs) (Some r))"

section \<open>The interface of differences\<close>

text \<open>
  \<open>IDiff\<close>: what a difference promises its users, for the differences \<open>ok\<close>: inverting one twice gives
  back the values, and inverting does not alter whether something changed.
\<close>

locale idiff =
  fixes ok :: "'d \<Rightarrow> bool" and changed :: "'d \<Rightarrow> bool" and invert :: "'d \<Rightarrow> 'd"
  assumes ok_invert: "ok d \<Longrightarrow> ok (invert d)"
    and changed_invert: "ok d \<Longrightarrow> changed (invert d) = changed d"
    and invert_invert: "ok d \<Longrightarrow> invert (invert (invert d)) = invert d"
begin

lemma changed_inverts: "ok d \<Longrightarrow> changed ((invert ^^ n) d) = changed d \<and> ok ((invert ^^ n) d)"
  by (induction n) (simp_all add: changed_invert ok_invert)

lemma inverts_parity: "ok d \<Longrightarrow> (invert ^^ (2 * n + 1)) d = invert d"
proof (induction n)
  case (Suc n)
  have "(invert ^^ (2 * Suc n + 1)) d = invert (invert ((invert ^^ (2 * n + 1)) d))" by simp
  also have "\<dots> = invert d" using Suc by (simp add: invert_invert del: funpow.simps)
  finally show ?case .
qed simp

end

text \<open>The cache is right, and the comparator symmetric on the two values.\<close>

definition diff_ok :: "'a diff \<Rightarrow> bool" where
  "diff_ok d \<longleftrightarrow>
     (\<forall>b. d_changed d = Some b \<longrightarrow> b = diff_computeChanged (=) d)
     \<and> (\<forall>cf x y. d_compare d = Some cf \<longrightarrow> d_before d = Some x \<longrightarrow> d_after d = Some y \<longrightarrow>
          cf x y = cf y x)"

lemma diff_changed_ok: "diff_ok d \<Longrightarrow> diff_changed (=) d = diff_computeChanged (=) d"
  by (cases "d_changed d") (auto simp: diff_ok_def diff_changed_def)

lemma misc_equals_swap:
  "(\<And>cf x y. compareFn = Some cf \<Longrightarrow> lhs = Some x \<Longrightarrow> rhs = Some y \<Longrightarrow> cf x y = cf y x) \<Longrightarrow>
   misc_equals (=) rhs lhs compareFn = misc_equals (=) lhs rhs compareFn"
  unfolding misc_equals_def by (auto split: option.splits)

lemma computeChanged_swap:
  assumes "diff_ok d"
  shows "diff_computeChanged (=) (diff_invert d) = diff_computeChanged (=) d"
proof -
  have "misc_equals (=) (d_after d) (d_before d) (d_compare d) =
      misc_equals (=) (d_before d) (d_after d) (d_compare d)"
    using assms unfolding diff_ok_def by (intro misc_equals_swap) blast
  then show ?thesis by (simp add: diff_computeChanged_def diff_invert_def diff_dropCached_def)
qed

interpretation value_diff: idiff diff_ok "diff_changed (=)" diff_invert
proof
  fix d :: "'a diff" assume ok: "diff_ok d"
  have fields: "d_changed (diff_invert d) = None" "d_compare (diff_invert d) = d_compare d"
    "d_before (diff_invert d) = d_after d" "d_after (diff_invert d) = d_before d"
    by (simp_all add: diff_invert_def diff_dropCached_def)
  then show "diff_ok (diff_invert d)" using ok unfolding diff_ok_def by auto
  show "diff_changed (=) (diff_invert d) = diff_changed (=) d"
    using computeChanged_swap [OF ok] diff_changed_ok [OF ok] fields by (simp add: diff_changed_def)
  show "diff_invert (diff_invert (diff_invert d)) = diff_invert d"
    by (simp add: diff_invert_def diff_dropCached_def)
qed

text \<open>The difference of filters is one too, being a difference of each field.\<close>

definition filtersDiff_ok :: "filters_diff \<Rightarrow> bool" where
  "filtersDiff_ok d \<longleftrightarrow>
     diff_ok (fd_namespace d) \<and> diff_ok (fd_verdicts d) \<and> diff_ok (fd_httpStatus d)
     \<and> diff_ok (fd_filters d) \<and> diff_ok (fd_skipHost d) \<and> diff_ok (fd_skipKubeDns d)
     \<and> diff_ok (fd_skipRemoteNode d) \<and> diff_ok (fd_skipPrometheusApp d)"

interpretation filters_diff: idiff filtersDiff_ok filtersDiff_changed filtersDiff_invert
proof
  fix d assume ok: "filtersDiff_ok d"
  then show "filtersDiff_ok (filtersDiff_invert d)"
    by (simp add: filtersDiff_ok_def filtersDiff_invert_def value_diff.ok_invert)
  show "filtersDiff_changed (filtersDiff_invert d) = filtersDiff_changed d"
    using ok by (simp add: filtersDiff_ok_def filtersDiff_changed_def filtersDiff_invert_def
        value_diff.changed_invert)
  show "filtersDiff_invert (filtersDiff_invert (filtersDiff_invert d)) = filtersDiff_invert d"
    using ok by (simp add: filtersDiff_ok_def filtersDiff_invert_def value_diff.invert_invert)
qed

text \<open>
  \<open>Diffable\<close>: values with an equality and a difference.  For the values \<open>good\<close> the difference of two
  of them has changed exactly when they are not equal; then so has the nested difference that a
  \<open>Diff\<close> of such values computes, whether a value is absent or not.
\<close>

locale diffable = idiff ok changed invert
  for ok :: "'d \<Rightarrow> bool" and changed :: "'d \<Rightarrow> bool" and invert :: "'d \<Rightarrow> 'd" +
  fixes good :: "'a \<Rightarrow> bool" and similar :: "'a \<Rightarrow> 'a \<Rightarrow> bool" and eqv :: "'a \<Rightarrow> 'a \<Rightarrow> bool"
    and df :: "'a \<Rightarrow> 'a option \<Rightarrow> 'd"
  assumes ok_diff: "good a \<Longrightarrow> pred_option good r \<Longrightarrow> ok (df a r)"
    and changed_diff: "good a \<Longrightarrow> good b \<Longrightarrow> similar a b \<Longrightarrow> changed (df a (Some b)) \<longleftrightarrow> \<not> eqv a b"
begin

lemma computeDiff_both:
  assumes "d_before d = Some a" "d_after d = Some b" "good a" "good b" "similar a b"
  shows "\<exists>c. diff_computeDiff df invert d = Some c \<and> ok c \<and> (changed c \<longleftrightarrow> \<not> eqv a b)"
  using assms by (simp add: diff_computeDiff_def ok_diff changed_diff)

lemma computeDiff_none: "diff_computeDiff df invert d = None \<longleftrightarrow> d_before d = None \<and> d_after d = None"
  by (auto simp: diff_computeDiff_def split: option.splits)

lemma computeDiff_appeared:
  assumes "d_before d = None" "d_after d = Some a" "good a"
  shows "\<exists>c. diff_computeDiff df invert d = Some c \<and> ok c \<and> (changed c \<longleftrightarrow> changed (df a None))"
  using assms by (simp add: diff_computeDiff_def changed_invert ok_diff ok_invert)

end

section \<open>Lemmas on filters\<close>

lemma length_set_eq:
  assumes "distinct xs" "distinct ys"
  shows "length xs = length ys \<and> set xs \<subseteq> set ys \<longleftrightarrow> set xs = set ys"
proof
  assume a: "length xs = length ys \<and> set xs \<subseteq> set ys"
  then have "card (set xs) = card (set ys)" using assms by (simp add: distinct_card)
  with a show "set xs = set ys" by (simp add: card_subset_eq)
next
  assume "set xs = set ys"
  then show "length xs = length ys \<and> set xs \<subseteq> set ys"
    using assms by (metis distinct_card order_refl)
qed

lemma distinct_fingerprints [simp]: "distinct (fingerprints fes)"
  and set_fingerprints [simp]: "set (fingerprints fes) = fe_toString ` set fes"
  by (simp_all add: fingerprints_def)

lemma fingerprints_equal:
  "length (fingerprints a) = length (fingerprints b) \<and> list_all (\<lambda>f. f \<in> set (fingerprints b)) (fingerprints a)
   \<longleftrightarrow> fe_toString ` set a = fe_toString ` set b"
  using length_set_eq [of "fingerprints a" "fingerprints b"]
  by (simp add: list_all_iff subset_iff) blast

lemma filterEntriesEqual_iff:
  "filterEntriesEqual a b \<longleftrightarrow> fe_toString ` set (or_empty a) = fe_toString ` set (or_empty b)"
  using fingerprints_equal [of "or_empty a" "or_empty b"]
  by (cases "or_empty a = []"; cases "or_empty b = []") (auto simp: filterEntriesEqual_def Let_def)

lemma verdictsEqual_iff:
  assumes "distinct (or_empty a)" "distinct (or_empty b)"
  shows "verdictsEqual a b \<longleftrightarrow> set (or_empty a) = set (or_empty b)"
  using length_set_eq [OF assms]
  by (cases "or_empty a = []"; cases "or_empty b = []")
    (auto simp: verdictsEqual_def list_all_iff subset_iff)

text \<open>A \<open>Set\<close> of verdicts in the filters holds no verdict twice.\<close>

definition wf_filters :: "filters \<Rightarrow> bool" where
  "wf_filters fs \<longleftrightarrow> distinct (or_empty (fi_verdicts fs))"

lemma filters_equals_iff:
  assumes "wf_filters a" "wf_filters b"
  shows "filters_equals a b \<longleftrightarrow>
     fi_namespace a = fi_namespace b \<and> fi_httpStatus a = fi_httpStatus b
     \<and> fi_skipHost a = fi_skipHost b \<and> fi_skipKubeDns a = fi_skipKubeDns b
     \<and> fi_skipRemoteNode a = fi_skipRemoteNode b
     \<and> fi_skipPrometheusApp a = fi_skipPrometheusApp b
     \<and> set (or_empty (fi_verdicts a)) = set (or_empty (fi_verdicts b))
     \<and> fe_toString ` set (or_empty (fi_filters a)) = fe_toString ` set (or_empty (fi_filters b))"
proof -
  let ?av = "or_empty (fi_verdicts a)" and ?bv = "or_empty (fi_verdicts b)"
  let ?af = "fingerprints (or_empty (fi_filters a))" and ?bf = "fingerprints (or_empty (fi_filters b))"
  have v: "(length ?av = length ?bv \<and> list_all (\<lambda>v. v \<in> set ?bv) ?av) = (set ?av = set ?bv)"
    using length_set_eq [of ?av ?bv] assms unfolding wf_filters_def list_all_iff subset_eq by blast
  have f: "(length ?af = length ?bf \<and> list_all (\<lambda>f. f \<in> set ?bf) ?af) =
      (fe_toString ` set (or_empty (fi_filters a)) = fe_toString ` set (or_empty (fi_filters b)))"
    by (rule fingerprints_equal)
  show ?thesis
    unfolding filters_equals_def Let_def v [symmetric] f [symmetric] by argo
qed

lemma filters_equals_equivalence:
  "wf_filters a \<Longrightarrow> filters_equals a a"
  "wf_filters a \<Longrightarrow> wf_filters b \<Longrightarrow> filters_equals a b \<Longrightarrow> filters_equals b a"
  "wf_filters a \<Longrightarrow> wf_filters b \<Longrightarrow> wf_filters c \<Longrightarrow> filters_equals a b \<Longrightarrow> filters_equals b c \<Longrightarrow>
     filters_equals a c"
  by (auto simp: filters_equals_iff)

lemma filters_clone_equals: "wf_filters fs \<Longrightarrow> filters_equals (filters_clone deep fs) fs"
  by (simp add: filters_equals_iff filters_clone_def wf_filters_def or_empty_def)

text \<open>The field differences after one step from the filters before it.\<close>

lemma diff_changed_step_new [simp]:
  "diff_changed (=) (diff_step b (diff_new a)) \<longleftrightarrow> a \<noteq> b"
  by (cases a; cases b)
    (auto simp: diff_changed_def diff_step_def diff_new_def diff_dropCached_def diff_computeChanged_def
      misc_equals_def)

lemma diff_changed_step_compare [simp]:
  "diff_changed (=) (diff_step b (diff_setComparator (Some cf) (diff_new a))) \<longleftrightarrow>
     (case (a, b) of (Some x, Some y) \<Rightarrow> \<not> cf x y | (None, None) \<Rightarrow> False | _ \<Rightarrow> True)"
  by (cases a; cases b)
    (auto simp: diff_changed_def diff_step_def diff_new_def diff_setComparator_def diff_dropCached_def
      diff_computeChanged_def misc_equals_def)

lemma filtersDiff_new_changed:
  "filtersDiff_changed (filtersDiff_new (Some a) (Some b)) \<longleftrightarrow>
     fi_namespace a \<noteq> fi_namespace b \<or> fi_httpStatus a \<noteq> fi_httpStatus b
     \<or> fi_skipHost a \<noteq> fi_skipHost b \<or> fi_skipKubeDns a \<noteq> fi_skipKubeDns b
     \<or> fi_skipRemoteNode a \<noteq> fi_skipRemoteNode b
     \<or> fi_skipPrometheusApp a \<noteq> fi_skipPrometheusApp b
     \<or> (case (fi_verdicts a, fi_verdicts b) of
          (Some x, Some y) \<Rightarrow> \<not> verdictsEqual (Some x) (Some y) | (None, None) \<Rightarrow> False | _ \<Rightarrow> True)
     \<or> (case (fi_filters a, fi_filters b) of
          (Some x, Some y) \<Rightarrow> \<not> filterEntriesEqual (Some x) (Some y) | (None, None) \<Rightarrow> False | _ \<Rightarrow> True)"
  by (auto simp: filtersDiff_changed_def filtersDiff_new_def filtersDiff_step_def
      filtersDiff_fromFilters_def)

text \<open>Filters that agree on which of the two collections are present.\<close>

definition same_shape :: "filters \<Rightarrow> filters \<Rightarrow> bool" where
  "same_shape a b \<longleftrightarrow>
     (fi_verdicts a = None \<longleftrightarrow> fi_verdicts b = None) \<and> (fi_filters a = None \<longleftrightarrow> fi_filters b = None)"

lemma filtersDiff_changed_iff:
  assumes "wf_filters a" "wf_filters b" "same_shape a b"
  shows "filtersDiff_changed (filtersDiff_new (Some a) (Some b)) \<longleftrightarrow> \<not> filters_equals a b"
proof -
  have v: "(case (fi_verdicts a, fi_verdicts b) of
      (Some x, Some y) \<Rightarrow> \<not> verdictsEqual (Some x) (Some y) | (None, None) \<Rightarrow> False | _ \<Rightarrow> True) =
      (set (or_empty (fi_verdicts a)) \<noteq> set (or_empty (fi_verdicts b)))"
    using assms
    by (cases "fi_verdicts a"; cases "fi_verdicts b")
      (simp_all add: verdictsEqual_iff wf_filters_def same_shape_def or_empty_def)
  have f: "(case (fi_filters a, fi_filters b) of
      (Some x, Some y) \<Rightarrow> \<not> filterEntriesEqual (Some x) (Some y) | (None, None) \<Rightarrow> False | _ \<Rightarrow> True) =
      (fe_toString ` set (or_empty (fi_filters a)) \<noteq> fe_toString ` set (or_empty (fi_filters b)))"
    using assms(3)
    by (cases "fi_filters a"; cases "fi_filters b")
      (simp_all add: filterEntriesEqual_iff same_shape_def or_empty_def)
  show ?thesis
    unfolding filtersDiff_new_changed v f filters_equals_iff [OF assms(1,2)] by blast
qed

lemma diff_ok_plain [simp]: "d_compare d = None \<Longrightarrow> d_changed d = None \<Longrightarrow> diff_ok d"
  by (simp add: diff_ok_def)

lemma diff_fields [simp]:
  "d_changed (diff_new a) = None" "d_compare (diff_new a) = None" "d_before (diff_new a) = None"
  "d_after (diff_new a) = a" "d_changed (diff_step a d) = None" "d_compare (diff_step a d) = d_compare d"
  "d_before (diff_step a d) = d_after d" "d_after (diff_step a d) = a"
  "d_changed (diff_invert d) = None" "d_compare (diff_invert d) = d_compare d"
  "d_before (diff_invert d) = d_after d" "d_after (diff_invert d) = d_before d"
  "d_compare (diff_setComparator cf d) = cf" "d_changed (diff_setComparator cf d) = d_changed d"
  "d_before (diff_setComparator cf d) = d_before d" "d_after (diff_setComparator cf d) = d_after d"
  by (simp_all add: diff_new_def diff_step_def diff_dropCached_def diff_invert_def diff_setComparator_def)

lemma verdictsEqual_sym_wf:
  assumes "distinct (or_empty x)" "distinct (or_empty y)"
  shows "verdictsEqual x y = verdictsEqual y x"
  using assms by (auto simp: verdictsEqual_iff)

lemma filtersDiff_ok_diff:
  assumes "wf_filters a" "pred_option wf_filters b"
  shows "filtersDiff_ok (filters_diff a b)"
proof -
  have v: "verdictsEqual (Some x) (Some y) = verdictsEqual (Some y) (Some x)"
    if "fi_verdicts a = Some x" "Option.bind b fi_verdicts = Some y" for x y
    using assms that by (cases b; intro verdictsEqual_sym_wf) (auto simp: wf_filters_def or_empty_def)
  have f: "filterEntriesEqual x y = filterEntriesEqual y x" for x y
    by (auto simp: filterEntriesEqual_iff)
  show ?thesis
  proof (cases b)
    case None
    then show ?thesis
      by (simp add: filters_diff_def filtersDiff_ok_def filtersDiff_invert_def
          filtersDiff_fromFilters_def diff_ok_def)
  next
    case (Some r)
    with v f show ?thesis
      by (simp add: filters_diff_def filtersDiff_ok_def filtersDiff_new_def filtersDiff_step_def
          filtersDiff_fromFilters_def) (auto simp: diff_ok_def)
  qed
qed

interpretation filters_diffable: diffable filtersDiff_ok filtersDiff_changed filtersDiff_invert
  wf_filters same_shape filters_equals filters_diff
proof
  show "filtersDiff_ok (filters_diff a b)" if "wf_filters a" "pred_option wf_filters b" for a b
    using that by (rule filtersDiff_ok_diff)
  show "filtersDiff_changed (filters_diff a (Some b)) \<longleftrightarrow> \<not> filters_equals a b"
    if "wf_filters a" "wf_filters b" "same_shape a b" for a b
    using filtersDiff_changed_iff [OF that] by (simp add: filters_diff_def)
qed

section \<open>Properties\<close>

text \<open>\<open>Filters.equals\<close> is an equivalence on filters whose verdicts form a set: it holds exactly when
  the scalar fields agree, the verdicts are the same set, and the filter entries print to the same
  set of strings.\<close>

theorem filters_equals_spec:
  assumes "wf_filters a" "wf_filters b"
  shows "filters_equals a b \<longleftrightarrow>
     fi_namespace a = fi_namespace b \<and> fi_httpStatus a = fi_httpStatus b
     \<and> fi_skipHost a = fi_skipHost b \<and> fi_skipKubeDns a = fi_skipKubeDns b
     \<and> fi_skipRemoteNode a = fi_skipRemoteNode b
     \<and> fi_skipPrometheusApp a = fi_skipPrometheusApp b
     \<and> set (or_empty (fi_verdicts a)) = set (or_empty (fi_verdicts b))
     \<and> fe_toString ` set (or_empty (fi_filters a)) = fe_toString ` set (or_empty (fi_filters b))"
  using assms by (rule filters_equals_iff)

theorem filters_equals_spec_witness:
  "filters_equals filters_default (filters_default\<lparr>fi_verdicts := None, fi_filters := None\<rparr>)"
  by (subst filters_equals_spec) (simp_all add: wf_filters_def filters_default_def or_empty_def)

text \<open>the difference of two filters reports a change exactly when \<open>Filters.equals\<close> says they differ,
  and inverting it does not alter the answer, for filters that agree on which of the two collections
  are present.\<close>

theorem filters_diff_agrees_with_equals:
  assumes "wf_filters a" "wf_filters b" "same_shape a b"
  shows "(filtersDiff_changed (filters_diff a (Some b)) \<longleftrightarrow> \<not> filters_equals a b)
    \<and> (filtersDiff_changed (filtersDiff_invert (filters_diff a (Some b))) \<longleftrightarrow> \<not> filters_equals a b)"
proof -
  have *: "filtersDiff_changed (filters_diff a (Some b)) \<longleftrightarrow> \<not> filters_equals a b"
    using assms by (rule filters_diffable.changed_diff)
  have "filtersDiff_ok (filters_diff a (Some b))" using assms by (intro filtersDiff_ok_diff) simp_all
  then have "filtersDiff_changed (filtersDiff_invert (filters_diff a (Some b))) \<longleftrightarrow> \<not> filters_equals a b"
    using * by (simp add: filters_diff.changed_invert)
  with * show ?thesis ..
qed

theorem filters_diff_agrees_with_equals_witness:
  "filtersDiff_changed (filters_diff filters_default (Some (filters_default\<lparr>fi_skipHost := Some True\<rparr>)))"
  by (subst filters_diff_agrees_with_equals [THEN conjunct1])
    (simp_all add: wf_filters_def same_shape_def filters_default_def or_empty_def filters_equals_def)

end
