(* ===== verification/Proto_Factory.thy ===== *)
theory Proto_Factory
  imports Diffs
begin

text \<open>
  \<open>src/factories/proto/index.ts\<close>: the request for events that is built from the filters, and what the
  server makes of it.  A \<open>FlowFilter\<close> message has the fields the factory fills; the others stay
  empty.  The functions whose argument \<open>filters\<close> may be absent are always called with filters.

  The server's half is \<open>pkg/hubble/filters\<close> of the vendored Cilium sources: every non-empty field of a
  filter must match, a field matches when one of its elements does, an event passes when one filter of
  the whitelist matches (or there is none) and no filter of the blacklist does.  Whether a single element
  matches an event (regular expressions, address ranges, label selectors) is a parameter.
\<close>

section \<open>Messages\<close>

record flow_filter =
  ff_sourceIp :: "string list"
  ff_sourcePod :: "string list"
  ff_sourceFqdn :: "string list"
  ff_sourceLabel :: "string list"
  ff_sourceWorkload :: "workload list"
  ff_sourceIdentity :: "js_num list"
  ff_destinationIp :: "string list"
  ff_destinationPod :: "string list"
  ff_destinationFqdn :: "string list"
  ff_destinationLabel :: "string list"
  ff_destinationWorkload :: "workload list"
  ff_destinationIdentity :: "js_num list"
  ff_destinationPort :: "string list"
  ff_verdict :: "int list"
  ff_eventType :: "int list"
  ff_httpStatusCode :: "string list"
  ff_reply :: "bool list"

definition flow_filter_create :: flow_filter where
  "flow_filter_create =
     \<lparr>ff_sourceIp = [], ff_sourcePod = [], ff_sourceFqdn = [], ff_sourceLabel = [], ff_sourceWorkload = [],
      ff_sourceIdentity = [], ff_destinationIp = [], ff_destinationPod = [], ff_destinationFqdn = [],
      ff_destinationLabel = [], ff_destinationWorkload = [], ff_destinationIdentity = [],
      ff_destinationPort = [], ff_verdict = [], ff_eventType = [], ff_httpStatusCode = [], ff_reply = []\<rparr>"

datatype event_type = EventType_FLOW | EventType_FLOWS | EventType_K8S_NAMESPACE_STATE
  | EventType_SERVICE_STATE | EventType_SERVICE_LINK_STATE | EventType_STATUS

record event_params =
  evp_flow :: bool
  evp_flows :: bool
  evp_namespaces :: bool
  evp_services :: bool
  evp_serviceLinks :: bool
  evp_status :: bool

definition eventStream_params :: event_params where
  "eventStream_params =
     \<lparr>evp_flow = False, evp_flows = True, evp_namespaces = False, evp_services = True,
      evp_serviceLinks = True, evp_status = False\<rparr>"

datatype event_filter = Event_Filter flow_filter

record get_events_request =
  rq_eventTypes :: "event_type list"
  rq_whitelist :: "event_filter list"
  rq_blacklist :: "event_filter list"

section \<open>The blacklist\<close>

definition given :: "string option \<Rightarrow> string list" where
  "given s = (case s of Some t \<Rightarrow> if t = [] then [] else [t] | None \<Rightarrow> [])"

text \<open>The queries that the loop over the negative entries collects for a kind of entry.\<close>

definition negative_queries :: "filter_kind \<Rightarrow> (filter_entry \<Rightarrow> bool) \<Rightarrow> filters \<Rightarrow> string list" where
  "negative_queries kind required fs =
     map fe_query (filter (\<lambda>e. fe_kind e = kind \<and> required e) (filter fe_negative (or_empty (fi_filters fs))))"

definition skipped :: "bool option \<Rightarrow> string \<Rightarrow> string list" where
  "skipped flag label = (if is_on flag then [label] else [])"

definition skipped_sources :: "filters \<Rightarrow> string list" where
  "skipped_sources fs =
     [reserved_str ReservedLabel_Unknown]
     @ skipped (fi_skipHost fs) (reserved_str ReservedLabel_Host)
     @ skipped (fi_skipKubeDns fs) (special_str SpecialLabel_KubeDNS)
     @ skipped (fi_skipRemoteNode fs) (reserved_str ReservedLabel_RemoteNode)
     @ skipped (fi_skipPrometheusApp fs) (special_str SpecialLabel_PrometheusApp)"

definition skipped_destinations :: "filters \<Rightarrow> string list" where
  "skipped_destinations fs =
     [reserved_str ReservedLabel_Unknown]
     @ skipped (fi_skipHost fs) (reserved_str ReservedLabel_Host)
     @ skipped (fi_skipRemoteNode fs) (reserved_str ReservedLabel_RemoteNode)
     @ skipped (fi_skipPrometheusApp fs) (special_str SpecialLabel_PrometheusApp)"

definition unless_empty :: "'a list \<Rightarrow> flow_filter \<Rightarrow> flow_filter list" where
  "unless_empty xs ff = (if xs = [] then [] else [ff])"

definition blacklistFlowFilters :: "filters \<Rightarrow> flow_filter list" where
  "blacklistFlowFilters fs =
     (let pods = (\<lambda>queries. map (\<lambda>e. print_undefined (fi_namespace fs) @ ''/'' @ e) queries);
          srcIps = negative_queries Kind_Ip fe_fromRequired fs;
          dstIps = negative_queries Kind_Ip fe_toRequired fs;
          srcIdentities = map to_number (negative_queries Kind_Identity fe_fromRequired fs);
          dstIdentities = map to_number (negative_queries Kind_Identity fe_toRequired fs);
          srcPods = negative_queries Kind_Pod fe_fromRequired fs;
          dstPods = negative_queries Kind_Pod fe_toRequired fs
      in [flow_filter_create\<lparr>ff_sourceLabel :=
            skipped_sources fs @ negative_queries Kind_Label fe_fromRequired fs\<rparr>,
          flow_filter_create\<lparr>ff_destinationLabel :=
            skipped_destinations fs @ negative_queries Kind_Label fe_toRequired fs\<rparr>]
         @ (if is_on (fi_skipKubeDns fs)
            then [flow_filter_create\<lparr>ff_destinationLabel := [special_str SpecialLabel_KubeDNS],
                                    ff_destinationPort := [''53'']\<rparr>]
            else [])
         @ [flow_filter_create\<lparr>ff_sourceFqdn := ''*.cluster.local*'' # negative_queries Kind_Dns fe_fromRequired fs\<rparr>,
            flow_filter_create\<lparr>ff_destinationFqdn := ''*.cluster.local*'' # negative_queries Kind_Dns fe_toRequired fs\<rparr>]
         @ unless_empty srcIps (flow_filter_create\<lparr>ff_sourceIp := srcIps\<rparr>)
         @ unless_empty dstIps (flow_filter_create\<lparr>ff_destinationIp := srcIps\<rparr>)
         @ unless_empty srcIdentities (flow_filter_create\<lparr>ff_sourceIdentity := srcIdentities\<rparr>)
         @ unless_empty dstIdentities (flow_filter_create\<lparr>ff_destinationIdentity := dstIdentities\<rparr>)
         @ unless_empty srcPods (flow_filter_create\<lparr>ff_sourcePod := pods srcPods\<rparr>)
         @ unless_empty dstPods (flow_filter_create\<lparr>ff_destinationPod := pods dstPods\<rparr>))"

section \<open>The whitelist\<close>

definition ciliumEventType_L7 :: int where
  "ciliumEventType_L7 = 129"

definition baseWhitelistFilter :: "filters \<Rightarrow> flow_filter" where
  "baseWhitelistFilter fs =
     flow_filter_create\<lparr>
       ff_eventType := map (\<lambda>_. ciliumEventType_L7) (given (fi_httpStatus fs)),
       ff_httpStatusCode := given (fi_httpStatus fs),
       ff_verdict := map verdictToPb (or_empty (fi_verdicts fs)),
       ff_reply := [False]\<rparr>"

definition workloadFromFilterEntry :: "filter_entry \<Rightarrow> workload option" where
  "workloadFromFilterEntry fe =
     (if \<not> fe_isWorkload fe \<or> fe_query fe = [] \<or> \<not> truthy (fe_meta fe) then None else fe_asWorkload fe)"

definition podsInNamespace :: "filters \<Rightarrow> string option" where
  "podsInNamespace fs = (if truthy (fi_namespace fs) then map_option (\<lambda>ns. ns @ ''/'') (fi_namespace fs) else None)"

definition entry_pod :: "filters \<Rightarrow> filter_entry \<Rightarrow> string option" where
  "entry_pod fs fe =
     (case fe_podNamespace fe of
        Some ns \<Rightarrow> Some (ns @ ''/'' @ fe_query fe)
      | None \<Rightarrow> map_option (\<lambda>ns. ns @ fe_query fe) (podsInNamespace fs))"

text \<open>The filters for the flows from an entry; \<open>pushed\<close> is what \<open>x && list.push(x)\<close> adds.\<close>

definition pushed :: "'a option \<Rightarrow> 'a list" where
  "pushed x = (case x of None \<Rightarrow> [] | Some y \<Rightarrow> [y])"

definition source_filters :: "filters \<Rightarrow> filter_entry \<Rightarrow> flow_filter list" where
  "source_filters fs fe =
     (let query = fe_query fe; inNs = podsInNamespace fs; pod = entry_pod fs fe;
          toInside = (baseWhitelistFilter fs)\<lparr>ff_destinationPod := pushed inNs\<rparr>;
          fromInside = (baseWhitelistFilter fs)\<lparr>ff_sourcePod := pushed inNs\<rparr>
      in case fe_kind fe of
           Kind_Label \<Rightarrow> [toInside\<lparr>ff_sourceLabel := [query]\<rparr>, fromInside\<lparr>ff_sourceLabel := [query]\<rparr>]
         | Kind_Ip \<Rightarrow> [toInside\<lparr>ff_sourceIp := [query]\<rparr>, fromInside\<lparr>ff_sourceIp := [query]\<rparr>]
         | Kind_Dns \<Rightarrow> [toInside\<lparr>ff_sourceFqdn := [query]\<rparr>, fromInside\<lparr>ff_sourceFqdn := [query]\<rparr>]
         | Kind_Identity \<Rightarrow>
             [toInside\<lparr>ff_sourceIdentity := [to_number query]\<rparr>, fromInside\<lparr>ff_sourceIdentity := [to_number query]\<rparr>]
         | Kind_Pod \<Rightarrow>
             [toInside\<lparr>ff_sourcePod := pushed pod\<rparr>,
              fromInside\<lparr>ff_sourcePod := pushed pod,
                ff_destinationPod := (case (pod, inNs) of
                  (Some p, Some ns) \<Rightarrow> if starts_with p ns then [] else [ns] | _ \<Rightarrow> [])\<rparr>]
         | Kind_Workload \<Rightarrow>
             (case workloadFromFilterEntry fe of
                None \<Rightarrow> [toInside, fromInside]
              | Some w \<Rightarrow> [toInside\<lparr>ff_sourceWorkload := [w]\<rparr>, fromInside\<lparr>ff_sourceWorkload := [w]\<rparr>])
         | Kind_TCPFlag \<Rightarrow> [toInside, fromInside])"

definition destination_filters :: "filters \<Rightarrow> filter_entry \<Rightarrow> flow_filter list" where
  "destination_filters fs fe =
     (let query = fe_query fe; inNs = podsInNamespace fs; pod = entry_pod fs fe;
          fromInside = (baseWhitelistFilter fs)\<lparr>ff_sourcePod := pushed inNs\<rparr>;
          toInside = (baseWhitelistFilter fs)\<lparr>ff_destinationPod := pushed inNs\<rparr>
      in case fe_kind fe of
           Kind_Label \<Rightarrow> [fromInside\<lparr>ff_destinationLabel := [query]\<rparr>, toInside\<lparr>ff_destinationLabel := [query]\<rparr>]
         | Kind_Ip \<Rightarrow> [fromInside\<lparr>ff_destinationIp := [query]\<rparr>, toInside\<lparr>ff_destinationIp := [query]\<rparr>]
         | Kind_Dns \<Rightarrow> [fromInside\<lparr>ff_destinationFqdn := [query]\<rparr>, toInside\<lparr>ff_destinationFqdn := [query]\<rparr>]
         | Kind_Identity \<Rightarrow>
             [fromInside\<lparr>ff_destinationIdentity := [to_number query]\<rparr>,
              toInside\<lparr>ff_destinationIdentity := [to_number query]\<rparr>]
         | Kind_Pod \<Rightarrow>
             [fromInside\<lparr>ff_destinationPod := pushed pod\<rparr>,
              toInside\<lparr>ff_destinationPod := pushed pod,
                ff_sourcePod := (case (pod, inNs) of
                  (Some p, Some ns) \<Rightarrow> if starts_with p ns then [] else [ns] | _ \<Rightarrow> [])\<rparr>]
         | Kind_Workload \<Rightarrow>
             (case workloadFromFilterEntry fe of
                None \<Rightarrow> [fromInside, toInside]
              | Some w \<Rightarrow> [fromInside\<lparr>ff_destinationWorkload := [w]\<rparr>, toInside\<lparr>ff_destinationWorkload := [w]\<rparr>])
         | Kind_TCPFlag \<Rightarrow> [fromInside, toInside])"

definition filterEntryWhitelistFilters :: "filters \<Rightarrow> filter_entry \<Rightarrow> flow_filter list" where
  "filterEntryWhitelistFilters fs fe =
     (if fe_fromRequired fe then source_filters fs fe else [])
     @ (if fe_toRequired fe then destination_filters fs fe else [])"

definition flowFiltersFromFilters :: "filters \<Rightarrow> flow_filter list \<times> flow_filter list" where
  "flowFiltersFromFilters fs =
     (let blFilters = blacklistFlowFilters fs;
          positiveEntries = filter (\<lambda>e. \<not> fe_negative e) (or_empty (fi_filters fs))
      in if positiveEntries = []
         then (case podsInNamespace fs of
                 Some ns \<Rightarrow> ([(baseWhitelistFilter fs)\<lparr>ff_sourcePod := [ns]\<rparr>,
                             (baseWhitelistFilter fs)\<lparr>ff_destinationPod := [ns]\<rparr>], blFilters)
               | None \<Rightarrow> ([baseWhitelistFilter fs], blFilters))
         else (concat (map (filterEntryWhitelistFilters fs) positiveEntries), blFilters))"

definition eventFilterFromFlowFilter :: "flow_filter \<Rightarrow> event_filter" where
  "eventFilterFromFlowFilter ff = Event_Filter ff"

definition eventsFiltersFromFilters :: "filters \<Rightarrow> event_filter list \<times> event_filter list" where
  "eventsFiltersFromFilters fs =
     (case flowFiltersFromFilters fs of
        (wl, bl) \<Rightarrow> (map eventFilterFromFlowFilter wl, map eventFilterFromFlowFilter bl))"

definition eventFiltersFromFlowFilter :: "flow_filter \<Rightarrow> event_filter" where
  "eventFiltersFromFlowFilter ff = Event_Filter ff"

definition getEventsRequestFromFilters :: "filters \<Rightarrow> event_params \<Rightarrow> get_events_request" where
  "getEventsRequestFromFilters fs p =
     (case flowFiltersFromFilters fs of
        (wl, bl) \<Rightarrow>
          \<lparr>rq_eventTypes =
             (if evp_flows p then [EventType_FLOWS] else [])
             @ (if evp_flow p then [EventType_FLOW] else [])
             @ (if evp_namespaces p then [EventType_K8S_NAMESPACE_STATE] else [])
             @ (if evp_services p then [EventType_SERVICE_STATE] else [])
             @ (if evp_serviceLinks p then [EventType_SERVICE_LINK_STATE] else [])
             @ (if evp_status p then [EventType_STATUS] else []),
           rq_whitelist = map eventFilterFromFlowFilter wl,
           rq_blacklist = map eventFilterFromFlowFilter bl\<rparr>)"

section \<open>The server\<close>

record 'f matcher =
  mt_sourceIp :: "string \<Rightarrow> 'f \<Rightarrow> bool"
  mt_sourcePod :: "'f \<Rightarrow> string \<times> string"
  mt_sourceFqdn :: "string \<Rightarrow> 'f \<Rightarrow> bool"
  mt_sourceLabel :: "string \<Rightarrow> 'f \<Rightarrow> bool"
  mt_sourceWorkload :: "workload \<Rightarrow> 'f \<Rightarrow> bool"
  mt_sourceIdentity :: "js_num \<Rightarrow> 'f \<Rightarrow> bool"
  mt_destinationIp :: "string \<Rightarrow> 'f \<Rightarrow> bool"
  mt_destinationPod :: "'f \<Rightarrow> string \<times> string"
  mt_destinationFqdn :: "string \<Rightarrow> 'f \<Rightarrow> bool"
  mt_destinationLabel :: "string \<Rightarrow> 'f \<Rightarrow> bool"
  mt_destinationWorkload :: "workload \<Rightarrow> 'f \<Rightarrow> bool"
  mt_destinationIdentity :: "js_num \<Rightarrow> 'f \<Rightarrow> bool"
  mt_destinationPort :: "string \<Rightarrow> 'f \<Rightarrow> bool"
  mt_verdict :: "int \<Rightarrow> 'f \<Rightarrow> bool"
  mt_eventType :: "int \<Rightarrow> 'f \<Rightarrow> bool"
  mt_httpStatusCode :: "string \<Rightarrow> 'f \<Rightarrow> bool"
  mt_reply :: "bool \<Rightarrow> 'f \<Rightarrow> bool"

text \<open>A pattern of pods names a namespace and a prefix of the name.\<close>

definition parseNamespaceName :: "string \<Rightarrow> string \<times> string" where
  "parseNamespaceName s =
     (case split_on (CHR ''/'') s of
        ns # name # _ \<Rightarrow> (ns, name)
      | _ \<Rightarrow> if s = [] then ([], []) else (''default'', s))"

definition named_matches :: "string \<Rightarrow> string \<times> string \<Rightarrow> bool" where
  "named_matches pattern ep =
     (case parseNamespaceName pattern of
        (ns, pre) \<Rightarrow>
          ep \<noteq> ([], []) \<and> (pre = [] \<or> starts_with (snd ep) pre) \<and> (ns = [] \<or> ns = fst ep))"

definition some_match :: "('x \<Rightarrow> bool) \<Rightarrow> 'x list \<Rightarrow> bool" where
  "some_match p xs \<longleftrightarrow> xs = [] \<or> (\<exists>x \<in> set xs. p x)"

definition filter_matches :: "'f matcher \<Rightarrow> flow_filter \<Rightarrow> 'f \<Rightarrow> bool" where
  "filter_matches m ff f \<longleftrightarrow>
     some_match (\<lambda>x. mt_eventType m x f) (ff_eventType ff)
     \<and> some_match (\<lambda>x. mt_verdict m x f) (ff_verdict ff)
     \<and> some_match (\<lambda>x. mt_reply m x f) (ff_reply ff)
     \<and> some_match (\<lambda>x. mt_sourceIdentity m x f) (ff_sourceIdentity ff)
     \<and> some_match (\<lambda>x. mt_destinationIdentity m x f) (ff_destinationIdentity ff)
     \<and> some_match (\<lambda>x. mt_sourceIp m x f) (ff_sourceIp ff)
     \<and> some_match (\<lambda>x. mt_destinationIp m x f) (ff_destinationIp ff)
     \<and> some_match (\<lambda>x. named_matches x (mt_sourcePod m f)) (ff_sourcePod ff)
     \<and> some_match (\<lambda>x. named_matches x (mt_destinationPod m f)) (ff_destinationPod ff)
     \<and> some_match (\<lambda>x. mt_sourceWorkload m x f) (ff_sourceWorkload ff)
     \<and> some_match (\<lambda>x. mt_destinationWorkload m x f) (ff_destinationWorkload ff)
     \<and> some_match (\<lambda>x. mt_sourceFqdn m x f) (ff_sourceFqdn ff)
     \<and> some_match (\<lambda>x. mt_destinationFqdn m x f) (ff_destinationFqdn ff)
     \<and> some_match (\<lambda>x. mt_sourceLabel m x f) (ff_sourceLabel ff)
     \<and> some_match (\<lambda>x. mt_destinationLabel m x f) (ff_destinationLabel ff)
     \<and> some_match (\<lambda>x. mt_destinationPort m x f) (ff_destinationPort ff)
     \<and> some_match (\<lambda>x. mt_httpStatusCode m x f) (ff_httpStatusCode ff)"

definition match_one :: "'f matcher \<Rightarrow> flow_filter list \<Rightarrow> 'f \<Rightarrow> bool" where
  "match_one m ffs f \<longleftrightarrow> ffs = [] \<or> (\<exists>ff \<in> set ffs. filter_matches m ff f)"

definition match_none :: "'f matcher \<Rightarrow> flow_filter list \<Rightarrow> 'f \<Rightarrow> bool" where
  "match_none m ffs f \<longleftrightarrow> (\<forall>ff \<in> set ffs. \<not> filter_matches m ff f)"

definition server_accepts :: "'f matcher \<Rightarrow> filters \<Rightarrow> 'f \<Rightarrow> bool" where
  "server_accepts m fs f =
     (case flowFiltersFromFilters fs of (wl, bl) \<Rightarrow> match_one m wl f \<and> match_none m bl f)"

text \<open>The meaning of a request: what the base filter demands, and the ends of a flow an entry is about.\<close>

definition source_wanted :: "'f matcher \<Rightarrow> filters \<Rightarrow> filter_entry \<Rightarrow> 'f \<Rightarrow> bool" where
  "source_wanted m fs fe f =
     (case fe_kind fe of
        Kind_Label \<Rightarrow> mt_sourceLabel m (fe_query fe) f
      | Kind_Ip \<Rightarrow> mt_sourceIp m (fe_query fe) f
      | Kind_Dns \<Rightarrow> mt_sourceFqdn m (fe_query fe) f
      | Kind_Identity \<Rightarrow> mt_sourceIdentity m (to_number (fe_query fe)) f
      | Kind_Pod \<Rightarrow> (case entry_pod fs fe of None \<Rightarrow> True | Some p \<Rightarrow> named_matches p (mt_sourcePod m f))
      | Kind_Workload \<Rightarrow>
          (case workloadFromFilterEntry fe of None \<Rightarrow> True | Some w \<Rightarrow> mt_sourceWorkload m w f)
      | Kind_TCPFlag \<Rightarrow> True)"

definition destination_wanted :: "'f matcher \<Rightarrow> filters \<Rightarrow> filter_entry \<Rightarrow> 'f \<Rightarrow> bool" where
  "destination_wanted m fs fe f =
     (case fe_kind fe of
        Kind_Label \<Rightarrow> mt_destinationLabel m (fe_query fe) f
      | Kind_Ip \<Rightarrow> mt_destinationIp m (fe_query fe) f
      | Kind_Dns \<Rightarrow> mt_destinationFqdn m (fe_query fe) f
      | Kind_Identity \<Rightarrow> mt_destinationIdentity m (to_number (fe_query fe)) f
      | Kind_Pod \<Rightarrow> (case entry_pod fs fe of None \<Rightarrow> True | Some p \<Rightarrow> named_matches p (mt_destinationPod m f))
      | Kind_Workload \<Rightarrow>
          (case workloadFromFilterEntry fe of None \<Rightarrow> True | Some w \<Rightarrow> mt_destinationWorkload m w f)
      | Kind_TCPFlag \<Rightarrow> True)"

definition in_namespace :: "'f matcher \<Rightarrow> filters \<Rightarrow> 'f \<Rightarrow> bool" where
  "in_namespace m fs f =
     (case fi_namespace fs of
        None \<Rightarrow> True
      | Some ns \<Rightarrow> ns = [] \<or> fst (mt_sourcePod m f) = ns \<or> fst (mt_destinationPod m f) = ns)"

definition no_slash :: "string option \<Rightarrow> bool" where
  "no_slash s = (case s of None \<Rightarrow> True | Some t \<Rightarrow> CHR ''/'' \<notin> set t)"

lemma some_match_simps [simp]: "some_match p []" "some_match p [x] = p x"
  by (simp_all add: some_match_def)

lemma parseNamespaceName_slash:
  assumes "CHR ''/'' \<notin> set ns"
  shows "\<exists>name. parseNamespaceName (ns @ ''/'' @ q) = (ns, name) \<and> (q = [] \<longrightarrow> name = [])"
proof -
  have "split_on (CHR ''/'') (ns @ CHR ''/'' # q) = ns # split_on (CHR ''/'') q"
    by (rule split_by_append) (use assms in auto)
  moreover have "split_on (CHR ''/'') q \<noteq> []"
    by simp
  ultimately show ?thesis
    by (cases "split_on (CHR ''/'') q") (auto simp: parseNamespaceName_def)
qed

lemma named_matches_namespace:
  assumes "CHR ''/'' \<notin> set ns" "ns \<noteq> []"
  shows "named_matches (ns @ ''/'') ep \<longleftrightarrow> fst ep = ns"
proof -
  obtain name where "parseNamespaceName (ns @ ''/'' @ []) = (ns, name)" "name = []"
    using parseNamespaceName_slash [OF assms(1), of "[]"] by auto
  then show ?thesis
    using assms(2) by (cases ep) (auto simp: named_matches_def)
qed

lemma named_matches_pod:
  assumes "CHR ''/'' \<notin> set ns" "ns \<noteq> []" "named_matches (ns @ ''/'' @ q) ep"
  shows "fst ep = ns"
proof -
  obtain name where "parseNamespaceName (ns @ ''/'' @ q) = (ns, name)"
    using parseNamespaceName_slash [OF assms(1), of q] by auto
  then show ?thesis
    using assms(2,3) by (auto simp: named_matches_def)
qed

lemma starts_with_namespace:
  assumes "CHR ''/'' \<notin> set a" "CHR ''/'' \<notin> set b"
  shows "starts_with (a @ ''/'' @ q) (b @ ''/'') \<longleftrightarrow> a = b"
proof
  assume "starts_with (a @ ''/'' @ q) (b @ ''/'')"
  then obtain t where "a @ CHR ''/'' # q = b @ CHR ''/'' # t"
    by (auto simp: starts_with_iff prefix_def)
  then have "split_on (CHR ''/'') (a @ CHR ''/'' # q) = split_on (CHR ''/'') (b @ CHR ''/'' # t)"
    by simp
  moreover have "split_on (CHR ''/'') (c @ CHR ''/'' # u) = c # split_on (CHR ''/'') u"
    if "CHR ''/'' \<notin> set c" for c u
    by (rule split_by_append) (use that in auto)
  ultimately show "a = b"
    using assms by simp
next
  assume "a = b"
  then show "starts_with (a @ ''/'' @ q) (b @ ''/'')"
    by (simp add: starts_with_def)
qed

text \<open>The base filter with one more demand.\<close>

lemma base_fields [simp]:
  "ff_sourceIp (baseWhitelistFilter fs) = []" "ff_sourcePod (baseWhitelistFilter fs) = []"
  "ff_sourceFqdn (baseWhitelistFilter fs) = []" "ff_sourceLabel (baseWhitelistFilter fs) = []"
  "ff_sourceWorkload (baseWhitelistFilter fs) = []" "ff_sourceIdentity (baseWhitelistFilter fs) = []"
  "ff_destinationIp (baseWhitelistFilter fs) = []" "ff_destinationPod (baseWhitelistFilter fs) = []"
  "ff_destinationFqdn (baseWhitelistFilter fs) = []" "ff_destinationLabel (baseWhitelistFilter fs) = []"
  "ff_destinationWorkload (baseWhitelistFilter fs) = []" "ff_destinationIdentity (baseWhitelistFilter fs) = []"
  "ff_destinationPort (baseWhitelistFilter fs) = []"
  by (simp_all add: baseWhitelistFilter_def flow_filter_create_def)

definition namespaces_clean :: "filters \<Rightarrow> bool" where
  "namespaces_clean fs \<longleftrightarrow>
     no_slash (fi_namespace fs) \<and> (\<forall>e \<in> set (or_empty (fi_filters fs)). fe_kind e = Kind_Pod \<longrightarrow> no_slash (fe_meta e))"

lemma in_namespace_None: "podsInNamespace fs = None \<Longrightarrow> in_namespace m fs f"
  by (auto simp: podsInNamespace_def in_namespace_def truthy_def split: option.splits if_splits)

lemma in_namespace_Some:
  assumes "podsInNamespace fs = Some p" "no_slash (fi_namespace fs)"
  shows "in_namespace m fs f \<longleftrightarrow> named_matches p (mt_sourcePod m f) \<or> named_matches p (mt_destinationPod m f)"
proof -
  obtain ns where "fi_namespace fs = Some ns" "ns \<noteq> []" "p = ns @ ''/''" "CHR ''/'' \<notin> set ns"
    using assms by (auto simp: podsInNamespace_def truthy_def no_slash_def split: if_splits option.splits)
  then show ?thesis
    by (auto simp: in_namespace_def named_matches_namespace)
qed

text \<open>A pod pattern of another namespace leaves only the other end to be in the namespace.\<close>

lemma pod_in_namespace:
  assumes "podsInNamespace fs = Some p" "entry_pod fs e = Some q" "no_slash (fi_namespace fs)" "no_slash (fe_meta e)"
    and "named_matches q ep"
  shows "named_matches p ep \<longleftrightarrow> starts_with q p"
proof -
  obtain ns where ns: "fi_namespace fs = Some ns" "ns \<noteq> []" "p = ns @ ''/''" "CHR ''/'' \<notin> set ns"
    using assms(1,3) by (auto simp: podsInNamespace_def truthy_def no_slash_def split: if_splits option.splits)
  obtain pns where pns: "q = pns @ ''/'' @ fe_query e" "pns \<noteq> []" "CHR ''/'' \<notin> set pns"
    using assms(1,2,4) ns
    by (auto simp: entry_pod_def fe_podNamespace_def truthy_def no_slash_def split: if_splits option.splits)
  have "fst ep = pns"
    using named_matches_pod [OF pns(3,2)] assms(5) pns(1) by simp
  moreover have "starts_with q p \<longleftrightarrow> pns = ns"
    unfolding pns(1) ns(3) by (rule starts_with_namespace [OF pns(3) ns(4)])
  moreover have "named_matches p ep \<longleftrightarrow> fst ep = ns"
    unfolding ns(3) by (rule named_matches_namespace [OF ns(4,2)])
  ultimately show ?thesis
    by simp
qed

lemma entry_pod_Some: "podsInNamespace fs = Some p \<Longrightarrow> \<exists>q. entry_pod fs e = Some q"
  by (auto simp: entry_pod_def split: option.split)

text \<open>What the base filter with further demands matches.\<close>

lemma base_matches:
  "filter_matches m (baseWhitelistFilter fs) f \<longleftrightarrow>
     some_match (\<lambda>x. mt_eventType m x f) (ff_eventType (baseWhitelistFilter fs))
     \<and> some_match (\<lambda>x. mt_verdict m x f) (ff_verdict (baseWhitelistFilter fs))
     \<and> some_match (\<lambda>x. mt_reply m x f) (ff_reply (baseWhitelistFilter fs))
     \<and> some_match (\<lambda>x. mt_httpStatusCode m x f) (ff_httpStatusCode (baseWhitelistFilter fs))"
  by (auto simp: filter_matches_def)

lemma pushed_simps [simp]: "pushed None = []" "pushed (Some x) = [x]"
  by (simp_all add: pushed_def)

lemma source_filters_match:
  assumes "no_slash (fi_namespace fs)" "fe_kind e = Kind_Pod \<Longrightarrow> no_slash (fe_meta e)"
  shows "(\<exists>ff \<in> set (source_filters fs e). filter_matches m ff f) \<longleftrightarrow>
    filter_matches m (baseWhitelistFilter fs) f \<and> in_namespace m fs f \<and> source_wanted m fs e f"
proof (cases "podsInNamespace fs")
  case None
  then show ?thesis
    by (cases "fe_kind e")
      (auto simp: source_filters_def source_wanted_def Let_def base_matches filter_matches_def in_namespace_None
        split: option.split)
next
  case (Some p)
  note ns = in_namespace_Some [OF Some assms(1), of m f]
  show ?thesis
  proof (cases "fe_kind e = Kind_Pod")
    case True
    obtain q where q: "entry_pod fs e = Some q"
      using entry_pod_Some [OF Some] by blast
    have "named_matches q (mt_sourcePod m f) \<Longrightarrow> named_matches p (mt_sourcePod m f) \<longleftrightarrow> starts_with q p"
      using pod_in_namespace [OF Some q assms(1) assms(2) [OF True]] .
    then show ?thesis
      using True Some q ns
      by (auto simp: source_filters_def source_wanted_def Let_def base_matches filter_matches_def)
  next
    case False
    then show ?thesis
      using Some ns
      by (cases "fe_kind e")
        (auto simp: source_filters_def source_wanted_def Let_def base_matches filter_matches_def split: option.split)
  qed
qed

lemma destination_filters_match:
  assumes "no_slash (fi_namespace fs)" "fe_kind e = Kind_Pod \<Longrightarrow> no_slash (fe_meta e)"
  shows "(\<exists>ff \<in> set (destination_filters fs e). filter_matches m ff f) \<longleftrightarrow>
    filter_matches m (baseWhitelistFilter fs) f \<and> in_namespace m fs f \<and> destination_wanted m fs e f"
proof (cases "podsInNamespace fs")
  case None
  then show ?thesis
    by (cases "fe_kind e")
      (auto simp: destination_filters_def destination_wanted_def Let_def base_matches filter_matches_def
        in_namespace_None split: option.split)
next
  case (Some p)
  note ns = in_namespace_Some [OF Some assms(1), of m f]
  show ?thesis
  proof (cases "fe_kind e = Kind_Pod")
    case True
    obtain q where q: "entry_pod fs e = Some q"
      using entry_pod_Some [OF Some] by blast
    have "named_matches q (mt_destinationPod m f) \<Longrightarrow> named_matches p (mt_destinationPod m f) \<longleftrightarrow> starts_with q p"
      using pod_in_namespace [OF Some q assms(1) assms(2) [OF True]] .
    then show ?thesis
      using True Some q ns
      by (auto simp: destination_filters_def destination_wanted_def Let_def base_matches filter_matches_def)
  next
    case False
    then show ?thesis
      using Some ns
      by (cases "fe_kind e")
        (auto simp: destination_filters_def destination_wanted_def Let_def base_matches filter_matches_def
          split: option.split)
  qed
qed

lemma filterEntry_nonempty: "filterEntryWhitelistFilters fs e \<noteq> []"
proof -
  have "source_filters fs e \<noteq> []" "destination_filters fs e \<noteq> []"
    by (auto simp: source_filters_def destination_filters_def Let_def split: filter_kind.split option.split)
  then show ?thesis
    by (cases "fe_direction e") (auto simp: filterEntryWhitelistFilters_def fe_fromRequired_def fe_toRequired_def)
qed

lemma filterEntry_match:
  assumes "no_slash (fi_namespace fs)" "fe_kind e = Kind_Pod \<Longrightarrow> no_slash (fe_meta e)"
  shows "(\<exists>ff \<in> set (filterEntryWhitelistFilters fs e). filter_matches m ff f) \<longleftrightarrow>
    filter_matches m (baseWhitelistFilter fs) f \<and> in_namespace m fs f
    \<and> (fe_fromRequired e \<and> source_wanted m fs e f \<or> fe_toRequired e \<and> destination_wanted m fs e f)"
  using source_filters_match [OF assms, of m f] destination_filters_match [OF assms, of m f]
  by (auto simp: filterEntryWhitelistFilters_def)

lemma no_entries_match:
  assumes "no_slash (fi_namespace fs)" "filter (\<lambda>e. \<not> fe_negative e) (or_empty (fi_filters fs)) = []"
  shows "match_one m (fst (flowFiltersFromFilters fs)) f \<longleftrightarrow>
    filter_matches m (baseWhitelistFilter fs) f \<and> in_namespace m fs f"
proof (cases "podsInNamespace fs")
  case None
  then show ?thesis
    using assms(2) by (simp add: flowFiltersFromFilters_def match_one_def in_namespace_None)
next
  case (Some p)
  then show ?thesis
    using assms(2) in_namespace_Some [OF Some assms(1), of m f]
    by (auto simp: flowFiltersFromFilters_def match_one_def base_matches filter_matches_def)
qed

subsection \<open>What the filters mean\<close>

text \<open>The meaning of the filters, stated of the fields of the filters and of the event alone: the verdicts, the HTTP status
  (which only layer 7 events have) and the direction; the end an entry names; and the entries that name nothing.\<close>

definition switches_meant :: "'f matcher \<Rightarrow> filters \<Rightarrow> 'f \<Rightarrow> bool" where
  "switches_meant m fs f \<longleftrightarrow>
     (case fi_verdicts fs of None \<Rightarrow> True | Some vs \<Rightarrow> vs = [] \<or> (\<exists>v \<in> set vs. mt_verdict m (verdictToPb v) f))
     \<and> (case fi_httpStatus fs of None \<Rightarrow> True | Some status \<Rightarrow> status = [] \<or> mt_eventType m 129 f \<and> mt_httpStatusCode m status f)
     \<and> mt_reply m False f"

definition pod_namespace :: "filters \<Rightarrow> filter_entry \<Rightarrow> string option" where
  "pod_namespace fs fe = find (\<lambda>ns. ns \<noteq> []) (List.map_filter id [fe_meta fe, fi_namespace fs])"

definition names_nothing :: "filters \<Rightarrow> filter_entry \<Rightarrow> bool" where
  "names_nothing fs fe \<longleftrightarrow>
     (case fe_kind fe of
        Kind_TCPFlag \<Rightarrow> True
      | Kind_Workload \<Rightarrow> fe_query fe = [] \<or> fe_meta fe = None \<or> fe_meta fe = Some []
      | Kind_Pod \<Rightarrow> pod_namespace fs fe = None
      | _ \<Rightarrow> False)"

definition pod_meant :: "filters \<Rightarrow> filter_entry \<Rightarrow> string \<times> string \<Rightarrow> bool" where
  "pod_meant fs fe pod \<longleftrightarrow> Some (fst pod) = pod_namespace fs fe \<and> starts_with (snd pod) (fe_query fe)"

definition source_meant :: "'f matcher \<Rightarrow> filters \<Rightarrow> filter_entry \<Rightarrow> 'f \<Rightarrow> bool" where
  "source_meant m fs fe f =
     (case fe_kind fe of
        Kind_Label \<Rightarrow> mt_sourceLabel m (fe_query fe) f
      | Kind_Ip \<Rightarrow> mt_sourceIp m (fe_query fe) f
      | Kind_Dns \<Rightarrow> mt_sourceFqdn m (fe_query fe) f
      | Kind_Identity \<Rightarrow> mt_sourceIdentity m (to_number (fe_query fe)) f
      | Kind_Pod \<Rightarrow> pod_meant fs fe (mt_sourcePod m f)
      | Kind_Workload \<Rightarrow> (\<exists>kind. fe_meta fe = Some kind \<and> mt_sourceWorkload m \<lparr>wl_kind = kind, wl_name = fe_query fe\<rparr> f)
      | Kind_TCPFlag \<Rightarrow> False)"

definition destination_meant :: "'f matcher \<Rightarrow> filters \<Rightarrow> filter_entry \<Rightarrow> 'f \<Rightarrow> bool" where
  "destination_meant m fs fe f =
     (case fe_kind fe of
        Kind_Label \<Rightarrow> mt_destinationLabel m (fe_query fe) f
      | Kind_Ip \<Rightarrow> mt_destinationIp m (fe_query fe) f
      | Kind_Dns \<Rightarrow> mt_destinationFqdn m (fe_query fe) f
      | Kind_Identity \<Rightarrow> mt_destinationIdentity m (to_number (fe_query fe)) f
      | Kind_Pod \<Rightarrow> pod_meant fs fe (mt_destinationPod m f)
      | Kind_Workload \<Rightarrow> (\<exists>kind. fe_meta fe = Some kind \<and> mt_destinationWorkload m \<lparr>wl_kind = kind, wl_name = fe_query fe\<rparr> f)
      | Kind_TCPFlag \<Rightarrow> False)"

definition names_clean :: "filters \<Rightarrow> bool" where
  "names_clean fs \<longleftrightarrow>
     namespaces_clean fs \<and> (\<forall>e \<in> set (or_empty (fi_filters fs)). fe_kind e = Kind_Pod \<longrightarrow> CHR ''/'' \<notin> set (fe_query e))"

lemma base_meant: "filter_matches m (baseWhitelistFilter fs) f \<longleftrightarrow> switches_meant m fs f"
  unfolding base_matches
  by (auto simp: switches_meant_def baseWhitelistFilter_def some_match_def given_def or_empty_def ciliumEventType_L7_def
      truthy_def split: option.split)

lemma entry_pod_meant:
  assumes "no_slash (fi_namespace fs)" "no_slash (fe_meta fe)" "CHR ''/'' \<notin> set (fe_query fe)"
  shows "(case entry_pod fs fe of None \<Rightarrow> True | Some p \<Rightarrow> named_matches p ep) \<longleftrightarrow> pod_namespace fs fe = None \<or> pod_meant fs fe ep"
proof (cases "pod_namespace fs fe")
  case None
  then have "entry_pod fs fe = None"
    by (auto simp: pod_namespace_def map_filter_simps entry_pod_def fe_podNamespace_def podsInNamespace_def truthy_def
        split: option.splits if_splits)
  then show ?thesis using None by simp
next
  case (Some ns)
  then have ns: "ns \<noteq> []" "CHR ''/'' \<notin> set ns" "entry_pod fs fe = Some (ns @ ''/'' @ fe_query fe)"
    using assms(1,2)
    by (auto simp: pod_namespace_def map_filter_simps entry_pod_def fe_podNamespace_def podsInNamespace_def truthy_def no_slash_def
        split: option.splits if_splits)
  have "split_on (CHR ''/'') (ns @ CHR ''/'' # fe_query fe) = ns # split_on (CHR ''/'') (fe_query fe)"
    by (rule split_by_append) (use ns(2) in auto)
  moreover have "split_on (CHR ''/'') (fe_query fe) = [fe_query fe]"
    using split_join [of "[fe_query fe]" "CHR ''/''"] assms(3) by simp
  ultimately have "parseNamespaceName (ns @ ''/'' @ fe_query fe) = (ns, fe_query fe)"
    by (simp add: parseNamespaceName_def)
  then show ?thesis
    using ns Some by (cases ep) (auto simp: named_matches_def pod_meant_def starts_with_def)
qed

lemma wanted_meant:
  assumes "no_slash (fi_namespace fs)" "fe_kind fe = Kind_Pod \<Longrightarrow> no_slash (fe_meta fe) \<and> CHR ''/'' \<notin> set (fe_query fe)"
  shows "source_wanted m fs fe f \<longleftrightarrow> names_nothing fs fe \<or> source_meant m fs fe f"
    and "destination_wanted m fs fe f \<longleftrightarrow> names_nothing fs fe \<or> destination_meant m fs fe f"
  using entry_pod_meant [OF assms(1), of fe] assms(2)
  by (cases "fe_kind fe";
      auto simp: source_wanted_def destination_wanted_def names_nothing_def source_meant_def destination_meant_def
        workloadFromFilterEntry_def fe_asWorkload_def fe_isWorkload_def truthy_def split: option.split)+

text \<open>C25: the whitelist that is sent to the server lets pass exactly the events that are no replies, have one of the chosen
  verdicts and the chosen HTTP status (if any are chosen), have an end in the chosen namespace (if one is chosen), and, if
  there are positive entries, satisfy one of them at an end it is about: the label, address, name or identity, the kind and
  name of the workload, or a pod whose name starts with the query in the namespace of the entry or else in the chosen one.
  Entries that name nothing put no constraint: those for TCP flags, workloads without kind or name, and pods when no
  namespace is known.  Namespaces and queries for pods must not contain a slash.\<close>

theorem whitelist_means_filters:
  assumes "names_clean fs" and "filter (\<lambda>e. \<not> fe_negative e) (or_empty (fi_filters fs)) = positive"
  shows "match_one m (fst (flowFiltersFromFilters fs)) f \<longleftrightarrow>
    switches_meant m fs f \<and> in_namespace m fs f
    \<and> (positive = [] \<or> (\<exists>e \<in> set positive.
         names_nothing fs e \<or> fe_fromRequired e \<and> source_meant m fs e f \<or> fe_toRequired e \<and> destination_meant m fs e f))"
proof (cases "positive = []")
  case True
  then show ?thesis
    using assms no_entries_match [of fs m f] by (simp add: names_clean_def namespaces_clean_def base_meant)
next
  case False
  then have wl: "fst (flowFiltersFromFilters fs) = concat (map (filterEntryWhitelistFilters fs) positive)"
    unfolding assms(2) [symmetric] by (simp add: flowFiltersFromFilters_def Let_def)
  have "concat (map (filterEntryWhitelistFilters fs) positive) \<noteq> []"
    using False filterEntry_nonempty [of fs "hd positive"] by (cases positive) auto
  moreover have "(\<exists>ff \<in> set (filterEntryWhitelistFilters fs e). filter_matches m ff f) \<longleftrightarrow>
      switches_meant m fs f \<and> in_namespace m fs f
      \<and> (names_nothing fs e \<or> fe_fromRequired e \<and> source_meant m fs e f \<or> fe_toRequired e \<and> destination_meant m fs e f)"
    if "e \<in> set positive" for e
  proof -
    have e: "no_slash (fi_namespace fs)" "fe_kind e = Kind_Pod \<Longrightarrow> no_slash (fe_meta e) \<and> CHR ''/'' \<notin> set (fe_query e)"
      using assms that by (auto simp: names_clean_def namespaces_clean_def)
    have "fe_fromRequired e \<or> fe_toRequired e" by (cases "fe_direction e") (auto simp: fe_fromRequired_def fe_toRequired_def)
    moreover have "(\<exists>ff \<in> set (filterEntryWhitelistFilters fs e). filter_matches m ff f) \<longleftrightarrow>
        filter_matches m (baseWhitelistFilter fs) f \<and> in_namespace m fs f
        \<and> (fe_fromRequired e \<and> source_wanted m fs e f \<or> fe_toRequired e \<and> destination_wanted m fs e f)"
      using e by (intro filterEntry_match) simp_all
    moreover have "source_wanted m fs e f \<longleftrightarrow> names_nothing fs e \<or> source_meant m fs e f"
      "destination_wanted m fs e f \<longleftrightarrow> names_nothing fs e \<or> destination_meant m fs e f"
      using e by (simp_all add: wanted_meant)
    ultimately show ?thesis unfolding base_meant by blast
  qed
  ultimately show ?thesis
    unfolding match_one_def wl using False by auto
qed

text \<open>An event of the examples: the addresses, endpoints with namespace and pod name, and labels of both ends.\<close>

record demo_event =
  de_sourceIp :: string
  de_destinationIp :: string
  de_source :: "string \<times> string"
  de_destination :: "string \<times> string"

definition demo_matcher :: "demo_event matcher" where
  "demo_matcher =
     \<lparr>mt_sourceIp = (\<lambda>x f. de_sourceIp f = x), mt_sourcePod = de_source, mt_sourceFqdn = (\<lambda>_ _. False),
      mt_sourceLabel = (\<lambda>_ _. False), mt_sourceWorkload = (\<lambda>_ _. False), mt_sourceIdentity = (\<lambda>_ _. False),
      mt_destinationIp = (\<lambda>x f. de_destinationIp f = x), mt_destinationPod = de_destination,
      mt_destinationFqdn = (\<lambda>_ _. False), mt_destinationLabel = (\<lambda>_ _. False),
      mt_destinationWorkload = (\<lambda>_ _. False), mt_destinationIdentity = (\<lambda>_ _. False),
      mt_destinationPort = (\<lambda>_ _. False), mt_verdict = (\<lambda>_ _. True), mt_eventType = (\<lambda>_ _. True),
      mt_httpStatusCode = (\<lambda>_ _. True), mt_reply = (\<lambda>r _. \<not> r)\<rparr>"

definition demo_request :: filters where
  "demo_request = filters_default\<lparr>fi_namespace := Some ''jobs'',
     fi_filters := Some [\<lparr>fe_kind = Kind_Pod, fe_direction = Direction_From, fe_query = ''crawler'',
       fe_meta = Some ''web'', fe_negative = False\<rparr>]\<rparr>"

definition demo_event :: demo_event where
  "demo_event = \<lparr>de_sourceIp = ''10.0.0.1'', de_destinationIp = ''10.0.0.2'', de_source = (''web'', ''crawler-7''),
     de_destination = (''jobs'', ''loader'')\<rparr>"

theorem whitelist_means_filters_witness:
  "match_one demo_matcher (fst (flowFiltersFromFilters demo_request)) demo_event"
proof -
  have "names_clean demo_request" by code_simp
  moreover have "switches_meant demo_matcher demo_request demo_event" "in_namespace demo_matcher demo_request demo_event"
    by code_simp+
  moreover have "\<exists>e \<in> set (filter (\<lambda>e. \<not> fe_negative e) (or_empty (fi_filters demo_request))).
       names_nothing demo_request e \<or> fe_fromRequired e \<and> source_meant demo_matcher demo_request e demo_event
       \<or> fe_toRequired e \<and> destination_meant demo_matcher demo_request e demo_event"
    by (simp add: demo_request_def or_empty_def fe_fromRequired_def source_meant_def pod_meant_def pod_namespace_def map_filter_simps
        demo_matcher_def demo_event_def starts_with_def)
  ultimately show ?thesis
    using whitelist_means_filters [of demo_request _ demo_matcher demo_event] by blast
qed

text \<open>A negative entry for a destination address makes the server reject every flow, whatever the
  flow is, unless some negative entry is about a source address: the filter that should list the
  destination addresses is filled from the empty list of source addresses, so it demands nothing.\<close>

theorem negative_destination_ip_rejects_all:
  assumes "e \<in> set (or_empty (fi_filters fs))" "fe_negative e" "fe_kind e = Kind_Ip" "fe_toRequired e"
    and "\<And>d. d \<in> set (or_empty (fi_filters fs)) \<Longrightarrow> fe_negative d \<Longrightarrow> fe_kind d = Kind_Ip \<Longrightarrow> \<not> fe_fromRequired d"
  shows "\<not> server_accepts m fs f"
proof -
  have "negative_queries Kind_Ip fe_fromRequired fs = []"
    using assms(5) by (auto simp: negative_queries_def filter_empty_conv)
  moreover have "negative_queries Kind_Ip fe_toRequired fs \<noteq> []"
    using assms(1-4) by (auto simp: negative_queries_def filter_empty_conv)
  ultimately have "flow_filter_create\<lparr>ff_destinationIp := []\<rparr> \<in> set (blacklistFlowFilters fs)"
    by (simp add: blacklistFlowFilters_def Let_def unless_empty_def)
  moreover have "filter_matches m (flow_filter_create\<lparr>ff_destinationIp := []\<rparr>) f"
    by (simp add: filter_matches_def flow_filter_create_def)
  moreover have "snd (flowFiltersFromFilters fs) = blacklistFlowFilters fs"
    by (simp add: flowFiltersFromFilters_def Let_def split: option.split)
  ultimately show ?thesis
    by (auto simp: server_accepts_def match_none_def split: prod.splits)
qed

definition demo_negative :: filters where
  "demo_negative = filters_default\<lparr>fi_filters := Some [\<lparr>fe_kind = Kind_Ip, fe_direction = Direction_To,
     fe_query = ''192.0.2.7'', fe_meta = None, fe_negative = True\<rparr>]\<rparr>"

theorem negative_destination_ip_rejects_all_witness:
  "\<not> server_accepts demo_matcher demo_negative demo_event"
  by (rule negative_destination_ip_rejects_all [of "hd (or_empty (fi_filters demo_negative))"])
    (simp_all add: demo_negative_def or_empty_def fe_toRequired_def fe_fromRequired_def)

lemma negative_queries_in:
  "e \<in> set (or_empty (fi_filters fs)) \<Longrightarrow> fe_negative e \<Longrightarrow> required e \<Longrightarrow>
     fe_query e \<in> set (negative_queries (fe_kind e) required fs)"
  by (auto simp: negative_queries_def)

lemma blacklisted:
  assumes "ff \<in> set (blacklistFlowFilters fs)" "filter_matches m ff f"
  shows "\<not> server_accepts m fs f"
proof -
  have "snd (flowFiltersFromFilters fs) = blacklistFlowFilters fs"
    by (simp add: flowFiltersFromFilters_def Let_def split: option.split)
  then show ?thesis
    using assms by (auto simp: server_accepts_def match_none_def split: prod.splits)
qed

lemma blacklist_filters:
  shows "flow_filter_create\<lparr>ff_sourceLabel := skipped_sources fs @ negative_queries Kind_Label fe_fromRequired fs\<rparr>
      \<in> set (blacklistFlowFilters fs)"
    and "flow_filter_create\<lparr>ff_destinationLabel := skipped_destinations fs @ negative_queries Kind_Label fe_toRequired fs\<rparr>
      \<in> set (blacklistFlowFilters fs)"
    and "flow_filter_create\<lparr>ff_sourceFqdn := ''*.cluster.local*'' # negative_queries Kind_Dns fe_fromRequired fs\<rparr>
      \<in> set (blacklistFlowFilters fs)"
    and "flow_filter_create\<lparr>ff_destinationFqdn := ''*.cluster.local*'' # negative_queries Kind_Dns fe_toRequired fs\<rparr>
      \<in> set (blacklistFlowFilters fs)"
  by (simp_all only: blacklistFlowFilters_def Let_def set_append set_simps Un_iff insert_iff simp_thms)

lemma blacklist_identities:
  shows "negative_queries Kind_Identity fe_fromRequired fs \<noteq> [] \<Longrightarrow>
      flow_filter_create\<lparr>ff_sourceIdentity := map to_number (negative_queries Kind_Identity fe_fromRequired fs)\<rparr>
        \<in> set (blacklistFlowFilters fs)"
    and "negative_queries Kind_Identity fe_toRequired fs \<noteq> [] \<Longrightarrow>
      flow_filter_create\<lparr>ff_destinationIdentity := map to_number (negative_queries Kind_Identity fe_toRequired fs)\<rparr>
        \<in> set (blacklistFlowFilters fs)"
  by (simp_all only: blacklistFlowFilters_def Let_def unless_empty_def map_is_Nil_conv if_False set_append set_simps
      Un_iff insert_iff simp_thms)

lemma create_matches:
  "filter_matches m (flow_filter_create\<lparr>ff_sourceLabel := xs\<rparr>) f \<longleftrightarrow> some_match (\<lambda>x. mt_sourceLabel m x f) xs"
  "filter_matches m (flow_filter_create\<lparr>ff_destinationLabel := xs\<rparr>) f \<longleftrightarrow> some_match (\<lambda>x. mt_destinationLabel m x f) xs"
  "filter_matches m (flow_filter_create\<lparr>ff_sourceFqdn := xs\<rparr>) f \<longleftrightarrow> some_match (\<lambda>x. mt_sourceFqdn m x f) xs"
  "filter_matches m (flow_filter_create\<lparr>ff_destinationFqdn := xs\<rparr>) f \<longleftrightarrow> some_match (\<lambda>x. mt_destinationFqdn m x f) xs"
  "filter_matches m (flow_filter_create\<lparr>ff_sourceIdentity := ns\<rparr>) f \<longleftrightarrow> some_match (\<lambda>x. mt_sourceIdentity m x f) ns"
  "filter_matches m (flow_filter_create\<lparr>ff_destinationIdentity := ns\<rparr>) f \<longleftrightarrow> some_match (\<lambda>x. mt_destinationIdentity m x f) ns"
  by (simp_all add: filter_matches_def flow_filter_create_def)

lemma some_matchI: "x \<in> set xs \<Longrightarrow> p x \<Longrightarrow> some_match p xs"
  by (auto simp: some_match_def)

lemma negative_source_rejected:
  assumes e: "e \<in> set (or_empty (fi_filters fs))" "fe_negative e" "fe_kind e \<in> {Kind_Label, Kind_Dns, Kind_Identity}"
    and src: "fe_fromRequired e" "source_wanted m fs e f"
  shows "\<not> server_accepts m fs f"
proof -
  have query: "fe_query e \<in> set (negative_queries (fe_kind e) fe_fromRequired fs)"
    using negative_queries_in [of e fs fe_fromRequired] e src by blast
  consider "fe_kind e = Kind_Label" | "fe_kind e = Kind_Dns" | "fe_kind e = Kind_Identity"
    using e(3) by blast
  then show ?thesis
  proof cases
    case 1
    have "some_match (\<lambda>x. mt_sourceLabel m x f) (skipped_sources fs @ negative_queries Kind_Label fe_fromRequired fs)"
      by (rule some_matchI [of "fe_query e"]) (use 1 query src in \<open>simp_all add: source_wanted_def\<close>)
    then show ?thesis
      using blacklisted [OF blacklist_filters(1)] by (simp add: create_matches)
  next
    case 2
    have "some_match (\<lambda>x. mt_sourceFqdn m x f) (''*.cluster.local*'' # negative_queries Kind_Dns fe_fromRequired fs)"
      by (rule some_matchI [of "fe_query e"]) (use 2 query src in \<open>simp_all add: source_wanted_def\<close>)
    then show ?thesis
      using blacklisted [OF blacklist_filters(3)] by (simp add: create_matches)
  next
    case 3
    then have "negative_queries Kind_Identity fe_fromRequired fs \<noteq> []"
      using query by auto
    moreover have "some_match (\<lambda>x. mt_sourceIdentity m x f) (map to_number (negative_queries Kind_Identity fe_fromRequired fs))"
      by (rule some_matchI [of "to_number (fe_query e)"]) (use 3 query src in \<open>simp_all add: source_wanted_def\<close>)
    ultimately show ?thesis
      using blacklisted [OF blacklist_identities(1)] by (simp add: create_matches)
  qed
qed

lemma negative_destination_rejected:
  assumes e: "e \<in> set (or_empty (fi_filters fs))" "fe_negative e" "fe_kind e \<in> {Kind_Label, Kind_Dns, Kind_Identity}"
    and dst: "fe_toRequired e" "destination_wanted m fs e f"
  shows "\<not> server_accepts m fs f"
proof -
  have query: "fe_query e \<in> set (negative_queries (fe_kind e) fe_toRequired fs)"
    using negative_queries_in [of e fs fe_toRequired] e dst by blast
  consider "fe_kind e = Kind_Label" | "fe_kind e = Kind_Dns" | "fe_kind e = Kind_Identity"
    using e(3) by blast
  then show ?thesis
  proof cases
    case 1
    have "some_match (\<lambda>x. mt_destinationLabel m x f) (skipped_destinations fs @ negative_queries Kind_Label fe_toRequired fs)"
      by (rule some_matchI [of "fe_query e"]) (use 1 query dst in \<open>simp_all add: destination_wanted_def\<close>)
    then show ?thesis
      using blacklisted [OF blacklist_filters(2)] by (simp add: create_matches)
  next
    case 2
    have "some_match (\<lambda>x. mt_destinationFqdn m x f) (''*.cluster.local*'' # negative_queries Kind_Dns fe_toRequired fs)"
      by (rule some_matchI [of "fe_query e"]) (use 2 query dst in \<open>simp_all add: destination_wanted_def\<close>)
    then show ?thesis
      using blacklisted [OF blacklist_filters(4)] by (simp add: create_matches)
  next
    case 3
    then have "negative_queries Kind_Identity fe_toRequired fs \<noteq> []"
      using query by auto
    moreover have "some_match (\<lambda>x. mt_destinationIdentity m x f) (map to_number (negative_queries Kind_Identity fe_toRequired fs))"
      by (rule some_matchI [of "to_number (fe_query e)"]) (use 3 query dst in \<open>simp_all add: destination_wanted_def\<close>)
    ultimately show ?thesis
      using blacklisted [OF blacklist_identities(2)] by (simp add: create_matches)
  qed
qed

text \<open>C26: Every flow with an end that matches a negative label, DNS or identity entry about that end is
  rejected by the server, whatever the other filters are.\<close>

theorem negative_entries_are_rejected:
  assumes "e \<in> set (or_empty (fi_filters fs))" "fe_negative e" "fe_kind e \<in> {Kind_Label, Kind_Dns, Kind_Identity}"
    and "fe_fromRequired e \<and> source_wanted m fs e f \<or> fe_toRequired e \<and> destination_wanted m fs e f"
  shows "\<not> server_accepts m fs f"
  using negative_source_rejected [OF assms(1-3), of m f] negative_destination_rejected [OF assms(1-3), of m f] assms(4)
  by blast

definition demo_negative_dns :: filter_entry where
  "demo_negative_dns = \<lparr>fe_kind = Kind_Dns, fe_direction = Direction_Either, fe_query = ''example.org'',
     fe_meta = None, fe_negative = True\<rparr>"

theorem negative_entries_are_rejected_witness:
  "\<not> server_accepts (demo_matcher\<lparr>mt_destinationFqdn := (\<lambda>x _. x = ''example.org'')\<rparr>)
     (filters_default\<lparr>fi_filters := Some [demo_negative_dns]\<rparr>) demo_event"
  by (rule negative_entries_are_rejected [of demo_negative_dns])
    (simp_all add: demo_negative_dns_def or_empty_def fe_toRequired_def fe_fromRequired_def destination_wanted_def)

end
