(* ===== verification/Flows.thy ===== *)
theory Flows
  imports Times Filter_Entry
begin

text \<open>
  \<open>src/domain/flows/index.ts\<close>, \<open>src/domain/layer7/wrapped.ts\<close> and \<open>src/domain/helpers/l7.ts\<close>: a flow and
  the questions the filters and the stores ask about it.  The getters memoise values computed from
  the read-only flow record, so they are functions of the flow.  The URL parser is the third-party
  package \<open>url-parse\<close>: an argument \<open>up\<close> from a URL to the port and path it finds.  \<open>isoTimestamp\<close>,
  which formats a date, is not modelled.
\<close>

record flow =
  fl_ref :: hubble_flow
  fl_id :: "string option"

record parsed_url =
  pu_port :: string
  pu_pathname :: string

section \<open>Layer 7\<close>

definition print_null :: "string option \<Rightarrow> string" where
  "print_null s = (case s of None \<Rightarrow> ''null'' | Some t \<Rightarrow> t)"

definition httpIdFromParts :: "http_verb option \<Rightarrow> string \<Rightarrow> string" where
  "httpIdFromParts method pathname = print_null (map_option method_str method) @ '' '' @ pathname"

definition l7_getEndpointId :: "(string \<Rightarrow> parsed_url) \<Rightarrow> layer7 \<Rightarrow> string" where
  "l7_getEndpointId up l7 =
     (case l7_dns l7 of
        Some d \<Rightarrow> ''DNS '' @ dns_query d
      | None \<Rightarrow>
          (case l7_kafka l7 of
             Some k \<Rightarrow> ''Kafka '' @ kafka_topic k
           | None \<Rightarrow>
               (case l7_http l7 of
                  Some h \<Rightarrow> httpIdFromParts (parseMethod (http_method h)) (pu_pathname (up (http_url h)))
                | None \<Rightarrow>
                    ''<unknown-l7-of-type-'' @ int_to_string (l7_flow_type_code (l7_type l7)) @ ''>'')))"

section \<open>Endpoints of a flow\<close>

definition endpoint_labels :: "endpoint option \<Rightarrow> kv list" where
  "endpoint_labels ep =
     (case ep of None \<Rightarrow> [] | Some e \<Rightarrow> map (\<lambda>l. labels_toKV l False) (ep_labels e))"

definition flow_sourceLabels :: "flow \<Rightarrow> kv list" where
  "flow_sourceLabels f = endpoint_labels (hf_source (fl_ref f))"

definition flow_destinationLabels :: "flow \<Rightarrow> kv list" where
  "flow_destinationLabels f = endpoint_labels (hf_destination (fl_ref f))"

definition flow_sourceLabelProps :: "flow \<Rightarrow> labels_props" where
  "flow_sourceLabelProps f = labels_detect (flow_sourceLabels f)"

definition flow_destinationLabelProps :: "flow \<Rightarrow> labels_props" where
  "flow_destinationLabelProps f = labels_detect (flow_destinationLabels f)"

definition flow_hasSource :: "flow \<Rightarrow> bool" where
  "flow_hasSource f \<longleftrightarrow> hf_source (fl_ref f) \<noteq> None"

definition flow_hasDestination :: "flow \<Rightarrow> bool" where
  "flow_hasDestination f \<longleftrightarrow> hf_destination (fl_ref f) \<noteq> None"

definition flow_sourceIdentity :: "flow \<Rightarrow> int option" where
  "flow_sourceIdentity f = map_option ep_identity (hf_source (fl_ref f))"

definition flow_destinationIdentity :: "flow \<Rightarrow> int option" where
  "flow_destinationIdentity f = map_option ep_identity (hf_destination (fl_ref f))"

definition flow_sourcePodName :: "flow \<Rightarrow> string option" where
  "flow_sourcePodName f = map_option ep_podName (hf_source (fl_ref f))"

definition flow_destinationPodName :: "flow \<Rightarrow> string option" where
  "flow_destinationPodName f = map_option ep_podName (hf_destination (fl_ref f))"

definition flow_sourceWorkloads :: "flow \<Rightarrow> workload list" where
  "flow_sourceWorkloads f = (case hf_source (fl_ref f) of None \<Rightarrow> [] | Some e \<Rightarrow> ep_workloads e)"

definition flow_destinationWorkloads :: "flow \<Rightarrow> workload list" where
  "flow_destinationWorkloads f =
     (case hf_destination (fl_ref f) of None \<Rightarrow> [] | Some e \<Rightarrow> ep_workloads e)"

definition flow_sourceNamespace :: "flow \<Rightarrow> string option" where
  "flow_sourceNamespace f =
     (let sourceNs = map_option ep_namespace (hf_source (fl_ref f))
      in if truthy sourceNs then sourceNs
         else labels_findNamespaceInLabels (flow_sourceLabels f) True)"

definition flow_destinationNamespace :: "flow \<Rightarrow> string option" where
  "flow_destinationNamespace f =
     (let destNs = map_option ep_namespace (hf_destination (fl_ref f))
      in if truthy destNs then destNs
         else labels_findNamespaceInLabels (flow_destinationLabels f) True)"

definition flow_sourceIdentityName :: "flow \<Rightarrow> string option" where
  "flow_sourceIdentityName f = labels_findAppNameInLabels (flow_sourceLabels f) True"

definition flow_destinationIdentityName :: "flow \<Rightarrow> string option" where
  "flow_destinationIdentityName f = labels_findAppNameInLabels (flow_destinationLabels f) True"

definition flow_sourceIp :: "flow \<Rightarrow> string option" where
  "flow_sourceIp f = map_option ip_source (hf_ip (fl_ref f))"

definition flow_destinationIp :: "flow \<Rightarrow> string option" where
  "flow_destinationIp f = map_option ip_destination (hf_ip (fl_ref f))"

definition first_name :: "string list \<Rightarrow> string option" where
  "first_name names = (case names of [] \<Rightarrow> None | n # _ \<Rightarrow> Some n)"

definition flow_sourceDns :: "flow \<Rightarrow> string option" where
  "flow_sourceDns f = first_name (hf_sourceNamesList (fl_ref f))"

definition flow_destinationDns :: "flow \<Rightarrow> string option" where
  "flow_destinationDns f = first_name (hf_destinationNamesList (fl_ref f))"

text \<open>The id of the service an endpoint belongs to; an absent endpoint prints as \<open>undefined\<close>.\<close>

definition print_identity :: "int option \<Rightarrow> string" where
  "print_identity n = (case n of None \<Rightarrow> ''undefined'' | Some i \<Rightarrow> int_to_string i)"

definition flow_destinationServiceId :: "flow \<Rightarrow> string" where
  "flow_destinationServiceId f =
     (if \<not> lp_isWorld (flow_destinationLabelProps f) then print_identity (flow_destinationIdentity f)
      else (case flow_destinationDns f of
              Some d \<Rightarrow> d @ ''-receiver'' | None \<Rightarrow> ''world-receiver''))"

definition flow_sourceServiceId :: "flow \<Rightarrow> string" where
  "flow_sourceServiceId f =
     (if \<not> lp_isWorld (flow_sourceLabelProps f) then print_identity (flow_sourceIdentity f)
      else (case flow_sourceDns f of
              Some d \<Rightarrow> d @ ''-sender'' | None \<Rightarrow> ''world-sender''))"

definition flow_sourcePodSelector :: "flow \<Rightarrow> pod_selector" where
  "flow_sourcePodSelector f =
     \<lparr>ps_pod = print_null (flow_sourcePodName f),
      ps_namespace = map_option ep_namespace (hf_source (fl_ref f))\<rparr>"

definition flow_destinationPodSelector :: "flow \<Rightarrow> pod_selector" where
  "flow_destinationPodSelector f =
     \<lparr>ps_pod = print_null (flow_destinationPodName f),
      ps_namespace = map_option ep_namespace (hf_destination (fl_ref f))\<rparr>"

section \<open>Protocols and ports\<close>

definition flow_l4 :: "(layer4 \<Rightarrow> 'a option) \<Rightarrow> flow \<Rightarrow> 'a option" where
  "flow_l4 sel f = Option.bind (hf_l4 (fl_ref f)) sel"

definition flow_l7 :: "(layer7 \<Rightarrow> 'a option) \<Rightarrow> flow \<Rightarrow> 'a option" where
  "flow_l7 sel f = Option.bind (hf_l7 (fl_ref f)) sel"

definition flow_isTcp :: "flow \<Rightarrow> bool" where
  "flow_isTcp f \<longleftrightarrow> flow_l4 l4_tcp f \<noteq> None"

definition flow_isUdp :: "flow \<Rightarrow> bool" where
  "flow_isUdp f \<longleftrightarrow> flow_l4 l4_udp f \<noteq> None"

definition flow_ICMPv4 :: "flow \<Rightarrow> bool" where
  "flow_ICMPv4 f \<longleftrightarrow> flow_l4 l4_icmpv4 f \<noteq> None"

definition flow_ICMPv6 :: "flow \<Rightarrow> bool" where
  "flow_ICMPv6 f \<longleftrightarrow> flow_l4 l4_icmpv6 f \<noteq> None"

definition flow_sourcePort :: "flow \<Rightarrow> int option" where
  "flow_sourcePort f =
     (case flow_l4 l4_tcp f of
        Some t \<Rightarrow> Some (tcp_sourcePort t)
      | None \<Rightarrow> map_option udp_sourcePort (flow_l4 l4_udp f))"

text \<open>A URL port that is not a number gives \<open>NaN\<close> in the code and nothing here.\<close>

definition flow_destinationPort :: "(string \<Rightarrow> parsed_url) \<Rightarrow> flow \<Rightarrow> int option" where
  "flow_destinationPort up f =
     (case flow_l4 l4_tcp f of
        Some t \<Rightarrow> Some (tcp_destinationPort t)
      | None \<Rightarrow>
          (case flow_l4 l4_udp f of
             Some u \<Rightarrow> Some (udp_destinationPort u)
           | None \<Rightarrow>
               (if flow_l7 l7_dns f \<noteq> None then Some 53
                else (case flow_l7 l7_http f of
                        None \<Rightarrow> None
                      | Some h \<Rightarrow>
                          (let p = pu_port (up (http_url h))
                           in if p \<noteq> [] then parse_int p else None)))))"

definition flow_protocol :: "flow \<Rightarrow> ip_protocol option" where
  "flow_protocol f =
     (if flow_isTcp f \<or> flow_l7 l7_kafka f \<noteq> None \<or> flow_l7 l7_http f \<noteq> None then Some IPProtocol_TCP
      else if flow_isUdp f \<or> flow_l7 l7_dns f \<noteq> None then Some IPProtocol_UDP
      else if flow_ICMPv4 f then Some IPProtocol_ICMPv4
      else if flow_ICMPv6 f then Some IPProtocol_ICMPv6
      else None)"

definition flow_protocolStr :: "flow \<Rightarrow> string option" where
  "flow_protocolStr f = map_option protocol_toString (flow_protocol f)"

definition flow_hasL7Info :: "flow \<Rightarrow> bool" where
  "flow_hasL7Info f \<longleftrightarrow> hf_type (fl_ref f) = FlowType_L7"

definition flow_l7Info :: "flow \<Rightarrow> layer7 option" where
  "flow_l7Info f = (if \<not> flow_hasL7Info f then None else hf_l7 (fl_ref f))"

definition flow_isL7Request :: "flow \<Rightarrow> bool" where
  "flow_isL7Request f \<longleftrightarrow> map_option l7_type (flow_l7Info f) = Some L7FlowType_Request"

definition flow_l7Fingerprint :: "(string \<Rightarrow> parsed_url) \<Rightarrow> flow \<Rightarrow> string option" where
  "flow_l7Fingerprint up f =
     (case flow_l7Info f of
        None \<Rightarrow> None
      | Some l7 \<Rightarrow>
          (let direction =
             (case l7_type l7 of L7FlowType_Request \<Rightarrow> ''->'' | L7FlowType_Response \<Rightarrow> ''<-''
              | _ \<Rightarrow> ''??'')
           in Some (direction @ '' '' @ l7_getEndpointId up l7)))"

definition flow_httpStatus :: "flow \<Rightarrow> int option" where
  "flow_httpStatus f = map_option http_code (flow_l7 l7_http f)"

definition flow_http :: "flow \<Rightarrow> http option" where
  "flow_http f = flow_l7 l7_http f"

definition flow_tcpFlags :: "flow \<Rightarrow> tcp_flags option" where
  "flow_tcpFlags f = Option.bind (flow_l4 l4_tcp f) tcp_flags"

definition flow_enabledTcpFlags :: "flow \<Rightarrow> string list" where
  "flow_enabledTcpFlags f = tcpFlags_toArray (flow_tcpFlags f)"

definition flow_joinedTcpFlags :: "flow \<Rightarrow> string" where
  "flow_joinedTcpFlags f = tcpFlags_toString (flow_tcpFlags f)"

section \<open>Identity, time and summary\<close>

definition flow_verdict :: "flow \<Rightarrow> verdict" where
  "flow_verdict f = hf_verdict (fl_ref f)"

definition flow_verdictLabel :: "flow \<Rightarrow> string" where
  "flow_verdictLabel f = verdict_toString (flow_verdict f) False False"

definition flow_dropReason :: "flow \<Rightarrow> string option" where
  "flow_dropReason f = map_of ciliumDropReasonCodes (hf_dropReason (fl_ref f))"

definition flow_ciliumEventSubTypeLabel :: "flow \<Rightarrow> string option" where
  "flow_ciliumEventSubTypeLabel f =
     (case hf_eventType (fl_ref f) of
        None \<Rightarrow> None
      | Some e \<Rightarrow> map_of ciliumEventSubTypesCodes (cet_subType e))"

definition flow_millisecondsTimestamp :: "flow \<Rightarrow> rat" where
  "flow_millisecondsTimestamp f =
     (case hf_time (fl_ref f) of
        None \<Rightarrow> 0
      | Some t \<Rightarrow> js_add (js_mul (seconds t) 1000) (js_div (nanos t) 1000000))"

definition flow_trafficDirectionLabel :: "flow \<Rightarrow> string" where
  "flow_trafficDirectionLabel f =
     (case hf_trafficDirection (fl_ref f) of
        TrafficDirection_Unknown \<Rightarrow> ''unknown''
      | TrafficDirection_Ingress \<Rightarrow> ''ingress''
      | TrafficDirection_Egress \<Rightarrow> ''egress'')"

text \<open>The id: the one given, or the flow's time and node; \<open>now\<close> is the clock's reading.  The source keeps the first id it
  computes; computing it anew differs only for a flow with neither id nor time.\<close>

definition flow_id :: "int \<Rightarrow> flow \<Rightarrow> string" where
  "flow_id now f =
     (if truthy (fl_id f) then the (fl_id f)
      else (let timeStr =
              (case hf_time (fl_ref f) of
                 Some t \<Rightarrow> int_to_string (trunc (seconds t)) @ ''.'' @ int_to_string (trunc (nanos t))
               | None \<Rightarrow> int_to_string now)
            in timeStr @ ''-'' @ hf_nodeName (fl_ref f)))"

definition flow_compare :: "flow \<Rightarrow> flow \<Rightarrow> rat" where
  "flow_compare a b = compareTimes (hf_time (fl_ref a)) (hf_time (fl_ref b))"

definition flow_clone :: "flow \<Rightarrow> flow" where
  "flow_clone f = \<lparr>fl_ref = fl_ref f, fl_id = None\<rparr>"

definition flow_isKubeDnsFlow :: "(string \<Rightarrow> parsed_url) \<Rightarrow> flow \<Rightarrow> bool" where
  "flow_isKubeDnsFlow up f \<longleftrightarrow>
     hf_trafficDirection (fl_ref f) = TrafficDirection_Egress \<and> flow_isUdp f
     \<and> flow_destinationPort up f = Some 53 \<and> lp_isKubeDNS (flow_destinationLabelProps f)"

definition flow_isFqdnFlow :: "flow \<Rightarrow> bool option" where
  "flow_isFqdnFlow f =
     (case hf_destination (fl_ref f) of
        None \<Rightarrow> None
      | Some e \<Rightarrow>
          Some (''reserved:world'' \<in> set (ep_labels e) \<and> hf_destinationNamesList (fl_ref f) \<noteq> []))"

definition flow_isIpFlow :: "flow \<Rightarrow> bool" where
  "flow_isIpFlow f \<longleftrightarrow>
     (let world = (\<lambda>ep. case ep of None \<Rightarrow> False | Some e \<Rightarrow> ''reserved:world'' \<in> set (ep_labels e))
      in case hf_trafficDirection (fl_ref f) of
           TrafficDirection_Egress \<Rightarrow>
             world (hf_destination (fl_ref f)) \<and> truthy (flow_destinationIp f)
         | TrafficDirection_Ingress \<Rightarrow>
             world (hf_source (fl_ref f)) \<and> truthy (flow_sourceIp f)
         | TrafficDirection_Unknown \<Rightarrow> False)"

definition flow_isEncrypted :: "flow \<Rightarrow> bool" where
  "flow_isEncrypted f \<longleftrightarrow> (case hf_ip (fl_ref f) of None \<Rightarrow> False | Some i \<Rightarrow> ip_encrypted i)"

definition flow_authTypeLabel :: "flow \<Rightarrow> string" where
  "flow_authTypeLabel f = auth_toString (Some (hf_authType (fl_ref f)))"

section \<open>Questions of the filters\<close>

definition flow_senderHasLabelArray :: "flow \<Rightarrow> string \<times> string \<Rightarrow> bool" where
  "flow_senderHasLabelArray f label \<longleftrightarrow> labels_findKVByArray (flow_sourceLabels f) label \<noteq> None"

definition flow_receiverHasLabelArray :: "flow \<Rightarrow> string \<times> string \<Rightarrow> bool" where
  "flow_receiverHasLabelArray f label \<longleftrightarrow> labels_findKVByArray (flow_destinationLabels f) label \<noteq> None"

definition flow_senderHasIp :: "flow \<Rightarrow> string \<Rightarrow> bool" where
  "flow_senderHasIp f ip \<longleftrightarrow> flow_sourceIp f = Some ip"

definition flow_receiverHasIp :: "flow \<Rightarrow> string \<Rightarrow> bool" where
  "flow_receiverHasIp f ip \<longleftrightarrow> flow_destinationIp f = Some ip"

definition flow_senderHasDomain :: "flow \<Rightarrow> string \<Rightarrow> bool" where
  "flow_senderHasDomain f domain \<longleftrightarrow> domain \<in> set (hf_sourceNamesList (fl_ref f))"

definition flow_receiverHasDomain :: "flow \<Rightarrow> string \<Rightarrow> bool" where
  "flow_receiverHasDomain f domain \<longleftrightarrow> domain \<in> set (hf_destinationNamesList (fl_ref f))"

definition flow_hasTCPFlag :: "flow \<Rightarrow> string \<Rightarrow> bool" where
  "flow_hasTCPFlag f flag \<longleftrightarrow> flag \<in> set (flow_enabledTcpFlags f)"

text \<open>An identity against a query that is converted to a number.\<close>

definition identity_is :: "int option \<Rightarrow> string \<Rightarrow> bool" where
  "identity_is n query \<longleftrightarrow>
     (case to_number query of
        JNum x \<Rightarrow> (case n of None \<Rightarrow> False | Some i \<Rightarrow> of_int i = x)
      | _ \<Rightarrow> False)"

definition flow_senderHasIdentity :: "flow \<Rightarrow> string \<Rightarrow> bool" where
  "flow_senderHasIdentity f identity \<longleftrightarrow> identity_is (flow_sourceIdentity f) identity"

definition flow_receiverHasIdentity :: "flow \<Rightarrow> string \<Rightarrow> bool" where
  "flow_receiverHasIdentity f identity \<longleftrightarrow> identity_is (flow_destinationIdentity f) identity"

definition flow_senderPodIs :: "flow \<Rightarrow> string \<Rightarrow> bool" where
  "flow_senderPodIs f podName \<longleftrightarrow> flow_sourcePodName f = Some podName"

definition flow_receiverPodIs :: "flow \<Rightarrow> string \<Rightarrow> bool" where
  "flow_receiverPodIs f podName \<longleftrightarrow> flow_destinationPodName f = Some podName"

definition flow_senderHasWorkload :: "flow \<Rightarrow> workload \<Rightarrow> bool" where
  "flow_senderHasWorkload f target \<longleftrightarrow>
     list_ex (\<lambda>wl. workload_equals wl target) (flow_sourceWorkloads f)"

definition flow_receiverHasWorkload :: "flow \<Rightarrow> workload \<Rightarrow> bool" where
  "flow_receiverHasWorkload f target \<longleftrightarrow>
     list_ex (\<lambda>wl. workload_equals wl target) (flow_destinationWorkloads f)"

section \<open>Lemmas\<close>

lemma identity_is_printed [simp]:
  "\<bar>i\<bar> < 2 ^ 53 \<Longrightarrow> identity_is n (int_to_string i) \<longleftrightarrow> n = Some i"
  by (auto simp: identity_is_def to_number_int_to_string split: option.splits)

text \<open>Flows that carry a time are compared consistently; a flow without one compares equal to every
  flow.\<close>

interpretation flow_order: comparator flow_compare "{f. hf_time (fl_ref f) \<noteq> None}"
proof
  show "flow_compare y x < 0"
    if "x \<in> {f. hf_time (fl_ref f) \<noteq> None}" "y \<in> {f. hf_time (fl_ref f) \<noteq> None}"
      "0 < flow_compare x y" for x y
    using that time_order.cmp_swap [of "hf_time (fl_ref x)" "hf_time (fl_ref y)"]
    by (simp add: flow_compare_def)
  show "flow_compare x z \<le> 0"
    if "x \<in> {f. hf_time (fl_ref f) \<noteq> None}" "y \<in> {f. hf_time (fl_ref f) \<noteq> None}"
      "z \<in> {f. hf_time (fl_ref f) \<noteq> None}" "flow_compare x y \<le> 0" "flow_compare y z \<le> 0" for x y z
    using that time_order.cmp_trans [of "hf_time (fl_ref x)" "hf_time (fl_ref y)" "hf_time (fl_ref z)"]
    by (simp add: flow_compare_def)
qed

lemma flow_compare_no_time: "hf_time (fl_ref a) = None \<Longrightarrow> flow_compare a b = 0 \<and> flow_compare b a = 0"
  by (simp add: flow_compare_def)

lemma flow_id_clone: "\<not> truthy (fl_id f) \<Longrightarrow> flow_id now (flow_clone f) = flow_id now f"
  by (simp add: flow_id_def flow_clone_def)

lemma flow_hasTCPFlag_iff:
  "flow_hasTCPFlag f flag \<longleftrightarrow>
     (\<exists>flags. flow_tcpFlags f = Some flags \<and> (flag, True) \<in> set (tcp_flag_entries flags))"
  by (simp add: flow_hasTCPFlag_def flow_enabledTcpFlags_def set_tcpFlags)

end
