(* ===== verification/Connections.thy ===== *)
theory Connections
  imports Flows
begin

text \<open>
  \<open>src/domain/link.ts\<close>, \<open>src/domain/interactions/endpoints.ts\<close>, \<open>new-connections.ts\<close> and
  \<open>connections.ts\<close>: links between services, the endpoints they lead to, and the nested maps that
  index endpoints by sender and receiver.

  The interface \<open>Endpoint\<close> has an optional \<open>update\<close>; the maps are generic in it.  The locale
  \<open>endpoint\<close> states what the maps rely on, and the endpoint classes interpret it (a \<open>Link\<close> has no
  \<open>update\<close>: the old object stays).  Endpoints are values here: two maps that share an endpoint object
  in the program each hold its value at the time of insertion.
\<close>

section \<open>Links\<close>

record link =
  lk_ref :: hubble_link
  lk_verdicts :: "verdict list"
  lk_authTypes :: "auth_type list"
  lk_isEncrypted :: bool

text \<open>The current values of the counters of the link objects, \<open>(flowAmount, bytesTransfered)\<close>.\<close>

type_synonym counters = "nat \<Rightarrow> int \<times> int"

definition link_fromHubbleLink :: "hubble_link \<Rightarrow> link" where
  "link_fromHubbleLink hl =
     \<lparr>lk_ref = hl, lk_verdicts = [hl_verdict hl], lk_authTypes = [hl_authType hl],
      lk_isEncrypted = hl_isEncrypted hl\<rparr>"

definition link_clone :: "link \<Rightarrow> link" where
  "link_clone l =
     (link_fromHubbleLink (lk_ref l))\<lparr>lk_verdicts := lk_verdicts l, lk_authTypes := lk_authTypes l\<rparr>"

text \<open>\<open>updateWithHubbleLink\<close>: the clone shares the object under \<open>ref\<close>, whose counters are assigned.\<close>

definition link_updateWithHubbleLink :: "link \<Rightarrow> hubble_link \<Rightarrow> counters \<Rightarrow> link \<times> counters" where
  "link_updateWithHubbleLink l hl store =
     (let updated = link_clone l;
          u = updated\<lparr>lk_verdicts := set_add (hl_verdict hl) (lk_verdicts updated),
                      lk_authTypes := set_add (hl_authType hl) (lk_authTypes updated)\<rparr>;
          r = hl_ref (lk_ref u); h = hl_ref hl;
          store1 = store(r := (fst (store r), snd (store r) + snd (store h)));
          store2 = store1(r := (fst (store1 r) + fst (store1 h), snd (store1 r)))
      in (u, store2))"

definition link_id :: "link \<Rightarrow> string" where
  "link_id l = hl_id (lk_ref l)"

definition link_sourceId :: "link \<Rightarrow> string" where
  "link_sourceId l = hl_sourceId (lk_ref l)"

definition link_destinationId :: "link \<Rightarrow> string" where
  "link_destinationId l = hl_destinationId (lk_ref l)"

definition link_ipProtocol :: "link \<Rightarrow> ip_protocol" where
  "link_ipProtocol l = hl_ipProtocol (lk_ref l)"

definition link_destinationPort :: "link \<Rightarrow> int" where
  "link_destinationPort l = hl_destinationPort (lk_ref l)"

definition link_isDNSRequest :: "link \<Rightarrow> bool" where
  "link_isDNSRequest l \<longleftrightarrow> link_ipProtocol l = IPProtocol_UDP \<and> link_destinationPort l = 53"

definition link_throughput :: "counters \<Rightarrow> link \<Rightarrow> link_throughput" where
  "link_throughput store l =
     \<lparr>lt_flowAmount = fst (store (hl_ref (lk_ref l))), lt_latency = hl_latency (lk_ref l),
      lt_bytesTransfered = snd (store (hl_ref (lk_ref l)))\<rparr>"

section \<open>Endpoints\<close>

text \<open>\<open>getIpWeight\<close> of \<open>misc.ts\<close>; a shift counts its distance modulo 32 and works on 32-bit integers.\<close>

definition shl32 :: "int \<Rightarrow> int \<Rightarrow> int" where
  "shl32 n k = sint (push_bit (nat (k mod 32)) (word_of_int n :: 32 word))"

fun ip_weight_from :: "int \<Rightarrow> string list \<Rightarrow> int \<Rightarrow> int" where
  "ip_weight_from idx [] acc = acc"
| "ip_weight_from idx (octet # octets) acc =
     ip_weight_from (idx + 1) octets
       (case parse_int octet of None \<Rightarrow> acc | Some n \<Rightarrow> acc + shl32 n (8 * (3 - idx)))"

definition getIpWeight :: "string option \<Rightarrow> int" where
  "getIpWeight ip = (if \<not> truthy ip then 0 else ip_weight_from 0 (split_on (CHR ''.'') (the ip)) 0)"

record ip_endpoint =
  ipe_ip :: string
  ipe_ports :: "int list"

definition ipEndpoint_id :: "ip_endpoint \<Rightarrow> string" where
  "ipEndpoint_id e =
     ipe_ip e @ (if ipe_ports e = [] then [] else '':'' @ join_with '','' (map int_to_string (ipe_ports e)))"

definition ipEndpoint_ipWeight :: "ip_endpoint \<Rightarrow> int" where
  "ipEndpoint_ipWeight e = getIpWeight (Some (ipe_ip e))"

definition ipEndpoint_addPort :: "int \<Rightarrow> ip_endpoint \<Rightarrow> bool \<times> ip_endpoint" where
  "ipEndpoint_addPort port e =
     (port \<notin> set (ipe_ports e), e\<lparr>ipe_ports := set_add port (ipe_ports e)\<rparr>)"

definition ipEndpoint_removePort :: "int \<Rightarrow> ip_endpoint \<Rightarrow> bool \<times> ip_endpoint" where
  "ipEndpoint_removePort port e =
     (port \<in> set (ipe_ports e), e\<lparr>ipe_ports := filter (\<lambda>p. p \<noteq> port) (ipe_ports e)\<rparr>)"

definition ipEndpoint_update :: "ip_endpoint \<Rightarrow> ip_endpoint \<Rightarrow> ip_endpoint" where
  "ipEndpoint_update e new = e\<lparr>ipe_ports := set_add_all (ipe_ports new) (ipe_ports e)\<rparr>"

record l7_endpoint =
  l7e_l7 :: layer7
  l7e_verdicts :: "verdict list"

definition l7Endpoint_generateId :: "http_verb option \<Rightarrow> string \<Rightarrow> string" where
  "l7Endpoint_generateId method pathname = httpIdFromParts method pathname"

definition l7Endpoint_new :: "layer7 \<Rightarrow> l7_endpoint" where
  "l7Endpoint_new l7 = \<lparr>l7e_l7 = l7, l7e_verdicts = []\<rparr>"

definition l7Endpoint_update :: "l7_endpoint \<Rightarrow> l7_endpoint \<Rightarrow> l7_endpoint" where
  "l7Endpoint_update e new = e\<lparr>l7e_verdicts := set_add_all (l7e_verdicts new) (l7e_verdicts e)\<rparr>"

definition l7Endpoint_addVerdict :: "verdict \<Rightarrow> l7_endpoint \<Rightarrow> l7_endpoint" where
  "l7Endpoint_addVerdict v e = e\<lparr>l7e_verdicts := set_add v (l7e_verdicts e)\<rparr>"

definition l7Endpoint_id :: "(string \<Rightarrow> parsed_url) \<Rightarrow> l7_endpoint \<Rightarrow> string" where
  "l7Endpoint_id up e = l7_getEndpointId up (l7e_l7 e)"

record service_endpoint =
  se_serviceId :: string
  se_port :: int
  se_l4Protocol :: ip_protocol
  se_l7Protocol :: "l7_kind option"
  se_verdicts :: "verdict list"

definition serviceEndpoint_generateId :: "string \<Rightarrow> string \<Rightarrow> string" where
  "serviceEndpoint_generateId serviceId port = ''ap-'' @ serviceId @ ''-'' @ port"

definition serviceEndpoint_new :: "string \<Rightarrow> int \<Rightarrow> ip_protocol \<Rightarrow> verdict list \<Rightarrow> service_endpoint" where
  "serviceEndpoint_new serviceId port protocol verdicts =
     \<lparr>se_serviceId = serviceId, se_port = port, se_l4Protocol = protocol, se_l7Protocol = None,
      se_verdicts = set_of_list verdicts\<rparr>"

text \<open>\<open>fromLink\<close> takes a \<open>HubbleLink\<close> or a \<open>Link\<close>.\<close>

definition serviceEndpoint_fromHubbleLink :: "hubble_link \<Rightarrow> service_endpoint" where
  "serviceEndpoint_fromHubbleLink hl =
     serviceEndpoint_new (hl_destinationId hl) (hl_destinationPort hl) (hl_ipProtocol hl) [hl_verdict hl]"

definition serviceEndpoint_fromLink :: "link \<Rightarrow> service_endpoint" where
  "serviceEndpoint_fromLink l =
     serviceEndpoint_new (link_destinationId l) (link_destinationPort l) (link_ipProtocol l) (lk_verdicts l)"

definition serviceEndpoint_id :: "service_endpoint \<Rightarrow> string" where
  "serviceEndpoint_id e = serviceEndpoint_generateId (se_serviceId e) (int_to_string (se_port e))"

definition serviceEndpoint_update :: "service_endpoint \<Rightarrow> service_endpoint \<Rightarrow> service_endpoint" where
  "serviceEndpoint_update e new =
     e\<lparr>se_l7Protocol :=
         (if se_l7Protocol new \<noteq> None \<and> se_l7Protocol e = None then se_l7Protocol new
          else se_l7Protocol e),
       se_verdicts := set_add_all (se_verdicts new) (se_verdicts e)\<rparr>"

definition serviceEndpoint_accumulateL7Protocol :: "l7_kind option \<Rightarrow> service_endpoint \<Rightarrow> service_endpoint" where
  "serviceEndpoint_accumulateL7Protocol l7Protocol e =
     (if se_l7Protocol e \<noteq> None \<and> l7Protocol = None then e else e\<lparr>se_l7Protocol := l7Protocol\<rparr>)"

definition serviceEndpoint_clone :: "service_endpoint \<Rightarrow> service_endpoint" where
  "serviceEndpoint_clone e =
     serviceEndpoint_accumulateL7Protocol (se_l7Protocol e)
       (serviceEndpoint_new (se_serviceId e) (se_port e) (se_l4Protocol e) [])"

section \<open>Connections\<close>

text \<open>\<open>PartialConnections\<close>: receiver to endpoint id to endpoint; \<open>Connections\<close>: sender to those.\<close>

type_synonym 'e endpoints = "(string, 'e) js_map"
type_synonym 'e partial = "(string, 'e endpoints) js_map"
type_synonym 'e connections = "(string, 'e partial) js_map"

definition get_or_empty :: "('k, ('a \<times> 'b) list) js_map \<Rightarrow> 'k \<Rightarrow> ('a \<times> 'b) list" where
  "get_or_empty m k = (case map_get m k of None \<Rightarrow> [] | Some x \<Rightarrow> x)"

definition partial_upsert ::
  "('e \<Rightarrow> 'e \<Rightarrow> 'e) \<Rightarrow> string \<Rightarrow> string \<Rightarrow> 'e \<Rightarrow> 'e partial \<Rightarrow> 'e partial \<times> bool" where
  "partial_upsert upd rid eid ep p =
     (let m = (if map_has p rid then p else map_set rid [] p);
          toReceiver = get_or_empty m rid
      in case map_get toReceiver eid of
           None \<Rightarrow> (map_set rid (map_set eid ep toReceiver) m, True)
         | Some old \<Rightarrow> (map_set rid (map_set eid (upd old ep) toReceiver) m, False))"

definition partial_upsertMap ::
  "('e \<Rightarrow> 'e \<Rightarrow> 'e) \<Rightarrow> string \<Rightarrow> 'e endpoints \<Rightarrow> 'e partial \<Rightarrow> 'e partial" where
  "partial_upsertMap upd rid incomings p =
     (if \<not> map_has p rid then map_set rid incomings p
      else map_set rid
             (fold (\<lambda>(epId, ep) acc.
                case map_get acc epId of
                  None \<Rightarrow> map_set epId ep acc
                | Some old \<Rightarrow> map_set epId (upd old ep) acc) incomings (get_or_empty p rid)) p)"

definition partial_has :: "'e partial \<Rightarrow> string \<Rightarrow> string option \<Rightarrow> bool" where
  "partial_has p rid eid =
     (case eid of
        None \<Rightarrow> map_has p rid
      | Some e \<Rightarrow> (case map_get p rid of None \<Rightarrow> False | Some m \<Rightarrow> map_has m e))"

definition partial_getInversed :: "('e \<Rightarrow> 'e \<Rightarrow> 'e) \<Rightarrow> 'e partial \<Rightarrow> 'e partial" where
  "partial_getInversed upd p =
     fold (\<lambda>(senderId, m) acc.
       fold (\<lambda>(receiverId, ep) acc. fst (partial_upsert upd receiverId senderId ep acc)) m acc) p []"

definition partial_endpointMap :: "'e partial \<Rightarrow> 'e endpoints" where
  "partial_endpointMap p =
     fold (\<lambda>(rid, endpoints) m. fold (\<lambda>(key, ep) m. map_set key ep m) endpoints m) p []"

definition conn_upsert ::
  "('e \<Rightarrow> 'e \<Rightarrow> 'e) \<Rightarrow> string \<Rightarrow> string \<Rightarrow> string \<Rightarrow> 'e \<Rightarrow> 'e connections \<Rightarrow> 'e connections \<times> bool" where
  "conn_upsert upd sid rid eid ep c =
     (let m = (if map_has c sid then c else map_set sid [] c);
          (p, isNew) = partial_upsert upd rid eid ep (get_or_empty m sid)
      in (map_set sid p m, isNew))"

definition conn_upsertEndpoints ::
  "('e \<Rightarrow> 'e \<Rightarrow> 'e) \<Rightarrow> string \<Rightarrow> string \<Rightarrow> 'e endpoints \<Rightarrow> 'e connections \<Rightarrow> 'e connections" where
  "conn_upsertEndpoints upd sid rid eps c =
     (let m = (if map_has c sid then c else map_set sid [] c)
      in map_set sid (partial_upsertMap upd rid eps (get_or_empty m sid)) m)"

definition conn_getInversed :: "('e \<Rightarrow> 'e \<Rightarrow> 'e) \<Rightarrow> 'e connections \<Rightarrow> 'e connections" where
  "conn_getInversed upd c =
     fold (\<lambda>(senderId, partial) acc.
       fold (\<lambda>(receiverId, endpoints) acc.
         fold (\<lambda>(endpointId, ep) acc. fst (conn_upsert upd receiverId senderId endpointId ep acc))
           endpoints acc) partial acc) c []"

definition conn_endpointMap :: "'e connections \<Rightarrow> 'e endpoints" where
  "conn_endpointMap c =
     fold (\<lambda>(sid, p) m. fold (\<lambda>(key, ep) m. map_set key ep m) (partial_endpointMap p) m) c []"

definition conn_endpointList :: "'e connections \<Rightarrow> 'e list" where
  "conn_endpointList c = map_values (conn_endpointMap c)"

text \<open>\<open>GroupedPartialConnections\<close>: receiver to port to kind to endpoint id to endpoint.\<close>

type_synonym 'e grouped = "(string, 'e connections) js_map"

definition grouped_upsert ::
  "('e \<Rightarrow> 'e \<Rightarrow> 'e) \<Rightarrow> string \<Rightarrow> string \<Rightarrow> string \<Rightarrow> string \<Rightarrow> 'e \<Rightarrow> 'e grouped \<Rightarrow> 'e grouped \<times> bool" where
  "grouped_upsert upd rid port kind eid ep g =
     (let m = (if map_has g rid then g else map_set rid [] g);
          (c, isNew) = conn_upsert upd port kind eid ep (get_or_empty m rid)
      in (map_set rid c m, isNew))"

definition grouped_ofKind :: "('e \<Rightarrow> 'e \<Rightarrow> 'e) \<Rightarrow> string \<Rightarrow> 'e grouped \<Rightarrow> 'e connections" where
  "grouped_ofKind upd kind g =
     fold (\<lambda>(receiverId, ports) acc.
       fold (\<lambda>(port, endpointKinds) acc.
         case map_get endpointKinds kind of
           None \<Rightarrow> acc
         | Some endpoints \<Rightarrow> conn_upsertEndpoints upd receiverId port endpoints acc) ports acc) g []"

text \<open>\<open>LinkConnections\<close>: links by sender, receiver and access point, and the same inverted.\<close>

definition keep_old :: "'e \<Rightarrow> 'e \<Rightarrow> 'e" where
  "keep_old old new = old"

record link_connections =
  lc_outgoings :: "link connections"
  lc_incomings :: "link connections"

definition link_apId :: "link \<Rightarrow> string" where
  "link_apId l = serviceEndpoint_generateId (link_destinationId l) (int_to_string (link_destinationPort l))"

definition linkConnections_new :: "link connections \<Rightarrow> link_connections" where
  "linkConnections_new outgoings =
     \<lparr>lc_outgoings = outgoings, lc_incomings = conn_getInversed keep_old outgoings\<rparr>"

definition linkConnections_buildFromLinks :: "link list \<Rightarrow> link_connections" where
  "linkConnections_buildFromLinks links =
     linkConnections_new
       (fold (\<lambda>l c. fst (conn_upsert keep_old (link_sourceId l) (link_destinationId l) (link_apId l) l c))
         links [])"

definition linkConnections_linksList :: "link_connections \<Rightarrow> link list" where
  "linkConnections_linksList lc = conn_endpointList (lc_outgoings lc)"

section \<open>The interface of endpoints\<close>

text \<open>\<open>update\<close> with itself or twice with the same endpoint changes nothing more.\<close>

locale endpoint =
  fixes upd :: "'e \<Rightarrow> 'e \<Rightarrow> 'e"
  assumes upd_self: "upd a a = a" and upd_again: "upd (upd a b) b = upd a b"

definition conn_lookup :: "'e connections \<Rightarrow> string \<Rightarrow> string \<Rightarrow> string \<Rightarrow> 'e option" where
  "conn_lookup c sid rid eid = map_get (get_or_empty (get_or_empty c sid) rid) eid"

lemma get_or_empty_set [simp]:
  "get_or_empty (map_set k v m) k' = (if k' = k then v else get_or_empty m k')"
  by (simp add: get_or_empty_def)

lemma get_or_empty_none: "map_get m k = None \<Longrightarrow> get_or_empty m k = []"
  by (simp add: get_or_empty_def)

lemma partial_upsert_get:
  "map_get (get_or_empty (fst (partial_upsert upd rid eid ep p)) rid') eid' =
     (if rid' = rid \<and> eid' = eid
      then Some (case map_get (get_or_empty p rid) eid of None \<Rightarrow> ep | Some old \<Rightarrow> upd old ep)
      else map_get (get_or_empty p rid') eid')"
  by (auto simp: partial_upsert_def Let_def get_or_empty_none split: option.splits)

lemma partial_upsert_isNew:
  "snd (partial_upsert upd rid eid ep p) \<longleftrightarrow> map_get (get_or_empty p rid) eid = None"
  by (auto simp: partial_upsert_def Let_def get_or_empty_none split: option.splits)

lemma conn_lookup_Nil [simp]: "conn_lookup [] s r e = None"
  by (simp add: conn_lookup_def get_or_empty_def)

lemma get_or_empty_ensure [simp]:
  "get_or_empty (if map_has m k then m else map_set k [] m) k' = get_or_empty m k'"
  by (auto simp: get_or_empty_none)

lemma conn_upsert_eq:
  "conn_upsert upd sid rid eid ep c =
     (map_set sid (fst (partial_upsert upd rid eid ep (get_or_empty c sid)))
        (if map_has c sid then c else map_set sid [] c),
      snd (partial_upsert upd rid eid ep (get_or_empty c sid)))"
  unfolding conn_upsert_def Let_def get_or_empty_ensure by (simp add: case_prod_beta')

lemma conn_lookup_upsert:
  "conn_lookup (fst (conn_upsert upd sid rid eid ep c)) sid' rid' eid' =
     (if (sid', rid', eid') = (sid, rid, eid)
      then Some (case conn_lookup c sid rid eid of None \<Rightarrow> ep | Some old \<Rightarrow> upd old ep)
      else conn_lookup c sid' rid' eid')"
  unfolding conn_lookup_def conn_upsert_eq fst_conv get_or_empty_set get_or_empty_ensure
  by (simp add: partial_upsert_get)

lemma conn_upsert_isNew:
  "snd (conn_upsert upd sid rid eid ep c) \<longleftrightarrow> conn_lookup c sid rid eid = None"
  by (simp add: conn_upsert_eq conn_lookup_def partial_upsert_isNew)

context endpoint
begin

lemma upsert_again:
  "conn_lookup (fst (conn_upsert upd s r e ep (fst (conn_upsert upd s r e ep c)))) s' r' e' =
     conn_lookup (fst (conn_upsert upd s r e ep c)) s' r' e'"
  by (simp add: conn_lookup_upsert upd_self upd_again split: option.split)

lemma upsert_not_new_again: "\<not> snd (conn_upsert upd s r e ep (fst (conn_upsert upd s r e ep c)))"
  by (simp add: conn_upsert_isNew conn_lookup_upsert)

end

interpretation link_endpoint: endpoint keep_old
  by unfold_locales (simp_all add: keep_old_def)

interpretation ip_endpoint: endpoint ipEndpoint_update
  by unfold_locales (simp_all add: ipEndpoint_update_def set_add_all_absorb)

interpretation l7_endpoint: endpoint l7Endpoint_update
  by unfold_locales (simp_all add: l7Endpoint_update_def set_add_all_absorb)

interpretation service_endpoint: endpoint serviceEndpoint_update
  by unfold_locales (auto simp: serviceEndpoint_update_def set_add_all_absorb)

section \<open>Nested maps as one map\<close>

definition flat :: "('v \<Rightarrow> ('k2 \<times> 'x) list) \<Rightarrow> ('k1 \<times> 'v) list \<Rightarrow> (('k1 \<times> 'k2) \<times> 'x) list" where
  "flat g m = concat (map (\<lambda>(k, v). map (\<lambda>(k', x). ((k, k'), x)) (g v)) m)"

lemma map_of_tagged: "map_of (map (\<lambda>(k', x). ((k, k'), x)) l) (k0, k1) = (if k0 = k then map_of l k1 else None)"
  by (induction l) auto

lemma map_of_flat:
  "wf_map m \<Longrightarrow> map_of (flat g m) (k, k') = (case map_of m k of None \<Rightarrow> None | Some v \<Rightarrow> map_of (g v) k')"
proof (induction m)
  case Nil
  then show ?case by (simp add: flat_def)
next
  case (Cons kv m)
  obtain k1 v1 where kv: "kv = (k1, v1)" by (cases kv)
  have tail: "map_of m k1 = None" using Cons.prems by (simp add: kv map_of_eq_None_iff)
  have "flat g (kv # m) = map (\<lambda>(k', x). ((k1, k'), x)) (g v1) @ flat g m" by (simp add: flat_def kv)
  then have "map_of (flat g (kv # m)) (k, k') =
      (case map_of (flat g m) (k, k') of
         None \<Rightarrow> (if k = k1 then map_of (g v1) k' else None) | Some x \<Rightarrow>
           (case (if k = k1 then map_of (g v1) k' else None) of None \<Rightarrow> Some x | Some y \<Rightarrow> Some y))"
    by (simp add: map_of_tagged map_add_def split: option.split)
  moreover have "map_of (flat g m) (k, k') =
      (case map_of m k of None \<Rightarrow> None | Some v \<Rightarrow> map_of (g v) k')"
    using Cons.prems by (intro Cons.IH) (simp add: kv)
  ultimately show ?case
    using tail by (cases "k = k1") (auto simp: kv split: option.splits)
qed

lemma fold_flat:
  "fold f (flat g m) a = fold (\<lambda>(k, v) a. fold (\<lambda>(k', x) a. f ((k, k'), x) a) (g v) a) m a"
proof (induction m arbitrary: a)
  case Nil
  then show ?case by (simp add: flat_def)
next
  case (Cons kv m)
  obtain k v where kv: "kv = (k, v)" by (cases kv)
  have "flat g (kv # m) = map (\<lambda>(k', x). ((k, k'), x)) (g v) @ flat g m" by (simp add: flat_def kv)
  then show ?case by (simp add: kv Cons fold_map comp_def case_prod_beta')
qed

lemma distinct_flat:
  assumes "wf_map m" "\<And>k v. (k, v) \<in> set m \<Longrightarrow> wf_map (g v)"
  shows "wf_map (flat g m)"
  using assms
proof (induction m)
  case Nil
  then show ?case by (simp add: flat_def)
next
  case (Cons kv m)
  obtain k v where kv: "kv = (k, v)" by (cases kv)
  have f: "flat g (kv # m) = map (\<lambda>(k', x). ((k, k'), x)) (g v) @ flat g m" by (simp add: flat_def kv)
  have h: "map fst (map (\<lambda>(k', x). ((k, k'), x)) (g v)) = map (Pair k) (map fst (g v))"
    by (simp add: case_prod_beta')
  have "wf_map (g v)" using Cons.prems(2) [of k v] by (simp add: kv)
  then have "distinct (map (Pair k) (map fst (g v)))" by (simp add: distinct_map inj_on_def)
  moreover have "wf_map (flat g m)" using Cons.prems by (intro Cons.IH) (auto simp: kv)
  moreover have "set (map (Pair k) (map fst (g v))) \<inter> set (map fst (flat g m)) = {}"
    using Cons.prems(1) by (auto simp: kv flat_def image_iff)
  ultimately show ?case unfolding f map_append h distinct_append by blast
qed

definition conn_entries :: "'e connections \<Rightarrow> ((string \<times> string \<times> string) \<times> 'e) list" where
  "conn_entries c = flat (flat (\<lambda>m. m)) c"

text \<open>All three levels are maps.\<close>

definition wf_partial :: "'e partial \<Rightarrow> bool" where
  "wf_partial p \<longleftrightarrow> wf_map p \<and> (\<forall>(r, es) \<in> set p. wf_map es)"

definition wf_conn :: "'e connections \<Rightarrow> bool" where
  "wf_conn c \<longleftrightarrow> wf_map c \<and> (\<forall>(s, p) \<in> set c. wf_partial p)"

lemma wf_get_or_empty:
  "\<forall>(k, v) \<in> set m. P v \<Longrightarrow> P [] \<Longrightarrow> P (get_or_empty m k)"
  by (auto simp: get_or_empty_def dest: map_of_SomeD split: option.split)

lemma map_set_elem: "(k, v) \<in> set (map_set k' v' m) \<Longrightarrow> v = v' \<or> (k, v) \<in> set m"
  by (induction m) (auto split: if_splits)

lemma wf_partial_Nil [simp]: "wf_partial []" and wf_conn_Nil [simp]: "wf_conn []"
  by (simp_all add: wf_partial_def wf_conn_def)

lemma wf_partial_set: "wf_partial p \<Longrightarrow> wf_map es \<Longrightarrow> wf_partial (map_set r es p)"
  unfolding wf_partial_def by (auto dest!: map_set_elem)

lemma wf_conn_set: "wf_conn c \<Longrightarrow> wf_partial p \<Longrightarrow> wf_conn (map_set s p c)"
  unfolding wf_conn_def by (auto dest!: map_set_elem)

lemma wf_partial_get: "wf_partial p \<Longrightarrow> wf_map (get_or_empty p r)"
  using wf_get_or_empty [of p "\<lambda>es. wf_map es" r] by (simp add: wf_partial_def)

lemma wf_conn_get: "wf_conn c \<Longrightarrow> wf_partial (get_or_empty c s)"
  using wf_get_or_empty [of c wf_partial s] by (simp add: wf_conn_def)

lemma wf_partial_upsert: "wf_partial p \<Longrightarrow> wf_partial (fst (partial_upsert upd r e ep p))"
  by (auto simp: partial_upsert_def Let_def wf_partial_set wf_partial_get split: option.split)

lemma wf_conn_upsert:
  assumes "wf_conn c"
  shows "wf_conn (fst (conn_upsert upd s r e ep c))"
proof -
  have "wf_conn (if map_has c s then c else map_set s [] c)"
    using assms by (simp add: wf_conn_set)
  moreover have "wf_partial (fst (partial_upsert upd r e ep (get_or_empty c s)))"
    using assms by (simp add: wf_partial_upsert wf_conn_get)
  ultimately show ?thesis unfolding conn_upsert_eq fst_conv by (rule wf_conn_set)
qed

lemma conn_entries_lookup:
  assumes "wf_conn c"
  shows "map_of (conn_entries c) (s, r, e) = conn_lookup c s r e"
proof -
  have "wf_map c" using assms by (simp add: wf_conn_def)
  then have "map_of (conn_entries c) (s, r, e) =
      (case map_of c s of None \<Rightarrow> None | Some p \<Rightarrow> map_of (flat (\<lambda>m. m) p) (r, e))"
    unfolding conn_entries_def by (rule map_of_flat)
  also have "\<dots> = conn_lookup c s r e"
  proof (cases "map_of c s")
    case (Some p)
    then have "wf_partial p" using assms by (auto simp: wf_conn_def dest: map_of_SomeD)
    then have "map_of (flat (\<lambda>m. m) p) (r, e) = (case map_of p r of None \<Rightarrow> None | Some v \<Rightarrow> map_of v e)"
      by (intro map_of_flat) (simp add: wf_partial_def)
    with Some show ?thesis by (simp add: conn_lookup_def get_or_empty_def split: option.split)
  qed (simp add: conn_lookup_def get_or_empty_def)
  finally show ?thesis .
qed

lemma wf_conn_entries: "wf_conn c \<Longrightarrow> wf_map (conn_entries c)"
  unfolding conn_entries_def wf_conn_def wf_partial_def by (auto intro!: distinct_flat)

section \<open>Inversion\<close>

definition inverse_step ::
  "('e \<Rightarrow> 'e \<Rightarrow> 'e) \<Rightarrow> (string \<times> string \<times> string) \<times> 'e \<Rightarrow> 'e connections \<Rightarrow> 'e connections" where
  "inverse_step upd x acc =
     (case x of ((s, r, e), ep) \<Rightarrow> fst (conn_upsert upd r s e ep acc))"

lemma inverse_step_simp [simp]:
  "inverse_step upd ((s, r, e), ep) = (\<lambda>acc. fst (conn_upsert upd r s e ep acc))"
  by (rule ext) (simp add: inverse_step_def)

lemma conn_getInversed_entries: "conn_getInversed upd c = fold (inverse_step upd) (conn_entries c) []"
  unfolding conn_entries_def fold_flat conn_getInversed_def
  by (simp add: case_prod_beta' fold_flat)

lemma inverse_fold_lookup:
  "wf_map xs \<Longrightarrow> (\<And>s r e ep. ((s, r, e), ep) \<in> set xs \<Longrightarrow> conn_lookup acc r s e = None) \<Longrightarrow>
   conn_lookup (fold (inverse_step upd) xs acc) r s e =
     (case map_of xs (s, r, e) of Some ep \<Rightarrow> Some ep | None \<Rightarrow> conn_lookup acc r s e)"
proof (induction xs arbitrary: acc)
  case (Cons x xs)
  obtain s1 r1 e1 ep1 where x: "x = ((s1, r1, e1), ep1)" by (metis prod.exhaust)
  let ?acc = "fst (conn_upsert upd r1 s1 e1 ep1 acc)"
  have new: "conn_lookup acc r1 s1 e1 = None" using Cons.prems(2) [of s1 r1 e1 ep1] by (simp add: x)
  have "conn_lookup (fold (inverse_step upd) xs ?acc) r s e =
      (case map_of xs (s, r, e) of Some ep \<Rightarrow> Some ep | None \<Rightarrow> conn_lookup ?acc r s e)"
  proof (rule Cons.IH)
    show "wf_map xs" using Cons.prems(1) by simp
    fix s r e ep assume in_xs: "((s, r, e), ep) \<in> set xs"
    then have "(s, r, e) \<noteq> (s1, r1, e1)" using Cons.prems(1) by (force simp: x)
    moreover have "conn_lookup acc r s e = None" using Cons.prems(2) [of s r e ep] in_xs by simp
    ultimately show "conn_lookup ?acc r s e = None" by (auto simp: conn_lookup_upsert)
  qed
  moreover have "map_of xs (s1, r1, e1) = None" using Cons.prems(1) by (simp add: x map_of_eq_None_iff)
  ultimately show ?case
    by (auto simp: x conn_lookup_upsert new split: option.split)
qed simp

lemma conn_lookup_inversed:
  assumes "wf_conn c"
  shows "conn_lookup (conn_getInversed upd c) r s e = conn_lookup c s r e"
proof -
  have "conn_lookup (fold (inverse_step upd) (conn_entries c) []) r s e =
      (case map_of (conn_entries c) (s, r, e) of Some ep \<Rightarrow> Some ep | None \<Rightarrow> conn_lookup [] r s e)"
    using wf_conn_entries [OF assms] by (intro inverse_fold_lookup) (simp_all add: conn_lookup_def get_or_empty_def)
  then show ?thesis
    by (simp add: conn_getInversed_entries conn_entries_lookup [OF assms] conn_lookup_def
        get_or_empty_def split: option.split)
qed

lemma wf_conn_inversed: "wf_conn (conn_getInversed upd c)"
proof -
  have "wf_conn acc \<Longrightarrow> wf_conn (fold (inverse_step upd) xs acc)" for xs and acc :: "'a connections"
    by (induction xs arbitrary: acc) (auto simp: wf_conn_upsert)
  then show ?thesis by (simp add: conn_getInversed_entries)
qed

section \<open>Connections of links\<close>

definition link_key :: "link \<Rightarrow> string \<times> string \<times> string" where
  "link_key l = (link_sourceId l, link_destinationId l, link_apId l)"

definition build_outgoings :: "link list \<Rightarrow> link connections \<Rightarrow> link connections" where
  "build_outgoings links c =
     fold (\<lambda>l c. fst (conn_upsert keep_old (link_sourceId l) (link_destinationId l) (link_apId l) l c)) links c"

lemma build_outgoings_simps [simp]:
  "build_outgoings [] c = c"
  "build_outgoings (l # links) c =
     build_outgoings links
       (fst (conn_upsert keep_old (link_sourceId l) (link_destinationId l) (link_apId l) l c))"
  by (simp_all add: build_outgoings_def)

lemma lc_outgoings_build [simp]:
  "lc_outgoings (linkConnections_buildFromLinks links) = build_outgoings links []"
  "lc_incomings (linkConnections_buildFromLinks links) = conn_getInversed keep_old (build_outgoings links [])"
  by (simp_all add: linkConnections_buildFromLinks_def linkConnections_new_def build_outgoings_def)

lemma wf_build_outgoings: "wf_conn c \<Longrightarrow> wf_conn (build_outgoings links c)"
  by (induction links arbitrary: c) (simp_all add: wf_conn_upsert)

lemma build_outgoings_lookup:
  "conn_lookup (build_outgoings links c) s r e =
     (case conn_lookup c s r e of
        Some l \<Rightarrow> Some l | None \<Rightarrow> find (\<lambda>l. link_key l = (s, r, e)) links)"
proof (induction links arbitrary: c)
  case (Cons l links)
  show ?case
    unfolding build_outgoings_simps Cons.IH conn_lookup_upsert
    by (auto simp: link_key_def keep_old_def split: option.splits)
qed (simp split: option.split)

lemma build_lookup:
  "conn_lookup (lc_outgoings (linkConnections_buildFromLinks links)) s r e =
     find (\<lambda>l. link_key l = (s, r, e)) links"
  by (simp add: build_outgoings_lookup)

lemma build_lookup_incomings:
  "conn_lookup (lc_incomings (linkConnections_buildFromLinks links)) r s e =
     conn_lookup (lc_outgoings (linkConnections_buildFromLinks links)) s r e"
  using conn_lookup_inversed [OF wf_build_outgoings [OF wf_conn_Nil]] by simp

text \<open>The endpoint map forgets sender and receiver.\<close>

lemma fold_map_set_subset: "set (fold (\<lambda>(k, v) m. map_set k v m) xs m) \<subseteq> set m \<union> set xs"
proof (induction xs arbitrary: m)
  case (Cons x xs)
  obtain k v where x: "x = (k, v)" by (cases x)
  have "set (map_set k v m) \<subseteq> insert (k, v) (set m)"
  proof
    fix y assume "y \<in> set (map_set k v m)"
    moreover have "y \<in> set (map_set k v m) \<Longrightarrow> y \<in> insert (k, v) (set m)" for m
      by (induction m) (auto split: if_splits)
    ultimately show "y \<in> insert (k, v) (set m)" by blast
  qed
  with Cons.IH [of "map_set k v m"] show ?case by (auto simp: x)
qed simp

lemma fold_map_set_wf: "wf_map m \<Longrightarrow> wf_map (fold (\<lambda>(k, v) m. map_set k v m) xs m)"
  by (induction xs arbitrary: m) auto

lemma partial_endpointMap_subset:
  "set (fold (\<lambda>(rid, endpoints) m. fold (\<lambda>(key, ep) m. map_set key ep m) endpoints m) p m) \<subseteq>
     set m \<union> \<Union> (set ` snd ` set p)"
proof (induction p arbitrary: m)
  case (Cons re p)
  obtain r es where re: "re = (r, es)" by (cases re)
  show ?case
    using Cons.IH [of "fold (\<lambda>(key, ep) m. map_set key ep m) es m"] fold_map_set_subset [of es m]
    by (auto simp: re)
qed simp

lemma conn_endpointMap_entries:
  "(k, ep) \<in> set (conn_endpointMap c) \<Longrightarrow> \<exists>s r. ((s, r, k), ep) \<in> set (conn_entries c)"
proof -
  have step: "set (fold (\<lambda>(sid, p) m. fold (\<lambda>(key, ep) m. map_set key ep m) (partial_endpointMap p) m) c m) \<subseteq>
      set m \<union> \<Union> ((\<lambda>(s, p). set (partial_endpointMap p)) ` set c)" for m
  proof (induction c arbitrary: m)
    case (Cons sp c)
    obtain s p where sp: "sp = (s, p)" by (cases sp)
    show ?case
      using Cons.IH [of "fold (\<lambda>(key, ep) m. map_set key ep m) (partial_endpointMap p) m"]
        fold_map_set_subset [of "partial_endpointMap p" m]
      by (auto simp: sp)
  qed simp
  assume "(k, ep) \<in> set (conn_endpointMap c)"
  then obtain s p where sp: "(s, p) \<in> set c" "(k, ep) \<in> set (partial_endpointMap p)"
    using step [of "[]"] unfolding conn_endpointMap_def by auto
  then obtain r es where "(r, es) \<in> set p" "(k, ep) \<in> set es"
    using partial_endpointMap_subset [of p "[]"] unfolding partial_endpointMap_def by auto
  with sp(1) show ?thesis by (force simp: conn_entries_def flat_def)
qed

lemma wf_conn_endpointMap: "wf_map (conn_endpointMap c)"
proof -
  have "wf_map m \<Longrightarrow>
      wf_map (fold (\<lambda>(sid, p) m. fold (\<lambda>(key, ep) m. map_set key ep m) (partial_endpointMap p) m) c m)" for m
    by (induction c arbitrary: m) (auto simp: fold_map_set_wf)
  then show ?thesis by (simp add: conn_endpointMap_def)
qed

lemma build_entries_key:
  assumes "((s, r, e), l) \<in> set (conn_entries (build_outgoings links []))"
  shows "link_key l = (s, r, e)" and "l \<in> set links"
proof -
  have wf: "wf_conn (build_outgoings links [])" by (simp add: wf_build_outgoings)
  have "map_of (conn_entries (build_outgoings links [])) (s, r, e) = Some l"
    using assms wf_conn_entries [OF wf] by simp
  then have "find (\<lambda>l. link_key l = (s, r, e)) links = Some l"
    using conn_entries_lookup [OF wf, of s r e] build_lookup [of links s r e] by simp
  then show "link_key l = (s, r, e)" "l \<in> set links" by (auto simp: find_Some_iff)
qed

lemma linksList_apIds:
  "map link_apId (linkConnections_linksList (linkConnections_buildFromLinks links)) =
     map_keys (conn_endpointMap (build_outgoings links []))"
proof -
  have "link_apId l = k" if "(k, l) \<in> set (conn_endpointMap (build_outgoings links []))" for k l
    using build_entries_key(1) conn_endpointMap_entries [OF that] by (fastforce simp: link_key_def)
  then show ?thesis
    by (auto simp: linkConnections_linksList_def conn_endpointList_def comp_def)
qed

lemma linksList_subset: "set (linkConnections_linksList (linkConnections_buildFromLinks links)) \<subseteq> set links"
  using build_entries_key(2) conn_endpointMap_entries
  by (fastforce simp: linkConnections_linksList_def conn_endpointList_def)

text \<open>The identifier of an access point determines service and port.\<close>

lemma span_first: "c \<notin> set xs \<Longrightarrow>
    takeWhile (\<lambda>x. x \<noteq> c) (xs @ c # ys) = xs \<and> dropWhile (\<lambda>x. x \<noteq> c) (xs @ c # ys) = c # ys"
  by (induction xs) auto

lemma split_last_dash:
  assumes "a @ CHR ''-'' # p = b @ CHR ''-'' # q" "CHR ''-'' \<notin> set p" "CHR ''-'' \<notin> set q"
  shows "a = b \<and> p = q"
proof -
  have eq: "rev p @ CHR ''-'' # rev a = rev q @ CHR ''-'' # rev b"
    using arg_cong [OF assms(1), of rev] by simp
  note P = span_first [of "CHR ''-''" "rev p" "rev a"] and Q = span_first [of "CHR ''-''" "rev q" "rev b"]
  have "rev p = rev q" "CHR ''-'' # rev a = CHR ''-'' # rev b"
    using P Q assms(2,3) unfolding eq by simp_all
  then show ?thesis by simp
qed

lemma nat_port_no_dash: "0 \<le> p \<Longrightarrow> CHR ''-'' \<notin> set (int_to_string p)"
  using nat_to_string_digits [of "nat p"]
  by (auto simp: int_to_string_def list_all_iff is_digit_10_iff)

lemma generateId_inj:
  assumes "0 \<le> p" "0 \<le> q"
  shows "serviceEndpoint_generateId a (int_to_string p) = serviceEndpoint_generateId b (int_to_string q)
    \<longleftrightarrow> a = b \<and> p = q"
  using split_last_dash [of a "int_to_string p" b "int_to_string q"] nat_port_no_dash [OF assms(1)]
    nat_port_no_dash [OF assms(2)]
  by (auto simp: serviceEndpoint_generateId_def)

lemma updateWithHubbleLink_fields [simp]:
  "lk_ref (fst (link_updateWithHubbleLink l hl store)) = lk_ref l"
  "lk_verdicts (fst (link_updateWithHubbleLink l hl store)) = set_add (hl_verdict hl) (lk_verdicts l)"
  "lk_authTypes (fst (link_updateWithHubbleLink l hl store)) = set_add (hl_authType hl) (lk_authTypes l)"
  by (simp_all add: link_updateWithHubbleLink_def Let_def link_clone_def link_fromHubbleLink_def)

lemma updateWithHubbleLink_store:
  assumes "hl_ref hl \<noteq> hl_ref (lk_ref l)"
  shows "snd (link_updateWithHubbleLink l hl store) =
    store(hl_ref (lk_ref l) :=
      (fst (store (hl_ref (lk_ref l))) + fst (store (hl_ref hl)),
       snd (store (hl_ref (lk_ref l))) + snd (store (hl_ref hl))))"
  using assms by (simp add: link_updateWithHubbleLink_def Let_def link_clone_def link_fromHubbleLink_def)

section \<open>Properties\<close>

text \<open>the connections built from a list of links hold, for each sender, receiver and access point,
  the first link of the list with that sender, receiver and access point, and nothing else.\<close>

theorem buildFromLinks_lookup:
  "conn_lookup (lc_outgoings (linkConnections_buildFromLinks links)) s r e =
     find (\<lambda>l. link_sourceId l = s \<and> link_destinationId l = r \<and> link_apId l = e) links"
  unfolding build_lookup by (simp add: link_key_def)

text \<open>incoming and outgoing connections agree: a receiver has a link from a sender at an access
  point exactly when the sender has that link to the receiver.\<close>

theorem incomings_agree_with_outgoings:
  "conn_lookup (lc_incomings (linkConnections_buildFromLinks links)) r s e =
     conn_lookup (lc_outgoings (linkConnections_buildFromLinks links)) s r e"
  by (rule build_lookup_incomings)

text \<open>inserting the same service endpoint a second time changes nothing and reports it as not new.\<close>

theorem service_endpoint_upsert_idempotent:
  "let once = fst (conn_upsert serviceEndpoint_update s r e ep c);
       twice = conn_upsert serviceEndpoint_update s r e ep once
   in \<not> snd twice \<and> conn_lookup (fst twice) s' r' e' = conn_lookup once s' r' e'"
  unfolding Let_def by (intro conjI service_endpoint.upsert_not_new_again service_endpoint.upsert_again)

text \<open>the identifier of an access point determines the service and the port, for ports from 0.\<close>

theorem access_point_id_injective:
  assumes "0 \<le> p" "0 \<le> q"
  shows "serviceEndpoint_generateId a (int_to_string p) = serviceEndpoint_generateId b (int_to_string q)
    \<longleftrightarrow> a = b \<and> p = q"
  using assms by (rule generateId_inj)

theorem access_point_id_injective_witness:
  "serviceEndpoint_generateId ''a-1'' (int_to_string 2) \<noteq> serviceEndpoint_generateId ''a'' (int_to_string 12)"
  using access_point_id_injective [of 2 12 "''a-1''" "''a''"] by simp

text \<open>the list of links that connections report holds one link per access point: two senders of
  the same service and port are not both listed, because the endpoint map is keyed by the access
  point alone.\<close>

theorem linksList_one_link_per_access_point:
  "distinct (map link_apId (linkConnections_linksList (linkConnections_buildFromLinks links))) \<and>
   set (linkConnections_linksList (linkConnections_buildFromLinks links)) \<subseteq> set links"
  using linksList_subset [of links] unfolding linksList_apIds by (simp add: wf_conn_endpointMap)

text \<open>the weight of an address is not monotone in its first octet: from 128 on it is negative, as
  the shift works on signed 32-bit integers.\<close>

theorem ip_weight_sign:
  "getIpWeight (Some ''192.0.0.1'') < getIpWeight (Some ''10.0.0.1'')"
  by code_simp

end
