(* ===== verification/Cards.thy ===== *)
theory Cards
  imports Connections
begin

text \<open>
  \<open>src/domain/service-map/card.ts\<close>, \<open>types.ts\<close> and \<open>index.ts\<close>: the card of a service with its access
  points, and the service map read from a log file.  The computed getters are functions of the card.
  Cards are values: where the program shares a card object between two collections, each holds the
  card's value.
\<close>

record service_card =
  sc_service :: hubble_service
  sc_accessPoints :: "(string, service_endpoint) js_map"
  sc_identity :: int

section \<open>State changes\<close>

definition card_fromService :: "hubble_service \<Rightarrow> service_card" where
  "card_fromService svc = \<lparr>sc_service = svc, sc_accessPoints = [], sc_identity = hs_identity svc\<rparr>"

definition card_setIdentity :: "int \<Rightarrow> service_card \<Rightarrow> service_card \<times> bool" where
  "card_setIdentity identity crd = (crd\<lparr>sc_identity := identity\<rparr>, sc_identity crd \<noteq> identity)"

definition card_upsertAccessPoint :: "service_endpoint \<Rightarrow> service_card \<Rightarrow> service_card" where
  "card_upsertAccessPoint ap crd =
     (let aps = sc_accessPoints crd
      in case map_get aps (serviceEndpoint_id ap) of
           None \<Rightarrow> crd\<lparr>sc_accessPoints := map_set (serviceEndpoint_id ap) ap aps\<rparr>
         | Some existing \<Rightarrow>
             crd\<lparr>sc_accessPoints :=
               map_set (serviceEndpoint_id ap) (serviceEndpoint_update existing ap) aps\<rparr>)"

definition card_upsertAccessPointFromLink :: "link \<Rightarrow> service_card \<Rightarrow> service_card" where
  "card_upsertAccessPointFromLink l crd =
     card_upsertAccessPoint (serviceEndpoint_fromHubbleLink (lk_ref l)) crd"

text \<open>The access point of each port accumulates the known layer 7 kinds seen on the port.\<close>

definition card_updateAccessPointsL7 :: "l7_endpoint connections \<Rightarrow> service_card \<Rightarrow> service_card" where
  "card_updateAccessPointsL7 l7endpoints crd =
     fold (\<lambda>(port, kinds) crd.
       let apId = serviceEndpoint_generateId (hs_id (sc_service crd)) port
       in fold (\<lambda>l7kind crd.
            case parseL7Kind l7kind of
              None \<Rightarrow> crd
            | Some k \<Rightarrow>
                (case map_get (sc_accessPoints crd) apId of
                   None \<Rightarrow> crd
                 | Some ap \<Rightarrow>
                     crd\<lparr>sc_accessPoints :=
                       map_set apId (serviceEndpoint_accumulateL7Protocol (Some k) ap)
                         (sc_accessPoints crd)\<rparr>)) (map_keys kinds) crd)
       l7endpoints crd"

definition card_dropAccessPoints :: "service_card \<Rightarrow> service_card" where
  "card_dropAccessPoints crd = crd\<lparr>sc_accessPoints := []\<rparr>"

definition card_clone :: "service_card \<Rightarrow> service_card" where
  "card_clone crd =
     fst (card_setIdentity (sc_identity crd)
       (fold (\<lambda>ap c. card_upsertAccessPoint (serviceEndpoint_clone ap) c)
         (map_values (sc_accessPoints crd)) (card_fromService (sc_service crd))))"

section \<open>What a crd shows\<close>

definition card_id :: "service_card \<Rightarrow> string" where
  "card_id crd = hs_id (sc_service crd)"

definition card_hasWorkload :: "service_card \<Rightarrow> workload \<Rightarrow> bool" where
  "card_hasWorkload crd target =
     list_ex (\<lambda>wl. workload_equals wl target) (hs_workloads (sc_service crd))"

definition card_workload :: "service_card \<Rightarrow> workload option" where
  "card_workload crd = (case hs_workloads (sc_service crd) of [] \<Rightarrow> None | w # _ \<Rightarrow> Some w)"

definition card_labelsProps :: "service_card \<Rightarrow> labels_props" where
  "card_labelsProps crd = labels_detect (hs_labels (sc_service crd))"

definition card_appLabel :: "service_card \<Rightarrow> string option" where
  "card_appLabel crd = or_undefined (lp_appName (card_labelsProps crd))"

definition card_clusterName :: "service_card \<Rightarrow> string option" where
  "card_clusterName crd = or_undefined (lp_clusterName (card_labelsProps crd))"

definition applicationKinds :: "string list" where
  "applicationKinds =
     [''http'', ''grpc'', ''elasticsearch'', ''kafka'', ''rabbitmq'', ''postgresql'', ''mysql'', ''redis'',
      ''zookeeper'', ''prometheus'']"

definition card_appProtocol :: "service_card \<Rightarrow> string option" where
  "card_appProtocol crd =
     (case card_appLabel crd of
        None \<Rightarrow> None | Some lbl \<Rightarrow> if lbl \<in> set applicationKinds then Some lbl else None)"

definition card_isCovalentRelated :: "service_card \<Rightarrow> bool" where
  "card_isCovalentRelated crd =
     list_ex (\<lambda>l. kv_value l = ''covalent-exporter'' \<or> kv_value l = ''covalent-agent'')
       (hs_labels (sc_service crd))"

definition card_workloadName :: "service_card \<Rightarrow> string option" where
  "card_workloadName crd =
     or_undefined (map_option wl_name (find (\<lambda>w. wl_name w \<noteq> []) (hs_workloads (sc_service crd))))"

definition unknown_appname :: string where
  "unknown_appname = ''Unknown App''"

definition card_appName :: "service_card \<Rightarrow> string" where
  "card_appName crd =
     (case card_appLabel crd of
        Some lbl \<Rightarrow> lbl
      | None \<Rightarrow> (case card_workloadName crd of Some n \<Rightarrow> n | None \<Rightarrow> unknown_appname))"

definition card_domain :: "service_card \<Rightarrow> string option" where
  "card_domain crd = first_name (hs_dnsNames (sc_service crd))"

definition card_isWorld :: "service_card \<Rightarrow> bool" where
  "card_isWorld crd = lp_isWorld (card_labelsProps crd)"

definition card_isHost :: "service_card \<Rightarrow> bool" where
  "card_isHost crd = lp_isHost (card_labelsProps crd)"

definition card_isInit :: "service_card \<Rightarrow> bool" where
  "card_isInit crd = lp_isInit (card_labelsProps crd)"

definition card_isRemoteNode :: "service_card \<Rightarrow> bool" where
  "card_isRemoteNode crd = lp_isRemoteNode (card_labelsProps crd)"

definition card_isIngress :: "service_card \<Rightarrow> bool" where
  "card_isIngress crd = lp_isIngress (card_labelsProps crd)"

definition card_isKubeDNS :: "service_card \<Rightarrow> bool" where
  "card_isKubeDNS crd = lp_isKubeDNS (card_labelsProps crd)"

definition card_isPrometheusApp :: "service_card \<Rightarrow> bool" where
  "card_isPrometheusApp crd = lp_isPrometheusApp (card_labelsProps crd)"

definition card_hasDNS :: "service_card \<Rightarrow> bool" where
  "card_hasDNS crd \<longleftrightarrow> hs_dnsNames (sc_service crd) \<noteq> []"

definition card_isDNS :: "service_card \<Rightarrow> bool" where
  "card_isDNS crd \<longleftrightarrow> card_isWorld crd \<and> card_hasDNS crd"

definition card_caption :: "service_card \<Rightarrow> string" where
  "card_caption crd =
     (if card_isWorld crd \<and> truthy (card_domain crd) then the (card_domain crd)
      else if card_isIngress crd then ''Ingress''
      else card_appName crd)"

definition card_hasClearAppName :: "service_card \<Rightarrow> bool" where
  "card_hasClearAppName crd \<longleftrightarrow>
     card_appName crd \<notin> {unknown_appname, ''unmanaged'', ''unknown''}"

definition card_namespace :: "service_card \<Rightarrow> string option" where
  "card_namespace crd =
     (if hs_namespace (sc_service crd) \<noteq> [] then Some (hs_namespace (sc_service crd))
      else labels_findNamespaceInLabels (hs_labels (sc_service crd)) True)"

definition card_networks :: "(string \<Rightarrow> string \<Rightarrow> int) \<Rightarrow> service_card \<Rightarrow> string list" where
  "card_networks localeCompare crd =
     labels_findNetworksInLabels localeCompare (hs_labels (sc_service crd))"

text \<open>The filter entries under which a card can be found.\<close>

definition card_filterEntries :: "service_card \<Rightarrow> filter_entry list" where
  "card_filterEntries crd =
     (if 0 < sc_identity crd then [fe_newIdentity (int_to_string (sc_identity crd))] else [])
     @ (case card_workload crd of None \<Rightarrow> [] | Some w \<Rightarrow> [fe_newWorkload w])
     @ (if card_isDNS crd then [fe_newDNS (card_caption crd)] else [])
     @ (if card_isIngress crd then [fe_newLabel (reserved_str ReservedLabel_Ingress)] else [])
     @ (if card_isWorld crd then [fe_newLabel (reserved_str ReservedLabel_World)] else [])
     @ (if card_isKubeDNS crd
        then [fe_newLabel (labels_normalizeKey (special_str SpecialLabel_KubeDNS))] else [])"

definition card_getFilterEntryMeta :: "filter_entry \<Rightarrow> service_card \<Rightarrow> string option" where
  "card_getFilterEntryMeta fe crd =
     (case fe_kind fe of
        Kind_Identity \<Rightarrow> Some (card_caption crd)
      | Kind_Workload \<Rightarrow> map_option wl_kind (card_workload crd)
      | Kind_Dns \<Rightarrow> card_domain crd
      | _ \<Rightarrow> None)"

section \<open>Service maps\<close>

record service_map =
  sm_services :: "(string, hubble_service) js_map"
  sm_links :: link_connections

definition serviceMap_new :: "hubble_service list \<Rightarrow> link list \<Rightarrow> service_map" where
  "serviceMap_new svcs links =
     \<lparr>sm_services = fold (\<lambda>svc m. map_set (hs_id svc) svc m) svcs [],
      sm_links = linkConnections_buildFromLinks links\<rparr>"

definition serviceMap_fromHubbleParts :: "hubble_service list \<Rightarrow> hubble_link list \<Rightarrow> service_map" where
  "serviceMap_fromHubbleParts svcs links = serviceMap_new svcs (map link_fromHubbleLink links)"

definition serviceMap_servicesList :: "service_map \<Rightarrow> hubble_service list" where
  "serviceMap_servicesList sm = map_values (sm_services sm)"

definition serviceMap_linksList :: "service_map \<Rightarrow> link list" where
  "serviceMap_linksList sm = linkConnections_linksList (sm_links sm)"

definition serviceMap_isEmpty :: "service_map \<Rightarrow> bool" where
  "serviceMap_isEmpty sm \<longleftrightarrow> sm_services sm = []"

section \<open>Lemmas\<close>

text \<open>Access points are filed under their own identifier and belong to distinct keys.\<close>

definition wf_card :: "service_card \<Rightarrow> bool" where
  "wf_card crd \<longleftrightarrow>
     wf_map (sc_accessPoints crd) \<and> (\<forall>(k, ap) \<in> set (sc_accessPoints crd). k = serviceEndpoint_id ap)"

lemma serviceEndpoint_id_update [simp]:
  "serviceEndpoint_id (serviceEndpoint_update e new) = serviceEndpoint_id e"
  "serviceEndpoint_id (serviceEndpoint_accumulateL7Protocol k e) = serviceEndpoint_id e"
  "serviceEndpoint_id (serviceEndpoint_clone e) = serviceEndpoint_id e"
  by (simp_all add: serviceEndpoint_id_def serviceEndpoint_update_def serviceEndpoint_clone_def
      serviceEndpoint_accumulateL7Protocol_def serviceEndpoint_new_def)

lemma wf_card_fromService [simp]: "wf_card (card_fromService svc)"
  by (simp add: wf_card_def card_fromService_def)

lemma wf_card_set:
  "wf_card crd \<Longrightarrow> k = serviceEndpoint_id ap \<Longrightarrow> wf_card (crd\<lparr>sc_accessPoints := map_set k ap (sc_accessPoints crd)\<rparr>)"
proof -
  assume wf: "wf_card crd" and k: "k = serviceEndpoint_id ap"
  have "k0 = serviceEndpoint_id x" if "(k0, x) \<in> set (map_set k ap m)"
    "\<forall>(k, ap) \<in> set m. k = serviceEndpoint_id ap" for k0 x and m :: "(string \<times> service_endpoint) list"
    using that by (induction m) (auto simp: k split: if_splits)
  with wf show ?thesis by (auto simp: wf_card_def)
qed

lemma wf_card_get: "wf_card crd \<Longrightarrow> map_get (sc_accessPoints crd) k = Some ap \<Longrightarrow> serviceEndpoint_id ap = k"
  by (auto simp: wf_card_def dest: map_of_SomeD)

lemma wf_card_upsertAccessPoint: "wf_card crd \<Longrightarrow> wf_card (card_upsertAccessPoint ap crd)"
  by (auto simp: card_upsertAccessPoint_def Let_def intro!: wf_card_set dest: wf_card_get split: option.split)

lemma card_upsertAccessPoint_service [simp]:
  "sc_service (card_upsertAccessPoint ap crd) = sc_service crd"
  "sc_identity (card_upsertAccessPoint ap crd) = sc_identity crd"
  by (simp_all add: card_upsertAccessPoint_def Let_def split: option.split)

lemma card_upsertAccessPoint_get:
  "map_get (sc_accessPoints (card_upsertAccessPoint ap crd)) k =
     (if k = serviceEndpoint_id ap
      then Some (case map_get (sc_accessPoints crd) k of
                   None \<Rightarrow> ap | Some old \<Rightarrow> serviceEndpoint_update old ap)
      else map_get (sc_accessPoints crd) k)"
  by (simp add: card_upsertAccessPoint_def Let_def split: option.split)

lemma card_upsertFromLink_service [simp]:
  "sc_service (card_upsertAccessPointFromLink l crd) = sc_service crd"
  "sc_identity (card_upsertAccessPointFromLink l crd) = sc_identity crd"
  by (simp_all add: card_upsertAccessPointFromLink_def)

lemma card_fold_upsert:
  "sc_service (fold (\<lambda>ap c. card_upsertAccessPoint (f ap) c) aps c) = sc_service c"
  "sc_identity (fold (\<lambda>ap c. card_upsertAccessPoint (f ap) c) aps c) = sc_identity c"
  "wf_card c \<Longrightarrow> wf_card (fold (\<lambda>ap c. card_upsertAccessPoint (f ap) c) aps c)"
  by (induction aps arbitrary: c) (simp_all add: wf_card_upsertAccessPoint)

lemma card_clone_fields [simp]:
  "sc_service (card_clone crd) = sc_service crd"
  "sc_identity (card_clone crd) = sc_identity crd"
  by (simp_all add: card_clone_def card_setIdentity_def card_fold_upsert card_fromService_def)

lemma wf_card_clone [simp]: "wf_card (card_clone crd)"
proof -
  have "wf_card (c\<lparr>sc_identity := n\<rparr>) = wf_card c" for c n by (simp add: wf_card_def)
  then show ?thesis by (simp add: card_clone_def card_setIdentity_def card_fold_upsert(3))
qed

lemma card_clone_dropped: "card_dropAccessPoints (card_clone crd) = crd\<lparr>sc_accessPoints := []\<rparr>"
  by (rule service_card.equality) (simp_all add: card_dropAccessPoints_def)

text \<open>The map of services keeps the last service of each id.\<close>

lemma wf_sm_services: "wf_map (sm_services (serviceMap_new svcs links))"
proof -
  have "wf_map m \<Longrightarrow> wf_map (fold (\<lambda>svc m. map_set (hs_id svc) svc m) svcs m)" for m
    by (induction svcs arbitrary: m) auto
  then show ?thesis by (simp add: serviceMap_new_def)
qed

end
