(* ===== verification/Samples.thy ===== *)
theory Samples
  imports Hubble
begin

text \<open>
  Concrete services, links and flows on which the witnesses of the other theories evaluate the
  definitions: three pods of one namespace, the calls between them and a DNS lookup.
\<close>

definition sample_time :: "rat \<Rightarrow> time" where
  "sample_time s = \<lparr>seconds = s, nanos = 0\<rparr>"

definition sample_latency :: latency where
  "sample_latency = \<lparr>lat_min = sample_time 1, lat_max = sample_time 1, lat_avg = sample_time 1\<rparr>"

definition sample_service :: "string \<Rightarrow> kv list \<Rightarrow> int \<Rightarrow> hubble_service" where
  "sample_service i lbls ident =
     \<lparr>hs_id = i, hs_name = i, hs_namespace = ''apps'', hs_labels = lbls, hs_dnsNames = [],
      hs_egressPolicyEnforced = False, hs_ingressPolicyEnforced = False,
      hs_visibilityPolicyStatus = ''?'', hs_creationTimestamp = sample_time 0, hs_workloads = [],
      hs_identity = ident\<rparr>"

definition sample_hubble_link :: "nat \<Rightarrow> string \<Rightarrow> string \<Rightarrow> string \<Rightarrow> int \<Rightarrow> verdict \<Rightarrow> hubble_link" where
  "sample_hubble_link ref i src dst port v =
     \<lparr>hl_ref = ref, hl_id = i, hl_sourceId = src, hl_destinationId = dst, hl_destinationPort = port,
      hl_ipProtocol = IPProtocol_TCP, hl_verdict = v, hl_flowAmount = 1, hl_latency = sample_latency,
      hl_bytesTransfered = 10, hl_authType = AuthType_Disbaled, hl_isEncrypted = False\<rparr>"

definition sample_endpoint :: "int \<Rightarrow> string \<Rightarrow> string \<Rightarrow> string list \<Rightarrow> endpoint" where
  "sample_endpoint ident ns pod lbls =
     \<lparr>ep_id = ident, ep_identity = ident, ep_namespace = ns, ep_labels = lbls, ep_workloads = [],
      ep_podName = pod\<rparr>"

definition sample_flow :: "rat \<Rightarrow> string \<Rightarrow> string \<Rightarrow> hubble_flow" where
  "sample_flow s src dst =
     \<lparr>hf_time = Some (sample_time s), hf_verdict = Verdict_Forwarded, hf_dropReason = 0, hf_ethernet = None,
      hf_ip = None, hf_l4 = None,
      hf_source = Some (sample_endpoint 1 ''apps'' src [''k8s:app='' @ src]),
      hf_destination = Some (sample_endpoint 2 ''apps'' dst [''k8s:app='' @ dst]),
      hf_type = FlowType_L34, hf_nodeName = ''node'', hf_sourceNamesList = [], hf_destinationNamesList = [],
      hf_l7 = None, hf_reply = Some False, hf_eventType = None, hf_sourceService = None,
      hf_destinationService = None, hf_summary = '''', hf_trafficDirection = TrafficDirection_Ingress,
      hf_authType = AuthType_Disbaled\<rparr>"

end
