(* ===== verification/Filtering.thy ===== *)
theory Filtering
  imports Cards Diffs Samples
begin

text \<open>
  \<open>src/domain/filtering/filter-flow.ts\<close>, \<open>filter-link.ts\<close>, \<open>filter-service.ts\<close> and \<open>index.ts\<close>: which
  flows, links and services pass the filters, and the combined filtering of a frame.  A flow's URL
  parser is the argument \<open>up\<close>.  The lemmas characterise the three predicates and show that \<open>filter\<close>
  returns just what passes, with the services at the ends of the links that pass.
\<close>

section \<open>Flows\<close>

definition fe_matches ::
  "filter_entry \<Rightarrow> (flow \<Rightarrow> bool) \<Rightarrow> (flow \<Rightarrow> bool) \<Rightarrow> flow \<Rightarrow> bool" where
  "fe_matches e sender receiver f \<longleftrightarrow>
     (let fromOk = (if fe_fromRequired e then sender f else False);
          toOk = (if fe_toRequired e then receiver f else False)
      in fromOk \<or> toOk)"

definition filterFlowByEntry :: "flow \<Rightarrow> filter_entry \<Rightarrow> bool" where
  "filterFlowByEntry f e =
     (let label = fe_labelKeyValue e
      in case fe_kind e of
           Kind_Label \<Rightarrow>
             fe_negative e \<noteq>
               fe_matches e (\<lambda>f. flow_senderHasLabelArray f label) (\<lambda>f. flow_receiverHasLabelArray f label) f
         | Kind_Ip \<Rightarrow>
             fe_negative e \<noteq>
               fe_matches e (\<lambda>f. flow_senderHasIp f (fe_query e)) (\<lambda>f. flow_receiverHasIp f (fe_query e)) f
         | Kind_Dns \<Rightarrow>
             fe_negative e \<noteq>
               fe_matches e (\<lambda>f. flow_senderHasDomain f (fe_query e)) (\<lambda>f. flow_receiverHasDomain f (fe_query e)) f
         | Kind_Identity \<Rightarrow>
             fe_negative e \<noteq>
               fe_matches e (\<lambda>f. flow_senderHasIdentity f (fe_query e))
                 (\<lambda>f. flow_receiverHasIdentity f (fe_query e)) f
         | Kind_TCPFlag \<Rightarrow> fe_negative e \<noteq> flow_hasTCPFlag f (to_lower (fe_query e))
         | Kind_Pod \<Rightarrow>
             fe_negative e \<noteq>
               fe_matches e (\<lambda>f. flow_senderPodIs f (fe_query e)) (\<lambda>f. flow_receiverPodIs f (fe_query e)) f
         | Kind_Workload \<Rightarrow>
             (case fe_asWorkload e of
                None \<Rightarrow> fe_negative e \<noteq> False
              | Some w \<Rightarrow>
                  fe_negative e \<noteq>
                    fe_matches e (\<lambda>f. flow_senderHasWorkload f w) (\<lambda>f. flow_receiverHasWorkload f w) f))"

text \<open>The HTTP status filter: a code, or a code with a sign for at least and at most.  A number that
  cannot be read is \<open>NaN\<close>, which equals no status and is neither above nor below one.\<close>

definition httpStatus_passes :: "string \<Rightarrow> int option \<Rightarrow> bool" where
  "httpStatus_passes st status =
     (case status of
        None \<Rightarrow> False
      | Some code \<Rightarrow>
          (let bound = parse_int st;
               lastChar = drop (length st - 1) st;
               rangeSign = (if lastChar = ''+'' \<or> lastChar = ''-'' then Some lastChar else None)
           in if rangeSign = None \<and> bound \<noteq> Some code then False
              else if rangeSign = Some ''+'' \<and> (case bound of None \<Rightarrow> False | Some b \<Rightarrow> code < b) then False
              else if rangeSign = Some ''-'' \<and> (case bound of None \<Rightarrow> False | Some b \<Rightarrow> b < code) then False
              else True))"

text \<open>The loop over the entries, for a test of one entry.\<close>

fun filter_entries_loop :: "(filter_entry \<Rightarrow> bool) \<Rightarrow> filter_entry list \<Rightarrow> bool" where
  "filter_entries_loop test [] = False"
| "filter_entries_loop test (ff # ffs) =
     (let ffResult = test ff
      in if fe_negative ff \<and> \<not> ffResult then False
         else if \<not> fe_negative ff \<and> ffResult then True
         else filter_entries_loop test ffs)"

definition filterFlow :: "(string \<Rightarrow> parsed_url) \<Rightarrow> flow \<Rightarrow> filters \<Rightarrow> bool" where
  "filterFlow up f fs =
     (if fi_namespace fs \<noteq> None \<and> flow_sourceNamespace f \<noteq> fi_namespace fs
         \<and> flow_destinationNamespace f \<noteq> fi_namespace fs then False
      else if 0 < length (or_empty (fi_verdicts fs)) \<and> flow_verdict f \<notin> set (or_empty (fi_verdicts fs))
      then False
      else if is_on (fi_skipHost fs)
        \<and> (lp_isHost (flow_sourceLabelProps f) \<or> lp_isHost (flow_destinationLabelProps f)) then False
      else if is_on (fi_skipRemoteNode fs)
        \<and> (lp_isRemoteNode (flow_sourceLabelProps f) \<or> lp_isRemoteNode (flow_destinationLabelProps f))
      then False
      else if is_on (fi_skipKubeDns fs)
        \<and> (flow_sourcePort f = Some 53
           \<or> flow_destinationPort up f = Some 53 \<and> lp_isKubeDNS (flow_destinationLabelProps f)) then False
      else if (case fi_httpStatus fs of None \<Rightarrow> False | Some st \<Rightarrow> \<not> httpStatus_passes st (flow_httpStatus f))
      then False
      else if or_empty (fi_filters fs) = [] then True
      else filter_entries_loop (filterFlowByEntry f) (or_empty (fi_filters fs)))"

section \<open>Links and services\<close>

definition filterLinkByEntry :: "link \<Rightarrow> filter_entry \<Rightarrow> bool" where
  "filterLinkByEntry l e =
     (let sourceIdentityMatch = (link_sourceId l = fe_query e);
          destIdentityMatch = (link_destinationId l = fe_query e)
      in if fe_kind e = Kind_Identity
         then (if fe_fromRequired e \<and> \<not> sourceIdentityMatch \<and> fe_negative e then True
               else if fe_toRequired e \<and> \<not> destIdentityMatch \<and> fe_negative e then True
               else (let fromOk = (if fe_fromRequired e then sourceIdentityMatch else False);
                         toOk = (if fe_toRequired e then destIdentityMatch else False)
                     in fe_negative e \<or> fromOk \<or> toOk))
         else (if fe_negative e \<and> \<not> sourceIdentityMatch \<and> \<not> destIdentityMatch then True
               else (let fromOk = True; toOk = True in fe_negative e \<or> fromOk \<or> toOk)))"

definition filterLink :: "link \<Rightarrow> filters \<Rightarrow> bool" where
  "filterLink l fs =
     (if 0 < length (or_empty (fi_verdicts fs))
         \<and> \<not> list_ex (\<lambda>v. v \<in> set (lk_verdicts l)) (or_empty (fi_verdicts fs)) then False
      else if link_isDNSRequest l \<and> is_on (fi_skipKubeDns fs) then False
      else if or_empty (fi_filters fs) = [] then True
      else filter_entries_loop (filterLinkByEntry l) (or_empty (fi_filters fs)))"

definition filterService :: "service_card \<Rightarrow> filters \<Rightarrow> bool" where
  "filterService svc fs =
     (if is_on (fi_skipHost fs) \<and> card_isHost svc then False
      else if is_on (fi_skipRemoteNode fs) \<and> card_isRemoteNode svc then False
      else if is_on (fi_skipPrometheusApp fs) \<and> card_isPrometheusApp svc then False
      else True)"

definition filterServiceByEntry :: "hubble_service \<Rightarrow> filter_entry \<Rightarrow> bool" where
  "filterServiceByEntry svc e =
     (if fe_kind e = Kind_Identity then int_to_string (hs_identity svc) = fe_query e
      else (let pass =
              (case fe_kind e of
                 Kind_Label \<Rightarrow> labels_findKVByString (hs_labels svc) (fe_query e) \<noteq> None
               | Kind_Dns \<Rightarrow> fe_query e \<in> set (hs_dnsNames svc) \<or> hs_id svc = fe_query e
               | Kind_Workload \<Rightarrow>
                   (case fe_asWorkload e of
                      None \<Rightarrow> True | Some w \<Rightarrow> workload_includes (hs_workloads svc) w)
               | _ \<Rightarrow> True)
            in if fe_negative e then fe_negative e \<noteq> pass else pass))"

section \<open>A whole frame\<close>

record filter_result =
  fr_flows :: "flow list"
  fr_links :: "link list"
  fr_services :: "service_card list"

type_synonym senders = "(string, string list) js_map"

definition addSender :: "string \<Rightarrow> string \<Rightarrow> senders \<Rightarrow> senders" where
  "addSender receiverId senderId m =
     (let m1 = (if map_has m receiverId then m else map_set receiverId [] m)
      in map_set receiverId (set_add senderId (case map_get m1 receiverId of None \<Rightarrow> [] | Some s \<Rightarrow> s)) m1)"

definition check_directions :: "service_card \<Rightarrow> filters \<Rightarrow> bool \<times> bool" where
  "check_directions crd fs =
     (let none = (or_empty (fi_filters fs) = [])
      in fold (\<lambda>e (checkOutgoings, checkIncomings).
           if \<not> filterServiceByEntry (sc_service crd) e then (checkOutgoings, checkIncomings)
           else (checkOutgoings \<or> fe_fromRequired e, checkIncomings \<or> fe_toRequired e))
           (or_empty (fi_filters fs)) (none, none))"

text \<open>The first loop: cards that surely do not match, and the connections of those that may.\<close>

definition scan_card ::
  "filters \<Rightarrow> link_connections \<Rightarrow> string \<times> service_card \<Rightarrow> string list \<times> senders \<Rightarrow> string list \<times> senders" where
  "scan_card fs lc idcard st =
     (let (sid, crd) = idcard; (blacklist, conns) = st
      in if \<not> filterService crd fs then (set_add sid blacklist, conns)
         else (let (checkOutgoings, checkIncomings) = check_directions crd fs
               in if \<not> checkIncomings \<and> \<not> checkOutgoings then (blacklist, conns)
                  else (let conns1 =
                          (case map_get (lc_incomings lc) sid of
                             Some incomings \<Rightarrow>
                               if checkIncomings
                               then fold (\<lambda>senderId m. addSender sid senderId m) (map_keys incomings) conns
                               else conns
                           | None \<Rightarrow> conns);
                          conns2 =
                          (case map_get (lc_outgoings lc) sid of
                             Some outgoings \<Rightarrow>
                               if checkOutgoings
                               then fold (\<lambda>receiverId m. addSender receiverId sid m) (map_keys outgoings) conns1
                               else conns1
                           | None \<Rightarrow> conns1)
                        in (blacklist, conns2))))"

definition ensureService ::
  "(string, service_card) js_map \<Rightarrow> string \<Rightarrow> (string, service_card) js_map \<Rightarrow> (string, service_card) js_map" where
  "ensureService originals serviceId cloned =
     (if map_has cloned serviceId then cloned
      else (case map_get originals serviceId of
              None \<Rightarrow> cloned
            | Some original \<Rightarrow> map_set serviceId (card_dropAccessPoints (card_clone original)) cloned))"

text \<open>The innermost body of the second loop; the state holds the cloned services, the links that
  passed and the identifiers of links that did not.\<close>

type_synonym link_state = "(string, service_card) js_map \<times> link list \<times> string list"

definition visit_link ::
  "filters \<Rightarrow> (string, service_card) js_map \<Rightarrow> string \<times> string \<times> link \<Rightarrow> link_state \<Rightarrow> link_state" where
  "visit_link fs originals x st =
     (let (receiverId, senderId, l) = x; (cloned, links, blacklist) = st
      in if link_id l \<in> set blacklist then st
         else if \<not> filterLink l fs then (cloned, links, set_add (link_id l) blacklist)
         else (let cloned2 = ensureService originals receiverId (ensureService originals senderId cloned)
               in case map_get cloned2 receiverId of
                    None \<Rightarrow> (cloned2, links, blacklist)
                  | Some receiver \<Rightarrow>
                      (map_set receiverId (card_upsertAccessPointFromLink l receiver) cloned2,
                       links @ [l], blacklist)))"

definition visit_connections ::
  "filters \<Rightarrow> (string, service_card) js_map \<Rightarrow> link_connections \<Rightarrow> string list \<Rightarrow> senders \<Rightarrow> link_state \<Rightarrow> link_state" where
  "visit_connections fs originals lc blacklist conns st =
     fold (\<lambda>(receiverId, senderIds) st.
       if receiverId \<in> set blacklist then st
       else (case map_get (lc_incomings lc) receiverId of
               None \<Rightarrow> st
             | Some incomings \<Rightarrow>
                 fold (\<lambda>senderId st.
                   if senderId \<in> set blacklist then st
                   else (case map_get incomings senderId of
                           None \<Rightarrow> st
                         | Some links \<Rightarrow>
                             fold (\<lambda>(apId, l) st. visit_link fs originals (receiverId, senderId, l) st)
                               links st)) senderIds st)) conns st"

definition filter_frame ::
  "(string \<Rightarrow> parsed_url) \<Rightarrow> filters \<Rightarrow> flow list \<Rightarrow> (string, service_card) js_map \<Rightarrow> link_connections \<Rightarrow>
   filter_result" where
  "filter_frame up fs flows cardsMap lc =
     (let filteredFlows = fold (\<lambda>f acc. if filterFlow up f fs then acc @ [f] else acc) flows [];
          (blacklist, conns) = fold (scan_card fs lc) cardsMap ([], []);
          (cloned, links, linkBlacklist) = visit_connections fs cardsMap lc blacklist conns ([], [], [])
      in \<lparr>fr_flows = filteredFlows, fr_links = links, fr_services = map_values cloned\<rparr>)"

section \<open>The predicates\<close>

text \<open>What the entry loop decides: some entry of either sign stops it, the first such entry decides,
  and if none does the answer is no.\<close>

lemma first_split:
  "(\<exists>ys z zs. x # xs = ys @ z # zs \<and> P z \<and> (\<forall>y \<in> set ys. Q y)) \<longleftrightarrow>
     P x \<or> Q x \<and> (\<exists>ys z zs. xs = ys @ z # zs \<and> P z \<and> (\<forall>y \<in> set ys. Q y))"
  (is "?L \<longleftrightarrow> ?R")
proof
  assume ?L
  then obtain ys z zs where "x # xs = ys @ z # zs" "P z" "\<forall>y \<in> set ys. Q y" by blast
  then show ?R by (cases ys) auto
next
  assume ?R
  then show ?L
  proof
    assume "P x"
    then have "x # xs = [] @ x # xs \<and> P x \<and> (\<forall>y \<in> set []. Q y)" by simp
    then show ?L by blast
  next
    assume "Q x \<and> (\<exists>ys z zs. xs = ys @ z # zs \<and> P z \<and> (\<forall>y \<in> set ys. Q y))"
    then obtain ys z zs where "x # xs = (x # ys) @ z # zs" "P z" "\<forall>y \<in> set (x # ys). Q y" by auto
    then show ?L by blast
  qed
qed

lemma filter_entries_loop_iff:
  "filter_entries_loop test ffs \<longleftrightarrow>
     (\<exists>before ff after. ffs = before @ ff # after \<and> (\<not> fe_negative ff \<and> test ff)
        \<and> (\<forall>b \<in> set before. fe_negative b = test b))"
proof (induction ffs)
  case (Cons ff ffs)
  show ?case unfolding first_split Cons.IH [symmetric] by (auto simp: Let_def)
qed simp

lemma filter_entries_only_negative: "list_all fe_negative ffs \<Longrightarrow> \<not> filter_entries_loop test ffs"
  by (induction ffs) auto

lemma filterLinkByEntry_eq:
  "filterLinkByEntry l e \<longleftrightarrow>
     fe_kind e \<noteq> Kind_Identity \<or> fe_negative e
     \<or> fe_fromRequired e \<and> link_sourceId l = fe_query e
     \<or> fe_toRequired e \<and> link_destinationId l = fe_query e"
  by (auto simp: filterLinkByEntry_def Let_def)

lemma filterService_eq:
  "filterService svc fs \<longleftrightarrow>
     \<not> (is_on (fi_skipHost fs) \<and> card_isHost svc)
     \<and> \<not> (is_on (fi_skipRemoteNode fs) \<and> card_isRemoteNode svc)
     \<and> \<not> (is_on (fi_skipPrometheusApp fs) \<and> card_isPrometheusApp svc)"
  by (simp add: filterService_def)

lemma filterService_service:
  "sc_service a = sc_service b \<Longrightarrow> filterService a fs = filterService b fs"
  by (simp add: filterService_eq card_isHost_def card_isRemoteNode_def card_isPrometheusApp_def
      card_labelsProps_def)

lemma check_directions_eq:
  "check_directions crd fs =
     (or_empty (fi_filters fs) = [] \<or>
        (\<exists>e \<in> set (or_empty (fi_filters fs)). filterServiceByEntry (sc_service crd) e \<and> fe_fromRequired e),
      or_empty (fi_filters fs) = [] \<or>
        (\<exists>e \<in> set (or_empty (fi_filters fs)). filterServiceByEntry (sc_service crd) e \<and> fe_toRequired e))"
proof -
  have "fold (\<lambda>e (co, ci). if \<not> filterServiceByEntry s e then (co, ci)
          else (co \<or> fe_fromRequired e, ci \<or> fe_toRequired e)) es (a, b) =
      (a \<or> (\<exists>e \<in> set es. filterServiceByEntry s e \<and> fe_fromRequired e),
       b \<or> (\<exists>e \<in> set es. filterServiceByEntry s e \<and> fe_toRequired e))" for es a b s
    by (induction es arbitrary: a b) auto
  then show ?thesis by (simp add: check_directions_def Let_def)
qed

section \<open>The first loop\<close>

definition senders_of :: "senders \<Rightarrow> string \<Rightarrow> string list" where
  "senders_of m r = (case map_get m r of None \<Rightarrow> [] | Some s \<Rightarrow> s)"

lemma senders_of_addSender:
  "senders_of (addSender r s m) r' = (if r' = r then set_add s (senders_of m r) else senders_of m r')"
  by (auto simp: addSender_def senders_of_def Let_def)

lemma wf_addSender: "wf_map m \<Longrightarrow> wf_map (addSender r s m)"
  by (auto simp: addSender_def Let_def)

lemma fold_addSender_senders:
  "set (senders_of (fold (\<lambda>s m. addSender r s m) ss m) r') =
     (if r' = r then set (senders_of m r) \<union> set ss else set (senders_of m r'))"
  by (induction ss arbitrary: m) (simp_all add: senders_of_addSender)

lemma fold_addSender_receivers:
  "set (senders_of (fold (\<lambda>r m. addSender r s m) rs m) r') =
     (if r' \<in> set rs then insert s (set (senders_of m r')) else set (senders_of m r'))"
  by (induction rs arbitrary: m) (simp_all add: senders_of_addSender)

lemma wf_fold_addSender:
  "wf_map m \<Longrightarrow> wf_map (fold (\<lambda>s m. addSender r s m) ss m)"
  "wf_map m \<Longrightarrow> wf_map (fold (\<lambda>r m. addSender r s m) ss m)"
  by (induction ss arbitrary: m) (simp_all add: wf_addSender)

lemmas fold_addSender = fold_addSender_senders fold_addSender_receivers wf_fold_addSender

text \<open>Which connections one card asks for.\<close>

definition partners :: "'e connections \<Rightarrow> string \<Rightarrow> string set" where
  "partners c k = (case map_get c k of None \<Rightarrow> {} | Some p \<Rightarrow> set (map_keys p))"

definition asks_for ::
  "filters \<Rightarrow> link_connections \<Rightarrow> string \<Rightarrow> service_card \<Rightarrow> string \<Rightarrow> string \<Rightarrow> bool" where
  "asks_for fs lc sid crd r s \<longleftrightarrow>
     filterService crd fs
     \<and> (r = sid \<and> snd (check_directions crd fs) \<and> s \<in> partners (lc_incomings lc) sid
        \<or> s = sid \<and> fst (check_directions crd fs) \<and> r \<in> partners (lc_outgoings lc) sid)"

lemma scan_card_spec:
  assumes "scan_card fs lc (sid, crd) (bl, m) = (bl', m')"
  shows "set bl' = (if filterService crd fs then set bl else insert sid (set bl))"
    and "s \<in> set (senders_of m' r) \<longleftrightarrow> s \<in> set (senders_of m r) \<or> asks_for fs lc sid crd r s"
    and "wf_map m \<Longrightarrow> wf_map m'"
proof -
  obtain co ci where dirs: "check_directions crd fs = (co, ci)" by (cases "check_directions crd fs")
  note eqs = assms dirs
  show "set bl' = (if filterService crd fs then set bl else insert sid (set bl))"
    using eqs by (auto simp: scan_card_def Let_def split: if_splits option.splits)
  show "s \<in> set (senders_of m' r) \<longleftrightarrow> s \<in> set (senders_of m r) \<or> asks_for fs lc sid crd r s"
  proof (cases "filterService crd fs \<and> (ci \<or> co)")
    case False
    then show ?thesis using eqs by (auto simp: scan_card_def Let_def asks_for_def split: if_splits)
  next
    case True
    define m1 where "m1 = (case map_get (lc_incomings lc) sid of
        Some incomings \<Rightarrow> if ci then fold (\<lambda>s m. addSender sid s m) (map_keys incomings) m else m
      | None \<Rightarrow> m)"
    have m': "m' = (case map_get (lc_outgoings lc) sid of
        Some outgoings \<Rightarrow> if co then fold (\<lambda>r m. addSender r sid m) (map_keys outgoings) m1 else m1
      | None \<Rightarrow> m1)"
      using True eqs
      by (cases "map_get (lc_incomings lc) sid"; cases "map_get (lc_outgoings lc) sid"; cases ci; cases co)
        (simp_all add: scan_card_def Let_def m1_def)
    have "set (senders_of m1 r) =
        set (senders_of m r) \<union> (if r = sid \<and> ci then partners (lc_incomings lc) sid else {})"
      by (auto simp: m1_def partners_def fold_addSender split: option.split)
    moreover have "set (senders_of m' r) =
        set (senders_of m1 r) \<union> (if co \<and> r \<in> partners (lc_outgoings lc) sid then {sid} else {})"
      by (auto simp: m' partners_def fold_addSender split: option.split)
    ultimately show ?thesis using True dirs by (auto simp: asks_for_def)
  qed
  show "wf_map m \<Longrightarrow> wf_map m'"
    using eqs by (auto simp: scan_card_def Let_def fold_addSender split: if_splits option.splits)
qed

lemma scan_fold_spec:
  assumes "fold (scan_card fs lc) cards (bl, m) = (bl', m')"
  shows "set bl' = set bl \<union> {k. \<exists>crd. (k, crd) \<in> set cards \<and> \<not> filterService crd fs}"
    and "s \<in> set (senders_of m' r) \<longleftrightarrow>
           s \<in> set (senders_of m r) \<or> (\<exists>(k, crd) \<in> set cards. asks_for fs lc k crd r s)"
    and "wf_map m \<Longrightarrow> wf_map m'"
proof -
  have "set bl' = set bl \<union> {k. \<exists>crd. (k, crd) \<in> set cards \<and> \<not> filterService crd fs}
      \<and> (s \<in> set (senders_of m' r) \<longleftrightarrow>
           s \<in> set (senders_of m r) \<or> (\<exists>(k, crd) \<in> set cards. asks_for fs lc k crd r s))
      \<and> (wf_map m \<longrightarrow> wf_map m')"
    using assms
  proof (induction cards arbitrary: bl m)
    case (Cons kc cards)
    obtain k crd where kc: "kc = (k, crd)" by (cases kc)
    obtain bl1 m1 where st: "scan_card fs lc (k, crd) (bl, m) = (bl1, m1)"
      by (cases "scan_card fs lc (k, crd) (bl, m)")
    have rest: "fold (scan_card fs lc) cards (bl1, m1) = (bl', m')" using Cons.prems st by (simp add: kc)
    show ?case
      using Cons.IH [OF rest] scan_card_spec [OF st] by (auto simp: kc)
  qed auto
  then show "set bl' = set bl \<union> {k. \<exists>crd. (k, crd) \<in> set cards \<and> \<not> filterService crd fs}"
    and "s \<in> set (senders_of m' r) \<longleftrightarrow>
           s \<in> set (senders_of m r) \<or> (\<exists>(k, crd) \<in> set cards. asks_for fs lc k crd r s)"
    and "wf_map m \<Longrightarrow> wf_map m'"
    by blast+
qed

section \<open>The second loop\<close>

text \<open>The links that the second loop visits, in order.\<close>

definition candidates :: "link_connections \<Rightarrow> string list \<Rightarrow> senders \<Rightarrow> (string \<times> string \<times> link) list" where
  "candidates lc bl conns =
     concat (map (\<lambda>(r, ss).
       if r \<in> set bl then []
       else (case map_get (lc_incomings lc) r of
               None \<Rightarrow> []
             | Some inc \<Rightarrow>
                 concat (map (\<lambda>s.
                   if s \<in> set bl then []
                   else (case map_get inc s of
                           None \<Rightarrow> [] | Some ls \<Rightarrow> map (\<lambda>(ap, l). (r, s, l)) ls)) ss))) conns)"

lemma fold_concat_map: "fold f (concat (map g xs)) a = fold (\<lambda>x a. fold f (g x) a) xs a"
  by (induction xs arbitrary: a) simp_all

lemma visit_connections_candidates:
  "visit_connections fs originals lc bl conns st = fold (visit_link fs originals) (candidates lc bl conns) st"
proof -
  have links: "fold (\<lambda>(ap, l) st. visit_link fs originals (r, s, l) st) ls st =
      fold (visit_link fs originals) (map (\<lambda>(ap, l). (r, s, l)) ls) st" for r s ls st
    by (induction ls arbitrary: st) auto
  have sender: "(if s \<in> set bl then st
       else (case map_get inc s of None \<Rightarrow> st
             | Some ls \<Rightarrow> fold (\<lambda>(ap, l) st. visit_link fs originals (r, s, l) st) ls st)) =
      fold (visit_link fs originals)
        (if s \<in> set bl then [] else (case map_get inc s of None \<Rightarrow> [] | Some ls \<Rightarrow> map (\<lambda>(ap, l). (r, s, l)) ls)) st"
    for r s inc st by (simp add: links split: option.split)
  show ?thesis
    unfolding visit_connections_def candidates_def fold_concat_map
    by (intro fold_cong refl ext) (auto simp: sender fold_concat_map split: option.splits)
qed

lemma in_concat_map: "x \<in> set (concat (map f xs)) \<longleftrightarrow> (\<exists>y \<in> set xs. x \<in> set (f y))"
  by auto

lemma in_concat_map_pair:
  "x \<in> set (concat (map (\<lambda>(a, b). f a b) xs)) \<longleftrightarrow> (\<exists>a b. (a, b) \<in> set xs \<and> x \<in> set (f a b))"
  by force

lemma in_candidates:
  assumes "wf_map conns" "wf_conn (lc_incomings lc)"
  shows "(r, s, l) \<in> set (candidates lc bl conns) \<longleftrightarrow>
     r \<notin> set bl \<and> s \<notin> set bl \<and> s \<in> set (senders_of conns r)
     \<and> (\<exists>ap. conn_lookup (lc_incomings lc) r s ap = Some l)"
proof -
  have get: "(\<exists>ap. conn_lookup (lc_incomings lc) r s ap = Some l) \<longleftrightarrow>
      (\<exists>inc ls ap. map_get (lc_incomings lc) r = Some inc \<and> map_get inc s = Some ls \<and> (ap, l) \<in> set ls)"
  proof -
    have "wf_map ls" if "map_get (lc_incomings lc) r = Some inc" "map_get inc s = Some ls" for inc ls
      using that assms(2) by (auto simp: wf_conn_def wf_partial_def dest!: map_of_SomeD)
    then show ?thesis
      by (cases "map_get (lc_incomings lc) r"; cases "map_get (the (map_get (lc_incomings lc) r)) s")
        (simp_all add: conn_lookup_def get_or_empty_def wf_map_get_iff)
  qed
  have mem: "s \<in> set (senders_of conns r) \<longleftrightarrow> (\<exists>ss. (r, ss) \<in> set conns \<and> s \<in> set ss)"
    using assms(1) by (auto simp: senders_of_def dest: map_of_SomeD split: option.splits)
  have one: "(r, s, l) \<in> set (if s' \<in> set bl then []
        else (case map_get inc s' of None \<Rightarrow> [] | Some ls \<Rightarrow> map (\<lambda>(ap, l). (r', s', l)) ls)) \<longleftrightarrow>
      r' = r \<and> s' = s \<and> s \<notin> set bl \<and> (\<exists>ls ap. map_get inc s = Some ls \<and> (ap, l) \<in> set ls)"
    for r' s' inc by (cases "map_get inc s'") auto
  have all: "(r, s, l) \<in> set (if r' \<in> set bl then []
        else (case map_get (lc_incomings lc) r' of
                None \<Rightarrow> []
              | Some inc \<Rightarrow>
                  concat (map (\<lambda>s.
                    if s \<in> set bl then []
                    else (case map_get inc s of
                            None \<Rightarrow> [] | Some ls \<Rightarrow> map (\<lambda>(ap, l). (r', s, l)) ls)) ss))) \<longleftrightarrow>
      r' = r \<and> r \<notin> set bl \<and> s \<in> set ss \<and> s \<notin> set bl
      \<and> (\<exists>inc ls ap. map_get (lc_incomings lc) r = Some inc \<and> map_get inc s = Some ls \<and> (ap, l) \<in> set ls)"
    for r' ss
  proof (cases "r' \<in> set bl")
    case False
    then show ?thesis
      by (cases "map_get (lc_incomings lc) r'") (simp_all only: in_concat_map one if_False option.case, auto)
  qed auto
  show ?thesis
    unfolding get mem candidates_def in_concat_map_pair all by blast
qed

text \<open>The invariant of the second loop after the links of \<open>T\<close> were visited: only services of the frame
  are cloned and each is an end of a link that passed; the access points shown are those of links
  shown; a link is shown only if it passed, and one that passed is shown unless its identifier was
  blacklisted by another link.\<close>

definition ap_of :: "link \<Rightarrow> string" where
  "ap_of l = serviceEndpoint_id (serviceEndpoint_fromHubbleLink (lk_ref l))"

definition cloned_ok ::
  "filters \<Rightarrow> (string, service_card) js_map \<Rightarrow> (string \<times> string \<times> link) set \<Rightarrow> (string, service_card) js_map \<Rightarrow> bool"
where
  "cloned_ok fs originals T cloned \<longleftrightarrow>
     wf_map cloned
     \<and> (\<forall>k c. map_get cloned k = Some c \<longrightarrow>
          (\<exists>orig r s l. map_get originals k = Some orig \<and> sc_service c = sc_service orig
             \<and> (r, s, l) \<in> T \<and> filterLink l fs \<and> (k = r \<or> k = s)))"

definition links_ok ::
  "filters \<Rightarrow> (string \<times> string \<times> link) set \<Rightarrow> (string, service_card) js_map \<Rightarrow> link list \<Rightarrow> bool" where
  "links_ok fs T cloned links \<longleftrightarrow>
     (\<forall>l \<in> set links. filterLink l fs \<and>
        (\<exists>r s c. (r, s, l) \<in> T \<and> map_get cloned r = Some c \<and> map_get (sc_accessPoints c) (ap_of l) \<noteq> None))
     \<and> (\<forall>k c a. map_get cloned k = Some c \<longrightarrow> map_get (sc_accessPoints c) a \<noteq> None \<longrightarrow>
          (\<exists>l \<in> set links. a = ap_of l))"

definition visited_ok ::
  "filters \<Rightarrow> (string, service_card) js_map \<Rightarrow> (string \<times> string \<times> link) set \<Rightarrow> link list \<Rightarrow> string list \<Rightarrow> bool"
where
  "visited_ok fs originals T links bl \<longleftrightarrow>
     (\<forall>i \<in> set bl. \<exists>r s l. (r, s, l) \<in> T \<and> link_id l = i \<and> \<not> filterLink l fs)
     \<and> (\<forall>(r, s, l) \<in> T. filterLink l fs \<longrightarrow> map_has originals r \<longrightarrow> l \<in> set links \<or> link_id l \<in> set bl)"

lemma ensureService_get:
  "map_get (ensureService originals k m) k' =
     (case map_get m k' of
        Some c \<Rightarrow> Some c
      | None \<Rightarrow> if k' = k then map_option (\<lambda>c. card_dropAccessPoints (card_clone c)) (map_get originals k)
                else None)"
  by (auto simp: ensureService_def split: option.splits)

lemma wf_ensureService: "wf_map m \<Longrightarrow> wf_map (ensureService originals k m)"
  by (simp add: ensureService_def split: option.split)

lemma dropped_get: "map_get (sc_accessPoints (card_dropAccessPoints c)) a = None"
  by (simp add: card_dropAccessPoints_def)

lemma dropped_service: "sc_service (card_dropAccessPoints c) = sc_service c"
  by (simp add: card_dropAccessPoints_def)

lemma loop_ok_mono:
  "cloned_ok fs originals T m \<Longrightarrow> T \<subseteq> T' \<Longrightarrow> cloned_ok fs originals T' m"
  "links_ok fs T m ls \<Longrightarrow> T \<subseteq> T' \<Longrightarrow> links_ok fs T' m ls"
  unfolding cloned_ok_def links_ok_def by blast+

lemma cloned_ok_ensure:
  assumes "cloned_ok fs originals T m" "(r, s, l) \<in> T" "filterLink l fs" "k = r \<or> k = s"
  shows "cloned_ok fs originals T (ensureService originals k m)"
proof -
  have "\<exists>orig r s l. map_get originals k' = Some orig \<and> sc_service c = sc_service orig
      \<and> (r, s, l) \<in> T \<and> filterLink l fs \<and> (k' = r \<or> k' = s)"
    if got: "map_get (ensureService originals k m) k' = Some c" for k' c
  proof (cases "map_get m k'")
    case None
    then obtain orig where "k' = k" "map_get originals k = Some orig" "sc_service c = sc_service orig"
      using got by (auto simp: ensureService_get dropped_service split: if_splits)
    then show ?thesis using assms(2-4) by blast
  next
    case (Some c')
    then show ?thesis using got assms(1) by (simp add: ensureService_get cloned_ok_def)
  qed
  then show ?thesis using assms(1) by (simp add: cloned_ok_def wf_ensureService)
qed

lemma links_ok_ensure:
  assumes "links_ok fs T m ls"
  shows "links_ok fs T (ensureService originals k m) ls"
proof -
  have keep: "map_get (ensureService originals k m) r = Some c" if "map_get m r = Some c" for r c
    using that by (simp add: ensureService_get)
  have "\<exists>l \<in> set ls. a = ap_of l"
    if "map_get (ensureService originals k m) k' = Some c" "map_get (sc_accessPoints c) a \<noteq> None" for k' c a
  proof (cases "map_get m k'")
    case None
    then show ?thesis using that by (auto simp: ensureService_get dropped_get split: if_splits)
  next
    case (Some c')
    then show ?thesis using that assms by (auto simp: ensureService_get links_ok_def)
  qed
  then show ?thesis using assms keep unfolding links_ok_def by blast
qed

lemma cloned_ok_upsert:
  assumes "cloned_ok fs originals T m" "map_get m r = Some c"
  shows "cloned_ok fs originals T (map_set r (card_upsertAccessPointFromLink l c) m)"
  using assms by (auto simp: cloned_ok_def)

lemma upsertFromLink_has:
  "map_get (sc_accessPoints (card_upsertAccessPointFromLink l c)) a \<noteq> None \<longleftrightarrow>
     a = ap_of l \<or> map_get (sc_accessPoints c) a \<noteq> None"
  by (simp add: card_upsertAccessPointFromLink_def card_upsertAccessPoint_get ap_of_def)

lemma links_ok_upsert:
  assumes ok: "links_ok fs T m ls" and c: "map_get m r = Some c" and l: "(r, s, l) \<in> T" "filterLink l fs"
  shows "links_ok fs T (map_set r (card_upsertAccessPointFromLink l c) m) (ls @ [l])"
  unfolding links_ok_def
proof (intro conjI ballI allI impI)
  fix l' assume l': "l' \<in> set (ls @ [l])"
  then show "filterLink l' fs" using ok l(2) by (auto simp: links_ok_def)
  let ?m = "map_set r (card_upsertAccessPointFromLink l c) m"
  show "\<exists>r s c. (r, s, l') \<in> T \<and> map_get ?m r = Some c \<and> map_get (sc_accessPoints c) (ap_of l') \<noteq> None"
  proof (cases "l' = l")
    case True
    have "map_get ?m r = Some (card_upsertAccessPointFromLink l c)"
      "map_get (sc_accessPoints (card_upsertAccessPointFromLink l c)) (ap_of l') \<noteq> None"
      using True by (simp, simp only: upsertFromLink_has simp_thms)
    then show ?thesis using l(1) True by blast
  next
    case False
    then obtain r' s' c' where old: "(r', s', l') \<in> T" "map_get m r' = Some c'"
      "map_get (sc_accessPoints c') (ap_of l') \<noteq> None" using ok l' by (auto simp: links_ok_def)
    define c2 where "c2 = (if r' = r then card_upsertAccessPointFromLink l c else c')"
    have "map_get ?m r' = Some c2" using old(2) by (simp add: c2_def)
    moreover have "map_get (sc_accessPoints c2) (ap_of l') \<noteq> None"
    proof (cases "r' = r")
      case True
      then have "c = c'" using old(2) c by simp
      then show ?thesis using True old(3) by (simp only: c2_def if_True simp_thms upsertFromLink_has)
    qed (use old(3) in \<open>simp add: c2_def\<close>)
    ultimately show ?thesis using old(1) by blast
  qed
next
  fix k c' a
  assume get: "map_get (map_set r (card_upsertAccessPointFromLink l c) m) k = Some c'"
    and has: "map_get (sc_accessPoints c') a \<noteq> None"
  show "\<exists>l' \<in> set (ls @ [l]). a = ap_of l'"
  proof (cases "k = r")
    case True
    then have "c' = card_upsertAccessPointFromLink l c" using get by simp
    then have "a = ap_of l \<or> map_get (sc_accessPoints c) a \<noteq> None" using has by (simp only: upsertFromLink_has)
    then show ?thesis using ok c unfolding links_ok_def by force
  next
    case False
    then have "map_get m k = Some c'" using get by simp
    then have "\<exists>l' \<in> set ls. a = ap_of l'" using ok has unfolding links_ok_def by blast
    then show ?thesis by auto
  qed
qed

lemma visited_ok_step:
  assumes vi: "visited_ok fs originals T ls bl" and sub: "set ls \<subseteq> set ls'" "set bl \<subseteq> set bl'"
    and new: "\<And>i. i \<in> set bl' \<Longrightarrow> i \<in> set bl \<or> link_id l = i \<and> \<not> filterLink l fs"
    and here: "filterLink l fs \<Longrightarrow> map_has originals r \<Longrightarrow> l \<in> set ls' \<or> link_id l \<in> set bl'"
  shows "visited_ok fs originals (insert (r, s, l) T) ls' bl'"
  unfolding visited_ok_def
proof (intro conjI ballI)
  fix i assume "i \<in> set bl'"
  then show "\<exists>r' s' l'. (r', s', l') \<in> insert (r, s, l) T \<and> link_id l' = i \<and> \<not> filterLink l' fs"
    using new [of i] vi unfolding visited_ok_def by blast
next
  fix x assume x: "x \<in> insert (r, s, l) T"
  show "case x of (r, s, l) \<Rightarrow>
      filterLink l fs \<longrightarrow> map_has originals r \<longrightarrow> l \<in> set ls' \<or> link_id l \<in> set bl'"
  proof (cases "x = (r, s, l)")
    case False
    then have "x \<in> T" using x by blast
    then show ?thesis using vi sub unfolding visited_ok_def by blast
  qed (use here in auto)
qed

lemma visit_link_ok:
  assumes cl: "cloned_ok fs originals T cloned" and lo: "links_ok fs T cloned links"
    and vi: "visited_ok fs originals T links bl"
    and st: "visit_link fs originals (r, s, l) (cloned, links, bl) = (cloned', links', bl')"
  shows "cloned_ok fs originals (insert (r, s, l) T) cloned' \<and> links_ok fs (insert (r, s, l) T) cloned' links'
    \<and> visited_ok fs originals (insert (r, s, l) T) links' bl'"
proof -
  let ?T = "insert (r, s, l) T"
  have cl': "cloned_ok fs originals ?T cloned" and lo': "links_ok fs ?T cloned links"
    by (rule loop_ok_mono(1) [OF cl subset_insertI], rule loop_ok_mono(2) [OF lo subset_insertI])
  show ?thesis
  proof (cases "link_id l \<in> set bl \<or> \<not> filterLink l fs")
    case True
    have "cloned' = cloned" "links' = links"
      "bl' = (if link_id l \<in> set bl then bl else set_add (link_id l) bl)"
      using st True by (auto simp: visit_link_def split: if_splits)
    moreover from calculation have "visited_ok fs originals ?T links' bl'"
      using True by (intro visited_ok_step [OF vi]) (auto split: if_splits)
    ultimately show ?thesis using cl' lo' by simp
  next
    case False
    define c1 where "c1 = ensureService originals r (ensureService originals s cloned)"
    have new: "(r, s, l) \<in> ?T" "filterLink l fs" using False by blast+
    have c1: "cloned_ok fs originals ?T c1"
      unfolding c1_def by (rule cloned_ok_ensure [OF cloned_ok_ensure [OF cl' new] new]; simp)
    have l1: "links_ok fs ?T c1 links"
      unfolding c1_def by (rule links_ok_ensure [OF links_ok_ensure [OF lo']])
    show ?thesis
    proof (cases "map_get c1 r")
      case None
      have "cloned' = c1" "links' = links" "bl' = bl"
        using st False None by (simp_all add: visit_link_def c1_def Let_def)
      moreover have "map_get originals r = None"
        using None by (auto simp: c1_def ensureService_get split: option.splits)
      then have "visited_ok fs originals ?T links bl" by (intro visited_ok_step [OF vi]) simp_all
      ultimately show ?thesis using c1 l1 by simp
    next
      case (Some c)
      then have "cloned' = map_set r (card_upsertAccessPointFromLink l c) c1" "links' = links @ [l]" "bl' = bl"
        using st False by (simp_all add: visit_link_def c1_def Let_def)
      moreover have "visited_ok fs originals ?T (links @ [l]) bl" by (intro visited_ok_step [OF vi]) auto
      ultimately show ?thesis
        using cloned_ok_upsert [OF c1 Some] links_ok_upsert [OF l1 Some new] by simp
    qed
  qed
qed

lemma visit_fold_ok:
  assumes "cloned_ok fs originals T cloned" "links_ok fs T cloned links" "visited_ok fs originals T links bl"
    "fold (visit_link fs originals) xs (cloned, links, bl) = (cloned', links', bl')"
  shows "cloned_ok fs originals (T \<union> set xs) cloned' \<and> links_ok fs (T \<union> set xs) cloned' links'
    \<and> visited_ok fs originals (T \<union> set xs) links' bl'"
  using assms
proof (induction xs arbitrary: T cloned links bl)
  case (Cons x xs)
  obtain r s l where x: "x = (r, s, l)" by (cases x)
  obtain c1 l1 b1 where st: "visit_link fs originals (r, s, l) (cloned, links, bl) = (c1, l1, b1)"
    by (cases "visit_link fs originals (r, s, l) (cloned, links, bl)")
  have "fold (visit_link fs originals) xs (c1, l1, b1) = (cloned', links', bl')"
    using Cons.prems(4) st by (simp add: x)
  then show ?case
    using visit_link_ok [OF Cons.prems(1-3) st] Cons.IH [of "insert (r, s, l) T" c1 l1 b1] by (simp add: x)
qed simp

section \<open>The filtered frame\<close>

text \<open>The links a frame should show: those between services the switches let pass, of which one asks for
  the connection in that direction, and which pass the link filter.\<close>

definition end_allowed :: "filters \<Rightarrow> (string, service_card) js_map \<Rightarrow> string \<Rightarrow> bool" where
  "end_allowed fs cards k = (case map_get cards k of None \<Rightarrow> True | Some crd \<Rightarrow> filterService crd fs)"

definition link_wanted ::
  "filters \<Rightarrow> (string, service_card) js_map \<Rightarrow> link_connections \<Rightarrow> string \<Rightarrow> string \<Rightarrow> link \<Rightarrow> bool" where
  "link_wanted fs cards lc r s l \<longleftrightarrow>
     (\<exists>ap. conn_lookup (lc_incomings lc) r s ap = Some l)
     \<and> end_allowed fs cards r \<and> end_allowed fs cards s
     \<and> (\<exists>(k, crd) \<in> set cards. asks_for fs lc k crd r s)"

lemma filter_frame_loops:
  assumes "wf_map cards" "wf_conn (lc_incomings lc)"
  obtains cloned links bl where
    "fr_links (filter_frame up fs flows cards lc) = links"
    "fr_services (filter_frame up fs flows cards lc) = map_values cloned"
    "cloned_ok fs cards {(r, s, l). link_wanted fs cards lc r s l} cloned"
    "links_ok fs {(r, s, l). link_wanted fs cards lc r s l} cloned links"
    "visited_ok fs cards {(r, s, l). link_wanted fs cards lc r s l} links bl"
proof -
  obtain bl0 conns where scan: "fold (scan_card fs lc) cards ([], []) = (bl0, conns)"
    by (cases "fold (scan_card fs lc) cards ([], [])")
  obtain cloned links bl where
    visit: "fold (visit_link fs cards) (candidates lc bl0 conns) ([], [], []) = (cloned, links, bl)"
    by (cases "fold (visit_link fs cards) (candidates lc bl0 conns) ([], [], [])")
  have wf: "wf_map conns" using scan_fold_spec(3) [OF scan] by simp
  have bl0: "k \<notin> set bl0 \<longleftrightarrow> end_allowed fs cards k" for k
  proof -
    have "k \<notin> set bl0 \<longleftrightarrow> (\<forall>crd. map_get cards k = Some crd \<longrightarrow> filterService crd fs)"
      unfolding scan_fold_spec(1) [OF scan] wf_map_get_iff [OF assms(1)] by auto
    then show ?thesis by (simp add: end_allowed_def split: option.split)
  qed
  have mem: "s \<in> set (senders_of conns r) \<longleftrightarrow> (\<exists>(k, crd) \<in> set cards. asks_for fs lc k crd r s)" for r s
    using scan_fold_spec(2) [OF scan, of s r] by (simp add: senders_of_def)
  have T: "set (candidates lc bl0 conns) = {(r, s, l). link_wanted fs cards lc r s l}"
  proof (rule set_eqI)
    fix x :: "string \<times> string \<times> link"
    obtain r s l where x: "x = (r, s, l)" by (cases x)
    show "x \<in> set (candidates lc bl0 conns) \<longleftrightarrow> x \<in> {(r, s, l). link_wanted fs cards lc r s l}"
      unfolding x in_candidates [OF wf assms(2)] bl0 mem by (auto simp: link_wanted_def)
  qed
  have start: "cloned_ok fs cards {} []" "links_ok fs {} [] []" "visited_ok fs cards {} [] []"
    by (simp_all add: cloned_ok_def links_ok_def visited_ok_def)
  show ?thesis
    by (rule that [of links cloned bl])
      (use visit_fold_ok [OF start visit] T in \<open>simp_all add: filter_frame_def scan visit_connections_candidates visit\<close>)
qed

text \<open>\<open>filter\<close> keeps just the flows that pass \<open>filterFlow\<close>, in their order.\<close>

theorem filter_frame_flows:
  "fr_flows (filter_frame up fs flows cards lc) = filter (\<lambda>f. filterFlow up f fs) flows"
proof -
  have flows: "fold (\<lambda>f acc. if P f then acc @ [f] else acc) xs acc = acc @ filter P xs"
    for P and xs acc :: "flow list" by (induction xs arbitrary: acc) auto
  show ?thesis by (simp add: filter_frame_def flows split_def Let_def)
qed

text \<open>C8: the links \<open>filter\<close> returns are just the wanted ones that pass \<open>filterLink\<close> and whose receiver
  is a service of the frame, provided links with the same identifier pass or fail together: one service
  filtered out at either end hides the link, and a link shows when a filter entry matches one of its
  services in the direction of the link.\<close>

theorem filter_frame_links:
  assumes "wf_map cards" "wf_conn (lc_incomings lc)"
    and ids: "\<And>r s l r' s' l'. link_wanted fs cards lc r s l \<Longrightarrow> link_wanted fs cards lc r' s' l' \<Longrightarrow>
           link_id l = link_id l' \<Longrightarrow> filterLink l fs \<Longrightarrow> filterLink l' fs"
  shows "l \<in> set (fr_links (filter_frame up fs flows cards lc)) \<longleftrightarrow>
    filterLink l fs \<and> (\<exists>r s. link_wanted fs cards lc r s l \<and> map_has cards r)"
proof -
  obtain cloned links bl where
    eq: "fr_links (filter_frame up fs flows cards lc) = links"
    and ok: "cloned_ok fs cards {(r, s, l). link_wanted fs cards lc r s l} cloned"
      "links_ok fs {(r, s, l). link_wanted fs cards lc r s l} cloned links"
      "visited_ok fs cards {(r, s, l). link_wanted fs cards lc r s l} links bl"
    by (rule filter_frame_loops [OF assms(1,2), of up fs flows])
  show ?thesis
  proof
    assume "l \<in> set (fr_links (filter_frame up fs flows cards lc))"
    then have "filterLink l fs" "\<exists>r s c. link_wanted fs cards lc r s l \<and> map_get cloned r = Some c"
      using ok(2) unfolding eq links_ok_def by blast+
    moreover from this obtain r s c where "link_wanted fs cards lc r s l" "map_get cloned r = Some c" by blast
    moreover from this have "\<exists>orig. map_get cards r = Some orig" using ok(1) unfolding cloned_ok_def by blast
    ultimately show "filterLink l fs \<and> (\<exists>r s. link_wanted fs cards lc r s l \<and> map_has cards r)" by auto
  next
    assume *: "filterLink l fs \<and> (\<exists>r s. link_wanted fs cards lc r s l \<and> map_has cards r)"
    then obtain r s where w: "link_wanted fs cards lc r s l" "map_has cards r" by blast
    have "l \<in> set links \<or> link_id l \<in> set bl"
      using ok(3) w * unfolding visited_ok_def by fastforce
    moreover have "link_id l \<notin> set bl"
    proof
      assume "link_id l \<in> set bl"
      then obtain r' s' l' where "link_wanted fs cards lc r' s' l'" "link_id l' = link_id l" "\<not> filterLink l' fs"
        using ok(3) unfolding visited_ok_def by blast
      then show False using ids [OF w(1), of r' s' l'] * by simp
    qed
    ultimately show "l \<in> set (fr_links (filter_frame up fs flows cards lc))" by (simp add: eq)
  qed
qed

text \<open>C9: every service \<open>filter\<close> returns is a service of the frame that the switches let pass and is an end
  of a link that passes, and the access points the returned services show are just those of the links
  that are returned.\<close>

theorem filter_frame_services:
  assumes "wf_map cards" "wf_conn (lc_incomings lc)"
  shows "(\<forall>c. c \<in> set (fr_services (filter_frame up fs flows cards lc)) \<longrightarrow>
      (\<exists>k orig r s l. map_get cards k = Some orig \<and> sc_service c = sc_service orig \<and> filterService orig fs
         \<and> link_wanted fs cards lc r s l \<and> filterLink l fs \<and> (k = r \<or> k = s)))
    \<and> (\<Union>c \<in> set (fr_services (filter_frame up fs flows cards lc)).
          {a. map_get (sc_accessPoints c) a \<noteq> None}) =
      ap_of ` set (fr_links (filter_frame up fs flows cards lc))"
proof -
  let ?T = "{(r, s, l). link_wanted fs cards lc r s l}"
  obtain cloned links bl where
    eq: "fr_links (filter_frame up fs flows cards lc) = links"
      "fr_services (filter_frame up fs flows cards lc) = map_values cloned"
    and ok: "cloned_ok fs cards ?T cloned" "links_ok fs ?T cloned links"
    by (rule filter_frame_loops [OF assms, of up fs flows])
  have wf: "wf_map cloned" using ok(1) unfolding cloned_ok_def by blast
  have val: "c \<in> set (map_values cloned) \<longleftrightarrow> (\<exists>k. map_get cloned k = Some c)" for c
    using wf_map_get_iff [OF wf] by force
  show ?thesis unfolding eq val
  proof (intro conjI allI impI)
    fix c assume "\<exists>k. map_get cloned k = Some c"
    then obtain k where "map_get cloned k = Some c" ..
    then obtain orig r s l where o: "map_get cards k = Some orig" "sc_service c = sc_service orig"
        "link_wanted fs cards lc r s l" "filterLink l fs" "k = r \<or> k = s"
      using ok(1) unfolding cloned_ok_def by blast
    moreover have "filterService orig fs"
      using o by (auto simp: link_wanted_def end_allowed_def)
    ultimately show "\<exists>k orig r s l. map_get cards k = Some orig \<and> sc_service c = sc_service orig
        \<and> filterService orig fs \<and> link_wanted fs cards lc r s l \<and> filterLink l fs \<and> (k = r \<or> k = s)"
      by blast
  next
    have "a \<in> ap_of ` set links"
      if "map_get cloned k = Some c" "map_get (sc_accessPoints c) a \<noteq> None" for k c a
      using ok(2) that unfolding links_ok_def by blast
    moreover have "\<exists>k c. map_get cloned k = Some c \<and> map_get (sc_accessPoints c) (ap_of l) \<noteq> None"
      if "l \<in> set links" for l using ok(2) that unfolding links_ok_def by blast
    ultimately show "(\<Union>c \<in> set (map_values cloned). {a. map_get (sc_accessPoints c) a \<noteq> None}) = ap_of ` set links"
      using val by blast
  qed
qed

text \<open>A frame of two services and one link, filtered by the identity of the sender.\<close>

definition demo_filters :: filters where
  "demo_filters = filters_default\<lparr>fi_verdicts := Some [Verdict_Forwarded], fi_filters := Some [fe_newIdentity ''1'']\<rparr>"

definition demo_cards :: "(string, service_card) js_map" where
  "demo_cards = [(''1'', card_fromService (sample_service ''1'' [] 1)), (''2'', card_fromService (sample_service ''2'' [] 2))]"

definition demo_link :: link where
  "demo_link = link_fromHubbleLink (sample_hubble_link 0 ''l1'' ''1'' ''2'' 80 Verdict_Forwarded)"

definition demo_links :: link_connections where
  "demo_links = linkConnections_buildFromLinks [demo_link]"

definition demo_url :: "string \<Rightarrow> parsed_url" where
  "demo_url u = \<lparr>pu_port = '''', pu_pathname = u\<rparr>"

lemma demo_incomings: "lc_incomings demo_links = [(''2'', [(''1'', [(link_apId demo_link, demo_link)])])]"
  by code_simp

lemma demo_outgoings: "lc_outgoings demo_links = [(''1'', [(''2'', [(link_apId demo_link, demo_link)])])]"
  by code_simp

lemma demo_lookup:
  "conn_lookup (lc_incomings demo_links) r s ap = Some l \<longleftrightarrow>
     r = ''2'' \<and> s = ''1'' \<and> ap = link_apId demo_link \<and> l = demo_link"
  by (auto simp: demo_incomings conn_lookup_def get_or_empty_def split: if_splits)

lemma demo_wf: "wf_map demo_cards" "wf_conn (lc_incomings demo_links)"
  by (simp_all add: demo_cards_def demo_incomings wf_conn_def wf_partial_def)

lemma demo_passes: "filterLink demo_link demo_filters" by code_simp

lemma demo_wanted: "link_wanted demo_filters demo_cards demo_links r s l \<longleftrightarrow> r = ''2'' \<and> s = ''1'' \<and> l = demo_link"
proof -
  have ends: "end_allowed demo_filters demo_cards ''1''" "end_allowed demo_filters demo_cards ''2''" by code_simp+
  have p: "partners (lc_outgoings demo_links) ''1'' = {''2''}" by (simp add: partners_def demo_outgoings)
  have "filterService (card_fromService (sample_service ''1'' [] 1)) demo_filters"
    "fst (check_directions (card_fromService (sample_service ''1'' [] 1)) demo_filters)" by code_simp+
  then have asks: "\<exists>(k, crd) \<in> set demo_cards. asks_for demo_filters demo_links k crd ''2'' ''1''"
    unfolding demo_cards_def by (simp add: asks_for_def p)
  show ?thesis using ends asks by (auto simp: link_wanted_def demo_lookup)
qed

theorem filter_frame_links_witness:
  "demo_link \<in> set (fr_links (filter_frame demo_url demo_filters [] demo_cards demo_links))"
proof -
  have "demo_link \<in> set (fr_links (filter_frame demo_url demo_filters [] demo_cards demo_links)) \<longleftrightarrow>
    filterLink demo_link demo_filters
    \<and> (\<exists>r s. link_wanted demo_filters demo_cards demo_links r s demo_link \<and> map_has demo_cards r)"
    by (rule filter_frame_links [OF demo_wf]) (simp add: demo_wanted)
  then show ?thesis by (simp add: demo_passes demo_wanted, simp add: demo_cards_def)
qed

theorem filter_frame_services_witness:
  "(\<Union>c \<in> set (fr_services (filter_frame demo_url demo_filters [] demo_cards demo_links)).
      {a. map_get (sc_accessPoints c) a \<noteq> None}) =
   ap_of ` set (fr_links (filter_frame demo_url demo_filters [] demo_cards demo_links))"
  by (rule filter_frame_services [OF demo_wf, THEN conjunct2])

definition flow_switches :: "(string \<Rightarrow> parsed_url) \<Rightarrow> flow \<Rightarrow> filters \<Rightarrow> bool" where
  "flow_switches up f fs \<longleftrightarrow>
     (case fi_namespace fs of
        None \<Rightarrow> True | Some ns \<Rightarrow> Some ns \<in> {flow_sourceNamespace f, flow_destinationNamespace f})
     \<and> (or_empty (fi_verdicts fs) = [] \<or> flow_verdict f \<in> set (or_empty (fi_verdicts fs)))
     \<and> (is_on (fi_skipHost fs) \<longrightarrow>
          \<not> lp_isHost (flow_sourceLabelProps f) \<and> \<not> lp_isHost (flow_destinationLabelProps f))
     \<and> (is_on (fi_skipRemoteNode fs) \<longrightarrow>
          \<not> lp_isRemoteNode (flow_sourceLabelProps f) \<and> \<not> lp_isRemoteNode (flow_destinationLabelProps f))
     \<and> (is_on (fi_skipKubeDns fs) \<longrightarrow> flow_sourcePort f \<noteq> Some 53
          \<and> (flow_destinationPort up f = Some 53 \<longrightarrow> \<not> lp_isKubeDNS (flow_destinationLabelProps f)))
     \<and> (case fi_httpStatus fs of None \<Rightarrow> True | Some st \<Rightarrow> httpStatus_passes st (flow_httpStatus f))"

lemma if_reject: "(if a then False else b) \<longleftrightarrow> \<not> a \<and> b"
  by simp

lemma filterFlow_eq:
  "filterFlow up f fs \<longleftrightarrow> flow_switches up f fs
     \<and> (or_empty (fi_filters fs) = [] \<or> filter_entries_loop (filterFlowByEntry f) (or_empty (fi_filters fs)))"
proof -
  have ns: "(case n of None \<Rightarrow> True | Some ns \<Rightarrow> Some ns \<in> {a, b}) \<longleftrightarrow> \<not> (n \<noteq> None \<and> a \<noteq> n \<and> b \<noteq> n)"
    for n a b :: "string option" by (cases n) auto
  have verdicts: "(vs = [] \<or> v \<in> set vs) \<longleftrightarrow> \<not> (0 < length vs \<and> v \<notin> set vs)" for v :: verdict and vs by simp
  have skip: "(a \<longrightarrow> \<not> b \<and> \<not> c) \<longleftrightarrow> \<not> (a \<and> (b \<or> c))" for a b c by blast
  have dns: "(a \<longrightarrow> b \<noteq> d \<and> (c \<longrightarrow> \<not> e)) \<longleftrightarrow> \<not> (a \<and> (b = d \<or> c \<and> e))" for a c e and b d :: "int option" by blast
  have status: "(case st of None \<Rightarrow> True | Some s \<Rightarrow> P s) \<longleftrightarrow> \<not> (case st of None \<Rightarrow> False | Some s \<Rightarrow> \<not> P s)"
    for st :: "string option" and P by (cases st) simp_all
  have entries: "(if es = [] then True else b) \<longleftrightarrow> es = [] \<or> b" for es :: "filter_entry list" and b by simp
  show ?thesis
    unfolding filterFlow_def flow_switches_def if_reject ns verdicts skip dns status entries conj_assoc ..
qed

text \<open>C10: a flow passes when it satisfies the namespace, verdict, host, remote node, DNS and HTTP status
  switches and either there are no entries or some positive entry matches it and no entry before that one
  decides: the first entry that decides wins, a positive one by matching, a negative one by failing.\<close>

theorem filterFlow_first_match:
  "filterFlow up f fs \<longleftrightarrow>
     flow_switches up f fs
     \<and> (or_empty (fi_filters fs) = []
        \<or> (\<exists>before e after. or_empty (fi_filters fs) = before @ e # after
             \<and> (\<not> fe_negative e \<and> filterFlowByEntry f e)
             \<and> (\<forall>b \<in> set before. fe_negative b = filterFlowByEntry f b)))"
  unfolding filterFlow_eq filter_entries_loop_iff ..

theorem filterFlow_first_match_witness:
  "filterFlow demo_url \<lparr>fl_ref = sample_flow 1 ''a'' ''b'', fl_id = None\<rparr>
     (filters_default\<lparr>fi_filters := Some [(fe_newPod ''c'')\<lparr>fe_negative := True\<rparr>, fe_newPod ''a'']\<rparr>)"
  (is "filterFlow _ ?f ?fs")
proof -
  let ?n = "(fe_newPod ''c'')\<lparr>fe_negative := True\<rparr>"
  have switches: "flow_switches demo_url ?f ?fs" by code_simp
  have before: "fe_negative ?n = filterFlowByEntry ?f ?n" by code_simp
  have hit: "\<not> fe_negative (fe_newPod ''a'') \<and> filterFlowByEntry ?f (fe_newPod ''a'')" by code_simp
  have "or_empty (fi_filters ?fs) = [?n] @ fe_newPod ''a'' # [] \<and> (\<forall>b \<in> set [?n]. fe_negative b = filterFlowByEntry ?f b)"
    using before by (simp add: or_empty_def)
  then show ?thesis unfolding filterFlow_first_match [of demo_url ?f ?fs] using switches hit by blast
qed

text \<open>filters whose entries are all negative reject every flow and every link, whatever the flow or
  the link is: an entry that excludes one pod hides all the others too.\<close>

theorem negative_filters_reject_everything:
  assumes "fi_filters fs = Some es" "es \<noteq> []" "list_all fe_negative es"
  shows "\<not> filterFlow up f fs \<and> \<not> filterLink l fs"
proof -
  have "or_empty (fi_filters fs) = es" using assms(1) by (simp add: or_empty_def)
  then show ?thesis
    using assms(2) filter_entries_only_negative [OF assms(3)] unfolding filterFlow_eq filterLink_def by simp
qed

theorem negative_filters_reject_everything_witness:
  "\<not> filterFlow demo_url \<lparr>fl_ref = sample_flow 1 ''a'' ''b'', fl_id = None\<rparr>
       (filters_default\<lparr>fi_filters := Some [(fe_newPod ''c'')\<lparr>fe_negative := True\<rparr>]\<rparr>)
   \<and> \<not> filterLink demo_link (filters_default\<lparr>fi_filters := Some [(fe_newPod ''c'')\<lparr>fe_negative := True\<rparr>]\<rparr>)"
  by (rule negative_filters_reject_everything [of _ "[(fe_newPod ''c'')\<lparr>fe_negative := True\<rparr>]"]) simp_all

end
