(* ===== verification/Interaction_Store.thy ===== *)
theory Interaction_Store
  imports Cards Samples
begin

text \<open>
  \<open>src/store/stores/interaction.ts\<close>: the flows and links of a frame and the layer 7 endpoints seen in
  the flows.  The store is a record; \<open>uniqBy\<close> of \<open>lodash\<close> is an argument, whose documented behaviour
  is \<open>uniqBy_doc\<close>; \<open>now\<close> is the clock's reading while an operation runs; \<open>up\<close> is the URL parser.  The
  counters of the link objects, which the stores share, are an explicit store of their own.  Console
  warnings are left out.
\<close>

section \<open>State and operations\<close>

record interaction_store =
  is_flows :: "flow list"
  is_links :: "link list"
  is_l7endpoints :: "l7_endpoint grouped"
  is_lastTime :: int
  is_flowsCnt :: int
  is_tmpFlowsCnt :: int
  is_checkCnt :: int

type_synonym uniq_by = "(flow \<Rightarrow> string) \<Rightarrow> flow list \<Rightarrow> flow list"

definition FLOWS_MAX_COUNT :: nat where
  "FLOWS_MAX_COUNT = 1024"

definition interaction_new :: "int \<Rightarrow> interaction_store" where
  "interaction_new now =
     \<lparr>is_flows = [], is_links = [], is_l7endpoints = [], is_lastTime = now, is_flowsCnt = 0,
      is_tmpFlowsCnt = 0, is_checkCnt = 0\<rparr>"

definition interaction_flowsMap :: "int \<Rightarrow> interaction_store \<Rightarrow> (string, flow) js_map" where
  "interaction_flowsMap now st = fold (\<lambda>f m. map_set (flow_id now f) f m) (is_flows st) []"

definition interaction_linksMap :: "interaction_store \<Rightarrow> (string, link) js_map" where
  "interaction_linksMap st = fold (\<lambda>l m. map_set (link_id l) l m) (is_links st) []"

definition interaction_oldestFlow :: "interaction_store \<Rightarrow> flow option" where
  "interaction_oldestFlow st =
     (let f = is_flows st in if length f = 0 then None else Some (f ! (length f - 1)))"

definition interaction_clone :: "int \<Rightarrow> interaction_store \<Rightarrow> interaction_store" where
  "interaction_clone now st =
     (interaction_new now)\<lparr>is_flows := is_flows st, is_links := is_links st, is_l7endpoints := is_l7endpoints st\<rparr>"

definition interaction_clear :: "interaction_store \<Rightarrow> interaction_store" where
  "interaction_clear st = st\<lparr>is_flows := [], is_links := [], is_l7endpoints := []\<rparr>"

definition interaction_setLinks :: "link list \<Rightarrow> interaction_store \<Rightarrow> interaction_store" where
  "interaction_setLinks links st = st\<lparr>is_links := links\<rparr>"

definition interaction_setFlows :: "flow list \<Rightarrow> bool \<Rightarrow> interaction_store \<Rightarrow> interaction_store" where
  "interaction_setFlows flows sort_opt st =
     (if \<not> sort_opt then st\<lparr>is_flows := flows\<rparr>
      else st\<lparr>is_flows := js_sort (\<lambda>a b. flow_compare b a) flows\<rparr>)"

definition interaction_setHubbleFlows :: "hubble_flow list \<Rightarrow> bool \<Rightarrow> interaction_store \<Rightarrow> interaction_store" where
  "interaction_setHubbleFlows hfs sort_opt st =
     interaction_setFlows (map (\<lambda>hf. \<lparr>fl_ref = hf, fl_id = None\<rparr>) hfs) sort_opt st"

definition interaction_addLink :: "hubble_link \<Rightarrow> interaction_store \<Rightarrow> interaction_store" where
  "interaction_addLink hl st =
     (if map_has (interaction_linksMap st) (hl_id hl) then st
      else st\<lparr>is_links := is_links st @ [link_fromHubbleLink hl]\<rparr>)"

text \<open>\<open>addHubbleLinks\<close> hands \<open>this.addLink\<close> to \<open>forEach\<close> unbound: its first call raises a \<open>TypeError\<close>.\<close>

definition interaction_addHubbleLinks :: "hubble_link list \<Rightarrow> interaction_store \<Rightarrow> interaction_store option" where
  "interaction_addHubbleLinks hls st = (case hls of [] \<Rightarrow> Some st | _ # _ \<Rightarrow> None)"

text \<open>\<open>extractL7Info\<close>.\<close>

definition extract_flow_l7 :: "(string \<Rightarrow> parsed_url) \<Rightarrow> flow \<Rightarrow> l7_endpoint grouped \<Rightarrow> l7_endpoint grouped" where
  "extract_flow_l7 up f eps =
     (case (flow_l7Info f, flow_destinationPort up f) of
        (Some l7, Some port) \<Rightarrow>
          (let ep = l7Endpoint_addVerdict (flow_verdict f) (l7Endpoint_new l7)
           in fst (grouped_upsert l7Endpoint_update (flow_destinationServiceId f) (int_to_string port)
                (l7_kind_str (l7_getKind l7)) (l7Endpoint_id up ep) ep eps))
      | _ \<Rightarrow> eps)"

definition interaction_extractL7Info ::
  "(string \<Rightarrow> parsed_url) \<Rightarrow> flow list \<Rightarrow> interaction_store \<Rightarrow> interaction_store" where
  "interaction_extractL7Info up flows st =
     st\<lparr>is_l7endpoints := fold (extract_flow_l7 up) flows (is_l7endpoints st)\<rparr>"

text \<open>\<open>addFlows\<close> returns the number of flows it keeps and the number it was given.\<close>

definition interaction_addFlows ::
  "uniq_by \<Rightarrow> (string \<Rightarrow> parsed_url) \<Rightarrow> int \<Rightarrow> flow list \<Rightarrow> bool \<Rightarrow> interaction_store \<Rightarrow>
   interaction_store \<times> nat \<times> nat" where
  "interaction_addFlows uniqBy up now newFlows sortDesc st =
     (let sortFn = (if sortDesc then (\<lambda>a b. flow_compare b a) else flow_compare);
          st1 = st\<lparr>is_flows :=
                  take FLOWS_MAX_COUNT (js_sort sortFn (uniqBy (flow_id now) (newFlows @ is_flows st)))\<rparr>;
          st2 = interaction_extractL7Info up newFlows st1;
          st3 = st2\<lparr>is_tmpFlowsCnt := is_tmpFlowsCnt st2 + int (length newFlows)\<rparr>;
          timeDiff = now - is_lastTime st3;
          st4 = (if 1000 \<le> timeDiff
                 then st3\<lparr>is_lastTime := now, is_flowsCnt := is_tmpFlowsCnt st3,
                          is_checkCnt := is_checkCnt st3 + 1\<rparr>
                 else st3)
      in (st4, length (is_flows st4), length newFlows))"

definition interaction_addLinks :: "link list \<Rightarrow> interaction_store \<Rightarrow> interaction_store" where
  "interaction_addLinks links st = fold (\<lambda>l. interaction_addLink (lk_ref l)) links st"

definition interaction_deleteLink :: "hubble_link \<Rightarrow> interaction_store \<Rightarrow> interaction_store" where
  "interaction_deleteLink hl st =
     (if \<not> map_has (interaction_linksMap st) (hl_id hl) then st
      else (case find_index (\<lambda>l. link_id l = hl_id hl) (is_links st) of
              None \<Rightarrow> st
            | Some idx \<Rightarrow>
                (let current = is_links st ! idx
                 in if 1 < length (lk_verdicts current)
                    then st\<lparr>is_links := (is_links st)[idx :=
                           current\<lparr>lk_verdicts := filter (\<lambda>v. v \<noteq> hl_verdict hl) (lk_verdicts current)\<rparr>]\<rparr>
                    else st\<lparr>is_links := take idx (is_links st) @ drop (Suc idx) (is_links st)\<rparr>)))"

definition interaction_updateLink ::
  "hubble_link \<Rightarrow> interaction_store \<times> counters \<Rightarrow> interaction_store \<times> counters" where
  "interaction_updateLink hl stc =
     (let (st, store) = stc
      in if \<not> map_has (interaction_linksMap st) (hl_id hl) then (st, store)
         else (case find_index (\<lambda>l. link_id l = hl_id hl) (is_links st) of
                 None \<Rightarrow> (st, store)
               | Some idx \<Rightarrow>
                   (let (updated, store1) = link_updateWithHubbleLink (is_links st ! idx) hl store
                    in (st\<lparr>is_links := (is_links st)[idx := updated]\<rparr>, store1))))"

definition interaction_upsertHubbleLink ::
  "hubble_link \<Rightarrow> interaction_store \<times> counters \<Rightarrow> interaction_store \<times> counters" where
  "interaction_upsertHubbleLink hl stc =
     (if map_has (interaction_linksMap (fst stc)) (hl_id hl) then interaction_updateLink hl stc
      else (interaction_addLink hl (fst stc), snd stc))"

definition interaction_upsertLinks ::
  "link list \<Rightarrow> interaction_store \<times> counters \<Rightarrow> interaction_store \<times> counters" where
  "interaction_upsertLinks links stc = fold (\<lambda>l. interaction_upsertHubbleLink (lk_ref l)) links stc"

definition interaction_applyLinkChange ::
  "hubble_link \<Rightarrow> state_change \<Rightarrow> interaction_store \<times> counters \<Rightarrow> interaction_store \<times> counters" where
  "interaction_applyLinkChange hl change stc =
     (case change of
        StateChange_Deleted \<Rightarrow> (interaction_deleteLink hl (fst stc), snd stc)
      | StateChange_Added \<Rightarrow> interaction_upsertHubbleLink hl stc
      | StateChange_Modified \<Rightarrow> interaction_upsertHubbleLink hl stc
      | StateChange_Exists \<Rightarrow> interaction_upsertHubbleLink hl stc
      | StateChange_Unknown \<Rightarrow> stc)"

definition interaction_addNewLink :: "link \<Rightarrow> interaction_store \<Rightarrow> interaction_store \<times> bool" where
  "interaction_addNewLink l st =
     (if map_has (interaction_linksMap st) (link_id l) then (st, False)
      else (st\<lparr>is_links := is_links st @ [l]\<rparr>, True))"

text \<open>\<open>moveTo\<close> returns the other store and the two numbers of its result.\<close>

definition interaction_moveTo ::
  "uniq_by \<Rightarrow> (string \<Rightarrow> parsed_url) \<Rightarrow> int \<Rightarrow> interaction_store \<Rightarrow> interaction_store \<Rightarrow>
   interaction_store \<times> int \<times> nat" where
  "interaction_moveTo uniqBy up now st rhs =
     (let wasNFlows = length (is_flows rhs);
          (rhs1, flowsTotalCount, flowsDiffCount) = interaction_addFlows uniqBy up now (is_flows st) True rhs;
          (rhs2, newLinks) =
            fold (\<lambda>l (r, n). let (r', added) = interaction_addNewLink l r in (r', if added then n + 1 else n))
              (is_links st) (rhs1, 0)
      in (rhs2, int wasNFlows - int flowsTotalCount, newLinks))"

definition interaction_getHttpEndpointByParts ::
  "interaction_store \<Rightarrow> string \<Rightarrow> string \<Rightarrow> http_verb option \<Rightarrow> string \<Rightarrow> l7_endpoint option" where
  "interaction_getHttpEndpointByParts st receiverId port method urlPathname =
     (case map_get (is_l7endpoints st) receiverId of
        None \<Rightarrow> None
      | Some ports \<Rightarrow>
          (case map_get ports port of
             None \<Rightarrow> None
           | Some kinds \<Rightarrow>
               (case map_get kinds (l7_kind_str L7Kind_HTTP) of
                  None \<Rightarrow> None
                | Some endpointsMap \<Rightarrow> map_get endpointsMap (l7Endpoint_generateId method urlPathname))))"

definition interaction_getHttpVerdicts ::
  "interaction_store \<Rightarrow> string \<Rightarrow> string \<Rightarrow> http_verb option \<Rightarrow> string \<Rightarrow> verdict list" where
  "interaction_getHttpVerdicts st receiverId port method urlPathname =
     (case interaction_getHttpEndpointByParts st receiverId port method urlPathname of
        None \<Rightarrow> [] | Some ep \<Rightarrow> l7e_verdicts ep)"

definition interaction_connections :: "interaction_store \<Rightarrow> link_connections" where
  "interaction_connections st = linkConnections_buildFromLinks (is_links st)"

section \<open>Links\<close>

text \<open>The abstract view of a store's links: a partial function from identifiers.\<close>

definition wf_links :: "interaction_store \<Rightarrow> bool" where
  "wf_links st \<longleftrightarrow> distinct (map link_id (is_links st))"

definition link_view :: "interaction_store \<Rightarrow> string \<Rightarrow> link option" where
  "link_view st i = find (\<lambda>l. link_id l = i) (is_links st)"

lemma linksMap_has: "map_has (interaction_linksMap st) i \<longleftrightarrow> i \<in> link_id ` set (is_links st)"
  unfolding interaction_linksMap_def by (rule map_has_fold_set)

lemma link_view_None_iff: "link_view st i = None \<longleftrightarrow> i \<notin> link_id ` set (is_links st)"
  by (auto simp: link_view_def find_None_iff)

lemma link_view_SomeD: "link_view st i = Some l \<Longrightarrow> link_id l = i \<and> l \<in> set (is_links st)"
  by (auto simp: link_view_def find_Some_iff)

lemma linksMap_get: "wf_links st \<Longrightarrow> map_get (interaction_linksMap st) i = link_view st i"
proof (cases "link_view st i")
  case None
  then have "i \<notin> link_id ` set (is_links st)" by (simp add: link_view_None_iff)
  then show ?thesis using linksMap_has [of st i] None by auto
next
  case (Some l)
  assume "wf_links st"
  then show ?thesis
    using link_view_SomeD [OF Some] map_get_fold_set_distinct [of link_id "is_links st" l] Some
    by (simp add: interaction_linksMap_def wf_links_def)
qed

lemma find_app: "find p (xs @ ys) = (case find p xs of None \<Rightarrow> find p ys | Some x \<Rightarrow> Some x)"
  by (induction xs) auto

lemma find_map_at:
  "(\<And>x. key (f x) = key x) \<Longrightarrow>
     find (\<lambda>x. key x = j) (map (\<lambda>x. if key x = i then f x else x) xs) =
       (if j = i then map_option f (find (\<lambda>x. key x = i) xs) else find (\<lambda>x. key x = j) xs)"
  by (induction xs) auto

lemma find_filter_not:
  "find (\<lambda>x. key x = j) (filter (\<lambda>x. key x \<noteq> i) xs) = (if j = i then None else find (\<lambda>x. key x = j) xs)"
  by (induction xs) auto

lemma link_id_fromHubbleLink [simp]: "link_id (link_fromHubbleLink hl) = hl_id hl"
  by (simp add: link_id_def link_fromHubbleLink_def)

lemma link_id_verdicts [simp]: "link_id (l\<lparr>lk_verdicts := v\<rparr>) = link_id l"
  by (simp add: link_id_def)

lemma link_update_ref [simp]: "lk_ref (fst (link_updateWithHubbleLink l hl store)) = lk_ref l"
  by (simp add: link_updateWithHubbleLink_def link_clone_def link_fromHubbleLink_def Let_def)

lemma link_id_update [simp]: "link_id (fst (link_updateWithHubbleLink l hl store)) = link_id l"
  by (simp add: link_id_def)

text \<open>What the operations make of the list of links.\<close>

lemma addLink_links:
  "is_links (interaction_addLink hl st) =
     (if link_view st (hl_id hl) = None then is_links st @ [link_fromHubbleLink hl] else is_links st)"
  by (simp add: interaction_addLink_def linksMap_has link_view_None_iff del: not_None_eq)

lemma deleteLink_links:
  assumes "wf_links st"
  shows "is_links (interaction_deleteLink hl st) =
    (case link_view st (hl_id hl) of
       None \<Rightarrow> is_links st
     | Some l \<Rightarrow>
         if 1 < length (lk_verdicts l)
         then map (\<lambda>x. if link_id x = hl_id hl
                       then x\<lparr>lk_verdicts := filter (\<lambda>v. v \<noteq> hl_verdict hl) (lk_verdicts x)\<rparr> else x) (is_links st)
         else filter (\<lambda>x. link_id x \<noteq> hl_id hl) (is_links st))"
proof (cases "find_index (\<lambda>l. link_id l = hl_id hl) (is_links st)")
  case None
  then have "hl_id hl \<notin> link_id ` set (is_links st)" by (auto simp: find_index_None_iff)
  then show ?thesis using link_view_None_iff [of st "hl_id hl"]
    by (simp add: interaction_deleteLink_def linksMap_has del: not_None_eq)
next
  case (Some i)
  let ?l = "is_links st ! i"
  have l: "i < length (is_links st)" "link_id ?l = hl_id hl" using find_index_SomeD [OF Some] by simp_all
  then have has: "hl_id hl \<in> link_id ` set (is_links st)" by (metis imageI nth_mem)
  have view: "link_view st (hl_id hl) = Some ?l"
    using find_distinct_key [of link_id "is_links st" ?l] assms l by (simp add: link_view_def wf_links_def)
  show ?thesis
    using replace_at_key [OF assms [unfolded wf_links_def] Some,
        of "\<lambda>x. x\<lparr>lk_verdicts := filter (\<lambda>v. v \<noteq> hl_verdict hl) (lk_verdicts x)\<rparr>"] remove_at_key [OF assms [unfolded wf_links_def] Some]
      has by (simp add: interaction_deleteLink_def linksMap_has Some view Let_def del: not_None_eq)
qed

lemma upsert_links:
  assumes "wf_links st"
  shows "is_links (fst (interaction_upsertHubbleLink hl (st, store))) =
    (if link_view st (hl_id hl) = None then is_links st @ [link_fromHubbleLink hl]
     else map (\<lambda>x. if link_id x = hl_id hl then fst (link_updateWithHubbleLink x hl store) else x) (is_links st))"
proof (cases "find_index (\<lambda>l. link_id l = hl_id hl) (is_links st)")
  case None
  then have "hl_id hl \<notin> link_id ` set (is_links st)" by (auto simp: find_index_None_iff)
  then show ?thesis
    using link_view_None_iff [of st "hl_id hl"]
    by (simp add: interaction_upsertHubbleLink_def linksMap_has addLink_links del: not_None_eq)
next
  case (Some i)
  let ?l = "is_links st ! i"
  have l: "i < length (is_links st)" "link_id ?l = hl_id hl" using find_index_SomeD [OF Some] by simp_all
  then have has: "hl_id hl \<in> link_id ` set (is_links st)" by (metis imageI nth_mem)
  show ?thesis
    using replace_at_key [OF assms [unfolded wf_links_def] Some, of "\<lambda>x. fst (link_updateWithHubbleLink x hl store)"]
      has link_view_None_iff [of st "hl_id hl"]
    by (simp add: interaction_upsertHubbleLink_def interaction_updateLink_def linksMap_has Some split_def del: not_None_eq)
qed

lemma map_key_at:
  "(\<And>x. key (f x) = key x) \<Longrightarrow> map (key \<circ> (\<lambda>x. if key x = i then f x else x)) xs = map key xs"
  by (induction xs) auto

lemma distinct_map_filter_key: "distinct (map key xs) \<Longrightarrow> distinct (map key (filter p xs))"
  by (induction xs) auto

lemma wf_addLink: "wf_links st \<Longrightarrow> wf_links (interaction_addLink hl st)"
  by (auto simp: wf_links_def addLink_links link_view_None_iff)

lemma wf_deleteLink: "wf_links st \<Longrightarrow> wf_links (interaction_deleteLink hl st)"
proof -
  assume wf: "wf_links st"
  then have "distinct (map link_id (is_links (interaction_deleteLink hl st)))"
    by (cases "link_view st (hl_id hl)")
      (simp_all add: deleteLink_links map_key_at distinct_map_filter_key, simp_all add: wf_links_def distinct_map_filter_key)
  then show ?thesis by (simp add: wf_links_def)
qed

lemma wf_upsert: "wf_links st \<Longrightarrow> wf_links (fst (interaction_upsertHubbleLink hl (st, store)))"
proof -
  assume wf: "wf_links st"
  then have "distinct (map link_id (is_links (fst (interaction_upsertHubbleLink hl (st, store)))))"
    by (cases "link_view st (hl_id hl)")
      (simp_all add: upsert_links map_key_at, simp_all add: wf_links_def link_view_None_iff)
  then show ?thesis by (simp add: wf_links_def)
qed

lemma wf_upsert': "wf_links (fst stc) \<Longrightarrow> wf_links (fst (interaction_upsertHubbleLink hl stc))"
  using wf_upsert by (cases stc) simp

lemma wf_applyLinkChange: "wf_links (fst stc) \<Longrightarrow> wf_links (fst (interaction_applyLinkChange hl ch stc))"
  by (cases ch) (simp_all add: interaction_applyLinkChange_def wf_deleteLink wf_upsert')

lemma wf_addLinks: "wf_links st \<Longrightarrow> wf_links (interaction_addLinks links st)"
  unfolding interaction_addLinks_def by (induction links arbitrary: st) (simp_all add: wf_addLink)

lemma wf_upsertLinks: "wf_links (fst stc) \<Longrightarrow> wf_links (fst (interaction_upsertLinks links stc))"
  unfolding interaction_upsertLinks_def by (induction links arbitrary: stc) (simp_all add: wf_upsert')

lemma addNewLink_links:
  "is_links (fst (interaction_addNewLink l st)) =
     (if link_view st (link_id l) = None then is_links st @ [l] else is_links st)"
  "snd (interaction_addNewLink l st) \<longleftrightarrow> link_view st (link_id l) = None"
  by (simp_all add: interaction_addNewLink_def linksMap_has link_view_None_iff del: not_None_eq)

lemma wf_addNewLink: "wf_links st \<Longrightarrow> wf_links (fst (interaction_addNewLink l st))"
  by (auto simp: wf_links_def addNewLink_links link_view_None_iff)

section \<open>The links as a partial function\<close>

text \<open>What a link change means for the partial function: an upsert adds the verdict and the
  authentication of the message to the link of that identifier or makes a new link; a deletion takes
  one verdict away while there are several, and the link otherwise.\<close>

definition upserted :: "hubble_link \<Rightarrow> link option \<Rightarrow> link" where
  "upserted hl old =
     (case old of
        None \<Rightarrow> link_fromHubbleLink hl
      | Some l \<Rightarrow>
          l\<lparr>lk_verdicts := set_add (hl_verdict hl) (lk_verdicts l),
            lk_authTypes := set_add (hl_authType hl) (lk_authTypes l),
            lk_isEncrypted := hl_isEncrypted (lk_ref l)\<rparr>)"

definition without_verdict :: "hubble_link \<Rightarrow> link \<Rightarrow> link option" where
  "without_verdict hl l =
     (if length (lk_verdicts l) \<le> 1 then None
      else Some (l\<lparr>lk_verdicts := filter (\<lambda>v. v \<noteq> hl_verdict hl) (lk_verdicts l)\<rparr>))"

definition view_change :: "hubble_link \<Rightarrow> state_change \<Rightarrow> (string \<Rightarrow> link option) \<Rightarrow> string \<Rightarrow> link option" where
  "view_change hl change v =
     (case change of
        StateChange_Unknown \<Rightarrow> v
      | StateChange_Deleted \<Rightarrow> v(hl_id hl := Option.bind (v (hl_id hl)) (without_verdict hl))
      | _ \<Rightarrow> v(hl_id hl \<mapsto> upserted hl (v (hl_id hl))))"

lemma link_update_eq: "fst (link_updateWithHubbleLink l hl store) = upserted hl (Some l)"
  by (rule link.equality) (simp_all add: link_updateWithHubbleLink_def link_clone_def link_fromHubbleLink_def
      upserted_def Let_def)

lemma link_id_upserted: "link_id (upserted hl (Some l)) = link_id l"
  by (simp add: upserted_def link_id_def)

lemma view_upsert:
  assumes "wf_links st"
  shows "link_view (fst (interaction_upsertHubbleLink hl (st, store))) =
    (link_view st)(hl_id hl \<mapsto> upserted hl (link_view st (hl_id hl)))"
proof
  fix j
  show "link_view (fst (interaction_upsertHubbleLink hl (st, store))) j =
    ((link_view st)(hl_id hl \<mapsto> upserted hl (link_view st (hl_id hl)))) j"
  proof (cases "link_view st (hl_id hl)")
    case None
    then show ?thesis
      by (auto simp: link_view_def [of "fst _"] upsert_links [OF assms] find_app link_view_def [of st] upserted_def
          split: option.split)
  next
    case (Some l)
    then show ?thesis
      by (simp add: link_view_def [of "fst _"] upsert_links [OF assms] link_update_eq)
        (simp add: find_map_at [of link_id] link_update_eq link_id_upserted link_view_def)
  qed
qed

lemma view_delete:
  assumes "wf_links st"
  shows "link_view (interaction_deleteLink hl st) =
    (link_view st)(hl_id hl := Option.bind (link_view st (hl_id hl)) (without_verdict hl))"
proof
  fix j
  show "link_view (interaction_deleteLink hl st) j =
    ((link_view st)(hl_id hl := Option.bind (link_view st (hl_id hl)) (without_verdict hl))) j"
  proof (cases "link_view st (hl_id hl)")
    case None
    then show ?thesis by (simp add: link_view_def [of "interaction_deleteLink hl st"] deleteLink_links [OF assms])
        (simp add: link_view_def)
  next
    case (Some l)
    then have "find (\<lambda>x. link_id x = hl_id hl) (is_links st) = Some l" by (simp add: link_view_def)
    then show ?thesis using Some
      by (cases "1 < length (lk_verdicts l)")
        (simp_all add: link_view_def [of "interaction_deleteLink hl st"] deleteLink_links [OF assms]
          find_map_at [of link_id] find_filter_not [of link_id] without_verdict_def, simp_all add: link_view_def)
  qed
qed

lemma applyLinkChange_refines_core:
  "wf_links st \<Longrightarrow>
    link_view (fst (interaction_applyLinkChange hl change (st, store))) = view_change hl change (link_view st)
    \<and> wf_links (fst (interaction_applyLinkChange hl change (st, store)))"
  using wf_applyLinkChange [of "(st, store)" hl change]
  by (cases change) (simp_all add: interaction_applyLinkChange_def view_change_def view_upsert view_delete)

text \<open>C3: applying a link change to a store whose links have distinct identifiers does to the store's
  links just what the change means for the partial function from identifiers to links: every other link
  is untouched, an upsert accumulates verdicts, and a deletion removes one verdict or the link.\<close>

theorem applyLinkChange_refines:
  assumes "wf_links st"
  shows "link_view (fst (interaction_applyLinkChange hl change (st, store))) = view_change hl change (link_view st)
    \<and> wf_links (fst (interaction_applyLinkChange hl change (st, store)))"
  using assms by (rule applyLinkChange_refines_core)

theorem applyLinkChange_refines_witness:
  "link_view (fst (interaction_applyLinkChange (sample_hubble_link 0 ''a'' ''1'' ''2'' 80 Verdict_Dropped)
       StateChange_Modified
       (interaction_addLink (sample_hubble_link 1 ''a'' ''1'' ''2'' 80 Verdict_Forwarded) (interaction_new 0),
        \<lambda>_. (0, 0)))) ''a''
   \<noteq> None"
proof -
  have "wf_links (interaction_addLink (sample_hubble_link 1 ''a'' ''1'' ''2'' 80 Verdict_Forwarded) (interaction_new 0))"
    by (rule wf_addLink) (simp add: wf_links_def interaction_new_def)
  note step = applyLinkChange_refines [OF this, of "sample_hubble_link 0 ''a'' ''1'' ''2'' 80 Verdict_Dropped"
      StateChange_Modified "\<lambda>_. (0, 0)", THEN conjunct1]
  show ?thesis unfolding step by (simp add: view_change_def sample_hubble_link_def)
qed

text \<open>deleting a link that was just added to a store without it gives the links the store had.\<close>

theorem link_add_delete_round_trip:
  assumes "wf_links st" "link_view st (hl_id hl) = None"
  shows "link_view (fst (interaction_applyLinkChange hl StateChange_Deleted
     (interaction_applyLinkChange hl StateChange_Added (st, store)))) = link_view st"
proof -
  obtain st1 store1 where st1: "interaction_applyLinkChange hl StateChange_Added (st, store) = (st1, store1)"
    by fastforce
  have "link_view st1 = (link_view st)(hl_id hl \<mapsto> link_fromHubbleLink hl)" "wf_links st1"
    using applyLinkChange_refines_core [OF assms(1), of hl StateChange_Added store] assms(2)
    by (simp_all add: st1 view_change_def upserted_def)
  then show ?thesis
    using applyLinkChange_refines_core [of st1 hl StateChange_Deleted store1] assms(2)
    by (simp add: st1 view_change_def without_verdict_def link_fromHubbleLink_def fun_upd_idem)
qed

theorem link_add_delete_round_trip_witness:
  "link_view (fst (interaction_applyLinkChange (sample_hubble_link 0 ''a'' ''1'' ''2'' 80 Verdict_Dropped)
       StateChange_Deleted
       (interaction_applyLinkChange (sample_hubble_link 0 ''a'' ''1'' ''2'' 80 Verdict_Dropped) StateChange_Added
         (interaction_new 0, \<lambda>_. (0, 0))))) = link_view (interaction_new 0)"
  by (rule link_add_delete_round_trip) (simp_all add: wf_links_def interaction_new_def link_view_def)

section \<open>Flows\<close>

text \<open>What \<open>lodash\<close> documents of \<open>uniqBy\<close>: only the first element of each key is kept.\<close>

definition uniqBy_doc :: "uniq_by \<Rightarrow> bool" where
  "uniqBy_doc uniqBy \<longleftrightarrow>
     (\<forall>key xs. distinct (map key (uniqBy key xs)) \<and> set (uniqBy key xs) \<subseteq> set xs
        \<and> key ` set (uniqBy key xs) = key ` set xs
        \<and> (\<forall>x \<in> set (uniqBy key xs). find (\<lambda>y. key y = key x) xs = Some x))"

fun uniq_first :: "uniq_by" where
  "uniq_first key [] = []"
| "uniq_first key (x # xs) = x # filter (\<lambda>y. key y \<noteq> key x) (uniq_first key xs)"

lemma uniq_first_subset: "set (uniq_first key xs) \<subseteq> set xs"
  by (induction xs) auto

lemma uniqBy_doc_uniq_first: "uniqBy_doc uniq_first"
proof -
  have "distinct (map key (uniq_first key xs)) \<and> set (uniq_first key xs) \<subseteq> set xs
      \<and> key ` set (uniq_first key xs) = key ` set xs
      \<and> (\<forall>x \<in> set (uniq_first key xs). find (\<lambda>y. key y = key x) xs = Some x)" for key xs
  proof (induction xs)
    case (Cons x xs)
    then have "distinct (map key (filter (\<lambda>y. key y \<noteq> key x) (uniq_first key xs)))"
      by (simp add: distinct_map_filter_key)
    moreover have "key ` {y \<in> A. key y \<noteq> key x} = key ` A - {key x}" for A by auto
    ultimately show ?case using Cons by auto
  qed simp
  then show ?thesis by (simp add: uniqBy_doc_def)
qed

interpretation flow_order_desc: comparator "\<lambda>a b. flow_compare b a" "{f. hf_time (fl_ref f) \<noteq> None}"
  by unfold_locales (blast intro: flow_order.cmp_swap flow_order.cmp_trans)+

lemma addFlows_flows:
  "is_flows (fst (interaction_addFlows uniqBy up now fs sortDesc st)) =
     take FLOWS_MAX_COUNT (js_sort (if sortDesc then (\<lambda>a b. flow_compare b a) else flow_compare)
       (uniqBy (flow_id now) (fs @ is_flows st)))"
  by (simp add: interaction_addFlows_def interaction_extractL7Info_def Let_def)

lemma addFlows_links [simp]:
  "is_links (fst (interaction_addFlows uniqBy up now fs sortDesc st)) = is_links st"
  by (simp add: interaction_addFlows_def interaction_extractL7Info_def Let_def)

lemma addFlows_counts:
  "fst (snd (interaction_addFlows uniqBy up now fs sortDesc st)) =
     length (is_flows (fst (interaction_addFlows uniqBy up now fs sortDesc st)))"
  by (simp add: interaction_addFlows_def Let_def)

lemma distinct_map_mset: "mset xs = mset ys \<Longrightarrow> distinct (map f xs) = distinct (map f ys)"
  by (metis mset_eq_imp_distinct_iff mset_map)

lemma distinct_ids_sort: "distinct (map f xs) \<Longrightarrow> distinct (map f (take n (js_sort cmp xs)))"
  using distinct_map_mset [of "js_sort cmp xs" xs f] by (simp add: take_map [symmetric])

text \<open>C1: \<open>addFlows\<close> keeps at most 1024 flows, newest first, one per identifier, all of them given or
  already there; a flow that is not kept has the identifier of one that is kept or is at most as new as
  all the kept ones, of which there are then 1024.\<close>

theorem addFlows_keeps_newest:
  assumes uniq: "uniqBy_doc uniqBy"
    and timed: "\<And>f. f \<in> set (fs @ is_flows st) \<Longrightarrow> hf_time (fl_ref f) \<noteq> None"
    and result: "is_flows (fst (interaction_addFlows uniqBy up now fs True st)) = kept"
  shows "length kept \<le> 1024 \<and> set kept \<subseteq> set (fs @ is_flows st) \<and> distinct (map (flow_id now) kept)
    \<and> sorted_wrt (\<lambda>a b. flow_compare b a \<le> 0) kept
    \<and> (\<forall>f \<in> set (fs @ is_flows st). flow_id now f \<in> flow_id now ` set kept
        \<or> length kept = 1024
          \<and> (\<exists>f0 \<in> set (fs @ is_flows st). flow_id now f0 = flow_id now f
               \<and> (\<forall>g \<in> set kept. flow_compare f0 g \<le> 0)))"
proof -
  let ?all = "fs @ is_flows st" and ?key = "flow_id now" and ?cmp = "\<lambda>a b. flow_compare b a"
  let ?u = "uniqBy ?key ?all"
  define s where "s = js_sort ?cmp ?u"
  have kept: "kept = take 1024 s"
    using result by (simp add: addFlows_flows s_def FLOWS_MAX_COUNT_def)
  have u: "distinct (map ?key ?u)" "set ?u \<subseteq> set ?all" "?key ` set ?u = ?key ` set ?all"
    using uniq unfolding uniqBy_doc_def by blast+
  have set_s: "set s = set ?u" by (simp add: s_def)
  have sorted: "sorted_wrt (\<lambda>a b. flow_compare b a \<le> 0) s"
    unfolding s_def using u(2) timed by (intro flow_order_desc.sorted_js_sort) blast
  have split: "kept @ drop 1024 s = s" by (simp add: kept)
  have sorted2: "sorted_wrt (\<lambda>a b. flow_compare b a \<le> 0) (kept @ drop 1024 s)"
    unfolding split by (rule sorted)
  have sub: "set kept \<subseteq> set ?all" using u(2) set_s set_take_subset unfolding kept by fast
  have dist: "distinct (map ?key kept)" unfolding kept s_def by (rule distinct_ids_sort [OF u(1)])
  have "?key f \<in> ?key ` set kept \<or> length kept = 1024
      \<and> (\<exists>f0 \<in> set ?all. ?key f0 = ?key f \<and> (\<forall>g \<in> set kept. flow_compare f0 g \<le> 0))"
    if f: "f \<in> set ?all" for f
  proof -
    obtain f0 where f0: "f0 \<in> set s" "?key f0 = ?key f"
      using imageI [OF f, of ?key] unfolding u(3) [symmetric] set_s by (metis imageE)
    then consider "f0 \<in> set kept" | "f0 \<in> set (drop 1024 s)" using arg_cong [OF split, of set] by auto
    then show ?thesis
    proof cases
      case 1
      then show ?thesis using f0(2) by (metis imageI)
    next
      case 2
      then have "1024 < length s" by (metis drop_all linorder_not_le list.set(1) empty_iff)
      then have "length kept = 1024" by (simp add: kept)
      moreover have "\<forall>g \<in> set kept. flow_compare f0 g \<le> 0"
        using sorted2 2 unfolding sorted_wrt_append by blast
      ultimately show ?thesis using f0 set_s u(2) by blast
    qed
  qed
  moreover have "sorted_wrt (\<lambda>a b. flow_compare b a \<le> 0) kept"
    using sorted2 unfolding sorted_wrt_append by blast
  ultimately show ?thesis using sub dist by (simp add: kept)
qed

theorem addFlows_keeps_newest_witness:
  "sorted_wrt (\<lambda>a b. flow_compare b a \<le> 0)
     (is_flows (fst (interaction_addFlows uniq_first (\<lambda>u. \<lparr>pu_port = '''', pu_pathname = u\<rparr>) 5
        [\<lparr>fl_ref = sample_flow 1 ''a'' ''b'', fl_id = None\<rparr>, \<lparr>fl_ref = sample_flow 2 ''a'' ''b'', fl_id = None\<rparr>]
        True (interaction_new 0))))"
proof -
  have "hf_time (fl_ref f) \<noteq> None"
    if "f \<in> set ([\<lparr>fl_ref = sample_flow 1 ''a'' ''b'', fl_id = None\<rparr>,
        \<lparr>fl_ref = sample_flow 2 ''a'' ''b'', fl_id = None\<rparr>] @ is_flows (interaction_new 0))" for f
    using that by (auto simp: sample_flow_def interaction_new_def)
  from addFlows_keeps_newest [OF uniqBy_doc_uniq_first this refl] show ?thesis by blast
qed

section \<open>Moving a store into another\<close>

lemma view_addNewLink:
  "link_view (fst (interaction_addNewLink l st)) i =
     (if i = link_id l \<and> link_view st i = None then Some l else link_view st i)"
  by (auto simp: link_view_def [of "fst _"] addNewLink_links find_app link_view_def [of st] split: option.splits)

definition move_links :: "link list \<Rightarrow> interaction_store \<times> nat \<Rightarrow> interaction_store \<times> nat" where
  "move_links ls rn =
     fold (\<lambda>l (r, n). let (r', added) = interaction_addNewLink l r in (r', if added then n + 1 else n)) ls rn"

lemma move_links_Cons:
  "move_links (l # ls) (r, n) =
     move_links ls (fst (interaction_addNewLink l r), if link_view r (link_id l) = None then n + 1 else n)"
  by (simp add: move_links_def split_def Let_def addNewLink_links)

lemma move_links_view:
  "distinct (map link_id ls) \<Longrightarrow>
     link_view (fst (move_links ls (r, n))) i =
       (case link_view r i of Some l \<Rightarrow> Some l | None \<Rightarrow> find (\<lambda>l. link_id l = i) ls)
     \<and> snd (move_links ls (r, n)) = n + length (filter (\<lambda>l. link_view r (link_id l) = None) ls)
     \<and> (wf_links r \<longrightarrow> wf_links (fst (move_links ls (r, n))))"
proof (induction ls arbitrary: r n)
  case Nil
  then show ?case by (simp add: move_links_def split: option.split)
next
  case (Cons l ls)
  let ?r = "fst (interaction_addNewLink l r)"
  have "filter (\<lambda>x. link_view ?r (link_id x) = None) ls = filter (\<lambda>x. link_view r (link_id x) = None) ls"
    using other_keys [OF Cons.prems] by (intro filter_cong) (auto simp: view_addNewLink)
  moreover have "find (\<lambda>x. link_id x = link_id l) ls = None"
    using other_keys [OF Cons.prems] by (simp add: find_None_iff)
  moreover have "distinct (map link_id ls)" using Cons.prems by simp
  ultimately show ?case
    using Cons.IH [of ?r "if link_view r (link_id l) = None then n + 1 else n"] wf_addNewLink [of r l]
    by (simp add: move_links_Cons view_addNewLink split: option.split)
qed

lemma moveTo_eq:
  "interaction_moveTo uniqBy up now st rhs =
     (let rhs1 = fst (interaction_addFlows uniqBy up now (is_flows st) True rhs);
          (rhs2, newLinks) = move_links (is_links st) (rhs1, 0)
      in (rhs2, int (length (is_flows rhs)) - int (length (is_flows rhs1)), newLinks))"
  by (simp add: interaction_moveTo_def Let_def split_def addFlows_counts move_links_def)

lemma addFlows_view [simp]:
  "link_view (fst (interaction_addFlows uniqBy up now fs sortDesc st)) = link_view st"
  by (rule ext) (simp add: link_view_def)

text \<open>\<open>moveTo\<close> gives the other store the links it lacked, leaves its own ones as they were and counts
  the new ones.\<close>

theorem moveTo_links:
  assumes "wf_links st"
  shows "link_view (fst (interaction_moveTo uniqBy up now st rhs)) i =
      (case link_view rhs i of Some l \<Rightarrow> Some l | None \<Rightarrow> link_view st i)
    \<and> snd (snd (interaction_moveTo uniqBy up now st rhs)) =
      length (filter (\<lambda>l. link_view rhs (link_id l) = None) (is_links st))"
  using move_links_view [of "is_links st" "fst (interaction_addFlows uniqBy up now (is_flows st) True rhs)" 0 i]
    assms by (simp add: moveTo_eq Let_def split_def wf_links_def link_view_def [of st i] split: option.splits)

theorem moveTo_links_witness:
  "snd (snd (interaction_moveTo uniq_first (\<lambda>u. \<lparr>pu_port = '''', pu_pathname = u\<rparr>) 5
     (interaction_addLink (sample_hubble_link 0 ''a'' ''1'' ''2'' 80 Verdict_Dropped) (interaction_new 0))
     (interaction_new 0))) = 1"
proof -
  let ?st = "interaction_addLink (sample_hubble_link 0 ''a'' ''1'' ''2'' 80 Verdict_Dropped) (interaction_new 0)"
  have wf: "wf_links ?st" by (rule wf_addLink) (simp add: wf_links_def interaction_new_def)
  show ?thesis
    unfolding moveTo_links [OF wf, THEN conjunct2]
    by (simp add: addLink_links interaction_new_def link_view_def)
qed

text \<open>\<open>moveTo\<close> never reports a new flow: the number it gives is the old length less the new one, so it
  is zero or negative whenever the flows of the other store have distinct identifiers and fit the limit.\<close>

theorem moveTo_reports_no_new_flows:
  assumes "uniqBy_doc uniqBy" "distinct (map (flow_id now) (is_flows rhs))" "length (is_flows rhs) \<le> FLOWS_MAX_COUNT"
  shows "fst (snd (interaction_moveTo uniqBy up now st rhs)) \<le> 0"
proof -
  let ?key = "flow_id now"
  let ?u = "uniqBy ?key (is_flows st @ is_flows rhs)"
  have u: "distinct (map ?key ?u)" "?key ` set ?u = ?key ` set (is_flows st @ is_flows rhs)"
    using assms(1) unfolding uniqBy_doc_def by blast+
  have "length (is_flows rhs) = card (?key ` set (is_flows rhs))"
    using distinct_card [OF assms(2)] by simp
  also have "\<dots> \<le> card (?key ` set ?u)" unfolding u(2) by (intro card_mono) auto
  also have "\<dots> = length ?u" using distinct_card [OF u(1)] by simp
  finally show ?thesis
    using assms(3) by (simp add: moveTo_eq Let_def split_def addFlows_flows)
qed

theorem moveTo_reports_no_new_flows_witness:
  "fst (snd (interaction_moveTo uniq_first (\<lambda>u. \<lparr>pu_port = '''', pu_pathname = u\<rparr>) 5
     ((interaction_new 0)\<lparr>is_flows := [\<lparr>fl_ref = sample_flow 1 ''a'' ''b'', fl_id = None\<rparr>]\<rparr>)
     (interaction_new 0))) \<le> 0"
  by (rule moveTo_reports_no_new_flows [OF uniqBy_doc_uniq_first]) (simp_all add: interaction_new_def)

section \<open>Layer 7 endpoints\<close>

definition grouped_lookup :: "'e grouped \<Rightarrow> string \<Rightarrow> string \<Rightarrow> string \<Rightarrow> string \<Rightarrow> 'e option" where
  "grouped_lookup g r p k e = conn_lookup (get_or_empty g r) p k e"

lemma grouped_upsert_eq:
  "grouped_upsert upd r p k e ep g =
     (map_set r (fst (conn_upsert upd p k e ep (get_or_empty g r))) (if map_has g r then g else map_set r [] g),
      snd (conn_upsert upd p k e ep (get_or_empty g r)))"
  unfolding grouped_upsert_def Let_def get_or_empty_ensure by (simp add: case_prod_beta')

lemma grouped_lookup_upsert:
  "grouped_lookup (fst (grouped_upsert upd r p k e ep g)) r' p' k' e' =
     (if (r', p', k', e') = (r, p, k, e)
      then Some (case grouped_lookup g r p k e of None \<Rightarrow> ep | Some old \<Rightarrow> upd old ep)
      else grouped_lookup g r' p' k' e')"
  by (auto simp: grouped_lookup_def grouped_upsert_eq conn_lookup_upsert)

lemma getHttpEndpoint_eq:
  "interaction_getHttpEndpointByParts st r p m path =
     grouped_lookup (is_l7endpoints st) r p (l7_kind_str L7Kind_HTTP) (l7Endpoint_generateId m path)"
  by (simp add: interaction_getHttpEndpointByParts_def grouped_lookup_def conn_lookup_def get_or_empty_def
      split: option.split)

definition shows_http ::
  "(string \<Rightarrow> parsed_url) \<Rightarrow> flow \<Rightarrow> string \<Rightarrow> string \<Rightarrow> http_verb option \<Rightarrow> string \<Rightarrow> bool" where
  "shows_http up f r p m path \<longleftrightarrow>
     (\<exists>l7 port. flow_l7Info f = Some l7 \<and> flow_destinationPort up f = Some port \<and> p = int_to_string port
        \<and> r = flow_destinationServiceId f \<and> l7_http l7 \<noteq> None
        \<and> l7_getEndpointId up l7 = httpIdFromParts m path)"

lemma l7Endpoint_id_new [simp]:
  "l7Endpoint_id up (l7Endpoint_addVerdict v (l7Endpoint_new l7)) = l7_getEndpointId up l7"
  by (simp add: l7Endpoint_id_def l7Endpoint_addVerdict_def l7Endpoint_new_def)

lemma kind_is_http: "l7_kind_str (l7_getKind l7) = l7_kind_str L7Kind_HTTP \<longleftrightarrow> l7_http l7 \<noteq> None"
  by (simp add: l7_getKind_def)

definition endpoint_verdicts :: "l7_endpoint option \<Rightarrow> verdict set" where
  "endpoint_verdicts e = (case e of None \<Rightarrow> {} | Some ep \<Rightarrow> set (l7e_verdicts ep))"

lemma set_fold_set_add: "set (fold set_add ys xs) = set xs \<union> set ys"
  by (induction ys arbitrary: xs) auto

lemma extract_one:
  "endpoint_verdicts (grouped_lookup (extract_flow_l7 up f g) r p (l7_kind_str L7Kind_HTTP) (httpIdFromParts m path)) =
     endpoint_verdicts (grouped_lookup g r p (l7_kind_str L7Kind_HTTP) (httpIdFromParts m path))
     \<union> (if shows_http up f r p m path then {flow_verdict f} else {})"
proof (cases "flow_l7Info f"; cases "flow_destinationPort up f")
  fix l7 port assume here: "flow_l7Info f = Some l7" "flow_destinationPort up f = Some port"
  let ?ep = "l7Endpoint_addVerdict (flow_verdict f) (l7Endpoint_new l7)"
  have upd: "set (l7e_verdicts (l7Endpoint_update old ?ep)) = insert (flow_verdict f) (set (l7e_verdicts old))" for old
    by (auto simp: l7Endpoint_update_def l7Endpoint_addVerdict_def l7Endpoint_new_def set_add_all_def set_add_def)
  have new: "set (l7e_verdicts ?ep) = {flow_verdict f}"
    by (simp add: l7Endpoint_addVerdict_def l7Endpoint_new_def set_add_def)
  have shown: "shows_http up f r p m path \<longleftrightarrow>
      (r, p, l7_kind_str L7Kind_HTTP, httpIdFromParts m path) =
      (flow_destinationServiceId f, int_to_string port, l7_kind_str (l7_getKind l7), l7_getEndpointId up l7)"
    using kind_is_http [of l7] here by (auto simp: shows_http_def)
  show ?thesis
    unfolding shown extract_flow_l7_def here prod.case option.case Let_def grouped_lookup_upsert l7Endpoint_id_new
    using upd new by (auto simp: endpoint_verdicts_def split: option.split)
qed (auto simp: extract_flow_l7_def shows_http_def)

text \<open>C27: after \<open>extractL7Info\<close> the verdicts shown for an HTTP method and path of a service's port are those
  shown before and the verdicts of the flows that carry such a request.\<close>

theorem extractL7Info_http_verdicts:
  "set (interaction_getHttpVerdicts (interaction_extractL7Info up flows st) r p m path) =
     set (interaction_getHttpVerdicts st r p m path) \<union> {flow_verdict f | f. f \<in> set flows \<and> shows_http up f r p m path}"
proof -
  have get: "set (interaction_getHttpVerdicts st r p m path) =
      endpoint_verdicts (grouped_lookup (is_l7endpoints st) r p (l7_kind_str L7Kind_HTTP) (httpIdFromParts m path))" for st
    by (simp add: interaction_getHttpVerdicts_def getHttpEndpoint_eq endpoint_verdicts_def l7Endpoint_generateId_def
        split: option.split)
  have "endpoint_verdicts (grouped_lookup (fold (extract_flow_l7 up) flows g) r p (l7_kind_str L7Kind_HTTP)
          (httpIdFromParts m path)) =
      endpoint_verdicts (grouped_lookup g r p (l7_kind_str L7Kind_HTTP) (httpIdFromParts m path))
      \<union> {flow_verdict f | f. f \<in> set flows \<and> shows_http up f r p m path}" for g
  proof (induction flows arbitrary: g)
    case (Cons f flows)
    then show ?case by (auto simp: extract_one simp del: l7_kind_str.simps split: if_splits)
  qed simp
  then show ?thesis unfolding get by (simp add: interaction_extractL7Info_def)
qed

section \<open>Runs of a store\<close>

text \<open>One step of a store: an operation a frame calls on it, with the counters of the link objects.\<close>

inductive interaction_step ::
  "uniq_by \<Rightarrow> (string \<Rightarrow> parsed_url) \<Rightarrow> interaction_store \<times> counters \<Rightarrow> interaction_store \<times> counters \<Rightarrow> bool"
  for uniqBy up where
  step_addFlows: "interaction_step uniqBy up (st, c) (fst (interaction_addFlows uniqBy up now fs sortDesc st), c)"
| step_addLinks: "interaction_step uniqBy up (st, c) (interaction_addLinks links st, c)"
| step_change: "interaction_step uniqBy up stc (interaction_applyLinkChange hl change stc)"
| step_upsertLinks: "interaction_step uniqBy up stc (interaction_upsertLinks links stc)"
| step_moved: "wf_links from_st \<Longrightarrow>
    interaction_step uniqBy up (st, c) (fst (interaction_moveTo uniqBy up now from_st st), c)"
| step_clear: "interaction_step uniqBy up (st, c) (interaction_clear st, c)"
| step_clone: "interaction_step uniqBy up (st, c) (interaction_clone now st, c)"

inductive_cases interaction_stepE: "interaction_step uniqBy up (st, c) stc'"

definition interaction_inv :: "interaction_store \<Rightarrow> bool" where
  "interaction_inv st \<longleftrightarrow> wf_links st \<and> length (is_flows st) \<le> FLOWS_MAX_COUNT"

lemma addFlows_inv: "interaction_inv st \<Longrightarrow> interaction_inv (fst (interaction_addFlows uniqBy up now fs d st))"
  by (simp add: interaction_inv_def wf_links_def addFlows_flows)

lemma addLink_flows [simp]: "is_flows (interaction_addLink hl st) = is_flows st"
  by (simp add: interaction_addLink_def)

lemma addLinks_flows [simp]: "is_flows (interaction_addLinks links st) = is_flows st"
  unfolding interaction_addLinks_def by (induction links arbitrary: st) simp_all

lemma upsert_flows [simp]: "is_flows (fst (interaction_upsertHubbleLink hl stc)) = is_flows (fst stc)"
  by (cases stc) (simp add: interaction_upsertHubbleLink_def interaction_updateLink_def split_def Let_def split: option.split)

lemma upsertLinks_flows [simp]: "is_flows (fst (interaction_upsertLinks links stc)) = is_flows (fst stc)"
  unfolding interaction_upsertLinks_def by (induction links arbitrary: stc) simp_all

lemma applyLinkChange_flows [simp]: "is_flows (fst (interaction_applyLinkChange hl ch stc)) = is_flows (fst stc)"
  by (cases ch) (simp_all add: interaction_applyLinkChange_def interaction_deleteLink_def Let_def split: option.split)

lemma move_links_flows: "is_flows (fst (move_links ls (r, n))) = is_flows r"
  by (induction ls arbitrary: r n) (simp_all add: move_links_Cons, simp_all add: move_links_def interaction_addNewLink_def)

lemma moveTo_inv:
  "interaction_inv st \<Longrightarrow> wf_links from_st \<Longrightarrow> interaction_inv (fst (interaction_moveTo uniqBy up now from_st st))"
  using move_links_view [of "is_links from_st" "fst (interaction_addFlows uniqBy up now (is_flows from_st) True st)" 0]
  by (simp add: interaction_inv_def moveTo_eq Let_def split_def move_links_flows addFlows_flows wf_links_def)

lemmas inv_steps = wf_addLinks wf_upsertLinks wf_applyLinkChange addFlows_inv moveTo_inv

lemma interaction_step_inv:
  "interaction_step uniqBy up stc stc' \<Longrightarrow> interaction_inv (fst stc) \<Longrightarrow> interaction_inv (fst stc')"
proof (induction rule: interaction_step.induct)
  case (step_addFlows st c now fs d)
  then show ?case by (simp add: addFlows_inv)
next
  case (step_moved from_st st c now)
  then show ?case by (simp add: moveTo_inv)
qed (simp_all add: interaction_inv_def wf_addLinks wf_upsertLinks wf_applyLinkChange,
    simp_all add: wf_links_def interaction_clear_def interaction_clone_def interaction_new_def)

text \<open>C2: whatever sequence of operations on flows and links runs on a new store, its links have distinct identifiers and it
  holds at most 1024 flows.  Not among the operations are \<open>setLinks\<close>, \<open>setFlows\<close> and \<open>setHubbleFlows\<close>, by which a set-up from
  a log file puts whole lists in place.\<close>

theorem interaction_store_invariant:
  assumes "(interaction_step uniqBy up)\<^sup>*\<^sup>* (interaction_new now, c) (st, c')"
  shows "distinct (map link_id (is_links st)) \<and> length (is_flows st) \<le> 1024"
proof -
  have "interaction_inv (fst (st, c'))"
    using assms
  proof (induction rule: rtranclp_induct)
    case base
    then show ?case by (simp add: interaction_inv_def wf_links_def interaction_new_def)
  qed (rule interaction_step_inv)
  then show ?thesis by (simp add: interaction_inv_def wf_links_def FLOWS_MAX_COUNT_def)
qed

theorem interaction_store_invariant_witness:
  "distinct (map link_id (is_links (interaction_addLinks
     [link_fromHubbleLink (sample_hubble_link 0 ''a'' ''1'' ''2'' 80 Verdict_Dropped),
      link_fromHubbleLink (sample_hubble_link 1 ''a'' ''1'' ''3'' 80 Verdict_Dropped)] (interaction_new 0))))"
  using interaction_store_invariant [of uniq_first "\<lambda>u. \<lparr>pu_port = '''', pu_pathname = u\<rparr>" 0 "\<lambda>_. (0, 0)",
      OF r_into_rtranclp [of "interaction_step uniq_first (\<lambda>u. \<lparr>pu_port = '''', pu_pathname = u\<rparr>)",
        OF step_addLinks]]
  by blast

section \<open>Counters\<close>

lemma upsert_counters:
  assumes "wf_links st"
  shows "snd (interaction_upsertHubbleLink hl (st, c)) =
    (case link_view st (hl_id hl) of
       None \<Rightarrow> c
     | Some l \<Rightarrow>
         (let r = hl_ref (lk_ref l); h = hl_ref hl
          in c(r := (fst (c r) + fst (c h), snd (c r) + snd (c h)))))"
proof (cases "find_index (\<lambda>l. link_id l = hl_id hl) (is_links st)")
  case None
  then have "hl_id hl \<notin> link_id ` set (is_links st)" by (auto simp: find_index_None_iff)
  then show ?thesis
    using link_view_None_iff [of st "hl_id hl"]
    by (simp add: interaction_upsertHubbleLink_def linksMap_has del: not_None_eq)
next
  case (Some i)
  let ?l = "is_links st ! i"
  have l: "i < length (is_links st)" "link_id ?l = hl_id hl" using find_index_SomeD [OF Some] by simp_all
  then have has: "hl_id hl \<in> link_id ` set (is_links st)" by (metis imageI nth_mem)
  have view: "link_view st (hl_id hl) = Some ?l"
    using find_distinct_key [of link_id "is_links st" ?l] assms l by (simp add: link_view_def wf_links_def)
  have "snd (link_updateWithHubbleLink ?l hl c) =
      (let r = hl_ref (lk_ref ?l); h = hl_ref hl in c(r := (fst (c r) + fst (c h), snd (c r) + snd (c h))))"
    by (rule ext) (simp add: link_updateWithHubbleLink_def link_clone_def link_fromHubbleLink_def Let_def)
  then show ?thesis
    using has by (simp add: interaction_upsertHubbleLink_def interaction_updateLink_def linksMap_has Some view split_def
        del: not_None_eq)
qed

end
