(* ===== verification/Service_Store.thy ===== *)
theory Service_Store
  imports Cards Samples
begin

text \<open>
  \<open>src/store/stores/service.ts\<close>: the service cards of a frame.  The store is the list of its cards; a
  card found through \<open>cardsMap\<close> is changed in place, which here replaces it in the list.  The map keeps
  the last card of an identifier, so the last one is the one that changes.  The lemmas give the store
  as a partial function from identifiers to cards.
\<close>

section \<open>State and operations\<close>

type_synonym service_store = "service_card list"

fun modify_first :: "('a \<Rightarrow> bool) \<Rightarrow> ('a \<Rightarrow> 'a) \<Rightarrow> 'a list \<Rightarrow> 'a list" where
  "modify_first p f [] = []"
| "modify_first p f (x # xs) = (if p x then f x # xs else x # modify_first p f xs)"

definition modify_card :: "string \<Rightarrow> (service_card \<Rightarrow> service_card) \<Rightarrow> service_store \<Rightarrow> service_store" where
  "modify_card i f cards = rev (modify_first (\<lambda>c. card_id c = i) f (rev cards))"

definition services_cardsMap :: "service_store \<Rightarrow> (string, service_card) js_map" where
  "services_cardsMap cards = fold (\<lambda>c m. map_set (hs_id (sc_service c)) c m) cards []"

definition services_cardsIdentityMap :: "service_store \<Rightarrow> (string, service_card) js_map" where
  "services_cardsIdentityMap cards =
     fold (\<lambda>c m.
       if sc_identity c = 0 then m
       else if map_has m (int_to_string (sc_identity c)) then m
       else map_set (int_to_string (sc_identity c)) c m) cards []"

definition services_cardsDomainMap :: "service_store \<Rightarrow> (string, service_card) js_map" where
  "services_cardsDomainMap cards =
     fold (\<lambda>c m.
       if \<not> truthy (card_domain c) then m
       else if map_has m (the (card_domain c)) then m
       else map_set (the (card_domain c)) c m) cards []"

definition services_workloadKey :: "workload \<Rightarrow> string" where
  "services_workloadKey w = wl_kind w @ ''/'' @ wl_name w"

definition services_cardWorkloadsMap :: "service_store \<Rightarrow> (string, service_card) js_map" where
  "services_cardWorkloadsMap cards =
     fold (\<lambda>c m.
       case card_workload c of
         None \<Rightarrow> m
       | Some w \<Rightarrow> if map_has m (services_workloadKey w) then m else map_set (services_workloadKey w) c m) cards []"

fun seen_clusters :: "string list \<Rightarrow> service_card list \<Rightarrow> bool" where
  "seen_clusters seen [] = False"
| "seen_clusters seen (c # cs) =
     (let seen1 = (if truthy (card_clusterName c) then set_add (the (card_clusterName c)) seen else seen)
      in if 1 < length seen1 then True else seen_clusters seen1 cs)"

definition services_isClusterMeshed :: "service_store \<Rightarrow> bool" where
  "services_isClusterMeshed cards = seen_clusters [] cards"

definition services_byId :: "service_store \<Rightarrow> string \<Rightarrow> service_card option" where
  "services_byId cards i = map_get (services_cardsMap cards) i"

definition services_byWorkload :: "service_store \<Rightarrow> workload option \<Rightarrow> service_card option" where
  "services_byWorkload cards wl =
     (case wl of None \<Rightarrow> None | Some w \<Rightarrow> map_get (services_cardWorkloadsMap cards) (services_workloadKey w))"

definition services_byFilterEntry :: "service_store \<Rightarrow> filter_entry \<Rightarrow> service_card option" where
  "services_byFilterEntry cards fe =
     (if fe_kind fe = Kind_Identity then map_get (services_cardsIdentityMap cards) (fe_query fe)
      else if fe_kind fe = Kind_Dns then map_get (services_cardsDomainMap cards) (fe_query fe)
      else if fe_kind fe = Kind_Workload then services_byWorkload cards (fe_asWorkload fe)
      else None)"

definition services_clear :: "service_store \<Rightarrow> service_store" where
  "services_clear cards = []"

definition services_hasOtherCardsWithTheSameCaption :: "service_store \<Rightarrow> service_card \<Rightarrow> bool" where
  "services_hasOtherCardsWithTheSameCaption cards crd =
     (find (\<lambda>c. card_id c \<noteq> card_id crd \<and> card_caption crd = card_caption c) cards \<noteq> None)"

definition services_set :: "hubble_service list \<Rightarrow> service_store" where
  "services_set svcs = map card_fromService svcs"

definition services_deleteService :: "hubble_service \<Rightarrow> service_store \<Rightarrow> service_store" where
  "services_deleteService svc cards =
     (if \<not> map_has (services_cardsMap cards) (hs_id svc) then cards
      else (case find_index (\<lambda>s. card_id s = hs_id svc) cards of
              None \<Rightarrow> cards
            | Some idx \<Rightarrow> take idx cards @ drop (Suc idx) cards))"

text \<open>\<open>upsertService\<close> of a card; of a service it is that of a fresh card.\<close>

definition services_upsertCard :: "service_card \<Rightarrow> service_store \<Rightarrow> service_store" where
  "services_upsertCard svc cards =
     (case map_get (services_cardsMap cards) (card_id svc) of
        None \<Rightarrow> cards @ [svc]
      | Some _ \<Rightarrow>
          modify_card (card_id svc) (\<lambda>existing.
            let e1 = fold card_upsertAccessPoint (map_values (sc_accessPoints svc)) existing
            in if sc_identity e1 = 0 then fst (card_setIdentity (sc_identity svc) e1) else e1) cards)"

definition services_upsertService :: "hubble_service \<Rightarrow> service_store \<Rightarrow> service_store" where
  "services_upsertService svc cards = services_upsertCard (card_fromService svc) cards"

definition services_applyServiceChange ::
  "hubble_service \<Rightarrow> state_change \<Rightarrow> service_store \<Rightarrow> service_store" where
  "services_applyServiceChange svc change cards =
     (if change = StateChange_Deleted then services_deleteService svc cards
      else if change = StateChange_Modified then services_upsertService svc cards
      else if map_has (services_cardsMap cards) (hs_id svc) then cards
      else cards @ [card_fromService svc])"

definition services_applyServiceChanges ::
  "(hubble_service \<times> state_change) list \<Rightarrow> service_store \<Rightarrow> service_store" where
  "services_applyServiceChanges changes cards =
     fold (\<lambda>(svc, change). services_applyServiceChange svc change) changes cards"

text \<open>\<open>moveTo\<close> adds up \<open>Number(undefined)\<close>, which is not a number.\<close>

definition services_moveTo :: "service_store \<Rightarrow> service_store \<Rightarrow> service_store \<times> js_num" where
  "services_moveTo cards rhs =
     fold (\<lambda>c (r, numAdded). (services_upsertCard c r, JNaN)) cards (rhs, js_finite 0)"

definition services_extractAccessPoint :: "service_endpoint \<Rightarrow> service_store \<Rightarrow> service_store" where
  "services_extractAccessPoint ap cards =
     (case map_get (services_cardsMap cards) (se_serviceId ap) of
        None \<Rightarrow> cards
      | Some _ \<Rightarrow> modify_card (se_serviceId ap) (card_upsertAccessPoint ap) cards)"

definition services_extractAccessPoints :: "service_endpoint list \<Rightarrow> service_store \<Rightarrow> service_store" where
  "services_extractAccessPoints aps cards = fold services_extractAccessPoint aps cards"

definition services_replaceWithServiceMap :: "service_map \<Rightarrow> service_store" where
  "services_replaceWithServiceMap sm =
     services_extractAccessPoints (map serviceEndpoint_fromLink (serviceMap_linksList sm))
       (services_set (serviceMap_servicesList sm))"

definition services_extendWithServiceMap :: "service_map \<Rightarrow> service_store \<Rightarrow> service_store" where
  "services_extendWithServiceMap sm cards =
     services_extractAccessPoints (map serviceEndpoint_fromLink (serviceMap_linksList sm))
       (fold services_upsertService (serviceMap_servicesList sm) cards)"

section \<open>The store as a partial function\<close>

definition wf_services :: "service_store \<Rightarrow> bool" where
  "wf_services cards \<longleftrightarrow> distinct (map card_id cards)"

definition card_view :: "service_store \<Rightarrow> string \<Rightarrow> service_card option" where
  "card_view cards i = map_get (services_cardsMap cards) i"

text \<open>A change of a card that keeps its service keeps the identifiers of the store.\<close>

locale card_update =
  fixes f :: "service_card \<Rightarrow> service_card"
  assumes keeps_service: "sc_service (f c) = sc_service c"
begin

lemma keeps_id [simp]: "card_id (f c) = card_id c"
  by (simp add: card_id_def keeps_service)

lemma modify_first_ids: "map card_id (modify_first p f cards) = map card_id cards"
  by (induction cards) simp_all

lemma modify_ids [simp]: "map card_id (modify_card i f cards) = map card_id cards"
  using modify_first_ids [of "\<lambda>c. card_id c = i" "rev cards"] by (simp add: modify_card_def rev_map [symmetric])

lemma modify_first_find:
  "find (\<lambda>c. card_id c = j) (modify_first (\<lambda>c. card_id c = i) f cards) =
     (if j = i then map_option f (find (\<lambda>c. card_id c = i) cards) else find (\<lambda>c. card_id c = j) cards)"
  by (induction cards) auto

end

interpretation upsert_ap: card_update "card_upsertAccessPoint ap"
  by unfold_locales simp

lemma card_view_find: "card_view cards i = find (\<lambda>c. card_id c = i) (rev cards)"
  unfolding card_view_def services_cardsMap_def card_id_def [symmetric] map_get_fold_set
  by (simp split: option.split)

context card_update
begin

lemma view_modify:
  "card_view (modify_card i f cards) j =
     (if j = i then map_option f (card_view cards i) else card_view cards j)"
  by (simp add: card_view_find modify_card_def modify_first_find)

lemma wf_modify: "wf_services (modify_card i f cards) = wf_services cards"
  by (simp add: wf_services_def)

end

lemma card_view_None_iff: "card_view cards i = None \<longleftrightarrow> i \<notin> card_id ` set cards"
  by (auto simp: card_view_find find_None_iff)

lemma card_view_app:
  "card_view (cards @ [c]) i = (if i = card_id c then Some c else card_view cards i)"
  by (simp add: card_view_find)
section \<open>Upserts and changes\<close>

definition upserted_card :: "service_card \<Rightarrow> service_card \<Rightarrow> service_card" where
  "upserted_card svc existing =
     (let e1 = fold card_upsertAccessPoint (map_values (sc_accessPoints svc)) existing
      in if sc_identity e1 = 0 then fst (card_setIdentity (sc_identity svc) e1) else e1)"

lemma fold_upsert_service [simp]:
  "sc_service (fold card_upsertAccessPoint aps c) = sc_service c"
  "sc_identity (fold card_upsertAccessPoint aps c) = sc_identity c"
  by (induction aps arbitrary: c) simp_all

interpretation upsert_card: card_update "upserted_card svc"
  by unfold_locales (simp add: upserted_card_def Let_def card_setIdentity_def)

lemma upsertCard_eq:
  "services_upsertCard svc cards =
     (if card_view cards (card_id svc) = None then cards @ [svc]
      else modify_card (card_id svc) (upserted_card svc) cards)"
  by (simp add: services_upsertCard_def card_view_def upserted_card_def [abs_def] split: option.split)

lemma wf_upsertCard: "wf_services cards \<Longrightarrow> wf_services (services_upsertCard svc cards)"
  by (simp add: upsertCard_eq upsert_card.wf_modify) (auto simp: wf_services_def card_view_None_iff)

lemma view_upsertCard:
  "card_view (services_upsertCard svc cards) =
     (card_view cards)(card_id svc \<mapsto>
        (case card_view cards (card_id svc) of None \<Rightarrow> svc | Some c \<Rightarrow> upserted_card svc c))"
  by (rule ext) (auto simp: upsertCard_eq card_view_app upsert_card.view_modify)

lemma upserted_fresh:
  "upserted_card (card_fromService svc) c =
     (if sc_identity c = 0 then c\<lparr>sc_identity := hs_identity svc\<rparr> else c)"
  by (simp add: upserted_card_def card_fromService_def card_setIdentity_def)

lemma card_id_fromService [simp]: "card_id (card_fromService svc) = hs_id svc"
  by (simp add: card_id_def card_fromService_def)

lemma deleteService_eq:
  assumes "wf_services cards"
  shows "services_deleteService svc cards = filter (\<lambda>c. card_id c \<noteq> hs_id svc) cards"
proof (cases "find_index (\<lambda>c. card_id c = hs_id svc) cards")
  case None
  then have "\<forall>c \<in> set cards. card_id c \<noteq> hs_id svc" by (simp add: find_index_None_iff)
  then show ?thesis by (simp add: services_deleteService_def None)
next
  case (Some i)
  then have "hs_id svc \<in> card_id ` set cards" using find_index_SomeD [OF Some] by (metis imageI nth_mem)
  then have "map_get (services_cardsMap cards) (hs_id svc) \<noteq> None"
    using card_view_None_iff [of cards "hs_id svc"] by (simp add: card_view_def)
  then show ?thesis
    using remove_at_key [OF assms [unfolded wf_services_def] Some] by (auto simp: services_deleteService_def Some)
qed

lemma card_view_filter_not:
  "card_view (filter (\<lambda>c. card_id c \<noteq> i) cards) j = (if j = i then None else card_view cards j)"
proof -
  have "find (\<lambda>c. card_id c = j) (filter (\<lambda>c. card_id c \<noteq> i) xs) =
      (if j = i then None else find (\<lambda>c. card_id c = j) xs)" for xs
    by (induction xs) auto
  then show ?thesis by (simp add: card_view_find rev_filter)
qed

text \<open>What a service change means for the partial function.\<close>

definition view_service_change ::
  "hubble_service \<Rightarrow> state_change \<Rightarrow> (string \<Rightarrow> service_card option) \<Rightarrow> string \<Rightarrow> service_card option" where
  "view_service_change svc change v =
     (case (change, v (hs_id svc)) of
        (StateChange_Deleted, _) \<Rightarrow> v(hs_id svc := None)
      | (_, None) \<Rightarrow> v(hs_id svc \<mapsto> card_fromService svc)
      | (StateChange_Modified, Some c) \<Rightarrow>
          (if sc_identity c = 0 then v(hs_id svc \<mapsto> c\<lparr>sc_identity := hs_identity svc\<rparr>) else v)
      | (_, Some c) \<Rightarrow> v)"

lemma applyServiceChange_core:
  assumes "wf_services cards"
  shows "card_view (services_applyServiceChange svc change cards) = view_service_change svc change (card_view cards)"
    and "wf_services (services_applyServiceChange svc change cards)"
proof -
  show "card_view (services_applyServiceChange svc change cards) = view_service_change svc change (card_view cards)"
  proof (cases "change = StateChange_Deleted")
    case True
    then show ?thesis
      by (auto simp: services_applyServiceChange_def deleteService_eq [OF assms] card_view_filter_not
          view_service_change_def split: option.split)
  next
    case not_deleted: False
    show ?thesis
    proof (cases "change = StateChange_Modified")
      case True
      then show ?thesis
        by (auto simp: services_applyServiceChange_def services_upsertService_def view_upsertCard upserted_fresh
            view_service_change_def split: option.split)
    next
      case False
      then show ?thesis using not_deleted
        by (cases change; cases "card_view cards (hs_id svc)")
          (auto simp: services_applyServiceChange_def view_service_change_def card_view_app card_view_def [symmetric])
    qed
  qed
  show "wf_services (services_applyServiceChange svc change cards)"
    using assms wf_upsertCard [OF assms, of "card_fromService svc"] card_view_None_iff [of cards "hs_id svc"]
    by (auto simp: services_applyServiceChange_def deleteService_eq services_upsertService_def
        card_view_def [symmetric] wf_services_def distinct_map_filter)
qed

text \<open>C12: a service change does to the store what it means for the partial function from identifiers to cards:
  a deletion removes the card, any other change adds a missing card and leaves the other cards alone.\<close>

theorem applyServiceChange_refines:
  assumes "wf_services cards"
  shows "card_view (services_applyServiceChange svc change cards) = view_service_change svc change (card_view cards)
    \<and> wf_services (services_applyServiceChange svc change cards)"
  using applyServiceChange_core [OF assms] by blast

theorem applyServiceChange_refines_witness:
  "card_view (services_applyServiceChange (sample_service ''a'' [] 1) StateChange_Deleted
     (services_set [sample_service ''a'' [] 1, sample_service ''b'' [] 2])) ''a'' = None"
proof -
  have "wf_services (services_set [sample_service ''a'' [] 1, sample_service ''b'' [] 2])"
    by (simp add: wf_services_def services_set_def) (simp add: sample_service_def)
  note * = applyServiceChange_refines [OF this, THEN conjunct1]
  show ?thesis unfolding * by (simp add: view_service_change_def sample_service_def)
qed

text \<open>a message that a service was modified changes nothing once the service has a card with an identity:
  its new labels, names and workloads are dropped.\<close>

theorem modified_service_is_ignored:
  assumes "card_view cards (hs_id svc) = Some c" "sc_identity c \<noteq> 0"
  shows "card_view (services_applyServiceChange svc StateChange_Modified cards) = card_view cards"
  using assms
  by (auto simp: services_applyServiceChange_def services_upsertService_def view_upsertCard upserted_fresh)

theorem modified_service_is_ignored_witness:
  "card_view (services_applyServiceChange (sample_service ''a'' [\<lparr>kv_key = ''x'', kv_value = ''y''\<rparr>] 1)
     StateChange_Modified (services_set [sample_service ''a'' [] 1])) =
   card_view (services_set [sample_service ''a'' [] 1])"
  by (rule modified_service_is_ignored [of _ _ "card_fromService (sample_service ''a'' [] 1)"])
    (simp_all add: services_set_def card_view_find, simp_all add: sample_service_def card_fromService_def)

section \<open>Access points\<close>

lemma extractAccessPoint_eq:
  "services_extractAccessPoint ap cards =
     (if card_view cards (se_serviceId ap) = None then cards
      else modify_card (se_serviceId ap) (card_upsertAccessPoint ap) cards)"
  by (simp add: services_extractAccessPoint_def card_view_def split: option.split)

lemma view_extractAccessPoint:
  "card_view (services_extractAccessPoint ap cards) k =
     (if k = se_serviceId ap then map_option (card_upsertAccessPoint ap) (card_view cards k) else card_view cards k)"
  by (auto simp: extractAccessPoint_eq upsert_ap.view_modify)

lemma wf_extractAccessPoint: "wf_services cards \<Longrightarrow> wf_services (services_extractAccessPoint ap cards)"
  by (simp add: extractAccessPoint_eq upsert_ap.wf_modify)

lemma wf_extractAccessPoints: "wf_services cards \<Longrightarrow> wf_services (services_extractAccessPoints aps cards)"
  unfolding services_extractAccessPoints_def by (induction aps arbitrary: cards) (simp_all add: wf_extractAccessPoint)

definition ap_verdicts :: "service_store \<Rightarrow> string \<Rightarrow> string \<Rightarrow> verdict set" where
  "ap_verdicts cards k a =
     (case card_view cards k of
        None \<Rightarrow> {}
      | Some c \<Rightarrow> (case map_get (sc_accessPoints c) a of None \<Rightarrow> {} | Some e \<Rightarrow> set (se_verdicts e)))"

lemma ap_verdicts_extract:
  "ap_verdicts (services_extractAccessPoint ap cards) k a =
     ap_verdicts cards k a
     \<union> (if card_view cards k \<noteq> None \<and> se_serviceId ap = k \<and> serviceEndpoint_id ap = a
        then set (se_verdicts ap) else {})"
  by (cases "card_view cards k")
    (auto simp: ap_verdicts_def view_extractAccessPoint card_upsertAccessPoint_get serviceEndpoint_update_def
      set_set_add_all split: option.splits)

text \<open>extracting the access points of links gives each access point of a card the verdicts it had and those
  of the links to that port of that service; links to services without a card are dropped.\<close>

theorem extractAccessPoints_verdicts:
  "ap_verdicts (services_extractAccessPoints (map serviceEndpoint_fromLink links) cards) k a =
     ap_verdicts cards k a
     \<union> (\<Union>l \<in> {l \<in> set links. card_view cards k \<noteq> None \<and> link_destinationId l = k
            \<and> serviceEndpoint_id (serviceEndpoint_fromLink l) = a}. set (lk_verdicts l))"
  unfolding services_extractAccessPoints_def
proof (induction links arbitrary: cards)
  case (Cons l links)
  have "card_view (services_extractAccessPoint (serviceEndpoint_fromLink l) cards) k \<noteq> None \<longleftrightarrow> card_view cards k \<noteq> None"
    by (simp add: view_extractAccessPoint)
  moreover have "se_serviceId (serviceEndpoint_fromLink l) = link_destinationId l"
    "set (se_verdicts (serviceEndpoint_fromLink l)) = set (lk_verdicts l)"
    by (simp_all add: serviceEndpoint_fromLink_def serviceEndpoint_new_def set_of_list_def)
  ultimately show ?case
    by (simp add: Cons ap_verdicts_extract del: not_None_eq) auto
qed simp

section \<open>Moving and finding cards\<close>

lemma moveTo_services:
  "services_moveTo cards rhs =
     (fold services_upsertCard cards rhs, if cards = [] then js_finite 0 else JNaN)"
proof -
  have "fold (\<lambda>c (r, numAdded). (services_upsertCard c r, JNaN)) cards (r, n) =
      (fold services_upsertCard cards r, if cards = [] then n else JNaN)" for r n
    by (induction cards arbitrary: r n) simp_all
  then show ?thesis by (simp add: services_moveTo_def)
qed

text \<open>\<open>moveTo\<close> gives the other store a card for every identifier of either store and its count of added cards
  is not a number as soon as there is a card to move.\<close>

theorem moveTo_cards:
  "dom (card_view (fst (services_moveTo cards rhs))) = dom (card_view rhs) \<union> card_id ` set cards
   \<and> (snd (services_moveTo cards rhs) = JNaN \<longleftrightarrow> cards \<noteq> [])"
proof -
  have "dom (card_view (fold services_upsertCard cards r)) = dom (card_view r) \<union> card_id ` set cards" for r
    by (induction cards arbitrary: r) (auto simp: view_upsertCard)
  then show ?thesis by (simp add: moveTo_services js_finite_def Let_def)
qed

lemma identityMap_get:
  "map_get (services_cardsIdentityMap cards) (int_to_string n) =
     (if n = 0 then None else find (\<lambda>c. sc_identity c = n) cards)"
proof -
  have "map_get (fold (\<lambda>c m. if sc_identity c = 0 then m
        else if map_has m (int_to_string (sc_identity c)) then m
        else map_set (int_to_string (sc_identity c)) c m) cards m) (int_to_string n) =
      (case map_get m (int_to_string n) of
         Some c \<Rightarrow> Some c | None \<Rightarrow> if n = 0 then None else find (\<lambda>c. sc_identity c = n) cards)" for m
  proof (induction cards arbitrary: m)
    case (Cons c cards)
    show ?case
      by (cases "sc_identity c = n"; cases "map_get m (int_to_string n)")
        (auto simp: Cons.IH simp del: not_None_eq split: option.split)
  qed (simp split: option.split)
  then show ?thesis by (simp add: services_cardsIdentityMap_def)
qed

text \<open>the card found under an identity filter is the first card of that identity; nothing is found for
  identity zero.\<close>

theorem byFilterEntry_identity:
  "services_byFilterEntry cards (fe_newIdentity (int_to_string n)) =
     (if n = 0 then None else find (\<lambda>c. sc_identity c = n) cards)"
  by (simp add: services_byFilterEntry_def fe_newIdentity_def fe_new_def identityMap_get)

end
