(* ===== verification/Control_Stores.thy ===== *)
theory Control_Stores
  imports Diffs Flows
begin

text \<open>
  \<open>src/store/stores/namespace.ts\<close> and \<open>src/store/stores/controls.ts\<close>: the namespaces a relay reported,
  the current one, and what the control interfaces set.  A plain object used as a dictionary lists its
  array-index keys first and answers for the names every object inherits.
\<close>

section \<open>Objects as dictionaries\<close>

definition array_index :: "string \<Rightarrow> int option" where
  "array_index s =
     (case parse_int s of
        None \<Rightarrow> None
      | Some n \<Rightarrow> if 0 \<le> n \<and> n < 2 ^ 32 - 1 \<and> int_to_string n = s then Some n else None)"

definition object_values :: "(string, 'v) js_map \<Rightarrow> 'v list" where
  "object_values m =
     map snd (js_sort (\<lambda>a b. the (array_index (fst a)) - the (array_index (fst b)))
        (filter (\<lambda>kv. array_index (fst kv) \<noteq> None) m))
     @ map snd (filter (\<lambda>kv. array_index (fst kv) = None) m)"

definition inherited_names :: "string list" where
  "inherited_names =
     [''constructor'', ''__defineGetter__'', ''__defineSetter__'', ''hasOwnProperty'', ''__lookupGetter__'',
      ''__lookupSetter__'', ''isPrototypeOf'', ''propertyIsEnumerable'', ''toString'', ''valueOf'',
      ''__proto__'', ''toLocaleString'']"

section \<open>Namespaces\<close>

record namespace_descriptor =
  nd_namespace :: string
  nd_relay :: bool

record namespace_store =
  ns_relayNamespaces :: "(string, namespace_descriptor) js_map"
  ns_currentNamespace :: "string option"

definition namespaces_new :: namespace_store where
  "namespaces_new = \<lparr>ns_relayNamespaces = [], ns_currentNamespace = None\<rparr>"

definition namespaces_clear :: "namespace_store \<Rightarrow> namespace_store" where
  "namespaces_clear st = st\<lparr>ns_relayNamespaces := []\<rparr>"

definition namespaces_get :: "namespace_store \<Rightarrow> string option \<Rightarrow> namespace_descriptor option" where
  "namespaces_get st ns =
     map_option (\<lambda>n. \<lparr>nd_namespace = n, nd_relay = map_has (ns_relayNamespaces st) n\<rparr>) ns"

definition namespaces_current :: "namespace_store \<Rightarrow> namespace_descriptor option" where
  "namespaces_current st = namespaces_get st (ns_currentNamespace st)"

definition namespaces_isSet :: "namespace_store \<Rightarrow> bool" where
  "namespaces_isSet st \<longleftrightarrow> namespaces_current st \<noteq> None"

definition namespaces_setCurrent :: "string option \<Rightarrow> namespace_store \<Rightarrow> namespace_store \<times> bool" where
  "namespaces_setCurrent ns st =
     (let st1 = st\<lparr>ns_currentNamespace := ns\<rparr> in (st1, namespaces_current st1 \<noteq> None))"

text \<open>\<open>set\<close>: the second argument makes the namespace current whenever it is given, even as \<open>false\<close>.\<close>

definition namespaces_set :: "namespace_descriptor \<Rightarrow> bool option \<Rightarrow> namespace_store \<Rightarrow> namespace_store" where
  "namespaces_set ns isCurrent st =
     (let st1 = (if nd_relay ns
                 then st\<lparr>ns_relayNamespaces := map_set (nd_namespace ns) ns (ns_relayNamespaces st)\<rparr> else st)
      in if isCurrent \<noteq> None then fst (namespaces_setCurrent (Some (nd_namespace ns)) st1) else st1)"

definition namespaces_has :: "namespace_descriptor \<Rightarrow> namespace_store \<Rightarrow> bool" where
  "namespaces_has ns st \<longleftrightarrow> map_has (ns_relayNamespaces st) (nd_namespace ns)"

definition namespaces_add :: "namespace_descriptor list \<Rightarrow> namespace_store \<Rightarrow> namespace_store" where
  "namespaces_add nsd st = fold (\<lambda>d. namespaces_set d None) nsd st"

definition namespaces_addRelayNamespaces :: "string list \<Rightarrow> namespace_store \<Rightarrow> namespace_store" where
  "namespaces_addRelayNamespaces nss st =
     fold (\<lambda>ns. namespaces_set \<lparr>nd_namespace = ns, nd_relay = True\<rparr> None) nss st"

definition namespaces_applyChange ::
  "namespace_descriptor \<Rightarrow> state_change \<Rightarrow> namespace_store \<Rightarrow> namespace_store" where
  "namespaces_applyChange ns ch st = namespaces_set ns None st"

definition namespaces_clone :: "namespace_store \<Rightarrow> namespace_store" where
  "namespaces_clone st =
     fst (namespaces_setCurrent (ns_currentNamespace st)
       (fold (\<lambda>desc. namespaces_set desc None) (map_values (ns_relayNamespaces st)) namespaces_new))"

definition lower_before :: "namespace_descriptor \<Rightarrow> namespace_descriptor \<Rightarrow> int" where
  "lower_before a b =
     (if str_compare (to_lower (nd_namespace a)) (to_lower (nd_namespace b)) < 0 then -1 else 1)"

definition namespaces_relayNamespaces :: "namespace_store \<Rightarrow> namespace_descriptor list" where
  "namespaces_relayNamespaces st = js_sort lower_before (map_values (ns_relayNamespaces st))"

text \<open>One step of \<open>combinedNamespaces\<close>; for an inherited name the object already has a truthy value, which is
  given the field and never listed.\<close>

definition combine_namespace ::
  "namespace_descriptor \<Rightarrow> (string, namespace_descriptor) js_map \<Rightarrow> (string, namespace_descriptor) js_map" where
  "combine_namespace ns m =
     (if nd_namespace ns \<in> set inherited_names then m
      else (let m1 = (if map_has m (nd_namespace ns) then m else map_set (nd_namespace ns) ns m)
            in case map_get m1 (nd_namespace ns) of
                 None \<Rightarrow> m1
               | Some d \<Rightarrow> map_set (nd_namespace ns) (d\<lparr>nd_relay := nd_relay d \<or> nd_relay ns\<rparr>) m1))"

definition namespaces_combinedNamespaces :: "namespace_store \<Rightarrow> namespace_descriptor list" where
  "namespaces_combinedNamespaces st =
     object_values (fold combine_namespace (namespaces_relayNamespaces st) [])"

section \<open>Controls\<close>

datatype application = Application_ServiceMap

record control_store =
  cs_currentApp :: application
  cs_selectedTableFlow :: "flow option"
  cs_showCrossNamespaceActivity :: bool
  cs_verdicts :: "verdict list"
  cs_httpStatus :: "string option"
  cs_flowFilters :: "filter_entry list"
  cs_showHost :: bool
  cs_showKubeDns :: bool
  cs_showRemoteNode :: bool
  cs_showPrometheusApp :: bool

definition controls_new :: control_store where
  "controls_new =
     \<lparr>cs_currentApp = Application_ServiceMap, cs_selectedTableFlow = None,
      cs_showCrossNamespaceActivity = True, cs_verdicts = [], cs_httpStatus = None, cs_flowFilters = [],
      cs_showHost = False, cs_showKubeDns = False, cs_showRemoteNode = False, cs_showPrometheusApp = False\<rparr>"

definition controls_clone :: "control_store \<Rightarrow> control_store" where
  "controls_clone st =
     controls_new\<lparr>cs_selectedTableFlow := map_option flow_clone (cs_selectedTableFlow st),
       cs_showCrossNamespaceActivity := cs_showCrossNamespaceActivity st, cs_verdicts := cs_verdicts st,
       cs_httpStatus := cs_httpStatus st, cs_flowFilters := cs_flowFilters st,
       cs_currentApp := cs_currentApp st\<rparr>"

definition controls_resetUserSelected :: "control_store \<Rightarrow> control_store" where
  "controls_resetUserSelected st =
     st\<lparr>cs_selectedTableFlow := None, cs_verdicts := [], cs_httpStatus := None, cs_flowFilters := []\<rparr>"

definition controls_setCurrentApp :: "application \<Rightarrow> control_store \<Rightarrow> control_store \<times> application \<times> bool" where
  "controls_setCurrentApp app st =
     (st\<lparr>cs_currentApp := app\<rparr>, cs_currentApp st, cs_currentApp st \<noteq> app)"

definition controls_selectTableFlow :: "flow option \<Rightarrow> control_store \<Rightarrow> control_store" where
  "controls_selectTableFlow f st = st\<lparr>cs_selectedTableFlow := f\<rparr>"

definition controls_setCrossNamespaceActivity :: "bool \<Rightarrow> control_store \<Rightarrow> control_store" where
  "controls_setCrossNamespaceActivity v st = st\<lparr>cs_showCrossNamespaceActivity := v\<rparr>"

definition controls_toggleVerdict :: "verdict option \<Rightarrow> control_store \<Rightarrow> control_store \<times> verdict list" where
  "controls_toggleVerdict v st =
     (let nextVerdicts = (case v of None \<Rightarrow> [] | Some w \<Rightarrow> [w])
      in (st\<lparr>cs_verdicts := nextVerdicts\<rparr>, nextVerdicts))"

definition controls_setVerdicts :: "verdict list \<Rightarrow> control_store \<Rightarrow> control_store" where
  "controls_setVerdicts vs st = st\<lparr>cs_verdicts := vs\<rparr>"

definition controls_setHttpStatus :: "string option \<Rightarrow> control_store \<Rightarrow> control_store \<times> string option" where
  "controls_setHttpStatus s st = (st\<lparr>cs_httpStatus := s\<rparr>, cs_httpStatus st)"

definition controls_setFlowFilters ::
  "filter_entry list \<Rightarrow> control_store \<Rightarrow> control_store \<times> filter_entry list" where
  "controls_setFlowFilters ffs st = (st\<lparr>cs_flowFilters := ffs\<rparr>, cs_flowFilters st)"

definition controls_setShowHost :: "bool \<Rightarrow> control_store \<Rightarrow> control_store \<times> bool" where
  "controls_setShowHost v st = (st\<lparr>cs_showHost := v\<rparr>, v)"

definition controls_toggleShowHost :: "control_store \<Rightarrow> control_store \<times> bool" where
  "controls_toggleShowHost st = controls_setShowHost (\<not> cs_showHost st) st"

definition controls_setShowKubeDns :: "bool \<Rightarrow> control_store \<Rightarrow> control_store \<times> bool" where
  "controls_setShowKubeDns v st = (st\<lparr>cs_showKubeDns := v\<rparr>, v)"

definition controls_toggleShowKubeDns :: "control_store \<Rightarrow> control_store \<times> bool" where
  "controls_toggleShowKubeDns st = controls_setShowKubeDns (\<not> cs_showKubeDns st) st"

definition controls_setShowRemoteNode :: "bool \<Rightarrow> control_store \<Rightarrow> control_store \<times> bool" where
  "controls_setShowRemoteNode v st = (st\<lparr>cs_showRemoteNode := v\<rparr>, v)"

definition controls_toggleShowRemoteNode :: "control_store \<Rightarrow> control_store \<times> bool" where
  "controls_toggleShowRemoteNode st = controls_setShowRemoteNode (\<not> cs_showRemoteNode st) st"

definition controls_setShowPrometheusApp :: "bool \<Rightarrow> control_store \<Rightarrow> control_store \<times> bool" where
  "controls_setShowPrometheusApp v st = (st\<lparr>cs_showPrometheusApp := v\<rparr>, v)"

definition controls_toggleShowPrometheusApp :: "control_store \<Rightarrow> control_store \<times> bool" where
  "controls_toggleShowPrometheusApp st = controls_setShowPrometheusApp (\<not> cs_showPrometheusApp st) st"

definition controls_setFilters :: "filters \<Rightarrow> control_store \<Rightarrow> control_store" where
  "controls_setFilters f st =
     st\<lparr>cs_verdicts := or_empty (fi_verdicts f), cs_httpStatus := fi_httpStatus f,
       cs_flowFilters := or_empty (fi_filters f), cs_showHost := \<not> is_on (fi_skipHost f),
       cs_showKubeDns := \<not> is_on (fi_skipKubeDns f), cs_showRemoteNode := \<not> is_on (fi_skipRemoteNode f),
       cs_showPrometheusApp := \<not> is_on (fi_skipPrometheusApp f)\<rparr>"

definition controls_filteredFlowFilters :: "control_store \<Rightarrow> filter_entry list" where
  "controls_filteredFlowFilters st = filter (\<lambda>f. fe_kind f \<noteq> Kind_TCPFlag) (cs_flowFilters st)"

definition controls_areSomeFilterEntriesEnabled :: "filter_entry list \<Rightarrow> control_store \<Rightarrow> bool" where
  "controls_areSomeFilterEntriesEnabled fes st =
     list_ex (\<lambda>fe. fe_toString fe \<in> set (map fe_toString (controls_filteredFlowFilters st))) fes"

definition controls_activeVerdict :: "control_store \<Rightarrow> verdict option" where
  "controls_activeVerdict st = (case cs_verdicts st of [] \<Rightarrow> None | v # _ \<Rightarrow> Some v)"

section \<open>Namespaces: invariant and copies\<close>

definition wf_namespaces :: "namespace_store \<Rightarrow> bool" where
  "wf_namespaces st \<longleftrightarrow>
     wf_map (ns_relayNamespaces st)
     \<and> (\<forall>(k, d) \<in> set (ns_relayNamespaces st). k = nd_namespace d \<and> nd_relay d)"

lemma set_map_set: "set (map_set k v m) \<subseteq> insert (k, v) (set m)"
  by (induction m) auto

lemma namespaces_set_map:
  "ns_relayNamespaces (namespaces_set d cur st) =
     (if nd_relay d then map_set (nd_namespace d) d (ns_relayNamespaces st) else ns_relayNamespaces st)"
  by (simp add: namespaces_set_def namespaces_setCurrent_def Let_def)

lemma wf_namespaces_set:
  assumes "wf_namespaces st"
  shows "wf_namespaces (namespaces_set d cur st)"
proof (cases "nd_relay d")
  case True
  have "k = nd_namespace e \<and> nd_relay e"
    if "(k, e) \<in> set (map_set (nd_namespace d) d (ns_relayNamespaces st))" for k e
    using that set_map_set [of "nd_namespace d" d "ns_relayNamespaces st"] assms True
    unfolding wf_namespaces_def by blast
  then show ?thesis using assms by (auto simp: wf_namespaces_def namespaces_set_map True)
qed (use assms in \<open>simp add: wf_namespaces_def namespaces_set_map\<close>)

lemma wf_namespaces_new: "wf_namespaces namespaces_new"
  by (simp add: wf_namespaces_def namespaces_new_def)

lemma wf_namespaces_add: "wf_namespaces st \<Longrightarrow> wf_namespaces (namespaces_add ds st)"
  unfolding namespaces_add_def by (induction ds arbitrary: st) (simp_all add: wf_namespaces_set)

lemma fold_namespaces_set:
  "distinct (map nd_namespace ds) \<Longrightarrow> list_all nd_relay ds \<Longrightarrow>
   (\<And>d. d \<in> set ds \<Longrightarrow> map_get (ns_relayNamespaces st) (nd_namespace d) = None) \<Longrightarrow>
   fold (\<lambda>d. namespaces_set d None) ds st =
     st\<lparr>ns_relayNamespaces := ns_relayNamespaces st @ map (\<lambda>d. (nd_namespace d, d)) ds\<rparr>"
proof (induction ds arbitrary: st)
  case (Cons d ds)
  have "namespaces_set d None st =
      st\<lparr>ns_relayNamespaces := ns_relayNamespaces st @ [(nd_namespace d, d)]\<rparr>"
    using Cons.prems(2) Cons.prems(3) [of d] by (simp add: namespaces_set_def map_set_new)
  moreover have "map_get (ns_relayNamespaces st @ [(nd_namespace d, d)]) (nd_namespace e) = None"
    if "e \<in> set ds" for e
    using that Cons.prems(3) [of e] other_keys [OF Cons.prems(1) that] by (simp add: map_add_def)
  ultimately show ?case using Cons by simp
qed simp

lemma wf_namespaces_values:
  assumes "wf_namespaces st"
  shows "map (\<lambda>d. (nd_namespace d, d)) (map_values (ns_relayNamespaces st)) = ns_relayNamespaces st"
    and "distinct (map nd_namespace (map_values (ns_relayNamespaces st)))"
    and "list_all nd_relay (map_values (ns_relayNamespaces st))"
proof -
  have key: "nd_namespace (snd x) = fst x" if "x \<in> set (ns_relayNamespaces st)" for x
    using assms that by (cases x) (auto simp: wf_namespaces_def)
  have "map (\<lambda>x. (nd_namespace (snd x), snd x)) (ns_relayNamespaces st) = ns_relayNamespaces st"
    using key by (intro map_idI) simp
  then show "map (\<lambda>d. (nd_namespace d, d)) (map_values (ns_relayNamespaces st)) = ns_relayNamespaces st"
    by (simp add: comp_def)
  have keys: "map (\<lambda>x. nd_namespace (snd x)) (ns_relayNamespaces st) = map_keys (ns_relayNamespaces st)"
    using key by (intro map_cong) simp_all
  show "distinct (map nd_namespace (map_values (ns_relayNamespaces st)))"
    unfolding map_map comp_def keys using assms by (simp add: wf_namespaces_def)
  show "list_all nd_relay (map_values (ns_relayNamespaces st))"
    using assms by (force simp: wf_namespaces_def list_all_iff)
qed

text \<open>a copy of a namespace store that was filled by its operations is equal to it, the order of the
  namespaces included.\<close>

theorem namespaces_clone_equal:
  assumes "wf_namespaces st"
  shows "namespaces_clone st = st"
proof -
  have "fold (\<lambda>d. namespaces_set d None) (map_values (ns_relayNamespaces st)) namespaces_new =
      namespaces_new\<lparr>ns_relayNamespaces := ns_relayNamespaces st\<rparr>"
    using fold_namespaces_set [OF wf_namespaces_values(2,3) [OF assms], of namespaces_new]
      wf_namespaces_values(1) [OF assms] by (simp add: namespaces_new_def)
  then show ?thesis by (simp add: namespaces_clone_def namespaces_setCurrent_def namespaces_new_def Let_def)
qed

theorem namespaces_clone_equal_witness:
  "namespaces_clone (namespaces_addRelayNamespaces [''b'', ''a''] namespaces_new) =
     namespaces_addRelayNamespaces [''b'', ''a''] namespaces_new"
  by (rule namespaces_clone_equal)
    (simp add: namespaces_addRelayNamespaces_def wf_namespaces_set wf_namespaces_new)

section \<open>The list of namespaces shown\<close>

lemma combine_namespace_new:
  assumes "map_get m (nd_namespace d) = None"
  shows "combine_namespace d m =
    (if nd_namespace d \<in> set inherited_names then m else m @ [(nd_namespace d, d)])"
proof -
  have get: "map_get (m @ [(nd_namespace d, d)]) (nd_namespace d) = Some d" using assms by (simp add: map_add_def)
  then show ?thesis
    using assms by (simp add: combine_namespace_def Let_def map_set_new map_set_same [OF get])
qed

lemma combine_fold:
  "distinct (map nd_namespace ds) \<Longrightarrow> (\<And>d. d \<in> set ds \<Longrightarrow> map_get m (nd_namespace d) = None) \<Longrightarrow>
   fold combine_namespace ds m =
     m @ map (\<lambda>d. (nd_namespace d, d)) (filter (\<lambda>d. nd_namespace d \<notin> set inherited_names) ds)"
proof (induction ds arbitrary: m)
  case (Cons d ds)
  have old: "map_get m (nd_namespace e) = None" if "e \<in> set ds" for e using that Cons.prems(2) by simp
  have new: "map_get (m @ [(nd_namespace d, d)]) (nd_namespace e) = None" if "e \<in> set ds" for e
    using old [OF that] other_keys [OF Cons.prems(1) that] by (simp add: map_add_def)
  have d: "combine_namespace d m =
      (if nd_namespace d \<in> set inherited_names then m else m @ [(nd_namespace d, d)])"
    using Cons.prems(2) [of d] by (intro combine_namespace_new) simp
  show ?case
    using Cons.IH [OF _ old] Cons.IH [OF _ new] Cons.prems(1) by (simp add: d)
qed simp

lemma mset_object_values: "mset (object_values m) = mset (map snd m)"
proof -
  have split: "mset (map snd (filter P m)) + mset (map snd (filter (\<lambda>kv. \<not> P kv) m)) = mset (map snd m)" for P
    by (induction m) auto
  show ?thesis
    using split [of "\<lambda>kv. array_index (fst kv) \<noteq> None"] by (simp add: object_values_def)
qed

text \<open>the namespaces shown are the ones a relay reported, each once, but for those with a name that every
  object inherits: the namespace \<open>constructor\<close> is never shown.\<close>

theorem combinedNamespaces_shown:
  assumes "wf_namespaces st"
  shows "mset (namespaces_combinedNamespaces st) =
    mset (filter (\<lambda>d. nd_namespace d \<notin> set inherited_names) (map_values (ns_relayNamespaces st)))"
proof -
  have "mset (map nd_namespace (namespaces_relayNamespaces st)) =
      mset (map nd_namespace (map_values (ns_relayNamespaces st)))"
    by (simp add: namespaces_relayNamespaces_def image_mset.compositionality)
  then have "distinct (map nd_namespace (namespaces_relayNamespaces st))"
    using wf_namespaces_values(2) [OF assms] by (metis mset_eq_imp_distinct_iff)
  then show ?thesis
    unfolding namespaces_combinedNamespaces_def mset_object_values
    using combine_fold [of "namespaces_relayNamespaces st" "[]"]
    by (simp add: comp_def mset_filter namespaces_relayNamespaces_def)
qed

theorem combinedNamespaces_shown_witness:
  "namespaces_combinedNamespaces (namespaces_addRelayNamespaces [''constructor''] namespaces_new) = []"
proof -
  let ?st = "namespaces_addRelayNamespaces [''constructor''] namespaces_new"
  have "wf_namespaces ?st"
    by (simp add: namespaces_addRelayNamespaces_def wf_namespaces_set wf_namespaces_new)
  from combinedNamespaces_shown [OF this] show ?thesis
    by (simp add: namespaces_addRelayNamespaces_def namespaces_set_def namespaces_new_def inherited_names_def)
qed

text \<open>a change of a namespace never takes one away: a deletion leaves the namespace in the store, and adds it
  when it was not there.\<close>

theorem deleted_namespace_stays:
  assumes "nd_relay ns"
  shows "namespaces_has ns (namespaces_applyChange ns StateChange_Deleted st)"
  using assms by (simp add: namespaces_has_def namespaces_applyChange_def namespaces_set_def)

theorem deleted_namespace_stays_witness:
  "namespaces_has \<lparr>nd_namespace = ''a'', nd_relay = True\<rparr>
     (namespaces_applyChange \<lparr>nd_namespace = ''a'', nd_relay = True\<rparr> StateChange_Deleted namespaces_new)"
  by (rule deleted_namespace_stays) simp

end
