(* ===== verification/Frame_Store.thy ===== *)
theory Frame_Store
  imports Filtering Interaction_Store Service_Store Control_Stores
begin

text \<open>
  \<open>src/store/frame.ts\<close> and \<open>src/store/stores/main.ts\<close>: a frame is a store of interactions and a store of
  cards; the namespaces, the controls and the counters of the link objects are shared by all frames.
  The main store has a current frame, which is shown, and a global frame, which follows the current one
  through the events the current frame emits.  An operation of a frame returns the events it emits; the
  main store hands them to its handlers.  The argument \<open>now\<close> is the reading of the clock while an
  operation and its handlers run.
\<close>

section \<open>Frames\<close>

record store_frame =
  sf_interactions :: interaction_store
  sf_services :: service_store

record shared_state =
  sh_namespaces :: namespace_store
  sh_controls :: control_store
  sh_counters :: counters

record flush_options =
  fo_namespaces :: "bool option"
  fo_globalFrame :: "bool option"
  fo_preserveActiveCards :: "bool option"

type_synonym service_change = "hubble_service \<times> state_change"
type_synonym service_link_change = "hubble_link \<times> state_change"

datatype frame_event =
    FlowsAdded "flow list"
  | LinksChanged "service_link_change list"
  | ServiceChanged "service_change list"
  | ServicesSet "hubble_service list"
  | Flushed flush_options

definition frame_empty :: "int \<Rightarrow> store_frame" where
  "frame_empty now = \<lparr>sf_interactions = interaction_new now, sf_services = []\<rparr>"

definition frame_getServiceById :: "store_frame \<Rightarrow> string \<Rightarrow> service_card option" where
  "frame_getServiceById fr i = services_byId (sf_services fr) i"

definition default_flush :: flush_options where
  "default_flush = \<lparr>fo_namespaces = Some False, fo_globalFrame = None, fo_preserveActiveCards = None\<rparr>"

definition frame_flush ::
  "flush_options option \<Rightarrow> store_frame \<Rightarrow> shared_state \<Rightarrow> store_frame \<times> shared_state \<times> frame_event list" where
  "frame_flush opts fr sh =
     (let o1 = (case opts of None \<Rightarrow> default_flush | Some o' \<Rightarrow> o');
          fr1 = fr\<lparr>sf_interactions := interaction_clear (sf_interactions fr),
                   sf_services := services_clear (sf_services fr)\<rparr>;
          sh1 = (if is_on (fo_namespaces o1) then sh\<lparr>sh_namespaces := namespaces_clear (sh_namespaces sh)\<rparr> else sh)
      in (fr1, sh1, [Flushed o1]))"

text \<open>\<open>applyServiceChange\<close> emits before it changes the cards; no handler looks at this frame.\<close>

definition frame_applyServiceChange :: "service_change \<Rightarrow> store_frame \<Rightarrow> store_frame \<times> frame_event list" where
  "frame_applyServiceChange ch fr =
     (fr\<lparr>sf_services := services_applyServiceChange (fst ch) (snd ch) (sf_services fr)\<rparr>, [ServiceChanged [ch]])"

definition frame_applyServiceChanges :: "service_change list \<Rightarrow> store_frame \<Rightarrow> store_frame \<times> frame_event list" where
  "frame_applyServiceChanges chs fr =
     (fr\<lparr>sf_services := services_applyServiceChanges chs (sf_services fr)\<rparr>, [ServiceChanged chs])"

definition frame_applyLink :: "service_link_change \<Rightarrow> store_frame \<times> counters \<Rightarrow> store_frame \<times> counters" where
  "frame_applyLink lc s =
     (let (fr, c) = s; (hl, change) = lc;
          (interactions, c1) = interaction_applyLinkChange hl change (sf_interactions fr, c);
          services = services_extractAccessPoint (serviceEndpoint_fromHubbleLink hl) (sf_services fr)
      in (\<lparr>sf_interactions = interactions, sf_services = services\<rparr>, c1))"

definition frame_applyServiceLinkChanges ::
  "service_link_change list \<Rightarrow> store_frame \<times> counters \<Rightarrow> (store_frame \<times> counters) \<times> frame_event list" where
  "frame_applyServiceLinkChanges links s = (fold frame_applyLink links s, [LinksChanged links])"

definition frame_updateServiceEndpoints :: "store_frame \<Rightarrow> store_frame" where
  "frame_updateServiceEndpoints fr =
     fr\<lparr>sf_services :=
       fold (\<lambda>(serviceId, ports) cards.
               case map_get (services_cardsMap cards) serviceId of
                 None \<Rightarrow> cards
               | Some crd \<Rightarrow> modify_card serviceId (card_updateAccessPointsL7 ports) cards)
         (is_l7endpoints (sf_interactions fr)) (sf_services fr)\<rparr>"

definition frame_addFlowsInner ::
  "uniq_by \<Rightarrow> (string \<Rightarrow> parsed_url) \<Rightarrow> int \<Rightarrow> flow list \<Rightarrow> bool \<Rightarrow> store_frame \<Rightarrow> store_frame \<times> nat \<times> nat" where
  "frame_addFlowsInner uniqBy up now flows sortDesc fr =
     (let (interactions, total, diff) = interaction_addFlows uniqBy up now flows sortDesc (sf_interactions fr)
      in (frame_updateServiceEndpoints (fr\<lparr>sf_interactions := interactions\<rparr>), total, diff))"

definition frame_addFlows ::
  "uniq_by \<Rightarrow> (string \<Rightarrow> parsed_url) \<Rightarrow> int \<Rightarrow> flow list \<Rightarrow> bool \<Rightarrow> store_frame \<Rightarrow>
   store_frame \<times> (nat \<times> nat) \<times> frame_event list" where
  "frame_addFlows uniqBy up now flows sortDesc fr =
     (let (fr1, addedStats) = frame_addFlowsInner uniqBy up now flows sortDesc fr
      in (fr1, addedStats, [FlowsAdded flows]))"

definition frame_upsertNamespaces :: "namespace_descriptor list \<Rightarrow> shared_state \<Rightarrow> shared_state" where
  "frame_upsertNamespaces nsd sh = sh\<lparr>sh_namespaces := namespaces_add nsd (sh_namespaces sh)\<rparr>"

definition frame_setServices :: "hubble_service list \<Rightarrow> store_frame \<Rightarrow> store_frame \<times> frame_event list" where
  "frame_setServices svcs fr = (fr\<lparr>sf_services := services_set svcs\<rparr>, [ServicesSet svcs])"

definition frame_moveServices :: "store_frame \<Rightarrow> store_frame \<Rightarrow> store_frame \<times> js_num" where
  "frame_moveServices fr to_fr =
     (let (cards, n) = services_moveTo (sf_services fr) (sf_services to_fr)
      in (to_fr\<lparr>sf_services := cards\<rparr>, n))"

definition frame_moveServiceLinks ::
  "uniq_by \<Rightarrow> (string \<Rightarrow> parsed_url) \<Rightarrow> int \<Rightarrow> store_frame \<Rightarrow> store_frame \<Rightarrow> store_frame \<times> int \<times> nat" where
  "frame_moveServiceLinks uniqBy up now fr to_fr =
     (let (interactions, counts) = interaction_moveTo uniqBy up now (sf_interactions fr) (sf_interactions to_fr)
      in (to_fr\<lparr>sf_interactions := interactions\<rparr>, counts))"

definition frame_applyFrame ::
  "uniq_by \<Rightarrow> (string \<Rightarrow> parsed_url) \<Rightarrow> int \<Rightarrow> store_frame \<Rightarrow> filters option \<Rightarrow> store_frame \<Rightarrow> store_frame" where
  "frame_applyFrame uniqBy up now rhs fltrs fr =
     (let fs = (case fltrs of None \<Rightarrow> filters_default | Some f \<Rightarrow> f);
          res = filter_frame up fs (is_flows (sf_interactions rhs)) (services_cardsMap (sf_services rhs))
                  (interaction_connections (sf_interactions rhs));
          filteredFlows = map flow_clone (fr_flows res);
          filteredLinks = map link_clone (fr_links res);
          services = fold services_upsertCard (fr_services res) (sf_services fr);
          (interactions1, _) = interaction_addFlows uniqBy up now filteredFlows True (sf_interactions fr);
          interactions2 = interaction_addLinks filteredLinks interactions1
      in frame_updateServiceEndpoints \<lparr>sf_interactions = interactions2, sf_services = services\<rparr>)"

definition frame_setFilters :: "filters \<Rightarrow> shared_state \<Rightarrow> shared_state" where
  "frame_setFilters f sh =
     sh\<lparr>sh_controls := controls_setFilters f (sh_controls sh),
        sh_namespaces := fst (namespaces_setCurrent (fi_namespace f) (sh_namespaces sh))\<rparr>"

definition frame_replaceServiceMap ::
  "service_map \<Rightarrow> flush_options option \<Rightarrow> store_frame \<Rightarrow> shared_state \<Rightarrow>
   store_frame \<times> shared_state \<times> frame_event list" where
  "frame_replaceServiceMap sm opts fr sh =
     (let (fr1, sh1, evs) = frame_flush opts fr sh
      in (fr1\<lparr>sf_interactions := interaction_addLinks (serviceMap_linksList sm) (sf_interactions fr1),
              sf_services := services_replaceWithServiceMap sm\<rparr>, sh1, evs))"

definition frame_extendServiceMap :: "service_map \<Rightarrow> store_frame \<times> counters \<Rightarrow> store_frame \<times> counters" where
  "frame_extendServiceMap sm s =
     (let (fr, c) = s;
          (interactions, c1) = interaction_upsertLinks (serviceMap_linksList sm) (sf_interactions fr, c)
      in (\<lparr>sf_interactions = interactions, sf_services = services_extendWithServiceMap sm (sf_services fr)\<rparr>, c1))"

text \<open>A cloned frame has its own copy of the namespaces, and the controls of the old one.\<close>

definition frame_clone :: "int \<Rightarrow> store_frame \<Rightarrow> shared_state \<Rightarrow> store_frame \<times> shared_state" where
  "frame_clone now fr sh =
     (\<lparr>sf_interactions = interaction_clone now (sf_interactions fr), sf_services = sf_services fr\<rparr>,
      sh\<lparr>sh_namespaces := namespaces_clone (sh_namespaces sh)\<rparr>)"

definition frame_amounts :: "store_frame \<Rightarrow> nat \<times> nat \<times> nat" where
  "frame_amounts fr =
     (length (sf_services fr), length (is_flows (sf_interactions fr)), length (is_links (sf_interactions fr)))"

text \<open>The counters of the sample links.\<close>

definition demo_counters :: counters where
  "demo_counters r = (1, 10)"

section \<open>The main store\<close>

record main_store =
  ms_global :: store_frame
  ms_current :: store_frame
  ms_shared :: shared_state
  ms_isFeaturesSet :: bool

text \<open>The counters start with what each link object holds when it is created.\<close>

definition store_new :: "int \<Rightarrow> counters \<Rightarrow> main_store" where
  "store_new now c0 =
     \<lparr>ms_global = frame_empty now, ms_current = frame_empty now,
      ms_shared = \<lparr>sh_namespaces = namespaces_new, sh_controls = controls_new, sh_counters = c0\<rparr>,
      ms_isFeaturesSet = True\<rparr>"

definition wrongChanges :: "state_change list" where
  "wrongChanges = [StateChange_Unknown, StateChange_Deleted]"

text \<open>The handlers that \<open>setupEventHandlers\<close> gives to the current frame's events.\<close>

definition store_handle ::
  "uniq_by \<Rightarrow> (string \<Rightarrow> parsed_url) \<Rightarrow> int \<Rightarrow> frame_event \<Rightarrow> main_store \<Rightarrow> main_store" where
  "store_handle uniqBy up now ev ms =
     (case ev of
        ServicesSet svcs \<Rightarrow> ms\<lparr>ms_global := fst (frame_setServices svcs (ms_global ms))\<rparr>
      | FlowsAdded flows \<Rightarrow> ms\<lparr>ms_global := fst (frame_addFlows uniqBy up now flows True (ms_global ms))\<rparr>
      | LinksChanged all_links \<Rightarrow>
          (let links = filter (\<lambda>l. snd l \<notin> set wrongChanges) all_links
           in if length links = 0 then ms
              else (let ((fr, c), _) =
                          frame_applyServiceLinkChanges links (ms_global ms, sh_counters (ms_shared ms))
                    in ms\<lparr>ms_global := fr, ms_shared := (ms_shared ms)\<lparr>sh_counters := c\<rparr>\<rparr>))
      | ServiceChanged svcChanges \<Rightarrow>
          (let changes = filter (\<lambda>ch. snd ch \<notin> set wrongChanges) svcChanges
           in if length changes = 0 then ms
              else ms\<lparr>ms_global := fst (frame_applyServiceChanges changes (ms_global ms))\<rparr>)
      | Flushed _ \<Rightarrow> ms)"

definition store_dispatch ::
  "uniq_by \<Rightarrow> (string \<Rightarrow> parsed_url) \<Rightarrow> int \<Rightarrow> frame_event list \<Rightarrow> main_store \<Rightarrow> main_store" where
  "store_dispatch uniqBy up now evs ms = fold (store_handle uniqBy up now) evs ms"

text \<open>Operations of the current frame with the handlers of their events.\<close>

definition current_addFlows ::
  "uniq_by \<Rightarrow> (string \<Rightarrow> parsed_url) \<Rightarrow> int \<Rightarrow> flow list \<Rightarrow> bool \<Rightarrow> main_store \<Rightarrow> main_store \<times> nat \<times> nat" where
  "current_addFlows uniqBy up now flows sortDesc ms =
     (let (fr, addedStats, evs) = frame_addFlows uniqBy up now flows sortDesc (ms_current ms)
      in (store_dispatch uniqBy up now evs (ms\<lparr>ms_current := fr\<rparr>), addedStats))"

definition current_applyServiceChange ::
  "uniq_by \<Rightarrow> (string \<Rightarrow> parsed_url) \<Rightarrow> int \<Rightarrow> service_change \<Rightarrow> main_store \<Rightarrow> main_store" where
  "current_applyServiceChange uniqBy up now ch ms =
     (let (fr, evs) = frame_applyServiceChange ch (ms_current ms)
      in store_dispatch uniqBy up now evs (ms\<lparr>ms_current := fr\<rparr>))"

definition current_applyServiceChanges ::
  "uniq_by \<Rightarrow> (string \<Rightarrow> parsed_url) \<Rightarrow> int \<Rightarrow> service_change list \<Rightarrow> main_store \<Rightarrow> main_store" where
  "current_applyServiceChanges uniqBy up now chs ms =
     (let (fr, evs) = frame_applyServiceChanges chs (ms_current ms)
      in store_dispatch uniqBy up now evs (ms\<lparr>ms_current := fr\<rparr>))"

definition current_applyServiceLinkChanges ::
  "uniq_by \<Rightarrow> (string \<Rightarrow> parsed_url) \<Rightarrow> int \<Rightarrow> service_link_change list \<Rightarrow> main_store \<Rightarrow> main_store" where
  "current_applyServiceLinkChanges uniqBy up now links ms =
     (let ((fr, c), evs) = frame_applyServiceLinkChanges links (ms_current ms, sh_counters (ms_shared ms))
      in store_dispatch uniqBy up now evs
           (ms\<lparr>ms_current := fr, ms_shared := (ms_shared ms)\<lparr>sh_counters := c\<rparr>\<rparr>))"

definition current_setServices ::
  "uniq_by \<Rightarrow> (string \<Rightarrow> parsed_url) \<Rightarrow> int \<Rightarrow> hubble_service list \<Rightarrow> main_store \<Rightarrow> main_store" where
  "current_setServices uniqBy up now svcs ms =
     (let (fr, evs) = frame_setServices svcs (ms_current ms)
      in store_dispatch uniqBy up now evs (ms\<lparr>ms_current := fr\<rparr>))"

definition current_flush ::
  "uniq_by \<Rightarrow> (string \<Rightarrow> parsed_url) \<Rightarrow> int \<Rightarrow> flush_options option \<Rightarrow> main_store \<Rightarrow> main_store" where
  "current_flush uniqBy up now opts ms =
     (let (fr, sh, evs) = frame_flush opts (ms_current ms) (ms_shared ms)
      in store_dispatch uniqBy up now evs (ms\<lparr>ms_current := fr, ms_shared := sh\<rparr>))"

section \<open>Methods of the main store\<close>

definition store_filters :: "main_store \<Rightarrow> filters" where
  "store_filters ms =
     (let c = sh_controls (ms_shared ms)
      in \<lparr>fi_namespace = map_option nd_namespace (namespaces_current (sh_namespaces (ms_shared ms))),
          fi_verdicts = Some (cs_verdicts c), fi_httpStatus = cs_httpStatus c,
          fi_filters = Some (cs_flowFilters c), fi_skipHost = Some (\<not> cs_showHost c),
          fi_skipKubeDns = Some (\<not> cs_showKubeDns c), fi_skipRemoteNode = Some (\<not> cs_showRemoteNode c),
          fi_skipPrometheusApp = Some (\<not> cs_showPrometheusApp c)\<rparr>)"

definition store_filtersDiff :: "main_store \<Rightarrow> filters_diff" where
  "store_filtersDiff ms = filtersDiff_setUnchanged (filtersDiff_fromFilters (Some (store_filters ms)))"

definition store_setFilters :: "filters \<Rightarrow> main_store \<Rightarrow> main_store" where
  "store_setFilters f ms = ms\<lparr>ms_shared := frame_setFilters f (ms_shared ms)\<rparr>"

definition store_availableNamespaces :: "main_store \<Rightarrow> namespace_descriptor list" where
  "store_availableNamespaces ms = namespaces_combinedNamespaces (sh_namespaces (ms_shared ms))"

definition store_currentNamespace :: "main_store \<Rightarrow> namespace_descriptor option" where
  "store_currentNamespace ms = namespaces_current (sh_namespaces (ms_shared ms))"

text \<open>\<open>setup\<close>: whether it raises, and the state it leaves.\<close>

definition store_setup ::
  "hubble_service list \<Rightarrow> hubble_flow list \<Rightarrow> hubble_link list \<Rightarrow> main_store \<Rightarrow> main_store \<times> bool" where
  "store_setup services flows links ms =
     (let cards = services_extractAccessPoints (map serviceEndpoint_fromHubbleLink links) (services_set services);
          fr1 = (ms_current ms)\<lparr>sf_services := cards\<rparr>
      in case interaction_addHubbleLinks links (sf_interactions fr1) of
           None \<Rightarrow> (ms\<lparr>ms_current := fr1\<rparr>, True)
         | Some interactions \<Rightarrow>
             (ms\<lparr>ms_current := fr1\<lparr>sf_interactions := interaction_setHubbleFlows flows True interactions\<rparr>\<rparr>, False))"

definition store_resetCurrentFrame ::
  "uniq_by \<Rightarrow> (string \<Rightarrow> parsed_url) \<Rightarrow> int \<Rightarrow> filters \<Rightarrow> flush_options option \<Rightarrow> main_store \<Rightarrow> main_store" where
  "store_resetCurrentFrame uniqBy up now fs flushOpts ms =
     (let ms1 = current_flush uniqBy up now flushOpts ms
      in ms1\<lparr>ms_current := frame_applyFrame uniqBy up now (ms_global ms1) (Some fs) (ms_current ms1)\<rparr>)"

definition store_applyNamespaceChange :: "namespace_descriptor \<Rightarrow> state_change \<Rightarrow> main_store \<Rightarrow> main_store" where
  "store_applyNamespaceChange ns change ms =
     ms\<lparr>ms_shared := (ms_shared ms)\<lparr>sh_namespaces := namespaces_applyChange ns change (sh_namespaces (ms_shared ms))\<rparr>\<rparr>"

definition store_setFeatures :: "main_store \<Rightarrow> main_store" where
  "store_setFeatures ms = ms\<lparr>ms_isFeaturesSet := True\<rparr>"

definition store_extendServiceMap :: "service_map \<Rightarrow> main_store \<Rightarrow> main_store" where
  "store_extendServiceMap sm ms =
     (let (fr, c) = frame_extendServiceMap sm (ms_current ms, sh_counters (ms_shared ms))
      in ms\<lparr>ms_current := fr, ms_shared := (ms_shared ms)\<lparr>sh_counters := c\<rparr>\<rparr>)"

definition store_applyServiceMapFromLogFile :: "service_map \<Rightarrow> main_store \<Rightarrow> main_store" where
  "store_applyServiceMapFromLogFile sm ms =
     (if cs_currentApp (sh_controls (ms_shared ms)) \<noteq> Application_ServiceMap then ms
      else store_extendServiceMap sm ms)"

definition store_flush ::
  "uniq_by \<Rightarrow> (string \<Rightarrow> parsed_url) \<Rightarrow> int \<Rightarrow> flush_options option \<Rightarrow> main_store \<Rightarrow> main_store" where
  "store_flush uniqBy up now opts ms =
     (let ms1 = ms\<lparr>ms_shared := (ms_shared ms)\<lparr>sh_controls :=
                   controls_selectTableFlow None (sh_controls (ms_shared ms))\<rparr>\<rparr>;
          ms2 = (if (case opts of None \<Rightarrow> False | Some o' \<Rightarrow> is_on (fo_globalFrame o'))
                 then (let (fr, sh, _) = frame_flush opts (ms_global ms1) (ms_shared ms1)
                       in ms1\<lparr>ms_global := fr, ms_shared := sh\<rparr>)
                 else ms1)
      in current_flush uniqBy up now opts ms2)"

definition store_getActiveServices :: "main_store \<Rightarrow> service_card list" where
  "store_getActiveServices ms =
     filter (\<lambda>crd. controls_areSomeFilterEntriesEnabled (card_filterEntries crd) (sh_controls (ms_shared ms)))
       (sf_services (ms_current ms))"

section \<open>Messages\<close>

text \<open>What reaches the store from outside: the messages of the backend, which the current frame takes,
  and the actions of the user.\<close>

datatype store_message =
    Msg_Flows "flow list"
  | Msg_Links "service_link_change list"
  | Msg_Service service_change
  | Msg_Services "service_change list"
  | Msg_SetServices "hubble_service list"
  | Msg_Filters filters
  | Msg_Reset filters "flush_options option"
  | Msg_Flush "flush_options option"
  | Msg_ServiceMap service_map
  | Msg_Namespace namespace_descriptor state_change

definition store_receive ::
  "uniq_by \<Rightarrow> (string \<Rightarrow> parsed_url) \<Rightarrow> int \<times> store_message \<Rightarrow> main_store \<Rightarrow> main_store" where
  "store_receive uniqBy up tm ms =
     (let now = fst tm
      in case snd tm of
           Msg_Flows flows \<Rightarrow> fst (current_addFlows uniqBy up now flows True ms)
         | Msg_Links links \<Rightarrow> current_applyServiceLinkChanges uniqBy up now links ms
         | Msg_Service ch \<Rightarrow> current_applyServiceChange uniqBy up now ch ms
         | Msg_Services chs \<Rightarrow> current_applyServiceChanges uniqBy up now chs ms
         | Msg_SetServices svcs \<Rightarrow> current_setServices uniqBy up now svcs ms
         | Msg_Filters f \<Rightarrow> store_setFilters f ms
         | Msg_Reset f opts \<Rightarrow> store_resetCurrentFrame uniqBy up now f opts ms
         | Msg_Flush opts \<Rightarrow> store_flush uniqBy up now opts ms
         | Msg_ServiceMap sm \<Rightarrow> store_applyServiceMapFromLogFile sm ms
         | Msg_Namespace ns ch \<Rightarrow> store_applyNamespaceChange ns ch ms)"

definition store_run ::
  "uniq_by \<Rightarrow> (string \<Rightarrow> parsed_url) \<Rightarrow> (int \<times> store_message) list \<Rightarrow> main_store \<Rightarrow> main_store" where
  "store_run uniqBy up msgs ms = fold (store_receive uniqBy up) msgs ms"

lemma store_run_simps [simp]:
  "store_run uniqBy up [] ms = ms"
  "store_run uniqBy up (m # msgs) ms = store_run uniqBy up msgs (store_receive uniqBy up m ms)"
  by (simp_all add: store_run_def)

lemmas frame_ops =
  frame_flush_def frame_applyServiceChange_def frame_applyServiceChanges_def
  frame_applyServiceLinkChanges_def frame_addFlows_def frame_setServices_def

lemmas current_ops =
  current_addFlows_def current_applyServiceChange_def current_applyServiceChanges_def
  current_applyServiceLinkChanges_def current_setServices_def current_flush_def
  store_dispatch_def store_handle_def

text \<open>The changes of a message that the handlers let through.\<close>

definition passed_on :: "('a \<times> state_change) list \<Rightarrow> ('a \<times> state_change) list" where
  "passed_on chs = filter (\<lambda>ch. snd ch \<notin> set wrongChanges) chs"

lemma passed_on_all: "list_all (\<lambda>ch. snd ch \<notin> set wrongChanges) chs \<Longrightarrow> passed_on chs = chs"
  by (simp add: passed_on_def filter_True list_all_iff)

text \<open>What each message of the backend does to the two frames.\<close>

lemma current_addFlows_eq:
  "fst (current_addFlows uniqBy up now flows sortDesc ms) =
     ms\<lparr>ms_current := fst (frame_addFlowsInner uniqBy up now flows sortDesc (ms_current ms)),
        ms_global := fst (frame_addFlowsInner uniqBy up now flows True (ms_global ms))\<rparr>"
  by (simp add: current_ops frame_ops split_def Let_def)

lemma current_services_eq:
  "current_applyServiceChanges uniqBy up now chs ms =
     ms\<lparr>ms_current := (ms_current ms)\<lparr>sf_services := services_applyServiceChanges chs (sf_services (ms_current ms))\<rparr>,
        ms_global := (ms_global ms)\<lparr>sf_services := services_applyServiceChanges (passed_on chs) (sf_services (ms_global ms))\<rparr>\<rparr>"
  by (simp add: current_ops frame_ops passed_on_def services_applyServiceChanges_def Let_def)

lemma current_service_eq:
  "current_applyServiceChange uniqBy up now ch ms = current_applyServiceChanges uniqBy up now [ch] ms"
  by (simp add: current_ops frame_ops services_applyServiceChanges_def split_def)

lemma current_links_eq:
  "current_applyServiceLinkChanges uniqBy up now links ms =
     (let (cur, c1) = fold frame_applyLink links (ms_current ms, sh_counters (ms_shared ms));
          (glob, c2) = fold frame_applyLink (passed_on links) (ms_global ms, c1)
      in ms\<lparr>ms_current := cur, ms_global := glob, ms_shared := (ms_shared ms)\<lparr>sh_counters := c2\<rparr>\<rparr>)"
  by (auto simp: current_ops frame_ops passed_on_def Let_def split_def)

lemma current_setServices_eq:
  "current_setServices uniqBy up now svcs ms =
     ms\<lparr>ms_current := (ms_current ms)\<lparr>sf_services := services_set svcs\<rparr>,
        ms_global := (ms_global ms)\<lparr>sf_services := services_set svcs\<rparr>\<rparr>"
  by (simp add: current_ops frame_ops)

lemma current_flush_eq:
  "current_flush uniqBy up now opts ms =
     (let (fr, sh, _) = frame_flush opts (ms_current ms) (ms_shared ms) in ms\<lparr>ms_current := fr, ms_shared := sh\<rparr>)"
  by (simp add: current_ops frame_ops Let_def)

lemmas message_eqs =
  current_addFlows_eq current_services_eq current_service_eq current_links_eq current_setServices_eq
  current_flush_eq

section \<open>The global frame mirrors the current one\<close>

text \<open>The frame a link change leaves does not depend on the counters.\<close>

lemma update_link_frame: "fst (link_updateWithHubbleLink l hl c) = fst (link_updateWithHubbleLink l hl c')"
  by (simp add: link_updateWithHubbleLink_def Let_def)

lemma applyLinkChange_frame:
  "fst (interaction_applyLinkChange hl ch (st, c)) = fst (interaction_applyLinkChange hl ch (st, c'))"
  by (cases ch)
    (simp_all add: interaction_applyLinkChange_def interaction_upsertHubbleLink_def interaction_updateLink_def
      split_def Let_def update_link_frame [of _ hl c c'] split: option.split)

lemma applyLink_frame: "fst (frame_applyLink lc (fr, c)) = fst (frame_applyLink lc (fr, c'))"
  using applyLinkChange_frame [of "fst lc" "snd lc" "sf_interactions fr" c c']
  by (simp add: frame_applyLink_def split_def Let_def)

lemma fold_applyLink_frame: "fst (fold frame_applyLink lcs (fr, c)) = fst (fold frame_applyLink lcs (fr, c'))"
proof (induction lcs arbitrary: fr c c')
  case (Cons lc lcs)
  show ?case
    using applyLink_frame [of lc fr c c'] Cons [of "fst (frame_applyLink lc (fr, c))"]
    by (cases "frame_applyLink lc (fr, c)"; cases "frame_applyLink lc (fr, c')") simp
qed simp

lemma current_links_frames:
  "ms_current (current_applyServiceLinkChanges uniqBy up now links ms) =
     fst (fold frame_applyLink links (ms_current ms, c))"
  "ms_global (current_applyServiceLinkChanges uniqBy up now links ms) =
     fst (fold frame_applyLink (passed_on links) (ms_global ms, c))"
  by (simp_all add: current_links_eq Let_def split_def)
    (rule fold_applyLink_frame)+

text \<open>Messages that delete nothing and do not filter.\<close>

fun growing :: "store_message \<Rightarrow> bool" where
  "growing (Msg_Links links) = list_all (\<lambda>l. snd l \<notin> set wrongChanges) links"
| "growing (Msg_Service ch) = (snd ch \<notin> set wrongChanges)"
| "growing (Msg_Services chs) = list_all (\<lambda>ch. snd ch \<notin> set wrongChanges) chs"
| "growing (Msg_Reset f opts) = False"
| "growing (Msg_Flush opts) = False"
| "growing (Msg_ServiceMap sm) = False"
| "growing _ = True"

lemma mirror_step:
  assumes "growing (snd m)" "ms_current ms = ms_global ms"
  shows "ms_current (store_receive uniqBy up m ms) = ms_global (store_receive uniqBy up m ms)"
proof (cases "snd m")
  case (Msg_Links links)
  then show ?thesis
    using assms by (simp add: store_receive_def Let_def current_links_frames [where c = undefined] passed_on_all)
qed (use assms in \<open>simp_all add: store_receive_def Let_def message_eqs passed_on_all store_setFilters_def
    store_applyNamespaceChange_def\<close>)

text \<open>C6: as long as messages only add or change flows, links and services, the global frame is the same as
  the current frame, whatever filters and namespaces are set in between.\<close>

theorem global_mirrors_current:
  assumes "list_all (\<lambda>m. growing (snd m)) msgs" "ms_current ms = ms_global ms"
  shows "ms_current (store_run uniqBy up msgs ms) = ms_global (store_run uniqBy up msgs ms)"
  using assms by (induction msgs arbitrary: ms) (simp_all add: mirror_step)

theorem global_mirrors_current_witness:
  "let ms = store_run uniq_first demo_url
      [(5, Msg_SetServices [sample_service ''1'' [] 1, sample_service ''2'' [] 2]),
       (6, Msg_Links [(sample_hubble_link 0 ''a'' ''1'' ''2'' 80 Verdict_Dropped, StateChange_Added)])] (store_new 0 demo_counters)
   in ms_current ms = ms_global ms"
  unfolding Let_def
  by (rule global_mirrors_current) (simp_all add: wrongChanges_def, simp add: store_new_def)

section \<open>Invariant of the store\<close>

definition frame_inv :: "store_frame \<Rightarrow> bool" where
  "frame_inv fr \<longleftrightarrow> interaction_inv (sf_interactions fr) \<and> wf_services (sf_services fr)"

definition store_inv :: "main_store \<Rightarrow> bool" where
  "store_inv ms \<longleftrightarrow>
     frame_inv (ms_global ms) \<and> frame_inv (ms_current ms) \<and> wf_namespaces (sh_namespaces (ms_shared ms))"

lemma updateAccessPointsL7_service [simp]: "sc_service (card_updateAccessPointsL7 ports c) = sc_service c"
proof -
  have kinds: "sc_service (fold (\<lambda>l7kind crd.
            case parseL7Kind l7kind of
              None \<Rightarrow> crd
            | Some k \<Rightarrow>
                (case map_get (sc_accessPoints crd) apId of
                   None \<Rightarrow> crd
                 | Some ap \<Rightarrow>
                     crd\<lparr>sc_accessPoints :=
                       map_set apId (serviceEndpoint_accumulateL7Protocol (Some k) ap)
                         (sc_accessPoints crd)\<rparr>)) ks c) = sc_service c" for ks apId c
    by (induction ks arbitrary: c) (simp_all split: option.split)
  show ?thesis
    unfolding card_updateAccessPointsL7_def Let_def by (induction ports arbitrary: c) (simp_all add: kinds split_def)
qed

interpretation update_l7: card_update "card_updateAccessPointsL7 ports"
  by unfold_locales simp

lemma updateServiceEndpoints_interactions [simp]:
  "sf_interactions (frame_updateServiceEndpoints fr) = sf_interactions fr"
  by (simp add: frame_updateServiceEndpoints_def)

definition update_endpoint :: "string \<times> l7_endpoint connections \<Rightarrow> service_store \<Rightarrow> service_store" where
  "update_endpoint sp cards =
     (if card_view cards (fst sp) = None then cards
      else modify_card (fst sp) (card_updateAccessPointsL7 (snd sp)) cards)"

lemma updateServiceEndpoints_eq:
  "sf_services (frame_updateServiceEndpoints fr) =
     fold update_endpoint (is_l7endpoints (sf_interactions fr)) (sf_services fr)"
proof -
  have "update_endpoint = (\<lambda>(serviceId, ports) cards.
          case map_get (services_cardsMap cards) serviceId of
            None \<Rightarrow> cards
          | Some crd \<Rightarrow> modify_card serviceId (card_updateAccessPointsL7 ports) cards)"
    by (intro ext) (auto simp: update_endpoint_def card_view_def split: option.split)
  then show ?thesis by (simp add: frame_updateServiceEndpoints_def)
qed

lemma update_endpoint_ids [simp]: "map card_id (fold update_endpoint eps cards) = map card_id cards"
  by (induction eps arbitrary: cards) (simp_all add: update_endpoint_def)

lemma frame_inv_updateEndpoints [simp]: "frame_inv (frame_updateServiceEndpoints fr) = frame_inv fr"
  by (simp add: frame_inv_def wf_services_def updateServiceEndpoints_eq)

lemma frame_inv_interactions:
  "frame_inv fr \<Longrightarrow> interaction_inv st \<Longrightarrow> frame_inv (fr\<lparr>sf_interactions := st\<rparr>)"
  by (simp add: frame_inv_def)

lemma frame_inv_services:
  "frame_inv fr \<Longrightarrow> wf_services cards \<Longrightarrow> frame_inv (fr\<lparr>sf_services := cards\<rparr>)"
  by (simp add: frame_inv_def)

lemma frame_inv_addFlows: "frame_inv fr \<Longrightarrow> frame_inv (fst (frame_addFlowsInner uniqBy up now fs d fr))"
  using addFlows_inv [of "sf_interactions fr" uniqBy up now fs d]
  by (simp add: frame_addFlowsInner_def split_def Let_def) (simp add: frame_inv_def)

lemma frame_inv_applyLink: "frame_inv (fst s) \<Longrightarrow> frame_inv (fst (frame_applyLink lc s))"
  using wf_applyLinkChange [of "(sf_interactions (fst s), snd s)" "fst lc" "snd lc"]
  by (simp add: frame_applyLink_def split_def Let_def frame_inv_def interaction_inv_def wf_extractAccessPoint)

lemma frame_inv_applyLinks: "frame_inv (fst s) \<Longrightarrow> frame_inv (fst (fold frame_applyLink lcs s))"
  by (induction lcs arbitrary: s) (simp_all add: frame_inv_applyLink)

lemma wf_applyServiceChange: "wf_services cards \<Longrightarrow> wf_services (services_applyServiceChange svc ch cards)"
  using applyServiceChange_core by blast

lemma wf_applyServiceChanges: "wf_services cards \<Longrightarrow> wf_services (services_applyServiceChanges chs cards)"
  unfolding services_applyServiceChanges_def
  by (induction chs arbitrary: cards) (simp_all add: wf_applyServiceChange split_def)

lemma wf_upsertCards: "wf_services cards \<Longrightarrow> wf_services (fold services_upsertCard svcs cards)"
  by (induction svcs arbitrary: cards) (simp_all add: wf_upsertCard)

lemma wf_services_set: "distinct (map hs_id svcs) \<Longrightarrow> wf_services (services_set svcs)"
  by (simp add: wf_services_def services_set_def comp_def)

lemma wf_extendWithServiceMap: "wf_services cards \<Longrightarrow> wf_services (services_extendWithServiceMap sm cards)"
proof -
  have "wf_services cards \<Longrightarrow> wf_services (fold services_upsertService svcs cards)" for svcs
    by (induction svcs arbitrary: cards) (simp_all add: services_upsertService_def wf_upsertCard)
  then show "wf_services cards \<Longrightarrow> wf_services (services_extendWithServiceMap sm cards)"
    by (simp add: services_extendWithServiceMap_def wf_extractAccessPoints)
qed

lemma frame_inv_flush: "frame_inv fr \<Longrightarrow> frame_inv (fst (frame_flush opts fr sh))"
  by (simp add: frame_flush_def frame_inv_def interaction_inv_def wf_links_def interaction_clear_def
      services_clear_def wf_services_def Let_def)

lemma frame_flush_namespaces:
  "wf_namespaces (sh_namespaces sh) \<Longrightarrow> wf_namespaces (sh_namespaces (fst (snd (frame_flush opts fr sh))))"
  by (simp add: frame_flush_def Let_def namespaces_clear_def wf_namespaces_def)

lemma frame_inv_applyFrame: "frame_inv fr \<Longrightarrow> frame_inv (frame_applyFrame uniqBy up now rhs fltrs fr)"
  using addFlows_inv [of "sf_interactions fr" uniqBy up now]
  by (simp add: frame_applyFrame_def split_def Let_def)
    (simp add: frame_inv_def interaction_inv_def wf_addLinks wf_upsertCards)

lemma frame_inv_extend: "frame_inv (fst s) \<Longrightarrow> frame_inv (fst (frame_extendServiceMap sm s))"
  using wf_upsertLinks [of "(sf_interactions (fst s), snd s)" "serviceMap_linksList sm"]
  by (simp add: frame_extendServiceMap_def split_def Let_def frame_inv_def interaction_inv_def wf_extendWithServiceMap)

text \<open>The backend sends a list of services with distinct identifiers.\<close>

fun sane_message :: "store_message \<Rightarrow> bool" where
  "sane_message (Msg_SetServices svcs) = distinct (map hs_id svcs)"
| "sane_message _ = True"

lemma namespaces_setCurrent_wf: "wf_namespaces st \<Longrightarrow> wf_namespaces (fst (namespaces_setCurrent ns st))"
  by (simp add: namespaces_setCurrent_def wf_namespaces_def Let_def)

lemma store_inv_reset:
  "store_inv ms \<Longrightarrow> store_inv (store_resetCurrentFrame uniqBy up now fs opts ms)"
  using frame_inv_flush [of "ms_current ms" opts "ms_shared ms"]
    frame_flush_namespaces [of "ms_shared ms" opts "ms_current ms"]
  by (simp add: store_inv_def store_resetCurrentFrame_def current_flush_eq split_def Let_def frame_inv_applyFrame)

lemma store_inv_flush: "store_inv ms \<Longrightarrow> store_inv (store_flush uniqBy up now opts ms)"
  by (simp add: store_inv_def store_flush_def current_flush_eq split_def Let_def frame_inv_flush
      frame_flush_namespaces)

lemma store_inv_receive:
  assumes "sane_message (snd m)" "store_inv ms"
  shows "store_inv (store_receive uniqBy up m ms)"
proof (cases "snd m")
  case (Msg_ServiceMap sm)
  then show ?thesis
    using assms frame_inv_extend [of "(ms_current ms, sh_counters (ms_shared ms))" sm]
    by (simp add: store_receive_def Let_def store_applyServiceMapFromLogFile_def store_extendServiceMap_def
        store_inv_def split_def)
next
  case (Msg_Namespace ns ch)
  then show ?thesis
    using assms by (simp add: store_receive_def Let_def store_applyNamespaceChange_def store_inv_def
        namespaces_applyChange_def wf_namespaces_set)
next
  case (Msg_Filters f)
  then show ?thesis
    using assms by (simp add: store_receive_def Let_def store_setFilters_def frame_setFilters_def store_inv_def
        namespaces_setCurrent_wf)
next
  case (Msg_Links links)
  then show ?thesis
    using assms by (simp add: store_receive_def Let_def store_inv_def current_links_eq split_def frame_inv_applyLinks)
next
  case (Msg_Reset f opts)
  then show ?thesis using assms by (simp add: store_receive_def Let_def store_inv_reset)
next
  case (Msg_Flush opts)
  then show ?thesis using assms by (simp add: store_receive_def Let_def store_inv_flush)
qed (use assms in \<open>simp_all add: store_receive_def Let_def store_inv_def message_eqs frame_inv_addFlows
    frame_inv_services wf_applyServiceChanges wf_services_set\<close>,
    simp_all add: frame_inv_def wf_applyServiceChanges)

lemma store_inv_new: "store_inv (store_new now c0)"
  by (simp add: store_inv_def store_new_def frame_inv_def frame_empty_def interaction_inv_def wf_links_def
      interaction_new_def wf_services_def wf_namespaces_new)

lemma store_inv_run:
  "list_all (\<lambda>m. sane_message (snd m)) msgs \<Longrightarrow> store_inv ms \<Longrightarrow> store_inv (store_run uniqBy up msgs ms)"
  by (induction msgs arbitrary: ms) (simp_all add: store_inv_receive)

text \<open>C4: whatever messages arrive, as long as no new list of services has two of one identifier, in both frames the links and
  the cards have distinct identifiers and at most 1024 flows are held, and every namespace is filed under its own name.\<close>

theorem store_invariant:
  assumes "list_all (\<lambda>m. sane_message (snd m)) msgs" "store_run uniqBy up msgs (store_new now c0) = ms"
    and "fr \<in> {ms_global ms, ms_current ms}"
  shows "distinct (map link_id (is_links (sf_interactions fr))) \<and> distinct (map card_id (sf_services fr))
    \<and> length (is_flows (sf_interactions fr)) \<le> 1024
    \<and> (\<forall>(k, d) \<in> set (ns_relayNamespaces (sh_namespaces (ms_shared ms))). k = nd_namespace d)"
proof -
  have inv: "store_inv ms" using store_inv_run [OF assms(1) store_inv_new, of uniqBy up now c0] assms(2) by simp
  then have "frame_inv fr" using assms(3) by (auto simp: store_inv_def)
  moreover have "\<forall>(k, d) \<in> set (ns_relayNamespaces (sh_namespaces (ms_shared ms))). k = nd_namespace d"
    using inv unfolding store_inv_def wf_namespaces_def by blast
  ultimately show ?thesis
    by (simp add: frame_inv_def interaction_inv_def wf_links_def wf_services_def FLOWS_MAX_COUNT_def)
qed

definition demo_messages :: "(int \<times> store_message) list" where
  "demo_messages =
     [(1, Msg_SetServices [sample_service ''1'' [] 1, sample_service ''2'' [] 2]),
      (2, Msg_Links [(sample_hubble_link 0 ''a'' ''1'' ''2'' 80 Verdict_Dropped, StateChange_Added)]),
      (3, Msg_Reset filters_default None)]"

theorem store_invariant_witness:
  "distinct (map card_id (sf_services (ms_current (store_run uniq_first demo_url demo_messages (store_new 0 demo_counters)))))"
proof -
  have "list_all (\<lambda>m. sane_message (snd m)) demo_messages"
    by (simp add: demo_messages_def sample_service_def)
  from store_invariant [OF this refl, of _ uniq_first demo_url 0 demo_counters] show ?thesis by blast
qed

section \<open>Nothing is lost from the global frame\<close>

text \<open>The identifiers of the links and of the cards of a frame.\<close>

definition frame_ids :: "store_frame \<Rightarrow> string set \<times> string set" where
  "frame_ids fr = (link_id ` set (is_links (sf_interactions fr)), card_id ` set (sf_services fr))"

lemma ids_eq: "link_id ` set ls = set (map link_id ls)" "card_id ` set cs = set (map card_id cs)"
  by simp_all

lemma ids_map_at:
  "(\<And>x. link_id (g x) = link_id x) \<Longrightarrow>
     link_id ` set (map (\<lambda>x. if P x then g x else x) ls) = link_id ` set ls"
  by (induction ls) auto

lemma applyLink_keeps_ids:
  assumes "wf_links (sf_interactions fr)" "snd lc \<notin> set wrongChanges"
  shows "fst (frame_ids fr) \<subseteq> fst (frame_ids (fst (frame_applyLink lc (fr, c))))
    \<and> snd (frame_ids (fst (frame_applyLink lc (fr, c)))) = snd (frame_ids fr)"
proof
  have "interaction_applyLinkChange (fst lc) (snd lc) (sf_interactions fr, c) =
      interaction_upsertHubbleLink (fst lc) (sf_interactions fr, c)"
    using assms(2) by (cases "snd lc") (simp_all add: interaction_applyLinkChange_def wrongChanges_def)
  then have links: "is_links (sf_interactions (fst (frame_applyLink lc (fr, c)))) =
      is_links (fst (interaction_upsertHubbleLink (fst lc) (sf_interactions fr, c)))"
    by (simp add: frame_applyLink_def split_def Let_def)
  show "fst (frame_ids fr) \<subseteq> fst (frame_ids (fst (frame_applyLink lc (fr, c))))"
    unfolding frame_ids_def fst_conv links upsert_links [OF assms(1)]
    by (simp only: ids_map_at link_id_update split: if_split) auto
  have "map card_id (services_extractAccessPoint ap cards) = map card_id cards" for ap cards
    by (simp add: extractAccessPoint_eq)
  then show "snd (frame_ids (fst (frame_applyLink lc (fr, c)))) = snd (frame_ids fr)"
    by (simp add: frame_ids_def frame_applyLink_def split_def Let_def ids_eq del: set_map)
qed

fun keeps_global :: "store_message \<Rightarrow> bool" where
  "keeps_global (Msg_SetServices svcs) = False"
| "keeps_global (Msg_Flush opts) = (case opts of None \<Rightarrow> True | Some o' \<Rightarrow> \<not> is_on (fo_globalFrame o'))"
| "keeps_global _ = True"

lemma keeps_global_sane: "keeps_global m \<Longrightarrow> sane_message m"
  by (cases m) simp_all

definition ids_le :: "store_frame \<Rightarrow> store_frame \<Rightarrow> bool" where
  "ids_le a b \<longleftrightarrow> fst (frame_ids a) \<subseteq> fst (frame_ids b) \<and> snd (frame_ids a) \<subseteq> snd (frame_ids b)"

lemma ids_le_refl [simp]: "ids_le a a"
  by (simp add: ids_le_def)

lemma ids_le_trans: "ids_le a b \<Longrightarrow> ids_le b c \<Longrightarrow> ids_le a c"
  unfolding ids_le_def by (blast intro: order_trans)

lemma applyLinks_keep_ids:
  "frame_inv (fst s) \<Longrightarrow> list_all (\<lambda>lc. snd lc \<notin> set wrongChanges) lcs \<Longrightarrow>
     ids_le (fst s) (fst (fold frame_applyLink lcs s))"
proof (induction lcs arbitrary: s)
  case (Cons lc lcs)
  have "ids_le (fst s) (fst (frame_applyLink lc s))"
    using applyLink_keeps_ids [of "fst s" lc "snd s"] Cons.prems by (simp add: ids_le_def frame_inv_def interaction_inv_def)
  moreover have "ids_le (fst (frame_applyLink lc s)) (fst (fold frame_applyLink lcs (frame_applyLink lc s)))"
    using Cons.prems by (intro Cons.IH frame_inv_applyLink) simp_all
  ultimately show ?case by (auto intro: ids_le_trans)
qed simp

lemma passed_on_ok: "list_all (\<lambda>ch. snd ch \<notin> set wrongChanges) (passed_on chs)"
  by (simp add: passed_on_def list_all_iff)

lemma applyServiceChange_keeps_ids:
  "ch \<notin> set wrongChanges \<Longrightarrow> card_id ` set cards \<subseteq> card_id ` set (services_applyServiceChange svc ch cards)"
proof -
  assume "ch \<notin> set wrongChanges"
  then have "ch \<noteq> StateChange_Deleted" by (auto simp: wrongChanges_def)
  moreover have "card_id ` set cards \<subseteq> card_id ` set (services_upsertCard c cards)" for c
    by (simp add: upsertCard_eq ids_eq del: set_map) auto
  ultimately show ?thesis by (auto simp: services_applyServiceChange_def services_upsertService_def)
qed

lemma applyServiceChanges_keep_ids:
  "list_all (\<lambda>ch. snd ch \<notin> set wrongChanges) chs \<Longrightarrow>
     card_id ` set cards \<subseteq> card_id ` set (services_applyServiceChanges chs cards)"
  unfolding services_applyServiceChanges_def
proof (induction chs arbitrary: cards)
  case (Cons ch chs)
  show ?case
    using applyServiceChange_keeps_ids [of "snd ch" cards "fst ch"] Cons
    by (simp add: split_def) (rule order_trans)
qed simp

lemma addFlowsInner_ids [simp]: "frame_ids (fst (frame_addFlowsInner uniqBy up now fs d fr)) = frame_ids fr"
  by (simp add: frame_ids_def frame_addFlowsInner_def split_def Let_def)
    (simp only: ids_eq updateServiceEndpoints_eq update_endpoint_ids, simp)

lemma receive_keeps_global:
  assumes "keeps_global (snd m)" "store_inv ms"
  shows "ids_le (ms_global ms) (ms_global (store_receive uniqBy up m ms))"
proof (cases "snd m")
  case (Msg_Flows flows)
  then show ?thesis by (simp add: store_receive_def Let_def message_eqs ids_le_def)
next
  case (Msg_Links links)
  then show ?thesis
    using assms applyLinks_keep_ids [OF _ passed_on_ok, of "(ms_global ms, undefined)" links]
    by (simp add: store_receive_def Let_def current_links_frames [where c = undefined] store_inv_def)
next
  case (Msg_Service ch)
  then show ?thesis
    using applyServiceChanges_keep_ids [OF passed_on_ok, of "sf_services (ms_global ms)" "[ch]"]
    by (simp add: store_receive_def Let_def message_eqs ids_le_def frame_ids_def)
next
  case (Msg_Services chs)
  then show ?thesis
    using applyServiceChanges_keep_ids [OF passed_on_ok, of "sf_services (ms_global ms)" chs]
    by (simp add: store_receive_def Let_def message_eqs ids_le_def frame_ids_def)
qed (use assms in \<open>simp_all add: store_receive_def Let_def store_setFilters_def store_resetCurrentFrame_def
    current_flush_eq split_def store_flush_def store_applyServiceMapFromLogFile_def store_extendServiceMap_def
    store_applyNamespaceChange_def\<close>, auto split: option.splits)

text \<open>C7: once a link or a card is in the global frame it stays there: no message but a flush of the global
  frame or a new list of services takes its identifier away, and a message that it was deleted reaches
  the current frame only.  (No list of services set before has two of one identifier.)\<close>

theorem global_frame_only_grows:
  assumes "list_all (\<lambda>m. sane_message (snd m)) earlier" "list_all (\<lambda>m. keeps_global (snd m)) later"
    and "store_run uniqBy up earlier (store_new now c0) = ms"
  shows "link_id ` set (is_links (sf_interactions (ms_global ms)))
      \<subseteq> link_id ` set (is_links (sf_interactions (ms_global (store_run uniqBy up later ms))))
    \<and> card_id ` set (sf_services (ms_global ms))
      \<subseteq> card_id ` set (sf_services (ms_global (store_run uniqBy up later ms)))"
proof -
  have "store_inv ms" using store_inv_run [OF assms(1) store_inv_new, of uniqBy up now c0] assms(3) by simp
  then have "ids_le (ms_global ms) (ms_global (store_run uniqBy up later ms))"
    using assms(2)
  proof (induction later arbitrary: ms)
    case (Cons m later)
    have inv: "store_inv (store_receive uniqBy up m ms)"
      using Cons.prems by (intro store_inv_receive) (simp_all add: keeps_global_sane)
    have "ids_le (ms_global ms) (ms_global (store_receive uniqBy up m ms))"
      using Cons.prems by (intro receive_keeps_global) simp_all
    then show ?case using Cons.IH [OF inv] Cons.prems by (auto intro: ids_le_trans)
  qed simp
  then show ?thesis by (simp add: ids_le_def frame_ids_def)
qed

theorem global_frame_only_grows_witness:
  "''1'' \<in> card_id ` set (sf_services (ms_global (store_run uniq_first demo_url
      [(4, Msg_Service (sample_service ''1'' [] 1, StateChange_Deleted))]
      (store_run uniq_first demo_url [(1, Msg_SetServices [sample_service ''1'' [] 1])] (store_new 0 demo_counters)))))"
proof -
  let ?ms = "store_run uniq_first demo_url [(1, Msg_SetServices [sample_service ''1'' [] 1])] (store_new 0 demo_counters)"
  have "''1'' \<in> card_id ` set (sf_services (ms_global ?ms))"
    by (simp add: store_receive_def Let_def message_eqs services_set_def sample_service_def)
  then show ?thesis
    using global_frame_only_grows [of "[(1, Msg_SetServices [sample_service ''1'' [] 1])]"
        "[(4, Msg_Service (sample_service ''1'' [] 1, StateChange_Deleted))]" uniq_first demo_url 0 demo_counters ?ms]
    by (simp del: store_run_simps) blast
qed

section \<open>Filters\<close>

text \<open>the filters read back from the store are the ones that were set, with an absent collection read back
  as an empty one and an absent switch as one that is off.\<close>

theorem store_filters_round_trip:
  "store_filters (store_setFilters f ms) =
     f\<lparr>fi_verdicts := Some (or_empty (fi_verdicts f)), fi_filters := Some (or_empty (fi_filters f)),
       fi_skipHost := Some (is_on (fi_skipHost f)), fi_skipKubeDns := Some (is_on (fi_skipKubeDns f)),
       fi_skipRemoteNode := Some (is_on (fi_skipRemoteNode f)),
       fi_skipPrometheusApp := Some (is_on (fi_skipPrometheusApp f))\<rparr>"
proof -
  have "map_option nd_namespace (map_option (\<lambda>n. \<lparr>nd_namespace = n, nd_relay = P n\<rparr>) x) = x" for P x
    by (cases x) simp_all
  then show ?thesis
    by (simp add: store_filters_def store_setFilters_def frame_setFilters_def controls_setFilters_def
        namespaces_setCurrent_def namespaces_current_def namespaces_get_def Let_def)
qed

section \<open>The current frame after a reset\<close>

lemma wf_cardsMap: "wf_map (services_cardsMap cards)"
proof -
  have "wf_map m \<Longrightarrow> wf_map (fold (\<lambda>c m. map_set (hs_id (sc_service c)) c m) cards m)" for m
    by (induction cards arbitrary: m) simp_all
  then show ?thesis by (simp add: services_cardsMap_def)
qed

lemma wf_interaction_connections: "wf_conn (lc_incomings (interaction_connections st))"
  by (simp add: interaction_connections_def wf_conn_inversed)

text \<open>A link or card that the filtering of a frame returns is one of the frame that passes.\<close>

lemma filtered_links:
  assumes "l \<in> set (fr_links (filter_frame up fs flows (services_cardsMap cards) (interaction_connections st)))"
  shows "l \<in> set (is_links st) \<and> filterLink l fs"
proof -
  let ?cards = "services_cardsMap cards" and ?lc = "interaction_connections st"
  obtain cloned links bl where
    "fr_links (filter_frame up fs flows ?cards ?lc) = links"
    "links_ok fs {(r, s, l). link_wanted fs ?cards ?lc r s l} cloned links"
    by (rule filter_frame_loops [OF wf_cardsMap [of cards] wf_interaction_connections [of st], of up fs flows])
  then have "filterLink l fs" "\<exists>r s. link_wanted fs ?cards ?lc r s l"
    using assms unfolding links_ok_def by blast+
  moreover from this obtain r s ap where "conn_lookup (lc_incomings ?lc) r s ap = Some l"
    unfolding link_wanted_def by blast
  then have "find (\<lambda>l. link_key l = (s, r, ap)) (is_links st) = Some l"
    by (simp only: interaction_connections_def build_lookup_incomings build_lookup)
  ultimately show ?thesis by (auto simp: find_Some_iff)
qed

lemma card_view_in: "card_view cards k = Some c \<Longrightarrow> c \<in> set cards"
proof -
  assume "card_view cards k = Some c"
  then obtain i where "i < length (rev cards)" "rev cards ! i = c"
    unfolding card_view_find find_Some_iff by blast
  then show "c \<in> set cards" using nth_mem [of i "rev cards"] by simp
qed

lemma filtered_cards:
  assumes "c \<in> set (fr_services (filter_frame up fs flows (services_cardsMap cards) (interaction_connections st)))"
  shows "filterService c fs \<and> (\<exists>orig \<in> set cards. sc_service c = sc_service orig)"
proof -
  let ?cards = "services_cardsMap cards" and ?lc = "interaction_connections st"
  obtain cloned links bl where eq: "fr_services (filter_frame up fs flows ?cards ?lc) = map_values cloned"
    and ok: "cloned_ok fs ?cards {(r, s, l). link_wanted fs ?cards ?lc r s l} cloned"
    by (rule filter_frame_loops [OF wf_cardsMap [of cards] wf_interaction_connections [of st], of up fs flows])
  have "wf_map cloned" using ok unfolding cloned_ok_def by blast
  then obtain k where "map_get cloned k = Some c" using assms wf_map_get_iff [of cloned] unfolding eq by force
  then obtain orig r s l where o: "map_get ?cards k = Some orig" "sc_service c = sc_service orig"
      "link_wanted fs ?cards ?lc r s l" "k = r \<or> k = s"
    using ok unfolding cloned_ok_def by blast
  then have "filterService orig fs" by (auto simp: link_wanted_def end_allowed_def)
  moreover have "orig \<in> set cards" using card_view_in [of cards k orig] o(1) by (simp add: card_view_def)
  ultimately show ?thesis using o(2) filterService_service [OF o(2)] by blast
qed

lemma modify_card_services:
  assumes "\<And>c. sc_service (f c) = sc_service c"
  shows "sc_service ` set (modify_card i f cards) = sc_service ` set cards"
proof -
  have "map sc_service (modify_first p f cs) = map sc_service cs" for p cs
    by (induction cs) (simp_all add: assms)
  then have "sc_service ` set (modify_first p f cs) = sc_service ` set cs" for p cs by (metis set_map)
  then show ?thesis by (simp add: modify_card_def)
qed

lemma upsertCards_services:
  "sc_service ` set (fold services_upsertCard cs cards) \<subseteq> sc_service ` set cards \<union> sc_service ` set cs"
proof (induction cs arbitrary: cards)
  case (Cons c cs)
  have "sc_service ` set (services_upsertCard c cards) \<subseteq> insert (sc_service c) (sc_service ` set cards)"
    by (auto simp: upsertCard_eq modify_card_services [OF upsert_card.keeps_service])
  then show ?case using Cons [of "services_upsertCard c cards"] by (simp only: fold_simps list.set image_insert) blast
qed simp

lemma update_endpoint_services: "sc_service ` set (fold update_endpoint eps cards) = sc_service ` set cards"
  by (induction eps arbitrary: cards)
    (simp_all add: update_endpoint_def modify_card_services [OF update_l7.keeps_service])

lemma addLinks_from_empty:
  "is_links st = [] \<Longrightarrow>
     set (is_links (interaction_addLinks ls st)) \<subseteq> (\<lambda>l. link_fromHubbleLink (lk_ref l)) ` set ls"
proof -
  have "set (is_links (interaction_addLinks ls st)) \<subseteq>
      set (is_links st) \<union> (\<lambda>l. link_fromHubbleLink (lk_ref l)) ` set ls" for st
  proof (induction ls arbitrary: st)
    case (Cons l ls)
    have "set (is_links (interaction_addLink (lk_ref l) st)) \<subseteq>
        insert (link_fromHubbleLink (lk_ref l)) (set (is_links st))"
      by (simp add: addLink_links) blast
    then show ?case using Cons [of "interaction_addLink (lk_ref l) st"] by (auto simp: interaction_addLinks_def)
  qed (simp add: interaction_addLinks_def)
  then show "is_links st = [] \<Longrightarrow> ?thesis" by fastforce
qed

lemma reset_frames:
  fixes uniqBy up now fs opts ms
  defines "ms' \<equiv> store_resetCurrentFrame uniqBy up now fs opts ms"
    and "res \<equiv> filter_frame up fs (is_flows (sf_interactions (ms_global ms)))
           (services_cardsMap (sf_services (ms_global ms))) (interaction_connections (sf_interactions (ms_global ms)))"
  obtains st where
    "is_flows (sf_interactions (ms_current ms')) =
       take FLOWS_MAX_COUNT (js_sort (\<lambda>a b. flow_compare b a) (uniqBy (flow_id now) (map flow_clone (fr_flows res))))"
    "is_links (sf_interactions (ms_current ms')) = is_links (interaction_addLinks (map link_clone (fr_links res)) st)"
    "is_links st = []"
    "sc_service ` set (sf_services (ms_current ms')) \<subseteq> sc_service ` set (fr_services res)"
    "ms_global ms' = ms_global ms"
proof -
  let ?fr = "fst (frame_flush opts (ms_current ms) (ms_shared ms))"
  let ?st = "fst (interaction_addFlows uniqBy up now (map flow_clone (fr_flows res)) True (sf_interactions ?fr))"
  let ?mid = "\<lparr>sf_interactions = interaction_addLinks (map link_clone (fr_links res)) ?st,
      sf_services = fold services_upsertCard (fr_services res) (sf_services ?fr)\<rparr>"
  have empty: "is_flows (sf_interactions ?fr) = []" "is_links (sf_interactions ?fr) = []" "sf_services ?fr = []"
    by (simp_all add: frame_flush_def Let_def interaction_clear_def services_clear_def)
  have glob: "ms_global ms' = ms_global ms"
    by (simp add: ms'_def store_resetCurrentFrame_def current_flush_eq split_def Let_def)
  have cur: "ms_current ms' = frame_updateServiceEndpoints ?mid"
    by (simp add: ms'_def store_resetCurrentFrame_def current_flush_eq frame_applyFrame_def split_def Let_def res_def)
  show ?thesis
  proof (rule that [of ?st])
    show "is_flows (sf_interactions (ms_current ms')) =
       take FLOWS_MAX_COUNT (js_sort (\<lambda>a b. flow_compare b a) (uniqBy (flow_id now) (map flow_clone (fr_flows res))))"
      unfolding cur by (simp add: addFlows_flows empty)
    show "sc_service ` set (sf_services (ms_current ms')) \<subseteq> sc_service ` set (fr_services res)"
      using upsertCards_services [of "fr_services res" "[]"]
      unfolding cur updateServiceEndpoints_eq update_endpoint_services by (simp add: empty)
  qed (simp_all add: cur glob empty)
qed

text \<open>C5: after a reset the current frame shows only clones of flows of the global frame that pass the filters, only cards
  that pass and stand for services of the global frame, and only links that are built anew from the first message of a link
  of the global frame that passes (the link shown has forgotten further verdicts, so it need not pass itself).  If the
  global frame holds at most 1024 flows, every flow of it that passes is shown, up to its identifier.  The global frame is as
  before.\<close>

theorem reset_shows_what_passes:
  assumes uniq: "uniqBy_doc uniqBy"
    and glob: "ms_global ms = g" and cur: "ms_current (store_resetCurrentFrame uniqBy up now fs opts ms) = c"
  shows "(\<forall>f \<in> set (is_flows (sf_interactions c)). \<exists>f' \<in> set (is_flows (sf_interactions g)). f = flow_clone f' \<and> filterFlow up f' fs)
    \<and> (\<forall>l \<in> set (is_links (sf_interactions c)). \<exists>l' \<in> set (is_links (sf_interactions g)). l = link_fromHubbleLink (lk_ref l') \<and> filterLink l' fs)
    \<and> (\<forall>s \<in> set (sf_services c). filterService s fs \<and> (\<exists>s' \<in> set (sf_services g). sc_service s = sc_service s'))
    \<and> (length (is_flows (sf_interactions g)) \<le> 1024 \<longrightarrow>
         (\<forall>f \<in> set (is_flows (sf_interactions g)). filterFlow up f fs \<longrightarrow>
            flow_id now (flow_clone f) \<in> flow_id now ` set (is_flows (sf_interactions c))))
    \<and> ms_global (store_resetCurrentFrame uniqBy up now fs opts ms) = g"
proof -
  let ?res = "filter_frame up fs (is_flows (sf_interactions g)) (services_cardsMap (sf_services g))
      (interaction_connections (sf_interactions g))"
  let ?clones = "map flow_clone (fr_flows ?res)"
  obtain st where
    fl: "is_flows (sf_interactions c) = take FLOWS_MAX_COUNT (js_sort (\<lambda>a b. flow_compare b a) (uniqBy (flow_id now) ?clones))"
    and li: "is_links (sf_interactions c) = is_links (interaction_addLinks (map link_clone (fr_links ?res)) st)"
    and st: "is_links st = []"
    and se: "sc_service ` set (sf_services c) \<subseteq> sc_service ` set (fr_services ?res)"
    and same: "ms_global (store_resetCurrentFrame uniqBy up now fs opts ms) = g"
    by (rule reset_frames [of uniqBy up now fs opts ms, unfolded cur glob])
  have sort: "set (js_sort cmp xs) = set xs" for cmp and xs :: "flow list" by (metis mset_js_sort set_mset_mset)
  have u: "set (uniqBy (flow_id now) ?clones) \<subseteq> set ?clones"
      "flow_id now ` set (uniqBy (flow_id now) ?clones) = flow_id now ` set ?clones"
      "distinct (map (flow_id now) (uniqBy (flow_id now) ?clones))"
    using uniq unfolding uniqBy_doc_def by blast+
  have passing: "set ?clones = flow_clone ` {f \<in> set (is_flows (sf_interactions g)). filterFlow up f fs}"
    by (simp add: filter_frame_flows)
  have flows: "\<exists>f' \<in> set (is_flows (sf_interactions g)). f = flow_clone f' \<and> filterFlow up f' fs"
    if "f \<in> set (is_flows (sf_interactions c))" for f
    using in_set_takeD [OF that [unfolded fl]] u(1) passing unfolding sort by blast
  have links: "\<exists>l' \<in> set (is_links (sf_interactions g)). l = link_fromHubbleLink (lk_ref l') \<and> filterLink l' fs"
    if l: "l \<in> set (is_links (sf_interactions c))" for l
  proof -
    have "l \<in> (\<lambda>l. link_fromHubbleLink (lk_ref l)) ` set (map link_clone (fr_links ?res))"
      using subsetD [OF addLinks_from_empty [OF st] l [unfolded li]] .
    then obtain l' where l': "l' \<in> set (fr_links ?res)" "l = link_fromHubbleLink (lk_ref l')"
      by (auto simp: link_clone_def link_fromHubbleLink_def)
    show ?thesis using filtered_links [OF l'(1)] l'(2) by blast
  qed
  have cards: "filterService s fs \<and> (\<exists>s' \<in> set (sf_services g). sc_service s = sc_service s')"
    if s: "s \<in> set (sf_services c)" for s
  proof -
    have "sc_service s \<in> sc_service ` set (fr_services ?res)" by (rule subsetD [OF se imageI [OF s]])
    then obtain s0 where s0: "s0 \<in> set (fr_services ?res)" "sc_service s = sc_service s0" by (rule imageE)
    show ?thesis unfolding filterService_service [OF s0(2)] s0(2) by (rule filtered_cards [OF s0(1)])
  qed
  have all: "flow_id now (flow_clone f) \<in> flow_id now ` set (is_flows (sf_interactions c))"
    if few: "length (is_flows (sf_interactions g)) \<le> 1024"
      and f: "f \<in> set (is_flows (sf_interactions g))" "filterFlow up f fs" for f
  proof -
    have "length (uniqBy (flow_id now) ?clones) \<le> length ?clones"
    proof -
      have "length (uniqBy (flow_id now) ?clones) = card (flow_id now ` set (uniqBy (flow_id now) ?clones))"
        using distinct_card [OF u(3)] by simp
      also have "\<dots> \<le> card (set ?clones)" unfolding u(2) by (rule card_image_le) simp
      also have "\<dots> \<le> length ?clones" by (rule card_length)
      finally show ?thesis .
    qed
    also have "length ?clones \<le> length (is_flows (sf_interactions g))"
      by (simp add: filter_frame_flows)
    finally have "length (uniqBy (flow_id now) ?clones) \<le> FLOWS_MAX_COUNT"
      using few by (simp add: FLOWS_MAX_COUNT_def)
    moreover have "length (js_sort cmp xs) = length xs" for cmp and xs :: "flow list"
      by (metis mset_js_sort size_mset)
    ultimately have "set (is_flows (sf_interactions c)) = set (uniqBy (flow_id now) ?clones)"
      unfolding fl by (simp add: sort)
    then show ?thesis using f u(2) passing by blast
  qed
  show ?thesis using flows links cards all same glob by blast
qed

theorem reset_shows_what_passes_witness:
  "let ms = store_run uniq_first demo_url demo_messages (store_new 0 demo_counters)
   in \<forall>s \<in> set (sf_services (ms_current (store_resetCurrentFrame uniq_first demo_url 9 demo_filters None ms))).
        filterService s demo_filters"
  using reset_shows_what_passes [OF uniqBy_doc_uniq_first refl refl, of demo_url 9 demo_filters None]
  unfolding Let_def by blast

text \<open>the links a reset copies into the current frame forget the verdicts they accumulated: each shows the
  verdict of the first message about it only, so that a link shown need not pass the filters that
  selected it.\<close>

theorem reset_forgets_verdicts:
  assumes "l \<in> set (is_links (sf_interactions (ms_current (store_resetCurrentFrame uniqBy up now fs opts ms))))"
  shows "lk_verdicts l = [hl_verdict (lk_ref l)] \<and> lk_authTypes l = [hl_authType (lk_ref l)]"
proof -
  obtain st and res :: filter_result where
    li: "is_links (sf_interactions (ms_current (store_resetCurrentFrame uniqBy up now fs opts ms))) =
      is_links (interaction_addLinks (map link_clone (fr_links res)) st)" and st: "is_links st = []"
    by (rule reset_frames [of uniqBy up now fs opts ms]) (rule that)
  have "l \<in> (\<lambda>l. link_fromHubbleLink (lk_ref l)) ` set (map link_clone (fr_links res))"
    using subsetD [OF addLinks_from_empty [OF st] assms [unfolded li]] .
  then show ?thesis by (auto simp: link_fromHubbleLink_def)
qed

definition twice_store :: main_store where
  "twice_store = store_run uniq_first demo_url
     [(1, Msg_SetServices [sample_service ''1'' [] 1, sample_service ''2'' [] 2]),
      (2, Msg_Links [(sample_hubble_link 0 ''a'' ''1'' ''2'' 80 Verdict_Forwarded, StateChange_Added),
                     (sample_hubble_link 1 ''a'' ''1'' ''2'' 80 Verdict_Dropped, StateChange_Exists)])] (store_new 0 demo_counters)"

definition dropped_only :: filters where
  "dropped_only = filters_default\<lparr>fi_verdicts := Some [Verdict_Dropped]\<rparr>"

lemma twice_links:
  "is_links (sf_interactions (ms_current (store_resetCurrentFrame uniq_first demo_url 3 dropped_only None twice_store))) =
     [link_fromHubbleLink (sample_hubble_link 0 ''a'' ''1'' ''2'' 80 Verdict_Forwarded)]"
  by code_simp

theorem reset_forgets_verdicts_witness:
  "\<exists>l \<in> set (is_links (sf_interactions (ms_current
        (store_resetCurrentFrame uniq_first demo_url 3 dropped_only None twice_store)))).
     lk_verdicts l = [Verdict_Forwarded] \<and> \<not> filterLink l dropped_only"
proof -
  let ?l = "link_fromHubbleLink (sample_hubble_link 0 ''a'' ''1'' ''2'' 80 Verdict_Forwarded)"
  have shown: "?l \<in> set (is_links (sf_interactions (ms_current
        (store_resetCurrentFrame uniq_first demo_url 3 dropped_only None twice_store))))"
    unfolding twice_links by simp
  have "lk_verdicts ?l = [Verdict_Forwarded]"
    using reset_forgets_verdicts [OF shown] by (simp add: link_fromHubbleLink_def sample_hubble_link_def)
  moreover have "\<not> filterLink ?l dropped_only" by code_simp
  ultimately show ?thesis using shown by blast
qed

section \<open>Counters of the links\<close>

lemma frame_applyLink_counters:
  assumes "wf_links (sf_interactions fr)" "change \<in> {StateChange_Added, StateChange_Modified, StateChange_Exists}"
    and "link_view (sf_interactions fr) (hl_id hl) = Some l"
  shows "snd (frame_applyLink (hl, change) (fr, c)) =
    c(hl_ref (lk_ref l) :=
        (fst (c (hl_ref (lk_ref l))) + fst (c (hl_ref hl)), snd (c (hl_ref (lk_ref l))) + snd (c (hl_ref hl))))"
proof -
  have "interaction_applyLinkChange hl change (sf_interactions fr, c) =
      interaction_upsertHubbleLink hl (sf_interactions fr, c)"
    using assms(2) by (auto simp: interaction_applyLinkChange_def)
  then show ?thesis
    using upsert_counters [OF assms(1), of hl c] assms(3)
    by (simp add: frame_applyLink_def split_def Let_def)
qed

text \<open>the two frames share the object under a link, so a further message about a link that both frames got
  from the same object adds its flows and bytes twice.\<close>

theorem link_messages_counted_twice:
  assumes "store_inv ms" "change \<in> {StateChange_Added, StateChange_Modified, StateChange_Exists}"
    and "link_view (sf_interactions (ms_current ms)) (hl_id hl) = Some l"
    and "link_view (sf_interactions (ms_global ms)) (hl_id hl) = Some l'"
    and "hl_ref (lk_ref l) = r" "hl_ref (lk_ref l') = r" "hl_ref hl \<noteq> r"
    and "sh_counters (ms_shared ms) = c"
    and "sh_counters (ms_shared (current_applyServiceLinkChanges uniqBy up now [(hl, change)] ms)) = c'"
  shows "c' r = (fst (c r) + 2 * fst (c (hl_ref hl)), snd (c r) + 2 * snd (c (hl_ref hl)))"
proof -
  have wf: "wf_links (sf_interactions (ms_current ms))" "wf_links (sf_interactions (ms_global ms))"
    using assms(1) by (simp_all add: store_inv_def frame_inv_def interaction_inv_def)
  have "passed_on [(hl, change)] = [(hl, change)]"
    using assms(2) by (auto simp: passed_on_def wrongChanges_def)
  then have "c' = snd (frame_applyLink (hl, change) (ms_global ms, snd (frame_applyLink (hl, change) (ms_current ms, c))))"
    unfolding assms(8,9) [symmetric] by (simp add: current_links_eq split_def Let_def)
  then show ?thesis
    unfolding frame_applyLink_counters [OF wf(1) assms(2,3)] frame_applyLink_counters [OF wf(2) assms(2,4)]
    using assms(5-7) by simp
qed

text \<open>The first message about a link and a second one, of one flow each, count as three flows.\<close>

theorem link_messages_counted_twice_witness:
  "sh_counters (ms_shared (current_applyServiceLinkChanges uniq_first demo_url 3
      [(sample_hubble_link 1 ''a'' ''1'' ''2'' 80 Verdict_Dropped, StateChange_Exists)]
      (store_run uniq_first demo_url
         [(2, Msg_Links [(sample_hubble_link 0 ''a'' ''1'' ''2'' 80 Verdict_Dropped, StateChange_Added)])]
         (store_new 0 demo_counters)))) 0 = (3, 30)"
proof -
  let ?msgs = "[(2, Msg_Links [(sample_hubble_link 0 ''a'' ''1'' ''2'' 80 Verdict_Dropped, StateChange_Added)])]"
  let ?ms = "store_run uniq_first demo_url ?msgs (store_new 0 demo_counters)"
  let ?l = "link_fromHubbleLink (sample_hubble_link 0 ''a'' ''1'' ''2'' 80 Verdict_Dropped)"
  have inv: "store_inv ?ms" by (rule store_inv_run [OF _ store_inv_new]) simp
  let ?h = "sample_hubble_link 1 ''a'' ''1'' ''2'' 80 Verdict_Dropped"
  have views: "link_view (sf_interactions (ms_current ?ms)) (hl_id ?h) = Some ?l"
    "link_view (sf_interactions (ms_global ?ms)) (hl_id ?h) = Some ?l" by code_simp+
  have c: "sh_counters (ms_shared ?ms) r = (1, 10)" for r by code_simp
  have ref: "hl_ref (lk_ref ?l) = 0" "hl_ref ?h = 1" by (simp_all add: sample_hubble_link_def link_fromHubbleLink_def)
  note counted = link_messages_counted_twice [OF inv _ views ref(1) ref(1) _ refl refl]
  show ?thesis by (subst counted) (simp_all only: c ref, simp_all)
qed

end
