(* ===== verification/Stream_Core.thy ===== *)
theory Stream_Core
  imports Prelude
begin

text \<open>
  \<open>src/api/customprotocol-core\<close>: the messages of the polling protocol, and a stream as a state machine.
  A stream polls its route: a timer fires, a request is sent, and the answer decides whether the timer is
  set again or the stream ends.  The first request opens a channel, whose identifier the answer brings;
  later requests wait for it.

  The asynchronous parts become labels: what the network answers, when a timer fires, what the user
  calls.  A request in flight is a task; it waits at once for its answer and for the interruption of the
  stream, by \<open>Promise.any\<close>, which settles with the first of them that is fulfilled and ignores a
  rejection while the other is pending.  A label acts to the end of its microtasks, and what the
  handlers of events call are labels of their own that follow.  The delay of a reconnect event and
  \<open>console\<close> output are left out.  The bodies of messages are lists of bytes; reading and
  writing them is the network's part.  \<open>so_builder\<close> is the \<open>messageBuilder\<close> of a subclass, \<open>so_trace\<close>
  the random trace identifiers.
\<close>

section \<open>Messages\<close>

record custom_error =
  ce_kind :: int
  ce_code :: int
  ce_message :: string

record pb_meta =
  pm_routeName :: string
  pm_channelId :: string
  pm_traceId :: string
  pm_pollDelayMs :: int
  pm_isEmpty :: bool
  pm_isTerminated :: bool
  pm_isNotReady :: bool
  pm_isError :: bool
  pm_errors :: "custom_error list"

record pb_message =
  pb_meta :: "pb_meta option"
  pb_body :: "nat list option"

definition empty_meta :: pb_meta where
  "empty_meta =
     \<lparr>pm_routeName = [], pm_channelId = [], pm_traceId = [], pm_pollDelayMs = 0, pm_isEmpty = False,
      pm_isTerminated = False, pm_isNotReady = False, pm_isError = False, pm_errors = []\<rparr>"

definition message_newProto :: pb_message where
  "message_newProto = \<lparr>pb_meta = Some empty_meta, pb_body = Some []\<rparr>"

definition update_meta :: "(pb_meta \<Rightarrow> pb_meta) \<Rightarrow> pb_message \<Rightarrow> pb_message" where
  "update_meta f m = m\<lparr>pb_meta := map_option f (pb_meta m)\<rparr>"

definition message_setChannelId :: "string option \<Rightarrow> pb_message \<Rightarrow> pb_message" where
  "message_setChannelId chId = update_meta (\<lambda>meta. meta\<lparr>pm_channelId := (case chId of None \<Rightarrow> [] | Some c \<Rightarrow> c)\<rparr>)"

definition message_setIsNotReady :: "bool option \<Rightarrow> pb_message \<Rightarrow> pb_message" where
  "message_setIsNotReady nr = update_meta (\<lambda>meta. meta\<lparr>pm_isNotReady := (nr = Some True)\<rparr>)"

definition message_setTraceId :: "string option \<Rightarrow> pb_message \<Rightarrow> pb_message" where
  "message_setTraceId tId = update_meta (\<lambda>meta. meta\<lparr>pm_traceId := (case tId of None \<Rightarrow> [] | Some t \<Rightarrow> t)\<rparr>)"

definition message_setIsTerminated :: "bool option \<Rightarrow> pb_message \<Rightarrow> pb_message" where
  "message_setIsTerminated isTerm = update_meta (\<lambda>meta. meta\<lparr>pm_isTerminated := (isTerm = Some True)\<rparr>)"

definition message_setRoute :: "string \<Rightarrow> pb_message \<Rightarrow> pb_message" where
  "message_setRoute r = update_meta (\<lambda>meta. meta\<lparr>pm_routeName := r\<rparr>)"

definition message_setBodyBytes :: "nat list \<Rightarrow> pb_message \<Rightarrow> pb_message" where
  "message_setBodyBytes b m = m\<lparr>pb_body := map_option (\<lambda>_. b) (pb_body m)\<rparr>"

definition message_newMessage :: "string \<Rightarrow> string option \<Rightarrow> pb_message" where
  "message_newMessage route traceId =
     update_meta (\<lambda>meta. meta\<lparr>pm_routeName := route, pm_traceId := (case traceId of None \<Rightarrow> pm_traceId meta | Some t \<Rightarrow> t)\<rparr>)
       message_newProto"

definition message_newPoll :: "string \<Rightarrow> string option \<Rightarrow> pb_message" where
  "message_newPoll route traceId = update_meta (\<lambda>meta. meta\<lparr>pm_isNotReady := True\<rparr>) (message_newMessage route traceId)"

definition message_channelId :: "pb_message \<Rightarrow> string" where
  "message_channelId m = (case pb_meta m of None \<Rightarrow> [] | Some meta \<Rightarrow> pm_channelId meta)"

definition message_pollDelay :: "pb_message \<Rightarrow> int" where
  "message_pollDelay m = (case pb_meta m of None \<Rightarrow> 0 | Some meta \<Rightarrow> pm_pollDelayMs meta)"

definition message_body :: "pb_message \<Rightarrow> nat list" where
  "message_body m = (case pb_body m of None \<Rightarrow> [] | Some b \<Rightarrow> b)"

definition message_hasPayload :: "pb_message \<Rightarrow> bool" where
  "message_hasPayload m \<longleftrightarrow> 0 < length (message_body m)"

definition message_isNotReady :: "pb_message \<Rightarrow> bool" where
  "message_isNotReady m \<longleftrightarrow> (case pb_meta m of None \<Rightarrow> False | Some meta \<Rightarrow> pm_isNotReady meta)"

definition message_isTerminated :: "pb_message \<Rightarrow> bool" where
  "message_isTerminated m \<longleftrightarrow> (case pb_meta m of None \<Rightarrow> False | Some meta \<Rightarrow> pm_isTerminated meta)"

definition message_isEmpty :: "pb_message \<Rightarrow> bool" where
  "message_isEmpty m \<longleftrightarrow> (case pb_meta m of None \<Rightarrow> False | Some meta \<Rightarrow> pm_isEmpty meta)"

definition message_isError :: "pb_message \<Rightarrow> bool" where
  "message_isError m \<longleftrightarrow> (case pb_meta m of None \<Rightarrow> False | Some meta \<Rightarrow> pm_isError meta)"

definition message_errors :: "pb_message \<Rightarrow> custom_error list" where
  "message_errors m = (case pb_meta m of None \<Rightarrow> [] | Some meta \<Rightarrow> pm_errors meta)"

section \<open>Answers and errors\<close>

datatype poll_control = PollControl_Continue | PollControl_Finalized | PollControl_Terminate

datatype request_error =
    Err_TypeError
  | Err_HTTPResult "int option"
  | Err_DOMException string
  | Err_Other

datatype stream_event =
    Ev_Message pb_message
  | Ev_Terminated bool "custom_error list"
  | Ev_Errors "custom_error list"
  | Ev_InvalidMessage pb_message
  | Ev_ConnectionError
  | Ev_ConnectTimeout
  | Ev_UnknownError
  | Ev_Stopped
  | Ev_EmptyResponse
  | Ev_ConnectAttemptFailed nat request_error
  | Ev_ReconnectAttempt nat
  | Ev_Reconnected nat

definition stream_isErrorRecoverable :: "request_error \<Rightarrow> bool" where
  "stream_isErrorRecoverable err =
     (case err of
        Err_TypeError \<Rightarrow> True
      | Err_HTTPResult status \<Rightarrow> (case status of None \<Rightarrow> True | Some s \<Rightarrow> \<not> 400 \<le> s)
      | Err_DOMException name \<Rightarrow> name = ''AbortError''
      | Err_Other \<Rightarrow> False)"

text \<open>What \<open>send\<close> makes of the answer to a request: a null, the interruption, or a message.\<close>

datatype answer = Answer_Null | Answer_Interrupted | Answer_Message pb_message

definition stream_answer ::
  "pb_message \<Rightarrow> answer \<Rightarrow> poll_control \<times> pb_message option \<times> stream_event list" where
  "stream_answer req ans =
     (case ans of
        Answer_Null \<Rightarrow> (PollControl_Continue, None, [])
      | Answer_Interrupted \<Rightarrow> (PollControl_Finalized, None, [Ev_Terminated True []])
      | Answer_Message resp \<Rightarrow>
          (let evs = (if message_isError resp then [Ev_Errors (message_errors resp)] else [])
                     @ (if message_hasPayload resp then [Ev_Message resp] else [])
           in if message_isTerminated resp
              then (let control = (if message_isNotReady resp \<or> message_isEmpty resp \<or> message_isTerminated req
                                   then PollControl_Finalized else PollControl_Continue)
                    in (control, Some resp,
                        if control = PollControl_Finalized
                        then evs @ [Ev_Terminated (message_isTerminated req) (message_errors resp)] else evs))
              else if message_pollDelay resp \<le> 0
              then (PollControl_Continue, Some resp, evs @ [Ev_InvalidMessage resp])
              else (PollControl_Continue, Some resp, evs)))"

text \<open>The handler of errors in \<open>send\<close>; the flag says whether it terminates the stream.\<close>

definition stream_catch :: "request_error \<Rightarrow> poll_control \<times> stream_event list \<times> bool" where
  "stream_catch err =
     (case err of
        Err_DOMException name \<Rightarrow>
          if name = ''AbortError'' then (PollControl_Finalized, [], False)
          else (PollControl_Continue, [Ev_ConnectTimeout], False)
      | Err_TypeError \<Rightarrow> (PollControl_Continue, [Ev_ConnectionError], False)
      | _ \<Rightarrow> (PollControl_Continue, [Ev_UnknownError], True))"

section \<open>The state of a stream\<close>

datatype task_kind = Task_Poll | Task_Terminate | Task_Send

text \<open>The retry loop of a task: it waits for the identifier of a channel, an attempt is in flight, the loop
  waits before the next attempt, it was rejected, or it found the stream stopped.  \<open>tk_interrupted\<close> says
  that the interruption the task holds was resolved, \<open>tk_returned\<close> that \<open>send\<close> has returned: the loop of
  an interrupted task goes on behind its back.\<close>

datatype task_phase = Waiting nat | InFlight | Delayed | Rejected | Found_Stopped

record task =
  tk_kind :: task_kind
  tk_fn :: "pb_message \<Rightarrow> pb_message"
  tk_msg :: pb_message
  tk_created :: bool
  tk_phase :: task_phase
  tk_interrupted :: bool
  tk_returned :: bool

datatype timer_state = Timer_Armed | Timer_Idle

text \<open>The channel is its promise, with a number, and the identifier once it is resolved.\<close>

record stream_state =
  st_timer :: "timer_state option"
  st_channel :: "(nat \<times> string option) option"
  st_channels :: nat
  st_tasks :: "(nat, task) js_map"
  st_taskCount :: nat
  st_attempt :: nat
  st_events :: "stream_event list"

record stream_opts =
  so_route :: string
  so_reconnects :: bool
  so_maxAttempts :: "nat option"
  so_oneshot :: bool
  so_builder :: "pb_message \<Rightarrow> bool \<Rightarrow> pb_message"
  so_trace :: "nat \<Rightarrow> string"

definition stream_new :: stream_state where
  "stream_new =
     \<lparr>st_timer = None, st_channel = None, st_channels = 0, st_tasks = [], st_taskCount = 0, st_attempt = 1,
      st_events = []\<rparr>"

definition stream_isStopped :: "stream_state \<Rightarrow> bool" where
  "stream_isStopped st \<longleftrightarrow> st_timer st = None"

definition stream_emit :: "stream_event list \<Rightarrow> stream_state \<Rightarrow> stream_state" where
  "stream_emit evs st = st\<lparr>st_events := st_events st @ evs\<rparr>"

definition put_task :: "nat \<Rightarrow> task \<Rightarrow> stream_state \<Rightarrow> stream_state" where
  "put_task i t st = st\<lparr>st_tasks := map_set i t (st_tasks st)\<rparr>"

definition drop_task :: "nat \<Rightarrow> stream_state \<Rightarrow> stream_state" where
  "drop_task i st = st\<lparr>st_tasks := map_delete i (st_tasks st)\<rparr>"

text \<open>\<open>terminate\<close> resolves the interruption that the tasks past the channel hold.\<close>

definition interrupt_task :: "task \<Rightarrow> task" where
  "interrupt_task t = (case tk_phase t of Waiting _ \<Rightarrow> t | _ \<Rightarrow> t\<lparr>tk_interrupted := True\<rparr>)"

definition stream_terminate :: "stream_state \<Rightarrow> stream_state" where
  "stream_terminate st =
     st\<lparr>st_timer := None, st_channel := None, st_tasks := map (\<lambda>(i, t). (i, interrupt_task t)) (st_tasks st)\<rparr>"

definition stream_run :: "stream_state \<Rightarrow> stream_state" where
  "stream_run st = (case st_timer st of None \<Rightarrow> st\<lparr>st_timer := Some Timer_Armed\<rparr> | Some _ \<Rightarrow> st)"

text \<open>The event that follows the success of an attempt, and the start of an attempt: with no attempts left the
  loop is rejected, and when the stream is stopped it succeeds with the mark of the interruption.\<close>

definition reconnected :: "stream_state \<Rightarrow> stream_event list" where
  "reconnected st = (if st_attempt st = 1 then [] else [Ev_Reconnected (st_attempt st)])"

definition start_attempt :: "stream_opts \<Rightarrow> nat \<Rightarrow> task \<Rightarrow> stream_state \<Rightarrow> stream_state" where
  "start_attempt so i t st =
     (if (case so_maxAttempts so of None \<Rightarrow> False | Some m \<Rightarrow> m < st_attempt st)
      then put_task i (t\<lparr>tk_phase := Rejected\<rparr>) st
      else if stream_isStopped st
      then stream_emit (reconnected st) (put_task i (t\<lparr>tk_phase := Found_Stopped\<rparr>) st)
      else put_task i (t\<lparr>tk_phase := InFlight\<rparr>) st)"

text \<open>The part of \<open>_send\<close> after the channel is known: the message is built and the first attempt starts.\<close>

definition post_task :: "stream_opts \<Rightarrow> string option \<Rightarrow> nat \<Rightarrow> task \<Rightarrow> stream_state \<Rightarrow> stream_state" where
  "post_task so channelId i t st =
     start_attempt so i
       (t\<lparr>tk_msg := tk_fn t (message_setChannelId channelId
           (message_setTraceId (Some (so_trace so i)) (message_newMessage (so_route so) None)))\<rparr>) st"

definition new_task :: "task_kind \<Rightarrow> (pb_message \<Rightarrow> pb_message) \<Rightarrow> bool \<Rightarrow> task" where
  "new_task kind fn created =
     \<lparr>tk_kind = kind, tk_fn = fn, tk_msg = message_newProto, tk_created = created, tk_phase = Delayed,
      tk_interrupted = False, tk_returned = False\<rparr>"

text \<open>\<open>send\<close>, up to the first time it waits; \<open>ensureChannelPromise\<close> is the case of no channel.\<close>

definition stream_send ::
  "stream_opts \<Rightarrow> task_kind \<Rightarrow> (pb_message \<Rightarrow> pb_message) \<Rightarrow> stream_state \<Rightarrow> stream_state" where
  "stream_send so kind fn st =
     (let i = st_taskCount st; st1 = st\<lparr>st_taskCount := i + 1\<rparr>
      in case st_channel st of
           None \<Rightarrow>
             (let g = st_channels st
              in post_task so None i (new_task kind fn True)
                   (st1\<lparr>st_channel := Some (g, None), st_channels := g + 1\<rparr>))
         | Some (g, Some channelId) \<Rightarrow> post_task so (Some channelId) i (new_task kind fn False) st1
         | Some (g, None) \<Rightarrow> put_task i ((new_task kind fn False)\<lparr>tk_phase := Waiting g\<rparr>) st1)"

text \<open>The identifier of the channel arrives: the tasks that wait for it are posted.\<close>

definition stream_resolveChannel :: "stream_opts \<Rightarrow> string \<Rightarrow> stream_state \<Rightarrow> stream_state" where
  "stream_resolveChannel so channelId st =
     (case st_channel st of
        Some (g, None) \<Rightarrow>
          fold (\<lambda>(i, t) st'. if tk_phase t = Waiting g then post_task so (Some channelId) i t st' else st')
            (st_tasks st) (st\<lparr>st_channel := Some (g, Some channelId)\<rparr>)
      | _ \<Rightarrow> st)"

text \<open>The timer fires: a poll.\<close>

definition stream_fire :: "stream_opts \<Rightarrow> stream_state \<Rightarrow> stream_state" where
  "stream_fire so st =
     (let isFirst = (st_channel st = None)
      in stream_send so Task_Poll
           (\<lambda>msg. so_builder so (if \<not> isFirst then message_setIsNotReady (Some True) msg else msg) isFirst)
           (st\<lparr>st_timer := Some Timer_Idle\<rparr>))"

definition stream_stop :: "stream_opts \<Rightarrow> stream_state \<Rightarrow> stream_state" where
  "stream_stop so st =
     (if st_timer st = None then st else stream_send so Task_Terminate (message_setIsTerminated (Some True)) st)"

text \<open>What follows when \<open>send\<close> returns to the poll, to \<open>stop\<close> or to another caller.\<close>

definition stream_returned ::
  "stream_opts \<Rightarrow> task_kind \<Rightarrow> poll_control \<Rightarrow> pb_message option \<Rightarrow> stream_state \<Rightarrow> stream_state" where
  "stream_returned so kind control resp st =
     (case kind of
        Task_Terminate \<Rightarrow> stream_terminate st
      | Task_Send \<Rightarrow> st
      | Task_Poll \<Rightarrow>
          (case control of
             PollControl_Continue \<Rightarrow>
               if so_oneshot so \<and> (case resp of None \<Rightarrow> False | Some m \<Rightarrow> message_hasPayload m)
               then stream_terminate st
               else (case st_timer st of None \<Rightarrow> st | Some _ \<Rightarrow> st\<lparr>st_timer := Some Timer_Armed\<rparr>)
           | PollControl_Terminate \<Rightarrow> stream_stop so st
           | PollControl_Finalized \<Rightarrow> stream_terminate st))"

text \<open>An answer arrives where it is waited for.\<close>

definition stream_settle :: "stream_opts \<Rightarrow> task \<Rightarrow> answer \<Rightarrow> stream_state \<Rightarrow> stream_state" where
  "stream_settle so t ans st =
     (let st1 = (case ans of
                   Answer_Message resp \<Rightarrow>
                     if tk_created t then stream_resolveChannel so (message_channelId resp) st else st
                 | _ \<Rightarrow> st);
          (control, resp, evs) = stream_answer (tk_msg t) ans
      in stream_returned so (tk_kind t) control resp (stream_emit evs st1))"

section \<open>Steps\<close>

datatype stream_label =
    L_Run
  | L_Stop
  | L_Terminate
  | L_Send "pb_message \<Rightarrow> pb_message"
  | L_Fire
  | L_Respond nat pb_message
  | L_Malformed nat
  | L_Fail nat request_error
  | L_Retry nat
  | L_Interrupted nat

definition task_in :: "(task \<Rightarrow> bool) \<Rightarrow> nat \<Rightarrow> stream_state \<Rightarrow> task option" where
  "task_in p i st = (case map_get (st_tasks st) i of None \<Rightarrow> None | Some t \<Rightarrow> if p t then Some t else None)"

definition awaited :: "task \<Rightarrow> bool" where
  "awaited t \<longleftrightarrow> \<not> tk_interrupted t \<and> \<not> tk_returned t"

text \<open>The loop of a task ends: a task whose \<open>send\<close> has returned is gone.\<close>

definition end_loop :: "nat \<Rightarrow> task \<Rightarrow> stream_state \<Rightarrow> stream_state" where
  "end_loop i t st = (if tk_returned t then drop_task i st else put_task i (t\<lparr>tk_phase := Rejected\<rparr>) st)"

definition can_retry :: "stream_opts \<Rightarrow> stream_state \<Rightarrow> request_error \<Rightarrow> bool" where
  "can_retry so st err \<longleftrightarrow>
     so_reconnects so \<and> stream_isErrorRecoverable err \<and> so_maxAttempts so \<noteq> Some (st_attempt st)"

definition stream_respond :: "stream_opts \<Rightarrow> nat \<Rightarrow> pb_message \<Rightarrow> task \<Rightarrow> stream_state \<Rightarrow> stream_state" where
  "stream_respond so i resp t st =
     (let st1 = stream_emit (reconnected st) st
      in if awaited t then stream_settle so t (Answer_Message resp) (drop_task i st1) else end_loop i t st1)"

definition stream_malformed :: "stream_opts \<Rightarrow> nat \<Rightarrow> task \<Rightarrow> stream_state \<Rightarrow> stream_state" where
  "stream_malformed so i t st =
     (let (control, evs, terminates) = stream_catch Err_Other;
          st1 = stream_emit (reconnected st @ evs) (drop_task i st)
      in stream_returned so (tk_kind t) control None (if terminates then stream_terminate st1 else st1))"

definition stream_fail :: "stream_opts \<Rightarrow> nat \<Rightarrow> request_error \<Rightarrow> task \<Rightarrow> stream_state \<Rightarrow> stream_state" where
  "stream_fail so i err t st =
     (let st1 = stream_emit [Ev_ConnectAttemptFailed (st_attempt st) err] st
      in if can_retry so st err
         then stream_emit [Ev_ReconnectAttempt (st_attempt st)]
                (put_task i (t\<lparr>tk_phase := Delayed\<rparr>) st1)
         else end_loop i t st1)"

text \<open>The delay is over: the attempt, which all requests of the stream share, is counted, and the next one starts.\<close>

definition stream_retry :: "stream_opts \<Rightarrow> nat \<Rightarrow> task \<Rightarrow> stream_state \<Rightarrow> stream_state" where
  "stream_retry so i t st =
     (let st1 = start_attempt so i t (st\<lparr>st_attempt := st_attempt st + 1\<rparr>)
      in if tk_returned t \<and> task_in (\<lambda>t. tk_phase t = InFlight) i st1 = None then drop_task i st1 else st1)"

definition stream_interrupted :: "stream_opts \<Rightarrow> nat \<Rightarrow> task \<Rightarrow> stream_state \<Rightarrow> stream_state" where
  "stream_interrupted so i t st =
     stream_settle so t Answer_Interrupted
       (if tk_phase t = InFlight \<or> tk_phase t = Delayed then put_task i (t\<lparr>tk_returned := True\<rparr>) st
        else drop_task i st)"

definition stream_step :: "stream_opts \<Rightarrow> stream_label \<Rightarrow> stream_state \<Rightarrow> stream_state option" where
  "stream_step so lab st =
     (case lab of
        L_Run \<Rightarrow> Some (stream_run st)
      | L_Stop \<Rightarrow> Some (stream_stop so st)
      | L_Terminate \<Rightarrow> Some (stream_terminate st)
      | L_Send fn \<Rightarrow> Some (stream_send so Task_Send fn st)
      | L_Fire \<Rightarrow> if st_timer st = Some Timer_Armed then Some (stream_fire so st) else None
      | L_Respond i resp \<Rightarrow>
          map_option (\<lambda>t. stream_respond so i resp t st) (task_in (\<lambda>t. tk_phase t = InFlight) i st)
      | L_Malformed i \<Rightarrow>
          map_option (\<lambda>t. stream_malformed so i t st) (task_in (\<lambda>t. tk_phase t = InFlight \<and> awaited t) i st)
      | L_Fail i err \<Rightarrow>
          map_option (\<lambda>t. stream_fail so i err t st) (task_in (\<lambda>t. tk_phase t = InFlight) i st)
      | L_Retry i \<Rightarrow>
          map_option (\<lambda>t. stream_retry so i t st) (task_in (\<lambda>t. tk_phase t = Delayed) i st)
      | L_Interrupted i \<Rightarrow>
          map_option (\<lambda>t. stream_interrupted so i t st)
            (task_in (\<lambda>t. \<not> tk_returned t \<and> (tk_interrupted t \<or> tk_phase t = Found_Stopped)) i st))"

text \<open>Runs: the labels in order.\<close>

fun stream_steps :: "stream_opts \<Rightarrow> stream_label list \<Rightarrow> stream_state \<Rightarrow> stream_state option" where
  "stream_steps so [] st = Some st"
| "stream_steps so (lab # labs) st = Option.bind (stream_step so lab st) (stream_steps so labs)"


section \<open>Invariants of runs\<close>

text \<open>What every allowed step keeps, every run of allowed steps keeps.\<close>

locale stream_invariant =
  fixes so :: stream_opts
    and allowed :: "stream_label \<Rightarrow> bool"
    and holds :: "stream_state \<Rightarrow> bool"
  assumes step: "holds st \<Longrightarrow> allowed lab \<Longrightarrow> stream_step so lab st = Some st' \<Longrightarrow> holds st'"
begin

lemma run: "holds st \<Longrightarrow> list_all allowed labs \<Longrightarrow> stream_steps so labs st = Some st' \<Longrightarrow> holds st'"
  by (induction labs arbitrary: st) (auto simp: bind_eq_Some_conv intro: step)

end

lemma task_in_SomeE:
  assumes "task_in p i st = Some t"
  obtains "map_get (st_tasks st) i = Some t" "p t"
  using assms by (auto simp: task_in_def split: option.splits if_splits)

lemmas stream_state_ops =
  stream_emit_def put_task_def drop_task_def

subsection \<open>One poll at a time\<close>

definition live_poll :: "stream_state \<Rightarrow> task \<Rightarrow> bool" where
  "live_poll st t \<longleftrightarrow>
     tk_kind t = Task_Poll \<and> \<not> tk_returned t
     \<and> (case tk_phase t of Waiting g \<Rightarrow> map_option fst (st_channel st) = Some g | _ \<Rightarrow> \<not> tk_interrupted t)"

definition polls_in :: "stream_state \<Rightarrow> nat set \<Rightarrow> bool" where
  "polls_in st p \<longleftrightarrow>
     wf_map (st_tasks st)
     \<and> (\<forall>i t. map_get (st_tasks st) i = Some t \<longrightarrow>
          (live_poll st t \<longrightarrow> i \<in> p) \<and> (\<forall>g. tk_phase t = Waiting g \<longrightarrow> g < st_channels st))
     \<and> (\<forall>g c. st_channel st = Some (g, c) \<longrightarrow> g < st_channels st)"

definition one_poll :: "stream_state \<Rightarrow> bool" where
  "one_poll st \<longleftrightarrow> (\<exists>i. polls_in st (if st_timer st = Some Timer_Idle then {i} else {}))"

lemma live_poll_other [simp]:
  "live_poll (st\<lparr>st_tasks := ts\<rparr>) = live_poll st"
  "live_poll (st\<lparr>st_timer := tm\<rparr>) = live_poll st"
  "live_poll (st\<lparr>st_taskCount := n\<rparr>) = live_poll st"
  "live_poll (st\<lparr>st_attempt := n\<rparr>) = live_poll st"
  "live_poll (st\<lparr>st_events := evs\<rparr>) = live_poll st"
  by (simp_all add: fun_eq_iff live_poll_def split: task_phase.split)

lemma polls_in_mono: "polls_in st p \<Longrightarrow> p \<subseteq> q \<Longrightarrow> polls_in st q"
  by (auto simp: polls_in_def)

lemma polls_in_emit [simp]: "polls_in (stream_emit evs st) p = polls_in st p"
  by (simp add: polls_in_def stream_emit_def)

lemma polls_in_other [simp]:
  "polls_in (st\<lparr>st_timer := tm\<rparr>) p = polls_in st p"
  "polls_in (st\<lparr>st_taskCount := n\<rparr>) p = polls_in st p"
  "polls_in (st\<lparr>st_attempt := n\<rparr>) p = polls_in st p"
  by (simp_all add: polls_in_def)

lemma polls_in_put:
  assumes "polls_in st p" "live_poll st t \<Longrightarrow> i \<in> p" "\<And>g. tk_phase t = Waiting g \<Longrightarrow> g < st_channels st"
  shows "polls_in (put_task i t st) p"
  using assms by (auto simp: polls_in_def put_task_def)

lemma polls_in_drop: "polls_in st p \<Longrightarrow> polls_in (drop_task i st) (p - {i})"
  by (auto simp: polls_in_def drop_task_def)

lemma polls_in_terminate:
  assumes "polls_in st p"
  shows "polls_in (stream_terminate st) {}"
proof -
  have keys: "map (fst \<circ> (\<lambda>(i, t). (i, interrupt_task t))) m = map fst m" for m :: "(nat, task) js_map"
    by (induction m) auto
  have get: "map_get (map (\<lambda>(i, t). (i, interrupt_task t)) m) i = map_option interrupt_task (map_get m i)"
    for m :: "(nat, task) js_map" and i
    by (induction m) auto
  have dead: "\<not> live_poll (stream_terminate st) (interrupt_task t)" for t
    by (auto simp: live_poll_def stream_terminate_def interrupt_task_def split: task_phase.splits)
  have "tk_phase (interrupt_task t) = tk_phase t" for t
    by (simp add: interrupt_task_def split: task_phase.split)
  then show ?thesis
    using assms dead unfolding polls_in_def by (auto simp: stream_terminate_def keys get simp del: map_of_eq_Some_iff)
qed

lemma polls_in_start_attempt:
  assumes "polls_in st p" "tk_kind t = Task_Poll \<Longrightarrow> \<not> tk_returned t \<Longrightarrow> \<not> tk_interrupted t \<Longrightarrow> i \<in> p"
  shows "polls_in (start_attempt so i t st) p"
  using assms by (auto simp: start_attempt_def live_poll_def intro!: polls_in_put split: option.splits)

lemma polls_in_post_task:
  assumes "polls_in st p" "tk_kind t = Task_Poll \<Longrightarrow> \<not> tk_returned t \<Longrightarrow> \<not> tk_interrupted t \<Longrightarrow> i \<in> p"
  shows "polls_in (post_task so c i t st) p"
  unfolding post_task_def using assms by (intro polls_in_start_attempt) simp_all

lemma polls_in_new_channel:
  assumes "polls_in st p"
  shows "polls_in (st\<lparr>st_channel := Some (st_channels st, c), st_channels := st_channels st + 1\<rparr>) p"
proof -
  let ?st = "st\<lparr>st_channel := Some (st_channels st, c), st_channels := st_channels st + 1\<rparr>"
  have live: "live_poll st t" if "live_poll ?st t" "\<forall>g. tk_phase t = Waiting g \<longrightarrow> g < st_channels st" for t
    using that by (auto simp: live_poll_def split: task_phase.splits)
  have "i \<in> p \<and> (\<forall>g. tk_phase t = Waiting g \<longrightarrow> g < st_channels ?st) \<or>
        \<not> live_poll ?st t \<and> (\<forall>g. tk_phase t = Waiting g \<longrightarrow> g < st_channels ?st)"
    if "map_get (st_tasks st) i = Some t" for i t
  proof -
    have t: "live_poll st t \<longrightarrow> i \<in> p" "\<forall>g. tk_phase t = Waiting g \<longrightarrow> g < st_channels st"
      using assms that unfolding polls_in_def by blast+
    then show ?thesis
      using live [of t] by (auto intro: less_SucI)
  qed
  then show ?thesis
    using assms unfolding polls_in_def by (simp del: map_of_eq_Some_iff) blast
qed

lemma polls_in_send:
  assumes "polls_in st p" "kind = Task_Poll \<Longrightarrow> st_taskCount st \<in> p"
  shows "polls_in (stream_send so kind fn st) p"
proof (cases "st_channel st")
  case None
  have "polls_in (st\<lparr>st_taskCount := st_taskCount st + 1, st_channel := Some (st_channels st, None),
                     st_channels := st_channels st + 1\<rparr>) p"
    using polls_in_new_channel [of "st\<lparr>st_taskCount := st_taskCount st + 1\<rparr>" p None] assms(1) by simp
  then show ?thesis
    using None assms(2) by (auto simp: stream_send_def Let_def new_task_def intro!: polls_in_post_task)
next
  case (Some gc)
  obtain g c where gc: "gc = (g, c)"
    by (cases gc)
  have g: "g < st_channels st"
    using assms(1) Some gc by (auto simp: polls_in_def)
  show ?thesis
  proof (cases c)
    case None
    then show ?thesis
      using Some gc g assms
      by (auto simp: stream_send_def Let_def new_task_def live_poll_def intro!: polls_in_put)
  next
    case (Some c')
    then show ?thesis
      using \<open>st_channel st = Some gc\<close> gc assms
      by (auto simp: stream_send_def Let_def new_task_def intro!: polls_in_post_task)
  qed
qed

lemma polls_in_fold_post:
  assumes "polls_in st p"
    "\<forall>(i, t) \<in> set xs. tk_phase t = Waiting g \<longrightarrow> tk_kind t = Task_Poll \<longrightarrow> \<not> tk_returned t \<longrightarrow> i \<in> p"
  shows "polls_in (fold (\<lambda>(i, t) st'. if tk_phase t = Waiting g then post_task so c i t st' else st') xs st) p"
  using assms
proof (induction xs arbitrary: st)
  case (Cons it xs)
  then show ?case
    by (cases it) (auto intro!: Cons.IH polls_in_post_task)
qed simp

lemma polls_in_resolve:
  assumes "polls_in st p"
  shows "polls_in (stream_resolveChannel so c st) p"
proof (cases "\<exists>g. st_channel st = Some (g, None)")
  case True
  then obtain g where g: "st_channel st = Some (g, None)" ..
  have "polls_in (st\<lparr>st_channel := Some (g, Some c)\<rparr>) p"
    using assms g by (auto simp: polls_in_def live_poll_def split: task_phase.splits)
  moreover have "i \<in> p" if "(i, t) \<in> set (st_tasks st)" "tk_phase t = Waiting g" "tk_kind t = Task_Poll" "\<not> tk_returned t"
    for i t
    using assms g that by (auto simp: polls_in_def live_poll_def wf_map_get_iff)
  ultimately show ?thesis
    unfolding stream_resolveChannel_def using g by (auto intro!: polls_in_fold_post)
next
  case False
  then show ?thesis
    using assms by (auto simp: stream_resolveChannel_def split: option.splits)
qed

lemma one_pollI: "polls_in st {} \<Longrightarrow> one_poll st"
  by (auto simp: one_poll_def intro: polls_in_mono)

lemma one_poll_idle: "st_timer st = Some Timer_Idle \<Longrightarrow> polls_in st {i} \<Longrightarrow> one_poll st"
  by (auto simp: one_poll_def)

lemma one_pollE:
  assumes "one_poll st"
  obtains i where "polls_in st (if st_timer st = Some Timer_Idle then {i} else {})"
  using assms by (auto simp: one_poll_def)

lemma one_poll_terminate: "one_poll st \<Longrightarrow> one_poll (stream_terminate st)"
  by (elim one_pollE) (rule one_pollI, rule polls_in_terminate)

lemma timer_of_ops [simp]:
  "st_timer (put_task i t st) = st_timer st"
  "st_timer (drop_task i st) = st_timer st"
  "st_timer (stream_emit evs st) = st_timer st"
  "st_timer (start_attempt so i t st) = st_timer st"
  "st_timer (post_task so c i t st) = st_timer st"
  by (simp_all add: stream_state_ops start_attempt_def post_task_def)

lemma timer_of_fold_post [simp]:
  "st_timer (fold (\<lambda>(i, t) st'. if tk_phase t = Waiting g then post_task so c i t st' else st') xs st) = st_timer st"
  by (induction xs arbitrary: st) auto

lemma timer_of_send [simp]:
  "st_timer (stream_send so kind fn st) = st_timer st"
  "st_timer (stream_resolveChannel so ch st) = st_timer st"
  by (auto simp: stream_send_def stream_resolveChannel_def Let_def split: option.splits)

lemma one_poll_send:
  assumes "one_poll st" "kind \<noteq> Task_Poll"
  shows "one_poll (stream_send so kind fn st)"
proof -
  obtain i where "polls_in st (if st_timer st = Some Timer_Idle then {i} else {})"
    using assms(1) by (rule one_pollE)
  then have "polls_in (stream_send so kind fn st) (if st_timer st = Some Timer_Idle then {i} else {})"
    using assms(2) by (auto intro: polls_in_send)
  then show ?thesis
    unfolding one_poll_def timer_of_send by blast
qed

lemma one_poll_stop: "one_poll st \<Longrightarrow> one_poll (stream_stop so st)"
  by (simp add: stream_stop_def one_poll_send)

lemma one_poll_fire:
  assumes "one_poll st" "st_timer st = Some Timer_Armed"
  shows "one_poll (stream_fire so st)"
proof -
  have "polls_in st {}"
    using assms by (auto elim!: one_pollE)
  then have "polls_in (st\<lparr>st_timer := Some Timer_Idle\<rparr>) {st_taskCount st}"
    by (auto intro: polls_in_mono)
  then show ?thesis
    unfolding stream_fire_def Let_def by (intro one_poll_idle [where i = "st_taskCount st"] polls_in_send) simp_all
qed

text \<open>The return of a \<open>send\<close>: a poll only sets the timer again when it is the one that was out.\<close>

lemma one_poll_returned:
  assumes "polls_in st p" "kind = Task_Poll \<Longrightarrow> p = {}" "p \<subseteq> (if st_timer st = Some Timer_Idle then {i} else {})"
  shows "one_poll (stream_returned so kind control resp st)"
proof -
  have st: "one_poll st"
    unfolding one_poll_def using assms(1,3) by (intro exI [of _ i]) (rule polls_in_mono)
  show ?thesis
  proof (cases kind)
    case Task_Poll
    then have "polls_in st {}"
      using assms by simp
    then have arm: "one_poll (st\<lparr>st_timer := Some Timer_Armed\<rparr>)"
      by (intro one_pollI) simp
    show ?thesis
      using Task_Poll st arm one_poll_terminate one_poll_stop
      by (auto simp: stream_returned_def split: poll_control.split option.split)
  qed (use st in \<open>auto simp: stream_returned_def intro: one_poll_terminate\<close>)
qed

lemma one_poll_settle:
  assumes "polls_in st p" "tk_kind t = Task_Poll \<Longrightarrow> p = {}" "p \<subseteq> (if st_timer st = Some Timer_Idle then {i} else {})"
  shows "one_poll (stream_settle so t ans st)"
proof -
  obtain control resp evs where ans: "stream_answer (tk_msg t) ans = (control, resp, evs)"
    by (cases "stream_answer (tk_msg t) ans") auto
  define st1 where
    "st1 = (case ans of
              Answer_Message resp \<Rightarrow> if tk_created t then stream_resolveChannel so (message_channelId resp) st else st
            | _ \<Rightarrow> st)"
  have "polls_in (stream_emit evs st1) p" "st_timer st1 = st_timer st"
    using assms(1) by (auto simp: st1_def intro: polls_in_resolve split: answer.splits)
  then have "one_poll (stream_returned so (tk_kind t) control resp (stream_emit evs st1))"
    using assms(2,3) by (intro one_poll_returned) simp_all
  then show ?thesis
    by (simp add: stream_settle_def Let_def ans st1_def)
qed

lemma one_poll_put:
  assumes "one_poll st" "map_get (st_tasks st) i = Some t" "tk_kind u = tk_kind t"
    "tk_returned u = tk_returned t" "tk_interrupted u = tk_interrupted t"
    "\<And>g. tk_phase t \<noteq> Waiting g" "\<And>g. tk_phase u \<noteq> Waiting g"
  shows "one_poll (put_task i u st)"
proof -
  obtain j where j: "polls_in st (if st_timer st = Some Timer_Idle then {j} else {})"
    using assms(1) by (rule one_pollE)
  have "live_poll st u = live_poll st t"
    using assms(3-) by (simp add: live_poll_def split: task_phase.split)
  then have "polls_in (put_task i u st) (if st_timer st = Some Timer_Idle then {j} else {})"
    using j assms(2,7) by (intro polls_in_put) (auto simp: polls_in_def)
  then show ?thesis
    unfolding one_poll_def by auto
qed

lemma one_poll_other [simp]:
  "one_poll (stream_emit evs st) = one_poll st"
  "one_poll (st\<lparr>st_attempt := n\<rparr>) = one_poll st"
  by (simp_all add: one_poll_def)

lemma tasks_of_emit [simp]: "st_tasks (stream_emit evs st) = st_tasks st"
  by (simp add: stream_emit_def)

lemma one_poll_drop: "one_poll st \<Longrightarrow> one_poll (drop_task i st)"
  unfolding one_poll_def timer_of_ops using polls_in_drop polls_in_mono Diff_subset by metis

lemma one_poll_end_loop:
  assumes "one_poll st" "map_get (st_tasks st) i = Some t" "tk_phase t = InFlight"
  shows "one_poll (end_loop i t st)"
  using assms by (auto simp: end_loop_def intro: one_poll_drop one_poll_put)

lemma one_poll_settle_task:
  assumes "one_poll st" "map_get (st_tasks st) i = Some t" "live_poll st t \<or> tk_kind t \<noteq> Task_Poll"
  shows "one_poll (stream_settle so t ans (drop_task i (stream_emit evs st)))"
proof -
  obtain j where j: "polls_in st (if st_timer st = Some Timer_Idle then {j} else {})"
    using assms(1) by (rule one_pollE)
  let ?p = "(if st_timer st = Some Timer_Idle then {j} else {}) - {i}"
  have "polls_in (drop_task i (stream_emit evs st)) ?p"
    using j by (intro polls_in_drop) simp
  moreover have "?p = {}" if "tk_kind t = Task_Poll"
    using j that assms(2,3) by (auto simp: polls_in_def split: if_splits)
  ultimately show ?thesis
    by (intro one_poll_settle [where p = ?p and i = j]) auto
qed

lemma one_poll_respond:
  assumes "one_poll st" "map_get (st_tasks st) i = Some t" "tk_phase t = InFlight"
  shows "one_poll (stream_respond so i resp t st)"
proof (cases "awaited t")
  case True
  then have "live_poll st t \<or> tk_kind t \<noteq> Task_Poll"
    using assms(3) by (simp add: awaited_def live_poll_def)
  then show ?thesis
    using assms True by (simp add: stream_respond_def Let_def one_poll_settle_task)
next
  case False
  then show ?thesis
    using assms by (simp add: stream_respond_def Let_def one_poll_end_loop)
qed

lemma one_poll_malformed:
  assumes "one_poll st"
  shows "one_poll (stream_malformed so i t st)"
proof -
  define st1 where "st1 = stream_terminate (stream_emit (reconnected st @ [Ev_UnknownError]) (drop_task i st))"
  have "one_poll st1"
    unfolding st1_def by (rule one_poll_terminate) (simp add: one_poll_drop assms)
  moreover have "st_timer st1 = None"
    by (simp add: st1_def stream_terminate_def)
  ultimately have "one_poll (stream_returned so (tk_kind t) PollControl_Continue None st1)"
    by (auto simp: stream_returned_def one_poll_terminate split: task_kind.split)
  then show ?thesis
    by (simp add: stream_malformed_def stream_catch_def Let_def st1_def)
qed

lemma one_poll_fail:
  assumes "one_poll st" "map_get (st_tasks st) i = Some t" "tk_phase t = InFlight"
  shows "one_poll (stream_fail so i err t st)"
proof -
  have "one_poll (put_task i (t\<lparr>tk_phase := Delayed\<rparr>) (stream_emit evs st))" for evs
    using assms by (intro one_poll_put [of _ i t]) simp_all
  moreover have "one_poll (end_loop i t (stream_emit evs st))" for evs
    using assms by (intro one_poll_end_loop) simp_all
  ultimately show ?thesis
    by (simp add: stream_fail_def Let_def)
qed

lemma one_poll_start_attempt:
  assumes "one_poll st" "map_get (st_tasks st) i = Some t" "tk_phase t = Delayed"
  shows "one_poll (start_attempt so i t st)"
  using assms by (auto simp: start_attempt_def intro!: one_poll_put split: option.split)

lemma one_poll_retry:
  assumes "one_poll st" "map_get (st_tasks st) i = Some t" "tk_phase t = Delayed"
  shows "one_poll (stream_retry so i t st)"
  using one_poll_start_attempt [of "st\<lparr>st_attempt := st_attempt st + 1\<rparr>" i t so] assms
  by (simp add: stream_retry_def Let_def one_poll_drop)

lemma one_poll_interrupted:
  assumes "one_poll st" "map_get (st_tasks st) i = Some t"
  shows "one_poll (stream_interrupted so i t st)"
proof -
  obtain j where j: "polls_in st (if st_timer st = Some Timer_Idle then {j} else {})"
    using assms(1) by (rule one_pollE)
  define st1 where
    "st1 = (if tk_phase t = InFlight \<or> tk_phase t = Delayed then put_task i (t\<lparr>tk_returned := True\<rparr>) st
            else drop_task i st)"
  have "polls_in (put_task i (t\<lparr>tk_returned := True\<rparr>) st) (if st_timer st = Some Timer_Idle then {j} else {})"
    if "tk_phase t = InFlight \<or> tk_phase t = Delayed"
    using j that by (intro polls_in_put) (auto simp: live_poll_def)
  then have "one_poll st1"
    using assms(1) unfolding st1_def one_poll_def [of "put_task i (t\<lparr>tk_returned := True\<rparr>) st"]
    by (auto simp: one_poll_drop one_poll_def [of "put_task i (t\<lparr>tk_returned := True\<rparr>) st"])
  then show ?thesis
    by (auto simp: stream_interrupted_def stream_settle_def stream_answer_def stream_returned_def
        st1_def [symmetric] one_poll_terminate split: task_kind.split)
qed

lemma one_poll_step: "one_poll st \<Longrightarrow> stream_step so lab st = Some st' \<Longrightarrow> one_poll st'"
proof (cases lab)
  case L_Run
  assume "one_poll st" "stream_step so lab st = Some st'"
  then show ?thesis
    using L_Run by (auto simp: stream_step_def stream_run_def elim!: one_pollE split: option.splits
        intro: one_pollI)
qed (auto simp: stream_step_def one_poll_stop one_poll_terminate one_poll_send one_poll_fire one_poll_respond
    one_poll_malformed one_poll_fail one_poll_retry one_poll_interrupted split: if_splits elim!: task_in_SomeE)

interpretation single_poll: stream_invariant so "\<lambda>_. True" one_poll for so
  by unfold_locales (rule one_poll_step)

lemma one_poll_new: "one_poll stream_new"
  by (rule one_pollI) (simp add: polls_in_def stream_new_def)

text \<open>C13: In every run of a stream there is at most one live poll, that is, a poll request which was
  not interrupted, still waits for its answer and could set the timer again; and while it is out the
  timer is not armed, so the next poll starts only after its answer.  This holds for any order of
  answers, failures, retries, and calls of \<open>run\<close>, \<open>stop\<close>, \<open>terminate\<close> and \<open>send\<close>.\<close>

theorem polls_never_overlap:
  assumes "stream_steps so labs stream_new = Some st"
    and "map_get (st_tasks st) i = Some t" "live_poll st t"
  shows "st_timer st = Some Timer_Idle
    \<and> (\<forall>j u. map_get (st_tasks st) j = Some u \<longrightarrow> live_poll st u \<longrightarrow> j = i)"
proof -
  have "one_poll st"
    using single_poll.run [of stream_new labs so st] one_poll_new assms(1) by (simp add: list_all_iff)
  then obtain k where "polls_in st (if st_timer st = Some Timer_Idle then {k} else {})"
    by (rule one_pollE)
  then have in_k: "j \<in> (if st_timer st = Some Timer_Idle then {k} else {})"
    if "map_get (st_tasks st) j = Some u" "live_poll st u" for j u
    using that unfolding polls_in_def by blast
  show ?thesis
    using in_k [OF assms(2,3)] in_k by (simp split: if_splits)
qed

definition demo_stream :: stream_opts where
  "demo_stream =
     \<lparr>so_route = ''service-map-stream'', so_reconnects = True, so_maxAttempts = Some 3, so_oneshot = False,
      so_builder = (\<lambda>m _. m), so_trace = (\<lambda>_. ''trace'')\<rparr>"

definition demo_answer :: pb_message where
  "demo_answer =
     \<lparr>pb_meta = Some (empty_meta\<lparr>pm_channelId := ''ch'', pm_pollDelayMs := 500\<rparr>), pb_body = Some [1, 2]\<rparr>"

definition demo_polling :: stream_state where
  "demo_polling =
     the (stream_steps demo_stream [L_Run, L_Fire, L_Respond 0 demo_answer, L_Send id, L_Fire] stream_new)"

theorem polls_never_overlap_witness:
  "st_timer demo_polling = Some Timer_Idle"
proof -
  have "map_option (\<lambda>st. (map_option (live_poll st) (map_get (st_tasks st) 2)))
      (stream_steps demo_stream [L_Run, L_Fire, L_Respond 0 demo_answer, L_Send id, L_Fire] stream_new) = Some (Some True)"
    by code_simp
  then obtain st t where st: "stream_steps demo_stream [L_Run, L_Fire, L_Respond 0 demo_answer, L_Send id, L_Fire] stream_new = Some st"
    and t: "map_get (st_tasks st) 2 = Some t" "live_poll st t"
    by auto
  then have "st = demo_polling"
    by (simp add: demo_polling_def)
  then show ?thesis
    using polls_never_overlap [OF st t] by simp
qed

subsection \<open>A first request that fails for good\<close>

definition hung :: "stream_event list \<Rightarrow> stream_state \<Rightarrow> bool" where
  "hung evs st \<longleftrightarrow>
     st_timer st = Some Timer_Idle \<and> (\<exists>g. st_channel st = Some (g, None)) \<and> st_events st = evs
     \<and> (\<forall>(i, t) \<in> set (st_tasks st).
          \<not> tk_interrupted t \<and> \<not> tk_returned t \<and> (tk_phase t = Rejected \<or> (\<exists>g. tk_phase t = Waiting g)))"

lemma set_map_set_subset: "set (map_set i t m) \<subseteq> insert (i, t) (set m)"
  by (induction m) auto

lemma hung_task:
  assumes "hung evs st" "map_get (st_tasks st) i = Some t"
  shows "\<not> tk_interrupted t" "\<not> tk_returned t" "tk_phase t = Rejected \<or> (\<exists>g. tk_phase t = Waiting g)"
  using assms map_of_SomeD [OF assms(2)] by (auto simp: hung_def)

lemma hung_put:
  assumes "hung evs st" "\<not> tk_interrupted t" "\<not> tk_returned t" "tk_phase t = Rejected \<or> (\<exists>g. tk_phase t = Waiting g)"
  shows "hung evs (put_task i t st)"
  using assms set_map_set_subset [of i t "st_tasks st"] by (fastforce simp: hung_def put_task_def)

lemma hung_send:
  assumes "hung evs st"
  shows "hung evs (stream_send so kind fn st)"
proof -
  have "hung evs (st\<lparr>st_taskCount := st_taskCount st + 1\<rparr>)"
    using assms by (simp add: hung_def)
  then show ?thesis
    using assms
    by (auto simp: stream_send_def Let_def new_task_def hung_def [of evs st] intro!: hung_put split: option.splits)
qed

lemma hung_step:
  assumes "hung evs st" "lab \<noteq> L_Terminate" "stream_step so lab st = Some st'"
  shows "hung evs st'"
proof -
  have timer: "st_timer st = Some Timer_Idle"
    using assms(1) by (simp add: hung_def)
  have no_task: "task_in p i st = None" if "\<And>t. p t \<Longrightarrow> tk_phase t \<in> {InFlight, Delayed, Found_Stopped} \<or> tk_interrupted t" for p i
  proof (cases "map_get (st_tasks st) i")
    case (Some t)
    then have "\<not> p t"
      using that [of t] hung_task [OF assms(1) Some] by auto
    then show ?thesis
      using Some by (simp add: task_in_def)
  qed (simp add: task_in_def)
  show ?thesis
  proof (cases lab)
    case L_Run
    then show ?thesis
      using assms timer by (simp add: stream_step_def stream_run_def)
  next
    case L_Stop
    then show ?thesis
      using assms timer by (auto simp: stream_step_def stream_stop_def hung_send)
  next
    case (L_Send fn)
    then show ?thesis
      using assms by (auto simp: stream_step_def hung_send)
  next
    case (L_Malformed i)
    then show ?thesis
      using assms(3) hung_task [OF assms(1)] by (force simp: stream_step_def elim!: task_in_SomeE)
  next
    case (L_Interrupted i)
    then show ?thesis
      using assms(3) hung_task [OF assms(1)] by (force simp: stream_step_def elim!: task_in_SomeE)
  qed (use assms timer in \<open>auto simp: stream_step_def no_task\<close>)
qed

interpretation hung_stream: stream_invariant so "\<lambda>lab. lab \<noteq> L_Terminate" "hung evs" for so evs
  by unfold_locales (rule hung_step)

lemma first_failure:
  assumes "stream_steps so [L_Run, L_Fire, L_Fail 0 err] stream_new = Some st" "\<not> can_retry so stream_new err"
  shows "hung [Ev_ConnectAttemptFailed 1 err] st"
  using assms
  by (auto simp: stream_step_def stream_run_def stream_fire_def stream_send_def stream_new_def post_task_def
      start_attempt_def stream_isStopped_def new_task_def put_task_def task_in_def stream_fail_def can_retry_def
      end_loop_def stream_emit_def hung_def Let_def split: option.splits if_splits)

text \<open>C14: When the first request of a stream fails and cannot be retried, the stream hangs: whatever
  answers arrive and whatever is sent, until \<open>terminate\<close> is called it is never stopped, no timer is
  armed and no further event is emitted.  In particular calls of \<open>stop\<close> never finish and no error is
  reported, because \<open>Promise.any\<close> waits for the interruption as well.\<close>

theorem failed_first_request_hangs:
  assumes "stream_steps so ([L_Run, L_Fire, L_Fail 0 err] @ labs) stream_new = Some st"
    and "\<not> can_retry so stream_new err" "L_Terminate \<notin> set labs"
  shows "\<not> stream_isStopped st \<and> st_timer st = Some Timer_Idle \<and> st_events st = [Ev_ConnectAttemptFailed 1 err]"
proof -
  obtain st0 where st0: "stream_steps so [L_Run, L_Fire, L_Fail 0 err] stream_new = Some st0"
    "stream_steps so labs st0 = Some st"
    using assms(1) by (auto simp: bind_eq_Some_conv)
  have "hung [Ev_ConnectAttemptFailed 1 err] st"
    using hung_stream.run [OF first_failure [OF st0(1) assms(2)] _ st0(2)] assms(3)
    by (auto simp: list_all_iff)
  then show ?thesis
    by (auto simp: hung_def stream_isStopped_def)
qed

theorem failed_first_request_hangs_witness:
  "\<exists>st. stream_steps demo_stream
          ([L_Run, L_Fire, L_Fail 0 (Err_HTTPResult (Some 403))] @ [L_Send id, L_Stop, L_Run, L_Stop]) stream_new = Some st
     \<and> \<not> stream_isStopped st \<and> st_events st = [Ev_ConnectAttemptFailed 1 (Err_HTTPResult (Some 403))]"
proof -
  let ?labs = "[L_Run, L_Fire, L_Fail 0 (Err_HTTPResult (Some 403))] @ [L_Send id, L_Stop, L_Run, L_Stop]"
  have "map_option (\<lambda>st. True) (stream_steps demo_stream ?labs stream_new) = Some True"
    by code_simp
  then obtain st where st: "stream_steps demo_stream ?labs stream_new = Some st"
    by auto
  have "\<not> can_retry demo_stream stream_new (Err_HTTPResult (Some 403))"
    by code_simp
  then show ?thesis
    using failed_first_request_hangs [OF st] st by simp
qed

subsection \<open>What is reported\<close>

definition unreported :: "stream_event \<Rightarrow> bool" where
  "unreported ev \<longleftrightarrow> ev \<in> {Ev_ConnectionError, Ev_ConnectTimeout, Ev_Stopped, Ev_EmptyResponse}"

lemma unreported_simps [simp]:
  "\<not> unreported (Ev_Message m)" "\<not> unreported (Ev_Terminated b es)" "\<not> unreported (Ev_Errors es)"
  "\<not> unreported (Ev_InvalidMessage m)" "\<not> unreported Ev_UnknownError"
  "\<not> unreported (Ev_ConnectAttemptFailed n err)" "\<not> unreported (Ev_ReconnectAttempt n)" "\<not> unreported (Ev_Reconnected n)"
  by (simp_all add: unreported_def)

definition quiet :: "stream_state \<Rightarrow> bool" where
  "quiet st \<longleftrightarrow> (\<forall>ev \<in> set (st_events st). \<not> unreported ev)"

lemma quiet_state [simp]:
  "quiet (put_task i t st) = quiet st" "quiet (drop_task i st) = quiet st"
  "quiet (stream_emit evs st) \<longleftrightarrow> quiet st \<and> (\<forall>ev \<in> set evs. \<not> unreported ev)"
  "quiet (stream_terminate st) = quiet st"
  "quiet (st\<lparr>st_timer := tm\<rparr>) = quiet st" "quiet (st\<lparr>st_channel := ch\<rparr>) = quiet st"
  "quiet (st\<lparr>st_channels := n\<rparr>) = quiet st" "quiet (st\<lparr>st_taskCount := n\<rparr>) = quiet st"
  "quiet (st\<lparr>st_attempt := n\<rparr>) = quiet st"
  by (auto simp: quiet_def stream_state_ops stream_terminate_def)

lemma quiet_reconnected [simp]: "ev \<in> set (reconnected st) \<Longrightarrow> \<not> unreported ev"
  by (auto simp: reconnected_def unreported_def split: if_splits)

lemma quiet_post [simp]: "quiet st \<Longrightarrow> quiet (post_task so c i t st)"
  by (simp add: post_task_def start_attempt_def split: option.split)

lemma quiet_fold_post [simp]:
  "quiet st \<Longrightarrow> quiet (fold (\<lambda>(i, t) st'. if tk_phase t = Waiting g then post_task so c i t st' else st') xs st)"
  by (induction xs arbitrary: st) (auto split: prod.split)

lemma quiet_resolve [simp]: "quiet st \<Longrightarrow> quiet (stream_resolveChannel so c st)"
  by (auto simp: stream_resolveChannel_def split: option.split)

lemma quiet_send [simp]: "quiet st \<Longrightarrow> quiet (stream_send so kind fn st)"
  by (auto simp: stream_send_def Let_def split: option.split)

lemma quiet_returned [simp]: "quiet st \<Longrightarrow> quiet (stream_returned so kind control resp st)"
  by (auto simp: stream_returned_def stream_stop_def split: task_kind.split poll_control.split option.split)

lemma quiet_answer: "ev \<in> set (snd (snd (stream_answer req ans))) \<Longrightarrow> \<not> unreported ev"
  by (auto simp: stream_answer_def Let_def split: answer.splits if_splits)

lemma quiet_settle [simp]: "quiet st \<Longrightarrow> quiet (stream_settle so t ans st)"
  using quiet_answer [of _ "tk_msg t" ans]
  by (auto simp: stream_settle_def Let_def split: answer.split prod.split)

lemma quiet_end_loop [simp]: "quiet (end_loop i t st) = quiet st"
  by (simp add: end_loop_def)

lemma quiet_start_attempt [simp]: "quiet (start_attempt so i t st) = quiet st"
  by (auto simp: start_attempt_def split: option.split)

lemma quiet_step: "quiet st \<Longrightarrow> stream_step so lab st = Some st' \<Longrightarrow> quiet st'"
  by (cases lab)
    (auto simp: stream_step_def stream_run_def stream_stop_def stream_fire_def stream_respond_def stream_malformed_def
      stream_catch_def stream_fail_def stream_retry_def stream_interrupted_def Let_def split: option.splits if_splits)

interpretation quiet_stream: stream_invariant so "\<lambda>_. True" quiet for so
  by unfold_locales (rule quiet_step)

text \<open>No run of a stream ever reports a connection error or a connection timeout: a request that
  fails leaves \<open>Promise.any\<close> pending, so the branches of \<open>send\<close> for these errors are never reached.
  Nor does it ever report that it stopped or that an answer was empty.\<close>

theorem connection_errors_never_reported:
  assumes "stream_steps so labs stream_new = Some st"
  shows "set (st_events st) \<inter> {Ev_ConnectionError, Ev_ConnectTimeout, Ev_Stopped, Ev_EmptyResponse} = {}"
proof -
  have "quiet stream_new"
    by (simp add: quiet_def stream_new_def)
  then have "quiet st"
    using quiet_stream.run [OF _ _ assms] by (simp add: list_all_iff)
  then show ?thesis
    by (auto simp: quiet_def unreported_def)
qed

theorem connection_errors_never_reported_witness:
  "set (st_events (the (stream_steps demo_stream
      [L_Run, L_Fire, L_Fail 0 Err_TypeError, L_Retry 0, L_Fail 0 (Err_DOMException ''TimeoutError'')] stream_new)))
    \<inter> {Ev_ConnectionError, Ev_ConnectTimeout, Ev_Stopped, Ev_EmptyResponse} = {}"
proof -
  let ?labs = "[L_Run, L_Fire, L_Fail 0 Err_TypeError, L_Retry 0, L_Fail 0 (Err_DOMException ''TimeoutError'')]"
  have "map_option (\<lambda>st. True) (stream_steps demo_stream ?labs stream_new) = Some True"
    by code_simp
  then obtain st where st: "stream_steps demo_stream ?labs stream_new = Some st"
    by auto
  show ?thesis
    unfolding st option.sel by (rule connection_errors_never_reported [OF st])
qed

subsection \<open>Messages\<close>

text \<open>The messages a stream has emitted, and the answers of a run that have a payload and are awaited.\<close>

definition messages_in :: "stream_event list \<Rightarrow> pb_message list" where
  "messages_in evs = List.map_filter (\<lambda>ev. case ev of Ev_Message m \<Rightarrow> Some m | _ \<Rightarrow> None) evs"

abbreviation messages_of :: "stream_state \<Rightarrow> pb_message list" where
  "messages_of st \<equiv> messages_in (st_events st)"

definition awaited_payload :: "stream_label \<Rightarrow> stream_state \<Rightarrow> pb_message list" where
  "awaited_payload lab st =
     (case lab of
        L_Respond i resp \<Rightarrow>
          (case map_get (st_tasks st) i of
             None \<Rightarrow> []
           | Some t \<Rightarrow> if awaited t \<and> message_hasPayload resp then [resp] else [])
      | _ \<Rightarrow> [])"

fun payloads :: "stream_opts \<Rightarrow> stream_label list \<Rightarrow> stream_state \<Rightarrow> pb_message list" where
  "payloads so [] st = []"
| "payloads so (lab # labs) st =
     awaited_payload lab st @ (case stream_step so lab st of None \<Rightarrow> [] | Some st' \<Rightarrow> payloads so labs st')"

lemma messages_in_append [simp]: "messages_in (xs @ ys) = messages_in xs @ messages_in ys"
  by (simp add: messages_in_def map_filter_def)

lemma messages_in_simps [simp]:
  "messages_in [] = []"
  "messages_in (Ev_Message m # evs) = m # messages_in evs"
  "messages_in (Ev_Terminated b es # evs) = messages_in evs"
  "messages_in (Ev_Errors es # evs) = messages_in evs"
  "messages_in (Ev_InvalidMessage m # evs) = messages_in evs"
  "messages_in (Ev_UnknownError # evs) = messages_in evs"
  "messages_in (Ev_ConnectAttemptFailed n err # evs) = messages_in evs"
  "messages_in (Ev_ReconnectAttempt n # evs) = messages_in evs"
  "messages_in (Ev_Reconnected n # evs) = messages_in evs"
  by (simp_all add: messages_in_def map_filter_def)

lemma messages_of_reconnected [simp]: "messages_in (reconnected st) = []"
  by (simp add: reconnected_def)

lemma messages_of_state [simp]:
  "messages_of (put_task i t st) = messages_of st" "messages_of (drop_task i st) = messages_of st"
  "messages_of (stream_emit evs st) = messages_of st @ messages_in evs"
  "messages_of (stream_terminate st) = messages_of st"
  by (simp_all add: stream_state_ops stream_terminate_def)

lemma messages_of_end_loop [simp]: "messages_of (end_loop i t st) = messages_of st"
  by (simp add: end_loop_def)

lemma messages_of_start_attempt [simp]: "messages_of (start_attempt so i t st) = messages_of st"
  by (auto simp: start_attempt_def split: option.split)

lemma messages_of_post [simp]: "messages_of (post_task so c i t st) = messages_of st"
  by (simp add: post_task_def)

lemma messages_of_fold_post [simp]:
  "messages_of (fold (\<lambda>(i, t) st'. if tk_phase t = Waiting g then post_task so c i t st' else st') xs st) = messages_of st"
  by (induction xs arbitrary: st) (auto split: prod.split)

lemma messages_of_resolve [simp]: "messages_of (stream_resolveChannel so c st) = messages_of st"
  by (auto simp: stream_resolveChannel_def split: option.split)

lemma messages_of_send [simp]: "messages_of (stream_send so kind fn st) = messages_of st"
  by (auto simp: stream_send_def Let_def split: option.split)

lemma messages_of_returned [simp]: "messages_of (stream_returned so kind control resp st) = messages_of st"
  by (auto simp: stream_returned_def stream_stop_def split: task_kind.split poll_control.split option.split)

lemma messages_of_answer:
  "messages_in (snd (snd (stream_answer req ans))) =
     (case ans of Answer_Message resp \<Rightarrow> if message_hasPayload resp then [resp] else [] | _ \<Rightarrow> [])"
  by (simp add: stream_answer_def Let_def split: answer.split)

lemma messages_of_settle [simp]:
  "messages_of (stream_settle so t ans st) =
     messages_of st @ (case ans of Answer_Message resp \<Rightarrow> if message_hasPayload resp then [resp] else [] | _ \<Rightarrow> [])"
  using messages_of_answer [of "tk_msg t" ans]
  by (auto simp: stream_settle_def Let_def split: answer.split prod.split)

lemma messages_of_step:
  assumes "stream_step so lab st = Some st'"
  shows "messages_of st' = messages_of st @ awaited_payload lab st"
proof (cases lab)
  case (L_Respond i resp)
  then show ?thesis
    using assms by (auto simp: stream_step_def stream_respond_def awaited_payload_def Let_def elim!: task_in_SomeE)
qed (use assms in \<open>auto simp: stream_step_def awaited_payload_def stream_run_def stream_stop_def stream_fire_def stream_malformed_def
      stream_catch_def stream_fail_def stream_retry_def stream_interrupted_def Let_def split: option.splits if_splits\<close>)

text \<open>C15: The messages a stream emits are exactly the answers with a payload that come to requests still
  awaited, each once and in the order they arrive; answers to interrupted requests are never emitted.\<close>

theorem stream_delivers_answers:
  assumes "stream_steps so labs st = Some st'"
  shows "messages_of st' = messages_of st @ payloads so labs st"
  using assms
proof (induction labs arbitrary: st)
  case (Cons lab labs)
  then obtain st1 where st1: "stream_step so lab st = Some st1" "stream_steps so labs st1 = Some st'"
    by (auto simp: bind_eq_Some_conv)
  show ?case
    using Cons.IH [OF st1(2)] messages_of_step [OF st1(1)] st1(1) by simp
qed simp

theorem stream_delivers_answers_witness:
  "messages_of (the (stream_steps demo_stream
      [L_Run, L_Fire, L_Respond 0 demo_answer, L_Fire, L_Terminate, L_Respond 1 demo_answer] stream_new)) = [demo_answer]"
proof -
  let ?labs = "[L_Run, L_Fire, L_Respond 0 demo_answer, L_Fire, L_Terminate, L_Respond 1 demo_answer]"
  have "map_option (\<lambda>st. True) (stream_steps demo_stream ?labs stream_new) = Some True"
    by code_simp
  then obtain st where st: "stream_steps demo_stream ?labs stream_new = Some st"
    by auto
  have "payloads demo_stream ?labs stream_new = [demo_answer]"
    by code_simp
  then show ?thesis
    using stream_delivers_answers [OF st] st by (simp add: stream_new_def)
qed

subsection \<open>Stopping\<close>

lemma not_None_obtain:
  assumes "x \<noteq> None"
  obtains y where "x = Some y"
  using assms by (cases x) simp_all

definition dead :: "pb_message list \<Rightarrow> stream_state \<Rightarrow> bool" where
  "dead ms st \<longleftrightarrow>
     st_timer st = None \<and> st_channel st = None \<and> messages_of st = ms
     \<and> (\<forall>(i, t) \<in> set (st_tasks st). tk_interrupted t \<or> (\<exists>g. tk_phase t = Waiting g))"

lemma dead_terminate: "dead (messages_of st) (stream_terminate st)"
  by (auto simp: dead_def stream_terminate_def interrupt_task_def split: task_phase.splits)

lemma dead_state [simp]:
  "dead ms (st\<lparr>st_attempt := n\<rparr>) = dead ms st"
  "messages_in evs = [] \<Longrightarrow> dead ms (stream_emit evs st) = dead ms st"
  by (simp_all add: dead_def stream_emit_def)

lemma dead_drop: "dead ms st \<Longrightarrow> dead ms (drop_task i st)"
  by (auto simp: dead_def drop_task_def AList.delete_eq)

lemma dead_put:
  "dead ms st \<Longrightarrow> tk_interrupted t \<or> (\<exists>g. tk_phase t = Waiting g) \<Longrightarrow> dead ms (put_task i t st)"
  using set_map_set_subset [of i t "st_tasks st"] by (fastforce simp: dead_def put_task_def)

lemma dead_task:
  assumes "dead ms st" "map_get (st_tasks st) i = Some t" "\<And>g. tk_phase t \<noteq> Waiting g"
  shows "tk_interrupted t"
proof -
  have "case (i, t) of (i, t) \<Rightarrow> tk_interrupted t \<or> (\<exists>g. tk_phase t = Waiting g)"
    using assms(1) map_of_SomeD [OF assms(2)] unfolding dead_def by blast
  then show ?thesis
    using assms(3) by simp
qed

lemma dead_end_loop:
  "dead ms st \<Longrightarrow> tk_interrupted t \<Longrightarrow> dead ms (end_loop i t st)"
  by (simp add: end_loop_def dead_drop dead_put)

lemma dead_start_attempt:
  "dead ms st \<Longrightarrow> tk_interrupted t \<Longrightarrow> dead ms (start_attempt so i t st)"
  by (auto simp: start_attempt_def dead_put split: option.split)

lemma dead_terminate_again: "dead ms st \<Longrightarrow> dead ms (stream_terminate st)"
  using dead_terminate [of st] by (simp add: dead_def)

definition not_started :: "stream_label \<Rightarrow> bool" where
  "not_started lab \<longleftrightarrow> (case lab of L_Run \<Rightarrow> False | L_Send _ \<Rightarrow> False | _ \<Rightarrow> True)"

lemma dead_interrupted:
  assumes "dead ms st" "map_get (st_tasks st) i = Some t" "tk_interrupted t"
  shows "dead ms (stream_interrupted so i t st)"
proof -
  define st1 where
    "st1 = (if tk_phase t = InFlight \<or> tk_phase t = Delayed then put_task i (t\<lparr>tk_returned := True\<rparr>) st
            else drop_task i st)"
  have "dead ms (stream_emit [Ev_Terminated True []] st1)"
    using assms by (simp add: st1_def dead_put dead_drop)
  then show ?thesis
    by (auto simp: stream_interrupted_def stream_settle_def stream_answer_def stream_returned_def st1_def [symmetric]
        dead_terminate_again simp del: dead_state split: task_kind.split)
qed

lemma dead_step:
  assumes "dead ms st" "not_started lab" "stream_step so lab st = Some st'"
  shows "dead ms st'"
proof -
  have timer: "st_timer st = None"
    using assms(1) by (simp add: dead_def)
  show ?thesis
  proof (cases lab)
    case (L_Respond i resp)
    then obtain t where t: "map_get (st_tasks st) i = Some t" "tk_phase t = InFlight" "st' = stream_respond so i resp t st"
      using assms(3) by (auto simp: stream_step_def elim!: task_in_SomeE)
    then have "tk_interrupted t"
      using dead_task [OF assms(1) t(1)] by simp
    then show ?thesis
      using assms(1) t(3) by (simp add: stream_respond_def awaited_def Let_def dead_end_loop)
  next
    case (L_Malformed i)
    then show ?thesis
      using assms(3) dead_task [OF assms(1)] by (force simp: stream_step_def awaited_def elim!: task_in_SomeE)
  next
    case (L_Fail i err)
    then obtain t where t: "map_get (st_tasks st) i = Some t" "tk_phase t = InFlight" "st' = stream_fail so i err t st"
      using assms(3) by (auto simp: stream_step_def elim!: task_in_SomeE)
    then have "tk_interrupted t"
      using dead_task [OF assms(1) t(1)] by simp
    then show ?thesis
      using assms(1) t(3) by (simp add: stream_fail_def Let_def dead_end_loop dead_put)
  next
    case (L_Retry i)
    then obtain t where t: "map_get (st_tasks st) i = Some t" "tk_phase t = Delayed" "st' = stream_retry so i t st"
      using assms(3) by (auto simp: stream_step_def elim!: task_in_SomeE)
    then have "tk_interrupted t"
      using dead_task [OF assms(1) t(1)] by simp
    then show ?thesis
      using assms(1) t(3) by (simp add: stream_retry_def Let_def dead_start_attempt dead_drop)
  next
    case (L_Interrupted i)
    then obtain t where t: "map_get (st_tasks st) i = Some t" "tk_interrupted t \<or> tk_phase t = Found_Stopped"
      "st' = stream_interrupted so i t st"
      using assms(3) by (auto simp: stream_step_def elim!: task_in_SomeE)
    then have "tk_interrupted t"
      using dead_task [OF assms(1) t(1)] by auto
    then show ?thesis
      using assms(1) t by (simp add: dead_interrupted)
  qed (use assms timer in \<open>auto simp: stream_step_def not_started_def stream_stop_def dead_terminate_again\<close>)
qed

interpretation dead_stream: stream_invariant so not_started "dead ms" for so ms
  by unfold_locales (rule dead_step)

text \<open>A stream that was terminated stays stopped and emits no message, whatever answers to its open
  requests come in, until it is run again or something is sent.\<close>

theorem terminated_stream_is_silent:
  assumes "stream_steps so (L_Terminate # labs) st = Some st'" "list_all not_started labs"
  shows "stream_isStopped st' \<and> messages_of st' = messages_of st"
proof -
  have "stream_steps so labs (stream_terminate st) = Some st'"
    using assms(1) by (simp add: stream_step_def)
  then have "dead (messages_of st) st'"
    using dead_stream.run [OF dead_terminate assms(2)] by blast
  then show ?thesis
    by (simp add: dead_def stream_isStopped_def)
qed

theorem terminated_stream_is_silent_witness:
  "\<exists>st'. stream_steps demo_stream [L_Terminate, L_Respond 2 demo_answer, L_Interrupted 2] demo_polling = Some st'
    \<and> stream_isStopped st' \<and> messages_of st' = messages_of demo_polling"
proof -
  let ?labs = "L_Terminate # [L_Respond 2 demo_answer, L_Interrupted 2]"
  have "stream_steps demo_stream ?labs demo_polling \<noteq> None"
    by code_simp
  then obtain st' where st': "stream_steps demo_stream ?labs demo_polling = Some st'"
    by (rule not_None_obtain)
  show ?thesis
    using terminated_stream_is_silent [OF st'] st' by (simp add: not_started_def)
qed

lemma settle_terminates: "tk_kind t = Task_Terminate \<Longrightarrow> stream_isStopped (stream_settle so t ans st)"
  by (auto simp: stream_settle_def Let_def stream_returned_def stream_isStopped_def stream_terminate_def
      split: prod.split)

lemma start_attempt_runs:
  assumes "st_timer st \<noteq> None" "so_maxAttempts so = None \<or> st_attempt st \<le> the (so_maxAttempts so)"
  shows "start_attempt so i t st = put_task i (t\<lparr>tk_phase := InFlight\<rparr>) st"
  using assms by (auto simp: start_attempt_def stream_isStopped_def split: option.split)

lemma stop_sends:
  assumes "st_timer st \<noteq> None" "st_channel st = Some (g, Some ch)"
    and "so_maxAttempts so = None \<or> st_attempt st \<le> the (so_maxAttempts so)"
  obtains t st1 where "stream_stop so st = put_task (st_taskCount st) t st1"
    "tk_kind t = Task_Terminate" "tk_phase t = InFlight" "awaited t"
proof -
  define t where "t = (new_task Task_Terminate (message_setIsTerminated (Some True)) False)
    \<lparr>tk_msg := message_setIsTerminated (Some True) (message_setChannelId (Some ch)
        (message_setTraceId (Some (so_trace so (st_taskCount st))) (message_newMessage (so_route so) None)))\<rparr>"
  have "stream_stop so st = start_attempt so (st_taskCount st) t (st\<lparr>st_taskCount := st_taskCount st + 1\<rparr>)"
    using assms(1,2) by (simp add: stream_stop_def stream_send_def post_task_def Let_def t_def new_task_def del: not_None_eq)
  also have "\<dots> = put_task (st_taskCount st) (t\<lparr>tk_phase := InFlight\<rparr>) (st\<lparr>st_taskCount := st_taskCount st + 1\<rparr>)"
    using assms by (intro start_attempt_runs) simp_all
  finally show thesis
    by (rule that) (simp_all add: t_def new_task_def awaited_def)
qed

text \<open>C16: Once the channel of a running stream is known and attempts are left, \<open>stop\<close> finishes as soon
  as its request is answered, whatever the answer and the requests still open: the stream is stopped.\<close>

theorem stop_completes:
  assumes "st_timer st \<noteq> None" "st_channel st = Some (g, Some ch)"
    and "so_maxAttempts so = None \<or> st_attempt st \<le> the (so_maxAttempts so)"
  shows "\<exists>st'. stream_steps so [L_Stop, L_Respond (st_taskCount st) resp] st = Some st' \<and> stream_isStopped st'"
proof -
  obtain t st1 where t: "stream_stop so st = put_task (st_taskCount st) t st1" "tk_kind t = Task_Terminate"
    "tk_phase t = InFlight" "awaited t"
    using stop_sends [OF assms] .
  let ?st2 = "put_task (st_taskCount st) t st1"
  have "map_get (st_tasks ?st2) (st_taskCount st) = Some t"
    by (simp add: put_task_def)
  then have "stream_steps so [L_Stop, L_Respond (st_taskCount st) resp] st =
      Some (stream_respond so (st_taskCount st) resp t ?st2)"
    using t by (simp add: stream_step_def task_in_def)
  moreover have "stream_isStopped (stream_respond so (st_taskCount st) resp t ?st2)"
    using t by (simp add: stream_respond_def Let_def settle_terminates)
  ultimately show ?thesis
    by blast
qed

theorem stop_completes_witness:
  "\<exists>st'. stream_steps demo_stream [L_Stop, L_Respond 3 demo_answer] demo_polling = Some st' \<and> stream_isStopped st'"
proof -
  have "st_timer demo_polling \<noteq> None" "st_channel demo_polling = Some (0, Some ''ch'')"
    "so_maxAttempts demo_stream = None \<or> st_attempt demo_polling \<le> the (so_maxAttempts demo_stream)"
    "st_taskCount demo_polling = 3"
    by code_simp+
  then show ?thesis
    using stop_completes [of demo_polling 0 "''ch''" demo_stream demo_answer] by simp
qed

end
