(* ===== verification/Backend_Streams.thy ===== *)
theory Backend_Streams
  imports Flow_Conversions Proto_Factory Frame_Store Stream_Core
begin

text \<open>
  \<open>src/api/customprotocol\<close>: the two streams of the backend.  Each takes the messages of the polling stream
  (theory \<open>Stream_Core\<close>), decodes the body and emits events of its own.  Decoding and encoding are
  parameters.  A service map message carries a list of events; they are collected by kind and emitted in
  a fixed order.  A link object gets a fresh identity when it is read.
\<close>

section \<open>Notifications and namespaces\<close>

record pb_node =
  pbn_name :: string
  pbn_version :: string
  pbn_address :: string
  pbn_state :: int
  pbn_tls :: "bool option"
  pbn_uptimeNs :: int
  pbn_numFlows :: int
  pbn_maxFlows :: int
  pbn_seenFlows :: int

record pb_server_status =
  pbss_numFlows :: int
  pbss_maxFlows :: int
  pbss_seenFlows :: int
  pbss_uptimeNs :: int
  pbss_numConnectedNodes :: "int option"
  pbss_numUnavailableNodes :: "int option"
  pbss_unavailableNodes :: "string list"
  pbss_version :: string

record pb_status_response =
  pbsr_nodes :: "pb_node list option"
  pbsr_serverStatus :: "pb_server_status option"
  pbsr_flowsPerSecond :: "rat option"

record connection_flags =
  cf_relayConnected :: bool
  cf_relayReconnecting :: bool
  cf_k8sUnavailable :: bool
  cf_k8sConnected :: bool

record no_permission =
  np_resource :: string
  np_error :: string

datatype pb_notification =
    PB_ConnState connection_flags
  | PB_DataState bool
  | PB_Status pb_status_response
  | PB_NoPermission no_permission
  | PB_NoNotification

record deployment_status =
  ds_nodes :: "hubble_node list"
  ds_status :: hubble_server_status
  ds_perSecond :: rat

record notification =
  nt_connState :: "connection_flags option"
  nt_dataState :: "bool option"
  nt_status :: "deployment_status option"
  nt_noPermission :: "no_permission option"

definition node_fromPb :: "pb_node \<Rightarrow> hubble_node" where
  "node_fromPb n =
     \<lparr>hn_name = pbn_name n, hn_version = pbn_version n, hn_address = pbn_address n,
      hn_state = pbNodeStateToState (pbn_state n), hn_tls = is_on (pbn_tls n), hn_uptimeNs = pbn_uptimeNs n,
      hn_numFlows = pbn_numFlows n, hn_maxFlows = pbn_maxFlows n, hn_seenFlows = pbn_seenFlows n\<rparr>"

definition serverStatus_fromPb :: "pb_server_status \<Rightarrow> hubble_server_status" where
  "serverStatus_fromPb s =
     \<lparr>st_numFlows = pbss_numFlows s, st_maxFlows = pbss_maxFlows s, st_seenFlows = pbss_seenFlows s,
      st_uptimeNs = pbss_uptimeNs s, st_numConnectedNodes = pbss_numConnectedNodes s,
      st_numUnavailableNodes = pbss_numUnavailableNodes s, st_unavailableNodesList = pbss_unavailableNodes s,
      st_version = pbss_version s\<rparr>"

definition statusFromPb :: "pb_status_response \<Rightarrow> deployment_status option" where
  "statusFromPb status =
     (case pbsr_flowsPerSecond status of
        None \<Rightarrow> None
      | Some perSecond \<Rightarrow>
          map_option (\<lambda>serverStatus.
            \<lparr>ds_nodes = map node_fromPb (or_empty (pbsr_nodes status)), ds_status = serverStatus_fromPb serverStatus,
             ds_perSecond = perSecond\<rparr>) (pbsr_serverStatus status))"

definition notification_empty :: notification where
  "notification_empty = \<lparr>nt_connState = None, nt_dataState = None, nt_status = None, nt_noPermission = None\<rparr>"

definition noPermissionFromPb :: "no_permission \<Rightarrow> no_permission" where
  "noPermissionFromPb n = \<lparr>np_resource = np_resource n, np_error = np_error n\<rparr>"

definition notification_fromPb :: "pb_notification \<Rightarrow> notification option" where
  "notification_fromPb n =
     (case n of
        PB_ConnState c \<Rightarrow> Some (notification_empty\<lparr>nt_connState := Some c\<rparr>)
      | PB_DataState d \<Rightarrow> Some (notification_empty\<lparr>nt_dataState := Some d\<rparr>)
      | PB_Status s \<Rightarrow> Some (notification_empty\<lparr>nt_status := statusFromPb s\<rparr>)
      | PB_NoPermission p \<Rightarrow> Some (notification_empty\<lparr>nt_noPermission := Some (noPermissionFromPb p)\<rparr>)
      | PB_NoNotification \<Rightarrow> None)"

definition notification_isK8sUnavailable :: "notification \<Rightarrow> bool" where
  "notification_isK8sUnavailable n = (case nt_connState n of None \<Rightarrow> False | Some c \<Rightarrow> cf_k8sUnavailable c)"

definition notification_isK8sConnected :: "notification \<Rightarrow> bool" where
  "notification_isK8sConnected n = (case nt_connState n of None \<Rightarrow> False | Some c \<Rightarrow> cf_k8sConnected c)"

definition notification_isRelayReconnecting :: "notification \<Rightarrow> bool" where
  "notification_isRelayReconnecting n = (case nt_connState n of None \<Rightarrow> False | Some c \<Rightarrow> cf_relayReconnecting c)"

definition notification_isRelayConnected :: "notification \<Rightarrow> bool" where
  "notification_isRelayConnected n = (case nt_connState n of None \<Rightarrow> False | Some c \<Rightarrow> cf_relayConnected c)"

definition notification_isNoActivityInNamespace :: "notification \<Rightarrow> bool" where
  "notification_isNoActivityInNamespace n \<longleftrightarrow> nt_dataState n = Some True"

definition notification_isNoPermission :: "notification \<Rightarrow> bool" where
  "notification_isNoPermission n \<longleftrightarrow> nt_noPermission n \<noteq> None"

definition notification_isRelayRelated :: "notification \<Rightarrow> bool" where
  "notification_isRelayRelated n \<longleftrightarrow> notification_isRelayConnected n \<or> notification_isRelayReconnecting n"

definition notification_isClusterRelated :: "notification \<Rightarrow> bool" where
  "notification_isClusterRelated n \<longleftrightarrow>
     notification_isK8sConnected n \<or> notification_isK8sUnavailable n \<or> notification_isNoPermission n"

record pb_namespace =
  pbns_id :: string
  pbns_name :: string

definition namespaces_fromPb :: "pb_namespace option \<Rightarrow> namespace_descriptor option" where
  "namespaces_fromPb pb =
     map_option (\<lambda>p. \<lparr>nd_namespace = pbns_name p, nd_relay = (pbns_id p \<noteq> [])\<rparr>) pb"

section \<open>The service map stream\<close>

record 'a state_message =
  sm_object :: "'a option"
  sm_type :: int

datatype pb_event =
    PE_Flow pb_flow
  | PE_Flows "pb_flow list"
  | PE_Service "pb_service state_message"
  | PE_Link "pb_service_link state_message"
  | PE_Namespace "pb_namespace state_message"
  | PE_Notification pb_notification
  | PE_Nothing

type_synonym namespace_change = "namespace_descriptor \<times> state_change"

datatype service_map_event =
    SM_Flows "flow list"
  | SM_Services "service_change list"
  | SM_ServiceLinks "service_link_change list"
  | SM_Namespaces "namespace_change list"
  | SM_Notifications "notification list"

record collected_events =
  ce_flows :: "pb_flow list"
  ce_svcs :: "pb_service state_message list"
  ce_links :: "pb_service_link state_message list"
  ce_nss :: "pb_namespace state_message list"
  ce_notifs :: "pb_notification list"

definition collect_event :: "pb_event \<Rightarrow> collected_events \<Rightarrow> collected_events" where
  "collect_event evt c =
     (case evt of
        PE_Flow f \<Rightarrow> c\<lparr>ce_flows := ce_flows c @ [f]\<rparr>
      | PE_Flows fs \<Rightarrow> c\<lparr>ce_flows := ce_flows c @ fs\<rparr>
      | PE_Service svc \<Rightarrow> c\<lparr>ce_svcs := ce_svcs c @ [svc]\<rparr>
      | PE_Link link \<Rightarrow> c\<lparr>ce_links := ce_links c @ [link]\<rparr>
      | PE_Namespace ns \<Rightarrow> c\<lparr>ce_nss := ce_nss c @ [ns]\<rparr>
      | PE_Notification n \<Rightarrow> c\<lparr>ce_notifs := ce_notifs c @ [n]\<rparr>
      | PE_Nothing \<Rightarrow> c)"

definition emitNotifications :: "pb_notification list \<Rightarrow> service_map_event" where
  "emitNotifications pbNotifs =
     SM_Notifications (fold (\<lambda>pb acc. case notification_fromPb pb of None \<Rightarrow> acc | Some n \<Rightarrow> acc @ [n]) pbNotifs [])"

definition emitNamespaces :: "pb_namespace state_message list \<Rightarrow> service_map_event" where
  "emitNamespaces pbNamespaces =
     SM_Namespaces (fold (\<lambda>pb acc.
       case namespaces_fromPb (sm_object pb) of
         None \<Rightarrow> acc
       | Some ns \<Rightarrow> if sm_type pb = 0 then acc else acc @ [(ns, stateChangeFromPb (sm_type pb))]) pbNamespaces [])"

definition emitServiceLinks :: "nat \<Rightarrow> pb_service_link state_message list \<Rightarrow> service_map_event" where
  "emitServiceLinks ref pbLinks =
     SM_ServiceLinks (fold (\<lambda>(i, pb) acc.
       case sm_object pb of
         None \<Rightarrow> acc
       | Some link \<Rightarrow>
           if sm_type pb = 0 then acc
           else acc @ [(relayServiceLinkFromPb i link, stateChangeFromPb (sm_type pb))]) (enumerate ref pbLinks) [])"

definition emitServices :: "int \<Rightarrow> pb_service state_message list \<Rightarrow> service_map_event" where
  "emitServices now pbSvcs =
     SM_Services (fold (\<lambda>pb acc.
       case sm_object pb of
         None \<Rightarrow> acc
       | Some svc \<Rightarrow>
           if sm_type pb = 0 then acc
           else acc @ [(relayServiceFromPb now svc, stateChangeFromPb (sm_type pb))]) pbSvcs [])"

definition emitFlows :: "pb_flow list \<Rightarrow> service_map_event" where
  "emitFlows pbFlows = SM_Flows (map (\<lambda>pb. \<lparr>fl_ref = hubbleFlowFromPb pb, fl_id = None\<rparr>) pbFlows)"

definition emitEverything :: "int \<Rightarrow> nat \<Rightarrow> collected_events \<Rightarrow> service_map_event list" where
  "emitEverything now ref c =
     (if ce_flows c \<noteq> [] then [emitFlows (ce_flows c)] else [])
     @ (if ce_svcs c \<noteq> [] then [emitServices now (ce_svcs c)] else [])
     @ (if ce_links c \<noteq> [] then [emitServiceLinks ref (ce_links c)] else [])
     @ (if ce_nss c \<noteq> [] then [emitNamespaces (ce_nss c)] else [])
     @ (if ce_notifs c \<noteq> [] then [emitNotifications (ce_notifs c)] else [])"

text \<open>The handler of messages: \<open>now\<close> is the clock and \<open>ref\<close> the next fresh identity.\<close>

definition serviceMap_onMessage :: "int \<Rightarrow> nat \<Rightarrow> pb_event list \<Rightarrow> service_map_event list" where
  "serviceMap_onMessage now ref events =
     emitEverything now ref
       (fold collect_event events \<lparr>ce_flows = [], ce_svcs = [], ce_links = [], ce_nss = [], ce_notifs = []\<rparr>)"

text \<open>The first request carries the filters; \<open>encode\<close> is the binary form of a request.\<close>

definition serviceMap_messageBuilder ::
  "(get_events_request \<Rightarrow> nat list) \<Rightarrow> filters option \<Rightarrow> event_params option \<Rightarrow> pb_message \<Rightarrow> bool \<Rightarrow> pb_message" where
  "serviceMap_messageBuilder encode fs p msg isFirst =
     (if \<not> isFirst then msg
      else message_setBodyBytes
        (encode (getEventsRequestFromFilters (case fs of None \<Rightarrow> filters_default | Some f \<Rightarrow> f)
           (case p of None \<Rightarrow> eventStream_params | Some q \<Rightarrow> q))) msg)"

section \<open>The control stream\<close>

datatype pb_control_event =
    PC_Namespaces "pb_namespace state_message list"
  | PC_Notification pb_notification
  | PC_Nothing

datatype control_event =
    CE_NamespaceChanges "namespace_change list"
  | CE_Notification notification

definition control_emitNamespaces :: "pb_namespace state_message list \<Rightarrow> control_event list" where
  "control_emitNamespaces nss =
     (let changes = fold (\<lambda>ns acc.
        case namespaces_fromPb (sm_object ns) of
          None \<Rightarrow> acc | Some d \<Rightarrow> acc @ [(d, stateChangeFromPb (sm_type ns))]) nss []
      in if changes = [] then [] else [CE_NamespaceChanges changes])"

definition control_emitNotification :: "pb_notification \<Rightarrow> control_event list" where
  "control_emitNotification notif =
     (case notification_fromPb notif of None \<Rightarrow> [] | Some n \<Rightarrow> [CE_Notification n])"

definition control_onMessage :: "pb_control_event \<Rightarrow> control_event list" where
  "control_onMessage evt =
     (case evt of
        PC_Namespaces nss \<Rightarrow> control_emitNamespaces nss
      | PC_Notification n \<Rightarrow> control_emitNotification n
      | PC_Nothing \<Rightarrow> [])"

end
