(* ===== verification/Data_Controls.thy ===== *)
theory Data_Controls
  imports Backend_Streams
begin

text \<open>
  \<open>src/domain/interactions\<close> (the state of data transfer) and \<open>src/data-layer/controls.ts\<close>: the controls of
  the data layer.  An action changes the store and emits events; the handlers the class sets up for its
  own events turn each of them into a difference of filters.  Operations return the new store and the
  events in order.  What is saved in the browser's storage is left out.  The argument of
  \<open>setCurrentNamespace\<close> is a name or null; the control stream is the one of theory \<open>Backend_Streams\<close>.
\<close>

section \<open>The state of data transfer\<close>

datatype stream_kind = StreamKind_Event | StreamKind_Control

datatype data_mode = DataMode_CiliumStreaming | DataMode_Disabled

datatype connection_state = ConnectionState_Receiving | ConnectionState_Reconnecting
  | ConnectionState_Stopped | ConnectionState_Idle

record reconnect_state =
  rs_stream :: stream_kind
  rs_attempt :: nat
  rs_lastError :: "request_error option"
  rs_delay :: "rat option"

record transfer_state =
  ts_dataMode :: data_mode
  ts_connectionState :: connection_state
  ts_deploymentStatus :: "deployment_status option"
  ts_reconnectStates :: "(stream_kind, reconnect_state) js_map"

definition transfer_new :: transfer_state where
  "transfer_new =
     \<lparr>ts_dataMode = DataMode_Disabled, ts_connectionState = ConnectionState_Idle, ts_deploymentStatus = None,
      ts_reconnectStates = []\<rparr>"

text \<open>\<open>cb\<close> turns the state with its defaults into the new one, given the old one; the result is the state
  that was there before, if any.\<close>

definition transfer_updateReconnectState ::
  "stream_kind \<Rightarrow> (reconnect_state option \<Rightarrow> reconnect_state \<Rightarrow> reconnect_state) \<Rightarrow> transfer_state \<Rightarrow>
   transfer_state \<times> reconnect_state" where
  "transfer_updateReconnectState s cb ts =
     (let existing = map_get (ts_reconnectStates ts) s;
          updated = cb existing \<lparr>rs_stream = s, rs_attempt = 1, rs_lastError = None, rs_delay = None\<rparr>
      in (ts\<lparr>ts_reconnectStates := map_set s updated (ts_reconnectStates ts)\<rparr>,
          case existing of None \<Rightarrow> updated | Some e \<Rightarrow> e))"

definition transfer_dropReconnectState :: "stream_kind \<Rightarrow> transfer_state \<Rightarrow> transfer_state \<times> reconnect_state option" where
  "transfer_dropReconnectState s ts =
     (ts\<lparr>ts_reconnectStates := map_delete s (ts_reconnectStates ts)\<rparr>, map_get (ts_reconnectStates ts) s)"

definition transfer_setDataMode :: "data_mode \<Rightarrow> transfer_state \<Rightarrow> transfer_state \<times> bool" where
  "transfer_setDataMode mode ts = (ts\<lparr>ts_dataMode := mode\<rparr>, ts_dataMode ts \<noteq> mode)"

definition transfer_peekConnectionState :: "transfer_state \<Rightarrow> reconnect_state option" where
  "transfer_peekConnectionState ts = (case map_values (ts_reconnectStates ts) of [] \<Rightarrow> None | s # _ \<Rightarrow> Some s)"

definition transfer_setConnectionState :: "connection_state \<Rightarrow> transfer_state \<Rightarrow> transfer_state" where
  "transfer_setConnectionState s ts = ts\<lparr>ts_connectionState := s\<rparr>"

definition transfer_disable :: "transfer_state \<Rightarrow> transfer_state" where
  "transfer_disable ts =
     transfer_setConnectionState ConnectionState_Idle (fst (transfer_setDataMode DataMode_Disabled ts))"

definition transfer_setReceiving :: "transfer_state \<Rightarrow> transfer_state" where
  "transfer_setReceiving ts = transfer_setConnectionState ConnectionState_Receiving ts"

definition transfer_switchToCiliumStreaming :: "transfer_state \<Rightarrow> transfer_state" where
  "transfer_switchToCiliumStreaming ts = transfer_setReceiving (fst (transfer_setDataMode DataMode_CiliumStreaming ts))"

definition transfer_setIdle :: "transfer_state \<Rightarrow> transfer_state" where
  "transfer_setIdle ts = transfer_setConnectionState ConnectionState_Idle ts"

definition transfer_setReconnecting :: "transfer_state \<Rightarrow> transfer_state" where
  "transfer_setReconnecting ts = transfer_setConnectionState ConnectionState_Reconnecting ts"

definition transfer_setDeploymentStatus :: "deployment_status option \<Rightarrow> transfer_state \<Rightarrow> transfer_state" where
  "transfer_setDeploymentStatus st ts = ts\<lparr>ts_deploymentStatus := st\<rparr>"

definition transfer_isCiliumStreaming :: "transfer_state \<Rightarrow> bool" where
  "transfer_isCiliumStreaming ts \<longleftrightarrow> ts_dataMode ts = DataMode_CiliumStreaming"

definition transfer_isDisabled :: "transfer_state \<Rightarrow> bool" where
  "transfer_isDisabled ts \<longleftrightarrow> ts_dataMode ts = DataMode_Disabled"

definition transfer_isDeploymentStatusReady :: "transfer_state \<Rightarrow> bool" where
  "transfer_isDeploymentStatusReady ts =
     (case ts_deploymentStatus ts of None \<Rightarrow> False | Some s \<Rightarrow> status_isFulfilled (ds_status s))"

section \<open>Controls\<close>

datatype controls_event =
    CurrentNamespaceChanged "string diff"
  | VerdictsChanged "verdict list diff"
  | ShowHostChanged "bool diff"
  | ShowKubeDNSChanged "bool diff"
  | ShowRemoteNodeChanged "bool diff"
  | ShowPrometheusAppChanged "bool diff"
  | HTTPStatusChanged "string diff"
  | FlowFiltersChanged "filter_entry list diff"
  | FiltersChanged filters_diff

text \<open>The handlers of \<open>setupEventHandlers\<close>; there is none for the remote nodes.\<close>

definition controls_handle :: "main_store \<Rightarrow> controls_event \<Rightarrow> controls_event list" where
  "controls_handle ms ev =
     (let fd = store_filtersDiff ms
      in case ev of
           CurrentNamespaceChanged d \<Rightarrow> [FiltersChanged (fd\<lparr>fd_namespace := diff_replace (fd_namespace fd) d\<rparr>)]
         | VerdictsChanged d \<Rightarrow> [FiltersChanged (fd\<lparr>fd_verdicts := diff_replace (fd_verdicts fd) d\<rparr>)]
         | ShowHostChanged d \<Rightarrow>
             [FiltersChanged (fd\<lparr>fd_skipHost := diff_invert (diff_replace (fd_skipHost fd) d)\<rparr>)]
         | ShowKubeDNSChanged d \<Rightarrow>
             [FiltersChanged (fd\<lparr>fd_skipKubeDns := diff_invert (diff_replace (fd_skipKubeDns fd) d)\<rparr>)]
         | ShowPrometheusAppChanged d \<Rightarrow>
             [FiltersChanged (fd\<lparr>fd_skipPrometheusApp := diff_invert (diff_replace (fd_skipPrometheusApp fd) d)\<rparr>)]
         | HTTPStatusChanged d \<Rightarrow> [FiltersChanged (fd\<lparr>fd_httpStatus := diff_replace (fd_httpStatus fd) d\<rparr>)]
         | FlowFiltersChanged d \<Rightarrow> [FiltersChanged (fd\<lparr>fd_filters := diff_replace (fd_filters fd) d\<rparr>)]
         | ShowRemoteNodeChanged d \<Rightarrow> []
         | FiltersChanged d \<Rightarrow> [])"

definition controls_emit :: "main_store \<Rightarrow> controls_event \<Rightarrow> main_store \<times> controls_event list" where
  "controls_emit ms ev = (ms, ev # controls_handle ms ev)"

definition with_controls :: "(control_store \<Rightarrow> control_store) \<Rightarrow> main_store \<Rightarrow> main_store" where
  "with_controls f ms = ms\<lparr>ms_shared := (ms_shared ms)\<lparr>sh_controls := f (sh_controls (ms_shared ms))\<rparr>\<rparr>"

definition store_controls :: "main_store \<Rightarrow> control_store" where
  "store_controls ms = sh_controls (ms_shared ms)"

definition dl_setCurrentNamespace ::
  "uniq_by \<Rightarrow> (string \<Rightarrow> parsed_url) \<Rightarrow> int \<Rightarrow> string option \<Rightarrow> main_store \<Rightarrow> main_store \<times> controls_event list" where
  "dl_setCurrentNamespace uniqBy up now ns ms =
     (let prev = map_option nd_namespace (store_currentNamespace ms)
      in if ns \<noteq> None \<and> prev = ns then (ms, [])
         else let ms1 = ms\<lparr>ms_shared := (ms_shared ms)\<lparr>sh_namespaces :=
                      fst (namespaces_setCurrent ns (sh_namespaces (ms_shared ms)))\<rparr>\<rparr>;
                  ms2 = with_controls controls_resetUserSelected ms1;
                  ms3 = store_flush uniqBy up now
                    (Some \<lparr>fo_namespaces = None, fo_globalFrame = Some True, fo_preserveActiveCards = None\<rparr>) ms2
              in controls_emit ms3 (CurrentNamespaceChanged (diff_step ns (diff_new prev))))"

definition dl_toggleVerdict :: "verdict option \<Rightarrow> main_store \<Rightarrow> main_store \<times> controls_event list" where
  "dl_toggleVerdict v ms =
     (let prevVerdicts = cs_verdicts (store_controls ms);
          nextVerdicts = snd (controls_toggleVerdict v (store_controls ms));
          ms1 = with_controls (\<lambda>c. fst (controls_toggleVerdict v c)) ms;
          diff = diff_step (Some nextVerdicts)
            (diff_setComparator (Some (\<lambda>a b. verdictsEqual (Some a) (Some b))) (diff_new (Some prevVerdicts)));
          (changed, diff') = diff_readChanged (=) diff
      in if \<not> changed then (ms1, []) else controls_emit ms1 (VerdictsChanged diff'))"

text \<open>The difference of a flag that was toggled.\<close>

definition toggled :: "bool \<Rightarrow> bool diff" where
  "toggled isActive = diff_step (Some isActive) (diff_new (Some (\<not> isActive)))"

definition dl_toggleShowHost :: "main_store \<Rightarrow> main_store \<times> controls_event list" where
  "dl_toggleShowHost ms =
     (let (c, isActive) = controls_toggleShowHost (store_controls ms)
      in controls_emit (with_controls (\<lambda>_. c) ms) (ShowHostChanged (toggled isActive)))"

definition dl_toggleShowKubeDNS :: "main_store \<Rightarrow> main_store \<times> controls_event list" where
  "dl_toggleShowKubeDNS ms =
     (let (c, isActive) = controls_toggleShowKubeDns (store_controls ms)
      in controls_emit (with_controls (\<lambda>_. c) ms) (ShowKubeDNSChanged (toggled isActive)))"

definition dl_toggleShowRemoteNode :: "main_store \<Rightarrow> main_store \<times> controls_event list" where
  "dl_toggleShowRemoteNode ms =
     (let (c, isActive) = controls_toggleShowRemoteNode (store_controls ms)
      in controls_emit (with_controls (\<lambda>_. c) ms) (ShowRemoteNodeChanged (toggled isActive)))"

definition dl_toggleShowPrometheusApp :: "main_store \<Rightarrow> main_store \<times> controls_event list" where
  "dl_toggleShowPrometheusApp ms =
     (let (c, isActive) = controls_toggleShowPrometheusApp (store_controls ms)
      in controls_emit (with_controls (\<lambda>_. c) ms) (ShowPrometheusAppChanged (toggled isActive)))"

definition dl_setHTTPStatus :: "string option \<Rightarrow> main_store \<Rightarrow> main_store \<times> controls_event list" where
  "dl_setHTTPStatus st ms =
     (let (c, prev) = controls_setHttpStatus st (store_controls ms);
          ms1 = with_controls (\<lambda>_. c) ms
      in if prev = st then (ms1, []) else controls_emit ms1 (HTTPStatusChanged (diff_step st (diff_new prev))))"

definition dl_normalizeFilterEntries :: "main_store \<Rightarrow> filter_entry list \<Rightarrow> filter_entry list" where
  "dl_normalizeFilterEntries ms ff =
     map (\<lambda>fe.
       case services_byFilterEntry (sf_services (ms_current ms)) fe of
         None \<Rightarrow> fe
       | Some crd \<Rightarrow>
           fe_setMeta
             (if truthy (fe_meta fe) then the (fe_meta fe)
              else if truthy (card_getFilterEntryMeta fe crd) then the (card_getFilterEntryMeta fe crd) else []) fe)
       (filter (\<lambda>fe. fe_kind fe \<noteq> Kind_TCPFlag) ff)"

definition dl_setFlowFilters :: "filter_entry list option \<Rightarrow> main_store \<Rightarrow> main_store \<times> controls_event list" where
  "dl_setFlowFilters ff ms =
     (let unique = fe_unique (dl_normalizeFilterEntries ms (or_empty ff));
          (c, prev) = controls_setFlowFilters unique (store_controls ms);
          ms1 = with_controls (\<lambda>_. c) ms
      in if filterEntriesEqual (Some prev) (Some unique) then (ms1, [])
         else controls_emit ms1
           (FlowFiltersChanged (diff_step (Some unique)
              (diff_setComparator (Some (\<lambda>a b. filterEntriesEqual (Some a) (Some b))) (diff_new (Some prev))))))"

definition dl_setDataMode :: "data_mode \<Rightarrow> connection_state option \<Rightarrow> transfer_state \<Rightarrow> transfer_state" where
  "dl_setDataMode dm cs ts =
     (let ts1 = fst (transfer_setDataMode dm ts)
      in case cs of
           Some s \<Rightarrow> transfer_setConnectionState s ts1
         | None \<Rightarrow> if transfer_isCiliumStreaming ts1 then transfer_setReceiving ts1 else ts1)"

text \<open>The handlers of the control stream.\<close>

definition dl_controlEvent :: "control_event \<Rightarrow> main_store \<times> transfer_state \<Rightarrow> main_store \<times> transfer_state" where
  "dl_controlEvent ev s =
     (let (ms, ts) = s
      in case ev of
           CE_NamespaceChanges chs \<Rightarrow> (fold (\<lambda>(ns, ch). store_applyNamespaceChange ns ch) chs ms, ts)
         | CE_Notification n \<Rightarrow>
             (ms, case nt_status n of None \<Rightarrow> ts | Some st \<Rightarrow> transfer_setDeploymentStatus (Some st) ts))"

section \<open>What the controls report\<close>

datatype controls_action =
    Act_ToggleVerdict "verdict option"
  | Act_ToggleShowHost
  | Act_ToggleShowKubeDNS
  | Act_ToggleShowRemoteNode
  | Act_ToggleShowPrometheusApp
  | Act_SetHTTPStatus "string option"
  | Act_SetFlowFilters "filter_entry list option"

definition dl_perform :: "controls_action \<Rightarrow> main_store \<Rightarrow> main_store \<times> controls_event list" where
  "dl_perform act ms =
     (case act of
        Act_ToggleVerdict v \<Rightarrow> dl_toggleVerdict v ms
      | Act_ToggleShowHost \<Rightarrow> dl_toggleShowHost ms
      | Act_ToggleShowKubeDNS \<Rightarrow> dl_toggleShowKubeDNS ms
      | Act_ToggleShowRemoteNode \<Rightarrow> dl_toggleShowRemoteNode ms
      | Act_ToggleShowPrometheusApp \<Rightarrow> dl_toggleShowPrometheusApp ms
      | Act_SetHTTPStatus st \<Rightarrow> dl_setHTTPStatus st ms
      | Act_SetFlowFilters ff \<Rightarrow> dl_setFlowFilters ff ms)"

text \<open>The differences of filters among the events, and what such a difference says about two filters.\<close>

definition reported :: "controls_event list \<Rightarrow> filters_diff list" where
  "reported evs = List.map_filter (\<lambda>ev. case ev of FiltersChanged d \<Rightarrow> Some d | _ \<Rightarrow> None) evs"

definition from_to :: "'a diff \<Rightarrow> 'a option \<Rightarrow> 'a option \<Rightarrow> bool" where
  "from_to d a b \<longleftrightarrow> d_before d = a \<and> d_after d = b"

definition describes :: "filters_diff \<Rightarrow> filters \<Rightarrow> filters \<Rightarrow> bool" where
  "describes d a b \<longleftrightarrow>
     from_to (fd_namespace d) (fi_namespace a) (fi_namespace b)
     \<and> from_to (fd_verdicts d) (fi_verdicts a) (fi_verdicts b)
     \<and> from_to (fd_httpStatus d) (fi_httpStatus a) (fi_httpStatus b)
     \<and> from_to (fd_filters d) (fi_filters a) (fi_filters b)
     \<and> from_to (fd_skipHost d) (fi_skipHost a) (fi_skipHost b)
     \<and> from_to (fd_skipKubeDns d) (fi_skipKubeDns a) (fi_skipKubeDns b)
     \<and> from_to (fd_skipRemoteNode d) (fi_skipRemoteNode a) (fi_skipRemoteNode b)
     \<and> from_to (fd_skipPrometheusApp d) (fi_skipPrometheusApp a) (fi_skipPrometheusApp b)"

lemma from_to_simps [simp]:
  "from_to (diff_setUnchanged (diff_new x)) a b \<longleftrightarrow> x = a \<and> x = b"
  "from_to (diff_setUnchanged (diff_setComparator c (diff_new x))) a b \<longleftrightarrow> x = a \<and> x = b"
  "from_to (diff_replace d e) a b = from_to e a b"
  "from_to (diff_invert e) a b = from_to e b a"
  "from_to (diff_step y (diff_new x)) a b \<longleftrightarrow> x = a \<and> y = b"
  "from_to (diff_step y (diff_setComparator c (diff_new x))) a b \<longleftrightarrow> x = a \<and> y = b"
  "from_to (e\<lparr>d_changed := ch\<rparr>) a b = from_to e a b"
  by (auto simp: from_to_def diff_setUnchanged_def diff_new_def diff_setComparator_def diff_replace_def
      diff_invert_def diff_dropCached_def diff_step_def)

lemma from_to_toggled [simp]: "from_to (toggled v) a b \<longleftrightarrow> a = Some (\<not> v) \<and> b = Some v"
  by (auto simp: toggled_def)

lemma reported_simps [simp]:
  "reported [] = []"
  "reported (CurrentNamespaceChanged d1 # evs) = reported evs" "reported (VerdictsChanged d2 # evs) = reported evs"
  "reported (ShowHostChanged d3 # evs) = reported evs" "reported (ShowKubeDNSChanged d3 # evs) = reported evs"
  "reported (ShowRemoteNodeChanged d3 # evs) = reported evs" "reported (ShowPrometheusAppChanged d3 # evs) = reported evs"
  "reported (HTTPStatusChanged d1 # evs) = reported evs" "reported (FlowFiltersChanged d4 # evs) = reported evs"
  "reported (FiltersChanged fd # evs) = fd # reported evs"
  by (simp_all add: reported_def map_filter_def)

lemma store_filters_controls:
  "store_filters (with_controls f ms) =
     (let c = f (store_controls ms)
      in (store_filters ms)\<lparr>fi_verdicts := Some (cs_verdicts c), fi_httpStatus := cs_httpStatus c,
            fi_filters := Some (cs_flowFilters c), fi_skipHost := Some (\<not> cs_showHost c),
            fi_skipKubeDns := Some (\<not> cs_showKubeDns c), fi_skipRemoteNode := Some (\<not> cs_showRemoteNode c),
            fi_skipPrometheusApp := Some (\<not> cs_showPrometheusApp c)\<rparr>)"
  by (simp add: store_filters_def with_controls_def store_controls_def Let_def)

lemma filters_of_controls [simp]:
  "fi_verdicts (store_filters ms) = Some (cs_verdicts (store_controls ms))"
  "fi_httpStatus (store_filters ms) = cs_httpStatus (store_controls ms)"
  "fi_filters (store_filters ms) = Some (cs_flowFilters (store_controls ms))"
  "fi_skipHost (store_filters ms) = Some (\<not> cs_showHost (store_controls ms))"
  "fi_skipKubeDns (store_filters ms) = Some (\<not> cs_showKubeDns (store_controls ms))"
  "fi_skipRemoteNode (store_filters ms) = Some (\<not> cs_showRemoteNode (store_controls ms))"
  "fi_skipPrometheusApp (store_filters ms) = Some (\<not> cs_showPrometheusApp (store_controls ms))"
  by (simp_all add: store_filters_def store_controls_def Let_def)

lemma controls_with [simp]: "store_controls (with_controls f ms) = f (store_controls ms)"
  by (simp add: store_controls_def with_controls_def)

lemma namespace_with [simp]: "fi_namespace (store_filters (with_controls f ms)) = fi_namespace (store_filters ms)"
  by (simp add: store_filters_controls Let_def)

lemmas reports = controls_emit_def controls_handle_def store_filtersDiff_def filtersDiff_fromFilters_def
  filtersDiff_setUnchanged_def Let_def

lemma wf_filters_of_store: "wf_filters (store_filters ms) \<longleftrightarrow> distinct (cs_verdicts (store_controls ms))"
  by (simp add: wf_filters_def or_empty_def)

lemma filters_equals_controls:
  assumes "distinct (cs_verdicts (store_controls ms))" "distinct (cs_verdicts (f (store_controls ms)))"
  shows "filters_equals (store_filters ms) (store_filters (with_controls f ms)) \<longleftrightarrow>
     (let a = store_controls ms; b = f a
      in cs_httpStatus a = cs_httpStatus b \<and> cs_showHost a = cs_showHost b \<and> cs_showKubeDns a = cs_showKubeDns b
         \<and> cs_showRemoteNode a = cs_showRemoteNode b \<and> cs_showPrometheusApp a = cs_showPrometheusApp b
         \<and> set (cs_verdicts a) = set (cs_verdicts b)
         \<and> fe_toString ` set (cs_flowFilters a) = fe_toString ` set (cs_flowFilters b))"
  using assms by (subst filters_equals_iff) (auto simp: wf_filters_of_store or_empty_def Let_def)

lemmas control_ops = controls_toggleVerdict_def controls_toggleShowHost_def controls_setShowHost_def
  controls_toggleShowKubeDns_def controls_setShowKubeDns_def controls_toggleShowRemoteNode_def
  controls_setShowRemoteNode_def controls_toggleShowPrometheusApp_def controls_setShowPrometheusApp_def
  controls_setHttpStatus_def controls_setFlowFilters_def

text \<open>One report of the difference, or none when nothing changed.\<close>

definition reports_change :: "main_store \<Rightarrow> main_store \<times> controls_event list \<Rightarrow> bool" where
  "reports_change ms r \<longleftrightarrow>
     (if filters_equals (store_filters ms) (store_filters (fst r)) then reported (snd r) = []
      else (\<exists>fd. reported (snd r) = [fd] \<and> describes fd (store_filters ms) (store_filters (fst r))))"

lemma toggles_report:
  assumes "distinct (cs_verdicts (store_controls ms))"
  shows "reports_change ms (dl_toggleShowHost ms)" "reports_change ms (dl_toggleShowKubeDNS ms)"
    "reports_change ms (dl_toggleShowPrometheusApp ms)"
  using assms
  by (simp_all add: reports_change_def dl_toggleShowHost_def dl_toggleShowKubeDNS_def dl_toggleShowPrometheusApp_def
      control_ops filters_equals_controls reports describes_def)

lemma setHTTPStatus_reports:
  assumes "distinct (cs_verdicts (store_controls ms))"
  shows "reports_change ms (dl_setHTTPStatus st ms)"
  using assms
  by (simp add: reports_change_def dl_setHTTPStatus_def control_ops filters_equals_controls reports describes_def)

lemma toggleVerdict_reports:
  assumes "distinct (cs_verdicts (store_controls ms))"
  shows "reports_change ms (dl_toggleVerdict v ms)"
proof -
  let ?next = "case v of None \<Rightarrow> [] | Some w \<Rightarrow> [w]" and ?prev = "cs_verdicts (store_controls ms)"
  have d: "distinct ?next" by (simp split: option.split)
  have eq: "verdictsEqual (Some ?prev) (Some ?next) \<longleftrightarrow> set ?prev = set ?next"
    using assms d by (simp add: verdictsEqual_iff or_empty_def)
  show ?thesis
    using assms d eq
    by (simp add: reports_change_def dl_toggleVerdict_def control_ops filters_equals_controls reports describes_def
        diff_readChanged_def diff_changed_def diff_computeChanged_def misc_equals_def diff_step_def diff_dropCached_def
        diff_setComparator_def diff_new_def from_to_def diff_replace_def diff_setUnchanged_def)
qed

lemma setFlowFilters_reports:
  assumes "distinct (cs_verdicts (store_controls ms))"
  shows "reports_change ms (dl_setFlowFilters ff ms)"
  using assms
  by (simp add: reports_change_def dl_setFlowFilters_def control_ops filters_equals_controls reports describes_def
      filterEntriesEqual_iff or_empty_def)

text \<open>C24: the toggles of verdicts, hosts, the DNS and Prometheus, the HTTP status and the flow filters report what they did: when
  the filters they leave in the store equal the ones before they report nothing, and otherwise exactly one difference of
  filters, which goes from the filters before to those after.  The toggle of the remote nodes, which reports nothing, and
  the change of the namespace, which also forgets verdicts and status, are not among them.\<close>

theorem controls_report_changes:
  assumes "distinct (cs_verdicts (store_controls ms))" "act \<noteq> Act_ToggleShowRemoteNode"
  shows "if filters_equals (store_filters ms) (store_filters (fst (dl_perform act ms)))
     then reported (snd (dl_perform act ms)) = []
     else (\<exists>fd. reported (snd (dl_perform act ms)) = [fd]
       \<and> describes fd (store_filters ms) (store_filters (fst (dl_perform act ms))))"
proof -
  have "reports_change ms (dl_perform act ms)"
    using assms toggles_report toggleVerdict_reports setHTTPStatus_reports setFlowFilters_reports
    by (cases act) (simp_all add: dl_perform_def)
  then show ?thesis by (simp only: reports_change_def)
qed

theorem controls_report_changes_witness:
  "length (reported (snd (dl_perform (Act_ToggleVerdict (Some Verdict_Dropped)) (store_new 0 demo_counters)))) = 1
   \<and> fi_verdicts (store_filters (fst (dl_perform (Act_ToggleVerdict (Some Verdict_Dropped)) (store_new 0 demo_counters))))
       = Some [Verdict_Dropped]"
proof -
  let ?ms = "store_new 0 demo_counters" and ?act = "Act_ToggleVerdict (Some Verdict_Dropped)"
  have d: "cs_verdicts (store_controls ?ms) = []" by code_simp
  have n: "\<not> filters_equals (store_filters ?ms) (store_filters (fst (dl_perform ?act ?ms)))" by code_simp
  have "\<exists>fd. reported (snd (dl_perform ?act ?ms)) = [fd]
      \<and> describes fd (store_filters ?ms) (store_filters (fst (dl_perform ?act ?ms)))"
    using controls_report_changes [of ?ms ?act] d n by simp
  then show ?thesis by (auto simp: dl_perform_def dl_toggleVerdict_def controls_toggleVerdict_def controls_emit_def
        Let_def split: prod.splits)
qed

text \<open>toggling the remote nodes always changes the filters, but no difference of filters is reported,
  because the class sets up no handler for this event: the streams are not told.\<close>

theorem show_remote_node_not_reported:
  "fi_skipRemoteNode (store_filters (fst (dl_perform Act_ToggleShowRemoteNode ms)))
     \<noteq> fi_skipRemoteNode (store_filters ms)
   \<and> reported (snd (dl_perform Act_ToggleShowRemoteNode ms)) = []"
  by (simp add: dl_perform_def dl_toggleShowRemoteNode_def control_ops reports)

end
