(* ===== verification/Retry.thy ===== *)
theory Retry
  imports JS_Number
begin

text \<open>
  \<open>src/utils/retry\<close>: repeating an operation with growing delays.  The operation is a function of its own
  state and of the attempt number; it says whether it called \<open>stop\<close> and whether it returned or threw.
  It calls \<open>stop\<close> only while it runs.  The events that \<open>Retries\<close> emits are returned in order.  The loop
  of \<open>try\<close> may run forever when there is no limit of attempts: then its value is \<open>None\<close>.

  The interface \<open>Delayer\<close> is a locale; the client \<open>Retries\<close> is verified inside it, and the exponential
  delayer interprets it.
\<close>

section \<open>Exponential delays\<close>

record delayer_opts =
  do_maxDelay :: rat
  do_minDelay :: rat
  do_factor :: rat

record exponential =
  ex_opts :: delayer_opts
  ex_delay :: rat

definition exponential_new :: "delayer_opts \<Rightarrow> exponential" where
  "exponential_new opts = \<lparr>ex_opts = opts, ex_delay = do_minDelay opts\<rparr>"

definition exponential_clone :: "exponential \<Rightarrow> exponential" where
  "exponential_clone d = exponential_new (ex_opts d)"

definition exponential_reset :: "exponential \<Rightarrow> exponential" where
  "exponential_reset d = d\<lparr>ex_delay := do_minDelay (ex_opts d)\<rparr>"

definition exponential_nextDelay :: "exponential \<Rightarrow> rat" where
  "exponential_nextDelay d = ex_delay d"

definition exponential_advanceDelay :: "exponential \<Rightarrow> exponential" where
  "exponential_advanceDelay d =
     d\<lparr>ex_delay := min (js_mul (ex_delay d) (do_factor (ex_opts d))) (do_maxDelay (ex_opts d))\<rparr>"

text \<open>The delay that is waited, and the delayer afterwards.\<close>

definition exponential_wait :: "exponential \<Rightarrow> rat \<times> exponential" where
  "exponential_wait d = (ex_delay d, exponential_advanceDelay d)"

section \<open>Retries\<close>

datatype 'err retry_event =
    AttemptStarted nat
  | AttemptFailed nat bool bool 'err
  | AttemptDelay nat rat
  | AttemptSuccess nat

datatype ('err, 'r) try_result = Returned 'r | Thrown 'err | RetriesFailed

record 'd retries =
  rt_delayer :: 'd
  rt_attempt :: nat
  rt_maxAttempts :: "nat option"

text \<open>What an operation does on an attempt: its next state, whether it called \<open>stop\<close>, and its outcome.\<close>

type_synonym ('s, 'err, 'r) retry_fn = "'s \<Rightarrow> nat \<Rightarrow> 's \<times> bool \<times> ('err + 'r)"

definition retries_new :: "'d \<Rightarrow> nat option \<Rightarrow> 'd retries" where
  "retries_new d maxAttempts = \<lparr>rt_delayer = d, rt_attempt = 1, rt_maxAttempts = maxAttempts\<rparr>"

definition retries_newExponential :: "nat option \<Rightarrow> rat \<Rightarrow> rat \<Rightarrow> rat \<Rightarrow> exponential retries" where
  "retries_newExponential maxAttempts factor maxDelay minDelay =
     retries_new (exponential_new \<lparr>do_maxDelay = maxDelay, do_minDelay = minDelay, do_factor = factor\<rparr>) maxAttempts"

definition retries_clone :: "('d \<Rightarrow> 'd) \<Rightarrow> 'd retries \<Rightarrow> 'd retries" where
  "retries_clone clone_delayer rt = retries_new (clone_delayer (rt_delayer rt)) (rt_maxAttempts rt)"

definition retries_canDoAttempt :: "'d retries \<Rightarrow> bool" where
  "retries_canDoAttempt rt = (case rt_maxAttempts rt of None \<Rightarrow> True | Some m \<Rightarrow> rt_attempt rt \<le> m)"

definition retries_isLastAttempt :: "'d retries \<Rightarrow> bool" where
  "retries_isLastAttempt rt \<longleftrightarrow> rt_maxAttempts rt = Some (rt_attempt rt)"

definition retries_reset :: "('d \<Rightarrow> 'd) \<Rightarrow> 'd retries \<Rightarrow> 'd retries" where
  "retries_reset reset_delayer rt = rt\<lparr>rt_delayer := reset_delayer (rt_delayer rt), rt_attempt := 1\<rparr>"

definition retries_nextDelay :: "('d \<Rightarrow> rat) \<Rightarrow> 'd retries \<Rightarrow> rat" where
  "retries_nextDelay next_delay rt = next_delay (rt_delayer rt)"

definition retries_wait :: "('d \<Rightarrow> rat \<times> 'd) \<Rightarrow> 'd retries \<Rightarrow> 'd retries" where
  "retries_wait wait_delay rt = rt\<lparr>rt_delayer := snd (wait_delay (rt_delayer rt))\<rparr>"

partial_function (option) retries_try ::
  "('d \<Rightarrow> rat) \<Rightarrow> ('d \<Rightarrow> rat \<times> 'd) \<Rightarrow> ('s, 'err, 'r) retry_fn \<Rightarrow> 'd retries \<Rightarrow> 's \<Rightarrow>
   (('err, 'r) try_result \<times> 'd retries \<times> 's \<times> 'err retry_event list) option"
where
  "retries_try next_delay wait_delay fn rt s =
     (if \<not> retries_canDoAttempt rt then Some (RetriesFailed, rt, s, [])
      else let attempt = rt_attempt rt; (s1, stop, outcome) = fn s attempt
           in case outcome of
                Inr result \<Rightarrow> Some (Returned result, rt, s1, [AttemptStarted attempt, AttemptSuccess attempt])
              | Inl err \<Rightarrow>
                  (let isLast = retries_isLastAttempt rt;
                       evs = [AttemptStarted attempt, AttemptFailed attempt isLast stop err]
                   in if stop \<or> isLast then Some (Thrown err, rt, s1, evs)
                      else Option.bind
                             (retries_try next_delay wait_delay fn
                                ((retries_wait wait_delay rt)\<lparr>rt_attempt := attempt + 1\<rparr>) s1)
                             (\<lambda>(res, rt', s', evs').
                                Some (res, rt', s', evs @ [AttemptDelay attempt (next_delay (rt_delayer rt))] @ evs'))))"

section \<open>The loop\<close>

text \<open>The result of one attempt, and the state of the retries and of the operation after \<open>n\<close> failed ones.\<close>

definition ends :: "('s, 'err, 'r) retry_fn \<Rightarrow> 'd retries \<Rightarrow> 's \<Rightarrow> bool" where
  "ends fn rt s \<longleftrightarrow>
     \<not> retries_canDoAttempt rt
     \<or> (case fn s (rt_attempt rt) of (_, stop, outcome) \<Rightarrow>
          (case outcome of Inr _ \<Rightarrow> True | Inl _ \<Rightarrow> stop \<or> retries_isLastAttempt rt))"

definition next_retries :: "('d \<Rightarrow> rat \<times> 'd) \<Rightarrow> 'd retries \<Rightarrow> 'd retries" where
  "next_retries wait_delay rt = (retries_wait wait_delay rt)\<lparr>rt_attempt := rt_attempt rt + 1\<rparr>"

fun after_failures ::
  "('d \<Rightarrow> rat \<times> 'd) \<Rightarrow> ('s, 'err, 'r) retry_fn \<Rightarrow> nat \<Rightarrow> 'd retries \<Rightarrow> 's \<Rightarrow> 'd retries \<times> 's" where
  "after_failures wait_delay fn 0 rt s = (rt, s)"
| "after_failures wait_delay fn (Suc n) rt s =
     after_failures wait_delay fn n (next_retries wait_delay rt) (fst (fn s (rt_attempt rt)))"

text \<open>One round of the loop, for the case analyses below.\<close>

lemma try_ends:
  assumes "ends fn rt s"
  shows "\<exists>res s' evs. retries_try nd w fn rt s = Some (res, rt, s', evs)
    \<and> (\<forall>a d. AttemptDelay a d \<notin> set evs)
    \<and> (\<forall>r. res = Returned r \<longrightarrow> evs = [AttemptStarted (rt_attempt rt), AttemptSuccess (rt_attempt rt)])"
proof (cases "retries_canDoAttempt rt")
  case True
  obtain s1 stop out where fn: "fn s (rt_attempt rt) = (s1, stop, out)" by (cases "fn s (rt_attempt rt)")
  show ?thesis
    using assms True fn
    by (subst retries_try.simps) (cases out; simp add: ends_def Let_def)
next
  case False
  then show ?thesis by (subst retries_try.simps) simp
qed

lemma try_continues:
  assumes "\<not> ends fn rt s"
  obtains err where
    "retries_try nd w fn rt s =
       Option.bind (retries_try nd w fn (next_retries w rt) (fst (fn s (rt_attempt rt))))
         (\<lambda>(res, rt', s', evs').
            Some (res, rt', s',
              [AttemptStarted (rt_attempt rt), AttemptFailed (rt_attempt rt) False False err,
               AttemptDelay (rt_attempt rt) (nd (rt_delayer rt))] @ evs'))"
proof -
  obtain s1 err where "fn s (rt_attempt rt) = (s1, False, Inl err)" "\<not> retries_isLastAttempt rt"
    "retries_canDoAttempt rt"
    using assms by (auto simp: ends_def split: prod.splits sum.splits)
  then show ?thesis
    by (intro that [of err]) (subst retries_try.simps, simp add: Let_def next_retries_def)
qed

lemma try_reaches_end:
  fixes w :: "'d \<Rightarrow> rat \<times> 'd" and fn :: "('s, 'err, 'r) retry_fn"
  assumes "retries_try nd w fn rt s = Some out"
  shows "\<exists>n. ends fn (fst (after_failures w fn n rt s)) (snd (after_failures w fn n rt s))"
proof (rule retries_try.raw_induct [of
      "\<lambda>nd w fn rt s out. \<exists>n. ends fn (fst (after_failures w fn n rt s)) (snd (after_failures w fn n rt s))",
      OF _ assms])
  fix loop and nd :: "'d \<Rightarrow> rat" and w :: "'d \<Rightarrow> rat \<times> 'd" and fn :: "('s, 'err, 'r) retry_fn"
    and rt :: "'d retries" and s out
  assume IH: "\<And>nd w fn rt s out. loop nd w fn rt s = Some out \<Longrightarrow>
      \<exists>n. ends fn (fst (after_failures w fn n rt s)) (snd (after_failures w fn n rt s))"
    and body: "(if \<not> retries_canDoAttempt rt then Some (RetriesFailed, rt, s, [])
      else let attempt = rt_attempt rt; (s1, stop, outcome) = fn s attempt
           in case outcome of
                Inl err \<Rightarrow>
                  (let isLast = retries_isLastAttempt rt;
                       evs = [AttemptStarted attempt, AttemptFailed attempt isLast stop err]
                   in if stop \<or> isLast then Some (Thrown err, rt, s1, evs)
                      else Option.bind (loop nd w fn ((retries_wait w rt)\<lparr>rt_attempt := attempt + 1\<rparr>) s1)
                             (\<lambda>(res, rt', s', evs').
                                Some (res, rt', s', evs @ [AttemptDelay attempt (nd (rt_delayer rt))] @ evs')))
              | Inr result \<Rightarrow> Some (Returned result, rt, s1, [AttemptStarted attempt, AttemptSuccess attempt]))
      = Some out"
  show "\<exists>n. ends fn (fst (after_failures w fn n rt s)) (snd (after_failures w fn n rt s))"
  proof (cases "ends fn rt s")
    case True
    then show ?thesis by (intro exI [of _ 0]) simp
  next
    case False
    then obtain s1 err where fn: "fn s (rt_attempt rt) = (s1, False, Inl err)" "\<not> retries_isLastAttempt rt"
      "retries_canDoAttempt rt"
      by (auto simp: ends_def split: prod.splits sum.splits)
    then obtain out' where "loop nd w fn (next_retries w rt) s1 = Some out'"
      using body by (auto simp: Let_def next_retries_def bind_eq_Some_conv)
    from IH [OF this] obtain n where
      "ends fn (fst (after_failures w fn n (next_retries w rt) s1)) (snd (after_failures w fn n (next_retries w rt) s1))"
      by blast
    then show ?thesis using fn by (intro exI [of _ "Suc n"]) simp
  qed
qed

lemma end_induct:
  assumes "ends fn (fst (after_failures w fn n rt s)) (snd (after_failures w fn n rt s))"
    and "\<And>rt s. ends fn rt s \<Longrightarrow> P rt s"
    and "\<And>rt s. \<not> ends fn rt s \<Longrightarrow> P (next_retries w rt) (fst (fn s (rt_attempt rt))) \<Longrightarrow> P rt s"
  shows "P rt s"
  using assms(1)
proof (induction n arbitrary: rt s)
  case 0
  then show ?case by (simp add: assms(2))
next
  case (Suc n)
  then show ?case using assms(2,3) [of rt s] by auto
qed

lemma try_induct [consumes 1, case_names finished again]:
  assumes "retries_try nd w fn rt s = Some out"
    and "\<And>rt s. ends fn rt s \<Longrightarrow> P rt s"
    and "\<And>rt s. \<not> ends fn rt s \<Longrightarrow> P (next_retries w rt) (fst (fn s (rt_attempt rt))) \<Longrightarrow> P rt s"
  shows "P rt s"
  using try_reaches_end [OF assms(1)] end_induct [of fn w _ rt s P] assms(2,3) by blast

text \<open>The specification of the loop looks only at the operation: its state when it is called for the \<open>k + 1\<close>st time, what it
  then does, whether that decides the matter (it returns or calls \<open>stop\<close>), and the value or error of that call.\<close>

fun calls_state :: "('s, 'err, 'r) retry_fn \<Rightarrow> 's \<Rightarrow> nat \<Rightarrow> 's" where
  "calls_state fn s 0 = s"
| "calls_state fn s (Suc k) = fst (fn (calls_state fn s k) (Suc k))"

definition call_decides :: "('s, 'err, 'r) retry_fn \<Rightarrow> 's \<Rightarrow> nat \<Rightarrow> bool" where
  "call_decides fn s k \<longleftrightarrow>
     (case snd (fn (calls_state fn s k) (Suc k)) of (stop, outcome) \<Rightarrow> stop \<or> (\<exists>r. outcome = Inr r))"

definition call_result :: "('s, 'err, 'r) retry_fn \<Rightarrow> 's \<Rightarrow> nat \<Rightarrow> ('err, 'r) try_result" where
  "call_result fn s k = (case snd (snd (fn (calls_state fn s k) (Suc k))) of Inl err \<Rightarrow> Thrown err | Inr r \<Rightarrow> Returned r)"

definition attempts_started :: "'err retry_event list \<Rightarrow> nat list" where
  "attempts_started evs = List.map_filter (\<lambda>ev. case ev of AttemptStarted a \<Rightarrow> Some a | _ \<Rightarrow> None) evs"

lemma attempts_started_simps [simp]:
  "attempts_started [] = []" "attempts_started (AttemptStarted a # evs) = a # attempts_started evs"
  "attempts_started (AttemptFailed a l st err # evs) = attempts_started evs"
  "attempts_started (AttemptDelay a d # evs) = attempts_started evs"
  "attempts_started (AttemptSuccess a # evs) = attempts_started evs"
  by (simp_all add: attempts_started_def map_filter_def)

lemma next_retries_simps [simp]:
  "rt_attempt (next_retries w rt) = rt_attempt rt + 1"
  "rt_maxAttempts (next_retries w rt) = rt_maxAttempts rt"
  "rt_delayer (next_retries w rt) = snd (w (rt_delayer rt))"
  by (simp_all add: next_retries_def retries_wait_def)

lemma ends_iff:
  assumes "rt_attempt rt = Suc k"
  shows "ends fn rt (calls_state fn s k) \<longleftrightarrow>
    (\<exists>m. rt_maxAttempts rt = Some m \<and> m \<le> k) \<or> call_decides fn s k \<or> rt_maxAttempts rt = Some (Suc k)"
  using assms
  by (cases "rt_maxAttempts rt")
    (auto simp: ends_def call_decides_def retries_canDoAttempt_def retries_isLastAttempt_def not_less_eq_eq split: prod.splits sum.splits)

lemma try_decided:
  assumes "rt_attempt rt = Suc k" "\<forall>m. rt_maxAttempts rt = Some m \<longrightarrow> k < m"
    and "call_decides fn s k \<or> rt_maxAttempts rt = Some (Suc k)"
  shows "\<exists>evs. retries_try nd w fn rt (calls_state fn s k) = Some (call_result fn s k, rt, calls_state fn s (Suc k), evs)
    \<and> attempts_started evs = [Suc k]"
proof -
  obtain s1 stop out where fn: "fn (calls_state fn s k) (Suc k) = (s1, stop, out)" by (cases "fn (calls_state fn s k) (Suc k)")
  have "retries_canDoAttempt rt" using assms(1,2) by (auto simp: retries_canDoAttempt_def split: option.split)
  then show ?thesis
    using assms fn
    by (subst retries_try.simps)
      (cases out; auto simp: Let_def call_decides_def call_result_def retries_isLastAttempt_def)
qed

lemma try_first_decided:
  assumes "i \<le> k" "rt_attempt rt = Suc i" "\<forall>m. rt_maxAttempts rt = Some m \<longrightarrow> k < m"
    and "call_decides fn s k \<or> rt_maxAttempts rt = Some (Suc k)"
    and "\<forall>j. i \<le> j \<and> j < k \<longrightarrow> \<not> call_decides fn s j"
  shows "\<exists>rt' evs. retries_try nd w fn rt (calls_state fn s i) = Some (call_result fn s k, rt', calls_state fn s (Suc k), evs)
    \<and> attempts_started evs = [Suc i..<Suc (Suc k)]"
  using assms
proof (induction i arbitrary: rt rule: inc_induct)
  case base
  then show ?case using try_decided [OF base(1-3), of nd w] by auto
next
  case (step i)
  have "\<not> ends fn rt (calls_state fn s i)"
    using step.hyps(2) step.prems by (auto simp: ends_iff [OF step.prems(1)])
  then obtain err where again: "retries_try nd w fn rt (calls_state fn s i) =
       Option.bind (retries_try nd w fn (next_retries w rt) (calls_state fn s (Suc i)))
         (\<lambda>(res, rt', s', evs').
            Some (res, rt', s', [AttemptStarted (Suc i), AttemptFailed (Suc i) False False err, AttemptDelay (Suc i) (nd (rt_delayer rt))] @ evs'))"
    using step.prems(1) by (elim try_continues [of fn rt _ nd w]) simp
  from step.IH [of "next_retries w rt"] step.prems show ?case
    unfolding again using step.hyps(2) by (auto simp: upt_conv_Cons)
qed

lemma try_undecided:
  assumes "rt_attempt rt = Suc i" "rt_maxAttempts rt = None" "\<forall>k. \<not> call_decides fn s k"
  shows "retries_try nd w fn rt (calls_state fn s i) = None"
proof (rule ccontr)
  assume "retries_try nd w fn rt (calls_state fn s i) \<noteq> None"
  then obtain out where "retries_try nd w fn rt (calls_state fn s i) = Some out" by auto
  from try_reaches_end [OF this] obtain n where
    "ends fn (fst (after_failures w fn n rt (calls_state fn s i))) (snd (after_failures w fn n rt (calls_state fn s i)))" ..
  moreover have "\<not> ends fn (fst (after_failures w fn n rt (calls_state fn s i))) (snd (after_failures w fn n rt (calls_state fn s i)))"
    using assms(1,2)
  proof (induction n arbitrary: rt i)
    case 0
    then show ?case using assms(3) by (simp add: ends_iff [OF 0(1)])
  next
    case (Suc n)
    from Suc.IH [of "next_retries w rt" "Suc i"] Suc.prems show ?case by simp
  qed
  ultimately show False by blast
qed

text \<open>C17: \<open>try\<close> of new retries calls the operation until the first call that returns or calls \<open>stop\<close>, or until the limit of
  attempts, and gives the value or the error of the last call; the attempts are numbered from one without gaps.  With a
  limit of none it fails without a call.  It does not return exactly when there is no limit and no call ever decides.\<close>

theorem retries_try_outcome:
  "case retries_try nd w fn (retries_new d limit) s of
     None \<Rightarrow> limit = None \<and> (\<forall>k. \<not> call_decides fn s k)
   | Some (res, rt', s', evs) \<Rightarrow>
       if limit = Some 0 then res = RetriesFailed \<and> s' = s \<and> evs = []
       else \<exists>k. (call_decides fn s k \<or> limit = Some (Suc k))
              \<and> (\<forall>j < k. \<not> call_decides fn s j \<and> limit \<noteq> Some (Suc j))
              \<and> res = call_result fn s k \<and> s' = calls_state fn s (Suc k) \<and> attempts_started evs = [1..<k + 2]"
proof (cases "limit = Some 0")
  case True
  then show ?thesis by (subst retries_try.simps) (simp add: retries_new_def retries_canDoAttempt_def)
next
  case False
  let ?rt = "retries_new d limit" and ?ends = "\<lambda>k. call_decides fn s k \<or> limit = Some (Suc k)"
  have rt: "rt_attempt ?rt = Suc 0" "rt_maxAttempts ?rt = limit" by (simp_all add: retries_new_def)
  show ?thesis
  proof (cases "\<exists>k. ?ends k")
    case True
    define k where "k = (LEAST k. ?ends k)"
    have k: "?ends k" "\<forall>j < k. \<not> ?ends j"
      unfolding k_def using LeastI_ex [OF True] not_less_Least by blast+
    have "\<forall>m. limit = Some m \<longrightarrow> k < m"
    proof (intro allI impI)
      fix m assume "limit = Some m"
      then show "k < m" using k(2) False by (cases m) (auto simp: not_less less_Suc_eq_le)
    qed
    then obtain rt' evs where
      "retries_try nd w fn ?rt s = Some (call_result fn s k, rt', calls_state fn s (Suc k), evs)" "attempts_started evs = [1..<k + 2]"
      using try_first_decided [of 0 k ?rt fn s nd w] k rt by auto
    then show ?thesis using False k by auto
  next
    case undecided: False
    have "limit = Some m \<Longrightarrow> m = 0" for m using undecided by (cases m) auto
    then have "limit = None" using False by (cases limit) auto
    then show ?thesis using try_undecided [of ?rt 0 fn s nd w] rt undecided by auto
  qed
qed

definition fail_until :: "nat \<Rightarrow> (nat, string, nat) retry_fn" where
  "fail_until n s attempt = (s + 1, False, if s < n then Inl ''connection refused'' else Inr s)"

theorem retries_try_outcome_witness:
  "\<exists>rt' s' evs. retries_try (\<lambda>_. 1) (\<lambda>d. (1, d)) (fail_until 1) (retries_new () (Some 3)) 0 = Some (Returned 1, rt', s', evs)
     \<and> attempts_started evs = [1, 2]"
proof -
  have state: "calls_state (fail_until 1) 0 k = k" for k by (induction k) (simp_all add: fail_until_def)
  have decides: "call_decides (fail_until 1) 0 k \<longleftrightarrow> 1 \<le> k" for k by (simp only: call_decides_def state) (auto simp: fail_until_def)
  obtain res rt' s' evs where out: "retries_try (\<lambda>_. 1) (\<lambda>d. (1, d)) (fail_until 1) (retries_new () (Some 3)) 0 = Some (res, rt', s', evs)"
    using retries_try_outcome [where nd = "\<lambda>_. 1" and w = "\<lambda>d. (1, d)" and fn = "fail_until 1" and d = "()" and limit = "Some 3" and s = 0] by (auto split: option.splits)
  with retries_try_outcome [where nd = "\<lambda>_. 1" and w = "\<lambda>d. (1, d)" and fn = "fail_until 1" and d = "()" and limit = "Some 3" and s = 0]
  obtain k where k: "1 \<le> k \<or> k = 2" "\<forall>j < k. \<not> 1 \<le> j" "res = call_result (fail_until 1) 0 k" "attempts_started evs = [1..<k + 2]"
    unfolding out by (auto simp: decides [simplified] simp del: upt_Suc)
  have "\<not> 1 < k" using k(2) by blast
  then have "k = 1" using k(1) by auto
  moreover have "call_result (fail_until 1) 0 1 = Returned 1" by (simp only: call_result_def state) (simp add: fail_until_def)
  ultimately show ?thesis using out k by (simp add: upt_conv_Cons)
qed

definition started :: "'err retry_event \<Rightarrow> bool" where
  "started ev \<longleftrightarrow> (case ev of AttemptStarted _ \<Rightarrow> True | _ \<Rightarrow> False)"

text \<open>with a limit of attempts \<open>try\<close> always returns, after at most that many attempts from the current one.\<close>

theorem retries_try_terminates:
  assumes "rt_maxAttempts rt = Some m"
  shows "\<exists>res rt' s' evs. retries_try nd w fn rt s = Some (res, rt', s', evs)
    \<and> length (filter started evs) \<le> m + 1 - rt_attempt rt"
  using assms
proof (induction "m + 1 - rt_attempt rt" arbitrary: rt s)
  case 0
  then have "\<not> retries_canDoAttempt rt" by (simp add: retries_canDoAttempt_def)
  then show ?case by (subst retries_try.simps) simp
next
  case (Suc n)
  show ?case
  proof (cases "ends fn rt s")
    case True
    then show ?thesis
      using Suc.hyps(2)
      by (subst retries_try.simps)
        (auto simp: ends_def Let_def started_def split: prod.splits sum.splits)
  next
    case False
    then obtain err where step:
      "retries_try nd w fn rt s =
         Option.bind (retries_try nd w fn (next_retries w rt) (fst (fn s (rt_attempt rt))))
           (\<lambda>(res, rt', s', evs').
              Some (res, rt', s',
                [AttemptStarted (rt_attempt rt), AttemptFailed (rt_attempt rt) False False err,
                 AttemptDelay (rt_attempt rt) (nd (rt_delayer rt))] @ evs'))"
      by (rule try_continues)
    have "n = m + 1 - rt_attempt (next_retries w rt)" using Suc.hyps(2) by simp
    from Suc.hyps(1) [OF this, of "fst (fn s (rt_attempt rt))"] Suc.prems
    obtain res rt' s' evs where
      "retries_try nd w fn (next_retries w rt) (fst (fn s (rt_attempt rt))) = Some (res, rt', s', evs)"
      "length (filter started evs) \<le> n"
      using Suc.hyps(2) by auto
    then show ?thesis unfolding step using Suc.hyps(2) by (simp add: started_def)
  qed
qed

section \<open>Delays\<close>

text \<open>The delay that is waited after the failure number \<open>n + 1\<close>, whether or not the loop ever ends.\<close>

definition delay_after :: "('d \<Rightarrow> rat \<times> 'd) \<Rightarrow> 'd retries \<Rightarrow> nat \<Rightarrow> rat" where
  "delay_after w rt n = fst (w (((snd \<circ> w) ^^ n) (rt_delayer rt)))"

lemma delay_after_next: "delay_after w (next_retries w rt) n = delay_after w rt (Suc n)"
  by (simp add: delay_after_def funpow_swap1)

text \<open>What the interface \<open>Delayer\<close> promises: \<open>wait\<close> waits the delay that \<open>nextDelay\<close> announced, and the delays
  of a good delayer stay between two bounds.\<close>

locale delayer =
  fixes next_delay :: "'d \<Rightarrow> rat" and wait_delay :: "'d \<Rightarrow> rat \<times> 'd" and good :: "'d \<Rightarrow> bool"
    and lowest highest :: rat
  assumes announced: "fst (wait_delay d) = next_delay d"
    and bounded: "good d \<Longrightarrow> lowest \<le> next_delay d \<and> next_delay d \<le> highest"
    and stays_good: "good d \<Longrightarrow> good (snd (wait_delay d))"
begin

lemma delays_stay_bounded:
  assumes "good (rt_delayer rt)"
  shows "lowest \<le> delay_after wait_delay rt n \<and> delay_after wait_delay rt n \<le> highest"
proof -
  have "good (((snd \<circ> wait_delay) ^^ n) (rt_delayer rt))" by (induction n) (simp_all add: assms stays_good)
  then show ?thesis using bounded by (simp add: delay_after_def announced)
qed

lemma announced_delays:
  assumes "retries_try next_delay wait_delay fn rt s = Some out" and "AttemptDelay a d \<in> set (snd (snd (snd out)))"
  shows "rt_attempt rt \<le> a \<and> d = delay_after wait_delay rt (a - rt_attempt rt)"
proof -
  have "\<forall>out. retries_try next_delay wait_delay fn rt s = Some out \<longrightarrow> AttemptDelay a d \<in> set (snd (snd (snd out))) \<longrightarrow>
      rt_attempt rt \<le> a \<and> d = delay_after wait_delay rt (a - rt_attempt rt)"
    using assms(1)
  proof (induction rule: try_induct)
    case (finished rt s)
    then show ?case using try_ends [OF finished, of next_delay wait_delay] by auto
  next
    case (again rt s)
    have shift: "Suc (rt_attempt rt) \<le> a \<Longrightarrow> delay_after wait_delay (next_retries wait_delay rt) (a - Suc (rt_attempt rt)) =
        delay_after wait_delay rt (a - rt_attempt rt)"
      by (simp add: delay_after_next Suc_diff_le [symmetric])
    have first: "next_delay (rt_delayer rt) = delay_after wait_delay rt 0" by (simp add: delay_after_def announced)
    obtain err where step:
      "retries_try next_delay wait_delay fn rt s =
         Option.bind (retries_try next_delay wait_delay fn (next_retries wait_delay rt) (fst (fn s (rt_attempt rt))))
           (\<lambda>(res, rt', s', evs').
              Some (res, rt', s',
                [AttemptStarted (rt_attempt rt), AttemptFailed (rt_attempt rt) False False err,
                 AttemptDelay (rt_attempt rt) (next_delay (rt_delayer rt))] @ evs'))"
      by (rule try_continues [OF again(1)])
    show ?case
      unfolding step using again(2) shift first by (fastforce simp: bind_eq_Some_conv)
  qed
  then show ?thesis using assms by blast
qed

end

text \<open>The exponential delayer keeps its delay between the bounds when it starts there and grows; the lower
  bound is a number of the machine.\<close>

definition sane_delays :: "delayer_opts \<Rightarrow> bool" where
  "sane_delays opts \<longleftrightarrow>
     0 \<le> do_minDelay opts \<and> do_minDelay opts \<le> do_maxDelay opts \<and> 1 \<le> do_factor opts
     \<and> fl (do_minDelay opts) = do_minDelay opts"

definition good_exponential :: "delayer_opts \<Rightarrow> exponential \<Rightarrow> bool" where
  "good_exponential opts d \<longleftrightarrow>
     ex_opts d = opts \<and> sane_delays opts \<and> do_minDelay opts \<le> ex_delay d \<and> ex_delay d \<le> do_maxDelay opts"

lemma good_exponential_advance:
  assumes "good_exponential opts d"
  shows "good_exponential opts (exponential_advanceDelay d)"
proof -
  have bounds: "0 \<le> do_minDelay opts" "do_minDelay opts \<le> ex_delay d" "1 \<le> do_factor opts"
    "fl (do_minDelay opts) = do_minDelay opts"
    using assms by (simp_all add: good_exponential_def sane_delays_def)
  have "do_minDelay opts * 1 \<le> ex_delay d * do_factor opts"
    using bounds by (intro mult_mono) simp_all
  then have "do_minDelay opts \<le> js_mul (ex_delay d) (do_factor opts)"
    using fl_mono [of "do_minDelay opts" "ex_delay d * do_factor opts"] bounds(4) by simp
  then show ?thesis
    using assms by (auto simp: good_exponential_def exponential_advanceDelay_def sane_delays_def)
qed

interpretation exponential_delays: delayer exponential_nextDelay exponential_wait "good_exponential opts"
    "do_minDelay opts" "do_maxDelay opts" for opts
  by unfold_locales
    (auto simp: exponential_nextDelay_def exponential_wait_def good_exponential_advance, auto simp: good_exponential_def)

lemma good_exponential_new: "sane_delays opts \<Longrightarrow> good_exponential opts (exponential_new opts)"
  by (simp add: good_exponential_def exponential_new_def sane_delays_def)

text \<open>C18: when the least delay is a machine number, at least zero and at most the greatest delay, and the factor is at least
  one, every delay that \<open>Retries\<close> waits is between the least and the greatest, rounding included, also while the loop goes
  on for ever; and when the loop returns, the delay it announced for attempt \<open>a\<close> is the one waited after that attempt.\<close>

theorem exponential_delays_bounded:
  assumes "sane_delays \<lparr>do_maxDelay = maxDelay, do_minDelay = minDelay, do_factor = factor\<rparr>"
    and "retries_newExponential limit factor maxDelay minDelay = rt"
  shows "minDelay \<le> delay_after exponential_wait rt n \<and> delay_after exponential_wait rt n \<le> maxDelay
    \<and> (case retries_try exponential_nextDelay exponential_wait fn rt s of None \<Rightarrow> True
       | Some (res, rt', s', evs) \<Rightarrow>
           \<forall>a d. AttemptDelay a d \<in> set evs \<longrightarrow> 1 \<le> a \<and> d = delay_after exponential_wait rt (a - 1))"
proof -
  let ?opts = "\<lparr>do_maxDelay = maxDelay, do_minDelay = minDelay, do_factor = factor\<rparr>"
  have rt: "rt_delayer rt = exponential_new ?opts" "rt_attempt rt = 1"
    using assms(2) by (auto simp: retries_newExponential_def retries_new_def)
  have "good_exponential ?opts (rt_delayer rt)" unfolding rt(1) by (rule good_exponential_new [OF assms(1)])
  then have "minDelay \<le> delay_after exponential_wait rt n \<and> delay_after exponential_wait rt n \<le> maxDelay"
    using exponential_delays.delays_stay_bounded [of ?opts rt n] by simp
  then show ?thesis using exponential_delays.announced_delays [of fn rt s] rt(2) by (auto split: option.split)
qed

theorem exponential_delays_bounded_witness:
  "delay_after exponential_wait (retries_newExponential None (8 / 5) 7000 1000) 20 \<le> 7000
   \<and> (\<exists>res rt' s' evs. retries_try exponential_nextDelay exponential_wait (fail_until 1)
        (retries_newExponential (Some 3) (8 / 5) 7000 1000) 0 = Some (res, rt', s', evs) \<and> AttemptDelay 1 1000 \<in> set evs)"
proof -
  have sane: "sane_delays \<lparr>do_maxDelay = 7000, do_minDelay = 1000, do_factor = 8 / 5\<rparr>"
    using fl_of_int [of 1000] by (simp add: sane_delays_def)
  have "\<exists>res rt' s' evs. retries_try exponential_nextDelay exponential_wait (fail_until 1)
      (retries_newExponential (Some 3) (8 / 5) 7000 1000) 0 = Some (res, rt', s', evs) \<and> AttemptDelay 1 1000 \<in> set evs"
    by (subst retries_try.simps, subst retries_try.simps)
      (simp add: retries_newExponential_def retries_new_def retries_canDoAttempt_def retries_isLastAttempt_def
        fail_until_def retries_wait_def exponential_nextDelay_def exponential_new_def Let_def)
  then show ?thesis using exponential_delays_bounded [OF sane refl, of None 20 "fail_until 1" 0] by blast
qed

section \<open>What a success leaves behind\<close>

text \<open>a success does not reset the attempts: the next \<open>try\<close> of the same retries counts on from the attempt
  that succeeded and reports that attempt again, and of the limit only what is left remains.\<close>

theorem success_keeps_attempt:
  assumes "retries_try nd w fn rt s = Some (Returned r, rt', s', evs)"
    and "fn s' (rt_attempt rt') = (s'', stop, Inr r')"
  shows "retries_try nd w fn rt' s' =
      Some (Returned r', rt', s'', [AttemptStarted (rt_attempt rt'), AttemptSuccess (rt_attempt rt')])
    \<and> rt_attempt rt' + 1 = rt_attempt rt + length (filter started evs)"
proof -
  have "\<forall>r rt' s' evs. retries_try nd w fn rt s = Some (Returned r, rt', s', evs) \<longrightarrow>
      retries_canDoAttempt rt' \<and> rt_attempt rt' + 1 = rt_attempt rt + length (filter started evs)"
    using assms(1)
  proof (induction rule: try_induct)
    case (finished rt s)
    show ?case
    proof (intro allI impI)
      fix r rt' s' evs
      assume out: "retries_try nd w fn rt s = Some (Returned r, rt', s', evs)"
      then have "rt' = rt" "evs = [AttemptStarted (rt_attempt rt), AttemptSuccess (rt_attempt rt)]"
        using try_ends [OF finished, of nd w] by auto
      moreover have "retries_canDoAttempt rt"
      proof (rule ccontr)
        assume "\<not> retries_canDoAttempt rt"
        then show False using out by (simp add: retries_try.simps)
      qed
      ultimately show "retries_canDoAttempt rt' \<and> rt_attempt rt' + 1 = rt_attempt rt + length (filter started evs)"
        by (simp add: started_def)
    qed
  next
    case (again rt s)
    obtain err where step:
      "retries_try nd w fn rt s =
         Option.bind (retries_try nd w fn (next_retries w rt) (fst (fn s (rt_attempt rt))))
           (\<lambda>(res, rt', s', evs').
              Some (res, rt', s',
                [AttemptStarted (rt_attempt rt), AttemptFailed (rt_attempt rt) False False err,
                 AttemptDelay (rt_attempt rt) (nd (rt_delayer rt))] @ evs'))"
      by (rule try_continues [OF again(1)])
    show ?case
      unfolding step using again(2) by (fastforce simp: bind_eq_Some_conv started_def)
  qed
  then have "retries_canDoAttempt rt'" "rt_attempt rt' + 1 = rt_attempt rt + length (filter started evs)"
    using assms(1) by blast+
  then show ?thesis using assms(2) by (subst retries_try.simps) (simp add: Let_def)
qed

theorem success_keeps_attempt_witness:
  "let rt = retries_new () (Some 3)
   in retries_try (\<lambda>_. 1) (\<lambda>d. (1, d)) (fail_until 1) (rt\<lparr>rt_attempt := 2\<rparr>) 2 =
        Some (Returned 2, rt\<lparr>rt_attempt := 2\<rparr>, 3, [AttemptStarted 2, AttemptSuccess 2])"
proof -
  let ?rt = "retries_new () (Some 3)"
  have first: "retries_try (\<lambda>_. 1) (\<lambda>d. (1, d)) (fail_until 1) ?rt 0 =
      Some (Returned 1, ?rt\<lparr>rt_attempt := 2\<rparr>, 2,
        [AttemptStarted 1, AttemptFailed 1 False False ''connection refused'', AttemptDelay 1 1,
         AttemptStarted 2, AttemptSuccess 2])"
    by (subst retries_try.simps, subst retries_try.simps)
      (simp add: retries_new_def retries_canDoAttempt_def retries_isLastAttempt_def fail_until_def retries_wait_def
        Let_def)
  have again: "fail_until 1 2 (rt_attempt (?rt\<lparr>rt_attempt := 2\<rparr>)) = (3, False, Inr 2)"
    by (simp add: fail_until_def)
  show ?thesis using success_keeps_attempt [OF first again] by (simp add: Let_def)
qed

end
