(* ===== verification/Data_Service_Map.thy ===== *)
theory Data_Service_Map
  imports Data_Controls Retry
begin

text \<open>
  \<open>src/data-layer/service-map.ts\<close> with the wiring of \<open>src/data-layer/data-layer.ts\<close> and of the handler of
  changed filters in \<open>src/ui-layer/ui-layer.ts\<close>: the stream of the service map, and when it is stopped
  and made anew.  All streams ever made are kept in a list; \<open>es_attached\<close> says that the handlers of this
  class are registered, \<open>es_live\<close> that the stream runs.  The asynchronous methods are cut at each
  \<open>await\<close>: what is left to do is a value in the list of pending continuations, and a step resolves any
  one of them, so that every interleaving is a run.  The emitted events are recorded in order.
  \<open>enablePoliciesFetch\<close>, which nothing calls, is left out, so the streams carry the standard event flags.
\<close>

section \<open>State\<close>

record event_stream =
  es_filters :: filters
  es_params :: event_params
  es_attached :: bool
  es_live :: bool

datatype connect_event_kind =
    ConnectEvent_Failed | ConnectEvent_AttemptDelay | ConnectEvent_Success | ConnectEvent_Disconnected

record connect_event =
  cv_kind :: connect_event_kind
  cv_attempt :: "nat option"
  cv_delay :: "rat option"
  cv_error :: "request_error option"
  cv_isAllReconnected :: "bool option"

definition connectEvent_new :: "connect_event_kind \<Rightarrow> connect_event" where
  "connectEvent_new kind =
     \<lparr>cv_kind = kind, cv_attempt = None, cv_delay = None, cv_error = None, cv_isAllReconnected = None\<rparr>"

datatype data_event =
    FlowsDiff nat
  | FlowFiltersShouldBeChanged "filter_entry list"
  | Connected connect_event

text \<open>What the callers of \<open>dropDataFetch\<close> do when it returns, and the points where a method waits: for the
  stop of a stream, for \<open>dropDataFetch\<close> itself, or for the delay before a stream is made anew.\<close>

datatype after_drop = Then_Done | Then_Ensure data_mode | Then_Refilter filters_diff

datatype pending = Stopping nat after_drop | Dropped after_drop | Reconnecting

record data_layer =
  da_store :: main_store
  da_transfer :: transfer_state
  da_retries :: "exponential retries"
  da_streams :: "event_stream list"
  da_stream :: "nat option"
  da_pending :: "pending list"
  da_events :: "data_event list"

definition data_layer_new :: "main_store \<Rightarrow> data_layer" where
  "data_layer_new ms =
     \<lparr>da_store = ms, da_transfer = transfer_new,
      da_retries = retries_newExponential None (fl (8 / 5)) 7000 1000,
      da_streams = [], da_stream = None, da_pending = [], da_events = []\<rparr>"

definition da_emit :: "data_event \<Rightarrow> data_layer \<Rightarrow> data_layer" where
  "da_emit ev st = st\<lparr>da_events := da_events st @ [ev]\<rparr>"

definition da_wait :: "pending \<Rightarrow> data_layer \<Rightarrow> data_layer" where
  "da_wait p st = st\<lparr>da_pending := da_pending st @ [p]\<rparr>"

definition da_modify :: "nat \<Rightarrow> (event_stream \<Rightarrow> event_stream) \<Rightarrow> data_layer \<Rightarrow> data_layer" where
  "da_modify i f st = st\<lparr>da_streams := (da_streams st)[i := f (da_streams st ! i)]\<rparr>"

section \<open>Making and dropping the stream\<close>

definition isAppActive :: "data_layer \<Rightarrow> bool" where
  "isAppActive st \<longleftrightarrow> da_stream st \<noteq> None"

definition ensureLiveStream :: "data_layer \<Rightarrow> data_layer" where
  "ensureLiveStream st =
     (if da_stream st \<noteq> None then st
      else st\<lparr>da_stream := Some (length (da_streams st)),
              da_streams := da_streams st @
                [\<lparr>es_filters = store_filters (da_store st), es_params = eventStream_params,
                  es_attached = True, es_live = True\<rparr>]\<rparr>)"

definition ensureDataFetch :: "data_mode option \<Rightarrow> data_layer \<Rightarrow> data_layer" where
  "ensureDataFetch forDataMode st =
     (let dm = (case forDataMode of Some m \<Rightarrow> m | None \<Rightarrow> ts_dataMode (da_transfer st))
      in if dm = DataMode_CiliumStreaming then ensureLiveStream st else st)"

text \<open>\<open>dropReconnectState\<close> and the reset of the retries, which end \<open>dropDataFetch\<close> and other methods.\<close>

definition da_forgetReconnect :: "data_layer \<Rightarrow> data_layer" where
  "da_forgetReconnect st =
     st\<lparr>da_transfer := fst (transfer_dropReconnectState StreamKind_Event (da_transfer st)),
        da_retries := retries_reset exponential_reset (da_retries st)\<rparr>"

text \<open>\<open>dropDataFetch\<close> up to its first wait; \<open>k\<close> is what the caller does afterwards.\<close>

definition dropDataFetch :: "after_drop \<Rightarrow> data_layer \<Rightarrow> data_layer" where
  "dropDataFetch k st =
     (case da_stream st of
        Some i \<Rightarrow> da_wait (Stopping i k) (da_modify i (\<lambda>s. s\<lparr>es_attached := False\<rparr>) st)
      | None \<Rightarrow> da_wait (Dropped k) (da_forgetReconnect st))"

text \<open>The rest of \<open>dropDataFetch\<close>, once the stream has stopped.\<close>

definition streamStopped :: "nat \<Rightarrow> after_drop \<Rightarrow> data_layer \<Rightarrow> data_layer" where
  "streamStopped i k st =
     da_wait (Dropped k)
       (da_forgetReconnect ((da_modify i (\<lambda>s. s\<lparr>es_live := False\<rparr>) st)\<lparr>da_stream := None\<rparr>))"

definition resetDataFetch :: "data_mode option \<Rightarrow> data_layer \<Rightarrow> data_layer" where
  "resetDataFetch dm st =
     dropDataFetch (Then_Ensure (case dm of Some m \<Rightarrow> m | None \<Rightarrow> ts_dataMode (da_transfer st))) st"

definition switchToDataMode :: "data_mode \<Rightarrow> data_layer \<Rightarrow> data_layer" where
  "switchToDataMode dm st = resetDataFetch (Some dm) st"

definition appOpened :: "data_layer \<Rightarrow> data_layer" where
  "appOpened st =
     ensureDataFetch
       (Some (if transfer_isDisabled (da_transfer st) then DataMode_CiliumStreaming
              else ts_dataMode (da_transfer st))) st"

definition filtersChanged :: "filters_diff \<Rightarrow> data_layer \<Rightarrow> data_layer" where
  "filtersChanged f st = (if \<not> isAppActive st then st else dropDataFetch (Then_Refilter f) st)"

text \<open>The rest of \<open>filtersChanged\<close>, once the data fetch is dropped.\<close>

definition refilter ::
  "uniq_by \<Rightarrow> (string \<Rightarrow> parsed_url) \<Rightarrow> int \<Rightarrow> filters_diff \<Rightarrow> data_layer \<Rightarrow> data_layer" where
  "refilter uniqBy up now f st =
     (let ms = da_store st;
          ms1 = (if filtersDiff_podFiltersChanged f \<or> diff_changed (=) (fd_namespace f)
                 then store_flush uniqBy up now
                   (Some \<lparr>fo_namespaces = None, fo_globalFrame = Some True, fo_preserveActiveCards = None\<rparr>) ms
                 else ms);
          ms2 = store_resetCurrentFrame uniqBy up now (store_filters ms1)
                  (Some \<lparr>fo_namespaces = None, fo_globalFrame = None, fo_preserveActiveCards = Some True\<rparr>) ms1
      in ensureDataFetch None (st\<lparr>da_store := ms2\<rparr>))"

section \<open>Reconnecting\<close>

text \<open>The state of the reconnection is updated from the old one, or from the defaults.\<close>

definition da_updateReconnect ::
  "(reconnect_state option \<Rightarrow> reconnect_state \<Rightarrow> reconnect_state) \<Rightarrow> data_layer \<Rightarrow> data_layer \<times> reconnect_state" where
  "da_updateReconnect f st =
     (let (ts, rs) = transfer_updateReconnectState StreamKind_Event
            (\<lambda>existing defaults. f existing (case existing of None \<Rightarrow> defaults | Some e \<Rightarrow> e)) (da_transfer st)
      in (st\<lparr>da_transfer := ts\<rparr>, rs))"

definition handleReconnectFail :: "nat \<Rightarrow> request_error \<Rightarrow> data_layer \<Rightarrow> data_layer" where
  "handleReconnectFail attempt err st =
     da_emit (Connected ((connectEvent_new ConnectEvent_Failed)\<lparr>cv_attempt := Some attempt, cv_error := Some err\<rparr>))
       (fst (da_updateReconnect (\<lambda>_ s. s\<lparr>rs_attempt := attempt, rs_lastError := Some err\<rparr>) st))"

definition handleReconnectDelay :: "nat \<Rightarrow> rat \<Rightarrow> data_layer \<Rightarrow> data_layer" where
  "handleReconnectDelay attempt delay st =
     da_emit (Connected ((connectEvent_new ConnectEvent_AttemptDelay)\<lparr>cv_attempt := Some attempt, cv_delay := Some delay\<rparr>))
       (fst (da_updateReconnect (\<lambda>_ s. s\<lparr>rs_attempt := attempt, rs_delay := Some delay\<rparr>) st))"

definition handleReconnected :: "nat \<Rightarrow> data_layer \<Rightarrow> data_layer" where
  "handleReconnected att st =
     (if att = 1 then st
      else let states = ts_reconnectStates (da_transfer st);
               isAllReconnected = (length states = 1 \<and> map_has states StreamKind_Event)
           in da_emit (Connected ((connectEvent_new ConnectEvent_Success)
                \<lparr>cv_attempt := Some att, cv_isAllReconnected := Some isAllReconnected\<rparr>)) (da_forgetReconnect st))"

text \<open>\<open>handleTerminated\<close> up to its wait.  The reported attempt is that of the state before the update.\<close>

definition handleTerminated :: "bool \<Rightarrow> data_layer \<Rightarrow> data_layer" where
  "handleTerminated isStopped st =
     (if isStopped then da_forgetReconnect st
      else case da_stream st of
             None \<Rightarrow> st
           | Some i \<Rightarrow>
               (let st1 = da_emit (Connected (connectEvent_new ConnectEvent_Disconnected)) st;
                    st2 = (da_modify i (\<lambda>s. s\<lparr>es_live := False, es_attached := False\<rparr>) st1)\<lparr>da_stream := None\<rparr>;
                    nextDelay = retries_nextDelay exponential_nextDelay (da_retries st2);
                    (st3, state) = da_updateReconnect
                      (\<lambda>old s. s\<lparr>rs_attempt := (case old of None \<Rightarrow> 0 | Some e \<Rightarrow> rs_attempt e) + 1,
                                 rs_delay := Some nextDelay\<rparr>) st2;
                    st4 = da_emit (Connected ((connectEvent_new ConnectEvent_AttemptDelay)
                            \<lparr>cv_attempt := Some (rs_attempt state), cv_delay := Some nextDelay\<rparr>)) st3
                in da_wait Reconnecting (st4\<lparr>da_retries := retries_wait exponential_wait (da_retries st4)\<rparr>)))"

text \<open>The rest of \<open>handleTerminated\<close>, after the delay.\<close>

definition reconnectDelayed :: "data_layer \<Rightarrow> data_layer" where
  "reconnectDelayed st =
     (if map_get (ts_reconnectStates (da_transfer st)) StreamKind_Event = None
      then st\<lparr>da_retries := retries_reset exponential_reset (da_retries st)\<rparr>
      else ensureLiveStream st)"

section \<open>What reaches the data layer\<close>

text \<open>The events of a stream.\<close>

datatype stream_report =
    SR_Map service_map_event
  | SR_AttemptFailed nat request_error
  | SR_Attempt nat rat
  | SR_Reconnected nat
  | SR_Terminated bool

definition handleFlows :: "uniq_by \<Rightarrow> (string \<Rightarrow> parsed_url) \<Rightarrow> int \<Rightarrow> flow list \<Rightarrow> data_layer \<Rightarrow> data_layer" where
  "handleFlows uniqBy up now flows st =
     (let (ms, _, flowsDiffCount) = current_addFlows uniqBy up now flows True (da_store st)
      in da_emit (FlowsDiff flowsDiffCount) (st\<lparr>da_store := ms\<rparr>))"

definition streamReported ::
  "uniq_by \<Rightarrow> (string \<Rightarrow> parsed_url) \<Rightarrow> int \<Rightarrow> stream_report \<Rightarrow> data_layer \<Rightarrow> data_layer" where
  "streamReported uniqBy up now r st =
     (case r of
        SR_Map (SM_Services svcs) \<Rightarrow> st\<lparr>da_store := current_applyServiceChanges uniqBy up now svcs (da_store st)\<rparr>
      | SR_Map (SM_ServiceLinks links) \<Rightarrow>
          st\<lparr>da_store := current_applyServiceLinkChanges uniqBy up now links (da_store st)\<rparr>
      | SR_Map (SM_Flows flows) \<Rightarrow> handleFlows uniqBy up now flows st
      | SR_Map _ \<Rightarrow> st
      | SR_AttemptFailed att err \<Rightarrow> handleReconnectFail att err st
      | SR_Attempt att d \<Rightarrow> handleReconnectDelay att d st
      | SR_Reconnected att \<Rightarrow> handleReconnected att st
      | SR_Terminated isStopped \<Rightarrow> handleTerminated isStopped st)"

text \<open>The events of the controls: each difference of filters goes to \<open>filtersChanged\<close>.\<close>

definition controlsReported :: "main_store \<times> controls_event list \<Rightarrow> data_layer \<Rightarrow> data_layer" where
  "controlsReported r st = fold filtersChanged (reported (snd r)) (st\<lparr>da_store := fst r\<rparr>)"

definition toggleActiveCardFilterEntry :: "string \<Rightarrow> data_layer \<Rightarrow> data_layer" where
  "toggleActiveCardFilterEntry cardId st =
     (case services_byId (sf_services (ms_current (da_store st))) cardId of
        None \<Rightarrow> st
      | Some crd \<Rightarrow>
          (let controls = store_controls (da_store st);
               entries = card_filterEntries crd;
               isActive = controls_areSomeFilterEntriesEnabled entries controls;
               (incl, excl) = (if \<not> isActive then (entries, []) else ([], entries));
               (flowFilters, isChanged) = fe_combine (controls_filteredFlowFilters controls) incl excl
           in if \<not> isChanged then st
              else controlsReported (dl_setFlowFilters (Some flowFilters) (da_store st))
                     (da_emit (FlowFiltersShouldBeChanged flowFilters) st)))"

definition pendingResolved ::
  "uniq_by \<Rightarrow> (string \<Rightarrow> parsed_url) \<Rightarrow> int \<Rightarrow> pending \<Rightarrow> data_layer \<Rightarrow> data_layer" where
  "pendingResolved uniqBy up now p st =
     (case p of
        Stopping i k \<Rightarrow> streamStopped i k st
      | Dropped Then_Done \<Rightarrow> st
      | Dropped (Then_Ensure dm) \<Rightarrow> ensureDataFetch (Some dm) st
      | Dropped (Then_Refilter f) \<Rightarrow> refilter uniqBy up now f st
      | Reconnecting \<Rightarrow> reconnectDelayed st)"

datatype data_label =
    DA_AppOpened
  | DA_SetDataMode data_mode "connection_state option"
  | DA_Reset "data_mode option"
  | DA_Drop
  | DA_Control controls_action
  | DA_Namespace int "string option"
  | DA_ToggleCard string
  | DA_ControlEvent control_event
  | DA_Report nat int stream_report
  | DA_Resolve nat int

definition data_step ::
  "uniq_by \<Rightarrow> (string \<Rightarrow> parsed_url) \<Rightarrow> data_label \<Rightarrow> data_layer \<Rightarrow> data_layer option" where
  "data_step uniqBy up lab st =
     (case lab of
        DA_AppOpened \<Rightarrow> Some (appOpened st)
      | DA_SetDataMode dm cs \<Rightarrow> Some (st\<lparr>da_transfer := dl_setDataMode dm cs (da_transfer st)\<rparr>)
      | DA_Reset dm \<Rightarrow> Some (resetDataFetch dm st)
      | DA_Drop \<Rightarrow> Some (dropDataFetch Then_Done st)
      | DA_Control act \<Rightarrow> Some (controlsReported (dl_perform act (da_store st)) st)
      | DA_Namespace now ns \<Rightarrow> Some (controlsReported (dl_setCurrentNamespace uniqBy up now ns (da_store st)) st)
      | DA_ToggleCard i \<Rightarrow> Some (toggleActiveCardFilterEntry i st)
      | DA_ControlEvent ev \<Rightarrow>
          (let (ms, ts) = dl_controlEvent ev (da_store st, da_transfer st)
           in Some (st\<lparr>da_store := ms, da_transfer := ts\<rparr>))
      | DA_Report i now r \<Rightarrow>
          if i < length (da_streams st) \<and> es_attached (da_streams st ! i)
          then Some (streamReported uniqBy up now r st) else None
      | DA_Resolve n now \<Rightarrow>
          if n < length (da_pending st)
          then Some (pendingResolved uniqBy up now (da_pending st ! n)
                 (st\<lparr>da_pending := take n (da_pending st) @ drop (Suc n) (da_pending st)\<rparr>))
          else None)"

fun data_steps ::
  "uniq_by \<Rightarrow> (string \<Rightarrow> parsed_url) \<Rightarrow> data_label list \<Rightarrow> data_layer \<Rightarrow> data_layer option" where
  "data_steps uniqBy up [] st = Some st"
| "data_steps uniqBy up (lab # labs) st =
     Option.bind (data_step uniqBy up lab st) (data_steps uniqBy up labs)"

section \<open>What leaves the filters alone\<close>

lemma store_filters_frames [simp]:
  "store_filters (ms\<lparr>ms_current := x\<rparr>) = store_filters ms"
  "store_filters (ms\<lparr>ms_global := x\<rparr>) = store_filters ms"
  "store_filters (ms\<lparr>ms_shared := (ms_shared ms)\<lparr>sh_counters := c\<rparr>\<rparr>) = store_filters ms"
  "store_filters (ms\<lparr>ms_shared := (ms_shared ms)\<lparr>sh_controls := controls_selectTableFlow fl' (sh_controls (ms_shared ms))\<rparr>\<rparr>) =
     store_filters ms"
  by (simp_all add: store_filters_def Let_def controls_selectTableFlow_def)

lemma current_namespace_name [simp]:
  "map_option nd_namespace (namespaces_current st) = ns_currentNamespace st"
  by (cases "ns_currentNamespace st") (simp_all add: namespaces_current_def namespaces_get_def)

lemma frame_flush_shared [simp]:
  "sh_controls (fst (snd (frame_flush opts fr sh))) = sh_controls sh"
  "ns_currentNamespace (sh_namespaces (fst (snd (frame_flush opts fr sh)))) = ns_currentNamespace (sh_namespaces sh)"
  by (simp_all add: frame_flush_def Let_def namespaces_clear_def)

lemma store_filters_current_flush [simp]: "store_filters (current_flush uniqBy up now opts ms) = store_filters ms"
  by (simp add: current_flush_eq split_def Let_def store_filters_def)

lemma store_filters_flush [simp]: "store_filters (store_flush uniqBy up now opts ms) = store_filters ms"
  by (simp add: store_flush_def split_def Let_def)
    (simp add: store_filters_def Let_def controls_selectTableFlow_def)

lemma store_filters_reset [simp]:
  "store_filters (store_resetCurrentFrame uniqBy up now fs opts ms) = store_filters ms"
  by (simp add: store_resetCurrentFrame_def Let_def)

lemma store_filters_messages [simp]:
  "store_filters (fst (current_addFlows uniqBy up now fs d ms)) = store_filters ms"
  "store_filters (current_applyServiceChanges uniqBy up now chs ms) = store_filters ms"
  "store_filters (current_applyServiceLinkChanges uniqBy up now links ms) = store_filters ms"
  by (simp_all add: message_eqs Let_def split_def) (simp_all add: store_filters_def)

lemma store_filters_namespace_change [simp]:
  "store_filters (store_applyNamespaceChange ns ch ms) = store_filters ms"
  by (simp add: store_applyNamespaceChange_def store_filters_def namespaces_applyChange_def namespaces_set_def Let_def)

lemma controlEvent_filters [simp]: "store_filters (fst (dl_controlEvent ev s)) = store_filters (fst s)"
proof -
  have "store_filters (fold (\<lambda>(ns, ch). store_applyNamespaceChange ns ch) chs ms) = store_filters ms" for chs ms
    by (induction chs arbitrary: ms) (simp_all add: split_def)
  then show ?thesis by (simp add: dl_controlEvent_def split: prod.split control_event.split)
qed

section \<open>One stream at a time\<close>

text \<open>The streams whose stop is awaited.\<close>

definition stops :: "data_layer \<Rightarrow> nat list" where
  "stops st = List.map_filter (\<lambda>p. case p of Stopping i k \<Rightarrow> Some i | _ \<Rightarrow> None) (da_pending st)"

definition attached :: "data_layer \<Rightarrow> nat \<Rightarrow> bool" where
  "attached st i \<longleftrightarrow> i < length (da_streams st) \<and> es_attached (da_streams st ! i)"

text \<open>Only the current stream runs; a stream whose stop is awaited is the current one and is detached.\<close>

definition one_stream :: "data_layer \<Rightarrow> bool" where
  "one_stream st \<longleftrightarrow>
     (\<forall>i < length (da_streams st).
        (es_live (da_streams st ! i) \<longrightarrow> da_stream st = Some i)
        \<and> (es_attached (da_streams st ! i) \<longrightarrow> es_live (da_streams st ! i)))
     \<and> (\<forall>i. da_stream st = Some i \<longrightarrow> i < length (da_streams st))
     \<and> (stops st = []
        \<or> (\<exists>i. stops st = [i] \<and> da_stream st = Some i \<and> \<not> es_attached (da_streams st ! i)))"

text \<open>A stream that reports to the data layer was asked for what the filters of the store say.\<close>

definition up_to_date :: "data_layer \<Rightarrow> bool" where
  "up_to_date st \<longleftrightarrow>
     wf_filters (store_filters (da_store st))
     \<and> (\<forall>i. attached st i \<longrightarrow>
          wf_filters (es_filters (da_streams st ! i))
          \<and> filters_equals (es_filters (da_streams st ! i)) (store_filters (da_store st)))"

lemma one_stream_same:
  "da_streams st' = da_streams st \<Longrightarrow> da_stream st' = da_stream st \<Longrightarrow> stops st' = stops st \<Longrightarrow>
     one_stream st' = one_stream st"
  by (simp only: one_stream_def)

lemma stops_wait [simp]:
  "stops (da_wait (Stopping i k) st) = stops st @ [i]" "stops (da_wait (Dropped k) st) = stops st"
  "stops (da_wait Reconnecting st) = stops st"
  by (simp_all add: stops_def da_wait_def map_filter_def)

lemma data_fields [simp]:
  "da_streams (da_wait p st) = da_streams st" "da_stream (da_wait p st) = da_stream st" "da_store (da_wait p st) = da_store st"
  "da_streams (da_emit ev st) = da_streams st" "da_stream (da_emit ev st) = da_stream st" "da_store (da_emit ev st) = da_store st"
  "da_transfer (da_emit ev st) = da_transfer st" "da_pending (da_emit ev st) = da_pending st"
  "da_streams (da_forgetReconnect st) = da_streams st" "da_stream (da_forgetReconnect st) = da_stream st"
  "da_store (da_forgetReconnect st) = da_store st" "da_pending (da_forgetReconnect st) = da_pending st"
  "da_streams (fst (da_updateReconnect f st)) = da_streams st" "da_stream (fst (da_updateReconnect f st)) = da_stream st"
  "da_store (fst (da_updateReconnect f st)) = da_store st" "da_pending (fst (da_updateReconnect f st)) = da_pending st"
  "da_stream (da_modify i g st) = da_stream st" "da_store (da_modify i g st) = da_store st"
  "da_pending (da_modify i g st) = da_pending st" "da_transfer (da_modify i g st) = da_transfer st"
  "da_streams (da_modify i g st) = (da_streams st)[i := g (da_streams st ! i)]"
  by (simp_all add: da_wait_def da_emit_def da_forgetReconnect_def da_updateReconnect_def da_modify_def split_def
      Let_def)

lemma stops_same: "da_pending st' = da_pending st \<Longrightarrow> stops st' = stops st"
  by (simp add: stops_def)

lemma stops_updates [simp]:
  "stops (st\<lparr>da_store := ms\<rparr>) = stops st" "stops (st\<lparr>da_transfer := ts\<rparr>) = stops st"
  "stops (st\<lparr>da_retries := r\<rparr>) = stops st" "stops (st\<lparr>da_stream := s\<rparr>) = stops st"
  "stops (st\<lparr>da_streams := ss\<rparr>) = stops st" "stops (da_emit ev st) = stops st"
  "stops (da_forgetReconnect st) = stops st" "stops (fst (da_updateReconnect f st)) = stops st"
  "stops (da_modify i g st) = stops st"
  by (auto intro: stops_same)

lemma ensureLiveStream_one:
  assumes "one_stream st"
  shows "one_stream (ensureLiveStream st)"
proof (cases "da_stream st")
  case None
  have "stops st = []" using assms None by (auto simp: one_stream_def)
  moreover have "stops (ensureLiveStream st) = stops st" by (intro stops_same) (simp add: ensureLiveStream_def)
  moreover have "\<not> es_live (da_streams st ! i)" "\<not> es_attached (da_streams st ! i)" if "i < length (da_streams st)" for i
    using assms None that by (auto simp: one_stream_def)
  ultimately show ?thesis
    using None by (auto simp: one_stream_def ensureLiveStream_def nth_append less_Suc_eq)
qed (use assms in \<open>simp add: ensureLiveStream_def\<close>)

lemma ensureLiveStream_fresh: "up_to_date st \<Longrightarrow> up_to_date (ensureLiveStream st)"
  using filters_equals_equivalence(1) [of "store_filters (da_store st)"]
  by (auto simp: up_to_date_def attached_def ensureLiveStream_def nth_append less_Suc_eq)

lemma ensureDataFetch_inv:
  "one_stream st \<Longrightarrow> one_stream (ensureDataFetch dm st)" "up_to_date st \<Longrightarrow> up_to_date (ensureDataFetch dm st)"
  by (simp_all add: ensureDataFetch_def Let_def ensureLiveStream_one ensureLiveStream_fresh)

lemma dropDataFetch_inv:
  assumes "one_stream st" "stops st = []"
  shows "one_stream (dropDataFetch k st)" "\<not> attached (dropDataFetch k st) i"
proof -
  show "one_stream (dropDataFetch k st)"
    using assms by (cases "da_stream st") (auto simp: dropDataFetch_def one_stream_def nth_list_update)
  show "\<not> attached (dropDataFetch k st) i"
    using assms
    by (cases "da_stream st") (auto simp: dropDataFetch_def one_stream_def attached_def nth_list_update)
qed

lemma filtersChanged_inv:
  assumes "one_stream st" "stops st = []"
  shows "one_stream (filtersChanged f st)" "\<not> attached (filtersChanged f st) i"
proof -
  have none: "\<not> attached st i" if "da_stream st = None"
    using assms(1) that unfolding one_stream_def attached_def by fastforce
  show "one_stream (filtersChanged f st)" "\<not> attached (filtersChanged f st) i"
    using assms(1) none dropDataFetch_inv [OF assms, of "Then_Refilter f"]
    by (simp_all add: filtersChanged_def isAppActive_def)
qed

lemma one_stream_store [simp]: "one_stream (st\<lparr>da_store := ms\<rparr>) = one_stream st"
  by (simp add: one_stream_def)

lemma handle_reported: "length (reported (controls_handle ms ev)) \<le> Suc 0"
  unfolding controls_handle_def Let_def by (cases ev) simp_all

lemma emit_reported:
  "length (reported (snd (controls_emit ms ev))) \<le> Suc 0"
  "fst (controls_emit ms ev) = ms"
  "reported (snd (controls_emit ms (CurrentNamespaceChanged d))) \<noteq> []"
proof -
  show "length (reported (snd (controls_emit ms ev))) \<le> Suc 0"
    using handle_reported [of ms ev] by (cases ev) (simp_all add: controls_emit_def controls_handle_def)
  show "fst (controls_emit ms ev) = ms" by (simp add: controls_emit_def)
  show "reported (snd (controls_emit ms (CurrentNamespaceChanged d))) \<noteq> []"
    by (simp add: controls_emit_def controls_handle_def Let_def)
qed

lemmas dl_ops = dl_toggleVerdict_def dl_toggleShowHost_def dl_toggleShowKubeDNS_def dl_toggleShowRemoteNode_def
  dl_toggleShowPrometheusApp_def dl_setHTTPStatus_def dl_setFlowFilters_def

lemma perform_reported: "length (reported (snd (dl_perform act ms))) \<le> 1"
  by (cases act) (simp_all add: dl_perform_def dl_ops Let_def emit_reported split_def)

lemma with_controls_wf:
  "wf_filters (store_filters (with_controls f ms)) \<longleftrightarrow> distinct (cs_verdicts (f (store_controls ms)))"
  by (simp add: wf_filters_of_store)

lemma perform_wf:
  assumes "wf_filters (store_filters ms)"
  shows "wf_filters (store_filters (fst (dl_perform act ms)))"
  using assms
  by (cases act) (simp_all add: dl_perform_def dl_ops control_ops Let_def emit_reported split_def with_controls_wf
      wf_filters_of_store split: option.split)

lemma setCurrentNamespace_reported:
  "length (reported (snd (dl_setCurrentNamespace uniqBy up now ns ms))) \<le> 1"
  "reported (snd (dl_setCurrentNamespace uniqBy up now ns ms)) = [] \<Longrightarrow>
     fst (dl_setCurrentNamespace uniqBy up now ns ms) = ms"
  "wf_filters (store_filters ms) \<Longrightarrow> wf_filters (store_filters (fst (dl_setCurrentNamespace uniqBy up now ns ms)))"
proof -
  show "length (reported (snd (dl_setCurrentNamespace uniqBy up now ns ms))) \<le> 1"
    by (simp add: dl_setCurrentNamespace_def Let_def emit_reported)
  show "reported (snd (dl_setCurrentNamespace uniqBy up now ns ms)) = [] \<Longrightarrow>
      fst (dl_setCurrentNamespace uniqBy up now ns ms) = ms"
    by (simp add: dl_setCurrentNamespace_def Let_def emit_reported split: if_splits)
  show "wf_filters (store_filters ms) \<Longrightarrow> wf_filters (store_filters (fst (dl_setCurrentNamespace uniqBy up now ns ms)))"
    by (simp add: dl_setCurrentNamespace_def Let_def emit_reported with_controls_wf controls_resetUserSelected_def)
qed

lemma controlsReported_one:
  assumes "one_stream st" "stops st = []" "length (reported (snd r)) \<le> 1"
  shows "one_stream (controlsReported r st)"
proof (cases "reported (snd r)")
  case (Cons fd evs)
  then show ?thesis
    using assms filtersChanged_inv(1) [of "st\<lparr>da_store := fst r\<rparr>" fd] by (simp add: controlsReported_def)
qed (use assms in \<open>simp add: controlsReported_def\<close>)

lemma filtersChanged_store [simp]: "da_store (filtersChanged f st) = da_store st"
  by (simp add: filtersChanged_def dropDataFetch_def split: option.split)

lemma controlsReported_fresh:
  assumes "one_stream st" "stops st = []" "length (reported (snd r)) \<le> 1" "up_to_date st"
    and "wf_filters (store_filters (fst r))"
    and "reported (snd r) = [] \<Longrightarrow> filters_equals (store_filters (da_store st)) (store_filters (fst r))"
  shows "up_to_date (controlsReported r st)"
proof (cases "reported (snd r)")
  case Nil
  then show ?thesis
    using assms filters_equals_equivalence(3) [of _ "store_filters (da_store st)" "store_filters (fst r)"]
    by (auto simp: controlsReported_def up_to_date_def attached_def)
next
  case (Cons fd evs)
  then show ?thesis
    using assms filtersChanged_inv(2) [of "st\<lparr>da_store := fst r\<rparr>"]
    by (simp add: controlsReported_def up_to_date_def)
qed

definition without :: "nat \<Rightarrow> data_layer \<Rightarrow> data_layer" where
  "without n st = st\<lparr>da_pending := take n (da_pending st) @ drop (Suc n) (da_pending st)\<rparr>"

lemma without_fields [simp]:
  "da_streams (without n st) = da_streams st" "da_stream (without n st) = da_stream st"
  "da_store (without n st) = da_store st"
  by (simp_all add: without_def)

lemma stops_without:
  assumes "n < length (da_pending st)"
  shows "\<exists>xs ys. stops st = xs @ (case da_pending st ! n of Stopping i k \<Rightarrow> [i] | _ \<Rightarrow> []) @ ys
    \<and> stops (without n st) = xs @ ys"
proof -
  let ?g = "\<lambda>p. case p of Stopping i k \<Rightarrow> Some i | _ \<Rightarrow> None"
  have "da_pending st = take n (da_pending st) @ [da_pending st ! n] @ drop (Suc n) (da_pending st)"
    using id_take_nth_drop [OF assms] by simp
  then have "stops st = List.map_filter ?g (take n (da_pending st)) @ List.map_filter ?g [da_pending st ! n]
      @ List.map_filter ?g (drop (Suc n) (da_pending st))"
    unfolding stops_def map_filter_def by (metis filter_append map_append)
  moreover have "List.map_filter ?g [da_pending st ! n] = (case da_pending st ! n of Stopping i k \<Rightarrow> [i] | _ \<Rightarrow> [])"
    by (simp add: map_filter_def split: pending.split)
  moreover have "stops (without n st) = List.map_filter ?g (take n (da_pending st))
      @ List.map_filter ?g (drop (Suc n) (da_pending st))"
    by (simp add: stops_def without_def map_filter_def)
  ultimately show ?thesis by metis
qed

lemma one_stream_without:
  assumes "one_stream st" "n < length (da_pending st)" "\<forall>i k. da_pending st ! n \<noteq> Stopping i k"
  shows "one_stream (without n st)"
proof -
  have "stops (without n st) = stops st"
    using stops_without [OF assms(2)] assms(3) by (cases "da_pending st ! n") force+
  then show ?thesis using assms(1) by (subst one_stream_same [of _ st]) simp_all
qed

lemma one_stream_facts:
  assumes "one_stream st"
  shows "j < length (da_streams st) \<Longrightarrow> es_live (da_streams st ! j) \<Longrightarrow> da_stream st = Some j"
    and "attached st j \<Longrightarrow> da_stream st = Some j" and "attached st j \<Longrightarrow> stops st = []"
    and "attached st j \<Longrightarrow> es_live (da_streams st ! j)"
proof -
  show "j < length (da_streams st) \<Longrightarrow> es_live (da_streams st ! j) \<Longrightarrow> da_stream st = Some j"
    using assms unfolding one_stream_def by blast
  show a: "attached st j \<Longrightarrow> da_stream st = Some j" and "attached st j \<Longrightarrow> es_live (da_streams st ! j)"
    using assms unfolding one_stream_def attached_def by blast+
  show "attached st j \<Longrightarrow> stops st = []"
    using assms a unfolding one_stream_def attached_def by (metis option.inject)
qed

lemma one_stream_idle:
  assumes "one_stream st" "da_stream st = Some i"
    and "da_stream st' = None" "stops st' = []" "da_streams st' = (da_streams st)[i := s]" "\<not> es_live s" "\<not> es_attached s"
  shows "one_stream st'"
proof -
  have "\<not> es_live (da_streams st' ! j) \<and> \<not> es_attached (da_streams st' ! j)" if "j < length (da_streams st')" for j
  proof (cases "j = i")
    case False
    then have "\<not> es_live (da_streams st ! j)" "\<not> attached st j"
      using one_stream_facts(1,2) [OF assms(1), of j] that assms(2,5) by auto
    then show ?thesis using False that assms(5) by (simp add: attached_def)
  qed (use that assms in simp)
  then show ?thesis using assms(3,4) by (simp add: one_stream_def)
qed

lemma streamStopped_one:
  assumes "one_stream st" "n < length (da_pending st)" "da_pending st ! n = Stopping i k"
  shows "one_stream (streamStopped i k (without n st))"
proof -
  obtain xs ys where s: "stops st = xs @ [i] @ ys" "stops (without n st) = xs @ ys"
    using stops_without [OF assms(2)] assms(3) by auto
  then have "stops st \<noteq> []" by simp
  then obtain j where "stops st = [j]" "da_stream st = Some j" "\<not> es_attached (da_streams st ! j)"
    using assms(1) unfolding one_stream_def by blast
  moreover from this s have "j = i" "stops (without n st) = []" by (auto simp: append_eq_Cons_conv)
  ultimately show ?thesis
    by (intro one_stream_idle [OF assms(1), of i _ "(da_streams st ! i)\<lparr>es_live := False\<rparr>"])
      (simp_all add: streamStopped_def)
qed

lemma handleTerminated_one:
  assumes "one_stream st" "attached st i"
  shows "one_stream (handleTerminated isStopped st)"
proof (cases isStopped)
  case True
  then show ?thesis using assms(1) by (subst one_stream_same [of _ st]) (simp_all add: handleTerminated_def)
next
  case False
  then show ?thesis
    using one_stream_facts(2,3) [OF assms]
    by (intro one_stream_idle [OF assms(1), of i _ "(da_streams st ! i)\<lparr>es_live := False, es_attached := False\<rparr>"])
      (simp_all add: handleTerminated_def Let_def split_def)
qed

lemma up_to_date_mono:
  assumes "up_to_date st" "store_filters (da_store st') = store_filters (da_store st)"
    and "\<And>i. attached st' i \<Longrightarrow> attached st i \<and> es_filters (da_streams st' ! i) = es_filters (da_streams st ! i)"
  shows "up_to_date st'"
  using assms by (simp add: up_to_date_def)

lemma update_stream:
  assumes "\<And>s. es_filters (g s) = es_filters s" "\<And>s. es_attached (g s) \<Longrightarrow> es_attached s" "j < length ss"
  shows "es_filters (ss[i := g (ss ! i)] ! j) = es_filters (ss ! j)"
    and "es_attached (ss[i := g (ss ! i)] ! j) \<Longrightarrow> es_attached (ss ! j)"
  using assms by (cases "i = j"; simp)+

lemma detaching_fresh:
  assumes "up_to_date st" "store_filters (da_store st') = store_filters (da_store st)"
    and streams: "da_streams st' = (da_streams st)[i := g (da_streams st ! i)]"
    and g: "\<And>s. es_filters (g s) = es_filters s" "\<And>s. es_attached (g s) \<Longrightarrow> es_attached s"
  shows "up_to_date st'"
proof (rule up_to_date_mono [OF assms(1,2)])
  fix j
  assume "attached st' j"
  then have j: "j < length (da_streams st)" "es_attached (da_streams st' ! j)" by (simp_all add: attached_def streams)
  show "attached st j \<and> es_filters (da_streams st' ! j) = es_filters (da_streams st ! j)"
    using update_stream [OF g j(1), of i] j unfolding streams attached_def by blast
qed

lemma streamStopped_fresh: "up_to_date st \<Longrightarrow> up_to_date (streamStopped i k st)"
  by (erule detaching_fresh [where i = i and g = "\<lambda>s. s\<lparr>es_live := False\<rparr>"]) (simp_all add: streamStopped_def)

lemma up_to_date_same:
  "da_streams st' = da_streams st \<Longrightarrow> store_filters (da_store st') = store_filters (da_store st) \<Longrightarrow>
     up_to_date st' = up_to_date st"
  by (simp add: up_to_date_def attached_def)

lemma handleTerminated_fresh: "up_to_date st \<Longrightarrow> up_to_date (handleTerminated isStopped st)"
proof (cases "isStopped \<or> da_stream st = None")
  case True
  then show "up_to_date st \<Longrightarrow> ?thesis"
    by (subst up_to_date_same [of _ st]) (auto simp: handleTerminated_def)
next
  case False
  then obtain i where "da_stream st = Some i" by auto
  then show "up_to_date st \<Longrightarrow> ?thesis"
    using False
    by (elim detaching_fresh [where i = i and g = "\<lambda>s. s\<lparr>es_live := False, es_attached := False\<rparr>"])
      (simp_all add: handleTerminated_def Let_def split_def)
qed

section \<open>Serial use\<close>

text \<open>The labels that drop the fetch of data, and the runs in which none of them occurs while a stop is awaited.\<close>

definition serial :: "data_label \<Rightarrow> data_layer \<Rightarrow> bool" where
  "serial lab st =
     (case lab of
        DA_Reset _ \<Rightarrow> stops st = []
      | DA_Drop \<Rightarrow> stops st = []
      | DA_Control _ \<Rightarrow> stops st = []
      | DA_Namespace _ _ \<Rightarrow> stops st = []
      | DA_ToggleCard _ \<Rightarrow> stops st = []
      | _ \<Rightarrow> True)"

inductive serially ::
  "uniq_by \<Rightarrow> (string \<Rightarrow> parsed_url) \<Rightarrow> (data_label \<Rightarrow> bool) \<Rightarrow> main_store \<Rightarrow> data_layer \<Rightarrow> bool"
  for uniqBy up allowed ms where
  start: "serially uniqBy up allowed ms (data_layer_new ms)"
| step: "serially uniqBy up allowed ms st \<Longrightarrow> allowed lab \<Longrightarrow> serial lab st \<Longrightarrow>
     data_step uniqBy up lab st = Some st' \<Longrightarrow> serially uniqBy up allowed ms st'"

lemma data_layer_new_inv:
  "one_stream (data_layer_new ms)" "wf_filters (store_filters ms) \<Longrightarrow> up_to_date (data_layer_new ms)"
  by (simp_all add: one_stream_def up_to_date_def attached_def data_layer_new_def stops_def map_filter_def)

lemma toggleCard_inv:
  assumes "one_stream st" "stops st = []"
  shows "one_stream (toggleActiveCardFilterEntry i st)"
    and "up_to_date st \<Longrightarrow> up_to_date (toggleActiveCardFilterEntry i st)"
proof -
  have ctl: "one_stream (controlsReported (dl_setFlowFilters ff (da_store st)) (da_emit ev st))"
    "up_to_date st \<Longrightarrow> up_to_date (controlsReported (dl_setFlowFilters ff (da_store st)) (da_emit ev st))" for ff ev
  proof -
    let ?r = "dl_setFlowFilters ff (da_store st)" and ?st = "da_emit ev st"
    have one: "one_stream ?st" using assms(1) by (subst one_stream_same [of _ st]) simp_all
    have len: "length (reported (snd ?r)) \<le> 1" using perform_reported [of "Act_SetFlowFilters ff"] by (simp add: dl_perform_def)
    show "one_stream (controlsReported ?r ?st)" using controlsReported_one [OF one _ len] assms(2) by simp
    assume fresh: "up_to_date st"
    then have wf: "wf_filters (store_filters (da_store st))" by (simp add: up_to_date_def)
    have "wf_filters (store_filters (fst ?r))" using perform_wf [OF wf, of "Act_SetFlowFilters ff"] by (simp add: dl_perform_def)
    moreover have "reported (snd ?r) = [] \<Longrightarrow> filters_equals (store_filters (da_store st)) (store_filters (fst ?r))"
      using setFlowFilters_reports [of "da_store st" ff] wf by (auto simp: reports_change_def wf_filters_of_store split: if_splits)
    moreover have "up_to_date ?st" using fresh by (subst up_to_date_same [of _ st]) simp_all
    ultimately show "up_to_date (controlsReported ?r ?st)"
      using controlsReported_fresh [OF one _ len] assms(2) by simp
  qed
  show "one_stream (toggleActiveCardFilterEntry i st)"
    "up_to_date st \<Longrightarrow> up_to_date (toggleActiveCardFilterEntry i st)"
    using assms(1) ctl by (simp_all add: toggleActiveCardFilterEntry_def Let_def split_def split: option.split)
qed

lemma control_inv:
  assumes "one_stream st" "stops st = []"
  shows "one_stream (controlsReported (dl_perform act (da_store st)) st)"
    and "up_to_date st \<Longrightarrow> act \<noteq> Act_ToggleShowRemoteNode \<Longrightarrow>
      up_to_date (controlsReported (dl_perform act (da_store st)) st)"
proof -
  let ?r = "dl_perform act (da_store st)"
  show "one_stream (controlsReported ?r st)" using controlsReported_one [OF assms perform_reported] .
  assume fresh: "up_to_date st" "act \<noteq> Act_ToggleShowRemoteNode"
  then have wf: "wf_filters (store_filters (da_store st))" by (simp add: up_to_date_def)
  then have d: "distinct (cs_verdicts (store_controls (da_store st)))" by (simp add: wf_filters_of_store)
  have "reports_change (da_store st) ?r"
    using fresh(2) toggles_report [OF d] toggleVerdict_reports [OF d] setHTTPStatus_reports [OF d] setFlowFilters_reports [OF d]
    by (cases act) (simp_all add: dl_perform_def)
  then have "reported (snd ?r) = [] \<Longrightarrow> filters_equals (store_filters (da_store st)) (store_filters (fst ?r))"
    by (auto simp: reports_change_def split: if_splits)
  then show "up_to_date (controlsReported ?r st)"
    using controlsReported_fresh [OF assms perform_reported fresh(1) perform_wf [OF wf]] by simp
qed

lemma namespace_inv:
  assumes "one_stream st" "stops st = []"
  shows "one_stream (controlsReported (dl_setCurrentNamespace uniqBy up now ns (da_store st)) st)"
    and "up_to_date st \<Longrightarrow> up_to_date (controlsReported (dl_setCurrentNamespace uniqBy up now ns (da_store st)) st)"
proof -
  let ?r = "dl_setCurrentNamespace uniqBy up now ns (da_store st)"
  show "one_stream (controlsReported ?r st)" using controlsReported_one [OF assms setCurrentNamespace_reported(1)] .
  assume fresh: "up_to_date st"
  then have wf: "wf_filters (store_filters (da_store st))" by (simp add: up_to_date_def)
  show "up_to_date (controlsReported ?r st)"
    using controlsReported_fresh [OF assms setCurrentNamespace_reported(1) fresh setCurrentNamespace_reported(3) [OF wf]]
      setCurrentNamespace_reported(2) filters_equals_equivalence(1) [OF wf] by simp
qed

lemma harmless_reports [simp]:
  "da_streams (handleReconnectFail att err st) = da_streams st" "da_stream (handleReconnectFail att err st) = da_stream st"
  "stops (handleReconnectFail att err st) = stops st" "da_store (handleReconnectFail att err st) = da_store st"
  "da_streams (handleReconnectDelay att d st) = da_streams st" "da_stream (handleReconnectDelay att d st) = da_stream st"
  "stops (handleReconnectDelay att d st) = stops st" "da_store (handleReconnectDelay att d st) = da_store st"
  "da_streams (handleReconnected att st) = da_streams st" "da_stream (handleReconnected att st) = da_stream st"
  "stops (handleReconnected att st) = stops st" "da_store (handleReconnected att st) = da_store st"
  by (simp_all add: handleReconnectFail_def handleReconnectDelay_def handleReconnected_def Let_def)

lemma streamReported_eqs:
  assumes "\<forall>b. r \<noteq> SR_Terminated b"
  shows "da_streams (streamReported uniqBy up now r st) = da_streams st"
    and "da_stream (streamReported uniqBy up now r st) = da_stream st"
    and "stops (streamReported uniqBy up now r st) = stops st"
    and "store_filters (da_store (streamReported uniqBy up now r st)) = store_filters (da_store st)"
  using assms
  by (simp_all add: streamReported_def handleFlows_def split_def Let_def
      split: stream_report.split service_map_event.split)

lemma same_inv:
  assumes "da_streams st' = da_streams st" "da_stream st' = da_stream st" "stops st' = stops st"
    and "store_filters (da_store st') = store_filters (da_store st)"
  shows "one_stream st' = one_stream st \<and> up_to_date st' = up_to_date st"
  using one_stream_same [OF assms(1-3)] up_to_date_same [OF assms(1,4)] by (rule conjI)

lemma streamReported_inv:
  assumes "one_stream st" "attached st i"
  shows "one_stream (streamReported uniqBy up now r st)"
    and "up_to_date st \<Longrightarrow> up_to_date (streamReported uniqBy up now r st)"
proof -
  have "one_stream (streamReported uniqBy up now r st)
    \<and> (up_to_date st \<longrightarrow> up_to_date (streamReported uniqBy up now r st))"
  proof (cases "\<exists>b. r = SR_Terminated b")
    case True
    then show ?thesis
      using handleTerminated_one [OF assms] handleTerminated_fresh by (auto simp: streamReported_def)
  next
    case False
    then show ?thesis
      using same_inv [OF streamReported_eqs [of r uniqBy up now st]] assms(1) by simp
  qed
  then show "one_stream (streamReported uniqBy up now r st)"
    "up_to_date st \<Longrightarrow> up_to_date (streamReported uniqBy up now r st)" by simp_all
qed

lemma up_to_date_store:
  "up_to_date st \<Longrightarrow> store_filters ms = store_filters (da_store st) \<Longrightarrow> up_to_date (st\<lparr>da_store := ms\<rparr>)"
  by (simp add: up_to_date_def attached_def)

lemma refilter_inv:
  "one_stream st \<Longrightarrow> one_stream (refilter uniqBy up now f st)"
  "up_to_date st \<Longrightarrow> up_to_date (refilter uniqBy up now f st)"
proof -
  show "one_stream st \<Longrightarrow> one_stream (refilter uniqBy up now f st)"
    by (simp add: refilter_def Let_def ensureDataFetch_inv)
  show "up_to_date st \<Longrightarrow> up_to_date (refilter uniqBy up now f st)"
    by (simp add: refilter_def Let_def ensureDataFetch_inv(2) up_to_date_store)
qed

lemma reconnectDelayed_inv:
  "one_stream st \<Longrightarrow> one_stream (reconnectDelayed st)" "up_to_date st \<Longrightarrow> up_to_date (reconnectDelayed st)"
proof -
  let ?st = "st\<lparr>da_retries := retries_reset exponential_reset (da_retries st)\<rparr>"
  have "one_stream st \<Longrightarrow> one_stream ?st" by (subst one_stream_same [of _ st]) simp_all
  then show "one_stream st \<Longrightarrow> one_stream (reconnectDelayed st)"
    by (simp add: reconnectDelayed_def ensureLiveStream_one)
  have "up_to_date st \<Longrightarrow> up_to_date ?st" by (subst up_to_date_same [of _ st]) simp_all
  then show "up_to_date st \<Longrightarrow> up_to_date (reconnectDelayed st)"
    by (simp add: reconnectDelayed_def ensureLiveStream_fresh)
qed

lemma resolved_inv:
  assumes "one_stream st" "n < length (da_pending st)"
  shows "one_stream (pendingResolved uniqBy up now (da_pending st ! n) (without n st))"
    and "up_to_date st \<Longrightarrow> up_to_date (pendingResolved uniqBy up now (da_pending st ! n) (without n st))"
proof -
  have fresh: "up_to_date st \<Longrightarrow> up_to_date (without n st)" by (subst up_to_date_same [of _ st]) simp_all
  have one: "one_stream (without n st)" if "\<forall>i k. da_pending st ! n \<noteq> Stopping i k"
    using one_stream_without [OF assms that] .
  show "one_stream (pendingResolved uniqBy up now (da_pending st ! n) (without n st))"
    using one streamStopped_one [OF assms]
    by (cases "da_pending st ! n")
      (simp_all add: pendingResolved_def ensureDataFetch_inv refilter_inv reconnectDelayed_inv split: after_drop.split)
  show "up_to_date st \<Longrightarrow> up_to_date (pendingResolved uniqBy up now (da_pending st ! n) (without n st))"
    using fresh
    by (cases "da_pending st ! n")
      (simp_all add: pendingResolved_def streamStopped_fresh ensureDataFetch_inv refilter_inv reconnectDelayed_inv
        split: after_drop.split)
qed

lemma dropDataFetch_fresh:
  assumes "one_stream st" "stops st = []" "up_to_date st"
  shows "up_to_date (dropDataFetch k st)"
proof -
  have "da_store (dropDataFetch k st) = da_store st" by (simp add: dropDataFetch_def split: option.split)
  then show ?thesis using assms(3) dropDataFetch_inv(2) [OF assms(1,2)] by (simp add: up_to_date_def)
qed

lemma serial_step:
  assumes "one_stream st" "serial lab st" "data_step uniqBy up lab st = Some st'"
  shows "one_stream st'"
    and "up_to_date st \<Longrightarrow> lab \<noteq> DA_Control Act_ToggleShowRemoteNode \<Longrightarrow> up_to_date st'"
proof -
  have "one_stream st'
    \<and> (up_to_date st \<longrightarrow> lab \<noteq> DA_Control Act_ToggleShowRemoteNode \<longrightarrow> up_to_date st')"
  proof (cases lab)
    case (DA_Report i now r)
    then show ?thesis
      using assms streamReported_inv [OF assms(1), of i uniqBy up now r]
      by (simp add: data_step_def attached_def split: if_splits)
  next
    case (DA_Resolve n now)
    then show ?thesis
      using assms resolved_inv [OF assms(1), of n uniqBy up now]
      by (simp add: data_step_def without_def split: if_splits)
  next
    case (DA_ControlEvent ev)
    then have "da_streams st' = da_streams st" "da_stream st' = da_stream st" "stops st' = stops st"
      "store_filters (da_store st') = store_filters (da_store st)"
      using assms(3) by (auto simp: data_step_def split_def Let_def)
    then show ?thesis using assms(1) same_inv [of st' st] by simp
  next
    case (DA_SetDataMode dm cs)
    then show ?thesis using assms same_inv [of st' st] by (auto simp: data_step_def)
  qed (use assms in \<open>simp_all add: data_step_def serial_def appOpened_def resetDataFetch_def\<close>,
      safe, simp_all add: ensureDataFetch_inv dropDataFetch_inv(1) dropDataFetch_fresh control_inv namespace_inv
      toggleCard_inv)
  then show "one_stream st'"
    "up_to_date st \<Longrightarrow> lab \<noteq> DA_Control Act_ToggleShowRemoteNode \<Longrightarrow> up_to_date st'" by simp_all
qed

lemma serially_inv:
  assumes "serially uniqBy up allowed ms st"
  shows "one_stream st"
    and "wf_filters (store_filters ms) \<Longrightarrow> (\<And>lab. allowed lab \<Longrightarrow> lab \<noteq> DA_Control Act_ToggleShowRemoteNode) \<Longrightarrow>
      up_to_date st"
proof -
  have "one_stream st \<and> (wf_filters (store_filters ms)
      \<and> (\<forall>lab. allowed lab \<longrightarrow> lab \<noteq> DA_Control Act_ToggleShowRemoteNode) \<longrightarrow> up_to_date st)"
    using assms
  proof induction
    case start
    then show ?case using data_layer_new_inv [of ms] by simp
  next
    case (step st lab st')
    then show ?case using serial_step [of st lab uniqBy up st'] by blast
  qed
  then show "one_stream st"
    and "wf_filters (store_filters ms) \<Longrightarrow> (\<And>lab. allowed lab \<Longrightarrow> lab \<noteq> DA_Control Act_ToggleShowRemoteNode) \<Longrightarrow>
      up_to_date st" by blast+
qed

text \<open>A run given by its labels.\<close>

fun serial_run ::
  "uniq_by \<Rightarrow> (string \<Rightarrow> parsed_url) \<Rightarrow> data_label list \<Rightarrow> data_layer \<Rightarrow> data_layer option" where
  "serial_run uniqBy up [] st = Some st"
| "serial_run uniqBy up (lab # labs) st =
     (if serial lab st then Option.bind (data_step uniqBy up lab st) (serial_run uniqBy up labs) else None)"

lemma serial_run_reaches:
  "serial_run uniqBy up labs st = Some st' \<Longrightarrow> list_all allowed labs \<Longrightarrow> serially uniqBy up allowed ms st \<Longrightarrow>
     serially uniqBy up allowed ms st'"
proof (induction labs arbitrary: st)
  case (Cons lab labs)
  then obtain st1 where "serial lab st" "data_step uniqBy up lab st = Some st1" "serial_run uniqBy up labs st1 = Some st'"
    by (auto split: if_splits simp: bind_eq_Some_conv)
  then show ?case using Cons.IH Cons.prems by (auto intro: serially.step)
qed simp

definition demo_serial_run :: "data_label list" where
  "demo_serial_run =
     [DA_AppOpened, DA_Drop, DA_Resolve 0 1, DA_Control (Act_ToggleVerdict (Some Verdict_Dropped)), DA_AppOpened]"

lemma demo_run:
  "map_option (\<lambda>st. (da_stream st, map es_live (da_streams st), map es_attached (da_streams st),
       map (fi_verdicts \<circ> es_filters) (da_streams st)))
     (serial_run uniq_first demo_url demo_serial_run (data_layer_new (store_new 0 demo_counters)))
   = Some (Some 1, [False, True], [False, True], [Some [], Some [Verdict_Dropped]])"
  by code_simp

text \<open>C19: as long as no control, namespace, card or reset acts while the stop of a stream is still awaited, at most one
  stream runs, and it is the one the data layer knows.\<close>

theorem one_live_stream:
  assumes "serially uniqBy up allowed ms st"
    and "i < length (da_streams st)" "es_live (da_streams st ! i)"
    and "j < length (da_streams st)" "es_live (da_streams st ! j)"
  shows "i = j \<and> da_stream st = Some i"
  using one_stream_facts(1) [OF serially_inv(1) [OF assms(1)]] assms(2-5) by (metis option.inject)

theorem one_live_stream_witness:
  "\<exists>st. serially uniq_first demo_url (\<lambda>_. True) (store_new 0 demo_counters) st \<and> da_stream st = Some 1"
proof -
  let ?ms = "store_new 0 demo_counters"
  obtain st where run: "serial_run uniq_first demo_url demo_serial_run (data_layer_new ?ms) = Some st"
      and live: "map es_live (da_streams st) = [False, True]"
    using demo_run by auto
  have reach: "serially uniq_first demo_url (\<lambda>_. True) ?ms st"
    by (rule serial_run_reaches [OF run _ serially.start]) (simp add: list_all_iff)
  have "length (map es_live (da_streams st)) = 2" "map es_live (da_streams st) ! 1" by (simp_all add: live)
  then have "1 < length (da_streams st)" "es_live (da_streams st ! 1)" by simp_all
  then have "da_stream st = Some 1" using one_live_stream [OF reach, of 1 1] by simp
  then show ?thesis using reach by blast
qed

text \<open>C20: when the remote nodes are not toggled, the filters of the store are well formed at the start (no verdict occurs
  twice), and actions wait for the stop of the stream, a stream that reports to the data layer was asked for filters equal to
  the ones of the store at that moment.\<close>

theorem stream_filters_match_store:
  assumes "serially uniqBy up (\<lambda>lab. lab \<noteq> DA_Control Act_ToggleShowRemoteNode) ms st"
    and "wf_filters (store_filters ms)"
    and "i < length (da_streams st)" "es_attached (da_streams st ! i)"
  shows "filters_equals (es_filters (da_streams st ! i)) (store_filters (da_store st))"
  using serially_inv(2) [OF assms(1,2)] assms(3,4) by (simp add: up_to_date_def attached_def)

theorem stream_filters_match_store_witness:
  "\<exists>st. serial_run uniq_first demo_url demo_serial_run (data_layer_new (store_new 0 demo_counters)) = Some st
     \<and> filters_equals (es_filters (da_streams st ! 1)) (store_filters (da_store st))"
proof -
  let ?ms = "store_new 0 demo_counters"
  obtain st where run: "serial_run uniq_first demo_url demo_serial_run (data_layer_new ?ms) = Some st"
      and att: "map es_attached (da_streams st) = [False, True]"
    using demo_run by auto
  have reach: "serially uniq_first demo_url (\<lambda>lab. lab \<noteq> DA_Control Act_ToggleShowRemoteNode) ?ms st"
    by (rule serial_run_reaches [OF run _ serially.start]) (simp add: demo_serial_run_def)
  have wf: "wf_filters (store_filters ?ms)" by code_simp
  have "length (map es_attached (da_streams st)) = 2" "map es_attached (da_streams st) ! 1" by (simp_all add: att)
  then have "1 < length (da_streams st)" "es_attached (da_streams st ! 1)" by simp_all
  then show ?thesis using stream_filters_match_store [OF reach wf] run by blast
qed

section \<open>Two changes of the filters at once\<close>

lemma dataMode_kept [simp]:
  "ts_dataMode (da_transfer (da_forgetReconnect st)) = ts_dataMode (da_transfer st)"
  "ts_dataMode (da_transfer (da_wait p st)) = ts_dataMode (da_transfer st)"
  by (simp_all add: da_forgetReconnect_def da_wait_def transfer_dropReconnectState_def)

lemma pending_waits [simp]: "da_pending (da_wait p st) = da_pending st @ [p]"
  by (simp add: da_wait_def)

lemma refilter_fields:
  assumes "da_stream st = None" "ts_dataMode (da_transfer st) = DataMode_CiliumStreaming"
  shows "da_stream (refilter uniqBy up now f st) = Some (length (da_streams st))"
    and "da_transfer (refilter uniqBy up now f st) = da_transfer st"
    and "da_pending (refilter uniqBy up now f st) = da_pending st"
    and "\<exists>fs. da_streams (refilter uniqBy up now f st) = da_streams st @
        [\<lparr>es_filters = fs, es_params = eventStream_params, es_attached = True, es_live = True\<rparr>]"
  using assms by (simp_all add: refilter_def Let_def ensureDataFetch_def ensureLiveStream_def)

lemma controlsReported_one_report:
  assumes "reported (snd r) = [d]" "da_stream st = Some i"
  shows "controlsReported r st =
     da_wait (Stopping i (Then_Refilter d)) (da_modify i (\<lambda>s. s\<lparr>es_attached := False\<rparr>) (st\<lparr>da_store := fst r\<rparr>))"
  using assms by (simp add: controlsReported_def filtersChanged_def isAppActive_def dropDataFetch_def)

text \<open>C21: there is an order in which two changes of the filters leave two streams.  When two controls change the filters before the
  first stop of the stream has finished, both calls wait for the same stream; if the first caller goes on before the second
  stop is noticed, it makes a new stream, which the second then forgets without stopping it and makes another: two streams
  are left that run and report to the store, and the data layer knows only the last.\<close>

theorem two_changes_leave_two_streams:
  assumes "da_stream st = Some i" "i < length (da_streams st)" "da_pending st = []"
    and "ts_dataMode (da_transfer st) = DataMode_CiliumStreaming"
    and "reported (snd (dl_perform act1 (da_store st))) = [d1]"
    and "reported (snd (dl_perform act2 (fst (dl_perform act1 (da_store st))))) = [d2]"
  shows "\<exists>st'. data_steps uniqBy up
           [DA_Control act1, DA_Control act2, DA_Resolve 0 t1, DA_Resolve 1 t2, DA_Resolve 0 t3, DA_Resolve 0 t4] st = Some st'
     \<and> da_pending st' = [] \<and> da_stream st' = Some (length (da_streams st) + 1)
     \<and> (\<forall>j \<in> {length (da_streams st), length (da_streams st) + 1}.
          j < length (da_streams st') \<and> es_live (da_streams st' ! j) \<and> es_attached (da_streams st' ! j))"
proof -
  let ?n = "length (da_streams st)"
  let ?r1 = "dl_perform act1 (da_store st)"
  let ?k1 = "Then_Refilter d1" and ?k2 = "Then_Refilter d2"
  define a where "a = controlsReported ?r1 st"
  have a: "da_stream a = Some i" "length (da_streams a) = ?n" "da_pending a = [Stopping i ?k1]"
    "da_store a = fst ?r1" "ts_dataMode (da_transfer a) = DataMode_CiliumStreaming"
    using assms by (simp_all add: a_def controlsReported_one_report)
  define b where "b = controlsReported (dl_perform act2 (da_store a)) a"
  have b: "da_stream b = Some i" "length (da_streams b) = ?n" "da_pending b = [Stopping i ?k1, Stopping i ?k2]"
    "ts_dataMode (da_transfer b) = DataMode_CiliumStreaming"
    using assms(6) a by (simp_all add: b_def controlsReported_one_report)
  define c where "c = streamStopped i ?k1 (without 0 b)"
  have c: "da_stream c = None" "length (da_streams c) = ?n" "da_pending c = [Stopping i ?k2, Dropped ?k1]"
    "ts_dataMode (da_transfer c) = DataMode_CiliumStreaming"
    using b by (simp_all add: c_def streamStopped_def without_def)
  define d where "d = refilter uniqBy up t2 d1 (without 1 c)"
  have w: "da_stream (without 1 c) = None" "ts_dataMode (da_transfer (without 1 c)) = DataMode_CiliumStreaming"
    "da_pending (without 1 c) = [Stopping i ?k2]" "da_streams (without 1 c) = da_streams c"
    using c by (simp_all add: without_def)
  obtain fs where d: "da_stream d = Some ?n" "da_pending d = [Stopping i ?k2]"
    "ts_dataMode (da_transfer d) = DataMode_CiliumStreaming"
    "da_streams d = da_streams c @ [\<lparr>es_filters = fs, es_params = eventStream_params, es_attached = True, es_live = True\<rparr>]"
    using refilter_fields [OF w(1,2), of uniqBy up t2 d1] c(2) w by (auto simp: d_def)
  define e where "e = streamStopped i ?k2 (without 0 d)"
  have e: "da_stream e = None" "da_pending e = [Dropped ?k2]" "ts_dataMode (da_transfer e) = DataMode_CiliumStreaming"
    "length (da_streams e) = ?n + 1"
    "es_live (da_streams e ! ?n)" "es_attached (da_streams e ! ?n)"
    using d c(2) assms(2) by (simp_all add: e_def streamStopped_def without_def nth_append)
  define g where "g = refilter uniqBy up t4 d2 (without 0 e)"
  have v: "da_stream (without 0 e) = None" "ts_dataMode (da_transfer (without 0 e)) = DataMode_CiliumStreaming"
    "da_pending (without 0 e) = []" "da_streams (without 0 e) = da_streams e"
    using e by (simp_all add: without_def)
  obtain fs' where g: "da_stream g = Some (?n + 1)" "da_pending g = []"
    "da_streams g = da_streams e @ [\<lparr>es_filters = fs', es_params = eventStream_params, es_attached = True, es_live = True\<rparr>]"
    using refilter_fields [OF v(1,2), of uniqBy up t4 d2] e(4) v by (auto simp: g_def)
  have "data_step uniqBy up (DA_Control act1) st = Some a" "data_step uniqBy up (DA_Control act2) a = Some b"
    by (simp_all add: data_step_def a_def b_def)
  moreover have "data_step uniqBy up (DA_Resolve 0 t1) b = Some c"
    by (simp add: data_step_def pendingResolved_def without_def c_def b(3))
  moreover have "data_step uniqBy up (DA_Resolve 1 t2) c = Some d"
    by (simp add: data_step_def pendingResolved_def without_def d_def c(3))
  moreover have "data_step uniqBy up (DA_Resolve 0 t3) d = Some e"
    by (simp add: data_step_def pendingResolved_def without_def e_def d(2))
  moreover have "data_step uniqBy up (DA_Resolve 0 t4) e = Some g"
    by (simp add: data_step_def pendingResolved_def without_def g_def e(2))
  ultimately have "data_steps uniqBy up
      [DA_Control act1, DA_Control act2, DA_Resolve 0 t1, DA_Resolve 1 t2, DA_Resolve 0 t3, DA_Resolve 0 t4] st = Some g"
    by simp
  then show ?thesis using g e(4-6) by (auto simp: nth_append)
qed

definition demo_open :: data_layer where
  "demo_open =
     the (data_steps uniq_first demo_url [DA_SetDataMode DataMode_CiliumStreaming None, DA_AppOpened]
            (data_layer_new (store_new 0 demo_counters)))"

theorem two_changes_leave_two_streams_witness:
  "\<exists>st'. data_steps uniq_first demo_url
       [DA_Control Act_ToggleShowHost, DA_Control (Act_ToggleVerdict (Some Verdict_Dropped)),
        DA_Resolve 0 1, DA_Resolve 1 2, DA_Resolve 0 3, DA_Resolve 0 4] demo_open = Some st'
     \<and> da_stream st' = Some 2 \<and> es_live (da_streams st' ! 1) \<and> es_live (da_streams st' ! 2)"
proof -
  let ?a1 = "Act_ToggleShowHost" and ?a2 = "Act_ToggleVerdict (Some Verdict_Dropped)"
  have s: "da_stream demo_open = Some 0" "length (da_streams demo_open) = 1" "da_pending demo_open = []"
    "ts_dataMode (da_transfer demo_open) = DataMode_CiliumStreaming" "da_store demo_open = store_new 0 demo_counters"
    by (simp_all add: demo_open_def data_step_def dl_setDataMode_def transfer_setDataMode_def transfer_isCiliumStreaming_def
        transfer_setReceiving_def transfer_setConnectionState_def appOpened_def ensureDataFetch_def ensureLiveStream_def
        data_layer_new_def Let_def split_def transfer_isDisabled_def)
  have "length (reported (snd (dl_perform ?a1 (da_store demo_open)))) = 1"
    "length (reported (snd (dl_perform ?a2 (fst (dl_perform ?a1 (da_store demo_open)))))) = 1"
    unfolding s(5) by code_simp+
  then obtain d1 d2 where "reported (snd (dl_perform ?a1 (da_store demo_open))) = [d1]"
    "reported (snd (dl_perform ?a2 (fst (dl_perform ?a1 (da_store demo_open))))) = [d2]"
    by (auto simp: length_Suc_conv)
  from two_changes_leave_two_streams [OF s(1) _ s(3,4) this, of uniq_first demo_url 1 2 3 4] s(2) show ?thesis
    by (auto simp: numeral_2_eq_2 simp del: data_steps.simps)
qed

section \<open>The store behind the data layer\<close>

lemma store_inv_controls [simp]: "store_inv (with_controls f ms) = store_inv ms"
  by (simp add: store_inv_def with_controls_def)

lemma perform_store_inv: "store_inv ms \<Longrightarrow> store_inv (fst (dl_perform act ms))"
  by (cases act) (simp_all add: dl_perform_def dl_ops Let_def emit_reported split_def)

lemma namespace_store_inv:
  assumes "store_inv ms"
  shows "store_inv (fst (dl_setCurrentNamespace uniqBy up now ns ms))"
proof -
  let ?ms = "ms\<lparr>ms_shared := (ms_shared ms)\<lparr>sh_namespaces := fst (namespaces_setCurrent ns (sh_namespaces (ms_shared ms)))\<rparr>\<rparr>"
  have "store_inv ?ms" using assms by (simp add: store_inv_def namespaces_setCurrent_wf)
  then show ?thesis using assms
    by (simp add: dl_setCurrentNamespace_def Let_def emit_reported store_inv_flush)
qed

lemma controlEvent_store_inv: "store_inv (fst s) \<Longrightarrow> store_inv (fst (dl_controlEvent ev s))"
proof -
  have "store_inv ms \<Longrightarrow> store_inv (fold (\<lambda>(ns, ch). store_applyNamespaceChange ns ch) chs ms)" for chs ms
    by (induction chs arbitrary: ms)
      (simp_all add: split_def store_applyNamespaceChange_def store_inv_def namespaces_applyChange_def wf_namespaces_set)
  then show "store_inv (fst s) \<Longrightarrow> ?thesis"
    by (cases s; cases ev) (simp_all add: dl_controlEvent_def)
qed

lemma store_kept [simp]:
  "da_store (ensureDataFetch dm st) = da_store st" "da_store (dropDataFetch k st) = da_store st"
  "da_store (handleTerminated b st) = da_store st" "da_store (reconnectDelayed st) = da_store st"
  "da_store (streamStopped i k st) = da_store st"
  by (simp_all add: ensureDataFetch_def ensureLiveStream_def dropDataFetch_def handleTerminated_def reconnectDelayed_def
      streamStopped_def Let_def split_def split: option.split)

lemma controlsReported_store [simp]: "da_store (controlsReported r st) = fst r"
proof -
  have "da_store (fold filtersChanged ds st) = da_store st" for ds st by (induction ds arbitrary: st) simp_all
  then show ?thesis by (simp add: controlsReported_def)
qed

lemma messages_store_inv:
  assumes "store_inv ms"
  shows "store_inv (fst (current_addFlows uniqBy up now fs True ms))"
    "store_inv (current_applyServiceChanges uniqBy up now chs ms)"
    "store_inv (current_applyServiceLinkChanges uniqBy up now links ms)"
  using store_inv_receive [of "(now, Msg_Flows fs)" ms uniqBy up] store_inv_receive [of "(now, Msg_Services chs)" ms uniqBy up]
    store_inv_receive [of "(now, Msg_Links links)" ms uniqBy up] assms
  by (simp_all add: store_receive_def Let_def)

lemma data_step_store_inv:
  assumes "store_inv (da_store st)" "data_step uniqBy up lab st = Some st'"
  shows "store_inv (da_store st')"
proof (cases lab)
  case (DA_Report i now r)
  then have st': "st' = streamReported uniqBy up now r st" using assms(2) by (simp add: data_step_def split: if_splits)
  show ?thesis
    unfolding st' using assms(1) messages_store_inv [OF assms(1), of uniqBy up now]
    by (simp add: streamReported_def handleFlows_def Let_def split_def split: stream_report.split service_map_event.split)
next
  case (DA_Resolve n now)
  then have st': "st' = pendingResolved uniqBy up now (da_pending st ! n) (without n st)"
    using assms(2) by (simp add: data_step_def without_def split: if_splits)
  have "store_inv (da_store (refilter uniqBy up now f (without n st)))" for f
    using assms(1) by (simp add: refilter_def Let_def store_inv_reset store_inv_flush)
  then show ?thesis
    unfolding st' using assms(1) by (simp add: pendingResolved_def split: pending.split after_drop.split)
next
  case (DA_ControlEvent ev)
  then show ?thesis
    using assms controlEvent_store_inv [of "(da_store st, da_transfer st)" ev] by (auto simp: data_step_def split_def Let_def)
next
  case (DA_ToggleCard i)
  then show ?thesis
    using assms perform_store_inv [OF assms(1), of "Act_SetFlowFilters ff" for ff]
    by (auto simp: data_step_def toggleActiveCardFilterEntry_def Let_def dl_perform_def split: option.splits prod.splits if_splits)
qed (use assms in \<open>auto simp: data_step_def appOpened_def resetDataFetch_def perform_store_inv namespace_store_inv\<close>)

text \<open>C22: whatever the streams report and whatever the controls do, in any order and with any interleaving of
  the pending continuations, in both frames the links and the cards have distinct identifiers and at most
  1024 flows are held.\<close>

theorem data_layer_store_invariant:
  assumes "data_steps uniqBy up labs (data_layer_new (store_new now c0)) = Some st"
    and "fr \<in> {ms_global (da_store st), ms_current (da_store st)}"
  shows "distinct (map link_id (is_links (sf_interactions fr))) \<and> distinct (map card_id (sf_services fr))
    \<and> length (is_flows (sf_interactions fr)) \<le> 1024"
proof -
  have "data_steps uniqBy up labs s = Some st \<Longrightarrow> store_inv (da_store s) \<Longrightarrow> store_inv (da_store st)" for s
    by (induction labs arbitrary: s) (auto simp: bind_eq_Some_conv intro: data_step_store_inv)
  then have "store_inv (da_store st)" using assms(1) store_inv_new by (auto simp: data_layer_new_def)
  then have "frame_inv fr" using assms(2) by (auto simp: store_inv_def)
  then show ?thesis
    by (simp add: frame_inv_def interaction_inv_def wf_links_def wf_services_def FLOWS_MAX_COUNT_def)
qed

theorem data_layer_store_invariant_witness:
  "\<exists>st. data_steps uniq_first demo_url
       [DA_AppOpened, DA_Report 0 1 (SR_Map (SM_Services [(sample_service ''1'' [] 1, StateChange_Added)]))]
       (data_layer_new (store_new 0 demo_counters)) = Some st
     \<and> distinct (map card_id (sf_services (ms_current (da_store st))))"
proof -
  let ?labs = "[DA_AppOpened, DA_Report 0 1 (SR_Map (SM_Services [(sample_service ''1'' [] 1, StateChange_Added)]))]"
  obtain st where "data_steps uniq_first demo_url ?labs (data_layer_new (store_new 0 demo_counters)) = Some st"
    by (simp add: data_step_def appOpened_def ensureDataFetch_def ensureLiveStream_def data_layer_new_def
        transfer_isDisabled_def transfer_new_def)
  from this data_layer_store_invariant [OF this, of "ms_current (da_store st)"] show ?thesis by blast
qed

section \<open>Termination by the backend\<close>

lemma map_get_set_same [simp]: "map_get (map_set k v m) k = Some v"
  by (induction m) auto

text \<open>While the delay runs there is no stream, so controls change the store and nothing else; they and the events of the
  control stream leave what the reconnection looks at alone.\<close>

definition keeps_delay :: "data_label \<Rightarrow> bool" where
  "keeps_delay lab \<longleftrightarrow>
     (case lab of
        DA_Control _ \<Rightarrow> True | DA_Namespace _ _ \<Rightarrow> True | DA_ToggleCard _ \<Rightarrow> True
      | DA_ControlEvent _ \<Rightarrow> True | DA_SetDataMode _ _ \<Rightarrow> True | _ \<Rightarrow> False)"

definition reconnect_view :: "data_layer \<Rightarrow> nat option \<times> pending list \<times> event_stream list \<times> bool" where
  "reconnect_view st =
     (da_stream st, da_pending st, da_streams st, map_has (ts_reconnectStates (da_transfer st)) StreamKind_Event)"

lemma controlsReported_idle:
  assumes "da_stream st = None"
  shows "controlsReported r st = st\<lparr>da_store := fst r\<rparr>"
proof -
  have "da_stream st = None \<Longrightarrow> fold filtersChanged fds st = st" for fds st
    by (induction fds) (simp_all add: filtersChanged_def isAppActive_def)
  then show ?thesis using assms by (simp add: controlsReported_def)
qed

lemma keeps_delay_step:
  assumes "keeps_delay lab" "da_stream st = None"
  shows "\<exists>st'. data_step uniqBy up lab st = Some st' \<and> reconnect_view st' = reconnect_view st"
proof -
  have ev: "ts_reconnectStates (snd (dl_controlEvent ev s)) = ts_reconnectStates (snd s)" for ev s
    by (simp add: dl_controlEvent_def transfer_setDeploymentStatus_def split: prod.split control_event.split option.split)
  have mode: "ts_reconnectStates (dl_setDataMode dm cs ts) = ts_reconnectStates ts" for dm cs ts
    by (simp add: dl_setDataMode_def transfer_setDataMode_def transfer_setReceiving_def transfer_setConnectionState_def Let_def
      split: option.split)
  show ?thesis
    using assms ev mode
    by (cases lab)
      (simp_all add: keeps_delay_def data_step_def controlsReported_idle reconnect_view_def toggleActiveCardFilterEntry_def
        Let_def split_def split: option.split)
qed

lemma keeps_delay_steps:
  "\<forall>lab \<in> set labs. keeps_delay lab \<Longrightarrow> da_stream st = None \<Longrightarrow>
   \<exists>st'. data_steps uniqBy up labs st = Some st' \<and> reconnect_view st' = reconnect_view st"
proof (induction labs arbitrary: st)
  case (Cons lab labs)
  then obtain st1 where st1: "data_step uniqBy up lab st = Some st1" "reconnect_view st1 = reconnect_view st"
    using keeps_delay_step [of lab st uniqBy up] by auto
  then have "da_stream st1 = None" using Cons.prems(2) by (simp add: reconnect_view_def)
  then show ?case using Cons.IH [of st1] Cons.prems(1) st1 by auto
qed simp

text \<open>C23: when the backend terminates the stream, it is forgotten at once; during the delay the user may change the filters and
  the namespace, and the control stream may report.  If then the delay ends, a new stream is made, with the filters the
  store has by then, not those of the stream that was lost.  If the fetch of data is dropped before, no stream is made.\<close>

theorem terminated_stream_is_made_anew:
  assumes "da_stream st = Some i" "i < length (da_streams st)" "es_attached (da_streams st ! i)"
    and "\<forall>lab \<in> set labs. keeps_delay lab"
  shows "\<exists>st1. data_steps uniqBy up (DA_Report i t1 (SR_Terminated False) # labs) st = Some st1
    \<and> da_stream st1 = None \<and> \<not> es_live (da_streams st1 ! i) \<and> \<not> es_attached (da_streams st1 ! i)
    \<and> (\<exists>st2. data_steps uniqBy up [DA_Resolve (length (da_pending st)) t2] st1 = Some st2
         \<and> da_stream st2 = Some (length (da_streams st)) \<and> da_pending st2 = da_pending st
         \<and> da_streams st2 = da_streams st1 @
             [\<lparr>es_filters = store_filters (da_store st1), es_params = eventStream_params, es_attached = True, es_live = True\<rparr>])
    \<and> (\<exists>st2. data_steps uniqBy up [DA_Drop, DA_Resolve (length (da_pending st)) t2] st1 = Some st2
         \<and> da_stream st2 = None \<and> da_streams st2 = da_streams st1)"
proof -
  let ?a = "handleTerminated False st" and ?n = "length (da_pending st)"
  have "map_get (ts_reconnectStates (da_transfer ?a)) StreamKind_Event \<noteq> None"
    using assms(1) by (simp add: handleTerminated_def Let_def split_def da_updateReconnect_def
        transfer_updateReconnectState_def da_wait_def)
  then have a: "da_stream ?a = None" "da_pending ?a = da_pending st @ [Reconnecting]" "length (da_streams ?a) = length (da_streams st)"
    "\<not> es_live (da_streams ?a ! i)" "\<not> es_attached (da_streams ?a ! i)"
    "map_has (ts_reconnectStates (da_transfer ?a)) StreamKind_Event"
    using assms(1,2) by (simp_all add: handleTerminated_def Let_def split_def da_wait_def)
  obtain st1 where st1: "data_steps uniqBy up labs ?a = Some st1" "reconnect_view st1 = reconnect_view ?a"
    using keeps_delay_steps [OF assms(4) a(1)] by blast
  then have v: "da_stream st1 = None" "da_pending st1 = da_pending st @ [Reconnecting]" "da_streams st1 = da_streams ?a"
    "map_has (ts_reconnectStates (da_transfer st1)) StreamKind_Event"
    using a by (simp_all add: reconnect_view_def)
  have "data_steps uniqBy up (DA_Report i t1 (SR_Terminated False) # labs) st = Some st1"
    using assms(2,3) st1(1) by (simp add: data_step_def streamReported_def)
  moreover have "data_steps uniqBy up [DA_Resolve ?n t2] st1 = Some (ensureLiveStream (st1\<lparr>da_pending := da_pending st\<rparr>))"
    using v(2,4) by (auto simp: data_step_def pendingResolved_def reconnectDelayed_def)
  moreover have "\<exists>st2. data_steps uniqBy up [DA_Drop, DA_Resolve ?n t2] st1 = Some st2
      \<and> da_stream st2 = None \<and> da_streams st2 = da_streams st1"
    using v(1,2)
    by (simp add: data_step_def dropDataFetch_def da_wait_def da_forgetReconnect_def pendingResolved_def reconnectDelayed_def
        transfer_dropReconnectState_def nth_append)
  ultimately show ?thesis using v a by (auto simp: ensureLiveStream_def)
qed

theorem terminated_stream_is_made_anew_witness:
  "\<exists>st2. data_steps uniq_first demo_url
       [DA_Report 0 1 (SR_Terminated False), DA_Control (Act_ToggleVerdict (Some Verdict_Dropped)), DA_Resolve 0 2] demo_open = Some st2
     \<and> da_stream st2 = Some 1"
proof -
  let ?labs = "[DA_Control (Act_ToggleVerdict (Some Verdict_Dropped))]"
  have s: "da_stream demo_open = Some 0" "length (da_streams demo_open) = 1" "da_pending demo_open = []"
    "es_attached (da_streams demo_open ! 0)"
    by (simp_all add: demo_open_def data_step_def dl_setDataMode_def transfer_setDataMode_def transfer_isCiliumStreaming_def
        transfer_setReceiving_def transfer_setConnectionState_def appOpened_def ensureDataFetch_def ensureLiveStream_def
        data_layer_new_def Let_def split_def transfer_isDisabled_def)
  have "\<forall>lab \<in> set ?labs. keeps_delay lab" by (simp add: keeps_delay_def)
  from terminated_stream_is_made_anew [OF s(1) _ s(4) this, of uniq_first demo_url 1 2] s(2,3)
  obtain st1 st2 where "data_steps uniq_first demo_url (DA_Report 0 1 (SR_Terminated False) # ?labs) demo_open = Some st1"
      "data_steps uniq_first demo_url [DA_Resolve 0 2] st1 = Some st2" "da_stream st2 = Some 1"
    by auto
  then show ?thesis by (auto simp: bind_eq_Some_conv)
qed

end
