(* ===== verification/Status_Center.thy ===== *)
theory Status_Center
  imports Data_Service_Map
begin

text \<open>
  \<open>src/ui/status-center\<close>, \<open>src/ui-layer/status-center.ts\<close> and the errors of \<open>src/api/grpc/error.ts\<close>: the log
  of what happened.  Entries are shared and changed in place, so they live in a heap and are known by
  number.  A new entry takes a stamp: the random text that is its hash, and the clock.  An operation
  returns \<open>None\<close> when it does not return (the loop over the keys to complete) or throws (a log of no
  length).  The stack of keys is a list with its top first.  Parameters: \<open>stringify\<close> is the JSON form of a
  notification, \<open>codeName\<close> the name of a status code of the GRPC library, \<open>errorText\<close> the message of an
  error the browser raised.  Console output is left out.
\<close>

section \<open>Errors\<close>

record grpc_error =
  ge_code :: "int option"
  ge_message :: string
  ge_metadata :: "(string, string list) js_map"

text \<open>An error with a message only, one that has the fields of a GRPC error, or a wrapped one.\<close>

datatype status_error = Plain_Error string | Grpc_Like grpc_error | Grpc_Wrapped grpc_error

definition error_message :: "status_error \<Rightarrow> string" where
  "error_message err = (case err of Plain_Error m \<Rightarrow> m | Grpc_Like g \<Rightarrow> ge_message g | Grpc_Wrapped g \<Rightarrow> ge_message g)"

definition grpc_fromError :: "status_error option \<Rightarrow> grpc_error option" where
  "grpc_fromError err =
     (case err of
        Some (Grpc_Wrapped g) \<Rightarrow> Some g
      | Some (Grpc_Like g) \<Rightarrow> if ge_code g \<noteq> None then Some g else None
      | _ \<Rightarrow> None)"

definition grpc_isOk :: "grpc_error \<Rightarrow> bool" where
  "grpc_isOk g \<longleftrightarrow> ge_code g = Some 0"

definition customError_isGRPC :: "custom_error \<Rightarrow> bool" where
  "customError_isGRPC err \<longleftrightarrow> ce_kind err = 1"

definition customError_toString :: "(int \<Rightarrow> string option) \<Rightarrow> custom_error \<Rightarrow> string" where
  "customError_toString codeName err =
     (if customError_isGRPC err
      then ''Error (GRPC, '' @ print_undefined (codeName (ce_code err)) @ '', '' @ int_to_string (ce_code err) @ ''): '' @ ce_message err
      else ''Error (Custom, '' @ int_to_string (ce_code err) @ ''): '' @ ce_message err)"

section \<open>Entries\<close>

datatype intent = Intent_Info | Intent_Success | Intent_Debug | Intent_Warning | Intent_Error | Intent_Critical

definition intent_str :: "intent \<Rightarrow> string" where
  "intent_str i =
     (case i of Intent_Info \<Rightarrow> ''info'' | Intent_Success \<Rightarrow> ''success'' | Intent_Debug \<Rightarrow> ''debug''
      | Intent_Warning \<Rightarrow> ''warning'' | Intent_Error \<Rightarrow> ''error'' | Intent_Critical \<Rightarrow> ''critical'')"

definition parseIntent :: "string option \<Rightarrow> intent option" where
  "parseIntent s =
     (case s of
        None \<Rightarrow> None
      | Some t \<Rightarrow>
          if t = [] then None
          else find (\<lambda>i. intent_str i = t)
            [Intent_Info, Intent_Success, Intent_Debug, Intent_Warning, Intent_Error, Intent_Critical])"

datatype status_key = Key_DataStreamsReconnecting | Key_ReconnectingToHubbleRelay | Key_ReconnectedToHubbleRelay

definition key_str :: "status_key \<Rightarrow> string" where
  "key_str k =
     (case k of Key_DataStreamsReconnecting \<Rightarrow> ''data-streams-reconnecting''
      | Key_ReconnectingToHubbleRelay \<Rightarrow> ''reconnecting-to-hubble-relay''
      | Key_ReconnectedToHubbleRelay \<Rightarrow> ''reconnected-to-hubble-relay'')"

datatype status_component = Component_HubbleUI | Component_HubbleRelay | Component_Cluster

definition component_str :: "status_component \<Rightarrow> string" where
  "component_str c =
     (case c of Component_HubbleUI \<Rightarrow> ''hubble-ui'' | Component_HubbleRelay \<Rightarrow> ''hubble-relay''
      | Component_Cluster \<Rightarrow> ''cluster'')"

record status_entry =
  se_hash :: string
  se_intent :: intent
  se_title :: string
  se_details :: "string option"
  se_component :: "string option"
  se_isPersistent :: bool
  se_isPending :: bool
  se_cardinality :: nat
  se_cardinalityPrefix :: "string option"
  se_underlyingError :: "status_error option"
  se_key :: "string option"
  se_keysToComplete :: "string list option"
  se_occuredAt :: int

type_synonym stamp = "string \<times> int"

definition entry_empty :: "stamp \<Rightarrow> status_entry" where
  "entry_empty stamp =
     \<lparr>se_hash = fst stamp, se_intent = Intent_Debug, se_title = [], se_details = None,
      se_component = Some (component_str Component_HubbleUI), se_isPersistent = False, se_isPending = False,
      se_cardinality = 1, se_cardinalityPrefix = None, se_underlyingError = None, se_key = None,
      se_keysToComplete = None, se_occuredAt = snd stamp\<rparr>"

definition entry_isCritical :: "status_entry \<Rightarrow> bool" where
  "entry_isCritical e \<longleftrightarrow> se_intent e = Intent_Critical"

definition entry_isError :: "status_entry \<Rightarrow> bool" where
  "entry_isError e \<longleftrightarrow> se_intent e = Intent_Error"

text \<open>\<open>e.occuredAgain(entry)\<close>: the hash, the persistence and the keys to complete stay.\<close>

definition entry_occuredAgain :: "status_entry \<Rightarrow> status_entry \<Rightarrow> status_entry" where
  "entry_occuredAgain entry e =
     e\<lparr>se_title := se_title entry, se_intent := se_intent entry, se_component := se_component entry,
       se_details := se_details entry, se_cardinality := se_cardinality entry,
       se_cardinalityPrefix := se_cardinalityPrefix entry, se_isPending := se_isPending entry,
       se_occuredAt := se_occuredAt entry, se_key := se_key entry,
       se_underlyingError := se_underlyingError entry\<rparr>"

text \<open>The methods of the builder, which change the entry it holds.\<close>

definition builder_setIntent :: "intent \<Rightarrow> status_entry \<Rightarrow> status_entry" where
  "builder_setIntent i e = e\<lparr>se_intent := i\<rparr>"

definition builder_setTitle :: "string option \<Rightarrow> status_entry \<Rightarrow> status_entry" where
  "builder_setTitle t e = e\<lparr>se_title := or_empty t\<rparr>"

definition builder_setDetails :: "string option \<Rightarrow> status_entry \<Rightarrow> status_entry" where
  "builder_setDetails d e = e\<lparr>se_details := d\<rparr>"

definition builder_setComponent :: "string option \<Rightarrow> status_entry \<Rightarrow> status_entry" where
  "builder_setComponent c e = e\<lparr>se_component := c\<rparr>"

definition builder_setPersistent :: "bool \<Rightarrow> status_entry \<Rightarrow> status_entry" where
  "builder_setPersistent v e = e\<lparr>se_isPersistent := v\<rparr>"

definition builder_setPending :: "bool option \<Rightarrow> status_entry \<Rightarrow> status_entry" where
  "builder_setPending p e = e\<lparr>se_isPending := is_on p\<rparr>"

definition builder_setUnderlyingError :: "status_error option \<Rightarrow> status_entry \<Rightarrow> status_entry" where
  "builder_setUnderlyingError err e = e\<lparr>se_underlyingError := err\<rparr>"

definition builder_setTime :: "int \<Rightarrow> status_entry \<Rightarrow> status_entry" where
  "builder_setTime t e = e\<lparr>se_occuredAt := t\<rparr>"

definition builder_setCardinality :: "nat \<Rightarrow> status_entry \<Rightarrow> status_entry" where
  "builder_setCardinality c e = e\<lparr>se_cardinality := c\<rparr>"

definition builder_setKeysToComplete :: "string list option \<Rightarrow> status_entry \<Rightarrow> status_entry" where
  "builder_setKeysToComplete keys e =
     (case keys of
        None \<Rightarrow> e\<lparr>se_keysToComplete := map_option (\<lambda>_. []) (se_keysToComplete e)\<rparr>
      | Some ks \<Rightarrow> e\<lparr>se_keysToComplete := Some (set_of_list ks)\<rparr>)"

definition builder_incCardinality :: "nat \<Rightarrow> status_entry \<Rightarrow> status_entry" where
  "builder_incCardinality di e = e\<lparr>se_cardinality := se_cardinality e + di\<rparr>"

definition builder_setCardinalityPrefix :: "string option \<Rightarrow> status_entry \<Rightarrow> status_entry" where
  "builder_setCardinalityPrefix p e = e\<lparr>se_cardinalityPrefix := p\<rparr>"

definition builder_setKey :: "string option \<Rightarrow> status_entry \<Rightarrow> status_entry" where
  "builder_setKey k e = e\<lparr>se_key := k\<rparr>"

lemmas builder_defs = builder_setIntent_def builder_setTitle_def builder_setDetails_def builder_setComponent_def
  builder_setPersistent_def builder_setPending_def builder_setUnderlyingError_def builder_setTime_def
  builder_setCardinality_def builder_setKeysToComplete_def builder_incCardinality_def
  builder_setCardinalityPrefix_def builder_setKey_def

section \<open>The log\<close>

record new_entry_event =
  ne_entry :: nat
  ne_isUpdated :: bool
  ne_wasPending :: bool

record status_center =
  sc_heap :: "nat \<Rightarrow> status_entry"
  sc_next :: nat
  sc_max :: nat
  sc_notifications :: "nat list"
  sc_seenTop :: "nat option"
  sc_pendingEntries :: "(string, nat) js_map"
  sc_keyedEntries :: "(string, nat) js_map"
  sc_events :: "new_entry_event list"

definition statusCenter_new :: "nat \<Rightarrow> status_center" where
  "statusCenter_new maxNotifications =
     \<lparr>sc_heap = (\<lambda>_. entry_empty ([], 0)), sc_next = 0, sc_max = maxNotifications, sc_notifications = [],
      sc_seenTop = None, sc_pendingEntries = [], sc_keyedEntries = [], sc_events = []\<rparr>"

definition sc_entry :: "status_center \<Rightarrow> nat \<Rightarrow> status_entry" where
  "sc_entry sc i = sc_heap sc i"

definition sc_update :: "nat \<Rightarrow> (status_entry \<Rightarrow> status_entry) \<Rightarrow> status_center \<Rightarrow> status_center" where
  "sc_update i f sc = sc\<lparr>sc_heap := (sc_heap sc)(i := f (sc_heap sc i))\<rparr>"

text \<open>\<open>entry.key || entry.hash\<close>.\<close>

definition pending_key :: "status_entry \<Rightarrow> string" where
  "pending_key e = (if truthy (se_key e) then the (se_key e) else se_hash e)"

definition getEntryByKey :: "string \<Rightarrow> status_center \<Rightarrow> nat option" where
  "getEntryByKey k sc = map_get (sc_keyedEntries sc) k"

definition applyPendingStatus :: "nat \<Rightarrow> status_center \<Rightarrow> bool \<times> status_center" where
  "applyPendingStatus i sc =
     (let e = sc_entry sc i; key = pending_key e
      in (map_has (sc_pendingEntries sc) key,
          sc\<lparr>sc_pendingEntries :=
            (if se_isPending e then map_set key i (sc_pendingEntries sc) else map_delete key (sc_pendingEntries sc))\<rparr>))"

definition tryUpdateExistingEntry :: "nat \<Rightarrow> status_center \<Rightarrow> bool \<times> status_center" where
  "tryUpdateExistingEntry i sc =
     (let e = sc_entry sc i
      in case se_key e of
           None \<Rightarrow>
             (if sc_notifications sc \<noteq> [] \<and> se_hash (sc_entry sc (last (sc_notifications sc))) = se_hash e
              then (True, sc_update (last (sc_notifications sc)) (entry_occuredAgain e) sc)
              else (False, sc))
         | Some k \<Rightarrow>
             (case map_get (sc_keyedEntries sc) k of
                None \<Rightarrow> (False, sc\<lparr>sc_keyedEntries := map_set k i (sc_keyedEntries sc)\<rparr>)
              | Some existing \<Rightarrow> (True, sc_update existing (entry_occuredAgain e) sc)))"

text \<open>A log that may hold nothing has nothing to remove: the access to the removed entry throws.\<close>

definition pushLimited :: "nat \<Rightarrow> status_center \<Rightarrow> status_center option" where
  "pushLimited i sc =
     (if length (sc_notifications sc) + 1 > sc_max sc
      then (case sc_notifications sc of
              [] \<Rightarrow> None
            | removed # rest \<Rightarrow>
                (let e = sc_entry sc removed
                 in Some (sc\<lparr>sc_notifications := rest @ [i],
                      sc_seenTop := (if sc_seenTop sc = Some removed then None else sc_seenTop sc),
                      sc_keyedEntries :=
                        (case se_key e of None \<Rightarrow> sc_keyedEntries sc | Some k \<Rightarrow> map_delete k (sc_keyedEntries sc)),
                      sc_pendingEntries := map_delete (se_hash e) (sc_pendingEntries sc)\<rparr>)))
      else Some (sc\<lparr>sc_notifications := sc_notifications sc @ [i]\<rparr>))"

definition same_entry :: "status_entry \<Rightarrow> status_entry \<Rightarrow> bool" where
  "same_entry entry e \<longleftrightarrow> se_hash e = se_hash entry \<or> se_key entry \<noteq> None \<and> se_key e = se_key entry"

definition moveExistingEntryToTop :: "nat \<Rightarrow> status_center \<Rightarrow> status_center option" where
  "moveExistingEntryToTop i sc =
     (let p = (\<lambda>j. same_entry (sc_entry sc i) (sc_entry sc j)); ns = sc_notifications sc
      in case dropWhile (\<lambda>j. \<not> p j) ns of
           [] \<Rightarrow> Some sc
         | removed # rest \<Rightarrow> pushLimited removed (sc\<lparr>sc_notifications := takeWhile (\<lambda>j. \<not> p j) ns @ rest\<rparr>))"

text \<open>One round of the loop, for a key whose entry is \<open>i\<close>.\<close>

definition complete_entry :: "nat \<Rightarrow> status_center \<Rightarrow> status_center" where
  "complete_entry i sc =
     (let (_, sc1) = applyPendingStatus i (sc_update i (\<lambda>e. e\<lparr>se_isPending := False\<rparr>) sc)
      in case se_key (sc_entry sc1 i) of
           None \<Rightarrow> sc1
         | Some k \<Rightarrow> sc_update i (\<lambda>e. e\<lparr>se_key := None\<rparr>) (sc1\<lparr>sc_keyedEntries := map_delete k (sc_keyedEntries sc1)\<rparr>))"

partial_function (option) complete_loop ::
  "string list \<Rightarrow> nat list \<Rightarrow> status_center \<Rightarrow> (nat list \<times> status_center) option"
where
  "complete_loop keys pending sc =
     (case keys of
        [] \<Rightarrow> Some (pending, sc)
      | key # rest \<Rightarrow>
          (case getEntryByKey key sc of
             None \<Rightarrow> complete_loop rest pending sc
           | Some i \<Rightarrow>
               complete_loop (rev (or_empty (se_keysToComplete (sc_entry sc i))) @ rest)
                 (pending @ (if se_isPending (sc_entry sc i) then [i] else []))
                 (complete_entry i sc)))"

declare complete_loop.simps [code]

definition completeEntryDescendants :: "nat \<Rightarrow> status_center \<Rightarrow> (nat list \<times> status_center) option" where
  "completeEntryDescendants i sc =
     complete_loop (rev (or_empty (se_keysToComplete (sc_entry sc i)))) [] sc"

fun move_all :: "nat list \<Rightarrow> status_center \<Rightarrow> status_center option" where
  "move_all [] sc = Some sc"
| "move_all (i # is) sc = Option.bind (moveExistingEntryToTop i sc) (move_all is)"

definition pushEntry :: "nat \<Rightarrow> status_center \<Rightarrow> status_center option" where
  "pushEntry i sc =
     (let (wasPending, sc1) = applyPendingStatus i sc;
          (isUpdated, sc2) = tryUpdateExistingEntry i sc1;
          sc3 = sc2\<lparr>sc_events := sc_events sc2 @
                 [\<lparr>ne_entry = i, ne_isUpdated = isUpdated, ne_wasPending = wasPending\<rparr>]\<rparr>
      in Option.bind (completeEntryDescendants i sc3) (\<lambda>(werePending, sc4).
           Option.bind (move_all werePending sc4) (\<lambda>sc5.
             if isUpdated then Some sc5 else pushLimited i sc5)))"

section \<open>Views\<close>

definition statusCenter_list :: "status_center \<Rightarrow> nat list" where
  "statusCenter_list sc = rev (sc_notifications sc)"

definition pendingEntriesList :: "status_center \<Rightarrow> nat list" where
  "pendingEntriesList sc = rev (map_values (sc_pendingEntries sc))"

definition nonPendingEntriesList :: "status_center \<Rightarrow> nat list" where
  "nonPendingEntriesList sc =
     filter (\<lambda>i. \<not> map_has (sc_pendingEntries sc) (pending_key (sc_entry sc i))) (statusCenter_list sc)"

definition hasUnread :: "status_center \<Rightarrow> bool" where
  "hasUnread sc \<longleftrightarrow>
     sc_notifications sc \<noteq> [] \<and> sc_seenTop sc \<noteq> Some (last (sc_notifications sc))"

definition setSeen :: "status_center \<Rightarrow> status_center" where
  "setSeen sc = sc\<lparr>sc_seenTop := find (\<lambda>i. \<not> se_isPersistent (sc_entry sc i)) (statusCenter_list sc)\<rparr>"

definition criticalPreview :: "status_center \<Rightarrow> nat option" where
  "criticalPreview sc =
     (if sc_notifications sc = [] then None
      else case find (\<lambda>i. entry_isCritical (sc_entry sc i) \<or> entry_isError (sc_entry sc i))
                  (map_values (sc_pendingEntries sc)) of
             Some i \<Rightarrow> Some i
           | None \<Rightarrow>
               find (\<lambda>i. entry_isCritical (sc_entry sc i))
                 (takeWhile (\<lambda>i. sc_seenTop sc \<noteq> Some i) (statusCenter_list sc)))"

section \<open>What is pushed\<close>

text \<open>\<open>x.toFixed(1)\<close>.\<close>

definition to_fixed_1 :: "rat \<Rightarrow> string" where
  "to_fixed_1 x =
     (let n = \<lfloor>\<bar>x\<bar> * 10 + 1 / 2\<rfloor>
      in (if x < 0 then ''-'' else []) @ int_to_string (n div 10) @ ''.'' @ int_to_string (n mod 10))"

definition formatErrorDetails :: "status_error \<Rightarrow> string" where
  "formatErrorDetails err =
     (case err of
        Grpc_Wrapped g \<Rightarrow>
          if ge_message g \<noteq> [] then ge_message g
          else ''GRPC details: code: '' @ (case ge_code g of None \<Rightarrow> ''null'' | Some c \<Rightarrow> int_to_string c)
               @ '', message: '' @ ge_message g @ ''.''
      | _ \<Rightarrow> error_message err)"

definition first_metadata :: "string \<Rightarrow> grpc_error \<Rightarrow> string option" where
  "first_metadata k g = (case map_get (ge_metadata g) k of Some (v # _) \<Rightarrow> Some v | _ \<Rightarrow> None)"

text \<open>\<open>a || b\<close> on texts, where \<open>a\<close> may be missing.\<close>

definition or_else :: "string option \<Rightarrow> string \<Rightarrow> string" where
  "or_else a b = (if truthy a then the a else b)"

text \<open>The intent is read as \<open>(parsed ?? isOk) ? Info : Error\<close>.\<close>

definition fillEntryWithGrpcError :: "grpc_error \<Rightarrow> status_entry \<Rightarrow> status_entry" where
  "fillEntryWithGrpcError g e =
     (let chosen = (case parseIntent (first_metadata ''intent'' g) of Some _ \<Rightarrow> True | None \<Rightarrow> grpc_isOk g);
          i = (if chosen then Intent_Info else Intent_Error)
      in builder_setUnderlyingError (Some (Grpc_Wrapped g))
          (builder_setComponent (Some (or_else (first_metadata ''component'' g) (component_str Component_HubbleUI)))
            (builder_setDetails (Some (or_else (se_details e) (formatErrorDetails (Grpc_Wrapped g))))
              (builder_setTitle (Some (or_else (Some (se_title e))
                 (or_else (first_metadata ''title'' g) ''GRPC error occured''))) (builder_setIntent i e)))))"

definition builderFromError ::
  "status_error \<Rightarrow> string option \<Rightarrow> string option \<Rightarrow> string option \<Rightarrow> status_entry \<Rightarrow> status_entry" where
  "builderFromError err title humanDetails component e =
     (case grpc_fromError (Some err) of
        Some g \<Rightarrow> fillEntryWithGrpcError g e
      | None \<Rightarrow>
          builder_setUnderlyingError (Some err)
            (builder_setComponent (Some (case component of Some c \<Rightarrow> c | None \<Rightarrow> component_str Component_HubbleUI))
              (builder_setDetails (Some (case humanDetails of Some d \<Rightarrow> d | None \<Rightarrow> error_message err))
                (builder_setTitle (Some (case title of Some t \<Rightarrow> t | None \<Rightarrow> ''Unrecognized error occurred''))
                  (builder_setIntent Intent_Error e)))))"

definition entryFromNotification :: "(notification \<Rightarrow> string) \<Rightarrow> notification \<Rightarrow> status_entry \<Rightarrow> status_entry" where
  "entryFromNotification stringify n e =
     (let i = (if notification_isK8sUnavailable n then Intent_Critical
               else if notification_isRelayReconnecting n then Intent_Error
               else if nt_noPermission n \<noteq> None then Intent_Warning
               else if notification_isRelayConnected n \<or> notification_isK8sConnected n then Intent_Success
               else Intent_Info);
          msg = (if notification_isK8sUnavailable n
                   then ''Connection to Kubernetes has been lost. Check your deployment and refresh this page.''
                 else if notification_isK8sConnected n then ''Connection to Kubernetes has been established.''
                 else if notification_isRelayReconnecting n
                   then ''Connection to hubble-relay has been lost. Reconnecting...''
                 else if notification_isRelayConnected n then ''Connection to hubble-relay has been established.''
                 else if notification_isNoActivityInNamespace n then ''There are no pods in selected namespace''
                 else case nt_noPermission n of
                        Some p \<Rightarrow> ''You have no permissions to watch over '' @ [CHR 0x22] @ np_resource p @ [CHR 0x22] @ '' resource''
                      | None \<Rightarrow> ''Unknown notification: '' @ stringify n);
          err = map_option (\<lambda>p. Plain_Error (np_error p)) (nt_noPermission n);
          component = (if notification_isRelayRelated n then Component_HubbleRelay
                       else if notification_isClusterRelated n then Component_Cluster else Component_HubbleUI);
          key = (if notification_isRelayReconnecting n then Some (key_str Key_ReconnectingToHubbleRelay) else None);
          keysToComplete = (if notification_isRelayConnected n then [key_str Key_ReconnectingToHubbleRelay] else [])
      in builder_setComponent (Some (component_str component))
          (builder_setUnderlyingError err
            (builder_setKeysToComplete (Some keysToComplete)
              (builder_setKey key
                (builder_setPending (Some (notification_isRelayReconnecting n))
                  (builder_setTitle (Some msg) (builder_setIntent i e)))))))"

text \<open>A new entry from the empty one, and its push.\<close>

definition push_new :: "stamp \<Rightarrow> (status_entry \<Rightarrow> status_entry) \<Rightarrow> status_center \<Rightarrow> status_center option" where
  "push_new stamp f sc =
     (let i = sc_next sc
      in pushEntry i (sc\<lparr>sc_heap := (sc_heap sc)(i := f (entry_empty stamp)), sc_next := i + 1\<rparr>))"

definition push :: "(notification \<Rightarrow> string) \<Rightarrow> stamp \<Rightarrow> notification \<Rightarrow> status_center \<Rightarrow> status_center option" where
  "push stringify stamp n sc =
     (if nt_status n \<noteq> None then Some sc else push_new stamp (entryFromNotification stringify n) sc)"

definition pushError ::
  "stamp \<Rightarrow> status_error \<Rightarrow> string option \<Rightarrow> string option \<Rightarrow> string option \<Rightarrow> status_center \<Rightarrow> status_center option" where
  "pushError stamp err title humanDetails component =
     push_new stamp (builderFromError err title humanDetails component)"

definition pushServiceMapLogsUploadError :: "stamp \<Rightarrow> status_error \<Rightarrow> status_center \<Rightarrow> status_center option" where
  "pushServiceMapLogsUploadError stamp err =
     push_new stamp (builder_setComponent (Some (component_str Component_HubbleUI))
       \<circ> builder_setUnderlyingError (Some err) \<circ> builder_setDetails (Some (error_message err))
       \<circ> builder_setTitle (Some ''Failed to upload logs file'') \<circ> builder_setIntent Intent_Error)"

definition pushControlStreamError ::
  "(int \<Rightarrow> string option) \<Rightarrow> stamp \<Rightarrow> custom_error \<Rightarrow> status_center \<Rightarrow> status_center option" where
  "pushControlStreamError codeName stamp err =
     push_new stamp (builder_setDetails (Some (customError_toString codeName err))
       \<circ> builder_setComponent (Some (component_str Component_HubbleUI))
       \<circ> builder_setTitle (Some ''Server error occured'') \<circ> builder_setIntent Intent_Critical)"

text \<open>Each error comes with the stamp of its entry.\<close>

fun pushControlStreamErrors ::
  "(int \<Rightarrow> string option) \<Rightarrow> (stamp \<times> custom_error) list \<Rightarrow> status_center \<Rightarrow> status_center option" where
  "pushControlStreamErrors codeName [] sc = Some sc"
| "pushControlStreamErrors codeName ((stamp, err) # errs) sc =
     Option.bind (pushControlStreamError codeName stamp err sc) (pushControlStreamErrors codeName errs)"

definition pushStreamsReconnecting :: "stamp \<Rightarrow> status_center \<Rightarrow> status_center option" where
  "pushStreamsReconnecting stamp =
     push_new stamp (builder_setKey (Some (key_str Key_DataStreamsReconnecting)) \<circ> builder_setPending (Some True)
       \<circ> builder_setComponent (Some (component_str Component_HubbleUI))
       \<circ> builder_setTitle (Some ''Data streams are reconnecting...'') \<circ> builder_setIntent Intent_Error)"

text \<open>The entry of a key, if it is pending.\<close>

definition pending_of :: "status_key \<Rightarrow> status_center \<Rightarrow> nat option" where
  "pending_of k sc =
     (case getEntryByKey (key_str k) sc of
        None \<Rightarrow> None | Some i \<Rightarrow> if se_isPending (sc_entry sc i) then Some i else None)"

definition pushStreamsReconnectingDelay :: "rat \<Rightarrow> status_center \<Rightarrow> status_center option" where
  "pushStreamsReconnectingDelay delayMs sc =
     (case pending_of Key_DataStreamsReconnecting sc of
        None \<Rightarrow> Some sc
      | Some i \<Rightarrow>
          (let details = ''Next attempt in '' @ to_fixed_1 (js_div delayMs 1000) @ ''s. ''
                 @ (case se_underlyingError (sc_entry sc i) of
                      None \<Rightarrow> [] | Some err \<Rightarrow> ''Last error details: '' @ formatErrorDetails err)
           in pushEntry i (sc_update i (builder_setDetails (Some details)) sc)))"

definition pushStreamsReconnectFailed :: "status_error \<Rightarrow> status_center \<Rightarrow> status_center option" where
  "pushStreamsReconnectFailed err sc =
     (case pending_of Key_DataStreamsReconnecting sc of
        None \<Rightarrow> Some sc
      | Some i \<Rightarrow>
          pushEntry i (sc_update i (builder_incCardinality 1 \<circ> builder_setCardinalityPrefix (Some ''Attempt: '')
            \<circ> builder_setUnderlyingError (Some err)
            \<circ> builder_setDetails (Some (''Last error details: '' @ formatErrorDetails err))) sc))"

definition pushStreamsReconnected :: "stamp \<Rightarrow> status_center \<Rightarrow> status_center option" where
  "pushStreamsReconnected stamp sc =
     (let c = (case getEntryByKey (key_str Key_DataStreamsReconnecting) sc of
                 None \<Rightarrow> 0 | Some i \<Rightarrow> se_cardinality (sc_entry sc i));
          nAttempts = (if c = 0 then 1 else c)
      in push_new stamp (builder_setKeysToComplete (Some [key_str Key_DataStreamsReconnecting])
           \<circ> builder_setDetails (Some (''Data streams were successfully reconnected after ''
               @ int_to_string (int nAttempts) @ '' attempts.''))
           \<circ> builder_setTitle (Some ''Data streams are reconnected.'') \<circ> builder_setIntent Intent_Success) sc)"

definition not_observed_key :: "string \<Rightarrow> string" where
  "not_observed_key ns = ''ns-'' @ ns @ ''-not-observed''"

definition pushNamespaceIsNotObserved :: "stamp \<Rightarrow> string \<Rightarrow> status_center \<Rightarrow> status_center option" where
  "pushNamespaceIsNotObserved stamp ns =
     push_new stamp (builder_setKey (Some (not_observed_key ns))
       \<circ> builder_setComponent (Some (component_str Component_HubbleUI))
       \<circ> builder_setDetails (Some ''Hubble UI is watching for this namespace'')
       \<circ> builder_setTitle (Some (''Namespace '' @ [CHR 0x22] @ ns @ [CHR 0x22] @ '' is still not observed''))
       \<circ> builder_setIntent Intent_Info)"

definition pushNamespaceIsObserved :: "stamp \<Rightarrow> namespace_descriptor \<Rightarrow> status_center \<Rightarrow> status_center option" where
  "pushNamespaceIsObserved stamp ns sc =
     (let k = not_observed_key (nd_namespace ns)
      in if getEntryByKey k sc = None then Some sc
         else push_new stamp (builder_setKeysToComplete (Some [k])
           \<circ> builder_setDetails (Some ''Hubble UI is capturing the namespace activity'')
           \<circ> builder_setTitle (Some (''Namespace '' @ [CHR 0x22] @ nd_namespace ns @ '' is appeared'' @ [CHR 0x22]))
           \<circ> builder_setIntent Intent_Info) sc)"

definition pushFetchUISettingsError :: "stamp \<Rightarrow> status_error \<Rightarrow> status_center \<Rightarrow> status_center option" where
  "pushFetchUISettingsError stamp err =
     push_new stamp (builder_setIntent Intent_Critical
       \<circ> (case grpc_fromError (Some err) of
            Some g \<Rightarrow> fillEntryWithGrpcError g
          | None \<Rightarrow> builder_setDetails (Some (error_message err)))
       \<circ> builder_setUnderlyingError (Some err) \<circ> builder_setTitle (Some ''Failed to load UI settings''))"

text \<open>The handler of the events of a connection in \<open>src/ui-layer/ui-layer.ts\<close>; two entries may be pushed, so it
  takes the stamp of a new one.\<close>

definition handleConnectEvent ::
  "(request_error \<Rightarrow> string) \<Rightarrow> stamp \<Rightarrow> connect_event \<Rightarrow> status_center \<Rightarrow> status_center option" where
  "handleConnectEvent errorText stamp ce sc =
     (if cv_kind ce = ConnectEvent_Success \<and> is_on (cv_isAllReconnected ce) then pushStreamsReconnected stamp sc
      else if cv_kind ce = ConnectEvent_AttemptDelay \<and> cv_delay ce \<noteq> None \<and> cv_delay ce \<noteq> Some 0
        then pushStreamsReconnectingDelay (the (cv_delay ce)) sc
      else if cv_kind ce = ConnectEvent_Failed
        then Option.bind (if cv_attempt ce = Some 1 then pushStreamsReconnecting stamp sc else Some sc)
               (\<lambda>sc1. case cv_error ce of
                  None \<Rightarrow> Some sc1 | Some err \<Rightarrow> pushStreamsReconnectFailed (Plain_Error (errorText err)) sc1)
      else if cv_kind ce = ConnectEvent_Disconnected then pushStreamsReconnecting stamp sc
      else Some sc)"

section \<open>Invariant\<close>

text \<open>The keys and the listed entries \<open>N\<close>, which are those of the log and, while it is pushed, the new one.\<close>

definition keys_ok :: "nat set \<Rightarrow> status_center \<Rightarrow> bool" where
  "keys_ok N sc \<longleftrightarrow>
     wf_map (sc_keyedEntries sc)
     \<and> (\<forall>k i. map_get (sc_keyedEntries sc) k = Some i \<longrightarrow> i \<in> N \<and> se_key (sc_heap sc i) = Some k)
     \<and> (\<forall>i k. i \<in> N \<longrightarrow> se_key (sc_heap sc i) = Some k \<longrightarrow> map_get (sc_keyedEntries sc) k = Some i)"

definition log_ok :: "status_center \<Rightarrow> bool" where
  "log_ok sc \<longleftrightarrow>
     1 \<le> sc_max sc \<and> length (sc_notifications sc) \<le> sc_max sc \<and> distinct (sc_notifications sc)
     \<and> set (sc_notifications sc) \<subseteq> {..< sc_next sc}
     \<and> inj_on (\<lambda>i. se_hash (sc_heap sc i)) {..< sc_next sc}"

definition center_inv :: "status_center \<Rightarrow> bool" where
  "center_inv sc \<longleftrightarrow> log_ok sc \<and> keys_ok (set (sc_notifications sc)) sc"

text \<open>What pushing an entry leaves alone.\<close>

definition same_frame :: "status_center \<Rightarrow> status_center \<Rightarrow> bool" where
  "same_frame sc sc' \<longleftrightarrow>
     sc_max sc' = sc_max sc \<and> sc_next sc' = sc_next sc \<and> (\<forall>i. se_hash (sc_heap sc' i) = se_hash (sc_heap sc i))"

lemma same_frame_refl [simp]: "same_frame sc sc"
  by (simp add: same_frame_def)

lemma same_frame_trans: "same_frame a b \<Longrightarrow> same_frame b c \<Longrightarrow> same_frame a c"
  by (simp add: same_frame_def)

lemma log_ok_frame:
  "log_ok sc \<Longrightarrow> same_frame sc sc' \<Longrightarrow> length (sc_notifications sc') \<le> sc_max sc \<Longrightarrow> distinct (sc_notifications sc') \<Longrightarrow>
     set (sc_notifications sc') \<subseteq> {..< sc_next sc} \<Longrightarrow> log_ok sc'"
  by (simp add: log_ok_def same_frame_def)

lemma keys_ok_cong:
  "sc_heap sc' = sc_heap sc \<Longrightarrow> sc_keyedEntries sc' = sc_keyedEntries sc \<Longrightarrow> keys_ok N sc' = keys_ok N sc"
  by (simp add: keys_ok_def)

lemma update_fields [simp]:
  "sc_notifications (sc_update i f sc) = sc_notifications sc" "sc_keyedEntries (sc_update i f sc) = sc_keyedEntries sc"
  "sc_pendingEntries (sc_update i f sc) = sc_pendingEntries sc" "sc_next (sc_update i f sc) = sc_next sc"
  "sc_max (sc_update i f sc) = sc_max sc" "sc_heap (sc_update i f sc) = (sc_heap sc)(i := f (sc_heap sc i))"
  by (simp_all add: sc_update_def)

lemma applyPending_fields [simp]:
  "sc_notifications (snd (applyPendingStatus i sc)) = sc_notifications sc"
  "sc_keyedEntries (snd (applyPendingStatus i sc)) = sc_keyedEntries sc"
  "sc_heap (snd (applyPendingStatus i sc)) = sc_heap sc" "sc_next (snd (applyPendingStatus i sc)) = sc_next sc"
  "sc_max (snd (applyPendingStatus i sc)) = sc_max sc"
  by (simp_all add: applyPendingStatus_def Let_def)

lemma keys_ok_same:
  "(\<And>i. se_key (sc_heap sc' i) = se_key (sc_heap sc i)) \<Longrightarrow> sc_keyedEntries sc' = sc_keyedEntries sc \<Longrightarrow>
     keys_ok N sc' = keys_ok N sc"
  by (simp only: keys_ok_def)

lemma keys_okD:
  assumes "keys_ok N sc"
  shows "map_get (sc_keyedEntries sc) k = Some i \<Longrightarrow> i \<in> N \<and> se_key (sc_heap sc i) = Some k"
    and "i \<in> N \<Longrightarrow> se_key (sc_heap sc i) = Some k \<Longrightarrow> map_get (sc_keyedEntries sc) k = Some i"
  using assms unfolding keys_ok_def by blast+

text \<open>One completed entry.\<close>

lemma complete_entry_fields:
  assumes "se_key (sc_heap sc i) = Some k"
  shows "sc_notifications (complete_entry i sc) = sc_notifications sc"
    and "sc_heap (complete_entry i sc) = (sc_heap sc)(i := (sc_heap sc i)\<lparr>se_isPending := False, se_key := None\<rparr>)"
    and "sc_keyedEntries (complete_entry i sc) = map_delete k (sc_keyedEntries sc)"
    and "same_frame sc (complete_entry i sc)"
  using assms by (simp_all add: complete_entry_def sc_entry_def split_def Let_def same_frame_def)

lemma keys_ok_drop:
  assumes "keys_ok N sc" "map_get (sc_keyedEntries sc) k = Some i"
    and "sc_heap sc' = (sc_heap sc)(i := e)" "se_key e = None"
    and "sc_keyedEntries sc' = map_delete k (sc_keyedEntries sc)"
  shows "keys_ok N sc'"
proof -
  have i: "se_key (sc_heap sc i) = Some k" using assms(1,2) unfolding keys_ok_def by blast
  show ?thesis
    unfolding keys_ok_def
  proof (intro conjI allI impI)
    show "wf_map (sc_keyedEntries sc')" using assms(1,5) by (simp add: keys_ok_def)
  next
    fix k' j
    assume j: "map_get (sc_keyedEntries sc') k' = Some j"
    then have "k' \<noteq> k" "map_get (sc_keyedEntries sc) k' = Some j" by (auto simp: assms(5) split: if_splits)
    then have "j \<in> N" "se_key (sc_heap sc j) = Some k'" using assms(1) unfolding keys_ok_def by blast+
    moreover from this have "j \<noteq> i" using i \<open>k' \<noteq> k\<close> by auto
    ultimately show "j \<in> N" "se_key (sc_heap sc' j) = Some k'" by (simp_all add: assms(3))
  next
    fix j k'
    assume j: "j \<in> N" "se_key (sc_heap sc' j) = Some k'"
    then have "j \<noteq> i" using assms(3,4) by (metis fun_upd_same option.distinct(1))
    moreover from this have "se_key (sc_heap sc j) = Some k'" using j(2) assms(3) by simp
    then have "map_get (sc_keyedEntries sc) k' = Some j" using assms(1) j(1) unfolding keys_ok_def by blast
    ultimately show "map_get (sc_keyedEntries sc') k' = Some j" using assms(2) by (auto simp: assms(5))
  qed
qed

lemma map_delete_shorter: "map_get m k = Some v \<Longrightarrow> length (map_delete k m) < length m"
proof -
  assume "map_get m k = Some v"
  then have "(k, v) \<in> set m" by (rule map_of_SomeD)
  then show ?thesis by (simp add: AList.delete_eq) (rule length_filter_less, auto)
qed

text \<open>The loop returns, because each entry it completes loses its key.  It keeps what each round keeps.\<close>

lemma complete_loop_keeps:
  assumes "keys_ok N sc" "Q sc"
    and "\<And>sc k i. Q sc \<Longrightarrow> map_get (sc_keyedEntries sc) k = Some i \<Longrightarrow> se_key (sc_heap sc i) = Some k \<Longrightarrow>
      Q (complete_entry i sc)"
  shows "\<exists>ws sc'. complete_loop keys pend sc = Some (ws, sc') \<and> keys_ok N sc' \<and> same_frame sc sc'
    \<and> sc_notifications sc' = sc_notifications sc \<and> Q sc'"
  using assms(1,2)
proof (induction "(length (sc_keyedEntries sc), length keys)" arbitrary: keys pend sc
    rule: wf_induct_rule [OF wf_lex_prod [OF wf_less_than wf_less_than]])
  case 1
  show ?case
  proof (cases keys)
    case Nil
    then show ?thesis using 1(2,3) by (simp add: complete_loop.simps [of "[]"])
  next
    case (Cons key rest)
    show ?thesis
    proof (cases "getEntryByKey key sc")
      case None
      have "\<exists>ws sc'. complete_loop rest pend sc = Some (ws, sc') \<and> keys_ok N sc' \<and> same_frame sc sc'
          \<and> sc_notifications sc' = sc_notifications sc \<and> Q sc'"
        by (rule 1(1)) (simp_all add: Cons 1(2,3))
      then show ?thesis by (simp add: Cons complete_loop.simps [of "key # rest"] None)
    next
      case (Some i)
      then have get: "map_get (sc_keyedEntries sc) key = Some i" by (simp add: getEntryByKey_def)
      then have k: "se_key (sc_heap sc i) = Some key" using 1(2) unfolding keys_ok_def by blast
      note fields = complete_entry_fields [OF k]
      let ?sc = "complete_entry i sc" and ?keys = "rev (or_empty (se_keysToComplete (sc_entry sc i))) @ rest"
        and ?pend = "pend @ (if se_isPending (sc_entry sc i) then [i] else [])"
      have ok: "keys_ok N ?sc" by (rule keys_ok_drop [OF 1(2) get fields(2) _ fields(3)]) simp
      have "\<exists>ws sc'. complete_loop ?keys ?pend ?sc = Some (ws, sc') \<and> keys_ok N sc' \<and> same_frame ?sc sc'
          \<and> sc_notifications sc' = sc_notifications ?sc \<and> Q sc'"
        by (rule 1(1)) (use map_delete_shorter [OF get] ok assms(3) [OF 1(3) get k] in \<open>simp_all add: fields(3)\<close>)
      then show ?thesis
        using same_frame_trans [OF fields(4)] by (auto simp: Cons complete_loop.simps [of "key # rest"] Some fields(1))
    qed
  qed
qed

lemma complete_loop_returns:
  "keys_ok N sc \<Longrightarrow> \<exists>ws sc'. complete_loop keys pend sc = Some (ws, sc') \<and> keys_ok N sc' \<and> same_frame sc sc'
    \<and> sc_notifications sc' = sc_notifications sc"
  using complete_loop_keeps [of N sc "\<lambda>_. True"] by simp

text \<open>Moving entries within the log.\<close>

lemma moveExistingEntryToTop_returns:
  assumes "length (sc_notifications sc) \<le> sc_max sc" "distinct (sc_notifications sc)"
  shows "\<exists>ns. moveExistingEntryToTop i sc = Some (sc\<lparr>sc_notifications := ns\<rparr>)
    \<and> distinct ns \<and> set ns = set (sc_notifications sc) \<and> length ns = length (sc_notifications sc)"
proof -
  let ?p = "\<lambda>j. same_entry (sc_entry sc i) (sc_entry sc j)" and ?ns = "sc_notifications sc"
  show ?thesis
  proof (cases "dropWhile (\<lambda>j. \<not> ?p j) ?ns")
    case Nil
    have "moveExistingEntryToTop i sc = Some sc" unfolding moveExistingEntryToTop_def Let_def Nil by simp
    then show ?thesis using assms(2) by (intro exI [of _ ?ns]) simp
  next
    case (Cons r rest)
    define tw where "tw = takeWhile (\<lambda>j. \<not> ?p j) ?ns"
    have ns: "?ns = tw @ r # rest" using Cons unfolding tw_def by (metis takeWhile_dropWhile_id)
    let ?new = "(tw @ rest) @ [r]"
    have len: "length ?new = length ?ns" by (simp add: ns)
    then have "moveExistingEntryToTop i sc = Some (sc\<lparr>sc_notifications := ?new\<rparr>)"
      using assms(1) by (simp add: moveExistingEntryToTop_def Cons pushLimited_def Let_def tw_def [symmetric])
    moreover have "distinct ?new" "set ?new = set ?ns" using assms(2) by (auto simp: ns)
    ultimately show ?thesis using len by (intro exI [of _ ?new]) simp
  qed
qed

lemma move_all_returns:
  assumes "length (sc_notifications sc) \<le> sc_max sc" "distinct (sc_notifications sc)"
  shows "\<exists>ns. move_all is sc = Some (sc\<lparr>sc_notifications := ns\<rparr>)
    \<and> distinct ns \<and> set ns = set (sc_notifications sc) \<and> length ns = length (sc_notifications sc)"
  using assms
proof (induction "is" arbitrary: sc)
  case Nil
  then show ?case by (intro exI [of _ "sc_notifications sc"]) simp
next
  case (Cons i "is")
  obtain ns where ns: "moveExistingEntryToTop i sc = Some (sc\<lparr>sc_notifications := ns\<rparr>)" "distinct ns"
      "set ns = set (sc_notifications sc)" "length ns = length (sc_notifications sc)"
    using moveExistingEntryToTop_returns [OF Cons.prems] by blast
  obtain ns' where "move_all is (sc\<lparr>sc_notifications := ns\<rparr>) = Some (sc\<lparr>sc_notifications := ns\<rparr>\<lparr>sc_notifications := ns'\<rparr>)"
      "distinct ns'" "set ns' = set ns" "length ns' = length ns"
    using Cons.IH [of "sc\<lparr>sc_notifications := ns\<rparr>"] ns Cons.prems by auto
  then show ?case using ns by auto
qed

text \<open>Pushing a new entry to the log.\<close>

lemma pushLimited_returns:
  assumes "log_ok sc" "keys_ok (insert i (set (sc_notifications sc))) sc" "i \<notin> set (sc_notifications sc)" "i < sc_next sc"
  shows "\<exists>sc'. pushLimited i sc = Some sc' \<and> center_inv sc' \<and> same_frame sc sc'"
proof (cases "length (sc_notifications sc) + 1 > sc_max sc")
  case False
  let ?sc = "sc\<lparr>sc_notifications := sc_notifications sc @ [i]\<rparr>"
  have "same_frame sc ?sc" by (simp add: same_frame_def)
  moreover have "log_ok ?sc" using assms False by (simp add: log_ok_def)
  moreover have "keys_ok (set (sc_notifications ?sc)) ?sc" using assms(2) by (subst keys_ok_cong [of _ sc]) simp_all
  ultimately show ?thesis using False by (simp add: pushLimited_def center_inv_def)
next
  case True
  then obtain r rest where ns: "sc_notifications sc = r # rest"
    using assms(1) by (cases "sc_notifications sc") (auto simp: log_ok_def)
  define sc' where "sc' = sc\<lparr>sc_notifications := rest @ [i],
      sc_seenTop := (if sc_seenTop sc = Some r then None else sc_seenTop sc),
      sc_keyedEntries := (case se_key (sc_entry sc r) of None \<Rightarrow> sc_keyedEntries sc
        | Some k \<Rightarrow> map_delete k (sc_keyedEntries sc)),
      sc_pendingEntries := map_delete (se_hash (sc_entry sc r)) (sc_pendingEntries sc)\<rparr>"
  have eq: "pushLimited i sc = Some sc'" using True by (simp add: pushLimited_def ns sc'_def Let_def)
  have frame: "same_frame sc sc'" by (simp add: same_frame_def sc'_def)
  have old: "length (r # rest) \<le> sc_max sc" "distinct (r # rest)" "set (r # rest) \<subseteq> {..< sc_next sc}"
    using assms(1) unfolding log_ok_def ns by blast+
  have log: "log_ok sc'"
  proof (rule log_ok_frame [OF assms(1) frame])
    have "sc_notifications sc' = rest @ [i]" by (simp add: sc'_def)
    then show "length (sc_notifications sc') \<le> sc_max sc" "distinct (sc_notifications sc')"
      "set (sc_notifications sc') \<subseteq> {..< sc_next sc}"
      using old assms(3,4) by (simp_all add: ns)
  qed
  have heap: "sc_heap sc' = sc_heap sc" by (simp add: sc'_def)
  have keyed: "map_get (sc_keyedEntries sc') k = (if se_key (sc_heap sc r) = Some k then None else map_get (sc_keyedEntries sc) k)" for k
    by (auto simp: sc'_def sc_entry_def split: option.split)
  have "keys_ok (set (sc_notifications sc')) sc'"
    unfolding keys_ok_def heap
  proof (intro conjI allI impI)
    show "wf_map (sc_keyedEntries sc')" using assms(2) by (simp add: keys_ok_def sc'_def split: option.split)
  next
    fix k j
    assume "map_get (sc_keyedEntries sc') k = Some j"
    then have k: "se_key (sc_heap sc r) \<noteq> Some k" "map_get (sc_keyedEntries sc) k = Some j" by (simp_all add: keyed split: if_splits)
    then have j: "j \<in> insert i (set (sc_notifications sc))" "se_key (sc_heap sc j) = Some k"
      using assms(2) unfolding keys_ok_def by blast+
    then show "se_key (sc_heap sc j) = Some k" "j \<in> set (sc_notifications sc')" using k(1) by (auto simp: sc'_def ns)
  next
    fix j k
    assume j: "j \<in> set (sc_notifications sc')" "se_key (sc_heap sc j) = Some k"
    then have "j \<noteq> r" "j \<in> insert i (set (sc_notifications sc))"
      using old(2) assms(3) by (auto simp: sc'_def ns)
    then have "map_get (sc_keyedEntries sc) k = Some j" using assms(2) j(2) unfolding keys_ok_def by blast
    moreover have "se_key (sc_heap sc r) \<noteq> Some k"
    proof
      assume "se_key (sc_heap sc r) = Some k"
      then have "map_get (sc_keyedEntries sc) k = Some r" by (intro keys_okD(2) [OF assms(2)]) (simp_all add: ns)
      with \<open>map_get (sc_keyedEntries sc) k = Some j\<close> \<open>j \<noteq> r\<close> show False by simp
    qed
    ultimately show "map_get (sc_keyedEntries sc') k = Some j" by (simp add: keyed)
  qed
  then show ?thesis using eq frame log by (simp add: center_inv_def)
qed

text \<open>The rest of \<open>pushEntry\<close> once an existing entry was looked for.\<close>

lemma finish_push:
  assumes "log_ok sc" "i < sc_next sc" "keys_ok (if upd then set (sc_notifications sc) else insert i (set (sc_notifications sc))) sc"
    and "\<not> upd \<Longrightarrow> i \<notin> set (sc_notifications sc)"
  shows "\<exists>sc'. Option.bind (completeEntryDescendants i sc) (\<lambda>(werePending, sc4).
           Option.bind (move_all werePending sc4) (\<lambda>sc5. if upd then Some sc5 else pushLimited i sc5)) = Some sc'
    \<and> center_inv sc' \<and> same_frame sc sc'"
proof -
  let ?N = "if upd then set (sc_notifications sc) else insert i (set (sc_notifications sc))"
  obtain ws sc4 where sc4: "completeEntryDescendants i sc = Some (ws, sc4)" "keys_ok ?N sc4" "same_frame sc sc4"
      "sc_notifications sc4 = sc_notifications sc"
    using complete_loop_returns [OF assms(3)] unfolding completeEntryDescendants_def by blast
  have log4: "log_ok sc4" by (rule log_ok_frame [OF assms(1) sc4(3)]) (use assms(1) sc4(4) in \<open>simp_all add: log_ok_def\<close>)
  then obtain ns where move: "move_all ws sc4 = Some (sc4\<lparr>sc_notifications := ns\<rparr>)" and ns: "distinct ns"
      "set ns = set (sc_notifications sc)" "length ns = length (sc_notifications sc)"
    using move_all_returns [of sc4 ws] sc4(4) by (auto simp: log_ok_def)
  let ?sc5 = "sc4\<lparr>sc_notifications := ns\<rparr>"
  have frame5: "same_frame sc ?sc5" using sc4(3) by (simp add: same_frame_def)
  have log5: "log_ok ?sc5" by (rule log_ok_frame [OF assms(1) frame5]) (use assms(1) ns in \<open>simp_all add: log_ok_def\<close>)
  have keys5: "keys_ok ?N ?sc5" using sc4(2) by (subst keys_ok_cong [of _ sc4]) simp_all
  show ?thesis
  proof (cases upd)
    case True
    then show ?thesis using sc4(1) move frame5 log5 keys5 ns by (simp add: center_inv_def)
  next
    case False
    then obtain sc' where "pushLimited i ?sc5 = Some sc'" "center_inv sc'" "same_frame ?sc5 sc'"
      using pushLimited_returns [OF log5, of i] keys5 ns assms(2,4) frame5 by (auto simp: same_frame_def)
    then show ?thesis using False sc4(1) move same_frame_trans [OF frame5] by auto
  qed
qed

lemma log_ok_same:
  "log_ok sc \<Longrightarrow> same_frame sc sc' \<Longrightarrow> sc_notifications sc' = sc_notifications sc \<Longrightarrow> log_ok sc'"
  unfolding log_ok_def same_frame_def by simp

lemma occuredAgain_fields [simp]:
  "se_hash (entry_occuredAgain entry e) = se_hash e" "se_key (entry_occuredAgain entry e) = se_key entry"
  "entry_occuredAgain e e = e"
  by (simp_all add: entry_occuredAgain_def)

text \<open>Looking for an existing entry: for a new entry \<open>i\<close>, or an entry of the log that has its key.\<close>

lemma tryUpdate_new:
  assumes "log_ok sc" "keys_ok (set (sc_notifications sc)) sc" "i < sc_next sc" "i \<notin> set (sc_notifications sc)"
  obtains upd sc' where "tryUpdateExistingEntry i sc = (upd, sc')" "same_frame sc sc'"
    "sc_notifications sc' = sc_notifications sc"
    "keys_ok (if upd then set (sc_notifications sc) else insert i (set (sc_notifications sc))) sc'"
proof (cases "se_key (sc_heap sc i)")
  case None
  have "se_hash (sc_heap sc (last (sc_notifications sc))) \<noteq> se_hash (sc_heap sc i)" if "sc_notifications sc \<noteq> []"
  proof
    assume eq: "se_hash (sc_heap sc (last (sc_notifications sc))) = se_hash (sc_heap sc i)"
    have mem: "last (sc_notifications sc) \<in> set (sc_notifications sc)" using that by simp
    then have "last (sc_notifications sc) < sc_next sc" using assms(1) unfolding log_ok_def by blast
    then have "last (sc_notifications sc) = i" using inj_onD [of _ _ "last (sc_notifications sc)" i] eq assms(1,3)
      unfolding log_ok_def by blast
    then show False using mem assms(4) by simp
  qed
  then have "tryUpdateExistingEntry i sc = (False, sc)"
    using None by (auto simp: tryUpdateExistingEntry_def sc_entry_def Let_def)
  moreover have "keys_ok (insert i (set (sc_notifications sc))) sc"
    using assms(2) None unfolding keys_ok_def by (metis insert_iff option.distinct(1))
  ultimately show ?thesis using that [of False sc] by simp
next
  case (Some k)
  show ?thesis
  proof (cases "map_get (sc_keyedEntries sc) k")
    case None
    let ?sc = "sc\<lparr>sc_keyedEntries := map_set k i (sc_keyedEntries sc)\<rparr>"
    have eq: "tryUpdateExistingEntry i sc = (False, ?sc)"
      using Some None by (simp add: tryUpdateExistingEntry_def sc_entry_def Let_def)
    have "keys_ok (insert i (set (sc_notifications sc))) ?sc"
      unfolding keys_ok_def
    proof (intro conjI allI impI)
      show "wf_map (sc_keyedEntries ?sc)" using assms(2) by (simp add: keys_ok_def)
    next
      fix k' j
      assume "map_get (sc_keyedEntries ?sc) k' = Some j"
      then have "k' = k \<and> j = i \<or> map_get (sc_keyedEntries sc) k' = Some j" by (auto split: if_splits)
      then show "j \<in> insert i (set (sc_notifications sc))" "se_key (sc_heap ?sc j) = Some k'"
        using keys_okD(1) [OF assms(2), of k' j] Some by auto
    next
      fix j k'
      assume j: "j \<in> insert i (set (sc_notifications sc))" "se_key (sc_heap ?sc j) = Some k'"
      show "map_get (sc_keyedEntries ?sc) k' = Some j"
      proof (cases "j = i")
        case True
        then show ?thesis using j Some by simp
      next
        case False
        then have "map_get (sc_keyedEntries sc) k' = Some j" using j by (intro keys_okD(2) [OF assms(2)]) simp_all
        then show ?thesis using None by auto
      qed
    qed
    then show ?thesis using that [of False ?sc] eq by (simp add: same_frame_def)
  next
    case existing: (Some j)
    let ?sc = "sc_update j (entry_occuredAgain (sc_heap sc i)) sc"
    have eq: "tryUpdateExistingEntry i sc = (True, ?sc)"
      using Some existing by (simp add: tryUpdateExistingEntry_def sc_entry_def Let_def)
    have "se_key (sc_heap sc j) = Some k" using keys_okD(1) [OF assms(2) existing] by simp
    then have "se_key (sc_heap ?sc l) = se_key (sc_heap sc l)" for l using Some by simp
    then have "keys_ok (set (sc_notifications sc)) ?sc" using assms(2) by (subst keys_ok_same [of _ sc]) simp_all
    moreover have "same_frame sc ?sc" by (simp add: same_frame_def)
    ultimately show ?thesis using that [of True ?sc] eq by simp
  qed
qed

lemma pushEntry_new:
  assumes "log_ok sc" "keys_ok (set (sc_notifications sc)) sc" "i < sc_next sc" "i \<notin> set (sc_notifications sc)"
  shows "\<exists>sc'. pushEntry i sc = Some sc' \<and> center_inv sc' \<and> same_frame sc sc'"
proof -
  let ?sc1 = "snd (applyPendingStatus i sc)"
  have frame1: "same_frame sc ?sc1" by (simp add: same_frame_def)
  have log1: "log_ok ?sc1" using log_ok_same [OF assms(1) frame1] by simp
  have keys1: "keys_ok (set (sc_notifications ?sc1)) ?sc1" using assms(2) by (subst keys_ok_cong [of _ sc]) simp_all
  obtain upd sc2 where try_sc: "tryUpdateExistingEntry i ?sc1 = (upd, sc2)" "same_frame ?sc1 sc2"
      "sc_notifications sc2 = sc_notifications ?sc1"
      "keys_ok (if upd then set (sc_notifications ?sc1) else insert i (set (sc_notifications ?sc1))) sc2"
    using tryUpdate_new [OF log1 keys1, of i] assms(3,4) by auto
  define sc3 where "sc3 = sc2\<lparr>sc_events := sc_events sc2 @
      [\<lparr>ne_entry = i, ne_isUpdated = upd, ne_wasPending = fst (applyPendingStatus i sc)\<rparr>]\<rparr>"
  have sc3: "sc_notifications sc3 = sc_notifications sc" "same_frame sc sc3"
    using try_sc(2,3) frame1 by (simp_all add: sc3_def same_frame_def)
  have log3: "log_ok sc3" using log_ok_same [OF assms(1) sc3(2,1)] .
  have keys3: "keys_ok (if upd then set (sc_notifications sc3) else insert i (set (sc_notifications sc3))) sc3"
    using try_sc(4) sc3(1) keys_ok_cong [of sc3 sc2] by (simp add: sc3_def split: if_splits)
  have "i < sc_next sc3" using sc3(2) assms(3) by (simp add: same_frame_def)
  from finish_push [OF log3 this keys3] obtain sc' where
    "Option.bind (completeEntryDescendants i sc3) (\<lambda>(werePending, sc4).
       Option.bind (move_all werePending sc4) (\<lambda>sc5. if upd then Some sc5 else pushLimited i sc5)) = Some sc'"
    "center_inv sc'" "same_frame sc3 sc'"
    using sc3(1) assms(4) by auto
  moreover from this(1) have "pushEntry i sc = Some sc'"
    using try_sc(1) by (simp add: pushEntry_def split_def Let_def sc3_def)
  ultimately show ?thesis using same_frame_trans [OF sc3(2)] by blast
qed

lemma pushEntry_keyed:
  assumes "center_inv sc" "se_key (sc_heap sc i) = Some k" "map_get (sc_keyedEntries sc) k = Some i"
  shows "\<exists>sc'. pushEntry i sc = Some sc' \<and> center_inv sc' \<and> same_frame sc sc'"
proof -
  let ?sc1 = "snd (applyPendingStatus i sc)"
  let ?sc2 = "sc_update i (entry_occuredAgain (sc_heap sc i)) ?sc1"
  have try_sc: "tryUpdateExistingEntry i ?sc1 = (True, ?sc2)"
    using assms(2,3) by (simp add: tryUpdateExistingEntry_def sc_entry_def Let_def)
  define sc3 where "sc3 = ?sc2\<lparr>sc_events := sc_events ?sc2 @
      [\<lparr>ne_entry = i, ne_isUpdated = True, ne_wasPending = fst (applyPendingStatus i sc)\<rparr>]\<rparr>"
  have i: "i \<in> set (sc_notifications sc)" using keys_okD(1) assms(1,3) unfolding center_inv_def by blast
  have sc3: "sc_notifications sc3 = sc_notifications sc" "same_frame sc sc3" "sc_heap sc3 = sc_heap sc"
    "sc_keyedEntries sc3 = sc_keyedEntries sc" "sc_next sc3 = sc_next sc"
    by (simp_all add: sc3_def same_frame_def)
  have log3: "log_ok sc3" using log_ok_same [OF _ sc3(2,1)] assms(1) by (simp add: center_inv_def)
  have keys3: "keys_ok (set (sc_notifications sc3)) sc3"
    using assms(1) sc3 keys_ok_cong [of sc3 sc] by (simp add: center_inv_def)
  have "i < sc_next sc3" using i assms(1) sc3(5) by (auto simp: center_inv_def log_ok_def)
  from finish_push [OF log3 this, of True] obtain sc' where
    "Option.bind (completeEntryDescendants i sc3) (\<lambda>(werePending, sc4).
       Option.bind (move_all werePending sc4) (\<lambda>sc5. if True then Some sc5 else pushLimited i sc5)) = Some sc'"
    "center_inv sc'" "same_frame sc3 sc'"
    using keys3 by auto
  moreover from this(1) have "pushEntry i sc = Some sc'"
    using try_sc by (simp add: pushEntry_def split_def Let_def sc3_def)
  ultimately show ?thesis using same_frame_trans [OF sc3(2)] by blast
qed

definition hashes :: "status_center \<Rightarrow> string set" where
  "hashes sc = (\<lambda>i. se_hash (sc_heap sc i)) ` {..< sc_next sc}"

text \<open>What an operation with a fresh stamp does to a log in order.\<close>

definition pushed_well :: "stamp \<Rightarrow> status_center \<Rightarrow> status_center option \<Rightarrow> bool" where
  "pushed_well stamp sc r \<longleftrightarrow>
     (\<exists>sc'. r = Some sc' \<and> center_inv sc' \<and> sc_max sc' = sc_max sc \<and> hashes sc' \<subseteq> insert (fst stamp) (hashes sc))"

lemma push_new_well:
  assumes "center_inv sc" "fst stamp \<notin> hashes sc" "\<And>e. se_hash (f e) = se_hash e"
  shows "pushed_well stamp sc (push_new stamp f sc)"
proof -
  let ?i = "sc_next sc"
  define sc1 where "sc1 = sc\<lparr>sc_heap := (sc_heap sc)(?i := f (entry_empty stamp)), sc_next := ?i + 1\<rparr>"
  have old: "log_ok sc" "keys_ok (set (sc_notifications sc)) sc" using assms(1) by (simp_all add: center_inv_def)
  have listed: "set (sc_notifications sc) \<subseteq> {..< ?i}" and inj: "inj_on (\<lambda>i. se_hash (sc_heap sc i)) {..< ?i}"
    and len: "1 \<le> sc_max sc" "length (sc_notifications sc) \<le> sc_max sc" "distinct (sc_notifications sc)"
    using old(1) unfolding log_ok_def by blast+
  have new: "?i \<notin> set (sc_notifications sc)" using listed by auto
  have fields: "sc_notifications sc1 = sc_notifications sc" "sc_keyedEntries sc1 = sc_keyedEntries sc"
    "sc_next sc1 = Suc ?i" "sc_max sc1 = sc_max sc" "sc_heap sc1 ?i = f (entry_empty stamp)"
    "\<And>j. j \<noteq> ?i \<Longrightarrow> sc_heap sc1 j = sc_heap sc j"
    by (simp_all add: sc1_def)
  have hash: "se_hash (sc_heap sc1 ?i) = fst stamp" by (simp add: fields(5) assms(3) entry_empty_def)
  have hs: "hashes sc1 = insert (fst stamp) (hashes sc)"
    using hash by (auto simp: hashes_def fields(3) lessThan_Suc sc1_def)
  have "inj_on (\<lambda>i. se_hash (sc_heap sc1 i)) {..< sc_next sc1}"
    unfolding fields(3) lessThan_Suc inj_on_insert
  proof
    show "inj_on (\<lambda>i. se_hash (sc_heap sc1 i)) {..< ?i}"
      using inj by (rule inj_on_cong [THEN iffD1, rotated]) (simp add: fields(6))
    show "se_hash (sc_heap sc1 ?i) \<notin> (\<lambda>i. se_hash (sc_heap sc1 i)) ` ({..< ?i} - {?i})"
      using assms(2) hash by (auto simp: hashes_def fields(6))
  qed
  moreover have "set (sc_notifications sc1) \<subseteq> {..< sc_next sc1}" using listed by (auto simp: fields)
  ultimately have log1: "log_ok sc1" using len by (simp add: log_ok_def fields)
  have "keys_ok (set (sc_notifications sc1)) sc1"
    unfolding keys_ok_def
  proof (intro conjI allI impI)
    show "wf_map (sc_keyedEntries sc1)" using old(2) by (simp add: keys_ok_def fields)
  next
    fix k j
    assume "map_get (sc_keyedEntries sc1) k = Some j"
    then have "j \<in> set (sc_notifications sc)" "se_key (sc_heap sc j) = Some k"
      using keys_okD(1) [OF old(2), of k j] by (simp_all add: fields)
    moreover from this(1) have "j \<noteq> ?i" using new by blast
    ultimately show "j \<in> set (sc_notifications sc1)" "se_key (sc_heap sc1 j) = Some k"
      by (simp_all add: fields(1) fields(6))
  next
    fix j k
    assume "j \<in> set (sc_notifications sc1)" "se_key (sc_heap sc1 j) = Some k"
    moreover from this(1) have "j \<noteq> ?i" using new by (auto simp: fields(1))
    ultimately show "map_get (sc_keyedEntries sc1) k = Some j"
      using keys_okD(2) [OF old(2), of j k] by (simp add: fields(1,2) fields(6))
  qed
  then obtain sc' where "pushEntry ?i sc1 = Some sc'" "center_inv sc'" "same_frame sc1 sc'"
    using pushEntry_new [OF log1] new by (auto simp: fields)
  moreover from this(3) have "hashes sc' = hashes sc1" "sc_max sc' = sc_max sc" by (simp_all add: hashes_def same_frame_def fields)
  ultimately show ?thesis using hs by (simp add: pushed_well_def push_new_def sc1_def)
qed

lemma pushEntry_pending_well:
  assumes "center_inv sc" "pending_of key sc = Some i" "\<And>e. se_hash (f e) = se_hash e" "\<And>e. se_key (f e) = se_key e"
  shows "pushed_well stamp sc (pushEntry i (sc_update i f sc))"
proof -
  let ?sc = "sc_update i f sc"
  have get: "map_get (sc_keyedEntries sc) (key_str key) = Some i"
    using assms(2) by (simp add: pending_of_def getEntryByKey_def split: option.splits if_splits)
  then have k: "se_key (sc_heap sc i) = Some (key_str key)" using keys_okD(1) assms(1) unfolding center_inv_def by blast
  have frame: "same_frame sc ?sc" by (simp add: same_frame_def assms(3))
  have "keys_ok (set (sc_notifications ?sc)) ?sc"
    using assms(1,4) by (subst keys_ok_same [of _ sc]) (simp_all add: center_inv_def)
  then have "center_inv ?sc" using log_ok_same [OF _ frame] assms(1) by (simp add: center_inv_def)
  then obtain sc' where "pushEntry i ?sc = Some sc'" "center_inv sc'" "same_frame ?sc sc'"
    using pushEntry_keyed [of ?sc i "key_str key"] k get assms(4) by auto
  then show ?thesis using same_frame_trans [OF frame] by (auto simp: pushed_well_def hashes_def same_frame_def)
qed

lemma builder_keeps_hash [simp]:
  "se_hash (builder_setIntent a e) = se_hash e" "se_hash (builder_setTitle b e) = se_hash e"
  "se_hash (builder_setDetails c e) = se_hash e" "se_hash (builder_setComponent c e) = se_hash e"
  "se_hash (builder_setPending p e) = se_hash e" "se_hash (builder_setUnderlyingError r e) = se_hash e"
  "se_hash (builder_setKeysToComplete ks e) = se_hash e" "se_hash (builder_incCardinality n e) = se_hash e"
  "se_hash (builder_setCardinalityPrefix c e) = se_hash e" "se_hash (builder_setKey c e) = se_hash e"
  "se_key (builder_setDetails c e) = se_key e" "se_key (builder_setUnderlyingError r e) = se_key e"
  "se_key (builder_incCardinality n e) = se_key e" "se_key (builder_setCardinalityPrefix c e) = se_key e"
  by (simp_all add: builder_defs split: option.split)

lemma fill_keeps_hash [simp]:
  "se_hash (fillEntryWithGrpcError g e) = se_hash e" "se_hash (builderFromError err t d c e) = se_hash e"
  "se_hash (entryFromNotification s n e) = se_hash e"
  by (simp_all add: fillEntryWithGrpcError_def builderFromError_def entryFromNotification_def Let_def split: option.split)

lemma nothing_pushed: "center_inv sc \<Longrightarrow> pushed_well stamp sc (Some sc)"
  by (auto simp: pushed_well_def)


section \<open>Runs\<close>

datatype status_push =
    Push_Notification notification
  | Push_Error status_error "string option" "string option" "string option"
  | Push_LogsUploadError status_error
  | Push_ControlStreamError custom_error
  | Push_ConnectEvent connect_event
  | Push_NamespaceIsNotObserved string
  | Push_NamespaceIsObserved namespace_descriptor
  | Push_FetchUISettingsError status_error

text \<open>The parameters of the log: the JSON form, the names of the codes and the messages of errors.\<close>

type_synonym status_env = "(notification \<Rightarrow> string) \<times> (int \<Rightarrow> string option) \<times> (request_error \<Rightarrow> string)"

definition perform_push :: "status_env \<Rightarrow> stamp \<times> status_push \<Rightarrow> status_center \<Rightarrow> status_center option" where
  "perform_push env sp sc =
     (let (stringify, codeName, errorText) = env; (stamp, p) = sp
      in case p of
           Push_Notification n \<Rightarrow> push stringify stamp n sc
         | Push_Error err t d c \<Rightarrow> pushError stamp err t d c sc
         | Push_LogsUploadError err \<Rightarrow> pushServiceMapLogsUploadError stamp err sc
         | Push_ControlStreamError err \<Rightarrow> pushControlStreamError codeName stamp err sc
         | Push_ConnectEvent ce \<Rightarrow> handleConnectEvent errorText stamp ce sc
         | Push_NamespaceIsNotObserved ns \<Rightarrow> pushNamespaceIsNotObserved stamp ns sc
         | Push_NamespaceIsObserved ns \<Rightarrow> pushNamespaceIsObserved stamp ns sc
         | Push_FetchUISettingsError err \<Rightarrow> pushFetchUISettingsError stamp err sc)"

fun run_pushes :: "status_env \<Rightarrow> (stamp \<times> status_push) list \<Rightarrow> status_center \<Rightarrow> status_center option" where
  "run_pushes env [] sc = Some sc"
| "run_pushes env (sp # sps) sc = Option.bind (perform_push env sp sc) (run_pushes env sps)"

lemma delay_well: "center_inv sc \<Longrightarrow> pushed_well stamp sc (pushStreamsReconnectingDelay d sc)"
  unfolding pushStreamsReconnectingDelay_def Let_def
  by (simp add: nothing_pushed pushEntry_pending_well split: option.split)

lemma failed_well: "center_inv sc \<Longrightarrow> pushed_well stamp sc (pushStreamsReconnectFailed err sc)"
  unfolding pushStreamsReconnectFailed_def
  by (auto simp: nothing_pushed intro!: pushEntry_pending_well split: option.split)

lemma reconnecting_well:
  "center_inv sc \<Longrightarrow> fst stamp \<notin> hashes sc \<Longrightarrow> pushed_well stamp sc (pushStreamsReconnecting stamp sc)"
  unfolding pushStreamsReconnecting_def by (rule push_new_well) simp_all

lemma pushed_well_bind:
  "pushed_well stamp sc r \<Longrightarrow> (\<And>sc1. center_inv sc1 \<Longrightarrow> pushed_well stamp sc1 (f sc1)) \<Longrightarrow> pushed_well stamp sc (Option.bind r f)"
  unfolding pushed_well_def by fastforce

lemma connect_well:
  assumes "center_inv sc" "fst stamp \<notin> hashes sc"
  shows "pushed_well stamp sc (handleConnectEvent errorText stamp ce sc)"
proof -
  note new = reconnecting_well [OF assms]
  have "pushed_well stamp sc (pushStreamsReconnected stamp sc)"
    unfolding pushStreamsReconnected_def Let_def by (rule push_new_well [OF assms]) simp
  moreover have "pushed_well stamp sc (Option.bind (if b then pushStreamsReconnecting stamp sc else Some sc)
      (\<lambda>sc1. case e of None \<Rightarrow> Some sc1 | Some err \<Rightarrow> pushStreamsReconnectFailed (Plain_Error (errorText err)) sc1))" for b e
    by (rule pushed_well_bind) (simp_all add: assms(1) new nothing_pushed failed_well split: option.split)
  ultimately show ?thesis using new delay_well [OF assms(1)] by (simp add: handleConnectEvent_def nothing_pushed assms(1))
qed

lemma perform_well:
  assumes "center_inv sc" "fst (fst sp) \<notin> hashes sc"
  shows "pushed_well (fst sp) sc (perform_push env sp sc)"
proof -
  obtain stringify codeName errorText where env: "env = (stringify, codeName, errorText)" by (cases env) auto
  obtain stamp p where sp: "sp = (stamp, p)" by (cases sp)
  note new = push_new_well [OF assms(1), of stamp]
  show ?thesis
    using assms(2) connect_well [OF assms(1), of stamp]
    by (cases p) (auto simp: env sp perform_push_def push_def pushError_def pushServiceMapLogsUploadError_def
        pushControlStreamError_def pushNamespaceIsNotObserved_def pushNamespaceIsObserved_def Let_def
        pushFetchUISettingsError_def intro!: new nothing_pushed assms(1) split: option.split)
qed


lemma run_well:
  assumes "center_inv sc" "distinct (map (fst \<circ> fst) sps)" "set (map (fst \<circ> fst) sps) \<inter> hashes sc = {}"
  shows "\<exists>sc'. run_pushes env sps sc = Some sc' \<and> center_inv sc' \<and> sc_max sc' = sc_max sc
    \<and> hashes sc' \<subseteq> set (map (fst \<circ> fst) sps) \<union> hashes sc"
  using assms
proof (induction sps arbitrary: sc)
  case Nil
  then show ?case by simp
next
  case (Cons sp sps)
  have "pushed_well (fst sp) sc (perform_push env sp sc)" by (rule perform_well) (use Cons.prems in auto)
  then obtain sc1 where sc1: "perform_push env sp sc = Some sc1" "center_inv sc1" "sc_max sc1 = sc_max sc"
      "hashes sc1 \<subseteq> insert (fst (fst sp)) (hashes sc)"
    by (auto simp: pushed_well_def)
  let ?H = "set (map (fst \<circ> fst) sps)"
  have fresh: "?H \<inter> hashes sc = {}" "fst (fst sp) \<notin> ?H" "distinct (map (fst \<circ> fst) sps)"
    using Cons.prems(2,3) by (simp_all add: comp_def)
  have "?H \<inter> hashes sc1 = {}" using sc1(4) fresh(1,2) by blast
  from Cons.IH [OF sc1(2) fresh(3) this] obtain sc2 where sc2: "run_pushes env sps sc1 = Some sc2" "center_inv sc2"
      "sc_max sc2 = sc_max sc1" "hashes sc2 \<subseteq> ?H \<union> hashes sc1"
    by blast
  have "hashes sc2 \<subseteq> set (map (fst \<circ> fst) (sp # sps)) \<union> hashes sc" using sc1(4) sc2(4) by auto
  then show ?case using sc1(1,3) sc2(1-3) by simp
qed

lemma center_new: "1 \<le> m \<Longrightarrow> center_inv (statusCenter_new m)" "hashes (statusCenter_new m) = {}"
  "sc_max (statusCenter_new m) = m"
  by (simp_all add: center_inv_def log_ok_def keys_ok_def statusCenter_new_def hashes_def)

text \<open>C28: the status center always returns. Whatever notifications, errors, events of the connection and
  namespaces are pushed, in any order, each push ends: the loop that completes the entries of the keys an
  entry names, and of the keys those name, cannot run forever because a completed entry loses its key.  The identifiers of
  the entries are distinct and the log has room for one.\<close>

theorem pushes_return:
  assumes "1 \<le> maxNotifications" "distinct (map (fst \<circ> fst) sps)"
  shows "run_pushes env sps (statusCenter_new maxNotifications) \<noteq> None"
  using run_well [OF center_new(1) [OF assms(1)] assms(2), of env] by (auto simp: center_new(2))

text \<open>C29: what holds of the log after any pushes: it is never longer than its bound, no entry is listed
  twice, and an entry is found by a key exactly when it is in the log and carries that key; so a key has one
  entry at most.\<close>

theorem status_log_invariant:
  assumes "1 \<le> maxNotifications" "distinct (map (fst \<circ> fst) sps)"
    and "run_pushes env sps (statusCenter_new maxNotifications) = Some sc"
  shows "length (statusCenter_list sc) \<le> maxNotifications \<and> distinct (statusCenter_list sc) \<and>
    (\<forall>k i. getEntryByKey k sc = Some i \<longleftrightarrow> i \<in> set (statusCenter_list sc) \<and> se_key (sc_entry sc i) = Some k)"
proof -
  have inv: "center_inv sc" and m: "sc_max sc = maxNotifications"
    using run_well [OF center_new(1) [OF assms(1)] assms(2), of env] assms(3) by (auto simp: center_new(2,3))
  have "getEntryByKey k sc = Some i \<longleftrightarrow> i \<in> set (statusCenter_list sc) \<and> se_key (sc_entry sc i) = Some k" for k i
    using inv keys_okD [of "set (sc_notifications sc)" sc]
    unfolding center_inv_def getEntryByKey_def statusCenter_list_def sc_entry_def set_rev by blast
  then show ?thesis using inv m by (simp add: center_inv_def log_ok_def statusCenter_list_def)
qed

lemma run_reachable:
  assumes "1 \<le> m" "distinct (map (fst \<circ> fst) (sps @ [sp]))" "run_pushes env sps (statusCenter_new m) = Some sc"
  shows "center_inv sc" "fst (fst sp) \<notin> hashes sc"
  using run_well [OF center_new(1) [OF assms(1)], of sps env] assms(2,3) by (auto simp: center_new(2))


lemma listed_entry: "log_ok sc \<Longrightarrow> j \<in> set (sc_notifications sc) \<Longrightarrow> j < sc_next sc \<and> se_hash (sc_heap sc j) \<in> hashes sc"
  unfolding log_ok_def hashes_def by auto

text \<open>A new entry without a key, up to the completion of the entries it names.\<close>

definition entry_pushed :: "stamp \<Rightarrow> status_entry \<Rightarrow> status_center \<Rightarrow> status_center" where
  "entry_pushed stamp e sc =
     sc\<lparr>sc_heap := (sc_heap sc)(sc_next sc := e), sc_next := sc_next sc + 1,
       sc_pendingEntries :=
         (if se_isPending e then map_set (fst stamp) (sc_next sc) (sc_pendingEntries sc)
          else map_delete (fst stamp) (sc_pendingEntries sc)),
       sc_events := sc_events sc @ [\<lparr>ne_entry = sc_next sc, ne_isUpdated = False,
         ne_wasPending = map_has (sc_pendingEntries sc) (fst stamp)\<rparr>]\<rparr>"

lemma push_new_unkeyed:
  assumes "center_inv sc" "fst stamp \<notin> hashes sc" "\<And>e. se_hash (f e) = se_hash e" "se_key (f (entry_empty stamp)) = None"
  shows "push_new stamp f sc =
    Option.bind (completeEntryDescendants (sc_next sc) (entry_pushed stamp (f (entry_empty stamp)) sc))
      (\<lambda>(werePending, sc4). Option.bind (move_all werePending sc4) (pushLimited (sc_next sc)))"
proof -
  let ?i = "sc_next sc" and ?e = "f (entry_empty stamp)"
  define sc1 where "sc1 = sc\<lparr>sc_heap := (sc_heap sc)(?i := ?e), sc_next := ?i + 1\<rparr>"
  define sc2 where "sc2 = snd (applyPendingStatus ?i sc1)"
  have log: "log_ok sc" using assms(1) by (simp add: center_inv_def)
  have e: "sc_heap sc2 = (sc_heap sc)(?i := ?e)" "sc_notifications sc2 = sc_notifications sc" "se_hash ?e = fst stamp"
    by (simp_all add: sc2_def sc1_def assms(3) entry_empty_def)
  have "se_hash (sc_heap sc (last (sc_notifications sc))) \<noteq> fst stamp \<and> last (sc_notifications sc) \<noteq> ?i"
    if "sc_notifications sc \<noteq> []"
    using assms(2) listed_entry [OF log last_in_set [OF that]] by auto
  then have try_sc: "tryUpdateExistingEntry ?i sc2 = (False, sc2)"
    by (auto simp: tryUpdateExistingEntry_def sc_entry_def Let_def e assms(4))
  have "entry_pushed stamp ?e sc = sc2\<lparr>sc_events := sc_events sc2 @
      [\<lparr>ne_entry = ?i, ne_isUpdated = False, ne_wasPending = fst (applyPendingStatus ?i sc1)\<rparr>]\<rparr>"
    using assms(4) e(3)
    by (simp add: entry_pushed_def sc2_def sc1_def applyPendingStatus_def Let_def sc_entry_def pending_key_def truthy_def)
  then have "pushEntry ?i sc1 = Option.bind (completeEntryDescendants ?i (entry_pushed stamp ?e sc))
      (\<lambda>(werePending, sc4). Option.bind (move_all werePending sc4) (pushLimited ?i))"
    using try_sc by (simp add: pushEntry_def split_def Let_def sc2_def)
  then show ?thesis unfolding push_new_def sc1_def Let_def .
qed

lemma keys_ok_pushed:
  assumes "center_inv sc" "se_key e = None"
  shows "keys_ok (insert (sc_next sc) (set (sc_notifications sc))) (entry_pushed stamp e sc)"
proof -
  have old: "keys_ok (set (sc_notifications sc)) sc" and log: "log_ok sc" using assms(1) by (simp_all add: center_inv_def)
  show ?thesis
    unfolding keys_ok_def
  proof (intro conjI allI impI)
    show "wf_map (sc_keyedEntries (entry_pushed stamp e sc))" using old by (simp add: keys_ok_def entry_pushed_def)
  next
    fix k j
    assume "map_get (sc_keyedEntries (entry_pushed stamp e sc)) k = Some j"
    then have j: "j \<in> set (sc_notifications sc)" "se_key (sc_heap sc j) = Some k"
      using keys_okD(1) [OF old, of k j] by (simp_all add: entry_pushed_def)
    then show "j \<in> insert (sc_next sc) (set (sc_notifications sc))" "se_key (sc_heap (entry_pushed stamp e sc) j) = Some k"
      using listed_entry [OF log j(1)] by (simp_all add: entry_pushed_def)
  next
    fix j k
    assume j: "j \<in> insert (sc_next sc) (set (sc_notifications sc))" "se_key (sc_heap (entry_pushed stamp e sc) j) = Some k"
    then have "j \<noteq> sc_next sc" using assms(2) by (auto simp: entry_pushed_def)
    then show "map_get (sc_keyedEntries (entry_pushed stamp e sc)) k = Some j"
      using keys_okD(2) [OF old, of j k] j by (simp add: entry_pushed_def)
  qed
qed

lemma push_new_steps:
  assumes "center_inv sc" "fst stamp \<notin> hashes sc" "\<And>e. se_hash (f e) = se_hash e" "se_key (f (entry_empty stamp)) = None"
    and "push_new stamp f sc = Some sc'"
  obtains sc3 ws sc4 ns where
    "sc_heap sc3 = (sc_heap sc)(sc_next sc := f (entry_empty stamp))" "sc_keyedEntries sc3 = sc_keyedEntries sc"
    "complete_loop (rev (or_empty (se_keysToComplete (f (entry_empty stamp))))) [] sc3 = Some (ws, sc4)"
    "keys_ok (insert (sc_next sc) (set (sc_notifications sc))) sc3"
    "pushLimited (sc_next sc) (sc4\<lparr>sc_notifications := ns\<rparr>) = Some sc'"
proof -
  let ?e = "f (entry_empty stamp)"
  let ?sc3 = "entry_pushed stamp ?e sc"
  have fields: "sc_heap ?sc3 = (sc_heap sc)(sc_next sc := ?e)" "sc_keyedEntries ?sc3 = sc_keyedEntries sc"
    "sc_notifications ?sc3 = sc_notifications sc" "sc_max ?sc3 = sc_max sc"
    by (simp_all add: entry_pushed_def)
  note keys = keys_ok_pushed [OF assms(1,4), of stamp]
  obtain ws sc4 where sc4: "complete_loop (rev (or_empty (se_keysToComplete ?e))) [] ?sc3 = Some (ws, sc4)"
      "same_frame ?sc3 sc4" "sc_notifications sc4 = sc_notifications ?sc3"
    using complete_loop_returns [OF keys] by blast
  have "length (sc_notifications sc4) \<le> sc_max sc4" "distinct (sc_notifications sc4)"
    using assms(1) sc4(2,3) fields(3,4) by (simp_all add: center_inv_def log_ok_def same_frame_def)
  then obtain ns where "move_all ws sc4 = Some (sc4\<lparr>sc_notifications := ns\<rparr>)" using move_all_returns by blast
  then have "pushLimited (sc_next sc) (sc4\<lparr>sc_notifications := ns\<rparr>) = Some sc'"
    using assms(5) sc4(1) by (simp add: push_new_unkeyed [OF assms(1-4)] completeEntryDescendants_def sc_entry_def fields(1))
  then show ?thesis using that [of ?sc3 ws sc4 ns] keys sc4(1) fields by simp
qed

lemma pushLimited_fields:
  assumes "pushLimited i sc = Some sc'"
  shows "sc_heap sc' = sc_heap sc" "last (sc_notifications sc') = i" "sc_notifications sc' \<noteq> []"
    "map_get (sc_keyedEntries sc) k = None \<Longrightarrow> map_get (sc_keyedEntries sc') k = None"
    "map_get (sc_pendingEntries sc) k = None \<Longrightarrow> map_get (sc_pendingEntries sc') k = None"
  using assms by (auto simp: pushLimited_def Let_def split: if_splits list.splits option.splits)


text \<open>Completing the entry of a key, and all that follows.\<close>

definition settled :: "string \<Rightarrow> nat \<Rightarrow> status_center \<Rightarrow> bool" where
  "settled k i sc \<longleftrightarrow>
     map_get (sc_keyedEntries sc) k = None \<and> map_get (sc_pendingEntries sc) k = None
     \<and> se_key (sc_heap sc i) = None \<and> \<not> se_isPending (sc_heap sc i)"

lemma complete_entry_pending:
  assumes "se_key (sc_heap sc i) = Some k"
  shows "map_get (sc_pendingEntries sc) k' = None \<Longrightarrow> map_get (sc_pendingEntries (complete_entry i sc)) k' = None"
    and "k \<noteq> [] \<Longrightarrow> map_get (sc_pendingEntries (complete_entry i sc)) k = None"
  using assms by (simp_all add: complete_entry_def applyPendingStatus_def sc_entry_def split_def Let_def pending_key_def truthy_def)

lemma complete_entry_settles:
  assumes "se_key (sc_heap sc i) = Some k" "k \<noteq> []"
  shows "settled k i (complete_entry i sc)"
  by (simp add: settled_def complete_entry_fields [OF assms(1)] complete_entry_pending(2) [OF assms])

lemma complete_entry_keeps_settled:
  assumes "settled k i sc" "map_get (sc_keyedEntries sc) k' = Some j" "se_key (sc_heap sc j) = Some k'"
  shows "settled k i (complete_entry j sc)"
proof -
  have "j \<noteq> i" using assms(1,3) by (auto simp: settled_def)
  then show ?thesis
    using assms(1) complete_entry_fields [OF assms(3)] complete_entry_pending(1) [OF assms(3)] by (simp add: settled_def)
qed

lemma complete_loop_settles:
  assumes "keys_ok N sc" "map_get (sc_keyedEntries sc) k = Some i" "k \<noteq> []" "complete_loop [k] [] sc = Some (ws, sc')"
  shows "settled k i sc' \<and> (\<forall>j. se_intent (sc_heap sc' j) = se_intent (sc_heap sc j))"
proof -
  have k: "se_key (sc_heap sc i) = Some k" using keys_okD(1) [OF assms(1,2)] by simp
  note fields = complete_entry_fields [OF k]
  let ?Q = "\<lambda>s. settled k i s \<and> (\<forall>j. se_intent (sc_heap s j) = se_intent (sc_heap sc j))"
  have "keys_ok N (complete_entry i sc)" by (rule keys_ok_drop [OF assms(1,2) fields(2) _ fields(3)]) simp
  moreover have "?Q (complete_entry i sc)" using complete_entry_settles [OF k assms(3)] by (simp add: fields)
  moreover have "?Q (complete_entry j s)"
    if "?Q s" "map_get (sc_keyedEntries s) k' = Some j" "se_key (sc_heap s j) = Some k'" for s k' j
    using that complete_entry_keeps_settled [OF _ that(2,3), of k i] by (simp add: complete_entry_fields [OF that(3)])
  ultimately obtain ws' s' where "complete_loop (rev (or_empty (se_keysToComplete (sc_entry sc i))))
      (if se_isPending (sc_entry sc i) then [i] else []) (complete_entry i sc) = Some (ws', s')" "?Q s'"
    using complete_loop_keeps [of N "complete_entry i sc" ?Q] by blast
  then show ?thesis using assms(2,4) by (simp add: complete_loop.simps [of "[k]"] getEntryByKey_def)
qed

text \<open>C30: when all streams are back and the entry about their reconnection is still found by its key (a full log may have evicted
  it), that entry is completed: it is no longer pending, neither by its own flag nor in the map of pending entries, its key
  is free for the next disconnection, and the success is on top of the log.\<close>

theorem reconnected_completes_entry:
  assumes "1 \<le> maxNotifications" "distinct (map (fst \<circ> fst) (sps @ [(stamp, Push_ConnectEvent ce)]))"
    and "run_pushes env sps (statusCenter_new maxNotifications) = Some sc"
    and "getEntryByKey (key_str Key_DataStreamsReconnecting) sc = Some i"
    and "cv_kind ce = ConnectEvent_Success" "cv_isAllReconnected ce = Some True"
    and "perform_push env (stamp, Push_ConnectEvent ce) sc = Some sc'"
  shows "\<not> se_isPending (sc_entry sc' i) \<and> \<not> map_has (sc_pendingEntries sc') (key_str Key_DataStreamsReconnecting)
    \<and> getEntryByKey (key_str Key_DataStreamsReconnecting) sc' = None
    \<and> se_intent (sc_entry sc' (hd (statusCenter_list sc'))) = Intent_Success"
proof -
  let ?K = "key_str Key_DataStreamsReconnecting"
  have reach: "center_inv sc" "fst stamp \<notin> hashes sc" using run_reachable [OF assms(1-3)] by simp_all
  obtain d where eq: "push_new stamp (builder_setKeysToComplete (Some [?K]) \<circ> builder_setDetails d
      \<circ> builder_setTitle (Some ''Data streams are reconnected.'') \<circ> builder_setIntent Intent_Success) sc = Some sc'"
    using assms(5-7) by (cases env) (auto simp: perform_push_def handleConnectEvent_def is_on_def pushStreamsReconnected_def Let_def)
  let ?e = "(builder_setKeysToComplete (Some [?K]) \<circ> builder_setDetails d
      \<circ> builder_setTitle (Some ''Data streams are reconnected.'') \<circ> builder_setIntent Intent_Success) (entry_empty stamp)"
  have e: "se_key ?e = None" "or_empty (se_keysToComplete ?e) = [?K]" "se_intent ?e = Intent_Success"
    by (simp_all add: builder_defs entry_empty_def or_empty_def set_of_list_def set_add_def)
  obtain sc3 ws sc4 ns where st: "sc_heap sc3 = (sc_heap sc)(sc_next sc := ?e)" "sc_keyedEntries sc3 = sc_keyedEntries sc"
    "complete_loop (rev (or_empty (se_keysToComplete ?e))) [] sc3 = Some (ws, sc4)"
    "keys_ok (insert (sc_next sc) (set (sc_notifications sc))) sc3"
    "pushLimited (sc_next sc) (sc4\<lparr>sc_notifications := ns\<rparr>) = Some sc'"
    by (rule push_new_steps [OF reach _ e(1) eq]) (simp, blast)
  have "settled ?K i sc4 \<and> (\<forall>j. se_intent (sc_heap sc4 j) = se_intent (sc_heap sc3 j))"
    by (rule complete_loop_settles [OF st(4)]) (use st(2,3) e(2) assms(4) in \<open>simp_all add: getEntryByKey_def key_str_def\<close>)
  then show ?thesis
    using pushLimited_fields(1-3) [OF st(5)] pushLimited_fields(4,5) [OF st(5), of ?K] e(3) st(1)
    by (simp add: settled_def sc_entry_def getEntryByKey_def statusCenter_list_def hd_rev)
qed


text \<open>A new entry that names no key of the log: it is only put on top.\<close>

lemma complete_loop_unknown:
  "\<forall>k \<in> set keys. getEntryByKey k sc = None \<Longrightarrow> complete_loop keys pend sc = Some (pend, sc)"
  by (induction keys) (simp_all add: complete_loop.simps [of "_ # _"] complete_loop.simps [of "[]"])

lemma plain_push:
  assumes "center_inv sc" "fst stamp \<notin> hashes sc" "\<And>e. se_hash (f e) = se_hash e" "se_key (f (entry_empty stamp)) = None"
    and "\<forall>k \<in> set (or_empty (se_keysToComplete (f (entry_empty stamp)))). getEntryByKey k sc = None"
  shows "push_new stamp f sc = pushLimited (sc_next sc) (entry_pushed stamp (f (entry_empty stamp)) sc)"
proof -
  let ?sc = "entry_pushed stamp (f (entry_empty stamp)) sc"
  have "completeEntryDescendants (sc_next sc) ?sc = Some ([], ?sc)"
    using assms(5) unfolding completeEntryDescendants_def
    by (intro complete_loop_unknown) (simp add: entry_pushed_def sc_entry_def getEntryByKey_def)
  then show ?thesis by (simp add: push_new_unkeyed [OF assms(1-4)])
qed

text \<open>The entry 0 about a disconnection while \<open>n\<close> plain entries follow it.\<close>

definition disconnected_log :: "nat \<Rightarrow> status_center \<Rightarrow> bool" where
  "disconnected_log n sc \<longleftrightarrow>
     (let k = key_str Key_DataStreamsReconnecting
      in sc_next sc = Suc n \<and> sc_pendingEntries sc = [(k, 0)] \<and> se_intent (sc_heap sc 0) = Intent_Error
         \<and> (\<forall>j \<le> n. se_key (sc_heap sc j) = (if j = 0 then Some k else None))
         \<and> sc_keyedEntries sc = (if n < sc_max sc then [(k, 0)] else [])
         \<and> sc_notifications sc = drop (Suc n - sc_max sc) [0..< Suc n])"

lemma pushLimited_disconnected:
  assumes "disconnected_log n sc" "1 \<le> sc_max sc" "key_str Key_DataStreamsReconnecting \<notin> hashes sc"
    and "fst stamp \<noteq> key_str Key_DataStreamsReconnecting" "se_key e = None" "\<not> se_isPending e"
  shows "\<exists>sc'. pushLimited (sc_next sc) (entry_pushed stamp e sc) = Some sc' \<and> disconnected_log (Suc n) sc'"
proof -
  let ?k = "key_str Key_DataStreamsReconnecting" and ?m = "sc_max sc" and ?sc = "entry_pushed stamp e sc"
  have d: "sc_next sc = Suc n" "sc_pendingEntries sc = [(?k, 0)]" "se_intent (sc_heap sc 0) = Intent_Error"
    "\<And>j. j \<le> n \<Longrightarrow> se_key (sc_heap sc j) = (if j = 0 then Some ?k else None)"
    "sc_keyedEntries sc = (if n < ?m then [(?k, 0)] else [])" "sc_notifications sc = drop (Suc n - ?m) [0..< Suc n]"
    using assms(1) by (simp_all add: disconnected_log_def Let_def del: upt_Suc)
  have sc: "sc_notifications ?sc = drop (Suc n - ?m) [0..< Suc n]" "sc_max ?sc = ?m" "sc_next ?sc = Suc (Suc n)"
    "sc_pendingEntries ?sc = [(?k, 0)]" "sc_heap ?sc = (sc_heap sc)(Suc n := e)" "sc_keyedEntries ?sc = sc_keyedEntries sc"
    using assms(4,6) d by (simp_all add: entry_pushed_def del: upt_Suc)
  show ?thesis
  proof (cases "Suc n < ?m")
    case True
    then have "pushLimited (Suc n) ?sc = Some (?sc\<lparr>sc_notifications := [0..< Suc n] @ [Suc n]\<rparr>)"
      using sc by (simp add: pushLimited_def del: upt_Suc)
    moreover have "disconnected_log (Suc n) (?sc\<lparr>sc_notifications := [0..< Suc n] @ [Suc n]\<rparr>)"
      using True d sc assms(5) by (auto simp: disconnected_log_def Let_def)
    ultimately show ?thesis using d(1) by auto
  next
    case False
    define r where "r = Suc n - ?m"
    have r: "r \<le> n" "drop r [0..< Suc n] = r # drop (Suc r) [0..< Suc n]"
      using assms(2) upt_conv_Cons [of r "Suc n"] by (auto simp: r_def simp del: upt_Suc)
    let ?new = "?sc\<lparr>sc_notifications := drop (Suc r) [0..< Suc n] @ [Suc n],
        sc_seenTop := (if sc_seenTop ?sc = Some r then None else sc_seenTop ?sc),
        sc_keyedEntries := (case se_key (sc_heap ?sc r) of None \<Rightarrow> sc_keyedEntries ?sc
          | Some k \<Rightarrow> map_delete k (sc_keyedEntries ?sc)),
        sc_pendingEntries := map_delete (se_hash (sc_heap ?sc r)) (sc_pendingEntries ?sc)\<rparr>"
    have "length (drop r [0..< Suc n]) = ?m" using False assms(2) by (simp add: r_def)
    then have "pushLimited (Suc n) ?sc = Some ?new"
      using sc(1,2) r(2) by (simp add: pushLimited_def sc_entry_def Let_def r_def [symmetric] del: upt_Suc)
    moreover have "se_hash (sc_heap sc r) \<in> hashes sc" using r(1) d(1) by (simp add: hashes_def)
    then have "se_hash (sc_heap ?sc r) \<noteq> ?k" using assms(3) r(1) by (auto simp: sc(5))
    moreover have "se_key (sc_heap ?sc r) = (if r = 0 then Some ?k else None)" using d(4) r(1) by (simp add: sc(5))
    moreover have "r = 0 \<longleftrightarrow> n < ?m" "Suc (Suc n) - ?m = Suc r" using False by (auto simp: r_def)
    moreover have "drop (Suc r) [0..< Suc (Suc n)] = drop (Suc r) [0..< Suc n] @ [Suc n]"
      using r(1) by (simp add: upt_Suc [of 0 "Suc n"] del: upt_Suc)
    ultimately have "disconnected_log (Suc n) ?new"
      using False d sc assms(5) r(1) by (auto simp: disconnected_log_def Let_def simp del: upt_Suc drop_upt)
    then show ?thesis using \<open>pushLimited (Suc n) ?sc = Some ?new\<close> d(1) by auto
  qed
qed


lemma run_pushes_append:
  "run_pushes env (sps @ sps') sc = Option.bind (run_pushes env sps sc) (run_pushes env sps')"
  by (induction sps arbitrary: sc) (simp_all add: Option.bind_assoc cong: Option.bind_cong)

lemma first_disconnected:
  assumes "1 \<le> m" "cv_kind lost = ConnectEvent_Disconnected"
  shows "\<exists>sc. perform_push env (s0, Push_ConnectEvent lost) (statusCenter_new m) = Some sc \<and> disconnected_log 0 sc"
proof -
  have "perform_push env (s0, Push_ConnectEvent lost) (statusCenter_new m) = pushStreamsReconnecting s0 (statusCenter_new m)"
    using assms(2) by (cases env) (simp add: perform_push_def handleConnectEvent_def)
  then show ?thesis
    using assms(1)
    by (simp add: pushStreamsReconnecting_def push_new_def pushEntry_def statusCenter_new_def applyPendingStatus_def
        tryUpdateExistingEntry_def completeEntryDescendants_def complete_loop.simps [of "[]"] pushLimited_def
        sc_entry_def pending_key_def truthy_def builder_defs entry_empty_def or_empty_def key_str_def is_on_def
        disconnected_log_def Let_def)
qed

lemma uploads_disconnected:
  assumes "center_inv sc" "disconnected_log n sc" "hashes sc \<subseteq> H" "1 \<le> sc_max sc"
    and "distinct (map (fst \<circ> fst) errs)" "set (map (fst \<circ> fst) errs) \<inter> H = {}"
    and "key_str Key_DataStreamsReconnecting \<notin> H \<union> set (map (fst \<circ> fst) errs)"
  shows "\<exists>sc'. run_pushes env (map (\<lambda>(s, e). (s, Push_LogsUploadError e)) errs) sc = Some sc'
    \<and> disconnected_log (n + length errs) sc' \<and> center_inv sc' \<and> sc_max sc' = sc_max sc
    \<and> hashes sc' \<subseteq> H \<union> set (map (fst \<circ> fst) errs)"
  using assms
proof (induction errs arbitrary: sc n H)
  case Nil
  then show ?case by simp
next
  case (Cons se errs)
  obtain s e where se: "se = (s, e)" by (cases se)
  let ?f = "builder_setComponent (Some (component_str Component_HubbleUI))
       \<circ> builder_setUnderlyingError (Some e) \<circ> builder_setDetails (Some (error_message e))
       \<circ> builder_setTitle (Some ''Failed to upload logs file'') \<circ> builder_setIntent Intent_Error"
  have fresh: "fst s \<notin> hashes sc" "key_str Key_DataStreamsReconnecting \<notin> hashes sc"
    "fst s \<noteq> key_str Key_DataStreamsReconnecting"
    using Cons.prems(3,6,7) by (auto simp: se)
  have eq: "perform_push env (s, Push_LogsUploadError e) sc = push_new s ?f sc"
    by (cases env) (simp add: perform_push_def pushServiceMapLogsUploadError_def)
  have "push_new s ?f sc = pushLimited (sc_next sc) (entry_pushed s (?f (entry_empty s)) sc)"
    by (rule plain_push [OF Cons.prems(1) fresh(1)]) (simp_all add: builder_defs entry_empty_def or_empty_def)
  then obtain sc1 where sc1: "perform_push env (s, Push_LogsUploadError e) sc = Some sc1" "disconnected_log (Suc n) sc1"
    using pushLimited_disconnected [OF Cons.prems(2,4) fresh(2,3), of "?f (entry_empty s)"] eq
    by (auto simp: builder_defs entry_empty_def)
  have well: "center_inv sc1" "sc_max sc1 = sc_max sc" "hashes sc1 \<subseteq> insert (fst s) H"
    using perform_well [OF Cons.prems(1), of "(s, Push_LogsUploadError e)" env] fresh(1) sc1(1) Cons.prems(3)
    by (auto simp: pushed_well_def)
  have prems: "distinct (map (fst \<circ> fst) errs)" "set (map (fst \<circ> fst) errs) \<inter> insert (fst s) H = {}"
      "key_str Key_DataStreamsReconnecting \<notin> insert (fst s) H \<union> set (map (fst \<circ> fst) errs)" "1 \<le> sc_max sc1"
    using Cons.prems(4-7) well(2) by (auto simp: se comp_def)
  show ?case using Cons.IH [OF well(1) sc1(2) well(3) prems(4,1-3)] sc1(1) well(2) by (auto simp: se)
qed

lemma back_disconnected:
  assumes "center_inv sc" "disconnected_log n sc" "fst s1 \<notin> hashes sc" "key_str Key_DataStreamsReconnecting \<notin> hashes sc"
    and "fst s1 \<noteq> key_str Key_DataStreamsReconnecting" "getEntryByKey (key_str Key_DataStreamsReconnecting) sc = None"
    and "1 \<le> sc_max sc" "cv_kind back = ConnectEvent_Success" "cv_isAllReconnected back = Some True"
  shows "\<exists>sc'. perform_push env (s1, Push_ConnectEvent back) sc = Some sc' \<and> disconnected_log (Suc n) sc'"
proof -
  obtain d where eq: "perform_push env (s1, Push_ConnectEvent back) sc =
      push_new s1 (builder_setKeysToComplete (Some [key_str Key_DataStreamsReconnecting]) \<circ> builder_setDetails d
      \<circ> builder_setTitle (Some ''Data streams are reconnected.'') \<circ> builder_setIntent Intent_Success) sc"
    using assms(8,9) by (cases env) (auto simp: perform_push_def handleConnectEvent_def is_on_def pushStreamsReconnected_def Let_def)
  let ?f = "builder_setKeysToComplete (Some [key_str Key_DataStreamsReconnecting]) \<circ> builder_setDetails d
      \<circ> builder_setTitle (Some ''Data streams are reconnected.'') \<circ> builder_setIntent Intent_Success"
  have e: "se_key (?f (entry_empty s1)) = None" "\<not> se_isPending (?f (entry_empty s1))"
    "or_empty (se_keysToComplete (?f (entry_empty s1))) = [key_str Key_DataStreamsReconnecting]"
    by (simp_all add: builder_defs entry_empty_def or_empty_def set_of_list_def set_add_def)
  have "push_new s1 ?f sc = pushLimited (sc_next sc) (entry_pushed s1 (?f (entry_empty s1)) sc)"
    by (rule plain_push [OF assms(1,3)]) (use e assms(6) in simp_all)
  then show ?thesis using pushLimited_disconnected [OF assms(2,7,4,5) e(1,2)] eq by simp
qed

text \<open>an entry that is pushed out of a full log stays pending for good. After a disconnection and as many
  other entries as the log holds, the entry about the disconnection is no longer in the log; its key is
  forgotten but it is still in the map of pending entries, from where it is deleted by its hash though it
  was put there by its key. So when the streams are back it is not completed: the log is read, there is a
  success on top, and the preview of critical entries still shows the disconnection.\<close>

theorem evicted_entry_stays_pending:
  assumes "1 \<le> maxNotifications" "maxNotifications \<le> length errs"
    and "distinct (fst s0 # map (fst \<circ> fst) errs @ [fst s1])"
    and "key_str Key_DataStreamsReconnecting \<notin> set (fst s0 # map (fst \<circ> fst) errs @ [fst s1])"
    and "cv_kind lost = ConnectEvent_Disconnected" "cv_kind back = ConnectEvent_Success" "cv_isAllReconnected back = Some True"
  shows "\<exists>sc. run_pushes env ((s0, Push_ConnectEvent lost)
        # map (\<lambda>(s, e). (s, Push_LogsUploadError e)) errs @ [(s1, Push_ConnectEvent back)])
        (statusCenter_new maxNotifications) = Some sc
    \<and> 0 \<notin> set (statusCenter_list sc) \<and> criticalPreview sc = Some 0 \<and> criticalPreview (setSeen sc) = Some 0"
proof -
  let ?K = "key_str Key_DataStreamsReconnecting" and ?new = "statusCenter_new maxNotifications"
  let ?n = "length errs"
  obtain sc0 where sc0: "perform_push env (s0, Push_ConnectEvent lost) ?new = Some sc0" "disconnected_log 0 sc0"
    using first_disconnected [OF assms(1,5)] by blast
  have well: "center_inv sc0" "sc_max sc0 = maxNotifications" "hashes sc0 \<subseteq> {fst s0}"
    using perform_well [of ?new "(s0, Push_ConnectEvent lost)" env] center_new(1) [OF assms(1)] center_new(2,3) sc0(1)
    by (auto simp: pushed_well_def)
  obtain sc1 where sc1: "run_pushes env (map (\<lambda>(s, e). (s, Push_LogsUploadError e)) errs) sc0 = Some sc1"
      "disconnected_log ?n sc1" "center_inv sc1" "sc_max sc1 = maxNotifications"
      "hashes sc1 \<subseteq> insert (fst s0) (set (map (fst \<circ> fst) errs))"
    using uploads_disconnected [OF well(1) sc0(2) well(3), of errs env] well(2) assms(1,3,4) by auto
  have fresh: "fst s1 \<notin> hashes sc1" "?K \<notin> hashes sc1" "fst s1 \<noteq> ?K" using sc1(5) assms(3,4) by auto
  have none: "getEntryByKey ?K sc1 = None"
    using sc1(2,4) assms(2) by (simp add: disconnected_log_def Let_def getEntryByKey_def)
  obtain sc2 where sc2: "perform_push env (s1, Push_ConnectEvent back) sc1 = Some sc2" "disconnected_log (Suc ?n) sc2"
    using back_disconnected [OF sc1(3,2) fresh none _ assms(6,7)] sc1(4) assms(1) by blast
  have "sc_max sc2 = maxNotifications"
    using perform_well [of sc1 "(s1, Push_ConnectEvent back)" env] sc1(3,4) fresh(1) sc2(1) by (auto simp: pushed_well_def)
  then have "0 \<notin> set (sc_notifications sc2)" "sc_notifications sc2 \<noteq> []" "sc_pendingEntries sc2 = [(?K, 0)]"
      "se_intent (sc_heap sc2 0) = Intent_Error"
    using sc2(2) assms(1,2) by (simp_all add: disconnected_log_def Let_def del: upt_Suc)
  then show ?thesis
    using sc0(1) sc1(1) sc2(1)
    by (simp add: run_pushes_append statusCenter_list_def criticalPreview_def setSeen_def sc_entry_def entry_isError_def)
qed


text \<open>The intent that the metadata of an error ask for only decides that the entry is informational.\<close>

lemma grpc_intent_is_info:
  "parseIntent (first_metadata ''intent'' g) = Some i \<Longrightarrow> se_intent (fillEntryWithGrpcError g e) = Intent_Info"
  by (simp add: fillEntryWithGrpcError_def builder_defs Let_def)

lemma grpc_intent_critical:
  "se_intent (fillEntryWithGrpcError
     \<lparr>ge_code = Some 14, ge_message = ''down'', ge_metadata = [(''intent'', [''critical''])]\<rparr> e) = Intent_Info"
  by (rule grpc_intent_is_info [of _ Intent_Critical]) (simp add: first_metadata_def parseIntent_def intent_str_def)

section \<open>Witnesses\<close>

definition demo_env :: status_env where
  "demo_env = (\<lambda>_. ''{}'', \<lambda>_. None, \<lambda>_. ''connection refused'')"

definition demo_down :: connect_event where
  "demo_down = connectEvent_new ConnectEvent_Disconnected"

definition demo_up :: connect_event where
  "demo_up = (connectEvent_new ConnectEvent_Success)\<lparr>cv_isAllReconnected := Some True\<rparr>"

definition demo_pushes :: "(stamp \<times> status_push) list" where
  "demo_pushes =
     [((''a'', 1), Push_ConnectEvent demo_down), ((''b'', 2), Push_LogsUploadError (Plain_Error ''disk'')),
      ((''c'', 3), Push_ConnectEvent ((connectEvent_new ConnectEvent_AttemptDelay)\<lparr>cv_delay := Some 1500\<rparr>))]"

theorem pushes_return_witness: "run_pushes demo_env demo_pushes (statusCenter_new 2) \<noteq> None"
  by (rule pushes_return) (simp_all add: demo_pushes_def)

theorem status_log_invariant_witness:
  "\<exists>sc. run_pushes demo_env demo_pushes (statusCenter_new 2) = Some sc \<and> length (statusCenter_list sc) = 2
    \<and> length (statusCenter_list sc) \<le> 2 \<and> distinct (statusCenter_list sc)"
proof -
  have "map_option (\<lambda>sc. length (statusCenter_list sc)) (run_pushes demo_env demo_pushes (statusCenter_new 2)) = Some 2"
    by code_simp
  then obtain sc where sc: "run_pushes demo_env demo_pushes (statusCenter_new 2) = Some sc" "length (statusCenter_list sc) = 2"
    by auto
  have "distinct (map (fst \<circ> fst) demo_pushes)" by (simp add: demo_pushes_def)
  from status_log_invariant [OF _ this sc(1)] show ?thesis using sc by simp
qed

theorem reconnected_completes_entry_witness:
  "\<exists>sc sc'. run_pushes demo_env demo_pushes (statusCenter_new 2) = Some sc \<and> se_isPending (sc_entry sc 0)
    \<and> perform_push demo_env ((''d'', 4), Push_ConnectEvent demo_up) sc = Some sc' \<and> \<not> se_isPending (sc_entry sc' 0)"
proof -
  have "map_option (\<lambda>sc. (getEntryByKey (key_str Key_DataStreamsReconnecting) sc, se_isPending (sc_entry sc 0)))
      (run_pushes demo_env demo_pushes (statusCenter_new 2)) = Some (Some 0, True)"
    by code_simp
  then obtain sc where sc: "run_pushes demo_env demo_pushes (statusCenter_new 2) = Some sc"
      "getEntryByKey (key_str Key_DataStreamsReconnecting) sc = Some 0" "se_isPending (sc_entry sc 0)"
    by auto
  have "distinct (map (fst \<circ> fst) (demo_pushes @ [((''d'', 4), Push_ConnectEvent demo_up)]))"
    by (simp add: demo_pushes_def)
  note reach = run_reachable [OF _ this sc(1)]
  then obtain sc' where sc': "perform_push demo_env ((''d'', 4), Push_ConnectEvent demo_up) sc = Some sc'"
    using perform_well [of sc "((''d'', 4), Push_ConnectEvent demo_up)" demo_env] by (auto simp: pushed_well_def)
  have "cv_kind demo_up = ConnectEvent_Success" "cv_isAllReconnected demo_up = Some True"
    by (simp_all add: demo_up_def connectEvent_new_def)
  moreover have "distinct (map (fst \<circ> fst) (demo_pushes @ [((''d'', 4), Push_ConnectEvent demo_up)]))"
    by (simp add: demo_pushes_def)
  ultimately have "\<not> se_isPending (sc_entry sc' 0)"
    using reconnected_completes_entry [OF _ _ sc(1,2) _ _ sc'] by simp
  then show ?thesis using sc sc' by blast
qed

theorem evicted_entry_stays_pending_witness:
  "\<exists>sc. run_pushes demo_env ((((''a'', 1), Push_ConnectEvent demo_down)
        # map (\<lambda>(s, e). (s, Push_LogsUploadError e)) [((''b'', 2), Plain_Error ''disk''), ((''c'', 3), Plain_Error ''disk'')]
        @ [((''d'', 4), Push_ConnectEvent demo_up)])) (statusCenter_new 2) = Some sc
    \<and> 0 \<notin> set (statusCenter_list sc) \<and> criticalPreview sc = Some 0 \<and> criticalPreview (setSeen sc) = Some 0"
  by (rule evicted_entry_stays_pending)
    (simp_all add: demo_down_def demo_up_def connectEvent_new_def key_str_def)

end
