(* ===== verification/Router.thy ===== *)
theory Router
  imports Data_Controls
begin

text \<open>
  \<open>src/router\<close>: the URL as a copy of the controls.  The router collects actions in a transaction, most of
  them from the events of the controls; \<open>commit\<close> runs them on the current location and emits the new
  one, which the browser hands back with \<open>searchParamsUpdated\<close> and \<open>locationUpdated\<close>.  Each commit marks its
  entry of the history with a random id, by which the router tells its own changes from those of the
  back button; ids are arguments.  \<open>URLSearchParams\<close> is a list of pairs.  Parameters: \<open>url\<close> is the path name
  of \<open>new URL(s, base)\<close> or \<open>new URL(s)\<close>, if it does not raise.  The value of an entry of the history is
  any JSON.
\<close>

section \<open>Search parameters\<close>

type_synonym search_params = "(string \<times> string) list"

definition params_get :: "string \<Rightarrow> search_params \<Rightarrow> string option" where
  "params_get k ps = map_of ps k"

definition params_delete :: "string \<Rightarrow> search_params \<Rightarrow> search_params" where
  "params_delete k ps = filter (\<lambda>p. fst p \<noteq> k) ps"

text \<open>\<open>set\<close> changes the first pair of that name and removes the others.\<close>

fun params_set :: "string \<Rightarrow> string \<Rightarrow> search_params \<Rightarrow> search_params" where
  "params_set k v [] = [(k, v)]"
| "params_set k v (p # ps) = (if fst p = k then (k, v) # params_delete k ps else p # params_set k v ps)"

section \<open>Paths\<close>

type_synonym url_fun = "string \<Rightarrow> string option \<Rightarrow> string option"

text \<open>\<open>str.replace(/^(\/\/)\/*/g, '/')\<close>, \<open>str.replace(/\/+$/g, '')\<close> and \<open>str.replace(/^\/*/g, '')\<close>.\<close>

definition one_leading_slash :: "string \<Rightarrow> string" where
  "one_leading_slash s = (if starts_with s ''//'' then ''/'' @ dropWhile (\<lambda>c. c = CHR ''/'') s else s)"

definition rtrim_slashes :: "string \<Rightarrow> string" where
  "rtrim_slashes s = rev (dropWhile (\<lambda>c. c = CHR ''/'') (rev s))"

definition ltrimSlashes :: "string \<Rightarrow> string" where
  "ltrimSlashes s = dropWhile (\<lambda>c. c = CHR ''/'') s"

definition extractPathname :: "url_fun \<Rightarrow> string \<Rightarrow> string \<Rightarrow> string" where
  "extractPathname url urlOrPath pathBase =
     (let safePath = one_leading_slash urlOrPath;
          orSlash = (\<lambda>p. let r = rtrim_slashes p in if r = [] then ''/'' else r)
      in case url safePath (Some (''http://localhost'' @ pathBase)) of
           Some p \<Rightarrow> orSlash p
         | None \<Rightarrow> (case url safePath None of Some p \<Rightarrow> orSlash p | None \<Rightarrow> ''/''))"

section \<open>Actions\<close>

datatype route_param = RouteParam_Namespace | RouteParam_Verdicts | RouteParam_FlowsFilter | RouteParam_HttpStatus

definition param_str :: "route_param \<Rightarrow> string" where
  "param_str p =
     (case p of RouteParam_Namespace \<Rightarrow> ''namespace'' | RouteParam_Verdicts \<Rightarrow> ''verdicts''
      | RouteParam_FlowsFilter \<Rightarrow> ''flows-filter'' | RouteParam_HttpStatus \<Rightarrow> ''http-status'')"

text \<open>Values are texts, numbers or null.  An action has one of four fields.\<close>

datatype param_value = PV_Null | PV_String string | PV_Number int

datatype route_action =
    Route_Param string param_value
  | Route_Path string
  | Route_DropSearchParams
  | Route_StateParam string param_value

definition routePath_new :: "url_fun \<Rightarrow> string \<Rightarrow> route_action" where
  "routePath_new url path =
     (let pathname = extractPathname url path []
      in Route_Path (if starts_with path ''/'' then pathname else ltrimSlashes pathname))"

record transaction_runner =
  tr_path :: string
  tr_searchParams :: search_params
  tr_stateParams :: "(string, param_value) js_map"

definition runner_new :: "string option \<Rightarrow> search_params \<Rightarrow> transaction_runner" where
  "runner_new pathname ps =
     \<lparr>tr_path = (if truthy pathname then the pathname else ''/''), tr_searchParams = ps, tr_stateParams = []\<rparr>"

definition runner_pathStep :: "url_fun \<Rightarrow> string \<Rightarrow> transaction_runner \<Rightarrow> transaction_runner" where
  "runner_pathStep url path tr = tr\<lparr>tr_path := extractPathname url path (tr_path tr)\<rparr>"

definition runner_paramStep :: "string \<Rightarrow> param_value \<Rightarrow> transaction_runner \<Rightarrow> transaction_runner" where
  "runner_paramStep param v tr =
     tr\<lparr>tr_searchParams :=
       (case v of
          PV_Null \<Rightarrow> params_delete param (tr_searchParams tr)
        | PV_String s \<Rightarrow> params_set param s (tr_searchParams tr)
        | PV_Number n \<Rightarrow> params_set param (int_to_string n) (tr_searchParams tr))\<rparr>"

definition runner_stateParamStep :: "string \<Rightarrow> param_value \<Rightarrow> transaction_runner \<Rightarrow> transaction_runner" where
  "runner_stateParamStep param v tr = tr\<lparr>tr_stateParams := map_set param v (tr_stateParams tr)\<rparr>"

definition runner_dropParams :: "transaction_runner \<Rightarrow> transaction_runner" where
  "runner_dropParams tr = tr\<lparr>tr_searchParams := []\<rparr>"

definition runner_do :: "url_fun \<Rightarrow> route_action \<Rightarrow> transaction_runner \<Rightarrow> transaction_runner" where
  "runner_do url act tr =
     (case act of
        Route_Path p \<Rightarrow> runner_pathStep url p tr
      | Route_Param p v \<Rightarrow> runner_paramStep p v tr
      | Route_DropSearchParams \<Rightarrow> runner_dropParams tr
      | Route_StateParam p v \<Rightarrow> runner_stateParamStep p v tr)"

definition runner_doMany :: "url_fun \<Rightarrow> route_action list \<Rightarrow> transaction_runner \<Rightarrow> transaction_runner" where
  "runner_doMany url acts tr = fold (runner_do url) acts tr"

definition runner_finish :: "transaction_runner \<Rightarrow> string \<times> search_params \<times> (string, param_value) js_map" where
  "runner_finish tr = (tr_path tr, tr_searchParams tr, tr_stateParams tr)"

section \<open>The state of a location\<close>

text \<open>A value of the history; the fields of an object are its own.  A field called \<open>__proto__\<close> cannot be
  assigned.\<close>

datatype js_value = JV_Null | JV_Bool bool | JV_Number int | JV_String string | JV_Object "(string \<times> js_value) list"

definition jv_field :: "string \<Rightarrow> js_value \<Rightarrow> js_value" where
  "jv_field k v = (case v of JV_Object fs \<Rightarrow> (case map_of fs k of Some w \<Rightarrow> w | None \<Rightarrow> JV_Null) | _ \<Rightarrow> JV_Null)"

definition jv_isObject :: "js_value \<Rightarrow> bool" where
  "jv_isObject v = (case v of JV_Object _ \<Rightarrow> True | _ \<Rightarrow> False)"

definition jv_assign :: "string \<Rightarrow> js_value \<Rightarrow> (string \<times> js_value) list \<Rightarrow> (string \<times> js_value) list" where
  "jv_assign k v fs = (if k = ''__proto__'' then fs else map_set k v fs)"

record location_state =
  ls_id :: string
  ls_params :: "(string, js_value) js_map option"

definition location_empty :: "string \<Rightarrow> location_state" where
  "location_empty hash = \<lparr>ls_id = hash, ls_params = None\<rparr>"

definition location_setId :: "string \<Rightarrow> location_state \<Rightarrow> location_state" where
  "location_setId i st = st\<lparr>ls_id := i\<rparr>"

definition location_setParams :: "(string, js_value) js_map \<Rightarrow> location_state \<Rightarrow> location_state" where
  "location_setParams ps st = st\<lparr>ls_params := Some ps\<rparr>"

definition location_asSerializable :: "location_state \<Rightarrow> js_value" where
  "location_asSerializable st =
     JV_Object ((''id'', JV_String (ls_id st)) #
       (case ls_params st of
          None \<Rightarrow> []
        | Some ps \<Rightarrow> [(''params'', JV_Object (fold (\<lambda>(k, v). jv_assign k v) ps []))]))"

text \<open>\<open>hash\<close> is the random id of the empty state that is returned for what is no state.  The keys of an
  object are taken in the order of its fields; no caller depends on it.\<close>

definition location_fromSerializable :: "string \<Rightarrow> js_value \<Rightarrow> location_state" where
  "location_fromSerializable hash ser =
     (if \<not> jv_isObject ser then location_empty hash
      else case jv_field ''id'' ser of
             JV_String i \<Rightarrow>
               (let state = location_setId i (location_empty hash)
                in case jv_field ''params'' ser of
                     JV_Object fs \<Rightarrow> location_setParams (fold (\<lambda>(k, v). map_set k v) fs []) state
                   | _ \<Rightarrow> state)
           | _ \<Rightarrow> location_empty hash)"

definition location_extractSerializable :: "js_value \<Rightarrow> js_value" where
  "location_extractSerializable st =
     (if \<not> jv_isObject st then JV_Null
      else if jv_field ''hubbleUIState'' st \<noteq> JV_Null then jv_field ''hubbleUIState'' st
      else jv_field ''hubbleUIState'' (jv_field ''usr'' st))"

definition location_hasSerializable :: "js_value \<Rightarrow> bool" where
  "location_hasSerializable st \<longleftrightarrow> location_extractSerializable st \<noteq> JV_Null"

definition location_fromHistoryState :: "string \<Rightarrow> js_value \<Rightarrow> js_value \<Rightarrow> location_state" where
  "location_fromHistoryState hash current st =
     (let ser = location_extractSerializable (if st = JV_Null then current else st)
      in if ser = JV_Null then location_empty hash else location_fromSerializable hash ser)"

section \<open>The router\<close>

datatype application_path = ApplicationPath_ServiceMap

definition path_str :: "application_path \<Rightarrow> string" where
  "path_str p = (case p of ApplicationPath_ServiceMap \<Rightarrow> ''/'')"

record location =
  lc_pathname :: string
  lc_state :: js_value

record location_updated_event =
  lu_location :: location
  lu_isDetached :: bool
  lu_hubbleUIState :: "location_state option"

datatype router_event =
    Router_Commit string search_params js_value
  | Router_LocationUpdated location_updated_event
  | Router_Initialized

record router =
  ro_location :: "location option"
  ro_searchParams :: search_params
  ro_isLocationInitialized :: bool
  ro_isSearchParamsInitialized :: bool
  ro_latestLocationStateFootprint :: "string option"
  ro_transaction :: "route_action list"

definition router_new :: router where
  "router_new =
     \<lparr>ro_location = None, ro_searchParams = [], ro_isLocationInitialized = False,
      ro_isSearchParamsInitialized = False, ro_latestLocationStateFootprint = None, ro_transaction = []\<rparr>"

definition router_isInitialized :: "router \<Rightarrow> bool" where
  "router_isInitialized r \<longleftrightarrow> ro_isLocationInitialized r \<and> ro_isSearchParamsInitialized r"

definition router_pathParts :: "router \<Rightarrow> string list" where
  "router_pathParts r =
     (case ro_location r of None \<Rightarrow> [] | Some l \<Rightarrow> drop 1 (split_on (CHR ''/'') (lc_pathname l)))"

definition router_updateInitializedFields :: "bool \<Rightarrow> bool \<Rightarrow> router \<Rightarrow> router \<times> router_event list" where
  "router_updateInitializedFields locInited spInited r =
     (let r1 = r\<lparr>ro_isLocationInitialized := ro_isLocationInitialized r \<or> locInited,
                 ro_isSearchParamsInitialized := ro_isSearchParamsInitialized r \<or> spInited\<rparr>;
          first = (\<not> ro_isLocationInitialized r \<and> locInited \<or> \<not> ro_isSearchParamsInitialized r \<and> spInited)
      in (r1, if router_isInitialized r1 \<and> first then [Router_Initialized] else []))"

definition router_searchParamsUpdated :: "search_params \<Rightarrow> router \<Rightarrow> router \<times> router_event list" where
  "router_searchParamsUpdated ps r =
     router_updateInitializedFields (ro_isLocationInitialized r) True (r\<lparr>ro_searchParams := ps\<rparr>)"

text \<open>A state that is there is read from the location, so the current state of the history is not asked for.\<close>

definition router_locationUpdated :: "string \<Rightarrow> location \<Rightarrow> router \<Rightarrow> router \<times> router_event list" where
  "router_locationUpdated hash loc r =
     (let (r1, evs) = router_updateInitializedFields True (ro_isSearchParamsInitialized r) (r\<lparr>ro_location := Some loc\<rparr>);
          st = (if location_hasSerializable (lc_state loc)
                then Some (location_fromHistoryState hash JV_Null (lc_state loc)) else None);
          isDetached = (case st of None \<Rightarrow> True | Some s \<Rightarrow> ro_latestLocationStateFootprint r \<noteq> Some (ls_id s))
      in (r1\<lparr>ro_latestLocationStateFootprint := map_option ls_id st\<rparr>,
          evs @ [Router_LocationUpdated \<lparr>lu_location = loc, lu_isDetached = isDetached, lu_hubbleUIState = st\<rparr>]))"

definition router_getApplicationByPath :: "string option \<Rightarrow> application" where
  "router_getApplicationByPath p =
     (let firstPart = (case find (\<lambda>part. trim part \<noteq> []) (split_on (CHR ''/'') (case p of None \<Rightarrow> [] | Some s \<Rightarrow> s))
                       of None \<Rightarrow> [] | Some s \<Rightarrow> s)
      in if firstPart = [] \<or> firstPart = path_str ApplicationPath_ServiceMap then Application_ServiceMap
         else Application_ServiceMap)"

definition router_getCurrentApplication :: "router \<Rightarrow> application" where
  "router_getCurrentApplication r =
     router_getApplicationByPath (case router_pathParts r of [] \<Rightarrow> None | p # _ \<Rightarrow> Some p)"

record route_params =
  rp_app :: application
  rp_namespace :: "string option"
  rp_verdicts :: "verdict list"
  rp_httpStatus :: "string option"
  rp_flowFilters :: "filter_entry list"

definition router_getRouteParams :: "router \<Rightarrow> route_params" where
  "router_getRouteParams r =
     (let ps = ro_searchParams r
      in \<lparr>rp_app = router_getCurrentApplication r,
          rp_namespace = params_get (param_str RouteParam_Namespace) ps,
          rp_verdicts = verdict_parseManySet
            (VerdictMany_One (case params_get (param_str RouteParam_Verdicts) ps of
                None \<Rightarrow> VerdictSrc_Null | Some s \<Rightarrow> VerdictSrc_String s)) (CHR ''-''),
          rp_httpStatus = params_get (param_str RouteParam_HttpStatus) ps,
          rp_flowFilters = fe_parseMany (params_get (param_str RouteParam_FlowsFilter) ps) (CHR '','')\<rparr>)"

definition router_updateRouteParams :: "(string \<times> param_value) list \<Rightarrow> router \<Rightarrow> router" where
  "router_updateRouteParams pairs r =
     r\<lparr>ro_transaction := ro_transaction r @ map (\<lambda>(p, v). Route_Param p v) pairs\<rparr>"

definition router_updateRouteParam :: "route_param \<Rightarrow> param_value \<Rightarrow> router \<Rightarrow> router" where
  "router_updateRouteParam p v = router_updateRouteParams [(param_str p, v)]"

definition router_goto :: "url_fun \<Rightarrow> string \<Rightarrow> (string \<times> param_value) list \<Rightarrow> router \<Rightarrow> router" where
  "router_goto url path pairs r =
     router_updateRouteParams pairs (r\<lparr>ro_transaction := ro_transaction r @ [routePath_new url path]\<rparr>)"

definition router_getApplicationPathByApp :: "application \<Rightarrow> application_path" where
  "router_getApplicationPathByApp app = (case app of Application_ServiceMap \<Rightarrow> ApplicationPath_ServiceMap)"

definition router_openApplication :: "url_fun \<Rightarrow> application \<Rightarrow> router \<Rightarrow> router" where
  "router_openApplication url app = router_goto url (path_str (router_getApplicationPathByApp app)) []"

definition router_dropSearchParams :: "router \<Rightarrow> router" where
  "router_dropSearchParams r = r\<lparr>ro_transaction := ro_transaction r @ [Route_DropSearchParams]\<rparr>"

text \<open>\<open>fixNavigateOptions\<close> always gets a state from \<open>commit\<close>.\<close>

definition router_fixNavigateOptions :: "js_value \<Rightarrow> js_value" where
  "router_fixNavigateOptions state = JV_Object [(''hubbleUIState'', state)]"

definition pv_json :: "param_value \<Rightarrow> js_value" where
  "pv_json v = (case v of PV_Null \<Rightarrow> JV_Null | PV_String s \<Rightarrow> JV_String s | PV_Number n \<Rightarrow> JV_Number n)"

definition router_commit :: "url_fun \<Rightarrow> string \<Rightarrow> router \<Rightarrow> router \<times> router_event list" where
  "router_commit url hash r =
     (if ro_transaction r = [] then (r, [])
      else let (path, ps, stateParams) = runner_finish (runner_doMany url (ro_transaction r)
                  (runner_new (map_option lc_pathname (ro_location r)) (ro_searchParams r)));
               state = location_setParams (map (\<lambda>(k, v). (k, pv_json v)) stateParams) (location_empty hash)
           in (r\<lparr>ro_transaction := [], ro_latestLocationStateFootprint := Some (ls_id state)\<rparr>,
               [Router_Commit path ps (router_fixNavigateOptions (location_asSerializable state))]))"

text \<open>The handlers of the events of the controls.\<close>

definition pv_of :: "string option \<Rightarrow> param_value" where
  "pv_of s = (case s of None \<Rightarrow> PV_Null | Some t \<Rightarrow> PV_String t)"

definition router_handle :: "controls_event \<Rightarrow> router \<Rightarrow> router" where
  "router_handle ev r =
     (case ev of
        CurrentNamespaceChanged d \<Rightarrow> router_updateRouteParam RouteParam_Namespace (pv_of (d_after d)) r
      | VerdictsChanged d \<Rightarrow>
          (let param = verdict_join (map_option (map Some) (d_after d)) (CHR ''-'')
           in router_updateRouteParam RouteParam_Verdicts (if param \<noteq> [] then PV_String param else PV_Null) r)
      | HTTPStatusChanged d \<Rightarrow> router_updateRouteParam RouteParam_HttpStatus (pv_of (d_after d)) r
      | FlowFiltersChanged d \<Rightarrow>
          (let str = map_option (\<lambda>fs. join_with '','' (map fe_toString fs)) (d_after d)
           in router_updateRouteParam RouteParam_FlowsFilter (if truthy str then PV_String (the str) else PV_Null) r)
      | _ \<Rightarrow> r)"


section \<open>Lemmas\<close>

lemma params_get_delete [simp]: "params_get k (params_delete k' ps) = (if k = k' then None else params_get k ps)"
  unfolding params_get_def params_delete_def by (induction ps) auto

lemma params_get_set [simp]: "params_get k (params_set k' v ps) = (if k = k' then Some v else params_get k ps)"
proof (induction ps)
  case Nil
  then show ?case by (simp add: params_get_def)
next
  case (Cons p ps)
  have "params_get k (params_delete k' ps) = (if k = k' then None else params_get k ps)" by simp
  with Cons show ?case by (cases p) (auto simp: params_get_def)
qed

lemma param_str_inject [simp]: "param_str p = param_str q \<longleftrightarrow> p = q"
  by (cases p; cases q) (simp_all add: param_str_def)

text \<open>What is committed: the parameters are those of the transaction's actions, whatever the path.\<close>

fun param_step :: "route_action \<Rightarrow> search_params \<Rightarrow> search_params" where
  "param_step (Route_Param p v) ps =
     (case v of PV_Null \<Rightarrow> params_delete p ps | PV_String s \<Rightarrow> params_set p s ps
      | PV_Number n \<Rightarrow> params_set p (int_to_string n) ps)"
| "param_step Route_DropSearchParams ps = []"
| "param_step _ ps = ps"

definition pending_params :: "router \<Rightarrow> search_params" where
  "pending_params r = fold param_step (ro_transaction r) (ro_searchParams r)"

lemma runner_params: "tr_searchParams (runner_doMany url acts tr) = fold param_step acts (tr_searchParams tr)"
  unfolding runner_doMany_def
proof (induction acts arbitrary: tr)
  case (Cons a acts)
  have "tr_searchParams (runner_do url a tr) = param_step a (tr_searchParams tr)"
    by (cases a) (simp_all add: runner_do_def runner_paramStep_def runner_pathStep_def runner_dropParams_def
        runner_stateParamStep_def split: param_value.split)
  then show ?case by (simp add: Cons)
qed simp

lemma pending_update [simp]:
  "pending_params (router_updateRouteParam p v r) = param_step (Route_Param (param_str p) v) (pending_params r)"
  by (simp add: pending_params_def router_updateRouteParam_def router_updateRouteParams_def)

lemma pending_goto [simp]: "pending_params (router_goto url path [] r) = pending_params r"
  by (simp add: pending_params_def router_goto_def router_updateRouteParams_def routePath_new_def Let_def)

lemma commit_emits:
  assumes "router_commit url hash r = (r', evs)"
  shows "ro_transaction r' = []"
    and "ro_transaction r = [] \<Longrightarrow> evs = [] \<and> r' = r"
    and "ro_transaction r \<noteq> [] \<Longrightarrow> \<exists>path ps. evs = [Router_Commit path (pending_params r)
      (router_fixNavigateOptions (location_asSerializable (location_setParams ps (location_empty hash))))]
      \<and> ro_latestLocationStateFootprint r' = Some hash"
  using assms
  by (auto simp: router_commit_def runner_finish_def Let_def runner_params runner_new_def pending_params_def
      location_setParams_def location_empty_def split: if_splits)

text \<open>Reading back the state of a location.\<close>

lemma jv_field_simps [simp]:
  "jv_field k (JV_Object ((k, v) # fs)) = v" "k \<noteq> k' \<Longrightarrow> jv_field k (JV_Object ((k', v) # fs)) = jv_field k (JV_Object fs)"
  "jv_field k (JV_Object []) = JV_Null"
  by (simp_all add: jv_field_def)

lemma location_extract_fixed [simp]:
  "location_extractSerializable (router_fixNavigateOptions (location_asSerializable st)) = location_asSerializable st"
  "location_extractSerializable (JV_Object [(''usr'', router_fixNavigateOptions (location_asSerializable st))]) =
     location_asSerializable st"
  by (simp_all add: location_extractSerializable_def router_fixNavigateOptions_def jv_isObject_def location_asSerializable_def)

lemma fixed_not_null [simp]: "router_fixNavigateOptions v \<noteq> JV_Null" "location_asSerializable st \<noteq> JV_Null"
  by (simp_all add: router_fixNavigateOptions_def location_asSerializable_def)

lemma params_fold_wf: "wf_map (ps' @ ps) \<Longrightarrow> fold (\<lambda>(k, v). map_set k v) ps ps' = ps' @ ps"
proof (induction ps arbitrary: ps')
  case (Cons p ps)
  obtain k v where p: "p = (k, v)" by (cases p)
  have "k \<notin> fst ` set ps'" using Cons.prems by (auto simp: p)
  then have "map_set k v ps' = ps' @ [(k, v)]" by (induction ps') auto
  with Cons show ?case by (simp add: p)
qed simp

lemma fold_assign_wf:
  "''__proto__'' \<notin> fst ` set ps \<Longrightarrow> fold (\<lambda>(k, v). jv_assign k v) ps ps' = fold (\<lambda>(k, v). map_set k v) ps ps'"
  by (induction ps arbitrary: ps') (auto simp: jv_assign_def)

lemma fromSerializable_id [simp]: "ls_id (location_fromSerializable hash (location_asSerializable st)) = ls_id st"
  by (cases "ls_params st")
    (simp_all add: location_fromSerializable_def jv_isObject_def location_asSerializable_def location_setId_def
      location_setParams_def Let_def)

lemma location_id_read [simp]:
  "ls_id (location_fromHistoryState hash current (router_fixNavigateOptions (location_asSerializable st))) = ls_id st"
  by (simp add: location_fromHistoryState_def Let_def)

text \<open>the state that marks an entry of the history survives the history: what is read from the
  navigation state of a commit, directly or as the router library wraps it, is the state that was put there, with
  its id and its parameters, deletions included.\<close>

theorem location_state_round_trip:
  assumes "\<And>ps. ls_params st = Some ps \<Longrightarrow> wf_map ps \<and> ''__proto__'' \<notin> fst ` set ps"
  shows "location_fromHistoryState hash current (router_fixNavigateOptions (location_asSerializable st)) = st
    \<and> location_fromHistoryState hash current
        (JV_Object [(''usr'', router_fixNavigateOptions (location_asSerializable st))]) = st"
proof -
  have "location_fromSerializable hash (location_asSerializable st) = st"
  proof (cases "ls_params st")
    case None
    then show ?thesis
      by (simp add: location_fromSerializable_def location_asSerializable_def jv_isObject_def Let_def location_setId_def
          location_empty_def)
  next
    case (Some ps)
    then have "wf_map ps" "''__proto__'' \<notin> fst ` set ps" using assms by blast+
    then have "fold (\<lambda>(k, v). map_set k v) (fold (\<lambda>(k, v). jv_assign k v) ps []) [] = ps"
      using params_fold_wf [of "[]" ps] by (simp add: fold_assign_wf)
    then show ?thesis using Some
      by (simp add: location_fromSerializable_def location_asSerializable_def jv_isObject_def Let_def location_setId_def
          location_empty_def location_setParams_def)
  qed
  then show ?thesis by (simp add: location_fromHistoryState_def Let_def)
qed

theorem location_state_round_trip_witness:
  "location_fromHistoryState ''x'' JV_Null (router_fixNavigateOptions
     (location_asSerializable \<lparr>ls_id = ''k3'', ls_params = Some [(''pod-prefilter'', JV_Null)]\<rparr>)) =
   \<lparr>ls_id = ''k3'', ls_params = Some [(''pod-prefilter'', JV_Null)]\<rparr>"
  by (rule location_state_round_trip [THEN conjunct1]) auto

text \<open>the router knows its own commits. The location that a commit leads to is not taken for a
  detached one; after it, a location is detached exactly when its state is not the one of that commit: the
  back and forward buttons, or a link from outside.\<close>

theorem commits_are_attached:
  assumes "router_commit url hash r = (r1, evs)" "Router_Commit path ps st \<in> set evs"
    and "router_locationUpdated hash1 \<lparr>lc_pathname = path, lc_state = st\<rparr> r1 = (r2, evs1)"
    and "router_locationUpdated hash2 loc r2 = (r3, evs2)"
  shows "(\<forall>e. Router_LocationUpdated e \<in> set evs1 \<longrightarrow> \<not> lu_isDetached e)
    \<and> (\<exists>e. Router_LocationUpdated e \<in> set evs2 \<and> (lu_isDetached e \<longleftrightarrow> \<not> location_hasSerializable (lc_state loc)
        \<or> ls_id (location_fromHistoryState hash2 JV_Null (lc_state loc)) \<noteq> hash))"
proof -
  have "ro_transaction r \<noteq> []" using commit_emits(2) [OF assms(1)] assms(2) by auto
  then obtain sps where st: "st = router_fixNavigateOptions (location_asSerializable (location_setParams sps (location_empty hash)))"
      and foot: "ro_latestLocationStateFootprint r1 = Some hash"
    using commit_emits(3) [OF assms(1)] assms(2) by auto
  have has: "location_hasSerializable st" by (simp add: location_hasSerializable_def st)
  have id: "ls_id (location_fromHistoryState hash1 JV_Null st) = hash"
    by (simp add: st) (simp add: location_setParams_def location_empty_def)
  have "ro_latestLocationStateFootprint r2 = Some hash" "\<forall>e. Router_LocationUpdated e \<in> set evs1 \<longrightarrow> \<not> lu_isDetached e"
    using assms(3) has id foot
    by (auto simp: router_locationUpdated_def router_updateInitializedFields_def Let_def split: if_splits)
  then show ?thesis
    using assms(4) by (auto simp: router_locationUpdated_def router_updateInitializedFields_def Let_def split: if_splits)
qed


theorem commits_are_attached_witness:
  "\<exists>r1 path st. fst (router_commit (\<lambda>s b. Some s) ''h1'' (router_updateRouteParam RouteParam_Namespace (PV_String ''kube'') router_new)) = r1
    \<and> (\<forall>e. Router_LocationUpdated e \<in> set (snd (router_locationUpdated ''h2'' \<lparr>lc_pathname = path, lc_state = st\<rparr> r1))
        \<longrightarrow> \<not> lu_isDetached e)"
proof -
  define r where "r = router_updateRouteParam RouteParam_Namespace (PV_String ''kube'') router_new"
  obtain r1 evs where c: "router_commit (\<lambda>s b. Some s) ''h1'' r = (r1, evs)" by fastforce
  have "ro_transaction r \<noteq> []" by (simp add: r_def router_updateRouteParam_def router_updateRouteParams_def)
  then obtain path ps st where ev: "evs = [Router_Commit path ps st]" using commit_emits(3) [OF c] by auto
  obtain r2 evs1 where u: "router_locationUpdated ''h2'' \<lparr>lc_pathname = path, lc_state = st\<rparr> r1 = (r2, evs1)" by fastforce
  obtain r3 evs2 where u2: "router_locationUpdated ''h3'' \<lparr>lc_pathname = ''/'', lc_state = JV_Null\<rparr> r2 = (r3, evs2)" by fastforce
  have "\<forall>e. Router_LocationUpdated e \<in> set evs1 \<longrightarrow> \<not> lu_isDetached e"
    using commits_are_attached [OF c _ u u2] ev by simp
  then show ?thesis
    using c u unfolding r_def [symmetric] by (intro exI [of _ r1] exI [of _ path] exI [of _ st]) simp
qed

end
