(* ===== verification/UI_Layer.thy ===== *)
theory UI_Layer
  imports Status_Center Router
begin

text \<open>
  \<open>src/ui-layer/controls.ts\<close> and the parts of \<open>src/ui-layer/ui-layer.ts\<close> that connect the URL with the store: what a
  user does goes through the controls of the data layer, whose events the router turns into actions that
  are then committed; a URL that was not reached by a commit is applied to the store.  The state joins the
  main store, the router, the state of data transfer and the status log.  The storage of the browser and
  the coordinates of the map, which are dropped when a URL is applied, are left out; the streams that follow
  a change of filters are in theory \<open>Data_Service_Map\<close>.
\<close>

record ui_layer =
  ul_store :: main_store
  ul_router :: router
  ul_transfer :: transfer_state
  ul_status :: status_center

text \<open>An operation of the data layer: the router handles the events in their order.\<close>

definition ui_controlled :: "main_store \<times> controls_event list \<Rightarrow> ui_layer \<Rightarrow> ui_layer" where
  "ui_controlled res u =
     (case res of (ms, evs) \<Rightarrow> u\<lparr>ul_store := ms, ul_router := fold router_handle evs (ul_router u)\<rparr>)"

definition ui_commit :: "url_fun \<Rightarrow> string \<Rightarrow> ui_layer \<Rightarrow> ui_layer \<times> router_event list" where
  "ui_commit url hash u = (case router_commit url hash (ul_router u) of (r, evs) \<Rightarrow> (u\<lparr>ul_router := r\<rparr>, evs))"

definition ui_openApplication :: "url_fun \<Rightarrow> application \<Rightarrow> ui_layer \<Rightarrow> ui_layer" where
  "ui_openApplication url app u = u\<lparr>ul_router := router_openApplication url app (ul_router u)\<rparr>"

definition ui_openApplicationByNamespace :: "url_fun \<Rightarrow> namespace_descriptor option \<Rightarrow> ui_layer \<Rightarrow> ui_layer" where
  "ui_openApplicationByNamespace url nsDesc u =
     (let currentApp = cs_currentApp (store_controls (ul_store u));
          targetApp = (if nsDesc = None then Application_ServiceMap
                       else if currentApp = Application_ServiceMap then Application_ServiceMap else currentApp)
      in ui_openApplication url targetApp u)"

text \<open>A namespace that is null never equals the missing field of a missing current one.\<close>

definition ui_namespaceChanged ::
  "uniq_by \<Rightarrow> (string \<Rightarrow> parsed_url) \<Rightarrow> int \<Rightarrow> url_fun \<Rightarrow> string \<Rightarrow> string option \<Rightarrow> ui_layer \<Rightarrow> ui_layer \<times> router_event list" where
  "ui_namespaceChanged uniqBy up now url hash ns u =
     (let u1 = ui_controlled (dl_setFlowFilters None (ul_store u)) u;
          u2 = ui_controlled (dl_setCurrentNamespace uniqBy up now ns (ul_store u1)) u1;
          current = store_currentNamespace (ul_store u2)
      in if ns = None \<or> map_option nd_namespace current \<noteq> ns then (u2, [])
         else ui_commit url hash (ui_openApplicationByNamespace url current u2))"

definition ui_toggleVerdict :: "url_fun \<Rightarrow> string \<Rightarrow> verdict option \<Rightarrow> ui_layer \<Rightarrow> ui_layer \<times> router_event list" where
  "ui_toggleVerdict url hash v u = ui_commit url hash (ui_controlled (dl_toggleVerdict v (ul_store u)) u)"

definition ui_toggleShowHost :: "ui_layer \<Rightarrow> ui_layer" where
  "ui_toggleShowHost u = ui_controlled (dl_toggleShowHost (ul_store u)) u"

definition ui_toggleShowKubeDNS :: "ui_layer \<Rightarrow> ui_layer" where
  "ui_toggleShowKubeDNS u = ui_controlled (dl_toggleShowKubeDNS (ul_store u)) u"

definition ui_toggleShowRemoteNode :: "ui_layer \<Rightarrow> ui_layer" where
  "ui_toggleShowRemoteNode u = ui_controlled (dl_toggleShowRemoteNode (ul_store u)) u"

definition ui_toggleShowPrometheusApp :: "ui_layer \<Rightarrow> ui_layer" where
  "ui_toggleShowPrometheusApp u = ui_controlled (dl_toggleShowPrometheusApp (ul_store u)) u"

definition ui_setFlowFilters :: "url_fun \<Rightarrow> string \<Rightarrow> filter_entry list option \<Rightarrow> ui_layer \<Rightarrow> ui_layer \<times> router_event list" where
  "ui_setFlowFilters url hash ff u = ui_commit url hash (ui_controlled (dl_setFlowFilters ff (ul_store u)) u)"

definition ui_applicationChanged :: "url_fun \<Rightarrow> string \<Rightarrow> application \<Rightarrow> ui_layer \<Rightarrow> ui_layer \<times> router_event list" where
  "ui_applicationChanged url hash app u = ui_commit url hash (ui_openApplication url app u)"

definition ui_adjustTransferState :: "namespace_descriptor option \<Rightarrow> ui_layer \<Rightarrow> ui_layer" where
  "ui_adjustTransferState ns u =
     u\<lparr>ul_transfer := dl_setDataMode (if ns \<noteq> None then DataMode_CiliumStreaming else DataMode_Disabled) None (ul_transfer u)\<rparr>"

text \<open>The handlers of the control stream.\<close>

definition ui_checkIfCurrentNamespaceNotObserved ::
  "stamp \<Rightarrow> (namespace_descriptor \<times> state_change) list \<Rightarrow> ui_layer \<Rightarrow> ui_layer option" where
  "ui_checkIfCurrentNamespaceNotObserved stamp changes u =
     (let nss = sh_namespaces (ms_shared (ul_store u))
      in case ns_currentNamespace nss of
           None \<Rightarrow> Some u
         | Some currentNs \<Rightarrow>
             (case find (\<lambda>ch. snd ch = StateChange_Added \<and> nd_namespace (fst ch) = currentNs) changes of
                None \<Rightarrow> Some u
              | Some _ \<Rightarrow>
                  (case namespaces_get nss (Some currentNs) of
                     None \<Rightarrow>
                       map_option (\<lambda>sc. u\<lparr>ul_status := sc\<rparr>) (pushNamespaceIsNotObserved stamp currentNs (ul_status u))
                   | Some nsDesc \<Rightarrow>
                       map_option (\<lambda>sc. ui_adjustTransferState (Some nsDesc) (u\<lparr>ul_status := sc\<rparr>))
                         (pushNamespaceIsObserved stamp nsDesc (ul_status u)))))"

definition ui_handleNamespaceChanges ::
  "stamp \<Rightarrow> (namespace_descriptor \<times> state_change) list \<Rightarrow> ui_layer \<Rightarrow> ui_layer option" where
  "ui_handleNamespaceChanges stamp changes u = ui_checkIfCurrentNamespaceNotObserved stamp changes u"

text \<open>The data layer sees an event of the control stream before the user interface does.\<close>

definition ui_controlEvent ::
  "(notification \<Rightarrow> string) \<Rightarrow> stamp \<Rightarrow> control_event \<Rightarrow> ui_layer \<Rightarrow> ui_layer option" where
  "ui_controlEvent stringify stamp ev u =
     (let (ms, ts) = dl_controlEvent ev (ul_store u, ul_transfer u);
          u1 = u\<lparr>ul_store := ms, ul_transfer := ts\<rparr>
      in case ev of
           CE_NamespaceChanges chs \<Rightarrow> ui_handleNamespaceChanges stamp chs u1
         | CE_Notification n \<Rightarrow> map_option (\<lambda>sc. u1\<lparr>ul_status := sc\<rparr>) (push stringify stamp n (ul_status u1)))"

definition ui_controlErrors :: "(int \<Rightarrow> string option) \<Rightarrow> (stamp \<times> custom_error) list \<Rightarrow> ui_layer \<Rightarrow> ui_layer option" where
  "ui_controlErrors codeName errs u =
     map_option (\<lambda>sc. u\<lparr>ul_status := sc\<rparr>) (pushControlStreamErrors codeName errs (ul_status u))"

text \<open>Applying a URL: what the storage says of the host, the DNS and the mode is an argument.\<close>

record storage_parameters =
  st_isHostShown :: bool
  st_isKubeDNSShown :: bool
  st_dataMode :: "data_mode option"

definition ui_fixDataMode :: "data_mode option \<Rightarrow> data_mode" where
  "ui_fixDataMode dm = (case dm of None \<Rightarrow> DataMode_CiliumStreaming | Some m \<Rightarrow> m)"

definition ui_applyLocalParameters ::
  "url_fun \<Rightarrow> string \<Rightarrow> storage_parameters \<Rightarrow> ui_layer \<Rightarrow> ui_layer \<times> router_event list" where
  "ui_applyLocalParameters url hash st u =
     (let rp = router_getRouteParams (ul_router u);
          ms1 = with_controls (\<lambda>c.
            controls_setVerdicts (rp_verdicts rp)
              (fst (controls_setFlowFilters (rp_flowFilters rp)
                (fst (controls_setHttpStatus (rp_httpStatus rp)
                  (fst (controls_setShowKubeDns (st_isKubeDNSShown st) (fst (controls_setShowHost (st_isHostShown st) c)))))))))
            (ul_store u);
          ms2 = ms1\<lparr>ms_shared := (ms_shared ms1)\<lparr>sh_namespaces :=
                  fst (namespaces_setCurrent (rp_namespace rp) (sh_namespaces (ms_shared ms1)))\<rparr>\<rparr>
      in ui_commit url hash (u\<lparr>ul_store := ms2,
           ul_transfer := fst (transfer_setDataMode (ui_fixDataMode (st_dataMode st)) (ul_transfer u))\<rparr>))"

text \<open>The difference that is handed to the data layer, if there is one.\<close>

definition ui_reapplyApplicationState ::
  "url_fun \<Rightarrow> string \<Rightarrow> storage_parameters \<Rightarrow> ui_layer \<Rightarrow> ui_layer \<times> router_event list \<times> filters_diff option" where
  "ui_reapplyApplicationState url hash st u =
     (let (u1, evs) = ui_applyLocalParameters url hash st u;
          d = filtersDiff_step (Some (store_filters (ul_store u1))) (store_filtersDiff (ul_store u))
      in (u1, evs, if filtersDiff_changed d then Some d else None))"

section \<open>Runs\<close>

datatype ui_action =
    UI_NamespaceChanged "string option"
  | UI_ToggleVerdict "verdict option"
  | UI_SetFlowFilters "filter_entry list option"
  | UI_ApplicationChanged application
  | UI_ToggleShowHost
  | UI_ToggleShowKubeDNS
  | UI_ToggleShowRemoteNode
  | UI_ToggleShowPrometheusApp

text \<open>The parameters of a run: lodash, the parser of URLs and the path of a URL.\<close>

type_synonym ui_env = "uniq_by \<times> (string \<Rightarrow> parsed_url) \<times> url_fun"

definition ui_perform :: "ui_env \<Rightarrow> int \<Rightarrow> string \<Rightarrow> ui_action \<Rightarrow> ui_layer \<Rightarrow> ui_layer \<times> router_event list" where
  "ui_perform env now hash act u =
     (let (uniqBy, up, url) = env
      in case act of
           UI_NamespaceChanged ns \<Rightarrow> ui_namespaceChanged uniqBy up now url hash ns u
         | UI_ToggleVerdict v \<Rightarrow> ui_toggleVerdict url hash v u
         | UI_SetFlowFilters ff \<Rightarrow> ui_setFlowFilters url hash ff u
         | UI_ApplicationChanged app \<Rightarrow> ui_applicationChanged url hash app u
         | UI_ToggleShowHost \<Rightarrow> (ui_toggleShowHost u, [])
         | UI_ToggleShowKubeDNS \<Rightarrow> (ui_toggleShowKubeDNS u, [])
         | UI_ToggleShowRemoteNode \<Rightarrow> (ui_toggleShowRemoteNode u, [])
         | UI_ToggleShowPrometheusApp \<Rightarrow> (ui_toggleShowPrometheusApp u, []))"

text \<open>The browser goes where a commit says and hands back the parameters and the location
  (\<open>src/router/Provider.tsx\<close>).\<close>

definition browser_navigates :: "string \<Rightarrow> router_event list \<Rightarrow> router \<Rightarrow> router" where
  "browser_navigates hash evs r =
     fold (\<lambda>ev r. case ev of
         Router_Commit path ps st \<Rightarrow>
           fst (router_locationUpdated hash \<lparr>lc_pathname = path, lc_state = st\<rparr> (fst (router_searchParamsUpdated ps r)))
       | _ \<Rightarrow> r) evs r"

definition ui_step :: "ui_env \<Rightarrow> int \<times> string \<times> ui_action \<Rightarrow> ui_layer \<Rightarrow> ui_layer" where
  "ui_step env step u =
     (let (now, hash, act) = step; (u1, evs) = ui_perform env now hash act u
      in u1\<lparr>ul_router := browser_navigates hash evs (ul_router u1)\<rparr>)"

definition ui_run :: "ui_env \<Rightarrow> (int \<times> string \<times> ui_action) list \<Rightarrow> ui_layer \<Rightarrow> ui_layer" where
  "ui_run env steps u = fold (ui_step env) steps u"


section \<open>What the URL shows\<close>

definition params_verdicts :: "search_params \<Rightarrow> verdict list" where
  "params_verdicts ps =
     verdict_parseManySet (VerdictMany_One (case params_get (param_str RouteParam_Verdicts) ps of
       None \<Rightarrow> VerdictSrc_Null | Some s \<Rightarrow> VerdictSrc_String s)) (CHR ''-'')"

definition params_filters :: "search_params \<Rightarrow> filter_entry list" where
  "params_filters ps = fe_parseMany (params_get (param_str RouteParam_FlowsFilter) ps) (CHR '','')"

lemma getRouteParams_simps [simp]:
  "rp_namespace (router_getRouteParams r) = params_get (param_str RouteParam_Namespace) (ro_searchParams r)"
  "rp_httpStatus (router_getRouteParams r) = params_get (param_str RouteParam_HttpStatus) (ro_searchParams r)"
  "rp_verdicts (router_getRouteParams r) = params_verdicts (ro_searchParams r)"
  "rp_flowFilters (router_getRouteParams r) = params_filters (ro_searchParams r)"
  by (simp_all add: router_getRouteParams_def params_verdicts_def params_filters_def Let_def)

definition text_or_null :: "string \<Rightarrow> string option" where
  "text_or_null s = (if s = [] then None else Some s)"

text \<open>The filters of the URL are those of the store, or its text was printed from entries with the same texts.\<close>

definition filters_shown :: "search_params \<Rightarrow> filter_entry list \<Rightarrow> bool" where
  "filters_shown ps fes \<longleftrightarrow>
     fe_toString ` set (params_filters ps) = fe_toString ` set fes
     \<or> (\<exists>ffs. fe_toString ` set ffs = fe_toString ` set fes
          \<and> params_get (param_str RouteParam_FlowsFilter) ps = text_or_null (join_with '','' (map fe_toString ffs)))"

definition url_shows :: "search_params \<Rightarrow> main_store \<Rightarrow> bool" where
  "url_shows ps ms \<longleftrightarrow>
     params_get (param_str RouteParam_Namespace) ps = fi_namespace (store_filters ms)
     \<and> params_get (param_str RouteParam_HttpStatus) ps = cs_httpStatus (store_controls ms)
     \<and> set (params_verdicts ps) = set (cs_verdicts (store_controls ms)) \<and> distinct (cs_verdicts (store_controls ms))
     \<and> filters_shown ps (cs_flowFilters (store_controls ms))"

text \<open>What the handlers of the router do to the pending parameters.\<close>

fun handled_params :: "controls_event \<Rightarrow> search_params \<Rightarrow> search_params" where
  "handled_params (CurrentNamespaceChanged d) ps = param_step (Route_Param (param_str RouteParam_Namespace) (pv_of (d_after d))) ps"
| "handled_params (VerdictsChanged d) ps =
     param_step (Route_Param (param_str RouteParam_Verdicts)
       (pv_of (text_or_null (verdict_join (map_option (map Some) (d_after d)) (CHR ''-''))))) ps"
| "handled_params (HTTPStatusChanged d) ps = param_step (Route_Param (param_str RouteParam_HttpStatus) (pv_of (d_after d))) ps"
| "handled_params (FlowFiltersChanged d) ps =
     param_step (Route_Param (param_str RouteParam_FlowsFilter)
       (pv_of (Option.bind (d_after d) (\<lambda>fs. text_or_null (join_with '','' (map fe_toString fs)))))) ps"
| "handled_params _ ps = ps"

lemma pending_handle [simp]: "pending_params (router_handle ev r) = handled_params ev (pending_params r)"
  by (cases ev) (simp_all add: router_handle_def Let_def text_or_null_def pv_of_def truthy_def split: option.split)

lemma pending_handled [simp]: "pending_params (fold router_handle evs r) = fold handled_params evs (pending_params r)"
  by (induction evs arbitrary: r) simp_all

lemma params_get_step [simp]:
  "params_get k (param_step (Route_Param k' (pv_of v)) ps) = (if k = k' then v else params_get k ps)"
  by (cases v) (simp_all add: pv_of_def)

declare param_step.simps(1) [simp del]

lemma shown_cong:
  "(\<And>p. params_get (param_str p) ps = params_get (param_str p) ps') \<Longrightarrow> url_shows ps ms = url_shows ps' ms"
  by (simp add: url_shows_def params_verdicts_def filters_shown_def params_filters_def)

lemma shown_other_param [simp]:
  "p \<noteq> RouteParam_FlowsFilter \<Longrightarrow> filters_shown (param_step (Route_Param (param_str p) (pv_of v)) ps) = filters_shown ps"
  "p \<noteq> RouteParam_Verdicts \<Longrightarrow> params_verdicts (param_step (Route_Param (param_str p) (pv_of v)) ps) = params_verdicts ps"
  by (simp_all add: filters_shown_def params_filters_def params_verdicts_def fun_eq_iff)

lemma shown_printed [simp]:
  "filters_shown (param_step (Route_Param (param_str RouteParam_FlowsFilter)
     (pv_of (text_or_null (join_with '','' (map fe_toString fes))))) ps) fes"
  by (auto simp: filters_shown_def)

text \<open>Verdicts in the URL.\<close>

lemma verdict_codes_no_dash: "CHR ''-'' \<notin> set (int_to_string (verdict_code v))"
  by (cases v) (simp_all, code_simp+)

lemma parse_joined_verdicts:
  "set (verdict_parseManySet (VerdictMany_One (case text_or_null (verdict_join (Some (map Some vs)) (CHR ''-'')) of
       None \<Rightarrow> VerdictSrc_Null | Some s \<Rightarrow> VerdictSrc_String s)) (CHR ''-'')) = set vs"
proof (cases "vs = []")
  case True
  then show ?thesis
    by (simp add: verdict_join_def text_or_null_def verdict_parseManySet_def verdict_parseMany_def List.map_filter_simps)
next
  case False
  let ?ws = "map (\<lambda>v. int_to_string (verdict_code v)) vs"
  have split: "split_on (CHR ''-'') (join_with ''-'' ?ws) = ?ws"
    using False verdict_codes_no_dash by (intro split_join) auto
  have "join_with ''-'' ?ws \<noteq> []"
  proof
    assume "join_with ''-'' ?ws = []"
    then have "?ws = [[]]" using split by simp
    then show False using verdict_parse_code [of "hd vs"] by (cases vs) (simp_all add: verdict_parse_def)
  qed
  then show ?thesis using split
    by (simp add: verdict_join_def text_or_null_def verdict_parseManySet_def verdict_parseMany_def comp_def map_filter_parse_codes)
qed


section \<open>The URL follows the store\<close>

lemma shows_toggles:
  assumes "url_shows ps ms"
  shows "url_shows (fold handled_params (snd (dl_toggleShowHost ms)) ps) (fst (dl_toggleShowHost ms))"
    "url_shows (fold handled_params (snd (dl_toggleShowKubeDNS ms)) ps) (fst (dl_toggleShowKubeDNS ms))"
    "url_shows (fold handled_params (snd (dl_toggleShowRemoteNode ms)) ps) (fst (dl_toggleShowRemoteNode ms))"
    "url_shows (fold handled_params (snd (dl_toggleShowPrometheusApp ms)) ps) (fst (dl_toggleShowPrometheusApp ms))"
  using assms
  by (simp_all add: dl_toggleShowHost_def dl_toggleShowKubeDNS_def dl_toggleShowRemoteNode_def
      dl_toggleShowPrometheusApp_def control_ops controls_emit_def controls_handle_def url_shows_def Let_def)

lemma shows_verdict:
  assumes "url_shows ps ms"
  shows "url_shows (fold handled_params (snd (dl_toggleVerdict v ms)) ps) (fst (dl_toggleVerdict v ms))"
proof -
  let ?next = "case v of None \<Rightarrow> [] | Some w \<Rightarrow> [w]" and ?prev = "cs_verdicts (store_controls ms)"
  have d: "distinct ?next" by (simp split: option.split)
  have eq: "verdictsEqual (Some ?prev) (Some ?next) \<longleftrightarrow> set ?prev = set ?next"
    using assms d by (simp add: verdictsEqual_iff or_empty_def url_shows_def)
  have printed: "set (params_verdicts (param_step (Route_Param (param_str RouteParam_Verdicts)
      (pv_of (text_or_null (verdict_join (Some (map Some vs)) (CHR ''-''))))) ps)) = set vs" for vs
    by (simp add: params_verdicts_def parse_joined_verdicts)
  show ?thesis
    using assms d eq printed
    by (simp add: dl_toggleVerdict_def control_ops controls_emit_def controls_handle_def url_shows_def
        diff_readChanged_def diff_changed_def diff_computeChanged_def misc_equals_def diff_step_def
        diff_dropCached_def diff_setComparator_def diff_new_def Let_def)
qed

lemma shows_filters:
  assumes "url_shows ps ms"
  shows "url_shows (fold handled_params (snd (dl_setFlowFilters ff ms)) ps) (fst (dl_setFlowFilters ff ms))"
proof -
  let ?new = "fe_unique (dl_normalizeFilterEntries ms (or_empty ff))"
  have "filters_shown ps ?new" if "fe_toString ` set (cs_flowFilters (store_controls ms)) = fe_toString ` set ?new"
    using assms that by (simp add: url_shows_def filters_shown_def)
  then show ?thesis
    using assms
    by (simp add: dl_setFlowFilters_def control_ops controls_emit_def controls_handle_def url_shows_def
        filterEntriesEqual_iff or_empty_def [of "Some _"] diff_step_def diff_dropCached_def diff_setComparator_def diff_new_def Let_def)
qed

lemma controls_of_flush [simp]:
  "store_controls (store_flush uniqBy up now opts ms) = controls_selectTableFlow None (store_controls ms)"
  by (simp add: store_flush_def current_flush_eq split_def Let_def store_controls_def)

lemma namespace_set [simp]:
  "fi_namespace (store_filters (ms\<lparr>ms_shared := (ms_shared ms)\<lparr>sh_namespaces :=
     fst (namespaces_setCurrent ns (sh_namespaces (ms_shared ms)))\<rparr>\<rparr>)) = ns"
  "store_controls (ms\<lparr>ms_shared := (ms_shared ms)\<lparr>sh_namespaces := nss\<rparr>\<rparr>) = store_controls ms"
  by (simp_all add: store_filters_def namespaces_setCurrent_def namespaces_current_def namespaces_get_def store_controls_def
      Let_def option.map_comp comp_def option.map_ident)

lemma shows_namespace:
  assumes "url_shows ps ms" "cs_verdicts (store_controls ms) = []" "cs_httpStatus (store_controls ms) = None"
    and "cs_flowFilters (store_controls ms) = []"
  shows "url_shows (fold handled_params (snd (dl_setCurrentNamespace uniqBy up now ns ms)) ps)
    (fst (dl_setCurrentNamespace uniqBy up now ns ms))"
  using assms
  by (auto simp: dl_setCurrentNamespace_def Let_def controls_emit_def controls_handle_def url_shows_def
      controls_resetUserSelected_def controls_selectTableFlow_def diff_step_def diff_new_def
      diff_dropCached_def)


text \<open>Commits and the browser keep the pending parameters.\<close>

lemma browser_params [simp]:
  "pending_params (browser_navigates hash [Router_Commit path ps st] r) =
     fold param_step (ro_transaction r) ps"
  "ro_transaction (browser_navigates hash [Router_Commit path ps st] r) = ro_transaction r"
  "ro_searchParams (browser_navigates hash [Router_Commit path ps st] r) = ps"
  by (simp_all add: browser_navigates_def router_locationUpdated_def router_searchParamsUpdated_def
      router_updateInitializedFields_def pending_params_def split_def Let_def)

lemma browser_nothing [simp]: "browser_navigates hash [] r = r"
  by (simp add: browser_navigates_def)

definition after_commit :: "url_fun \<Rightarrow> string \<Rightarrow> ui_layer \<times> router_event list \<Rightarrow> ui_layer" where
  "after_commit url hash res = (fst res)\<lparr>ul_router := browser_navigates hash (snd res) (ul_router (fst res))\<rparr>"

lemma after_nothing [simp]: "after_commit url hash (u, []) = u"
  by (simp add: after_commit_def)

lemma commit_keeps:
  "pending_params (ul_router (after_commit url hash (ui_commit url hash' u))) = pending_params (ul_router u)"
  "ul_store (after_commit url hash (ui_commit url hash' u)) = ul_store u"
  "ro_transaction (ul_router (after_commit url hash (ui_commit url hash' u))) = []"
proof -
  obtain r evs where c: "router_commit url hash' (ul_router u) = (r, evs)" by fastforce
  have "pending_params (browser_navigates hash evs r) = pending_params (ul_router u)
      \<and> ro_transaction (browser_navigates hash evs r) = []"
  proof (cases "ro_transaction (ul_router u) = []")
    case True
    then show ?thesis using commit_emits(2) [OF c] by simp
  next
    case False
    then obtain path st where "evs = [Router_Commit path (pending_params (ul_router u)) st]" using commit_emits(3) [OF c] by blast
    then show ?thesis using commit_emits(1) [OF c] by simp
  qed
  then show "pending_params (ul_router (after_commit url hash (ui_commit url hash' u))) = pending_params (ul_router u)"
    "ul_store (after_commit url hash (ui_commit url hash' u)) = ul_store u"
    "ro_transaction (ul_router (after_commit url hash (ui_commit url hash' u))) = []"
    using c by (simp_all add: after_commit_def ui_commit_def)
qed

definition ui_shows :: "ui_layer \<Rightarrow> bool" where
  "ui_shows u \<longleftrightarrow> url_shows (pending_params (ul_router u)) (ul_store u)"

lemma ui_shows_controlled:
  "ui_shows (ui_controlled res u) \<longleftrightarrow> url_shows (fold handled_params (snd res) (pending_params (ul_router u))) (fst res)"
  by (simp add: ui_shows_def ui_controlled_def split_def)

lemma ui_shows_commit [simp]: "ui_shows (after_commit url hash (ui_commit url hash' u)) = ui_shows u"
  by (simp add: ui_shows_def commit_keeps)

lemma ui_shows_open [simp]: "ui_shows (ui_openApplication url app u) = ui_shows u"
  by (simp add: ui_shows_def ui_openApplication_def router_openApplication_def)

lemma ui_shows_openByNamespace [simp]: "ui_shows (ui_openApplicationByNamespace url ns u) = ui_shows u"
  by (simp add: ui_openApplicationByNamespace_def Let_def)

text \<open>A change of the namespace forgets verdicts and HTTP status without an event.\<close>

definition keeps_url :: "ui_layer \<Rightarrow> ui_action \<Rightarrow> bool" where
  "keeps_url u act \<longleftrightarrow>
     (case act of
        UI_NamespaceChanged _ \<Rightarrow> cs_verdicts (store_controls (ul_store u)) = [] \<and> cs_httpStatus (store_controls (ul_store u)) = None
      | _ \<Rightarrow> True)"

lemma setFlowFilters_none:
  "cs_flowFilters (store_controls (fst (dl_setFlowFilters None ms))) = []"
  "cs_verdicts (store_controls (fst (dl_setFlowFilters ff ms))) = cs_verdicts (store_controls ms)"
  "cs_httpStatus (store_controls (fst (dl_setFlowFilters ff ms))) = cs_httpStatus (store_controls ms)"
proof -
  have "fe_unique (dl_normalizeFilterEntries ms (or_empty None)) = []"
    by (simp add: dl_normalizeFilterEntries_def or_empty_def) code_simp
  then show "cs_flowFilters (store_controls (fst (dl_setFlowFilters None ms))) = []"
    by (simp add: dl_setFlowFilters_def control_ops controls_emit_def Let_def)
qed (simp_all add: dl_setFlowFilters_def control_ops controls_emit_def Let_def)

lemma step_shows:
  assumes "ui_shows u" "keeps_url u act"
  shows "ui_shows (ui_step env (now, hash, act) u)"
proof -
  obtain uniqBy up url where env: "env = (uniqBy, up, url)" by (cases env) auto
  have eq: "ui_step env (now, hash, act) u = after_commit url hash (ui_perform env now hash act u)"
    by (simp add: ui_step_def after_commit_def split_def Let_def)
  have vis: "url_shows (pending_params (ul_router u)) (ul_store u)" using assms(1) by (simp add: ui_shows_def)
  show ?thesis
    unfolding eq
  proof (cases act)
    case (UI_NamespaceChanged ns)
    define u1 where "u1 = ui_controlled (dl_setFlowFilters None (ul_store u)) u"
    have u1: "ui_shows u1" using shows_filters [OF vis] by (simp add: u1_def ui_shows_controlled)
    have store1: "ul_store u1 = fst (dl_setFlowFilters None (ul_store u))" by (simp add: u1_def ui_controlled_def split_def)
    define u2 where "u2 = ui_controlled (dl_setCurrentNamespace uniqBy up now ns (ul_store u1)) u1"
    have "ui_shows u2"
      using shows_namespace [of "pending_params (ul_router u1)" "ul_store u1"] u1 assms(2)
      by (simp add: u2_def ui_shows_controlled) (simp add: ui_shows_def store1 setFlowFilters_none keeps_url_def UI_NamespaceChanged)
    moreover have "ui_perform env now hash act u =
        (if ns = None \<or> map_option nd_namespace (store_currentNamespace (ul_store u2)) \<noteq> ns then (u2, [])
         else ui_commit url hash (ui_openApplicationByNamespace url (store_currentNamespace (ul_store u2)) u2))"
      by (simp add: UI_NamespaceChanged ui_perform_def env ui_namespaceChanged_def Let_def u1_def u2_def)
    ultimately show "ui_shows (after_commit url hash (ui_perform env now hash act u))" by simp
  qed (use shows_toggles [OF vis] shows_verdict [OF vis] shows_filters [OF vis] assms(1) in
      \<open>simp_all add: ui_perform_def env ui_toggleVerdict_def ui_setFlowFilters_def ui_applicationChanged_def
        ui_shows_controlled ui_toggleShowHost_def ui_toggleShowKubeDNS_def ui_toggleShowRemoteNode_def
        ui_toggleShowPrometheusApp_def\<close>)
qed

section \<open>Properties\<close>

text \<open>Entries that the text of the URL can hold.\<close>

definition printable :: "filter_entry \<Rightarrow> bool" where
  "printable fe \<longleftrightarrow>
     CHR '','' \<notin> set (fe_toString fe) \<and> trim (fe_toString fe) = fe_toString fe
     \<and> (fe_isWorkload fe \<longrightarrow> CHR '':'' \<notin> set (print_undefined (fe_meta fe)))"

lemma parse_printed:
  assumes "\<And>s. s \<in> set ss \<Longrightarrow> CHR '','' \<notin> set s \<and> trim s = s \<and> (\<exists>e. fe_parse s = Some e \<and> fe_toString e = s)"
  shows "map fe_toString (fe_parseMany (text_or_null (join_with '','' ss)) (CHR '','')) = ss"
proof (cases "ss = []")
  case True
  then show ?thesis by (simp add: text_or_null_def fe_parseMany_def truthy_def)
next
  case False
  have split: "split_on (CHR '','') (join_with '','' ss) = ss" using False assms by (intro split_join) auto
  have "[] \<notin> set ss" using assms by (force simp: fe_parse_def)
  then have "join_with '','' ss \<noteq> []" using split False by (metis list.set_intros(1) split_by.simps(1))
  moreover have "map fe_toString (List.map_filter (\<lambda>part. fe_parse (trim part)) ss) = ss"
    using assms
  proof (induction ss)
    case (Cons s ss)
    then obtain e where "fe_parse s = Some e" "fe_toString e = s" "trim s = s" by auto
    then show ?case using Cons by (simp add: List.map_filter_simps)
  qed (simp add: List.map_filter_simps)
  ultimately show ?thesis
    by (simp add: text_or_null_def fe_parseMany_def fe_parseMany_fold truthy_def split)
qed

lemma shown_printable:
  assumes "filters_shown ps fes" "\<forall>fe \<in> set fes. printable fe"
  shows "fe_toString ` set (params_filters ps) = fe_toString ` set fes"
proof -
  have "fe_toString ` set (params_filters ps) = fe_toString ` set fes"
    if ffs: "fe_toString ` set ffs = fe_toString ` set fes"
      and get: "params_get (param_str RouteParam_FlowsFilter) ps = text_or_null (join_with '','' (map fe_toString ffs))" for ffs
  proof -
    have "map fe_toString (fe_parseMany (text_or_null (join_with '','' (map fe_toString ffs))) (CHR '','')) = map fe_toString ffs"
    proof (rule parse_printed)
      fix s
      assume "s \<in> set (map fe_toString ffs)"
      then obtain fe where fe: "fe \<in> set fes" "s = fe_toString fe" using ffs by (auto simp: image_iff set_eq_iff)
      then have p: "printable fe" using assms(2) by blast
      then have "fe_parse s = Some (fe_canonical fe)" using fe_parse_toString [of fe] fe(2) by (simp add: printable_def)
      then show "CHR '','' \<notin> set s \<and> trim s = s \<and> (\<exists>e. fe_parse s = Some e \<and> fe_toString e = s)"
        using p fe(2) by (simp add: printable_def)
    qed
    then have "fe_toString ` set (params_filters ps) = fe_toString ` set ffs"
      unfolding params_filters_def get by (metis list.set_map)
    then show ?thesis using ffs by simp
  qed
  then show ?thesis using assms(1) unfolding filters_shown_def by blast
qed

fun keeps_urls :: "ui_env \<Rightarrow> (int \<times> string \<times> ui_action) list \<Rightarrow> ui_layer \<Rightarrow> bool" where
  "keeps_urls env [] u = True"
| "keeps_urls env ((now, hash, act) # steps) u \<longleftrightarrow> keeps_url u act \<and> keeps_urls env steps (ui_step env (now, hash, act) u)"

lemma run_shows: "ui_shows u \<Longrightarrow> keeps_urls env steps u \<Longrightarrow> ui_shows (ui_run env steps u)"
proof (induction steps arbitrary: u)
  case Nil
  then show ?case by (simp add: ui_run_def)
next
  case (Cons s steps)
  obtain now hash act where s: "s = (now, hash, act)" by (cases s) auto
  show ?case using Cons.IH [of "ui_step env s u"] Cons.prems step_shows by (simp add: s ui_run_def)
qed

lemma applied_store:
  assumes "(u', evs) = ui_applyLocalParameters url hash st u"
  shows "fi_namespace (store_filters (ul_store u')) = params_get (param_str RouteParam_Namespace) (ro_searchParams (ul_router u))"
    and "cs_httpStatus (store_controls (ul_store u')) = params_get (param_str RouteParam_HttpStatus) (ro_searchParams (ul_router u))"
    and "cs_verdicts (store_controls (ul_store u')) = params_verdicts (ro_searchParams (ul_router u))"
    and "cs_flowFilters (store_controls (ul_store u')) = params_filters (ro_searchParams (ul_router u))"
  using assms
  by (auto simp: ui_applyLocalParameters_def Let_def ui_commit_def control_ops controls_setVerdicts_def split: prod.splits)

lemma applied_shows:
  assumes "ro_transaction (ul_router u) = []"
  shows "ui_shows (fst (ui_applyLocalParameters url hash st u))"
proof -
  obtain u' evs where u': "(u', evs) = ui_applyLocalParameters url hash st u" by (metis prod.collapse)
  have "ul_router u' = ul_router u"
    using assms u' by (auto simp: ui_applyLocalParameters_def ui_commit_def router_commit_def Let_def split: prod.splits)
  then have "pending_params (ul_router u') = ro_searchParams (ul_router u)" using assms by (simp add: pending_params_def)
  then have "ui_shows u'"
    using applied_store [OF u'] by (simp add: ui_shows_def url_shows_def filters_shown_def params_verdicts_def verdict_parseManySet_def)
  then show ?thesis using u' by (metis fst_conv)
qed

text \<open>C31: the URL holds the filters. Start from any URL that was applied to a store; let the user change verdicts, flow filters,
  shown services and the namespace (the namespace only while no verdict or status is chosen).  When the last change has been
  committed and the flow filters are printable (no comma or surrounding white space in their texts, no colon in workload
  kinds), opening the URL of the browser in any other session gives a store with the same namespace and HTTP status, the same
  set of verdicts, and flow filters with the same texts.  The switches of shown services are not part of the URL.\<close>

theorem url_holds_filters:
  assumes "ro_transaction (ul_router u0) = []" "u = fst (ui_applyLocalParameters url hash st u0)"
    and "keeps_urls env steps u" "u' = ui_run env steps u" "ro_transaction (ul_router u') = []"
    and "\<forall>fe \<in> set (cs_flowFilters (store_controls (ul_store u'))). printable fe"
    and "ro_searchParams (ul_router v) = ro_searchParams (ul_router u')" "w = fst (ui_applyLocalParameters url2 hash2 st2 v)"
  shows "fi_namespace (store_filters (ul_store w)) = fi_namespace (store_filters (ul_store u'))
    \<and> set (cs_verdicts (store_controls (ul_store w))) = set (cs_verdicts (store_controls (ul_store u')))
    \<and> cs_httpStatus (store_controls (ul_store w)) = cs_httpStatus (store_controls (ul_store u'))
    \<and> fe_toString ` set (cs_flowFilters (store_controls (ul_store w)))
        = fe_toString ` set (cs_flowFilters (store_controls (ul_store u')))"
proof -
  have "ui_shows u'" using run_shows [OF applied_shows [OF assms(1)]] assms(2-4) by simp
  then have "url_shows (ro_searchParams (ul_router v)) (ul_store u')"
    using assms(5,7) by (simp add: ui_shows_def pending_params_def)
  moreover obtain evs where "(w, evs) = ui_applyLocalParameters url2 hash2 st2 v" using assms(8) by (metis prod.collapse)
  note applied_store [OF this]
  ultimately show ?thesis using shown_printable assms(6) by (simp add: url_shows_def)
qed


lemma perform_namespace:
  assumes "env = (uniqBy, up, url)" "u1 = ui_controlled (dl_setFlowFilters None (ul_store u)) u"
    and "u2 = ui_controlled (dl_setCurrentNamespace uniqBy up now ns (ul_store u1)) u1"
  shows "ui_step env (now, hash, UI_NamespaceChanged ns) u =
    (if ns = None then u2
     else after_commit url hash (ui_commit url hash (ui_openApplicationByNamespace url (store_currentNamespace (ul_store u2)) u2)))"
proof -
  have eq: "ui_step env (now, hash, UI_NamespaceChanged ns) u = after_commit url hash (ui_perform env now hash (UI_NamespaceChanged ns) u)"
    by (simp add: ui_step_def after_commit_def split_def Let_def)
  have "map_option nd_namespace (store_currentNamespace (ul_store u2)) = ns" if "ns \<noteq> None"
  proof -
    have "map_option nd_namespace (store_currentNamespace (fst (dl_setCurrentNamespace uniqBy up now ns ms))) = ns" for ms
    proof (cases "map_option nd_namespace (store_currentNamespace ms) = ns")
      case True
      then show ?thesis using that by (simp add: dl_setCurrentNamespace_def Let_def)
    next
      case False
      have fi: "map_option nd_namespace (store_currentNamespace s) = fi_namespace (store_filters s)" for s
        by (simp add: store_currentNamespace_def store_filters_def Let_def)
      show ?thesis using False unfolding fi by (simp add: dl_setCurrentNamespace_def Let_def controls_emit_def fi)
    qed
    then show ?thesis by (simp add: assms(3) ui_controlled_def split_def)
  qed
  then show ?thesis unfolding eq
    by (simp add: assms ui_perform_def ui_namespaceChanged_def Let_def)
qed

text \<open>a change of the namespace leaves the old verdicts in the URL. The store forgets the chosen
  verdicts, but only the events of the flow filters and of the namespace are emitted; the URL that is
  committed still holds the verdicts, so a reload or the back button puts them into the store again.\<close>

theorem namespace_change_leaves_verdicts_in_url:
  assumes "ro_transaction (ul_router u) = []" "rp_verdicts (router_getRouteParams (ul_router u)) = v # vs"
    and "fi_namespace (store_filters (ul_store u)) \<noteq> Some ns"
    and "u' = ui_step env (now, hash, UI_NamespaceChanged (Some ns)) u"
  shows "cs_verdicts (store_controls (ul_store u')) = [] \<and> ro_transaction (ul_router u') = []
    \<and> rp_namespace (router_getRouteParams (ul_router u')) = Some ns
    \<and> rp_verdicts (router_getRouteParams (ul_router u')) = v # vs"
proof -
  obtain uniqBy up url where env: "env = (uniqBy, up, url)" by (cases env) auto
  define u1 where "u1 = ui_controlled (dl_setFlowFilters None (ul_store u)) u"
  define u2 where "u2 = ui_controlled (dl_setCurrentNamespace uniqBy up now (Some ns) (ul_store u1)) u1"
  define u3 where "u3 = ui_openApplicationByNamespace url (store_currentNamespace (ul_store u2)) u2"
  have u': "u' = after_commit url hash (ui_commit url hash u3)"
    using perform_namespace [OF env u1_def u2_def] assms(4) by (simp add: u3_def)
  have fi: "map_option nd_namespace (store_currentNamespace s) = fi_namespace (store_filters s)" for s
    by (simp add: store_currentNamespace_def store_filters_def Let_def)
  have p1: "params_verdicts (pending_params (ul_router u1)) = v # vs"
    using assms(1,2)
    by (simp add: u1_def ui_controlled_def split_def dl_setFlowFilters_def control_ops controls_emit_def controls_handle_def
        Let_def pending_params_def [of "ul_router u"] diff_step_def diff_dropCached_def)
  have store1: "fi_namespace (store_filters (ul_store u1)) \<noteq> Some ns"
    using assms(3) by (simp add: u1_def ui_controlled_def split_def dl_setFlowFilters_def control_ops controls_emit_def Let_def)
  have p2: "params_get (param_str RouteParam_Namespace) (pending_params (ul_router u2)) = Some ns"
      "params_verdicts (pending_params (ul_router u2)) = v # vs" "cs_verdicts (store_controls (ul_store u2)) = []"
    using store1 p1
    by (simp_all add: u2_def ui_controlled_def split_def dl_setCurrentNamespace_def Let_def controls_emit_def controls_handle_def fi
        diff_step_def diff_dropCached_def controls_resetUserSelected_def controls_selectTableFlow_def)
  have "pending_params (ul_router u3) = pending_params (ul_router u2)" "ul_store u3 = ul_store u2"
    by (simp_all add: u3_def ui_openApplicationByNamespace_def ui_openApplication_def router_openApplication_def Let_def)
  moreover have "ro_searchParams (ul_router u') = pending_params (ul_router u')"
    using commit_keeps(3) by (simp add: u' pending_params_def)
  ultimately show ?thesis using p2 by (simp add: u' commit_keeps)
qed

lemma handle_searchParams [simp]:
  "ro_searchParams (router_handle ev r) = ro_searchParams r"
  "ro_searchParams (fold router_handle evs r) = ro_searchParams r"
proof -
  have one: "ro_searchParams (router_handle ev r) = ro_searchParams r" for ev r
    by (cases ev) (simp_all add: router_handle_def router_updateRouteParam_def router_updateRouteParams_def Let_def)
  then show "ro_searchParams (router_handle ev r) = ro_searchParams r" .
  show "ro_searchParams (fold router_handle evs r) = ro_searchParams r"
    by (induction evs arbitrary: r) (simp_all add: one)
qed

text \<open>Leaving the namespace is not committed: the URL still shows it.\<close>

theorem leaving_namespace_is_not_committed:
  assumes "u' = ui_step env (now, hash, UI_NamespaceChanged None) u"
  shows "fi_namespace (store_filters (ul_store u')) = None \<and> ro_searchParams (ul_router u') = ro_searchParams (ul_router u)"
proof -
  obtain uniqBy up url where env: "env = (uniqBy, up, url)" by (cases env) auto
  show ?thesis
    using perform_namespace [OF env refl refl, where ns = None and now = now and hash = hash and u = u] assms
    by (simp add: ui_controlled_def split_def dl_setCurrentNamespace_def Let_def controls_emit_def)
qed

text \<open>the log never learns about a namespace that is not observed. The look-up of the current namespace
  always succeeds, so that entry is never pushed; and the entry that the namespace is observed is only
  pushed when the other one is there. Whatever changes of namespaces arrive, the log stays as it is.\<close>

theorem namespaces_never_reach_the_log:
  assumes "\<And>ns. getEntryByKey (not_observed_key ns) (ul_status u) = None"
  shows "\<exists>u'. ui_controlEvent stringify stamp (CE_NamespaceChanges chs) u = Some u' \<and> ul_status u' = ul_status u"
  using assms
  by (auto simp: ui_controlEvent_def dl_controlEvent_def ui_handleNamespaceChanges_def Let_def namespaces_get_def
      ui_checkIfCurrentNamespaceNotObserved_def pushNamespaceIsObserved_def ui_adjustTransferState_def split: option.splits)


section \<open>Witnesses\<close>

definition demo_ui :: "ui_layer" where
  "demo_ui =
     \<lparr>ul_store = store_new 0 demo_counters, ul_router = router_new, ul_transfer = transfer_new,
      ul_status = statusCenter_new 100\<rparr>"

definition demo_ui_env :: ui_env where
  "demo_ui_env = (uniq_first, \<lambda>s. \<lparr>pu_port = [], pu_pathname = []\<rparr>, \<lambda>s b. Some s)"

definition demo_storage :: storage_parameters where
  "demo_storage = \<lparr>st_isHostShown = True, st_isKubeDNSShown = False, st_dataMode = None\<rparr>"

definition demo_steps :: "(int \<times> string \<times> ui_action) list" where
  "demo_steps =
     [(1, ''a'', UI_NamespaceChanged (Some ''kube'')), (2, ''b'', UI_ToggleVerdict (Some Verdict_Dropped)),
      (3, ''c'', UI_SetFlowFilters (Some [fe_newPod ''kube/dns'']))]"

definition demo_ui_end :: ui_layer where
  "demo_ui_end = ui_run demo_ui_env demo_steps (fst (ui_applyLocalParameters (\<lambda>s b. Some s) ''x'' demo_storage demo_ui))"

lemma demo_end_values:
  "ro_transaction (ul_router demo_ui_end) = []"
  "cs_verdicts (store_controls (ul_store demo_ui_end)) = [Verdict_Dropped]"
  "cs_flowFilters (store_controls (ul_store demo_ui_end)) = [fe_newPod ''kube/dns'']"
  "fi_namespace (store_filters (ul_store demo_ui_end)) = Some ''kube''"
  by code_simp+


theorem url_holds_filters_witness:
  "cs_verdicts (store_controls (ul_store demo_ui_end)) = [Verdict_Dropped]
   \<and> set (cs_verdicts (store_controls (ul_store (fst (ui_applyLocalParameters (\<lambda>s b. Some s) ''y'' demo_storage
        (demo_ui\<lparr>ul_router := router_new\<lparr>ro_searchParams := ro_searchParams (ul_router demo_ui_end)\<rparr>\<rparr>)))))) = {Verdict_Dropped}"
proof -
  let ?u = "fst (ui_applyLocalParameters (\<lambda>s b. Some s) ''x'' demo_storage demo_ui)"
  have start: "cs_verdicts (store_controls (ul_store ?u)) = []" "cs_httpStatus (store_controls (ul_store ?u)) = None"
    by code_simp+
  have keeps: "keeps_urls demo_ui_env demo_steps ?u"
    unfolding demo_steps_def by (simp add: keeps_url_def start)
  have "\<forall>fe \<in> set (cs_flowFilters (store_controls (ul_store demo_ui_end))). printable fe"
    unfolding demo_end_values by code_simp
  from url_holds_filters [OF _ refl keeps demo_ui_end_def demo_end_values(1) this _ refl,
      of "demo_ui\<lparr>ul_router := router_new\<lparr>ro_searchParams := ro_searchParams (ul_router demo_ui_end)\<rparr>\<rparr>"]
  show ?thesis by (simp add: demo_end_values demo_ui_def router_new_def)
qed

theorem namespace_change_leaves_verdicts_in_url_witness:
  "cs_verdicts (store_controls (ul_store (ui_step demo_ui_env (4, ''d'', UI_NamespaceChanged (Some ''web'')) demo_ui_end))) = []
   \<and> rp_verdicts (router_getRouteParams (ul_router (ui_step demo_ui_env (4, ''d'', UI_NamespaceChanged (Some ''web'')) demo_ui_end)))
       = [Verdict_Dropped]"
proof -
  define w where "w = int_to_string (verdict_code Verdict_Dropped)"
  have get: "params_get (param_str RouteParam_Verdicts) (ro_searchParams (ul_router demo_ui_end)) = Some w"
    unfolding w_def by code_simp
  have "CHR ''-'' \<notin> set w" unfolding w_def by (rule verdict_codes_no_dash)
  then have "split_on (CHR ''-'') w = [w]" by (intro split_by_none) auto
  moreover have "verdict_parse (VerdictSrc_String w) = Some Verdict_Dropped" unfolding w_def by (rule verdict_parse_code)
  ultimately have "rp_verdicts (router_getRouteParams (ul_router demo_ui_end)) = [Verdict_Dropped]"
    unfolding getRouteParams_simps params_verdicts_def get
    by (simp add: verdict_parseManySet_def verdict_parseMany_def List.map_filter_simps)
  moreover have "fi_namespace (store_filters (ul_store demo_ui_end)) \<noteq> Some ''web''" by (simp add: demo_end_values(4))
  ultimately show ?thesis
    using namespace_change_leaves_verdicts_in_url [OF demo_end_values(1) _ _ refl,
      where v = Verdict_Dropped and vs = "[]" and ns = "''web''" and env = demo_ui_env and now = 4 and hash = "''d''"]
    by blast
qed

theorem namespaces_never_reach_the_log_witness:
  "\<exists>u'. ui_controlEvent (\<lambda>_. []) (''s'', 1) (CE_NamespaceChanges
      [(\<lparr>nd_namespace = ''kube'', nd_relay = True\<rparr>, StateChange_Added)]) demo_ui_end = Some u' \<and> sc_notifications (ul_status u') = []"
proof -
  have "sc_keyedEntries (ul_status demo_ui_end) = []" "sc_notifications (ul_status demo_ui_end) = []" by code_simp+
  moreover from this(1) have "getEntryByKey (not_observed_key ns) (ul_status demo_ui_end) = None" for ns
    by (simp add: getEntryByKey_def)
  ultimately show ?thesis
    using namespaces_never_reach_the_log [of demo_ui_end "\<lambda>_. []" "(''s'', 1)"
      "[(\<lparr>nd_namespace = ''kube'', nd_relay = True\<rparr>, StateChange_Added)]"] by auto
qed

end
