(* ===== verification/Storage.thy ===== *)
theory Storage
  imports UI_Layer
begin

text \<open>
  \<open>src/storage/local/index.ts\<close> and \<open>src/domain/aggregation/index.ts\<close>: the settings the browser keeps.  The local storage
  is a map from keys to texts.  It implements a record of settings: each function that saves is an update of one
  field.  \<open>JSON.parse\<close>, \<open>JSON.stringify\<close> and the conversions between fractions and texts are arguments.
\<close>

section \<open>Aggregation\<close>

datatype aggregator_type = Aggregator_Unknown | Aggregator_Connection | Aggregator_Identity

datatype agg_state_change = Agg_Unspec | Agg_New | Agg_Established | Agg_FirstError | Agg_Error | Agg_Closed

primrec aggregator_str :: "aggregator_type \<Rightarrow> string" where
  "aggregator_str Aggregator_Unknown = ''unknown''"
| "aggregator_str Aggregator_Connection = ''connection''"
| "aggregator_str Aggregator_Identity = ''identity''"

primrec agg_state_str :: "agg_state_change \<Rightarrow> string" where
  "agg_state_str Agg_Unspec = ''unspecified''"
| "agg_state_str Agg_New = ''new''"
| "agg_state_str Agg_Established = ''established''"
| "agg_state_str Agg_FirstError = ''first-error''"
| "agg_state_str Agg_Error = ''error''"
| "agg_state_str Agg_Closed = ''closed''"

record aggregator =
  ag_type :: aggregator_type
  ag_ignoreSourcePort :: bool

record aggregation =
  an_aggregators :: "aggregator list"
  an_stateChange :: agg_state_change

definition aggregation_default :: aggregation where
  "aggregation_default =
     \<lparr>an_aggregators = [\<lparr>ag_type = Aggregator_Identity, ag_ignoreSourcePort = False\<rparr>], an_stateChange = Agg_New\<rparr>"

definition aggregation_parseAggregatorType :: "string \<Rightarrow> aggregator_type option" where
  "aggregation_parseAggregatorType s =
     List.find (\<lambda>t. aggregator_str t = s) [Aggregator_Unknown, Aggregator_Connection, Aggregator_Identity]"

definition aggregation_parseStateChange :: "string \<Rightarrow> agg_state_change option" where
  "aggregation_parseStateChange s =
     List.find (\<lambda>t. agg_state_str t = s) [Agg_Unspec, Agg_New, Agg_Established, Agg_FirstError, Agg_Error, Agg_Closed]"

definition aggregation_clone :: "bool option \<Rightarrow> aggregation \<Rightarrow> aggregation" where
  "aggregation_clone deep an =
     \<lparr>an_aggregators =
        (if deep = Some True
         then map (\<lambda>ag. \<lparr>ag_type = ag_type ag, ag_ignoreSourcePort = ag_ignoreSourcePort ag\<rparr>) (an_aggregators an)
         else an_aggregators an),
      an_stateChange = an_stateChange an\<rparr>"

definition aggregator_key :: "aggregator \<Rightarrow> string" where
  "aggregator_key ag = aggregator_str (ag_type ag) @ ''/'' @ bool_to_string (ag_ignoreSourcePort ag)"

definition aggregation_equals :: "aggregation \<Rightarrow> aggregation \<Rightarrow> bool" where
  "aggregation_equals an rhs \<longleftrightarrow>
     (if an_stateChange an \<noteq> an_stateChange rhs then False
      else if length (an_aggregators an) \<noteq> length (an_aggregators rhs) then False
      else (let keys = set_of_list (map aggregator_key (an_aggregators an))
            in list_all (\<lambda>ag. aggregator_key ag \<in> set keys) (an_aggregators rhs)))"

definition aggregation_setStateChange :: "agg_state_change \<Rightarrow> aggregation \<Rightarrow> aggregation" where
  "aggregation_setStateChange sc an = \<lparr>an_aggregators = an_aggregators an, an_stateChange = sc\<rparr>"

definition aggregation_setAggregators :: "aggregator list \<Rightarrow> aggregation \<Rightarrow> aggregation" where
  "aggregation_setAggregators ags an = \<lparr>an_aggregators = ags, an_stateChange = an_stateChange an\<rparr>"

definition aggregation_setAggreatorTypes :: "aggregator_type list \<Rightarrow> aggregation \<Rightarrow> aggregation" where
  "aggregation_setAggreatorTypes types an =
     \<lparr>an_aggregators = map (\<lambda>t. \<lparr>ag_type = t, ag_ignoreSourcePort = False\<rparr>) types, an_stateChange = an_stateChange an\<rparr>"

definition aggregation_setBoth :: "aggregator list \<Rightarrow> agg_state_change \<Rightarrow> aggregation \<Rightarrow> aggregation" where
  "aggregation_setBoth ags sc an = \<lparr>an_aggregators = ags, an_stateChange = sc\<rparr>"

definition aggregation_toggleAggregatorType :: "aggregator_type \<Rightarrow> aggregation \<Rightarrow> aggregation" where
  "aggregation_toggleAggregatorType t an =
     (let ags = filter (\<lambda>ag. ag_type ag \<noteq> t) (an_aggregators an)
      in \<lparr>an_aggregators = (if length ags = length (an_aggregators an) then ags @ [\<lparr>ag_type = t, ag_ignoreSourcePort = False\<rparr>] else ags),
          an_stateChange = an_stateChange an\<rparr>)"

definition aggregation_hasStateChange :: "agg_state_change \<Rightarrow> aggregation \<Rightarrow> bool" where
  "aggregation_hasStateChange sc an \<longleftrightarrow> an_stateChange an = sc"

definition aggregation_hasAggregatorType :: "aggregator_type \<Rightarrow> aggregation \<Rightarrow> bool" where
  "aggregation_hasAggregatorType t an \<longleftrightarrow> list_ex (\<lambda>ag. ag_type ag = t) (an_aggregators an)"

definition aggregation_aggregatorTypes :: "aggregation \<Rightarrow> aggregator_type list" where
  "aggregation_aggregatorTypes an = map ag_type (an_aggregators an)"

lemma parse_aggregatorType [simp]: "aggregation_parseAggregatorType (aggregator_str t) = Some t"
  by (cases t) (simp_all add: aggregation_parseAggregatorType_def)

lemma parse_aggStateChange [simp]: "aggregation_parseStateChange (agg_state_str t) = Some t"
  by (cases t) (simp_all add: aggregation_parseStateChange_def)

text \<open>A toggle turns one type on or off and leaves the others.\<close>

lemma toggle_aggregatorType:
  "aggregation_hasAggregatorType t (aggregation_toggleAggregatorType t' an) \<longleftrightarrow>
     (if t = t' then \<not> aggregation_hasAggregatorType t an else aggregation_hasAggregatorType t an)"
proof -
  have len: "length (filter (\<lambda>ag. ag_type ag \<noteq> t') ags) = length ags \<longleftrightarrow> \<not> list_ex (\<lambda>ag. ag_type ag = t') ags" for ags
    by (induction ags) (simp_all add: less_imp_neq le_imp_less_Suc)
  have other: "list_ex (\<lambda>ag. ag_type ag = t) (filter (\<lambda>ag. ag_type ag \<noteq> t') ags) \<longleftrightarrow> t \<noteq> t' \<and> list_ex (\<lambda>ag. ag_type ag = t) ags" for ags
    by (induction ags) auto
  show ?thesis
    unfolding aggregation_hasAggregatorType_def aggregation_toggleAggregatorType_def Let_def len
    by (cases "list_ex (\<lambda>ag. ag_type ag = t') (an_aggregators an)") (auto simp: other)
qed

lemma aggregator_key_inj: "inj aggregator_key"
proof (rule injI)
  fix a b assume "aggregator_key a = aggregator_key b"
  then show "a = b"
  by (cases "ag_type a"; cases "ag_type b"; cases "ag_ignoreSourcePort a"; cases "ag_ignoreSourcePort b")
    (auto simp: aggregator_key_def bool_to_string_def intro: aggregator.equality)
qed

text \<open>With distinct aggregators equality compares them as sets; with repeated ones it depends on the side.\<close>

lemma aggregation_equals_sets:
  assumes "distinct (an_aggregators a)" "distinct (an_aggregators b)"
  shows "aggregation_equals a b \<longleftrightarrow> an_stateChange a = an_stateChange b \<and> set (an_aggregators a) = set (an_aggregators b)"
proof -
  let ?a = "an_aggregators a" and ?b = "an_aggregators b"
  have "list_all (\<lambda>ag. aggregator_key ag \<in> set (set_of_list (map aggregator_key ?a))) ?b \<longleftrightarrow> set ?b \<subseteq> set ?a"
    by (auto simp: list_all_iff set_of_list_def inj_image_mem_iff [OF aggregator_key_inj])
  moreover have "length ?a = length ?b \<and> set ?b \<subseteq> set ?a \<longleftrightarrow> set ?a = set ?b"
    using assms by (metis card_subset_eq distinct_card finite_set subset_refl)
  ultimately show ?thesis by (auto simp: aggregation_equals_def Let_def)
qed

lemma aggregation_equals_not_symmetric: "\<exists>a b. aggregation_equals a b \<and> \<not> aggregation_equals b a"
proof -
  let ?x = "\<lparr>ag_type = Aggregator_Identity, ag_ignoreSourcePort = False\<rparr>"
  let ?y = "\<lparr>ag_type = Aggregator_Connection, ag_ignoreSourcePort = False\<rparr>"
  have "aggregation_equals \<lparr>an_aggregators = [?x, ?y], an_stateChange = Agg_New\<rparr> \<lparr>an_aggregators = [?x, ?x], an_stateChange = Agg_New\<rparr>"
    "\<not> aggregation_equals \<lparr>an_aggregators = [?x, ?x], an_stateChange = Agg_New\<rparr> \<lparr>an_aggregators = [?x, ?y], an_stateChange = Agg_New\<rparr>"
    by code_simp+
  then show ?thesis by blast
qed


section \<open>The storage\<close>

type_synonym local_storage = "(string, string) js_map"

definition last_namespace_key :: string where "last_namespace_key = ''@hubble-ui/namespace''"
definition last_is_aggregation_off :: string where "last_is_aggregation_off = ''@hubble-ui/is-aggregation-off''"
definition last_aggregator_types_key :: string where "last_aggregator_types_key = ''@hubble-ui/aggregator-types''"
definition last_aggregation_state_change :: string where "last_aggregation_state_change = ''@hubble-ui/aggregation-state-change''"
definition flows_table_visible_columns_key :: string where "flows_table_visible_columns_key = ''@hubble-ui/flowstable-visible-columns''"
definition show_host_key :: string where "show_host_key = ''@hubble-ui/show-host''"
definition show_kubedns_key :: string where "show_kubedns_key = ''@hubble-ui/show-kube-dns''"
definition show_remote_node_key :: string where "show_remote_node_key = ''@hubble-ui/show-remote-node''"
definition show_prometheus_service_key :: string where "show_prometheus_service_key = ''@hubble-ui/show-prometheus-app''"
definition details_panel_pos :: string where "details_panel_pos = ''@hubble-ui/panel-position''"
definition data_mode_key :: string where "data_mode_key = ''@hubble-ui/data-mode''"
definition clusterwide_enabled_key :: string where "clusterwide_enabled_key = ''@hubble-ui/clusterwide-enabled''"
definition theme_preference_key :: string where "theme_preference_key = ''@hubble-ui/theme-preference''"

definition getLastNamespace :: "local_storage \<Rightarrow> string option" where
  "getLastNamespace st = map_get st last_namespace_key"

definition saveLastNamespace :: "string \<Rightarrow> local_storage \<Rightarrow> local_storage" where
  "saveLastNamespace ns st = map_set last_namespace_key ns st"

definition deleteLastNamespace :: "local_storage \<Rightarrow> local_storage" where
  "deleteLastNamespace st = map_delete last_namespace_key st"

definition getIsAggregationOff :: "local_storage \<Rightarrow> bool option" where
  "getIsAggregationOff st = (case map_get st last_is_aggregation_off of None \<Rightarrow> None | Some isOff \<Rightarrow> Some (isOff = ''true''))"

definition saveIsAggregationOff :: "bool \<Rightarrow> local_storage \<Rightarrow> local_storage" where
  "saveIsAggregationOff val st = map_set last_is_aggregation_off (bool_to_string val) st"

definition deleteLastIsAggregationOff :: "local_storage \<Rightarrow> local_storage" where
  "deleteLastIsAggregationOff st = map_delete last_is_aggregation_off st"

definition getLastAggregatorTypes :: "local_storage \<Rightarrow> aggregator_type list option" where
  "getLastAggregatorTypes st =
     (case map_get st last_aggregator_types_key of
        None \<Rightarrow> None | Some val \<Rightarrow> Some (List.map_filter aggregation_parseAggregatorType (split_on CHR '','' val)))"

definition deleteLastAggregatorTypes :: "local_storage \<Rightarrow> local_storage" where
  "deleteLastAggregatorTypes st = map_delete last_aggregator_types_key st"

definition saveLastAggregatorTypes :: "aggregator_type list option \<Rightarrow> local_storage \<Rightarrow> local_storage" where
  "saveLastAggregatorTypes types st =
     (case types of
        None \<Rightarrow> deleteLastAggregatorTypes st
      | Some ts \<Rightarrow>
          if ts = [] then deleteLastAggregatorTypes st
          else map_set last_aggregator_types_key (join_with '','' (map aggregator_str ts)) st)"

definition getLastAggregationStateChange :: "local_storage \<Rightarrow> agg_state_change option" where
  "getLastAggregationStateChange st =
     (case map_get st last_aggregation_state_change of
        None \<Rightarrow> None | Some val \<Rightarrow> if val = [] then None else aggregation_parseStateChange val)"

definition deleteLastAggregationStateChange :: "local_storage \<Rightarrow> local_storage" where
  "deleteLastAggregationStateChange st = map_delete last_aggregation_state_change st"

definition saveLastAggregationStateChange :: "agg_state_change option \<Rightarrow> local_storage \<Rightarrow> local_storage" where
  "saveLastAggregationStateChange sc st =
     (case sc of None \<Rightarrow> deleteLastAggregationStateChange st | Some s \<Rightarrow> map_set last_aggregation_state_change (agg_state_str s) st)"

text \<open>The switches: any other text than \<open>true\<close> means off.\<close>

definition getShowHost :: "local_storage \<Rightarrow> bool" where
  "getShowHost st \<longleftrightarrow> map_get st show_host_key = Some ''true''"

definition saveShowHost :: "bool \<Rightarrow> local_storage \<Rightarrow> local_storage" where
  "saveShowHost val st = map_set show_host_key (if val then ''true'' else ''false'') st"

definition getShowKubeDns :: "local_storage \<Rightarrow> bool" where
  "getShowKubeDns st \<longleftrightarrow> map_get st show_kubedns_key = Some ''true''"

definition saveShowKubeDns :: "bool \<Rightarrow> local_storage \<Rightarrow> local_storage" where
  "saveShowKubeDns val st = map_set show_kubedns_key (if val then ''true'' else ''false'') st"

definition getShowRemoteNode :: "local_storage \<Rightarrow> bool" where
  "getShowRemoteNode st \<longleftrightarrow> map_get st show_remote_node_key = Some ''true''"

definition saveShowRemoteNode :: "bool \<Rightarrow> local_storage \<Rightarrow> local_storage" where
  "saveShowRemoteNode val st = map_set show_remote_node_key (if val then ''true'' else ''false'') st"

definition getShowPrometheusApp :: "local_storage \<Rightarrow> bool" where
  "getShowPrometheusApp st \<longleftrightarrow> map_get st show_prometheus_service_key = Some ''true''"

definition saveShowPrometheusApp :: "bool \<Rightarrow> local_storage \<Rightarrow> local_storage" where
  "saveShowPrometheusApp val st = map_set show_prometheus_service_key (if val then ''true'' else ''false'') st"

definition getClusterwideEnabled :: "local_storage \<Rightarrow> bool" where
  "getClusterwideEnabled st \<longleftrightarrow> map_get st clusterwide_enabled_key = Some ''true''"

definition saveClusterwideEnabled :: "bool \<Rightarrow> local_storage \<Rightarrow> local_storage" where
  "saveClusterwideEnabled val st = map_set clusterwide_enabled_key (if val then ''true'' else ''false'') st"

primrec data_mode_str :: "data_mode \<Rightarrow> string" where
  "data_mode_str DataMode_CiliumStreaming = ''cilium-streaming''"
| "data_mode_str DataMode_Disabled = ''disabled''"

definition data_mode_of :: "string \<Rightarrow> data_mode option" where
  "data_mode_of v = List.find (\<lambda>m. data_mode_str m = v) [DataMode_CiliumStreaming, DataMode_Disabled]"

definition getDataMode :: "local_storage \<Rightarrow> data_mode option" where
  "getDataMode st =
     (case map_get st data_mode_key of
        None \<Rightarrow> None
      | Some v \<Rightarrow> data_mode_of v)"

definition saveDataMode :: "data_mode \<Rightarrow> local_storage \<Rightarrow> local_storage" where
  "saveDataMode mode st = map_set data_mode_key (data_mode_str mode) st"

definition getThemePreference :: "local_storage \<Rightarrow> string option" where
  "getThemePreference st = map_get st theme_preference_key"

definition saveThemePreference :: "string \<Rightarrow> local_storage \<Rightarrow> local_storage" where
  "saveThemePreference v st = map_set theme_preference_key v st"

text \<open>What the data layer reads when it starts; \<open>isAggregationOff\<close> is read and used nowhere.\<close>

definition readLocalStorageParams :: "local_storage \<Rightarrow> storage_parameters" where
  "readLocalStorageParams st =
     \<lparr>st_isHostShown = getShowHost st, st_isKubeDNSShown = getShowKubeDns st, st_dataMode = getDataMode st\<rparr>"

subsection \<open>Columns and the panel\<close>

datatype json = Json_Array "json list" | Json_String string | Json_Other

text \<open>Reading columns raises \<open>Storage_SyntaxError\<close> when the text is no JSON; the elements are not checked.\<close>

datatype storage_error = Storage_SyntaxError

datatype column =
  Column_Auth | Column_SrcPod | Column_SrcIp | Column_SrcService | Column_DstPod | Column_DstIp | Column_DstService
| Column_DstPort | Column_L7Info | Column_TrafficDirection | Column_Verdict | Column_TcpFlags | Column_Timestamp

primrec column_str :: "column \<Rightarrow> string" where
  "column_str Column_Auth = ''Authentication''"
| "column_str Column_SrcPod = ''Source Pod''"
| "column_str Column_SrcIp = ''Source IP''"
| "column_str Column_SrcService = ''Source Identity''"
| "column_str Column_DstPod = ''Destination Pod''"
| "column_str Column_DstIp = ''Destination IP''"
| "column_str Column_DstService = ''Destination Identity''"
| "column_str Column_DstPort = ''Destination Port''"
| "column_str Column_L7Info = ''L7 info''"
| "column_str Column_TrafficDirection = ''Traffic Direction''"
| "column_str Column_Verdict = ''Verdict''"
| "column_str Column_TcpFlags = ''TCP Flags''"
| "column_str Column_Timestamp = ''Timestamp''"

definition defaultVisibleColumns :: "column list" where
  "defaultVisibleColumns =
     set_of_list [Column_SrcService, Column_DstService, Column_DstPort, Column_L7Info, Column_Verdict, Column_Timestamp]"

definition getFlowsTableVisibleColumns :: "(string \<Rightarrow> json option) \<Rightarrow> local_storage \<Rightarrow> storage_error + json list option" where
  "getFlowsTableVisibleColumns json_parse st =
     (case map_get st flows_table_visible_columns_key of
        None \<Rightarrow> Inr None
      | Some val \<Rightarrow>
          if val = [] then Inr None
          else (case json_parse val of
                  None \<Rightarrow> Inl Storage_SyntaxError
                | Some (Json_Array arr) \<Rightarrow> Inr (Some (set_of_list arr))
                | Some _ \<Rightarrow> Inr None))"

definition saveFlowsTableVisibleColumns :: "(json \<Rightarrow> string) \<Rightarrow> column list \<Rightarrow> local_storage \<Rightarrow> local_storage" where
  "saveFlowsTableVisibleColumns json_print clmns st =
     map_set flows_table_visible_columns_key (json_print (Json_Array (map (Json_String \<circ> column_str) clmns))) st"

definition getDetailsPanelTop :: "(string \<Rightarrow> js_num) \<Rightarrow> local_storage \<Rightarrow> js_num option" where
  "getDetailsPanelTop parse_float st =
     (case map_get st details_panel_pos of None \<Rightarrow> None | Some num \<Rightarrow> if num = [] then None else Some (parse_float num))"

definition setDetailsPanelTop :: "(rat \<Rightarrow> string) \<Rightarrow> rat \<Rightarrow> local_storage \<Rightarrow> local_storage" where
  "setDetailsPanelTop num_print v st = map_set details_panel_pos (num_print v) st"

section \<open>The storage implements a record of settings\<close>

record settings =
  se_namespace :: "string option"
  se_aggregationOff :: "bool option"
  se_aggregatorTypes :: "aggregator_type list option"
  se_aggregationStateChange :: "agg_state_change option"
  se_showHost :: bool
  se_showKubeDns :: bool
  se_showRemoteNode :: bool
  se_showPrometheusApp :: bool
  se_dataMode :: "data_mode option"
  se_clusterwide :: bool
  se_theme :: "string option"
  se_columns :: "storage_error + json list option"
  se_panelTop :: "js_num option"

definition settings_of :: "(string \<Rightarrow> json option) \<Rightarrow> (string \<Rightarrow> js_num) \<Rightarrow> local_storage \<Rightarrow> settings" where
  "settings_of json_parse parse_float st =
     \<lparr>se_namespace = getLastNamespace st, se_aggregationOff = getIsAggregationOff st,
      se_aggregatorTypes = getLastAggregatorTypes st, se_aggregationStateChange = getLastAggregationStateChange st,
      se_showHost = getShowHost st, se_showKubeDns = getShowKubeDns st, se_showRemoteNode = getShowRemoteNode st,
      se_showPrometheusApp = getShowPrometheusApp st, se_dataMode = getDataMode st,
      se_clusterwide = getClusterwideEnabled st, se_theme = getThemePreference st,
      se_columns = getFlowsTableVisibleColumns json_parse st, se_panelTop = getDetailsPanelTop parse_float st\<rparr>"

datatype storage_call =
  Save_Namespace string | Delete_Namespace | Save_AggregationOff bool | Delete_AggregationOff
| Save_AggregatorTypes "aggregator_type list option" | Delete_AggregatorTypes
| Save_StateChange "agg_state_change option" | Delete_StateChange
| Save_ShowHost bool | Save_ShowKubeDns bool | Save_ShowRemoteNode bool | Save_ShowPrometheusApp bool
| Save_DataMode data_mode | Save_Clusterwide bool | Save_Theme string
| Save_Columns "column list" | Save_PanelTop rat

primrec storage_perform :: "(json \<Rightarrow> string) \<Rightarrow> (rat \<Rightarrow> string) \<Rightarrow> storage_call \<Rightarrow> local_storage \<Rightarrow> local_storage" where
  "storage_perform jp np (Save_Namespace ns) = saveLastNamespace ns"
| "storage_perform jp np Delete_Namespace = deleteLastNamespace"
| "storage_perform jp np (Save_AggregationOff b) = saveIsAggregationOff b"
| "storage_perform jp np Delete_AggregationOff = deleteLastIsAggregationOff"
| "storage_perform jp np (Save_AggregatorTypes ts) = saveLastAggregatorTypes ts"
| "storage_perform jp np Delete_AggregatorTypes = deleteLastAggregatorTypes"
| "storage_perform jp np (Save_StateChange sc) = saveLastAggregationStateChange sc"
| "storage_perform jp np Delete_StateChange = deleteLastAggregationStateChange"
| "storage_perform jp np (Save_ShowHost b) = saveShowHost b"
| "storage_perform jp np (Save_ShowKubeDns b) = saveShowKubeDns b"
| "storage_perform jp np (Save_ShowRemoteNode b) = saveShowRemoteNode b"
| "storage_perform jp np (Save_ShowPrometheusApp b) = saveShowPrometheusApp b"
| "storage_perform jp np (Save_DataMode m) = saveDataMode m"
| "storage_perform jp np (Save_Clusterwide b) = saveClusterwideEnabled b"
| "storage_perform jp np (Save_Theme v) = saveThemePreference v"
| "storage_perform jp np (Save_Columns cs) = saveFlowsTableVisibleColumns jp cs"
| "storage_perform jp np (Save_PanelTop v) = setDetailsPanelTop np v"

primrec settings_perform :: "storage_call \<Rightarrow> settings \<Rightarrow> settings" where
  "settings_perform (Save_Namespace ns) s = s\<lparr>se_namespace := Some ns\<rparr>"
| "settings_perform Delete_Namespace s = s\<lparr>se_namespace := None\<rparr>"
| "settings_perform (Save_AggregationOff b) s = s\<lparr>se_aggregationOff := Some b\<rparr>"
| "settings_perform Delete_AggregationOff s = s\<lparr>se_aggregationOff := None\<rparr>"
| "settings_perform (Save_AggregatorTypes ts) s = s\<lparr>se_aggregatorTypes := (if ts = Some [] then None else ts)\<rparr>"
| "settings_perform Delete_AggregatorTypes s = s\<lparr>se_aggregatorTypes := None\<rparr>"
| "settings_perform (Save_StateChange sc) s = s\<lparr>se_aggregationStateChange := sc\<rparr>"
| "settings_perform Delete_StateChange s = s\<lparr>se_aggregationStateChange := None\<rparr>"
| "settings_perform (Save_ShowHost b) s = s\<lparr>se_showHost := b\<rparr>"
| "settings_perform (Save_ShowKubeDns b) s = s\<lparr>se_showKubeDns := b\<rparr>"
| "settings_perform (Save_ShowRemoteNode b) s = s\<lparr>se_showRemoteNode := b\<rparr>"
| "settings_perform (Save_ShowPrometheusApp b) s = s\<lparr>se_showPrometheusApp := b\<rparr>"
| "settings_perform (Save_DataMode m) s = s\<lparr>se_dataMode := Some m\<rparr>"
| "settings_perform (Save_Clusterwide b) s = s\<lparr>se_clusterwide := b\<rparr>"
| "settings_perform (Save_Theme v) s = s\<lparr>se_theme := Some v\<rparr>"
| "settings_perform (Save_Columns cs) s = s\<lparr>se_columns := Inr (Some (set_of_list (map (Json_String \<circ> column_str) cs)))\<rparr>"
| "settings_perform (Save_PanelTop v) s = s\<lparr>se_panelTop := Some (JNum v)\<rparr>"

text \<open>What the language promises of the texts of JSON and of numbers: the value that a call prints is read back from its text.\<close>

definition printed_back ::
  "(string \<Rightarrow> json option) \<Rightarrow> (json \<Rightarrow> string) \<Rightarrow> (string \<Rightarrow> js_num) \<Rightarrow> (rat \<Rightarrow> string) \<Rightarrow> storage_call \<Rightarrow> bool" where
  "printed_back json_parse json_print parse_float num_print call \<longleftrightarrow>
     (case call of
        Save_Columns cs \<Rightarrow>
          (let arr = Json_Array (map (Json_String \<circ> column_str) cs) in json_print arr \<noteq> [] \<and> json_parse (json_print arr) = Some arr)
      | Save_PanelTop v \<Rightarrow> num_print v \<noteq> [] \<and> parse_float (num_print v) = JNum v
      | _ \<Rightarrow> True)"

lemmas storage_keys =
  last_namespace_key_def last_is_aggregation_off_def last_aggregator_types_key_def last_aggregation_state_change_def
  flows_table_visible_columns_key_def show_host_key_def show_kubedns_key_def show_remote_node_key_def
  show_prometheus_service_key_def details_panel_pos_def data_mode_key_def clusterwide_enabled_key_def theme_preference_key_def

lemmas storage_getters =
  getLastNamespace_def getIsAggregationOff_def getLastAggregatorTypes_def getLastAggregationStateChange_def getShowHost_def
  getShowKubeDns_def getShowRemoteNode_def getShowPrometheusApp_def getDataMode_def getClusterwideEnabled_def getThemePreference_def
  getFlowsTableVisibleColumns_def getDetailsPanelTop_def

lemmas storage_setters =
  saveLastNamespace_def deleteLastNamespace_def saveIsAggregationOff_def deleteLastIsAggregationOff_def saveLastAggregatorTypes_def
  deleteLastAggregatorTypes_def saveLastAggregationStateChange_def deleteLastAggregationStateChange_def saveShowHost_def
  saveShowKubeDns_def saveShowRemoteNode_def saveShowPrometheusApp_def saveDataMode_def saveClusterwideEnabled_def
  saveThemePreference_def saveFlowsTableVisibleColumns_def setDetailsPanelTop_def


lemma aggregator_types_round_trip:
  assumes "ts \<noteq> []"
  shows "List.map_filter aggregation_parseAggregatorType (split_on CHR '','' (join_with '','' (map aggregator_str ts))) = ts"
proof -
  have "CHR '','' \<notin> set (aggregator_str t)" for t by (cases t) simp_all
  then have "split_on CHR '','' (join_with '','' (map aggregator_str ts)) = map aggregator_str ts"
    using assms by (intro split_join) auto
  moreover have "List.map_filter aggregation_parseAggregatorType (map aggregator_str ts) = ts"
    by (induction ts) (simp_all add: List.map_filter_def)
  ultimately show ?thesis by simp
qed

lemma agg_state_str_not_Nil [simp]: "agg_state_str sc \<noteq> []"
  by (cases sc) simp_all

lemma data_mode_of_str [simp]: "data_mode_of (data_mode_str mode) = Some mode"
  by (cases mode) (simp_all add: data_mode_of_def)

text \<open>C38: the local storage implements a record of settings: every function that saves or deletes a setting, the columns of
  the table and the position of the panel included, sets that field as its reader gives it back, and no other field, whatever
  texts are in the storage; for the columns and the position, when their texts are read back as what was printed.\<close>

theorem storage_refines_settings:
  assumes "printed_back json_parse json_print parse_float num_print call"
  shows "settings_of json_parse parse_float (storage_perform json_print num_print call st) =
    settings_perform call (settings_of json_parse parse_float st)"
  using assms
  by (cases call)
    (simp_all add: settings_of_def storage_getters storage_setters storage_keys bool_to_string_def aggregator_types_round_trip
      printed_back_def Let_def split: option.split)

text \<open>Texts of arrays of strings and of natural numbers, for the example.\<close>

definition demo_json_print :: "json \<Rightarrow> string" where
  "demo_json_print j =
     (case j of Json_Array js \<Rightarrow> CHR ''['' # concat (map (\<lambda>e. case e of Json_String t \<Rightarrow> t @ '','' | _ \<Rightarrow> []) js) | _ \<Rightarrow> ''null'')"

definition demo_json_parse :: "string \<Rightarrow> json option" where
  "demo_json_parse t = (if take 1 t = ''['' then Some (Json_Array (map Json_String (butlast (split_on CHR '','' (drop 1 t))))) else None)"

definition demo_num_print :: "rat \<Rightarrow> string" where
  "demo_num_print v = int_to_string \<lfloor>v\<rfloor>"

theorem storage_refines_settings_witness:
  "se_columns (settings_of demo_json_parse to_number
       (saveFlowsTableVisibleColumns demo_json_print [Column_Verdict, Column_DstPort] [(show_host_key, ''true'')])) =
     Inr (Some [Json_String ''Verdict'', Json_String ''Destination Port''])
   \<and> se_panelTop (settings_of demo_json_parse to_number (setDetailsPanelTop demo_num_print 120 [])) = Some (JNum 120)"
proof -
  have "printed_back demo_json_parse demo_json_print to_number demo_num_print (Save_Columns [Column_Verdict, Column_DstPort])"
    by code_simp
  note columns = storage_refines_settings [OF this, of "[(show_host_key, ''true'')]"]
  have "printed_back demo_json_parse demo_json_print to_number demo_num_print (Save_PanelTop 120)" by code_simp
  note top = storage_refines_settings [OF this, of "[]"]
  show ?thesis using arg_cong [OF columns, of se_columns] arg_cong [OF top, of se_panelTop]
    by (simp add: set_of_list_def set_add_def)
qed

end
