(* ===== verification/Timers.thy ===== *)
theory Timers
  imports JS_Number
begin

text \<open>
  \<open>src/utils\<close>: \<open>timer.ts\<close>, \<open>ticker.ts\<close>, \<open>throttled-emitter.ts\<close>, \<open>disposer.ts\<close>, \<open>memoize.ts\<close>, \<open>option.ts\<close>, \<open>result.ts\<close>
  and the paths of \<open>index.ts\<close>.  A timer is kept with the timeouts and intervals it has asked the browser for and that were
  neither cleared nor, for a timeout, fired: the browser fires any of them.  An emitted event is part of the result.
\<close>

section \<open>Timers\<close>

datatype timer_event = Timer_Started | Timer_Timeout | Timer_Stopped

text \<open>The disposer clears the timeout with this identifier.\<close>

record timer =
  ti_disposer :: "nat option"
  ti_duration :: rat
  ti_live :: "(nat \<times> rat) list"
  ti_next :: nat

definition timer_new :: "rat \<Rightarrow> timer" where
  "timer_new dur = \<lparr>ti_disposer = None, ti_duration = dur, ti_live = [], ti_next = 0\<rparr>"

definition timer_isSet :: "timer \<Rightarrow> bool" where
  "timer_isSet t \<longleftrightarrow> ti_disposer t \<noteq> None"

text \<open>\<open>setTimeout\<close> or \<open>setInterval\<close>, and what clears it.\<close>

definition timer_startTimer :: "timer \<Rightarrow> timer \<times> nat" where
  "timer_startTimer t =
     (t\<lparr>ti_live := ti_live t @ [(ti_next t, ti_duration t)], ti_next := Suc (ti_next t)\<rparr>, ti_next t)"

definition timer_dispose :: "nat \<Rightarrow> timer \<Rightarrow> timer" where
  "timer_dispose i t = t\<lparr>ti_live := filter (\<lambda>(j, ms). j \<noteq> i) (ti_live t)\<rparr>"

definition timer_stop :: "timer \<Rightarrow> timer \<times> timer_event list" where
  "timer_stop t =
     (case ti_disposer t of
        None \<Rightarrow> (t, [])
      | Some i \<Rightarrow> ((timer_dispose i t)\<lparr>ti_disposer := None\<rparr>, [Timer_Stopped]))"

definition timer_start :: "timer \<Rightarrow> timer \<times> timer_event list" where
  "timer_start t =
     (if ti_disposer t \<noteq> None then (t, [])
      else (let (t1, i) = timer_startTimer t in (t1\<lparr>ti_disposer := Some i\<rparr>, [Timer_Started])))"

definition timer_run :: "timer \<Rightarrow> timer \<times> timer_event list" where
  "timer_run t = timer_start t"

definition timer_reset :: "rat option \<Rightarrow> timer \<Rightarrow> timer \<times> timer_event list" where
  "timer_reset ms t =
     (let (t1, e1) = timer_stop t;
          t2 = (case ms of None \<Rightarrow> t1 | Some d \<Rightarrow> t1\<lparr>ti_duration := d\<rparr>);
          (t3, e3) = timer_start t2
      in (t3, e1 @ e3))"

text \<open>The callback of the timeout with this identifier.  The timeout of a timer is then gone, the interval of a ticker
  stays; both forget the disposer.\<close>

definition timer_fired :: "bool \<Rightarrow> nat \<Rightarrow> timer \<Rightarrow> timer \<times> timer_event list" where
  "timer_fired ticks i t =
     ((if ticks then t else timer_dispose i t)\<lparr>ti_disposer := None\<rparr>, [Timer_Timeout])"

datatype timer_label = TL_Start | TL_Stop | TL_Reset "rat option" | TL_Fire nat

definition timer_step :: "bool \<Rightarrow> timer_label \<Rightarrow> timer \<Rightarrow> (timer \<times> timer_event list) option" where
  "timer_step ticks lab t =
     (case lab of
        TL_Start \<Rightarrow> Some (timer_start t)
      | TL_Stop \<Rightarrow> Some (timer_stop t)
      | TL_Reset ms \<Rightarrow> Some (timer_reset ms t)
      | TL_Fire i \<Rightarrow> if i \<in> fst ` set (ti_live t) then Some (timer_fired ticks i t) else None)"

fun timer_runs :: "bool \<Rightarrow> timer_label list \<Rightarrow> timer \<Rightarrow> (timer \<times> timer_event list) option" where
  "timer_runs ticks [] t = Some (t, [])"
| "timer_runs ticks (lab # labs) t =
     (case timer_step ticks lab t of
        None \<Rightarrow> None
      | Some (t1, e1) \<Rightarrow> (case timer_runs ticks labs t1 of None \<Rightarrow> None | Some (t2, e2) \<Rightarrow> Some (t2, e1 @ e2)))"

text \<open>A timer: the only timeout the browser holds is the one the disposer clears.\<close>

definition timer_ok :: "timer \<Rightarrow> bool" where
  "timer_ok t \<longleftrightarrow>
     (case ti_disposer t of None \<Rightarrow> ti_live t = [] | Some i \<Rightarrow> map fst (ti_live t) = [i] \<and> i < ti_next t)"

lemma timer_ok_start: "timer_ok t \<Longrightarrow> timer_ok (fst (timer_start t))"
  by (auto simp: timer_ok_def timer_start_def timer_startTimer_def split: option.splits)

lemma timer_ok_stop: "timer_ok t \<Longrightarrow> timer_ok (fst (timer_stop t)) \<and> ti_live (fst (timer_stop t)) = []"
  by (auto simp: timer_ok_def timer_stop_def timer_dispose_def filter_empty_conv split: option.splits)

lemma timer_ok_reset: "timer_ok t \<Longrightarrow> timer_ok (fst (timer_reset ms t))"
proof -
  assume "timer_ok t"
  then have stopped: "timer_ok (fst (timer_stop t))" by (simp add: timer_ok_stop)
  then have "timer_ok (case ms of None \<Rightarrow> fst (timer_stop t) | Some d \<Rightarrow> (fst (timer_stop t))\<lparr>ti_duration := d\<rparr>)"
    by (auto simp: timer_ok_def split: option.splits)
  then show ?thesis by (simp add: timer_reset_def Let_def split_def timer_ok_start)
qed

lemma timer_ok_fired: "timer_ok t \<Longrightarrow> i \<in> fst ` set (ti_live t) \<Longrightarrow> timer_ok (fst (timer_fired False i t))"
  by (auto simp: timer_ok_def timer_fired_def timer_dispose_def filter_empty_conv split: option.splits)

lemma timer_ok_step: "timer_ok t \<Longrightarrow> timer_step False lab t = Some (t', es) \<Longrightarrow> timer_ok t'"
proof (cases lab)
  case (TL_Reset ms)
  then show "timer_ok t \<Longrightarrow> timer_step False lab t = Some (t', es) \<Longrightarrow> timer_ok t'"
    using timer_ok_reset [of t ms] by (simp add: timer_step_def)
next
  case (TL_Fire i)
  then show "timer_ok t \<Longrightarrow> timer_step False lab t = Some (t', es) \<Longrightarrow> timer_ok t'"
    using timer_ok_fired [of t i] by (simp add: timer_step_def split: if_splits)
qed (use timer_ok_start [of t] timer_ok_stop [of t] in \<open>auto simp: timer_step_def\<close>)

lemma timer_ok_runs: "timer_runs False labs t = Some (t', es) \<Longrightarrow> timer_ok t \<Longrightarrow> timer_ok t'"
proof (induction labs arbitrary: t es)
  case (Cons lab labs)
  then obtain t1 e1 e2 where "timer_step False lab t = Some (t1, e1)" "timer_runs False labs t1 = Some (t', e2)"
    by (auto split: option.splits)
  then show ?case using Cons.IH timer_ok_step [OF Cons.prems(2)] by blast
qed simp

text \<open>Timeouts are announced only for what was started: they and the stops are never more than the starts.\<close>

definition event_count :: "timer_event \<Rightarrow> timer_event list \<Rightarrow> nat" where
  "event_count e es = length (filter (\<lambda>x. x = e) es)"

lemma event_count_append [simp]: "event_count e (xs @ ys) = event_count e xs + event_count e ys"
  by (simp add: event_count_def)

definition balance :: "timer_event list \<Rightarrow> int" where
  "balance es = int (event_count Timer_Started es) - int (event_count Timer_Timeout es) - int (event_count Timer_Stopped es)"

lemma balance_append [simp]: "balance (xs @ ys) = balance xs + balance ys"
  by (simp add: balance_def)

lemma balance_start: "balance (snd (timer_start t)) = (if timer_isSet t then 0 else 1)"
  by (auto simp: timer_start_def timer_startTimer_def balance_def event_count_def timer_isSet_def)

lemma balance_stop: "balance (snd (timer_stop t)) = (if timer_isSet t then - 1 else 0)"
  by (auto simp: timer_stop_def balance_def event_count_def timer_isSet_def split: option.split)

lemma isSet_start [simp]: "timer_isSet (fst (timer_start t))"
  by (auto simp: timer_start_def timer_startTimer_def timer_isSet_def)

lemma isSet_stop [simp]: "\<not> timer_isSet (fst (timer_stop t))"
  by (auto simp: timer_stop_def timer_isSet_def split: option.split)

lemma balance_step:
  assumes "timer_ok t" "timer_step False lab t = Some (t', es)"
  shows "balance es = (if timer_isSet t' then 1 else 0) - (if timer_isSet t then 1 else 0)"
proof (cases lab)
  case TL_Start
  then show ?thesis using assms(2) balance_start [of t] isSet_start [of t] by (simp add: timer_step_def)
next
  case TL_Stop
  then show ?thesis using assms(2) balance_stop [of t] isSet_stop [of t] by (simp add: timer_step_def)
next
  case (TL_Reset ms)
  define t2 where "t2 = (case ms of None \<Rightarrow> fst (timer_stop t) | Some d \<Rightarrow> (fst (timer_stop t))\<lparr>ti_duration := d\<rparr>)"
  have "\<not> timer_isSet t2" using isSet_stop [of t] by (auto simp: t2_def timer_isSet_def split: option.split)
  then have "balance (snd (timer_start t2)) = 1" by (simp add: balance_start)
  moreover have "timer_reset ms t = (fst (timer_start t2), snd (timer_stop t) @ snd (timer_start t2))"
    by (simp add: timer_reset_def Let_def split_def t2_def)
  ultimately show ?thesis using assms(2) balance_stop [of t] isSet_start [of t2] TL_Reset by (auto simp: timer_step_def)
next
  case (TL_Fire i)
  then have "i \<in> fst ` set (ti_live t)" "t' = fst (timer_fired False i t)" "es = [Timer_Timeout]"
    using assms(2) by (auto simp: timer_step_def timer_fired_def split: if_splits)
  moreover have "timer_isSet t" using assms(1) calculation(1) by (auto simp: timer_ok_def timer_isSet_def split: option.splits)
  ultimately show ?thesis by (simp add: balance_def event_count_def timer_fired_def timer_isSet_def)
qed

lemma balance_runs:
  "timer_runs False labs t = Some (t', es) \<Longrightarrow> timer_ok t \<Longrightarrow>
   balance es = (if timer_isSet t' then 1 else 0) - (if timer_isSet t then 1 else 0)"
proof (induction labs arbitrary: t es)
  case (Cons lab labs)
  then obtain t1 e1 e2 where step: "timer_step False lab t = Some (t1, e1)" "timer_runs False labs t1 = Some (t', e2)" "es = e1 @ e2"
    by (auto split: option.splits)
  from Cons.IH [OF step(2)] timer_ok_step [OF Cons.prems(2) step(1)] balance_step [OF Cons.prems(2) step(1)] step(3)
  show ?case by simp
qed (simp add: balance_def event_count_def)

text \<open>C39: in every run of a timer at most one timeout is pending in the browser, none when the timer is not set, and every
  start was answered by one timeout or one stop, except the one that is still pending.\<close>

theorem timer_answers_every_start:
  assumes "timer_runs False labs (timer_new dur) = Some (t, es)"
  shows "length (ti_live t) = (if timer_isSet t then 1 else 0)
    \<and> event_count Timer_Started es = event_count Timer_Timeout es + event_count Timer_Stopped es + (if timer_isSet t then 1 else 0)"
proof -
  have new: "timer_ok (timer_new dur)" "\<not> timer_isSet (timer_new dur)"
    by (simp_all add: timer_ok_def timer_new_def timer_isSet_def)
  have "timer_ok t" by (rule timer_ok_runs [OF assms new(1)])
  then have "length (ti_live t) = (if timer_isSet t then 1 else 0)"
    by (auto simp: timer_ok_def timer_isSet_def length_Suc_conv map_eq_Cons_conv split: option.splits)
  moreover have "balance es = (if timer_isSet t then 1 else 0)"
    using balance_runs [OF assms new(1)] new(2) by simp
  ultimately show ?thesis by (auto simp: balance_def)
qed

theorem timer_answers_every_start_witness:
  "\<exists>t es. timer_runs False [TL_Start, TL_Fire 0, TL_Start, TL_Reset (Some 5)] (timer_new 7) = Some (t, es)
     \<and> event_count Timer_Started es = 3 \<and> event_count Timer_Timeout es + event_count Timer_Stopped es = 2"
proof -
  obtain t es where run: "timer_runs False [TL_Start, TL_Fire 0, TL_Start, TL_Reset (Some 5)] (timer_new 7) = Some (t, es)"
    and more: "timer_isSet t" "event_count Timer_Started es = 3"
    by (simp add: timer_step_def timer_start_def timer_startTimer_def timer_fired_def timer_dispose_def timer_reset_def
        timer_stop_def timer_new_def timer_isSet_def event_count_def)
  from timer_answers_every_start [OF run] more run show ?thesis by simp
qed

subsection \<open>Tickers\<close>

text \<open>After its first tick a ticker can no longer be stopped: it forgets what clears the interval, so \<open>stop\<close> does
  nothing and a further \<open>start\<close> adds a second interval beside the first.\<close>

theorem ticker_is_not_stopped_after_a_tick:
  assumes "ti_live t = [(i, d)]"
  shows "fst (timer_stop (fst (timer_fired True i t))) = fst (timer_fired True i t)
    \<and> ti_live (fst (timer_stop (fst (timer_fired True i t)))) = [(i, d)]
    \<and> length (ti_live (fst (timer_start (fst (timer_fired True i t))))) = 2"
  using assms by (simp add: timer_fired_def timer_stop_def timer_start_def timer_startTimer_def)

theorem ticker_is_not_stopped_after_a_tick_witness:
  "ti_live (fst (timer_stop (fst (timer_fired True 0 (fst (timer_start (timer_new 5))))))) = [(0, 5)]"
proof -
  have "ti_live (fst (timer_start (timer_new 5))) = [(0, 5)]"
    by (simp add: timer_start_def timer_startTimer_def timer_new_def)
  from ticker_is_not_stopped_after_a_tick [OF this] show ?thesis by blast
qed


section \<open>Named tickers\<close>

text \<open>\<open>ticker.ts\<close>: an interval for each name; \<open>nk_live\<close> are the intervals the browser holds, with what they emit.\<close>

record 'k tick_descriptor =
  td_name :: 'k
  td_timerId :: nat
  td_delay :: rat

record 'k named_ticker =
  nk_ticks :: "('k, 'k tick_descriptor) js_map"
  nk_live :: "(nat \<times> 'k) list"
  nk_next :: nat

definition ticker_new :: "'k named_ticker" where
  "ticker_new = \<lparr>nk_ticks = [], nk_live = [], nk_next = 0\<rparr>"

definition clear_interval :: "nat \<Rightarrow> (nat \<times> 'k) list \<Rightarrow> (nat \<times> 'k) list" where
  "clear_interval i live = filter (\<lambda>(j, k). j \<noteq> i) live"

definition ticker_start :: "'k \<Rightarrow> rat \<Rightarrow> 'k named_ticker \<Rightarrow> 'k named_ticker" where
  "ticker_start tickName delay tk =
     (let live = (case map_get (nk_ticks tk) tickName of
            None \<Rightarrow> nk_live tk | Some cur \<Rightarrow> clear_interval (td_timerId cur) (nk_live tk));
          timerId = nk_next tk
      in \<lparr>nk_ticks = map_set tickName \<lparr>td_name = tickName, td_timerId = timerId, td_delay = delay\<rparr> (nk_ticks tk),
          nk_live = live @ [(timerId, tickName)], nk_next = Suc timerId\<rparr>)"

definition ticker_stop :: "'k \<Rightarrow> 'k named_ticker \<Rightarrow> 'k named_ticker" where
  "ticker_stop tickName tk =
     (case map_get (nk_ticks tk) tickName of
        None \<Rightarrow> tk
      | Some desc \<Rightarrow>
          tk\<lparr>nk_live := clear_interval (td_timerId desc) (nk_live tk), nk_ticks := map_delete tickName (nk_ticks tk)\<rparr>)"

definition ticker_delayOf :: "'k \<Rightarrow> 'k named_ticker \<Rightarrow> rat option" where
  "ticker_delayOf tickName tk = map_option td_delay (map_get (nk_ticks tk) tickName)"

text \<open>The browser holds exactly the intervals of the map, one for each name.\<close>

definition ticker_ok :: "'k named_ticker \<Rightarrow> bool" where
  "ticker_ok tk \<longleftrightarrow>
     (\<forall>i k. (i, k) \<in> set (nk_live tk) \<longleftrightarrow> (\<exists>d. map_get (nk_ticks tk) k = Some d \<and> td_timerId d = i))
     \<and> (\<forall>i k. (i, k) \<in> set (nk_live tk) \<longrightarrow> i < nk_next tk) \<and> distinct (map fst (nk_live tk))"

lemma ticker_ok_new: "ticker_ok ticker_new"
  by (simp add: ticker_ok_def ticker_new_def)

lemma clear_interval_fst: "distinct (map fst live) \<Longrightarrow> distinct (map fst (clear_interval i live))"
  by (simp add: clear_interval_def distinct_map inj_on_def)

lemma set_clear_interval: "(j, k) \<in> set (clear_interval i live) \<longleftrightarrow> (j, k) \<in> set live \<and> j \<noteq> i"
  by (auto simp: clear_interval_def)

lemma live_unique: "distinct (map fst live) \<Longrightarrow> (i, k) \<in> set live \<Longrightarrow> (i, k') \<in> set live \<Longrightarrow> k = k'"
  by (metis eq_key_imp_eq_value)

lemma ticker_ok_stop: "ticker_ok tk \<Longrightarrow> ticker_ok (ticker_stop k tk)"
proof (cases "map_get (nk_ticks tk) k")
  case (Some d)
  assume ok: "ticker_ok tk"
  then have d: "(td_timerId d, k) \<in> set (nk_live tk)" using Some by (auto simp: ticker_ok_def)
  have other: "(td_timerId d, k') \<in> set (nk_live tk) \<Longrightarrow> k' = k" for k'
    using live_unique [OF _ d] ok by (auto simp: ticker_ok_def)
  show ?thesis
    using ok other Some unfolding ticker_ok_def ticker_stop_def by (auto simp: set_clear_interval clear_interval_fst)
qed (simp add: ticker_stop_def)

lemma ticker_ok_start: "ticker_ok tk \<Longrightarrow> ticker_ok (ticker_start k delay tk)"
proof -
  assume "ticker_ok tk"
  then have ok: "ticker_ok (ticker_stop k tk)" and none: "map_get (nk_ticks (ticker_stop k tk)) k = None"
    by (simp_all add: ticker_ok_stop) (simp add: ticker_stop_def split: option.split)
  have eq: "nk_live (ticker_start k delay tk) = nk_live (ticker_stop k tk) @ [(nk_next (ticker_stop k tk), k)]"
    "nk_next (ticker_start k delay tk) = Suc (nk_next (ticker_stop k tk))"
    "map_get (nk_ticks (ticker_start k delay tk)) k' =
       (if k' = k then Some \<lparr>td_name = k, td_timerId = nk_next (ticker_stop k tk), td_delay = delay\<rparr>
        else map_get (nk_ticks (ticker_stop k tk)) k')" for k'
    by (auto simp: ticker_start_def ticker_stop_def Let_def split: option.split)
  have less: "i < nk_next (ticker_stop k tk)" if "(i, k') \<in> set (nk_live (ticker_stop k tk))" for i k'
    using that ok unfolding ticker_ok_def by blast
  have "(i, k') \<in> set (nk_live (ticker_start k delay tk)) \<longleftrightarrow>
      (\<exists>d. map_get (nk_ticks (ticker_start k delay tk)) k' = Some d \<and> td_timerId d = i)" for i k'
    using ok none by (auto simp: ticker_ok_def eq)
  moreover have "i < nk_next (ticker_start k delay tk)" if "(i, k') \<in> set (nk_live (ticker_start k delay tk))" for i k'
    using that less by (auto simp: eq less_Suc_eq)
  moreover have "distinct (map fst (nk_live (ticker_start k delay tk)))"
  proof -
    have "nk_next (ticker_stop k tk) \<notin> set (map fst (nk_live (ticker_stop k tk)))" using less by fastforce
    then show ?thesis using ok unfolding ticker_ok_def eq(1) by simp
  qed
  ultimately show ?thesis unfolding ticker_ok_def by blast
qed


text \<open>So a stopped name has no interval left in the browser, and a started one exactly one.\<close>

inductive ticker_reach :: "'k named_ticker \<Rightarrow> bool" where
  ticker_begin: "ticker_reach ticker_new"
| ticker_starts: "ticker_reach tk \<Longrightarrow> ticker_reach (ticker_start k d tk)"
| ticker_stops: "ticker_reach tk \<Longrightarrow> ticker_reach (ticker_stop k tk)"

lemma ticker_reach_ok: "ticker_reach tk \<Longrightarrow> ticker_ok tk"
  by (induction rule: ticker_reach.induct) (simp_all add: ticker_ok_new ticker_ok_start ticker_ok_stop)

lemma ticker_stop_silences: "ticker_reach tk \<Longrightarrow> (i, k) \<notin> set (nk_live (ticker_stop k tk))"
proof -
  assume "ticker_reach tk"
  then have "ticker_ok (ticker_stop k tk)" by (simp add: ticker_reach_ok ticker_ok_stop)
  moreover have "map_get (nk_ticks (ticker_stop k tk)) k = None" by (simp add: ticker_stop_def split: option.split)
  ultimately show ?thesis by (auto simp: ticker_ok_def)
qed

section \<open>Throttled emitters\<close>

text \<open>The handlers are a set of functions, here names; \<open>emit\<close> hands the buffer to lodash's throttler, whose calls of the
emitter are steps of their own unless the time is zero.\<close>

record ('h, 'a) throttled_emitter =
  th_handlers :: "'h list"
  th_buffer :: "'a list"
  th_instant :: bool

definition throttled_new :: "rat \<Rightarrow> ('h, 'a) throttled_emitter" where
  "throttled_new ms = \<lparr>th_handlers = [], th_buffer = [], th_instant = (ms < 1 / 2 ^ 52)\<rparr>"

definition throttled_instantEmitter :: "('h, 'a) throttled_emitter \<Rightarrow> ('h, 'a) throttled_emitter \<times> ('h \<times> 'a list) list" where
  "throttled_instantEmitter th = (th\<lparr>th_buffer := []\<rparr>, map (\<lambda>h. (h, th_buffer th)) (th_handlers th))"

definition throttled_on :: "'h \<Rightarrow> ('h, 'a) throttled_emitter \<Rightarrow> ('h, 'a) throttled_emitter" where
  "throttled_on h th = th\<lparr>th_handlers := set_add h (th_handlers th)\<rparr>"

definition throttled_off :: "'h \<Rightarrow> ('h, 'a) throttled_emitter \<Rightarrow> ('h, 'a) throttled_emitter" where
  "throttled_off h th = th\<lparr>th_handlers := remove1 h (th_handlers th)\<rparr>"

definition throttled_emit :: "'a list \<Rightarrow> ('h, 'a) throttled_emitter \<Rightarrow> ('h, 'a) throttled_emitter \<times> ('h \<times> 'a list) list" where
  "throttled_emit d th =
     (let th1 = th\<lparr>th_buffer := th_buffer th @ d\<rparr> in if th_instant th then throttled_instantEmitter th1 else (th1, []))"

datatype 'a throttled_label = TH_Emit "'a list" | TH_Throttled

fun throttled_run :: "'a throttled_label list \<Rightarrow> ('h, 'a) throttled_emitter \<Rightarrow> ('h, 'a) throttled_emitter \<times> ('h \<times> 'a list) list" where
  "throttled_run [] th = (th, [])"
| "throttled_run (lab # labs) th =
     (let (th1, out1) = (case lab of TH_Emit d \<Rightarrow> throttled_emit d th | TH_Throttled \<Rightarrow> throttled_instantEmitter th);
          (th2, out2) = throttled_run labs th1
      in (th2, out1 @ out2))"

definition got_by :: "'h \<Rightarrow> ('h \<times> 'a list) list \<Rightarrow> 'a list" where
  "got_by h out = concat (map snd (filter (\<lambda>(h', d). h' = h) out))"

definition emitted_by :: "'a throttled_label list \<Rightarrow> 'a list" where
  "emitted_by labs = concat (map (\<lambda>lab. case lab of TH_Emit d \<Rightarrow> d | TH_Throttled \<Rightarrow> []) labs)"

lemma got_by_append [simp]: "got_by h (xs @ ys) = got_by h xs @ got_by h ys"
  by (simp add: got_by_def)

lemma got_by_handlers: "distinct hs \<Longrightarrow> h \<in> set hs \<Longrightarrow> got_by h (map (\<lambda>h. (h, d)) hs) = d"
proof (induction hs)
  case (Cons x hs)
  have none: "h' \<notin> set hs \<Longrightarrow> got_by h' (map (\<lambda>h. (h, d)) hs) = []" for h'
    by (induction hs) (auto simp: got_by_def)
  show ?case using Cons none [of h] by (cases "x = h") (auto simp: got_by_def)
qed simp

text \<open>A handler that stays gets everything that is emitted, once and in order, less what still waits in the buffer.\<close>

lemma throttled_delivers:
  assumes "distinct (th_handlers th)" "h \<in> set (th_handlers th)" "throttled_run labs th = (th', out)"
  shows "got_by h out @ th_buffer th' = th_buffer th @ emitted_by labs"
  using assms
proof (induction labs arbitrary: th out)
  case Nil
  then show ?case by (simp add: got_by_def emitted_by_def)
next
  case (Cons lab labs)
  obtain th1 out1 where 1: "(case lab of TH_Emit d \<Rightarrow> throttled_emit d th | TH_Throttled \<Rightarrow> throttled_instantEmitter th) = (th1, out1)"
    by fastforce
  obtain out2 where 2: "throttled_run labs th1 = (th', out2)" "out = out1 @ out2"
    using Cons.prems(3) 1 by (auto simp: split_def Let_def prod_eq_iff)
  have same: "th_handlers th1 = th_handlers th"
    using 1 by (auto simp: throttled_emit_def throttled_instantEmitter_def Let_def split: throttled_label.splits if_splits)
  have now: "got_by h out1 @ th_buffer th1 = th_buffer th @ emitted_by [lab]"
    using 1 got_by_handlers [OF Cons.prems(1,2)]
    by (auto simp: throttled_emit_def throttled_instantEmitter_def Let_def emitted_by_def got_by_def [of _ "[]"]
        split: throttled_label.splits if_splits)
  have "got_by h out2 @ th_buffer th' = th_buffer th1 @ emitted_by labs"
    using Cons.IH [OF _ _ 2(1)] Cons.prems(1,2) same by simp
  then show ?case using now 2(2) by (simp add: emitted_by_def)
qed


section \<open>Options and results\<close>

text \<open>\<open>option.ts\<close>: null data of some value is kept apart from no value.  Running off is an exception: \<open>Inl\<close>.\<close>

record 'a js_option =
  op_data :: "'a option"
  op_isNone :: bool

datatype unwrap_error = Unwrap_None

definition option_some :: "'a option \<Rightarrow> 'a js_option" where
  "option_some d = \<lparr>op_data = d, op_isNone = False\<rparr>"

definition option_none :: "'a js_option" where
  "option_none = \<lparr>op_data = None, op_isNone = True\<rparr>"

definition option_fromNullable :: "'a option \<Rightarrow> 'a js_option" where
  "option_fromNullable d = (if d = None then option_none else option_some d)"

definition option_isSome :: "'a js_option \<Rightarrow> bool" where
  "option_isSome x \<longleftrightarrow> \<not> op_isNone x"

definition option_unwrap :: "'a js_option \<Rightarrow> unwrap_error + 'a option" where
  "option_unwrap x = (if op_isNone x then Inl Unwrap_None else Inr (op_data x))"

definition option_unwrapOrDefault :: "'a option \<Rightarrow> 'a js_option \<Rightarrow> 'a option" where
  "option_unwrapOrDefault def x = (if option_isSome x then op_data x else def)"

definition option_unwrapOr :: "'a option \<Rightarrow> 'a js_option \<Rightarrow> 'a option" where
  "option_unwrapOr alt x = (if option_isSome x then op_data x else alt)"

definition option_map :: "('a option \<Rightarrow> 'b option) \<Rightarrow> 'a js_option \<Rightarrow> 'b js_option" where
  "option_map f x = (let d = (if \<not> op_isNone x then f (op_data x) else None) in \<lparr>op_data = d, op_isNone = op_isNone x\<rparr>)"

definition option_andThen :: "('a option \<Rightarrow> 'b js_option) \<Rightarrow> 'a js_option \<Rightarrow> 'b js_option" where
  "option_andThen f x = (if \<not> op_isNone x then f (op_data x) else option_none)"

text \<open>\<open>result.ts\<close>: data and error, either of which may be null; a result is an error if its error is not null.\<close>

record ('a, 'e) js_result =
  re_data :: "'a option"
  re_err :: "'e option"

definition result_success :: "'a option \<Rightarrow> ('a, 'e) js_result" where
  "result_success d = \<lparr>re_data = d, re_err = None\<rparr>"

definition result_error :: "'e option \<Rightarrow> ('a, 'e) js_result" where
  "result_error e = \<lparr>re_data = None, re_err = e\<rparr>"

definition result_isOk :: "('a, 'e) js_result \<Rightarrow> bool" where
  "result_isOk r \<longleftrightarrow> re_err r = None"

definition result_isErr :: "('a, 'e) js_result \<Rightarrow> bool" where
  "result_isErr r \<longleftrightarrow> re_err r \<noteq> None"

definition result_unwrap :: "('a, 'e) js_result \<Rightarrow> 'e + 'a option" where
  "result_unwrap r = (case re_err r of Some e \<Rightarrow> Inl e | None \<Rightarrow> Inr (re_data r))"

definition result_option :: "('a, 'e) js_result \<Rightarrow> 'a js_option" where
  "result_option r = (if result_isErr r then option_none else option_some (re_data r))"

definition result_map :: "('a option \<Rightarrow> 'b option) \<Rightarrow> ('a, 'e) js_result \<Rightarrow> ('b, 'e) js_result" where
  "result_map f r = \<lparr>re_data = (if re_err r = None then f (re_data r) else None), re_err = re_err r\<rparr>"

definition result_andThen :: "('a option \<Rightarrow> ('b, 'e) js_result) \<Rightarrow> ('a, 'e) js_result \<Rightarrow> ('b, 'e) js_result" where
  "result_andThen f r = (case re_err r of None \<Rightarrow> f (re_data r) | Some e \<Rightarrow> \<lparr>re_data = None, re_err = Some e\<rparr>)"

definition result_mapErr :: "('e option \<Rightarrow> 'f option) \<Rightarrow> ('a, 'e) js_result \<Rightarrow> ('a, 'f) js_result" where
  "result_mapErr f r = \<lparr>re_data = re_data r, re_err = (if re_data r = None then f (re_err r) else None)\<rparr>"

lemma result_laws:
  "result_unwrap (result_success d) = Inr d"
  "result_unwrap (result_error (Some e)) = Inl e"
  "result_andThen result_success (result_success d) = result_success d"
  "result_andThen g (result_map f (result_success d)) = g (f d)"
  "result_unwrap (result_andThen h r) = (case result_unwrap r of Inl e \<Rightarrow> Inl e | Inr d2 \<Rightarrow> result_unwrap (h d2))"
  by (auto simp: result_unwrap_def result_success_def result_error_def result_andThen_def result_map_def split: option.split)

text \<open>Mapping the error of a success without data turns it into an error.\<close>

lemma mapErr_of_empty_success: "result_isErr (result_mapErr (\<lambda>e. Some (f e)) (result_success None))"
  by (simp add: result_mapErr_def result_success_def result_isErr_def)

section \<open>Disposers, memoised functions and paths\<close>

text \<open>A disposer calls what was chained to it, each function once, and forgets it; the functions have names here.\<close>

definition disposer_chain :: "'f option \<Rightarrow> 'f list \<Rightarrow> 'f list" where
  "disposer_chain f subdisposers = (case f of None \<Rightarrow> subdisposers | Some d \<Rightarrow> set_add d subdisposers)"

definition disposer_call :: "'f list \<Rightarrow> 'f list \<times> 'f list" where
  "disposer_call subdisposers = ([], subdisposers)"

lemma disposer_disposes_once: "disposer_call (fst (disposer_call ds)) = ([], [])"
  by (simp add: disposer_call_def)

text \<open>The values of one object, by the number of the function and the JSON text of its arguments, if there are any.\<close>

definition memo_name :: "('arg list \<Rightarrow> string) \<Rightarrow> nat \<Rightarrow> 'arg list \<Rightarrow> string" where
  "memo_name json identifier args =
     ''__memoized_value_'' @ nat_to_string identifier @ (if args \<noteq> [] then ''_'' @ json args else [])"

definition memo_call :: "('arg list \<Rightarrow> string) \<Rightarrow> nat \<Rightarrow> ('arg list \<Rightarrow> 'v) \<Rightarrow> 'arg list \<Rightarrow> (string, 'v) js_map \<Rightarrow> 'v \<times> (string, 'v) js_map" where
  "memo_call json identifier original args values =
     (let propName = memo_name json identifier args
      in case map_get values propName of
           Some v \<Rightarrow> (v, values)
         | None \<Rightarrow> (let v = original args in (v, map_set propName v values)))"

definition memo_ok :: "('arg list \<Rightarrow> string) \<Rightarrow> (nat \<Rightarrow> 'arg list \<Rightarrow> 'v) \<Rightarrow> (string, 'v) js_map \<Rightarrow> bool" where
  "memo_ok json original values \<longleftrightarrow>
     (\<forall>identifier args v. map_get values (memo_name json identifier args) = Some v \<longrightarrow> v = original identifier args)"

lemma nat_to_string_prefix:
  "nat_to_string m @ u = nat_to_string n @ v \<Longrightarrow> u = [] \<or> hd u = CHR ''_'' \<Longrightarrow> v = [] \<or> hd v = CHR ''_'' \<Longrightarrow> m = n \<and> u = v"
proof -
  assume eq: "nat_to_string m @ u = nat_to_string n @ v" and u: "u = [] \<or> hd u = CHR ''_''" and v: "v = [] \<or> hd v = CHR ''_''"
  have digits: "takeWhile (is_digit 10) (nat_to_string k @ w) = nat_to_string k" if "w = [] \<or> hd w = CHR ''_''" for k w
  proof -
    have "list_all (is_digit 10) (nat_to_string k)" by (rule nat_to_string_digits)
    then show ?thesis using that by (cases w) (auto simp: list_all_iff takeWhile_append2 is_digit_10_iff)
  qed
  have "nat_to_string m = nat_to_string n" using arg_cong [OF eq, of "takeWhile (is_digit 10)"] digits [OF u] digits [OF v] by simp
  then show ?thesis using eq by simp
qed

text \<open>If the JSON texts tell arguments apart, a memoised function is the function.\<close>

lemma memo_call_ok:
  assumes "inj json" "memo_ok json original values"
  shows "fst (memo_call json identifier (original identifier) args values) = original identifier args
    \<and> memo_ok json original (snd (memo_call json identifier (original identifier) args values))"
proof (cases "map_get values (memo_name json identifier args)")
  case (Some v)
  then show ?thesis using assms(2) by (auto simp: memo_call_def memo_ok_def Let_def)
next
  case None
  have "identifier' = identifier \<and> args' = args" if "memo_name json identifier' args' = memo_name json identifier args" for identifier' args'
  proof -
    let ?rest = "\<lambda>args. if args \<noteq> [] then ''_'' @ json args else []"
    have "nat_to_string identifier' @ ?rest args' = nat_to_string identifier @ ?rest args" using that by (simp add: memo_name_def)
    then have "identifier' = identifier \<and> ?rest args' = ?rest args" by (rule nat_to_string_prefix) simp_all
    then show ?thesis using injD [OF assms(1)] by (auto split: if_splits)
  qed
  then show ?thesis using None assms(2) by (auto simp: memo_call_def memo_ok_def Let_def)
qed

definition applyPrefix :: "string \<Rightarrow> string option \<Rightarrow> string" where
  "applyPrefix path pre =
     (case pre of
        None \<Rightarrow> path
      | Some p \<Rightarrow>
          (let maybeSlash = (if p \<noteq> [] \<and> last p = CHR ''/'' then [] else ''/'');
               rest = (if take 1 path = ''/'' then drop 1 path else path)
           in p @ maybeSlash @ rest))"

definition applyThemePrefix :: "string \<Rightarrow> string \<Rightarrow> string" where
  "applyThemePrefix path pre = (if pre = [] then path else take 13 path @ pre @ drop 13 path)"

end
