(* ===== verification/Notifier.thy ===== *)
theory Notifier
  imports Status_Center
begin

text \<open>
  \<open>src/notifier\<close>: notifications and the notifier that keeps them under the keys of status entries.  Notifications are
  changed in place, so they live in a heap and the cache refers to them by number.  The toaster is a library: the model
  holds the toasts it shows with the options of the last call for each, and the closings whose handler it has still to
  call.  It closes toasts when it likes (a timeout, the user, too many toasts), calls the handler given with the options
  of the toast it closes, and forgets the old options of a toast that is shown again under its key.
\<close>

section \<open>Notifications\<close>

datatype notif_intent = NI_None | NI_Primary | NI_Success | NI_Warning | NI_Danger

text \<open>The message is React content: the status entry it shows, or a text.\<close>

datatype notif_message = Message_Entry status_entry | Message_Text string

record notif_data =
  nd_intent :: notif_intent
  nd_message :: notif_message
  nd_timeout :: int
  nd_icon :: string

record notif_options =
  nt_intent :: "notif_intent option"
  nt_timeout :: "int option"
  nt_icon :: "string option"
  nt_key :: "string option"

text \<open>A handler of the notifier forgets a key.\<close>

record notification_obj =
  nf_id :: "string option"
  nf_dismissed :: bool
  nf_handlers :: "string list"
  nf_data :: notif_data

record toast =
  to_data :: notif_data
  to_owner :: "nat option"

record notifier =
  no_backend :: bool
  no_objs :: "notification_obj list"
  no_cache :: "(string, nat) js_map"
  no_toasts :: "(string, toast) js_map"
  no_closing :: "(nat \<times> bool) list"

definition notifier_new :: notifier where
  "notifier_new = \<lparr>no_backend = False, no_objs = [], no_cache = [], no_toasts = [], no_closing = []\<rparr>"

definition notifier_setBackend :: "notifier \<Rightarrow> notifier" where
  "notifier_setBackend st = st\<lparr>no_backend := True\<rparr>"

definition notif_new :: "notif_data \<Rightarrow> notification_obj" where
  "notif_new d = \<lparr>nf_id = None, nf_dismissed = False, nf_handlers = [], nf_data = d\<rparr>"

definition notif_isActive :: "notification_obj \<Rightarrow> bool" where
  "notif_isActive nf \<longleftrightarrow> \<not> nf_dismissed nf \<and> nf_id nf \<noteq> None"

definition notif_inactive :: "notification_obj \<Rightarrow> bool" where
  "notif_inactive nf \<longleftrightarrow> nf_dismissed nf \<or> nf_id nf = None"

text \<open>The toaster's part: \<open>show\<close> and \<open>dismiss\<close>.  Closing a toast leaves the call of its handler to do.\<close>

definition toaster_show :: "string \<Rightarrow> toast \<Rightarrow> notifier \<Rightarrow> notifier" where
  "toaster_show key t st = st\<lparr>no_toasts := map_set key t (no_toasts st)\<rparr>"

definition toaster_close :: "string \<Rightarrow> bool \<Rightarrow> notifier \<Rightarrow> notifier" where
  "toaster_close key timeouted st =
     (case map_get (no_toasts st) key of
        None \<Rightarrow> st
      | Some t \<Rightarrow>
          st\<lparr>no_toasts := map_delete key (no_toasts st),
             no_closing := no_closing st @ (case to_owner t of None \<Rightarrow> [] | Some n \<Rightarrow> [(n, timeouted)])\<rparr>)"

definition with_notif :: "nat \<Rightarrow> (notification_obj \<Rightarrow> notification_obj) \<Rightarrow> notifier \<Rightarrow> notifier" where
  "with_notif n f st = st\<lparr>no_objs := (no_objs st)[n := f (no_objs st ! n)]\<rparr>"

text \<open>\<open>show\<close> with the identifier the toaster gives a new toast; the result is null for a dismissed notification.\<close>

definition notif_show :: "string \<Rightarrow> nat \<Rightarrow> notifier \<Rightarrow> notifier \<times> nat option" where
  "notif_show newId n st =
     (let nf = no_objs st ! n
      in if nf_dismissed nf then (st, None)
         else if nf_id nf \<noteq> None then (st, Some n)
         else (with_notif n (\<lambda>nf. nf\<lparr>nf_id := Some newId\<rparr>)
                 (toaster_show newId \<lparr>to_data = nf_data nf, to_owner = Some n\<rparr> st), Some n))"

definition notif_dismiss :: "nat \<Rightarrow> notifier \<Rightarrow> notifier" where
  "notif_dismiss n st =
     (let nf = no_objs st ! n
      in if notif_inactive nf then st
         else with_notif n (\<lambda>nf. nf\<lparr>nf_dismissed := True\<rparr>) (toaster_close (the (nf_id nf)) False st))"

definition notif_hide :: "nat \<Rightarrow> notifier \<Rightarrow> notifier" where
  "notif_hide n st = notif_dismiss n st"

definition notif_onDismiss :: "string \<Rightarrow> nat \<Rightarrow> notifier \<Rightarrow> notifier" where
  "notif_onDismiss key n st = with_notif n (\<lambda>nf. nf\<lparr>nf_handlers := nf_handlers nf @ [key]\<rparr>) st"

text \<open>\<open>update\<close> shows the toast again under its identifier, with a new message, and without a handler.\<close>

definition notif_update :: "notif_message option \<Rightarrow> int option \<Rightarrow> nat \<Rightarrow> notifier \<Rightarrow> notifier \<times> nat option" where
  "notif_update message timeout n st =
     (let nf = no_objs st ! n
      in if notif_inactive nf then (st, None)
         else (let d = nf_data nf;
                   d' = d\<lparr>nd_timeout := (case timeout of None \<Rightarrow> nd_timeout d | Some t \<Rightarrow> t),
                          nd_message := (case message of None \<Rightarrow> nd_message d | Some m \<Rightarrow> m)\<rparr>
               in (toaster_show (the (nf_id nf)) \<lparr>to_data = d', to_owner = None\<rparr> st, Some n)))"

text \<open>The handler given to the toaster: the handlers of the notification run once, here they forget their keys.\<close>

definition notif_runOnDismiss :: "nat \<Rightarrow> notifier \<Rightarrow> notifier" where
  "notif_runOnDismiss n st =
     (let keys = nf_handlers (no_objs st ! n);
          st1 = with_notif n (\<lambda>nf. nf\<lparr>nf_handlers := []\<rparr>) st
      in st1\<lparr>no_cache := fold map_delete keys (no_cache st1)\<rparr>)"

section \<open>The notifier\<close>

abbreviation notifier_timeout :: int where "notifier_timeout \<equiv> 5000"

definition notifier_optionsToData :: "notif_options \<Rightarrow> notif_message \<Rightarrow> notif_data" where
  "notifier_optionsToData opts message =
     \<lparr>nd_intent = (case nt_intent opts of None \<Rightarrow> NI_Primary | Some i \<Rightarrow> i), nd_message = message,
      nd_timeout = (case nt_timeout opts of None \<Rightarrow> notifier_timeout | Some t \<Rightarrow> t),
      nd_icon = (case nt_icon opts of None \<Rightarrow> ''info-sign'' | Some i \<Rightarrow> i)\<rparr>"

definition notifier_ensureOptions :: "notif_options option \<Rightarrow> notif_intent \<Rightarrow> string \<Rightarrow> notif_options" where
  "notifier_ensureOptions opts i icon =
     (case opts of
        None \<Rightarrow> \<lparr>nt_intent = Some i, nt_timeout = Some notifier_timeout, nt_icon = Some icon, nt_key = None\<rparr>
      | Some opt \<Rightarrow> opt\<lparr>nt_intent := Some i, nt_icon := Some icon\<rparr>)"

text \<open>An empty key counts as no key.\<close>

definition notifier_cached :: "string option \<Rightarrow> notifier \<Rightarrow> nat option" where
  "notifier_cached key st = (case key of None \<Rightarrow> None | Some k \<Rightarrow> if k = [] then None else map_get (no_cache st) k)"

definition notifier_createNotification :: "notif_message \<Rightarrow> notif_options \<Rightarrow> notifier \<Rightarrow> notifier \<times> nat" where
  "notifier_createNotification message opts st =
     (case nt_key opts of
        None \<Rightarrow> (st\<lparr>no_objs := no_objs st @ [notif_new (notifier_optionsToData opts message)]\<rparr>, length (no_objs st))
      | Some key \<Rightarrow>
          (case map_get (no_cache st) key of
             Some n \<Rightarrow> (st, n)
           | None \<Rightarrow>
               (let n = length (no_objs st);
                    st1 = st\<lparr>no_objs := no_objs st @ [notif_new (notifier_optionsToData opts message)],
                             no_cache := map_set key n (no_cache st)\<rparr>
                in (notif_onDismiss key n st1, n))))"

datatype notifier_error = Notifier_NotSetUp

text \<open>\<open>simple\<close>, \<open>info\<close>, \<open>success\<close>, \<open>error\<close>, \<open>warning\<close> differ in the intent and the icon.\<close>

datatype notif_kind = NK_Simple | NK_Info | NK_Success | NK_Error | NK_Warning

primrec kind_intent :: "notif_kind \<Rightarrow> notif_intent" where
  "kind_intent NK_Simple = NI_None"
| "kind_intent NK_Info = NI_Primary"
| "kind_intent NK_Success = NI_Success"
| "kind_intent NK_Error = NI_Danger"
| "kind_intent NK_Warning = NI_Warning"

primrec kind_icon :: "notif_kind \<Rightarrow> string" where
  "kind_icon NK_Simple = ''info-sign''"
| "kind_icon NK_Info = ''info-sign''"
| "kind_icon NK_Success = ''tick-circle''"
| "kind_icon NK_Error = ''error''"
| "kind_icon NK_Warning = ''warning-sign''"

definition notifier_make :: "notif_kind \<Rightarrow> notif_message \<Rightarrow> notif_options option \<Rightarrow> notifier \<Rightarrow> notifier_error + notifier \<times> nat" where
  "notifier_make kind message opts st =
     (if \<not> no_backend st then Inl Notifier_NotSetUp
      else Inr (notifier_createNotification message (notifier_ensureOptions opts (kind_intent kind) (kind_icon kind)) st))"

definition notifier_show ::
  "notif_kind \<Rightarrow> string \<Rightarrow> notif_message \<Rightarrow> notif_options option \<Rightarrow> notifier \<Rightarrow> notifier_error + notifier \<times> nat option" where
  "notifier_show kind newId message opts st =
     (case notifier_make kind message opts st of Inl e \<Rightarrow> Inl e | Inr (st1, n) \<Rightarrow> Inr (notif_show newId n st1))"

definition entry_kind :: "status_entry \<Rightarrow> notif_kind" where
  "entry_kind e =
     (if entry_isError e \<or> entry_isCritical e then NK_Error
      else if se_intent e = Intent_Warning then NK_Warning
      else if se_intent e = Intent_Success then NK_Success
      else if se_intent e = Intent_Info then NK_Info
      else NK_Simple)"

definition notifier_showStatusEntry :: "string \<Rightarrow> status_entry \<Rightarrow> bool \<Rightarrow> notifier \<Rightarrow> notifier_error + notifier" where
  "notifier_showStatusEntry newId e wasPending st =
     (let message = Message_Entry e
      in case notifier_cached (se_key e) st of
           Some n \<Rightarrow>
             (let timeout = (if wasPending \<and> \<not> se_isPending e then notifier_timeout
                             else if se_isPending e then 0 else notifier_timeout)
              in Inr (fst (notif_update (Some message) (Some timeout) n st)))
         | None \<Rightarrow>
             (let opts = \<lparr>nt_intent = None, nt_timeout = Some (if se_isPending e \<or> se_isPersistent e then 0 else notifier_timeout),
                          nt_icon = None, nt_key = (if se_key e = Some [] then None else se_key e)\<rparr>
              in case notifier_show (entry_kind e) newId message (Some opts) st of Inl err \<Rightarrow> Inl err | Inr (st1, _) \<Rightarrow> Inr st1))"

definition notifier_hideBykeys :: "string list \<Rightarrow> notifier \<Rightarrow> notifier" where
  "notifier_hideBykeys keys st =
     fold (\<lambda>key st. case notifier_cached (Some key) st of None \<Rightarrow> st | Some n \<Rightarrow> notif_hide n st) keys st"

definition notifier_dismissAll :: "notifier \<Rightarrow> notifier_error + notifier" where
  "notifier_dismissAll st =
     (if \<not> no_backend st then Inl Notifier_NotSetUp
      else Inr (fold (\<lambda>key. toaster_close key False) (map_keys (no_toasts st)) st))"


text \<open>What the provider does with an event of the status log (\<open>hooks.tsx\<close>).\<close>

definition notifier_onNewEntry :: "string \<Rightarrow> status_entry \<Rightarrow> bool \<Rightarrow> notifier \<Rightarrow> notifier_error + notifier" where
  "notifier_onNewEntry newId e wasPending st =
     notifier_showStatusEntry newId e wasPending (notifier_hideBykeys (case se_keysToComplete e of None \<Rightarrow> [] | Some ks \<Rightarrow> ks) st)"

section \<open>Runs\<close>

text \<open>Entries arrive, the toaster closes toasts and calls the handlers of those it closed.\<close>

datatype notif_label = NL_Entry string status_entry bool | NL_Close string bool | NL_Handler | NL_DismissAll

definition notif_step :: "notif_label \<Rightarrow> notifier \<Rightarrow> notifier option" where
  "notif_step lab st =
     (case lab of
        NL_Entry newId e wasPending \<Rightarrow> (case notifier_onNewEntry newId e wasPending st of Inl _ \<Rightarrow> None | Inr st' \<Rightarrow> Some st')
      | NL_Close key timeouted \<Rightarrow> Some (toaster_close key timeouted st)
      | NL_Handler \<Rightarrow> (case no_closing st of [] \<Rightarrow> None | (n, _) # rest \<Rightarrow> Some (notif_runOnDismiss n (st\<lparr>no_closing := rest\<rparr>)))
      | NL_DismissAll \<Rightarrow> (case notifier_dismissAll st of Inl _ \<Rightarrow> None | Inr st' \<Rightarrow> Some st'))"

fun notif_run :: "notif_label list \<Rightarrow> notifier \<Rightarrow> notifier option" where
  "notif_run [] st = Some st"
| "notif_run (lab # labs) st = (case notif_step lab st of None \<Rightarrow> None | Some st1 \<Rightarrow> notif_run labs st1)"

subsection \<open>A notification that nothing forgets\<close>

text \<open>The notification of a key is dismissed, no handler is left that forgets it, and no other notification forgets the key.\<close>

definition owner_pending :: "nat \<Rightarrow> notifier \<Rightarrow> bool" where
  "owner_pending m st \<longleftrightarrow>
     (\<exists>key t. map_get (no_toasts st) key = Some t \<and> to_owner t = Some m) \<or> m \<in> fst ` set (no_closing st)"

definition silenced :: "string \<Rightarrow> nat \<Rightarrow> notifier \<Rightarrow> bool" where
  "silenced k n st \<longleftrightarrow>
     map_get (no_cache st) k = Some n \<and> n < length (no_objs st) \<and> nf_dismissed (no_objs st ! n) \<and> \<not> owner_pending n st
     \<and> (\<forall>m < length (no_objs st). m \<noteq> n \<longrightarrow> k \<notin> set (nf_handlers (no_objs st ! m)))
     \<and> (\<forall>m. owner_pending m st \<longrightarrow> m < length (no_objs st))"

lemma owner_pending_close: "owner_pending m (toaster_close key timeouted st) \<Longrightarrow> owner_pending m st"
proof (cases "map_get (no_toasts st) key")
  case (Some t)
  assume "owner_pending m (toaster_close key timeouted st)"
  then have "(\<exists>k t. map_get (no_toasts st) k = Some t \<and> to_owner t = Some m) \<or> m \<in> fst ` set (no_closing st) \<or> to_owner t = Some m"
    using Some by (auto simp: owner_pending_def toaster_close_def split: option.splits if_splits)
  then show "owner_pending m st" using Some unfolding owner_pending_def by blast
qed (simp add: toaster_close_def)

lemma owner_pending_show: "owner_pending m (toaster_show key t st) \<Longrightarrow> owner_pending m st \<or> to_owner t = Some m"
  by (auto simp: owner_pending_def toaster_show_def split: if_splits)

lemma owner_pending_with [simp]: "owner_pending m (with_notif n f st) \<longleftrightarrow> owner_pending m st"
  by (simp add: owner_pending_def with_notif_def)

lemma toaster_fields [simp]:
  "no_cache (toaster_close key b st) = no_cache st" "no_objs (toaster_close key b st) = no_objs st"
  "no_cache (toaster_show key t st) = no_cache st" "no_objs (toaster_show key t st) = no_objs st"
  "no_cache (with_notif m f st) = no_cache st" "no_objs (with_notif m f st) = (no_objs st)[m := f (no_objs st ! m)]"
  by (simp_all add: toaster_close_def toaster_show_def with_notif_def split: option.split)

lemma silenced_close: "silenced k n st \<Longrightarrow> silenced k n (toaster_close key b st)"
  unfolding silenced_def using owner_pending_close [of _ key b st] by auto

lemma silenced_show:
  "silenced k n st \<Longrightarrow> to_owner t = None \<or> to_owner t = Some m \<Longrightarrow> m \<noteq> n \<Longrightarrow> m < length (no_objs st) \<Longrightarrow>
   silenced k n (toaster_show key t st)"
  unfolding silenced_def toaster_fields using owner_pending_show [of _ key t st] by (metis option.distinct(1) option.inject)

lemma silenced_with:
  assumes "silenced k n st" "\<And>nf. nf_dismissed nf \<Longrightarrow> nf_dismissed (f nf)"
    and "m \<noteq> n \<Longrightarrow> k \<notin> set (nf_handlers (no_objs st ! m)) \<Longrightarrow> k \<notin> set (nf_handlers (f (no_objs st ! m)))"
  shows "silenced k n (with_notif m f st)"
proof (cases "m < length (no_objs st)")
  case True
  then show ?thesis using assms by (auto simp: silenced_def nth_list_update)
next
  case False
  then show ?thesis using assms(1) by (simp add: silenced_def)
qed

lemma silenced_hide: "silenced k n st \<Longrightarrow> silenced k n (notif_hide m st)"
  unfolding notif_hide_def notif_dismiss_def Let_def by (auto intro!: silenced_with silenced_close)

lemma silenced_hideBykeys: "silenced k n st \<Longrightarrow> silenced k n (notifier_hideBykeys keys st)"
  unfolding notifier_hideBykeys_def by (induction keys arbitrary: st) (auto simp: silenced_hide split: option.split)

lemma silenced_update: "silenced k n st \<Longrightarrow> silenced k n (fst (notif_update message timeout m st))"
proof -
  assume st: "silenced k n st"
  show ?thesis
  proof (cases "notif_inactive (no_objs st ! m)")
    case True
    then show ?thesis using st by (simp add: notif_update_def Let_def)
  next
    case False
    let ?t = "\<lparr>to_data = (nf_data (no_objs st ! m))\<lparr>nd_timeout := (case timeout of None \<Rightarrow> nd_timeout (nf_data (no_objs st ! m)) | Some t \<Rightarrow> t),
        nd_message := (case message of None \<Rightarrow> nd_message (nf_data (no_objs st ! m)) | Some m \<Rightarrow> m)\<rparr>, to_owner = None\<rparr>"
    have "\<And>m'. owner_pending m' (toaster_show key ?t st) \<Longrightarrow> owner_pending m' st" for key
      using owner_pending_show by fastforce
    then show ?thesis using st False by (auto simp: notif_update_def Let_def silenced_def)
  qed
qed

lemma silenced_create:
  assumes "silenced k n st" "nt_key opts \<noteq> Some k"
  shows "silenced k n (fst (notifier_createNotification message opts st))"
    and "snd (notifier_createNotification message opts st) < length (no_objs (fst (notifier_createNotification message opts st)))
      \<or> (\<exists>key. map_get (no_cache st) key = Some (snd (notifier_createNotification message opts st)))"
  using assms
  by (auto simp: notifier_createNotification_def silenced_def owner_pending_def notif_onDismiss_def with_notif_def
      notif_new_def nth_append nth_list_update Let_def less_Suc_eq split: option.split)


lemma create_index:
  "map_get (no_cache st) key = None \<or> nt_key opts = None \<Longrightarrow> nt_key opts = None \<or> nt_key opts = Some key \<Longrightarrow>
   snd (notifier_createNotification message opts st) = length (no_objs st)
   \<and> length (no_objs (fst (notifier_createNotification message opts st))) = Suc (length (no_objs st))"
  by (auto simp: notifier_createNotification_def notif_onDismiss_def Let_def split: option.split)

lemma silenced_notif_show:
  assumes "silenced k n st" "m \<noteq> n" "m < length (no_objs st)"
  shows "silenced k n (fst (notif_show newId m st))"
  unfolding notif_show_def Let_def using assms by (auto intro!: silenced_with silenced_show [where m = m])

lemma ensureOptions_key: "nt_key (notifier_ensureOptions (Some opts) i icon) = nt_key opts"
  by (simp add: notifier_ensureOptions_def)

text \<open>An entry either updates the notification of its key or makes one and shows it.\<close>

lemma showStatusEntry_result:
  assumes "notifier_showStatusEntry newId e w st = Inr st'"
  shows "(\<exists>message timeout m. st' = fst (notif_update message timeout m st))
    \<or> (\<exists>opts st1 m. notifier_createNotification (Message_Entry e) opts st = (st1, m) \<and> st' = fst (notif_show newId m st1)
         \<and> (\<forall>k. nt_key opts = Some k \<longrightarrow> map_get (no_cache st) k = None))"
proof (cases "notifier_cached (se_key e) st")
  case (Some m)
  then show ?thesis using assms unfolding notifier_showStatusEntry_def Let_def by auto
next
  case None
  define key where "key = (if se_key e = Some [] then None else se_key e)"
  define opts where "opts = notifier_ensureOptions (Some \<lparr>nt_intent = None,
      nt_timeout = Some (if se_isPending e \<or> se_isPersistent e then 0 else notifier_timeout), nt_icon = None, nt_key = key\<rparr>)
      (kind_intent (entry_kind e)) (kind_icon (entry_kind e))"
  obtain st1 m where c: "notifier_createNotification (Message_Entry e) opts st = (st1, m)" by fastforce
  have "st' = fst (notif_show newId m st1)"
    using assms None c by (simp add: notifier_showStatusEntry_def notifier_show_def notifier_make_def Let_def key_def opts_def
        split: if_splits prod.splits)
  moreover have "\<forall>k. nt_key opts = Some k \<longrightarrow> map_get (no_cache st) k = None"
    using None by (auto simp: opts_def ensureOptions_key key_def notifier_cached_def split: option.splits if_splits)
  ultimately show ?thesis using c by blast
qed

lemma silenced_entry:
  assumes "silenced k n st" "notifier_showStatusEntry newId e w st = Inr st'"
  shows "silenced k n st'"
  using showStatusEntry_result [OF assms(2)]
proof (elim disjE exE conjE)
  fix opts st1 m
  assume c: "notifier_createNotification (Message_Entry e) opts st = (st1, m)" "st' = fst (notif_show newId m st1)"
    and key: "\<forall>k. nt_key opts = Some k \<longrightarrow> map_get (no_cache st) k = None"
  have m: "m = length (no_objs st)" "length (no_objs st1) = Suc (length (no_objs st))"
    using key create_index [of st _ opts "Message_Entry e"] by (cases "nt_key opts"; simp add: c)+
  have "nt_key opts \<noteq> Some k" using key assms(1) by (auto simp: silenced_def)
  then have "silenced k n st1" using silenced_create(1) [OF assms(1), of opts "Message_Entry e"] by (simp add: c)
  moreover have "m \<noteq> n" using assms(1) m by (auto simp: silenced_def)
  ultimately show ?thesis unfolding c using m by (intro silenced_notif_show) simp_all
qed (simp add: silenced_update [OF assms(1)])

lemma fold_delete_get: "k \<notin> set ks \<Longrightarrow> map_get (fold map_delete ks m) k = map_get m k"
  by (induction ks arbitrary: m) auto

lemma silenced_handler:
  assumes "silenced k n st" "no_closing st = (m, b) # rest"
  shows "silenced k n (notif_runOnDismiss m (st\<lparr>no_closing := rest\<rparr>))"
proof -
  have m: "m \<noteq> n" "m < length (no_objs st)" using assms by (auto simp: silenced_def owner_pending_def)
  have less: "\<And>j. owner_pending j (st\<lparr>no_closing := rest\<rparr>) \<Longrightarrow> owner_pending j st" using assms(2) by (auto simp: owner_pending_def)
  then have rest: "silenced k n (st\<lparr>no_closing := rest\<rparr>)" using assms(1) unfolding silenced_def by auto
  have keys: "k \<notin> set (nf_handlers (no_objs st ! m))" using assms(1) m by (simp add: silenced_def)
  let ?st1 = "with_notif m (\<lambda>nf. nf\<lparr>nf_handlers := []\<rparr>) (st\<lparr>no_closing := rest\<rparr>)"
  have "silenced k n ?st1" by (rule silenced_with [OF rest]) simp_all
  then show ?thesis
    using fold_delete_get [OF keys, of "no_cache st"] unfolding notif_runOnDismiss_def Let_def
    by (simp add: silenced_def owner_pending_def)
qed

lemma silenced_step: "silenced k n st \<Longrightarrow> notif_step lab st = Some st' \<Longrightarrow> silenced k n st'"
proof (cases lab)
  case (NL_Entry newId e w)
  assume "silenced k n st" "notif_step lab st = Some st'"
  then show ?thesis
    using silenced_entry [OF silenced_hideBykeys] NL_Entry by (auto simp: notif_step_def notifier_onNewEntry_def split: sum.splits)
next
  case NL_DismissAll
  have "silenced k n s \<Longrightarrow> silenced k n (fold (\<lambda>key. toaster_close key False) keys s)" for keys s
    by (induction keys arbitrary: s) (simp_all add: silenced_close)
  then show "silenced k n st \<Longrightarrow> notif_step lab st = Some st' \<Longrightarrow> silenced k n st'"
    using NL_DismissAll by (auto simp: notif_step_def notifier_dismissAll_def split: if_splits)
qed (auto simp: notif_step_def silenced_close silenced_handler split: list.splits)

lemma silenced_run: "notif_run labs st = Some st' \<Longrightarrow> silenced k n st \<Longrightarrow> silenced k n st'"
  by (induction labs arbitrary: st) (auto split: option.splits dest: silenced_step)

lemma silenced_shows_nothing: "silenced k n st \<Longrightarrow> k \<noteq> [] \<Longrightarrow> se_key e = Some k \<Longrightarrow> notifier_showStatusEntry newId e w st = Inr st"
  by (simp add: silenced_def notifier_showStatusEntry_def notifier_cached_def notif_update_def notif_inactive_def Let_def)


subsection \<open>The cache and the handlers\<close>

text \<open>A handler that forgets a key belongs to the notification cached under it, and whatever refers to a notification
refers to one that exists.\<close>

definition handled_by :: "notifier \<Rightarrow> string \<Rightarrow> nat \<Rightarrow> bool" where
  "handled_by st k m \<longleftrightarrow> m < length (no_objs st) \<and> k \<in> set (nf_handlers (no_objs st ! m))"

definition cached_as :: "notifier \<Rightarrow> string \<Rightarrow> nat \<Rightarrow> bool" where
  "cached_as st k m \<longleftrightarrow> map_get (no_cache st) k = Some m"

definition notifier_ok :: "notifier \<Rightarrow> bool" where
  "notifier_ok st \<longleftrightarrow>
     (\<forall>k m. handled_by st k m \<longrightarrow> cached_as st k m) \<and> (\<forall>m. owner_pending m st \<longrightarrow> m < length (no_objs st))
     \<and> (\<forall>k m. cached_as st k m \<longrightarrow> m < length (no_objs st))"

lemma notifier_okD:
  assumes "notifier_ok st"
  shows "handled_by st k m \<Longrightarrow> cached_as st k m" "owner_pending m st \<Longrightarrow> m < length (no_objs st)"
    "cached_as st k m \<Longrightarrow> m < length (no_objs st)"
  using assms unfolding notifier_ok_def by blast+

text \<open>A step keeps this if new handlers, owners and cached keys are as they should be.\<close>

lemma notifier_okI:
  assumes "notifier_ok st" "length (no_objs st) \<le> length (no_objs st')"
    and "\<And>k m. handled_by st' k m \<Longrightarrow> handled_by st k m \<and> (cached_as st k m \<longrightarrow> cached_as st' k m) \<or> cached_as st' k m"
    and "\<And>m. owner_pending m st' \<Longrightarrow> owner_pending m st \<or> m < length (no_objs st')"
    and "\<And>k m. cached_as st' k m \<Longrightarrow> cached_as st k m \<or> m < length (no_objs st')"
  shows "notifier_ok st'"
  unfolding notifier_ok_def using notifier_okD [OF assms(1)] assms(2-5) by (meson order.strict_trans2)

lemma notifier_ok_new: "notifier_ok notifier_new"
  by (simp add: notifier_ok_def handled_by_def cached_as_def notifier_new_def owner_pending_def)

lemma ok_close: "notifier_ok st \<Longrightarrow> notifier_ok (toaster_close key b st)"
  by (rule notifier_okI) (auto simp: handled_by_def cached_as_def dest: owner_pending_close)

lemma ok_show: "notifier_ok st \<Longrightarrow> to_owner t = None \<or> to_owner t = Some m \<and> m < length (no_objs st) \<Longrightarrow> notifier_ok (toaster_show key t st)"
  by (rule notifier_okI) (auto simp: handled_by_def cached_as_def dest!: owner_pending_show)

lemma nth_update_any: "xs[m := x] ! j = (if j = m \<and> m < length xs then x else xs ! j)"
  by (cases "m < length xs") (auto simp: nth_list_update list_update_beyond)

lemma handled_with: "handled_by (with_notif m f st) k j \<longleftrightarrow>
    j < length (no_objs st) \<and> k \<in> set (nf_handlers (if j = m then f (no_objs st ! m) else no_objs st ! j))"
  by (auto simp: handled_by_def nth_update_any)

lemma ok_with:
  assumes "notifier_ok st" "\<And>nf. set (nf_handlers (f nf)) \<subseteq> set (nf_handlers nf)"
  shows "notifier_ok (with_notif m f st)"
proof (rule notifier_okI [OF assms(1)])
  fix k j assume "handled_by (with_notif m f st) k j"
  then have "handled_by st k j"
    unfolding handled_with using subsetD [OF assms(2), of k] by (simp add: handled_by_def split: if_splits)
  then show "handled_by st k j \<and> (cached_as st k j \<longrightarrow> cached_as (with_notif m f st) k j) \<or> cached_as (with_notif m f st) k j"
    by (simp add: cached_as_def)
qed (simp_all add: cached_as_def)

lemma ok_hide: "notifier_ok st \<Longrightarrow> notifier_ok (notif_hide m st)"
  unfolding notif_hide_def notif_dismiss_def Let_def by (auto intro!: ok_with ok_close)

lemma ok_hideBykeys: "notifier_ok st \<Longrightarrow> notifier_ok (notifier_hideBykeys keys st)"
  unfolding notifier_hideBykeys_def by (induction keys arbitrary: st) (auto simp: ok_hide split: option.split)

text \<open>A new notification with the handler of its key, or without.\<close>

lemma ok_append:
  assumes "notifier_ok st" "nf_handlers nf = []"
  shows "notifier_ok (st\<lparr>no_objs := no_objs st @ [nf]\<rparr>)"
  by (rule notifier_okI [OF assms(1)])
    (auto simp: handled_by_def cached_as_def owner_pending_def nth_append less_Suc_eq assms(2) split: if_splits)

lemma ok_append_key:
  assumes "notifier_ok st" "nf_handlers nf = [key]" "map_get (no_cache st) key = None"
  shows "notifier_ok (st\<lparr>no_objs := no_objs st @ [nf], no_cache := map_set key (length (no_objs st)) (no_cache st)\<rparr>)"
  by (rule notifier_okI [OF assms(1)])
    (auto simp: handled_by_def cached_as_def owner_pending_def nth_append less_Suc_eq assms(2,3) split: if_splits)

lemma ok_create: "notifier_ok st \<Longrightarrow> notifier_ok (fst (notifier_createNotification message opts st))"
proof (cases "nt_key opts")
  case None
  then show "notifier_ok st \<Longrightarrow> ?thesis" by (simp add: notifier_createNotification_def notif_new_def ok_append)
next
  case (Some key)
  show "notifier_ok st \<Longrightarrow> ?thesis"
  proof (cases "map_get (no_cache st) key")
    case None
    let ?nf = "(notif_new (notifier_optionsToData opts message))\<lparr>nf_handlers := [key]\<rparr>"
    have "fst (notifier_createNotification message opts st) =
        st\<lparr>no_objs := no_objs st @ [?nf], no_cache := map_set key (length (no_objs st)) (no_cache st)\<rparr>"
      using Some None by (simp add: notifier_createNotification_def notif_onDismiss_def with_notif_def notif_new_def Let_def)
    then show "notifier_ok st \<Longrightarrow> ?thesis" using ok_append_key [of st ?nf key] None by simp
  qed (simp add: notifier_createNotification_def Some)
qed

lemma create_less:
  assumes "notifier_ok st"
  shows "snd (notifier_createNotification message opts st) < length (no_objs (fst (notifier_createNotification message opts st)))"
  using notifier_okD(3) [OF assms]
  by (auto simp: notifier_createNotification_def notif_onDismiss_def cached_as_def Let_def split: option.split)

lemma ok_notif_show: "notifier_ok st \<Longrightarrow> m < length (no_objs st) \<Longrightarrow> notifier_ok (fst (notif_show newId m st))"
  unfolding notif_show_def Let_def by (auto intro!: ok_with ok_show [where m = m])

lemma ok_entry:
  assumes "notifier_ok st" "notifier_showStatusEntry newId e w st = Inr st'"
  shows "notifier_ok st'"
  using showStatusEntry_result [OF assms(2)]
proof (elim disjE exE conjE)
  fix message timeout m assume "st' = fst (notif_update message timeout m st)"
  then show ?thesis using assms(1) by (auto simp: notif_update_def Let_def intro!: ok_show)
next
  fix opts st1 m
  assume "notifier_createNotification (Message_Entry e) opts st = (st1, m)" "st' = fst (notif_show newId m st1)"
  then show ?thesis
    using ok_notif_show ok_create [OF assms(1), of "Message_Entry e" opts] create_less [OF assms(1), of "Message_Entry e" opts] by simp
qed

lemma ok_handler:
  assumes "notifier_ok st" "no_closing st = (m, b) # rest"
  shows "notifier_ok (notif_runOnDismiss m (st\<lparr>no_closing := rest\<rparr>))"
proof -
  let ?ks = "nf_handlers (no_objs st ! m)" and ?st' = "notif_runOnDismiss m (st\<lparr>no_closing := rest\<rparr>)"
  note inv = notifier_okD [OF assms(1)]
  have m: "m < length (no_objs st)" using assms(2) by (intro inv(2)) (auto simp: owner_pending_def)
  have objs: "no_objs ?st' = (no_objs st)[m := (no_objs st ! m)\<lparr>nf_handlers := []\<rparr>]" "no_cache ?st' = fold map_delete ?ks (no_cache st)"
    by (simp_all add: notif_runOnDismiss_def with_notif_def Let_def)
  have handled: "j \<noteq> m \<and> handled_by st k j" if "handled_by ?st' k j" for k j
    using that by (auto simp: handled_by_def objs nth_update_any split: if_splits)
  have cached: "cached_as ?st' k j" if "handled_by ?st' k j" for k j
  proof -
    have "cached_as st k j" using inv(1) handled [OF that] by blast
    moreover have "k \<notin> set ?ks"
    proof
      assume "k \<in> set ?ks"
      then have "cached_as st k m" using m by (intro inv(1)) (simp add: handled_by_def)
      then show False using calculation handled [OF that] by (simp add: cached_as_def)
    qed
    ultimately show ?thesis by (simp add: cached_as_def objs fold_delete_get)
  qed
  have del: "map_get (fold map_delete ks c) k = Some j \<Longrightarrow> map_get c k = Some j" for ks k j and c :: "(string, nat) js_map"
  proof (induction ks arbitrary: c)
    case (Cons a ks)
    have "map_get (map_delete a c) k = Some j" by (rule Cons.IH) (use Cons.prems in simp)
    then show ?case by (simp split: if_splits)
  qed simp
  show ?thesis
  proof (rule notifier_okI [OF assms(1)])
    show "owner_pending j ?st' \<Longrightarrow> owner_pending j st \<or> j < length (no_objs ?st')" for j
      using assms(2) by (auto simp: owner_pending_def notif_runOnDismiss_def with_notif_def Let_def)
    show "cached_as ?st' k j \<Longrightarrow> cached_as st k j \<or> j < length (no_objs ?st')" for k j
      unfolding cached_as_def objs(2) by (blast dest: del)
  qed (use cached in \<open>simp_all add: objs\<close>)
qed

lemma ok_step: "notifier_ok st \<Longrightarrow> notif_step lab st = Some st' \<Longrightarrow> notifier_ok st'"
proof (cases lab)
  case (NL_Entry newId e w)
  assume "notifier_ok st" "notif_step lab st = Some st'"
  then show ?thesis
    using ok_entry [OF ok_hideBykeys] NL_Entry by (auto simp: notif_step_def notifier_onNewEntry_def split: sum.splits)
next
  case NL_DismissAll
  have "notifier_ok s \<Longrightarrow> notifier_ok (fold (\<lambda>key. toaster_close key False) keys s)" for keys s
    by (induction keys arbitrary: s) (simp_all add: ok_close)
  then show "notifier_ok st \<Longrightarrow> notif_step lab st = Some st' \<Longrightarrow> notifier_ok st'"
    using NL_DismissAll by (auto simp: notif_step_def notifier_dismissAll_def split: if_splits)
qed (auto simp: notif_step_def ok_close ok_handler split: list.splits)

lemma ok_run: "notif_run labs st = Some st' \<Longrightarrow> notifier_ok st \<Longrightarrow> notifier_ok st'"
proof (induction labs arbitrary: st)
  case (Cons lab labs)
  then show ?case using ok_step [OF Cons.prems(2)] by (auto split: option.splits)
qed simp


lemma ok_reachable: "notif_run labs (notifier_setBackend notifier_new) = Some st \<Longrightarrow> notifier_ok st"
  by (erule ok_run) (simp add: notifier_ok_def notifier_setBackend_def notifier_new_def handled_by_def cached_as_def owner_pending_def)

lemma hide_silences:
  assumes "notifier_ok st" "map_get (no_cache st) k = Some n" "notif_isActive (no_objs st ! n)" "\<not> owner_pending n st" "k \<noteq> []"
  shows "silenced k n (notifier_hideBykeys [k] st)"
proof -
  note inv = notifier_okD [OF assms(1)]
  have n: "n < length (no_objs st)" using inv(3) assms(2) by (simp add: cached_as_def)
  have key: "the (nf_id (no_objs st ! n)) = key \<Longrightarrow> \<not> owner_pending n (toaster_close key False st)" for key
    using assms(4) owner_pending_close by blast
  have hide: "notifier_hideBykeys [k] st =
      with_notif n (\<lambda>nf. nf\<lparr>nf_dismissed := True\<rparr>) (toaster_close (the (nf_id (no_objs st ! n))) False st)"
    using assms(2,3,5) by (auto simp: notifier_hideBykeys_def notifier_cached_def notif_hide_def notif_dismiss_def notif_inactive_def
        notif_isActive_def Let_def)
  have "k \<notin> set (nf_handlers (no_objs st ! m))" if "m < length (no_objs st)" "m \<noteq> n" for m
    using inv(1) [of k m] that assms(2) by (auto simp: handled_by_def cached_as_def)
  then show ?thesis
    unfolding hide silenced_def using assms(2) n key inv(2) owner_pending_close by (auto simp: nth_update_any)
qed

text \<open>C40: if a cached notification is shown in a toast without its dismiss handler, as after an update, and an entry then
  completes its key, the notification is hidden but stays in the cache, and from then on, whatever happens, an entry with
  that key shows nothing.  So the second loss of the connection is not announced.\<close>

theorem updated_and_hidden_key_is_silent:
  assumes "notif_run labs (notifier_setBackend notifier_new) = Some st"
    and "map_get (no_cache st) k = Some n" "notif_isActive (no_objs st ! n)" "\<not> owner_pending n st" "k \<noteq> []"
    and "se_keysToComplete e = Some [k]" "notif_run (NL_Entry newId e w # labs') st = Some st'"
    and "se_key e' = Some k"
  shows "notifier_showStatusEntry newId' e' w' st' = Inr st'"
proof -
  have hidden: "silenced k n (notifier_hideBykeys [k] st)"
    by (rule hide_silences [OF ok_reachable [OF assms(1)] assms(2-5)])
  obtain st1 where st1: "notifier_onNewEntry newId e w st = Inr st1" "notif_run labs' st1 = Some st'"
    using assms(7) by (auto simp: notif_step_def split: sum.splits)
  have "silenced k n st1" using silenced_entry [OF hidden] st1(1) assms(6) by (simp add: notifier_onNewEntry_def)
  then have "silenced k n st'" by (rule silenced_run [OF st1(2)])
  then show ?thesis by (rule silenced_shows_nothing [OF _ assms(5,8)])
qed

definition lost_entry :: status_entry where
  "lost_entry = (entry_empty (''h'', 0))\<lparr>se_key := Some ''reconnecting'', se_isPending := True\<rparr>"

definition back_entry :: status_entry where
  "back_entry = (entry_empty (''g'', 1))\<lparr>se_keysToComplete := Some [''reconnecting'']\<rparr>"

definition demo_notifier :: "notif_label list \<Rightarrow> notifier" where
  "demo_notifier labs = the (notif_run labs (notifier_setBackend notifier_new))"

theorem updated_and_hidden_key_is_silent_witness:
  "\<exists>st'. notif_run [NL_Entry ''t1'' lost_entry False, NL_Entry ''t2'' lost_entry True, NL_Entry ''t3'' back_entry False]
       (notifier_setBackend notifier_new) = Some st'
     \<and> notifier_showStatusEntry ''t4'' lost_entry False st' = Inr st' \<and> ''t1'' \<notin> fst ` set (no_toasts st')"
proof -
  let ?labs = "[NL_Entry ''t1'' lost_entry False, NL_Entry ''t2'' lost_entry True]"
  let ?st = "demo_notifier ?labs"
  have first: "notif_run ?labs (notifier_setBackend notifier_new) = Some ?st
      \<and> map_get (no_cache ?st) ''reconnecting'' = Some 0 \<and> notif_isActive (no_objs ?st ! 0)
      \<and> map (to_owner \<circ> snd) (no_toasts ?st) = [None] \<and> no_closing ?st = []"
    by code_simp
  let ?all = "notif_run [NL_Entry ''t3'' back_entry False] ?st"
  have last: "?all \<noteq> None \<and> map_keys (no_toasts (the ?all)) = [''t3'']" by code_simp
  then obtain st' where st': "?all = Some st'" "map_keys (no_toasts st') = [''t3'']" by auto
  have "\<not> owner_pending 0 ?st"
    using first by (auto simp: owner_pending_def map_eq_Cons_conv split: if_splits)
  then have "notifier_showStatusEntry ''t4'' lost_entry False st' = Inr st'"
    using updated_and_hidden_key_is_silent [of ?labs ?st "''reconnecting''" 0 back_entry "''t3''" False "[]" st' lost_entry "''t4''" False]
      first st'(1) by (simp add: lost_entry_def back_entry_def)
  moreover have "notif_run (?labs @ [NL_Entry ''t3'' back_entry False]) (notifier_setBackend notifier_new) = Some st'"
    using first st'(1) by (auto split: option.splits)
  moreover have "''t1'' \<notin> fst ` set (no_toasts st')" using arg_cong [OF st'(2), of set] by simp
  ultimately show ?thesis by auto
qed

end
