(* ===== verification/Placement.thy ===== *)
theory Placement
  imports Frame_Store
begin

text \<open>
  \<open>src/domain/geometry/xywh.ts\<close>, \<open>src/ui/layout/abstract/placement.ts\<close> and
  \<open>src/ui-layer/service-map/coordinates/placement.ts\<close>: where the cards of the map go.  Cards are grouped by what
  they talk to, each group is cut into columns, the columns are put side by side, and the groups above each
  other.  Coordinates are pixels.  The computation of the layout takes the rounding of its arithmetic as
  an argument \<open>rnd\<close>; the program's layout is the one for \<open>fl\<close>, and the proofs compare it with the one
  without rounding.  Conversions from the DOM are left out.
\<close>

section \<open>Rectangles\<close>

record xy =
  cx :: rat
  cy :: rat

record wh =
  dw :: rat
  dh :: rat

record xywh =
  gx :: rat
  gy :: rat
  gw :: rat
  gh :: rat

definition xywh_new :: "rat \<Rightarrow> rat \<Rightarrow> rat \<Rightarrow> rat \<Rightarrow> xywh" where
  "xywh_new x y w h = \<lparr>gx = x, gy = y, gw = w, gh = h\<rparr>"

definition xywh_fromArgs :: "rat \<Rightarrow> rat \<Rightarrow> rat \<Rightarrow> rat \<Rightarrow> xywh" where
  "xywh_fromArgs = xywh_new"

definition xywh_fromParts :: "xy \<Rightarrow> wh \<Rightarrow> xywh" where
  "xywh_fromParts p d = xywh_new (cx p) (cy p) (dw d) (dh d)"

definition xywh_empty :: xywh where
  "xywh_empty = xywh_new 0 0 0 0"

text \<open>The margins follow CSS: a missing one is that of the opposite side, or the first.\<close>

definition xywh_addMargin :: "rat \<Rightarrow> rat option \<Rightarrow> rat option \<Rightarrow> rat option \<Rightarrow> xywh \<Rightarrow> xywh" where
  "xywh_addMargin t r b l g =
     (let (effR, effB, effL) =
        (case (r, b, l) of
           (None, _, _) \<Rightarrow> (t, t, t)
         | (Some r', None, _) \<Rightarrow> (r', t, r')
         | (Some r', Some b', None) \<Rightarrow> (r', b', r')
         | (Some r', Some b', Some l') \<Rightarrow> (r', b', l'))
      in xywh_fromArgs (js_sub (gx g) effL) (js_sub (gy g) t) (js_add (js_add (gw g) effL) effR)
           (js_add (js_add (gh g) t) effB))"

definition xywh_transform :: "rat \<Rightarrow> rat \<Rightarrow> rat option \<Rightarrow> xywh \<Rightarrow> xywh" where
  "xywh_transform dx dy scale g =
     (let s = (case scale of None \<Rightarrow> 1 | Some v \<Rightarrow> if v = 0 then 1 else v)
      in xywh_fromArgs (js_add (gx g) dx) (js_add (gy g) dy) (js_mul (gw g) s) (js_mul (gh g) s))"

definition xywh_setWH :: "wh \<Rightarrow> xywh \<Rightarrow> xywh" where
  "xywh_setWH d g = xywh_fromArgs (gx g) (gy g) (dw d) (dh d)"

definition xywh_setHeight :: "rat \<Rightarrow> xywh \<Rightarrow> xywh" where
  "xywh_setHeight h g = xywh_fromArgs (gx g) (gy g) (gw g) h"

definition xywh_setXY :: "rat option \<Rightarrow> rat option \<Rightarrow> xywh \<Rightarrow> xywh" where
  "xywh_setXY x y g =
     xywh_fromArgs (case x of Some v \<Rightarrow> v | None \<Rightarrow> gx g) (case y of Some v \<Rightarrow> v | None \<Rightarrow> gy g) (gw g) (gh g)"

text \<open>In place or not, the rectangle that is returned is the same.\<close>

definition xywh_addXY :: "rat \<Rightarrow> rat \<Rightarrow> xywh \<Rightarrow> xywh" where
  "xywh_addXY dx dy g = xywh_fromArgs (js_add (gx g) dx) (js_add (gy g) dy) (gw g) (gh g)"

definition xywh_center :: "xywh \<Rightarrow> xy" where
  "xywh_center g = \<lparr>cx = js_add (gx g) (js_div (gw g) 2), cy = js_add (gy g) (js_div (gh g) 2)\<rparr>"

definition xywh_centerRelativeTo :: "xy \<Rightarrow> xywh \<Rightarrow> xy" where
  "xywh_centerRelativeTo p g =
     \<lparr>cx = js_sub (cx (xywh_center g)) (cx p), cy = js_sub (cy (xywh_center g)) (cy p)\<rparr>"

definition xywh_equals :: "xywh \<Rightarrow> xywh option \<Rightarrow> bool" where
  "xywh_equals g rhs =
     (case rhs of
        None \<Rightarrow> False
      | Some r \<Rightarrow> tooSmall (js_sub (gx g) (gx r)) \<and> tooSmall (js_sub (gy g) (gy r))
          \<and> tooSmall (js_sub (gw g) (gw r)) \<and> tooSmall (js_sub (gh g) (gh r)))"

definition xywh_isEmpty :: "xywh \<Rightarrow> bool" where
  "xywh_isEmpty g \<longleftrightarrow> tooSmall (gx g) \<and> tooSmall (gy g) \<and> tooSmall (gw g) \<and> tooSmall (gh g)"

definition xywh_xy :: "xywh \<Rightarrow> xy" where
  "xywh_xy g = \<lparr>cx = gx g, cy = gy g\<rparr>"

definition xywh_wh :: "xywh \<Rightarrow> wh" where
  "xywh_wh g = \<lparr>dw = gw g, dh = gh g\<rparr>"

text \<open>The comparators say whether nothing changed; two missing values count as a change, one missing value does not.\<close>

definition whComparator :: "wh option \<Rightarrow> wh option \<Rightarrow> bool" where
  "whComparator lhs rhs =
     (case (lhs, rhs) of
        (None, None) \<Rightarrow> False
      | (Some l, Some r) \<Rightarrow> tooSmall (js_sub (dw l) (dw r)) \<and> tooSmall (js_sub (dh l) (dh r))
      | _ \<Rightarrow> True)"

definition xyComparator :: "xy option \<Rightarrow> xy option \<Rightarrow> bool" where
  "xyComparator lhs rhs =
     (case (lhs, rhs) of
        (None, None) \<Rightarrow> False
      | (Some l, Some r) \<Rightarrow> tooSmall (js_sub (cx l) (cx r)) \<and> tooSmall (js_sub (cy l) (cy r))
      | _ \<Rightarrow> True)"

record sides =
  si_top :: "xy \<times> xy"
  si_bottom :: "xy \<times> xy"
  si_left :: "xy \<times> xy"
  si_right :: "xy \<times> xy"

definition xywh_sides :: "xywh \<Rightarrow> sides" where
  "xywh_sides g =
     (let l = gx g; r = js_add (gx g) (gw g); t = gy g; b = js_add (gy g) (gh g)
      in \<lparr>si_top = (\<lparr>cx = l, cy = t\<rparr>, \<lparr>cx = r, cy = t\<rparr>), si_bottom = (\<lparr>cx = l, cy = b\<rparr>, \<lparr>cx = r, cy = b\<rparr>),
          si_left = (\<lparr>cx = l, cy = t\<rparr>, \<lparr>cx = l, cy = b\<rparr>), si_right = (\<lparr>cx = r, cy = t\<rparr>, \<lparr>cx = r, cy = b\<rparr>)\<rparr>)"

section \<open>What is known of the cards\<close>

record placement_store =
  ps_cardsWHs :: "(string, wh) js_map"
  ps_cardsXYs :: "(string, xy) js_map"
  ps_accessPointCoords :: "(string, xy) js_map"
  ps_httpEndpointCoords :: "(string, (string, (http_verb, xy) js_map) js_map) js_map"

definition placement_new :: placement_store where
  "placement_new = \<lparr>ps_cardsWHs = [], ps_cardsXYs = [], ps_accessPointCoords = [], ps_httpEndpointCoords = []\<rparr>"

definition placement_reset :: "placement_store \<Rightarrow> placement_store" where
  "placement_reset ps = placement_new"

definition defaultCardW :: rat where "defaultCardW = 560"

definition defaultCardH :: rat where "defaultCardH = 0"

definition defaultCardXYWH :: xywh where
  "defaultCardXYWH = xywh_new (- 100500) (- 100500) defaultCardW defaultCardH"

definition getCardCoords :: "string \<Rightarrow> placement_store \<Rightarrow> xy option" where
  "getCardCoords cardId ps = map_get (ps_cardsXYs ps) cardId"

definition getCardDimensions :: "string \<Rightarrow> placement_store \<Rightarrow> wh option" where
  "getCardDimensions cardId ps = map_get (ps_cardsWHs ps) cardId"

definition getCardXYWH :: "string \<Rightarrow> placement_store \<Rightarrow> xywh option" where
  "getCardXYWH cardId ps =
     (case getCardCoords cardId ps of
        None \<Rightarrow> None
      | Some p \<Rightarrow> (case getCardDimensions cardId ps of None \<Rightarrow> None | Some d \<Rightarrow> Some (xywh_fromParts p d)))"

definition getCardXYWHOrDefault :: "string \<Rightarrow> placement_store \<Rightarrow> xywh" where
  "getCardXYWHOrDefault cardId ps = (case getCardXYWH cardId ps of Some g \<Rightarrow> g | None \<Rightarrow> defaultCardXYWH)"

definition setCardWH :: "string \<Rightarrow> wh \<Rightarrow> placement_store \<Rightarrow> placement_store" where
  "setCardWH cardId d ps = ps\<lparr>ps_cardsWHs := map_set cardId d (ps_cardsWHs ps)\<rparr>"

definition setCardWidth :: "string \<Rightarrow> rat \<Rightarrow> placement_store \<Rightarrow> placement_store" where
  "setCardWidth cardId width ps =
     setCardWH cardId \<lparr>dw = width,
       dh = (case getCardDimensions cardId ps of Some d \<Rightarrow> dh d | None \<Rightarrow> defaultCardH)\<rparr> ps"

definition setCardHeight :: "string \<Rightarrow> rat \<Rightarrow> rat option \<Rightarrow> placement_store \<Rightarrow> placement_store \<times> bool" where
  "setCardHeight cardId height eps ps =
     (case getCardDimensions cardId ps of
        None \<Rightarrow> (setCardWH cardId \<lparr>dw = defaultCardW, dh = height\<rparr> ps, True)
      | Some d \<Rightarrow>
          if (case eps of None \<Rightarrow> False | Some e \<Rightarrow> \<bar>js_sub (dh d) height\<bar> < e) then (ps, False)
          else (setCardWH cardId \<lparr>dw = dw d, dh = height\<rparr> ps, True))"

definition setCardHeights :: "(string \<times> xywh) list \<Rightarrow> rat option \<Rightarrow> placement_store \<Rightarrow> placement_store \<times> nat" where
  "setCardHeights coords eps ps =
     fold (\<lambda>(cardId, bbox) (ps, n).
       if gh bbox < 0 then (ps, n)
       else (let (ps1, updated) = setCardHeight cardId (gh bbox) eps ps in (ps1, if updated then n + 1 else n)))
       coords (ps, 0)"

definition setAccessPointCoords :: "string \<Rightarrow> xy \<Rightarrow> rat option \<Rightarrow> placement_store \<Rightarrow> placement_store \<times> bool" where
  "setAccessPointCoords apId p eps ps =
     (if (case (eps, map_get (ps_accessPointCoords ps) apId) of
            (Some e, Some c) \<Rightarrow> \<bar>js_sub (cx p) (cx c)\<bar> \<le> e \<and> \<bar>js_sub (cy p) (cy c)\<bar> \<le> e
          | _ \<Rightarrow> False)
      then (ps, False)
      else (ps\<lparr>ps_accessPointCoords := map_set apId p (ps_accessPointCoords ps)\<rparr>, True))"

definition setAccessPointsCoords :: "(string \<times> xywh) list \<Rightarrow> rat option \<Rightarrow> placement_store \<Rightarrow> placement_store \<times> nat" where
  "setAccessPointsCoords coords eps ps =
     fold (\<lambda>(apId, bbox) (ps, n).
       (let (ps1, updated) = setAccessPointCoords apId (xywh_center bbox) eps ps in (ps1, if updated then n + 1 else n)))
       coords (ps, 0)"

definition cardsBBoxes :: "placement_store \<Rightarrow> (string, xywh) js_map" where
  "cardsBBoxes ps =
     fold (\<lambda>(cardId, dims) bboxes.
       case map_get (ps_cardsXYs ps) cardId of
         None \<Rightarrow> bboxes | Some coords \<Rightarrow> map_set cardId (xywh_fromParts coords dims) bboxes)
       (ps_cardsWHs ps) []"

definition numCards :: "placement_store \<Rightarrow> nat" where
  "numCards ps = min (length (ps_cardsXYs ps)) (length (ps_cardsWHs ps))"

definition setHttpEndpointCoords :: "string \<Rightarrow> string \<Rightarrow> http_verb \<Rightarrow> xy \<Rightarrow> placement_store \<Rightarrow> placement_store" where
  "setHttpEndpointCoords svcId urlPath method coords ps =
     ps\<lparr>ps_httpEndpointCoords :=
       (let paths = get_or_empty (ps_httpEndpointCoords ps) svcId
        in map_set svcId (map_set urlPath (map_set method coords (get_or_empty paths urlPath)) paths) (ps_httpEndpointCoords ps))\<rparr>"

definition setHttpEndpointsCoords :: "(string \<times> string \<times> http_verb \<times> xywh) list \<Rightarrow> placement_store \<Rightarrow> placement_store" where
  "setHttpEndpointsCoords coords ps =
     fold (\<lambda>(cardId, urlPath, method, bbox). setHttpEndpointCoords cardId urlPath method (xywh_center bbox)) coords ps"


section \<open>Groups of cards\<close>

datatype placement_kind = FromWorld | ToWorld | AnotherNamespace | InsideWithConnections
  | InsideWithoutConnections | OutsideManaged

record placement_meta =
  pm_kind :: placement_kind
  pm_card :: service_card
  pm_weight :: int

record placement_entry =
  pe_kind :: placement_kind
  pe_card :: service_card
  pe_geometry :: xywh

record special_interactions =
  sx_hasWorldAsReceiver :: bool
  sx_hasWorldAsSender :: bool
  sx_hasHostAsSender :: bool

definition findSpecialInteractions :: "link_connections \<Rightarrow> service_store \<Rightarrow> service_card \<Rightarrow> special_interactions" where
  "findSpecialInteractions conns services crd =
     (let senders = map (\<lambda>p. services_byId services (fst p)) (get_or_empty (lc_incomings conns) (card_id crd));
          receivers = map (\<lambda>p. services_byId services (fst p)) (get_or_empty (lc_outgoings conns) (card_id crd));
          some = (\<lambda>f cards. list_ex (\<lambda>c. case c of None \<Rightarrow> False | Some s \<Rightarrow> f s) cards)
      in \<lparr>sx_hasWorldAsReceiver = some card_isWorld receivers, sx_hasWorldAsSender = some card_isWorld senders,
          sx_hasHostAsSender = some card_isHost senders\<rparr>)"

definition getCardPlacementMeta ::
  "link_connections \<Rightarrow> service_store \<Rightarrow> string option \<Rightarrow> service_card \<Rightarrow> placement_meta" where
  "getCardPlacementMeta conns services ns crd =
     (let incomingsCount = length (get_or_empty (lc_incomings conns) (card_id crd));
          outgoingsCount = length (get_or_empty (lc_outgoings conns) (card_id crd));
          props = findSpecialInteractions conns services crd;
          kind = (if card_isHost crd \<or> card_isRemoteNode crd then FromWorld
                  else if card_isWorld crd then (if incomingsCount > 0 then ToWorld else FromWorld)
                  else if ns \<noteq> None \<and> card_namespace crd \<noteq> ns then AnotherNamespace
                  else if incomingsCount > 0 \<or> outgoingsCount > 0 then InsideWithConnections
                  else InsideWithoutConnections);
          weight = - int incomingsCount + int outgoingsCount
                   + (if sx_hasWorldAsSender props \<or> sx_hasHostAsSender props then 1000 else 0)
                   + (if sx_hasWorldAsReceiver props then 500 else 0)
      in \<lparr>pm_kind = kind, pm_card = crd, pm_weight = weight\<rparr>)"

definition placementGroups ::
  "link_connections \<Rightarrow> service_store \<Rightarrow> string option \<Rightarrow> (placement_kind, placement_meta list) js_map" where
  "placementGroups conns services currentNs =
     fold (\<lambda>crd index.
       let meta = getCardPlacementMeta conns services (if truthy currentNs then currentNs else None) crd
       in map_set (pm_kind meta) (or_empty (map_get index (pm_kind meta)) @ [meta]) index)
       services []"

text \<open>\<open>Math.ceil(Math.sqrt(n))\<close>.\<close>

definition ceil_sqrt :: "nat \<Rightarrow> nat" where
  "ceil_sqrt n = length (takeWhile (\<lambda>k. k * k < n) [0..<n])"

text \<open>The state of the loop over the sorted cards: the columns, the current one and its weight.\<close>

definition column_push ::
  "nat \<Rightarrow> placement_meta \<Rightarrow> placement_meta list list \<times> placement_meta list \<times> int option \<Rightarrow>
   placement_meta list list \<times> placement_meta list \<times> int option" where
  "column_push maxCards plc st =
     (let (columns, cur, curWeight) = st;
          flush = (length cur \<ge> maxCards \<or> curWeight \<noteq> None \<and> curWeight \<noteq> Some (pm_weight plc));
          (columns, cur) = (if flush then (columns @ [cur], []) else (columns, cur))
      in (columns, cur @ [plc], Some (pm_weight plc)))"

definition buildPlacementColumns :: "placement_meta list \<Rightarrow> placement_meta list list" where
  "buildPlacementColumns plcs =
     (let sorted = js_sort (\<lambda>a b. pm_weight b - pm_weight a) plcs;
          (columns, cur, _) = fold (column_push (ceil_sqrt (length plcs))) sorted ([], [], None)
      in if sorted = [] then columns else columns @ [cur])"

section \<open>The layout\<close>

abbreviation endpointVPadding :: rat where "endpointVPadding \<equiv> 200"
abbreviation endpointHPadding :: rat where "endpointHPadding \<equiv> 200"
abbreviation namespaceBackplatePadding :: rat where "namespaceBackplatePadding \<equiv> 200"

type_synonym dimensions = "(string, wh) js_map"
type_synonym rounding = "rat \<Rightarrow> rat"

definition card_wh :: "dimensions \<Rightarrow> placement_meta \<Rightarrow> wh" where
  "card_wh dims m =
     (case map_get dims (card_id (pm_card m)) of None \<Rightarrow> xywh_wh defaultCardXYWH | Some d \<Rightarrow> d)"

text \<open>A column on its way down: its entries, its size and the next offset.\<close>

record column_state =
  ct_entries :: "placement_entry list"
  ct_width :: rat
  ct_height :: rat
  ct_y :: rat

definition column_step :: "rounding \<Rightarrow> dimensions \<Rightarrow> rat \<Rightarrow> placement_meta \<Rightarrow> column_state \<Rightarrow> column_state" where
  "column_step rnd dims x m st =
     (let d = card_wh dims m
      in \<lparr>ct_entries = ct_entries st @
            [\<lparr>pe_kind = pm_kind m, pe_card = pm_card m, pe_geometry = xywh_fromArgs x (ct_y st) (dw d) (dh d)\<rparr>],
          ct_width = max (ct_width st) (dw d),
          ct_height = rnd (ct_height st + rnd (dh d + (if ct_entries st = [] then 0 else endpointVPadding))),
          ct_y = rnd (ct_y st + rnd (dh d + endpointVPadding))\<rparr>)"

record align_state =
  al_x :: rat
  al_y :: rat
  al_entireHeight :: rat

text \<open>A group: its columns with their heights, and its bounding box.\<close>

record entries_group =
  gr_columns :: "(placement_entry list \<times> rat) list"
  gr_bbox :: xywh

definition align_column ::
  "rounding \<Rightarrow> dimensions \<Rightarrow> placement_meta list \<Rightarrow> align_state \<times> entries_group \<Rightarrow> align_state \<times> entries_group" where
  "align_column rnd dims col s =
     (let (al, gr) = s;
          st = fold (column_step rnd dims (al_x al)) col \<lparr>ct_entries = [], ct_width = 0, ct_height = 0, ct_y = 0\<rparr>;
          b = gr_bbox gr;
          b' = b\<lparr>gw := rnd (gw b + rnd (ct_width st + (if gr_columns gr = [] then 0 else endpointHPadding))),
                 gh := max (gh b) (rnd (ct_y st - endpointVPadding))\<rparr>
      in (\<lparr>al_x = rnd (al_x al + rnd (ct_width st + endpointHPadding)), al_y = ct_y st,
           al_entireHeight = max (al_entireHeight al) (gh b')\<rparr>,
          \<lparr>gr_columns = gr_columns gr @ [(ct_entries st, ct_height st)], gr_bbox = b'\<rparr>))"

definition align_kind ::
  "rounding \<Rightarrow> dimensions \<Rightarrow> (placement_kind, placement_meta list list) js_map \<Rightarrow> placement_kind \<Rightarrow>
   align_state \<times> (placement_kind \<times> entries_group) list \<Rightarrow> align_state \<times> (placement_kind \<times> entries_group) list" where
  "align_kind rnd dims columns kind s =
     (case map_get columns kind of
        None \<Rightarrow> s
      | Some cols \<Rightarrow>
          (let (al, groups) = s;
               (al', gr) = fold (align_column rnd dims) cols
                 (al, \<lparr>gr_columns = [], gr_bbox = xywh_fromArgs (al_x al) (al_y al) 0 0\<rparr>)
           in (al', groups @ [(kind, gr)])))"

definition shift_entry :: "rounding \<Rightarrow> rat \<Rightarrow> rat \<Rightarrow> placement_entry \<Rightarrow> placement_entry" where
  "shift_entry rnd dx dy e =
     e\<lparr>pe_geometry := (pe_geometry e)\<lparr>gx := rnd (gx (pe_geometry e) + dx), gy := rnd (gy (pe_geometry e) + dy)\<rparr>\<rparr>"

text \<open>The entries of a group with their columns in the middle, and the bounding box.  Only the vertical offset
  changes there.\<close>

definition center_group :: "rounding \<Rightarrow> rat \<Rightarrow> entries_group \<Rightarrow> placement_entry list \<times> xywh" where
  "center_group rnd entireHeight gr =
     (concat (map (\<lambda>(entries, columnHeight).
        map (\<lambda>e. e\<lparr>pe_geometry := (pe_geometry e)\<lparr>gy := rnd (gy (pe_geometry e) + rnd (rnd (entireHeight - columnHeight) / 2))\<rparr>\<rparr>)
          entries) (gr_columns gr)),
      gr_bbox gr)"

definition alignColumns ::
  "rounding \<Rightarrow> dimensions \<Rightarrow> (placement_kind, placement_meta list list) js_map \<Rightarrow> placement_kind list \<Rightarrow>
   (placement_kind, placement_entry list \<times> xywh) js_map" where
  "alignColumns rnd dims columns kinds =
     (let (al, groups) = fold (align_kind rnd dims columns) kinds (\<lparr>al_x = 0, al_y = 0, al_entireHeight = 0\<rparr>, [])
      in map (\<lambda>(kind, gr). (kind, center_group rnd (al_entireHeight al) gr)) groups)"

definition shift_entries :: "rounding \<Rightarrow> rat \<times> rat \<Rightarrow> placement_entry list \<Rightarrow> placement_entry list" where
  "shift_entries rnd shift entries = map (shift_entry rnd (fst shift) (snd shift)) entries"

definition shiftToInsideCenter :: "rounding \<Rightarrow> xywh \<Rightarrow> xywh \<Rightarrow> rat \<times> rat" where
  "shiftToInsideCenter rnd inside bbox =
     (rnd (rnd (gx inside - gx bbox) + rnd (rnd (gw inside - gw bbox) / 2)), 0)"

type_synonym groups = "(placement_kind, placement_entry list \<times> xywh) js_map"

abbreviation top_kinds :: "placement_kind list" where
  "top_kinds \<equiv> [ToWorld]"

abbreviation middle_kinds :: "placement_kind list" where
  "middle_kinds \<equiv> [FromWorld, InsideWithConnections, InsideWithoutConnections]"

abbreviation bottom_kinds :: "placement_kind list" where
  "bottom_kinds \<equiv> [AnotherNamespace]"

text \<open>How far the cards below the receivers outside go down.\<close>

definition top_shift :: "rounding \<Rightarrow> groups \<Rightarrow> rat" where
  "top_shift rnd upper =
     (case map_get upper ToWorld of None \<Rightarrow> 0 | Some p \<Rightarrow> rnd (gh (snd p) + 2 * namespaceBackplatePadding))"

definition to_center :: "rounding \<Rightarrow> groups \<Rightarrow> xywh \<Rightarrow> rat \<times> rat" where
  "to_center rnd middle b =
     (case map_get middle InsideWithConnections of None \<Rightarrow> (0, 0) | Some p \<Rightarrow> shiftToInsideCenter rnd (snd p) b)"

definition middle_height :: "groups \<Rightarrow> rat" where
  "middle_height middle =
     fold (\<lambda>kind h. case map_get middle kind of None \<Rightarrow> h | Some p \<Rightarrow> max h (gh (snd p))) middle_kinds 0"

definition buildShiftForBottom :: "rounding \<Rightarrow> groups \<Rightarrow> groups \<Rightarrow> xywh \<Rightarrow> rat \<times> rat" where
  "buildShiftForBottom rnd upper middle b =
     (fst (to_center rnd middle b),
      if middle_height middle > 1 / 2 ^ 52
      then rnd (top_shift rnd upper + rnd (middle_height middle + 2 * namespaceBackplatePadding))
      else top_shift rnd upper)"

text \<open>A group that is there, and its entries after a shift that is made.\<close>

definition place_group :: "rounding \<Rightarrow> (xywh \<Rightarrow> (rat \<times> rat) option) \<Rightarrow> groups \<Rightarrow> placement_kind \<Rightarrow> placement_entry list" where
  "place_group rnd shift groups kind =
     (case map_get groups kind of
        None \<Rightarrow> []
      | Some p \<Rightarrow> (case shift (snd p) of None \<Rightarrow> fst p | Some s \<Rightarrow> shift_entries rnd s (fst p)))"

definition place_bands :: "rounding \<Rightarrow> groups \<Rightarrow> groups \<Rightarrow> groups \<Rightarrow> placement_entry list" where
  "place_bands rnd upper middle bottom =
     place_group rnd (\<lambda>b. if map_get middle InsideWithConnections = None then None else Some (to_center rnd middle b)) upper ToWorld
     @ concat (map (place_group rnd (\<lambda>_. if map_get upper ToWorld = None then None else Some (0, top_shift rnd upper)) middle)
         middle_kinds)
     @ place_group rnd (\<lambda>b. Some (buildShiftForBottom rnd upper middle b)) bottom AnotherNamespace"

definition assign_coordinates ::
  "rounding \<Rightarrow> dimensions \<Rightarrow> (placement_kind, placement_meta list list) js_map \<Rightarrow> placement_entry list" where
  "assign_coordinates rnd dims columns =
     place_bands rnd (alignColumns rnd dims columns top_kinds) (alignColumns rnd dims columns middle_kinds)
       (alignColumns rnd dims columns bottom_kinds)"

text \<open>The layout is a map from the identifiers of the cards, as the entries are copied one after another.\<close>

definition assignCoordinates ::
  "dimensions \<Rightarrow> (placement_kind, placement_meta list list) js_map \<Rightarrow> (string, placement_entry) js_map" where
  "assignCoordinates dims columns =
     fold (\<lambda>e m. map_set (card_id (pe_card e)) e m) (assign_coordinates fl dims columns) []"

definition placementColumns ::
  "bool \<Rightarrow> (placement_kind, placement_meta list) js_map \<Rightarrow> (placement_kind, placement_meta list list) js_map" where
  "placementColumns skipAnotherNs groups =
     fold (\<lambda>(kind, plcs) columns.
       if skipAnotherNs \<and> kind = AnotherNamespace then columns else map_set kind (buildPlacementColumns plcs) columns)
       groups []"

definition cardsPlacement :: "store_frame \<Rightarrow> shared_state \<Rightarrow> placement_store \<Rightarrow> (string, placement_entry) js_map" where
  "cardsPlacement fr sh ps =
     (let groups = placementGroups (interaction_connections (sf_interactions fr)) (sf_services fr)
            (map_option nd_namespace (namespaces_current (sh_namespaces sh)))
      in assignCoordinates (ps_cardsWHs ps)
           (placementColumns (\<not> cs_showCrossNamespaceActivity (sh_controls sh)) groups))"

definition rebuild :: "store_frame \<Rightarrow> shared_state \<Rightarrow> placement_store \<Rightarrow> placement_store" where
  "rebuild fr sh ps =
     ps\<lparr>ps_cardsXYs := fold (\<lambda>(cardId, e) m. map_set cardId (xywh_xy (pe_geometry e)) m) (cardsPlacement fr sh ps)
       (ps_cardsXYs ps)\<rparr>"

text \<open>The box that starts infinitely far away stays so when no entry passes.\<close>

definition cardsBBox :: "(placement_entry \<Rightarrow> bool) \<Rightarrow> (string, placement_entry) js_map \<Rightarrow> xywh option" where
  "cardsBBox p placement =
     (case filter p (map_values placement) of
        [] \<Rightarrow> None
      | e # es \<Rightarrow>
          (let gs = map pe_geometry (e # es);
               x = Min (gx ` set gs); y = Min (gy ` set gs);
               maxX = fold (\<lambda>g m. max m (js_add (gx g) (gw g))) gs 0;
               maxY = fold (\<lambda>g m. max m (js_add (gy g) (gh g))) gs 0
           in Some (xywh_new x y (js_sub maxX x) (js_sub maxY y))))"

definition namespaceBBox :: "(string, placement_entry) js_map \<Rightarrow> xywh option" where
  "namespaceBBox placement =
     cardsBBox (\<lambda>e. pe_kind e = InsideWithConnections \<or> pe_kind e = InsideWithoutConnections) placement"

definition placement_bbox :: "(string, placement_entry) js_map \<Rightarrow> placement_store \<Rightarrow> xywh" where
  "placement_bbox placement ps =
     (let start = (case namespaceBBox placement of None \<Rightarrow> xywh_empty | Some b \<Rightarrow> b)
      in fold (\<lambda>(cardId, p) b.
           case map_get (ps_cardsWHs ps) cardId of
             None \<Rightarrow> b
           | Some d \<Rightarrow>
               b\<lparr>gw := max (gw b) (js_add (cx p) (dw d)), gh := max (gh b) (js_add (cy p) (dh d)),
                 gx := min (gx b) (cx p), gy := min (gy b) (cy p)\<rparr>)
           (ps_cardsXYs ps) start)"


section \<open>Rounding\<close>

text \<open>What the layout needs to know of the arithmetic of the machine: rounding is monotone, exact on small whole
  numbers, and off by less than a millionth of a pixel on coordinates below four thousand million.\<close>

locale rounding =
  fixes rnd :: "rat \<Rightarrow> rat"
  assumes rnd_mono: "x \<le> y \<Longrightarrow> rnd x \<le> rnd y"
    and rnd_int: "\<bar>k\<bar> \<le> 1000000 \<Longrightarrow> rnd (of_int k) = of_int k"
    and rnd_near: "\<bar>x\<bar> \<le> 4000000000 \<Longrightarrow> \<bar>rnd x - x\<bar> \<le> 1 / 1000000"
begin

lemma rnd_zero [simp]: "rnd 0 = 0"
  using rnd_int [of 0] by simp

lemma rnd_200 [simp]: "rnd 200 = 200"
  using rnd_int [of 200] by simp

lemma rnd_nonneg: "0 \<le> x \<Longrightarrow> 0 \<le> rnd x"
  using rnd_mono [of 0 x] by simp

lemma rnd_bounds:
  "\<bar>x\<bar> \<le> 4000000000 \<Longrightarrow> x - 1 / 1000000 \<le> rnd x \<and> rnd x \<le> x + 1 / 1000000"
  using rnd_near [of x] by linarith

text \<open>A sum whose right summand is rounded first.\<close>

lemma rnd_sum_bounds:
  assumes "\<bar>a\<bar> \<le> 2000000000" "\<bar>b\<bar> \<le> 1000000000"
  shows "\<bar>rnd (a + rnd b) - (a + b)\<bar> \<le> 2 / 1000000"
proof -
  have b: "b - 1 / 1000000 \<le> rnd b \<and> rnd b \<le> b + 1 / 1000000" using assms by (intro rnd_bounds) linarith
  then have "\<bar>a + rnd b\<bar> \<le> 4000000000" using assms by linarith
  from rnd_bounds [OF this] b show ?thesis by linarith
qed

end

lemma fl_near:
  assumes "\<bar>x\<bar> \<le> 4000000000"
  shows "\<bar>fl x - x\<bar> \<le> 1 / 1000000"
proof -
  define k where "k = \<lfloor>x * 1048576\<rfloor>"
  have k: "of_int k / 2 ^ 20 \<le> x" "x \<le> of_int (k + 1) / 2 ^ 20"
    unfolding k_def by (simp_all add: field_simps) linarith
  have "x * 1048576 \<le> 4194304000000000" "- 4194304000000000 \<le> x * 1048576" using assms by linarith+
  then have "k \<le> 4194304000000000" "- 4194304000000000 \<le> k" unfolding k_def by linarith+
  then have "fl (of_int k / 2 ^ 20) = of_int k / 2 ^ 20" "fl (of_int (k + 1) / 2 ^ 20) = of_int (k + 1) / 2 ^ 20"
    by (intro fl_scaled; simp)+
  then have "of_int k / 2 ^ 20 \<le> fl x" "fl x \<le> of_int (k + 1) / 2 ^ 20" using fl_mono [OF k(1)] fl_mono [OF k(2)] by simp_all
  then have "of_int k / 1048576 \<le> fl x" "fl x \<le> of_int k / 1048576 + 1 / 1048576" "of_int k / 1048576 \<le> x"
      "x \<le> of_int k / 1048576 + 1 / 1048576"
    using k by (simp_all add: add_divide_distrib)
  then show ?thesis by linarith
qed

interpretation fl: rounding fl
  by unfold_locales (erule fl_mono, rule fl_of_int, simp, erule fl_near)

section \<open>Rectangles that do not overlap\<close>

definition apart_by :: "rat \<Rightarrow> xywh \<Rightarrow> xywh \<Rightarrow> bool" where
  "apart_by m a b \<longleftrightarrow>
     gx a + gw a + m \<le> gx b \<or> gx b + gw b + m \<le> gx a \<or> gy a + gh a + m \<le> gy b \<or> gy b + gh b + m \<le> gy a"

abbreviation entries_apart :: "rat \<Rightarrow> placement_entry \<Rightarrow> placement_entry \<Rightarrow> bool" where
  "entries_apart m e f \<equiv> apart_by m (pe_geometry e) (pe_geometry f)"

lemma apart_by_sym: "apart_by m a b \<Longrightarrow> apart_by m b a"
  by (auto simp: apart_by_def)

lemma apart_by_mono: "apart_by m a b \<Longrightarrow> n \<le> m \<Longrightarrow> apart_by n a b"
  by (auto simp: apart_by_def)

lemma sorted_wrt_concat:
  "(\<And>c. c \<in> set cs \<Longrightarrow> sorted_wrt P (f c)) \<Longrightarrow> sorted_wrt (\<lambda>c d. \<forall>e \<in> set (f c). \<forall>g \<in> set (f d). P e g) cs \<Longrightarrow>
     sorted_wrt P (concat (map f cs))"
  by (induction cs) (auto simp: sorted_wrt_append)

lemma sorted_wrt_weaken:
  "sorted_wrt P xs \<Longrightarrow> (\<And>x y. x \<in> set xs \<Longrightarrow> y \<in> set xs \<Longrightarrow> P x y \<Longrightarrow> Q x y) \<Longrightarrow> sorted_wrt Q xs"
  by (induction xs) auto

text \<open>Sizes of cards that a screen can show: a height that is not zero is at least a pixel.\<close>

definition dims_ok :: "dimensions \<Rightarrow> bool" where
  "dims_ok dims \<longleftrightarrow>
     (\<forall>d \<in> snd ` set dims. 0 \<le> dw d \<and> dw d \<le> 65536 \<and> dh d \<le> 65536 \<and> (dh d = 0 \<or> 1 \<le> dh d))"

lemma card_wh_ok:
  assumes "dims_ok dims"
  shows "0 \<le> dw (card_wh dims m) \<and> dw (card_wh dims m) \<le> 65536 \<and> dh (card_wh dims m) \<le> 65536
    \<and> (dh (card_wh dims m) = 0 \<or> 1 \<le> dh (card_wh dims m))"
  using assms
  by (auto simp: card_wh_def dims_ok_def defaultCardXYWH_def defaultCardW_def defaultCardH_def xywh_wh_def xywh_new_def
      split: option.split dest!: map_of_SomeD)


section \<open>Columns\<close>

text \<open>A column at \<open>x\<close> of height \<open>h\<close>: its cards are below each other, almost 200 pixels apart.\<close>

definition column_ok :: "rat \<Rightarrow> rat \<Rightarrow> rat \<Rightarrow> placement_entry list \<Rightarrow> bool" where
  "column_ok x w h es \<longleftrightarrow>
     (\<forall>e \<in> set es. gx (pe_geometry e) = x \<and> gw (pe_geometry e) \<le> w \<and> 0 \<le> gy (pe_geometry e)
        \<and> 0 \<le> gh (pe_geometry e) \<and> gy (pe_geometry e) + gh (pe_geometry e) \<le> h)
     \<and> sorted_wrt (\<lambda>e f. gy (pe_geometry e) + gh (pe_geometry e) + 199 \<le> gy (pe_geometry f)) es"

definition flat_entries :: "placement_entry list \<Rightarrow> bool" where
  "flat_entries es \<longleftrightarrow> (\<forall>e \<in> set es. gy (pe_geometry e) = 0 \<and> gh (pe_geometry e) = 0)"

definition column_inv :: "rat \<Rightarrow> column_state \<Rightarrow> bool" where
  "column_inv x st \<longleftrightarrow>
     column_ok x (ct_width st) (ct_y st - 199) (ct_entries st)
     \<and> 0 \<le> ct_width st \<and> ct_width st \<le> 65536
     \<and> 0 \<le> ct_y st \<and> ct_y st \<le> of_nat (length (ct_entries st)) * 70000
     \<and> (if ct_entries st = [] then ct_height st = 0 \<and> ct_y st = 0
        else 399 / 2 \<le> ct_y st
          \<and> \<bar>ct_height st + 200 - ct_y st\<bar> \<le> of_nat (length (ct_entries st)) * (4 / 1000000)
          \<and> (401 / 2 \<le> ct_y st \<or> ct_y st = 200 \<and> ct_height st = 0 \<and> flat_entries (ct_entries st)))"

lemma column_inv_start: "column_inv x \<lparr>ct_entries = [], ct_width = 0, ct_height = 0, ct_y = 0\<rparr>"
  by (simp add: column_inv_def column_ok_def flat_entries_def)

context rounding
begin

lemma column_step_geometry:
  fixes m :: placement_meta
  assumes "column_inv x st" "dims_ok dims" "length (ct_entries st) < 1024"
  defines "st' \<equiv> column_step rnd dims x m st" and "d \<equiv> card_wh dims m"
  shows "column_ok x (ct_width st') (ct_y st' - 199) (ct_entries st')"
    and "\<bar>ct_y st' - (ct_y st + dh d + 200)\<bar> \<le> 2 / 1000000"
proof -
  have d: "0 \<le> dw d" "dw d \<le> 65536" "0 \<le> dh d" "dh d \<le> 65536"
    using card_wh_ok [OF assms(2), of m] unfolding d_def by auto
  have y: "0 \<le> ct_y st" "ct_y st \<le> of_nat (length (ct_entries st)) * 70000" using assms(1) by (auto simp: column_inv_def)
  have "ct_y st \<le> 1024 * 70000" using y(2) assms(3) by (simp add: order_trans)
  then have s: "\<bar>ct_y st' - (ct_y st + (dh d + 200))\<bar> \<le> 2 / 1000000"
    unfolding st'_def column_step_def Let_def column_state.simps d_def [symmetric]
    using y d by (intro rnd_sum_bounds) auto
  then show "\<bar>ct_y st' - (ct_y st + dh d + 200)\<bar> \<le> 2 / 1000000" by linarith
  have ok: "column_ok x (ct_width st) (ct_y st - 199) (ct_entries st)" using assms(1) by (simp add: column_inv_def)
  have up: "ct_y st \<le> ct_y st' - 199" "ct_y st + dh d \<le> ct_y st' - 199" using s d by linarith+
  have new: "ct_width st \<le> ct_width st'" "dw d \<le> ct_width st'"
    "ct_entries st' = ct_entries st @ [\<lparr>pe_kind = pm_kind m, pe_card = pm_card m,
        pe_geometry = \<lparr>gx = x, gy = ct_y st, gw = dw d, gh = dh d\<rparr>\<rparr>]"
    by (simp_all add: st'_def column_step_def Let_def d_def xywh_fromArgs_def xywh_new_def)
  have old: "gw (pe_geometry e) \<le> ct_width st' \<and> gy (pe_geometry e) + gh (pe_geometry e) \<le> ct_y st' - 199
      \<and> gy (pe_geometry e) + gh (pe_geometry e) + 199 \<le> ct_y st" if "e \<in> set (ct_entries st)" for e
  proof -
    have "gw (pe_geometry e) \<le> ct_width st" "gy (pe_geometry e) + gh (pe_geometry e) \<le> ct_y st - 199"
      using ok that by (auto simp: column_ok_def)
    then show ?thesis using new(1) up by linarith
  qed
  show "column_ok x (ct_width st') (ct_y st' - 199) (ct_entries st')"
    using ok new(2) d(1,3) y(1) up(2) unfolding new(3) column_ok_def
    by (auto simp: sorted_wrt_append dest!: old)
qed

end


context rounding
begin

lemma column_step_entries:
  "ct_entries (column_step rnd dims x m st) = ct_entries st @
     [\<lparr>pe_kind = pm_kind m, pe_card = pm_card m,
       pe_geometry = \<lparr>gx = x, gy = ct_y st, gw = dw (card_wh dims m), gh = dh (card_wh dims m)\<rparr>\<rparr>]"
  by (simp add: column_step_def Let_def xywh_fromArgs_def xywh_new_def)

lemma column_step_height:
  assumes "column_inv x st" "dims_ok dims" "length (ct_entries st) < 1024"
  shows "\<bar>ct_height (column_step rnd dims x m st) - (ct_height st + dh (card_wh dims m) + (if ct_entries st = [] then 0 else 200))\<bar>
    \<le> 2 / 1000000"
proof -
  let ?n = "of_nat (length (ct_entries st)) :: rat"
  let ?d = "dh (card_wh dims m)"
  have d: "0 \<le> ?d" "?d \<le> 65536" using card_wh_ok [OF assms(2), of m] by auto
  have n: "?n \<le> 1024" using assms(3) by simp
  have "0 \<le> ct_y st" "ct_y st \<le> ?n * 70000" "ct_entries st \<noteq> [] \<longrightarrow> \<bar>ct_height st + 200 - ct_y st\<bar> \<le> ?n * (4 / 1000000)"
    "ct_entries st = [] \<longrightarrow> ct_height st = 0"
    using assms(1) by (auto simp: column_inv_def)
  then have "\<bar>ct_height st\<bar> \<le> 2000000000" using n by (cases "ct_entries st = []") (simp, linarith)
  from rnd_sum_bounds [OF this, of "?d + (if ct_entries st = [] then 0 else 200)"] d
  show ?thesis by (cases "ct_entries st = []") (simp_all add: column_step_def Let_def add.assoc)
qed

lemma column_inv_step:
  assumes "column_inv x st" "dims_ok dims" "length (ct_entries st) < 1024"
  shows "column_inv x (column_step rnd dims x m st)"
proof -
  define st' where "st' = column_step rnd dims x m st"
  let ?d = "dh (card_wh dims m)"
  let ?n = "of_nat (length (ct_entries st)) :: rat"
  note wh = card_wh_ok [OF assms(2), of m]
  note y' = column_step_geometry(2) [OF assms, of m, folded st'_def]
  note h' = column_step_height [OF assms, of m, folded st'_def]
  note es' = column_step_entries [of dims x m st, folded st'_def]
  have st: "0 \<le> ct_y st" "ct_y st \<le> ?n * 70000" "0 \<le> ct_width st" "ct_width st \<le> 65536"
    "if ct_entries st = [] then ct_height st = 0 \<and> ct_y st = 0
     else 399 / 2 \<le> ct_y st \<and> \<bar>ct_height st + 200 - ct_y st\<bar> \<le> ?n * (4 / 1000000)
       \<and> (401 / 2 \<le> ct_y st \<or> ct_y st = 200 \<and> ct_height st = 0 \<and> flat_entries (ct_entries st))"
    using assms(1) by (auto simp: column_inv_def)
  have "0 \<le> ct_width st'" "ct_width st' \<le> 65536"
    using st(3,4) wh by (simp_all add: st'_def column_step_def Let_def)
  moreover have "399 / 2 \<le> ct_y st'" using y' wh st(1) by linarith
  moreover have "ct_y st' \<le> ?n * 70000 + 70000" using y' wh st(2) by linarith
  then have "ct_y st' \<le> (?n + 1) * 70000" by (simp add: distrib_right)
  moreover have "\<bar>ct_height st' + 200 - ct_y st'\<bar> \<le> (?n + 1) * (4 / 1000000)"
  proof (cases "ct_entries st = []")
    case True
    then have "\<bar>ct_height st' - ?d\<bar> \<le> 2 / 1000000" "\<bar>ct_y st' - (?d + 200)\<bar> \<le> 2 / 1000000" using h' y' st(5) by simp_all
    then have "\<bar>ct_height st' + 200 - ct_y st'\<bar> \<le> 4 / 1000000" by linarith
    then show ?thesis using True by simp
  next
    case False
    then have "\<bar>ct_height st' - (ct_height st + ?d + 200)\<bar> \<le> 2 / 1000000" "\<bar>ct_height st + 200 - ct_y st\<bar> \<le> ?n * (4 / 1000000)"
      using h' st(5) by simp_all
    then have "\<bar>ct_height st' + 200 - ct_y st'\<bar> \<le> ?n * (4 / 1000000) + 4 / 1000000" using y' by linarith
    then show ?thesis by (simp add: distrib_right)
  qed
  moreover have "401 / 2 \<le> ct_y st' \<or> ct_y st' = 200 \<and> ct_height st' = 0 \<and> flat_entries (ct_entries st')"
  proof (cases "ct_entries st = [] \<and> ?d = 0")
    case True
    then have "ct_y st' = 200 \<and> ct_height st' = 0 \<and> flat_entries (ct_entries st')"
      using st(5) by (simp add: es' flat_entries_def) (simp add: st'_def column_step_def Let_def)
    then show ?thesis ..
  next
    case False
    then have "1 \<le> ?d \<or> 399 / 2 \<le> ct_y st" using wh st(5) by (cases "ct_entries st = []") simp_all
    moreover have "0 \<le> ?d" using wh by auto
    ultimately have "1 \<le> ct_y st + ?d" using st(1) by linarith
    then have "401 / 2 \<le> ct_y st'" using y' by linarith
    then show ?thesis ..
  qed
  ultimately have "column_inv x st'"
    using column_step_geometry(1) [OF assms, of m, folded st'_def]
    unfolding column_inv_def by (simp add: es')
  then show ?thesis by (simp add: st'_def)
qed

lemma column_inv_fold:
  "column_inv x st \<Longrightarrow> dims_ok dims \<Longrightarrow> length (ct_entries st) + length ms \<le> 1024 \<Longrightarrow>
     column_inv x (fold (column_step rnd dims x) ms st)"
  by (induction ms arbitrary: st) (simp_all add: column_inv_step column_step_entries)

end


section \<open>Columns side by side\<close>

text \<open>The next column goes to \<open>x\<close>.\<close>

definition columns_ok :: "rat \<Rightarrow> (placement_entry list \<times> rat) list \<Rightarrow> bool" where
  "columns_ok x cols \<longleftrightarrow>
     (\<forall>c \<in> set cols. \<exists>x0 w. column_ok x0 w (snd c + 2) (fst c) \<and> 0 \<le> x0 \<and> 0 \<le> w \<and> x0 + w + 199 \<le> x)
     \<and> sorted_wrt (\<lambda>c d. \<forall>e \<in> set (fst c). \<forall>f \<in> set (fst d).
         gx (pe_geometry e) + gw (pe_geometry e) + 199 \<le> gx (pe_geometry f)) cols"

lemma columns_ok_snoc:
  assumes "columns_ok x cols" "column_ok x w (h + 2) es" "x + w + 199 \<le> x'" "0 \<le> w" "0 \<le> x"
  shows "columns_ok x' (cols @ [(es, h)])"
proof -
  have "\<forall>e \<in> set (fst c). gx (pe_geometry e) + gw (pe_geometry e) + 199 \<le> x" if "c \<in> set cols" for c
    using assms(1) that by (fastforce simp: columns_ok_def column_ok_def)
  moreover have "\<forall>f \<in> set es. gx (pe_geometry f) = x" using assms(2) by (auto simp: column_ok_def)
  moreover have "\<exists>x0 w'. column_ok x0 w' (snd c + 2) (fst c) \<and> 0 \<le> x0 \<and> 0 \<le> w' \<and> x0 + w' + 199 \<le> x'" if "c \<in> set cols" for c
    using assms(1,3,4) that by (fastforce simp: columns_ok_def)
  moreover have "\<exists>x0 w'. column_ok x0 w' (h + 2) es \<and> 0 \<le> x0 \<and> 0 \<le> w' \<and> x0 + w' + 199 \<le> x'" using assms(2-5) by blast
  ultimately show ?thesis using assms(1) by (auto simp: columns_ok_def sorted_wrt_append)
qed

text \<open>A group as high as its highest column; one without height has flat columns only.\<close>

definition group_ok :: "entries_group \<Rightarrow> bool" where
  "group_ok g \<longleftrightarrow>
     0 \<le> gh (gr_bbox g) \<and> gh (gr_bbox g) \<le> 100000000
     \<and> 0 \<le> gw (gr_bbox g) \<and> gw (gr_bbox g) \<le> of_nat (length (gr_columns g)) * 70000
     \<and> (\<forall>c \<in> set (gr_columns g). - 1 \<le> snd c \<and> snd c \<le> gh (gr_bbox g) + 1)
     \<and> (1 / 4 \<le> gh (gr_bbox g) \<or> gh (gr_bbox g) = 0 \<and> (\<forall>c \<in> set (gr_columns g). flat_entries (fst c) \<and> snd c = 0))"

definition align_inv :: "align_state \<Rightarrow> entries_group list \<Rightarrow> bool" where
  "align_inv al gs \<longleftrightarrow>
     columns_ok (al_x al) (concat (map gr_columns gs))
     \<and> 0 \<le> al_x al \<and> al_x al \<le> of_nat (length (concat (map gr_columns gs))) * 70000
     \<and> (\<forall>g \<in> set gs. group_ok g \<and> gh (gr_bbox g) \<le> al_entireHeight al
          \<and> 0 \<le> gx (gr_bbox g) \<and> gx (gr_bbox g) \<le> al_x al)
     \<and> 0 \<le> al_entireHeight al
     \<and> (al_entireHeight al = 0 \<or> (\<exists>g \<in> set gs. al_entireHeight al = gh (gr_bbox g)))"

context rounding
begin

text \<open>What a whole column leaves behind.\<close>

lemma fold_column_length:
  "length (ct_entries (fold (column_step rnd dims x) ms st)) = length (ct_entries st) + length ms"
  by (induction ms arbitrary: st) (simp_all add: column_step_entries)

lemma column_result:
  fixes x :: rat
  assumes "dims_ok dims" "length col \<le> 1024"
  defines "st \<equiv> fold (column_step rnd dims x) col \<lparr>ct_entries = [], ct_width = 0, ct_height = 0, ct_y = 0\<rparr>"
  shows "column_ok x (ct_width st) (ct_height st + 2) (ct_entries st)"
    and "0 \<le> ct_width st \<and> ct_width st \<le> 65536"
    and "- 1 \<le> ct_height st \<and> ct_height st \<le> max 0 (rnd (ct_y st - 200)) + 1"
    and "rnd (ct_y st - 200) \<le> 100000000"
    and "1 / 4 \<le> rnd (ct_y st - 200) \<or> rnd (ct_y st - 200) \<le> 0 \<and> flat_entries (ct_entries st) \<and> ct_height st = 0"
proof -
  have inv: "column_inv x st" unfolding st_def
    by (rule column_inv_fold [OF column_inv_start]) (use assms in simp_all)
  have "(of_nat (length (ct_entries st)) :: rat) \<le> 1024" unfolding st_def using assms(2) by (simp add: fold_column_length)
  then have n: "of_nat (length (ct_entries st)) * 70000 \<le> (1024 * 70000 :: rat)"
    "of_nat (length (ct_entries st)) * (4 / 1000000) \<le> (1024 * (4 / 1000000) :: rat)" by simp_all
  show "0 \<le> ct_width st \<and> ct_width st \<le> 65536" using inv by (simp add: column_inv_def)
  have y: "0 \<le> ct_y st" "ct_y st \<le> 1024 * 70000" using inv n(1) unfolding column_inv_def by linarith+
  have r: "\<bar>rnd (ct_y st - 200) - (ct_y st - 200)\<bar> \<le> 1 / 1000000" using y by (intro rnd_near) linarith
  show "rnd (ct_y st - 200) \<le> 100000000" using r y by linarith
  have ok: "column_ok x (ct_width st) (ct_y st - 199) (ct_entries st)" using inv by (simp add: column_inv_def)
  have h: "399 / 2 \<le> ct_y st \<and> \<bar>ct_height st + 200 - ct_y st\<bar> \<le> 1 / 200" if "ct_entries st \<noteq> []"
    using inv that n(2) by (simp add: column_inv_def)
  have e: "ct_height st = 0" "ct_y st = 0" if "ct_entries st = []" using inv that by (auto simp: column_inv_def)
  show "- 1 \<le> ct_height st \<and> ct_height st \<le> max 0 (rnd (ct_y st - 200)) + 1"
  proof (cases "ct_entries st = []")
    case False
    from h [OF this] r have "- 1 \<le> ct_height st" "ct_height st \<le> rnd (ct_y st - 200) + 1" by linarith+
    then show ?thesis by linarith
  qed (simp add: e)
  show "column_ok x (ct_width st) (ct_height st + 2) (ct_entries st)"
  proof (cases "ct_entries st = []")
    case False
    from h [OF this] have "ct_y st - 199 \<le> ct_height st + 2" by linarith
    then show ?thesis using ok by (fastforce simp: column_ok_def)
  qed (simp add: column_ok_def)
  show "1 / 4 \<le> rnd (ct_y st - 200) \<or> rnd (ct_y st - 200) \<le> 0 \<and> flat_entries (ct_entries st) \<and> ct_height st = 0"
  proof (cases "401 / 2 \<le> ct_y st")
    case True
    then have "1 / 4 \<le> rnd (ct_y st - 200)" using r by linarith
    then show ?thesis ..
  next
    case False
    then have "ct_y st \<le> 200 \<and> flat_entries (ct_entries st) \<and> ct_height st = 0"
      using inv by (cases "ct_entries st = []") (simp_all add: column_inv_def flat_entries_def)
    then show ?thesis using rnd_mono [of "ct_y st - 200" 0] by simp
  qed
qed

end


context rounding
begin

text \<open>One more column: the group, and the place of the next one.\<close>

lemma align_column_group:
  assumes "dims_ok dims" "length col \<le> 1024" "group_ok gr" "length (gr_columns gr) < 10000"
    and "align_column rnd dims col (al, gr) = (al', gr')"
  shows "group_ok gr'" and "gh (gr_bbox gr) \<le> gh (gr_bbox gr')" and "gx (gr_bbox gr') = gx (gr_bbox gr)"
    and "al_entireHeight al' = max (al_entireHeight al) (gh (gr_bbox gr'))"
proof -
  define st where "st = fold (column_step rnd dims (al_x al)) col \<lparr>ct_entries = [], ct_width = 0, ct_height = 0, ct_y = 0\<rparr>"
  note col = column_result [OF assms(1,2), of "al_x al", folded st_def]
  let ?s = "ct_width st + (if gr_columns gr = [] then 0 else 200)"
  have eq: "gr_columns gr' = gr_columns gr @ [(ct_entries st, ct_height st)]"
    "gh (gr_bbox gr') = max (gh (gr_bbox gr)) (rnd (ct_y st - 200))" "gw (gr_bbox gr') = rnd (gw (gr_bbox gr) + rnd ?s)"
    and x: "gx (gr_bbox gr') = gx (gr_bbox gr)" "al_entireHeight al' = max (al_entireHeight al) (gh (gr_bbox gr'))"
    using assms(5) by (auto simp: align_column_def Let_def st_def [symmetric])
  show "gx (gr_bbox gr') = gx (gr_bbox gr)" "al_entireHeight al' = max (al_entireHeight al) (gh (gr_bbox gr'))"
    by (rule x)+
  show h: "gh (gr_bbox gr) \<le> gh (gr_bbox gr')" by (simp add: eq)
  have g: "0 \<le> gh (gr_bbox gr)" "gh (gr_bbox gr) \<le> 100000000" "0 \<le> gw (gr_bbox gr)"
    "gw (gr_bbox gr) \<le> of_nat (length (gr_columns gr)) * 70000"
    "\<forall>c \<in> set (gr_columns gr). - 1 \<le> snd c \<and> snd c \<le> gh (gr_bbox gr) + 1"
    "1 / 4 \<le> gh (gr_bbox gr) \<or> gh (gr_bbox gr) = 0 \<and> (\<forall>c \<in> set (gr_columns gr). flat_entries (fst c) \<and> snd c = 0)"
    using assms(3) by (simp_all add: group_ok_def)
  have n: "of_nat (length (gr_columns gr)) * 70000 \<le> (10000 * 70000 :: rat)" using assms(4) by simp
  have s: "0 \<le> ?s" "?s \<le> 65736" using col(2) by auto
  have w: "0 \<le> gw (gr_bbox gr')" unfolding eq using g(3) rnd_nonneg [OF s(1)] by (simp add: rnd_nonneg)
  have "\<bar>gw (gr_bbox gr') - (gw (gr_bbox gr) + ?s)\<bar> \<le> 2 / 1000000"
    unfolding eq by (rule rnd_sum_bounds) (use g(3,4) n s in linarith)+
  then have "gw (gr_bbox gr') \<le> of_nat (length (gr_columns gr)) * 70000 + 70000" using g(4) s by linarith
  then have w': "gw (gr_bbox gr') \<le> of_nat (length (gr_columns gr')) * 70000" by (simp add: eq distrib_right)
  have "max 0 (rnd (ct_y st - 200)) \<le> gh (gr_bbox gr')" using g(1) by (simp add: eq)
  then have "\<forall>c \<in> set (gr_columns gr'). - 1 \<le> snd c \<and> snd c \<le> gh (gr_bbox gr') + 1"
    using g(5) h col(3) unfolding eq(1) by force
  moreover have "1 / 4 \<le> gh (gr_bbox gr') \<or> gh (gr_bbox gr') = 0 \<and> (\<forall>c \<in> set (gr_columns gr'). flat_entries (fst c) \<and> snd c = 0)"
    using g(6) col(5) unfolding eq by (auto simp: max_def)
  ultimately show "group_ok gr'" using g(1,2) h w w' col(4) by (simp add: group_ok_def eq(2))
qed

lemma align_column_offset:
  assumes "dims_ok dims" "length col \<le> 1024" "0 \<le> al_x al" "al_x al \<le> 1000000000"
    and "columns_ok (al_x al) cols" "align_column rnd dims col (al, gr) = (al', gr')"
  shows "\<exists>c. gr_columns gr' = gr_columns gr @ [c] \<and> columns_ok (al_x al') (cols @ [c])"
    and "al_x al \<le> al_x al'" and "al_x al' \<le> al_x al + 70000"
proof -
  define st where "st = fold (column_step rnd dims (al_x al)) col \<lparr>ct_entries = [], ct_width = 0, ct_height = 0, ct_y = 0\<rparr>"
  note col = column_result [OF assms(1,2), of "al_x al", folded st_def]
  have eq: "gr_columns gr' = gr_columns gr @ [(ct_entries st, ct_height st)]"
    "al_x al' = rnd (al_x al + rnd (ct_width st + 200))"
    using assms(6) by (auto simp: align_column_def Let_def st_def [symmetric])
  have "\<bar>al_x al' - (al_x al + (ct_width st + 200))\<bar> \<le> 2 / 1000000"
    unfolding eq by (rule rnd_sum_bounds) (use assms(3,4) col(2) in linarith)+
  then have x: "al_x al + ct_width st + 199 \<le> al_x al'" "al_x al' \<le> al_x al + ct_width st + 201" by linarith+
  show "al_x al \<le> al_x al'" "al_x al' \<le> al_x al + 70000" using x col(2) by linarith+
  show "\<exists>c. gr_columns gr' = gr_columns gr @ [c] \<and> columns_ok (al_x al') (cols @ [c])"
    using columns_ok_snoc [OF assms(5) col(1) x(1) _ assms(3)] col(2) by (auto simp: eq(1))
qed

lemma align_inv_column:
  assumes "dims_ok dims" "length col \<le> 1024" "align_inv al (gs @ [gr])"
    and "length (concat (map gr_columns (gs @ [gr]))) < 10000"
    and "align_column rnd dims col (al, gr) = (al', gr')"
  shows "align_inv al' (gs @ [gr']) \<and> length (gr_columns gr') = length (gr_columns gr) + 1"
proof -
  let ?n = "of_nat (length (concat (map gr_columns (gs @ [gr])))) :: rat"
  have n: "?n * 70000 \<le> 10000 * 70000" using assms(4) by simp
  have inv: "columns_ok (al_x al) (concat (map gr_columns (gs @ [gr])))" "0 \<le> al_x al" "al_x al \<le> ?n * 70000"
    "group_ok gr" "gx (gr_bbox gr) \<le> al_x al" "0 \<le> gx (gr_bbox gr)"
    "\<And>g. g \<in> set gs \<Longrightarrow> group_ok g \<and> gh (gr_bbox g) \<le> al_entireHeight al \<and> 0 \<le> gx (gr_bbox g) \<and> gx (gr_bbox g) \<le> al_x al"
    "0 \<le> al_entireHeight al" "gh (gr_bbox gr) \<le> al_entireHeight al"
    "al_entireHeight al = 0 \<or> (\<exists>g \<in> set (gs @ [gr]). al_entireHeight al = gh (gr_bbox g))"
    using assms(3) unfolding align_inv_def by auto
  have len: "length (gr_columns gr) < 10000" using assms(4) by simp
  note gr = align_column_group [OF assms(1,2) inv(4) len assms(5)]
  have "al_x al \<le> 1000000000" using inv(3) n by linarith
  note off = align_column_offset [OF assms(1,2) inv(2) this inv(1) assms(5)]
  obtain c where c: "gr_columns gr' = gr_columns gr @ [c]"
    "columns_ok (al_x al') (concat (map gr_columns (gs @ [gr])) @ [c])" using off(1) by blast
  have "columns_ok (al_x al') (concat (map gr_columns (gs @ [gr'])))" using c by simp
  moreover have "al_x al' \<le> ?n * 70000 + 70000" using off(3) inv(3) by linarith
  then have "al_x al' \<le> of_nat (length (concat (map gr_columns (gs @ [gr'])))) * 70000" by (simp add: c(1) distrib_right)
  moreover have "al_entireHeight al' = 0 \<or> (\<exists>g \<in> set (gs @ [gr']). al_entireHeight al' = gh (gr_bbox g))"
    using inv(9,10) gr(2) by (auto simp: gr(4) max_def)
  moreover have "group_ok g \<and> gh (gr_bbox g) \<le> al_entireHeight al' \<and> 0 \<le> gx (gr_bbox g) \<and> gx (gr_bbox g) \<le> al_x al'"
    if "g \<in> set (gs @ [gr'])" for g
  proof (cases "g = gr'")
    case True
    then show ?thesis using gr(1,3,4) inv(5,6) off(2) by simp
  next
    case False
    then have "g \<in> set gs" using that by simp
    from inv(7) [OF this] off(2) show ?thesis by (auto simp: gr(4))
  qed
  moreover have "0 \<le> al_x al'" "0 \<le> al_entireHeight al'" using inv(2,8) off(2) by (auto simp: gr(4))
  ultimately show ?thesis by (simp add: align_inv_def c(1))
qed

end


definition columns_small :: "(placement_kind, placement_meta list list) js_map \<Rightarrow> bool" where
  "columns_small columns \<longleftrightarrow>
     (\<forall>cols \<in> snd ` set columns. length cols \<le> 1024 \<and> (\<forall>col \<in> set cols. length col \<le> 1024))"

lemma columns_small_get:
  "columns_small columns \<Longrightarrow> map_get columns kind = Some cols \<Longrightarrow> length cols \<le> 1024 \<and> (\<forall>col \<in> set cols. length col \<le> 1024)"
  by (force simp: columns_small_def dest: map_of_SomeD)

lemma align_kinds_keys:
  "map fst (snd (fold (align_kind rnd dims columns) kinds (al, gs))) =
     map fst gs @ filter (\<lambda>k. map_get columns k \<noteq> None) kinds"
  by (induction kinds arbitrary: al gs) (auto simp: align_kind_def split: option.splits prod.splits)

abbreviation total_columns :: "entries_group list \<Rightarrow> nat" where
  "total_columns gs \<equiv> length (concat (map gr_columns gs))"

context rounding
begin

lemma align_inv_columns:
  assumes "dims_ok dims" "\<And>col. col \<in> set cols \<Longrightarrow> length col \<le> 1024" "align_inv al (gs @ [gr])"
    and "total_columns (gs @ [gr]) + length cols \<le> 10000"
    and "fold (align_column rnd dims) cols (al, gr) = (al', gr')"
  shows "align_inv al' (gs @ [gr']) \<and> length (gr_columns gr') = length (gr_columns gr) + length cols"
  using assms(2-)
proof (induction cols arbitrary: al gr)
  case (Cons col cols)
  obtain al1 gr1 where 1: "align_column rnd dims col (al, gr) = (al1, gr1)" by fastforce
  have s: "align_inv al1 (gs @ [gr1]) \<and> length (gr_columns gr1) = length (gr_columns gr) + 1"
    by (rule align_inv_column [OF assms(1) _ Cons.prems(2) _ 1]) (use Cons.prems(1,3) in simp_all)
  show ?case using Cons.IH [of al1 gr1] Cons.prems s 1 by simp
qed simp

lemma align_inv_kinds:
  assumes "dims_ok dims" "columns_small columns" "align_inv al (map snd gs)"
    and "total_columns (map snd gs) + 1024 * length kinds \<le> 10000"
    and "fold (align_kind rnd dims columns) kinds (al, gs) = (al', gs')"
  shows "align_inv al' (map snd gs') \<and> total_columns (map snd gs') \<le> 10000"
  using assms(3-)
proof (induction kinds arbitrary: al gs)
  case (Cons kind kinds)
  show ?case
  proof (cases "map_get columns kind")
    case None
    then show ?thesis using Cons.IH [of al gs] Cons.prems by (simp add: align_kind_def)
  next
    case (Some cols)
    note small = columns_small_get [OF assms(2) Some]
    let ?gr = "\<lparr>gr_columns = [], gr_bbox = xywh_fromArgs (al_x al) (al_y al) 0 0\<rparr>"
    obtain al1 gr1 where 1: "fold (align_column rnd dims) cols (al, ?gr) = (al1, gr1)" by fastforce
    have "align_inv al (map snd gs @ [?gr])"
      using Cons.prems(1) by (auto simp: align_inv_def group_ok_def xywh_fromArgs_def xywh_new_def)
    from align_inv_columns [OF assms(1) _ this _ 1] small Cons.prems(2)
    have "align_inv al1 (map snd (gs @ [(kind, gr1)]))" "length (gr_columns gr1) \<le> 1024" by simp_all
    then show ?thesis using Cons.IH [of al1 "gs @ [(kind, gr1)]"] Cons.prems Some 1 by (simp add: align_kind_def)
  qed
qed simp

end

section \<open>Bands\<close>

text \<open>The entries of the groups of some kinds, in their order.\<close>

definition group_entries :: "(placement_kind, placement_entry list \<times> xywh) js_map \<Rightarrow> placement_kind \<Rightarrow> placement_entry list" where
  "group_entries groups kind = (case map_get groups kind of None \<Rightarrow> [] | Some p \<Rightarrow> fst p)"

lemma group_entries_concat:
  "map fst groups = filter P kinds \<Longrightarrow> distinct kinds \<Longrightarrow>
     concat (map (group_entries groups) kinds) = concat (map (\<lambda>g. fst (snd g)) groups)"
proof (induction kinds arbitrary: groups)
  case (Cons k kinds)
  show ?case
  proof (cases "P k")
    case True
    then obtain p groups' where g: "groups = (k, p) # groups'" "map fst groups' = filter P kinds"
      using Cons.prems(1) by (cases groups) auto
    have m: "map (group_entries groups) kinds = map (group_entries groups') kinds"
      using Cons.prems(2) by (auto simp: g(1) group_entries_def)
    have "group_entries groups k = fst p" "concat (map (\<lambda>g. fst (snd g)) groups) = fst p @ concat (map (\<lambda>g. fst (snd g)) groups')"
      by (simp_all add: g(1) group_entries_def)
    then show ?thesis using Cons.IH [OF g(2)] Cons.prems(2) by (simp only: list.map m concat.simps distinct.simps)
  next
    case False
    then have "k \<notin> set (map fst groups)" using Cons.prems by simp
    then have "k \<notin> fst ` set groups" by simp
    then have "group_entries groups k = []" by (simp add: group_entries_def map_of_eq_None_iff [THEN iffD2])
    then show ?thesis using Cons.IH [of groups] Cons.prems False by simp
  qed
qed simp


definition centered :: "rounding \<Rightarrow> rat \<Rightarrow> placement_entry list \<times> rat \<Rightarrow> placement_entry list" where
  "centered rnd H c =
     map (\<lambda>e. e\<lparr>pe_geometry := (pe_geometry e)\<lparr>gy := rnd (gy (pe_geometry e) + rnd (rnd (H - snd c) / 2))\<rparr>\<rparr>) (fst c)"

lemma center_group_entries: "center_group rnd H gr = (concat (map (centered rnd H) (gr_columns gr)), gr_bbox gr)"
  by (simp add: center_group_def centered_def [abs_def] split_def)

definition within_band :: "rat \<Rightarrow> placement_entry \<Rightarrow> bool" where
  "within_band H e \<longleftrightarrow>
     0 \<le> gx (pe_geometry e) \<and> gx (pe_geometry e) \<le> 1000000000
     \<and> - 2 \<le> gy (pe_geometry e) \<and> 0 \<le> gh (pe_geometry e) \<and> gy (pe_geometry e) + gh (pe_geometry e) \<le> H + 3"

context rounding
begin

lemma centered_entry:
  assumes "column_ok x w (snd c + 2) (fst c)" "- 1 \<le> snd c" "snd c \<le> H + 1" "0 \<le> H" "H \<le> 100000000" "e \<in> set (fst c)"
  shows "\<bar>rnd (gy (pe_geometry e) + rnd (rnd (H - snd c) / 2)) - (gy (pe_geometry e) + (H / 2 - snd c / 2))\<bar> \<le> 3 / 1000000"
proof -
  have e: "0 \<le> gy (pe_geometry e)" "gy (pe_geometry e) \<le> snd c + 2" using assms(1,6) by (auto simp: column_ok_def)
  define t where "t = rnd (H - snd c)"
  have a: "\<bar>t - (H - snd c)\<bar> \<le> 1 / 1000000" unfolding t_def by (rule rnd_near) (use assms(2-5) in linarith)
  have "\<bar>rnd (t / 2) - t / 2\<bar> \<le> 1 / 1000000" by (rule rnd_near) (use a assms(2-5) in linarith)
  moreover have "\<bar>t / 2 - (H / 2 - snd c / 2)\<bar> \<le> 1 / 1000000" using a by linarith
  ultimately have b: "\<bar>rnd (rnd (H - snd c) / 2) - (H / 2 - snd c / 2)\<bar> \<le> 2 / 1000000" unfolding t_def by linarith
  have "\<bar>gy (pe_geometry e) + rnd (rnd (H - snd c) / 2)\<bar> \<le> 4000000000" using b e assms(2-5) by linarith
  from rnd_near [OF this] b show ?thesis by linarith
qed

lemma centered_column:
  assumes "column_ok x w (snd c + 2) (fst c)" "0 \<le> x" "0 \<le> w" "x + w + 199 \<le> 1000000000"
    and "- 1 \<le> snd c" "snd c \<le> H + 1" "0 \<le> H" "H \<le> 100000000"
  shows "sorted_wrt (entries_apart 198) (centered rnd H c)" and "e \<in> set (centered rnd H c) \<Longrightarrow> within_band H e"
proof -
  note y = centered_entry [OF assms(1,5-8)]
  have "sorted_wrt (\<lambda>e f. gy (pe_geometry e) + gh (pe_geometry e) + 199 \<le> gy (pe_geometry f)) (fst c)"
    using assms(1) by (simp add: column_ok_def)
  then show "sorted_wrt (entries_apart 198) (centered rnd H c)"
    unfolding centered_def sorted_wrt_map
  proof (rule sorted_wrt_weaken)
    fix e f
    assume ef: "e \<in> set (fst c)" "f \<in> set (fst c)" "gy (pe_geometry e) + gh (pe_geometry e) + 199 \<le> gy (pe_geometry f)"
    let ?y = "\<lambda>e. rnd (gy (pe_geometry e) + rnd (rnd (H - snd c) / 2))"
    have "?y e + gh (pe_geometry e) + 198 \<le> ?y f" using y [OF ef(1)] y [OF ef(2)] ef(3) by linarith
    then show "entries_apart 198 (e\<lparr>pe_geometry := (pe_geometry e)\<lparr>gy := ?y e\<rparr>\<rparr>) (f\<lparr>pe_geometry := (pe_geometry f)\<lparr>gy := ?y f\<rparr>\<rparr>)"
      by (simp add: apart_by_def)
  qed
  show "within_band H e" if e: "e \<in> set (centered rnd H c)"
  proof -
    obtain e0 where e0: "e0 \<in> set (fst c)"
        "e = e0\<lparr>pe_geometry := (pe_geometry e0)\<lparr>gy := rnd (gy (pe_geometry e0) + rnd (rnd (H - snd c) / 2))\<rparr>\<rparr>"
      using e unfolding centered_def set_map by (elim imageE) blast
    have g: "gx (pe_geometry e0) = x" "0 \<le> gh (pe_geometry e0)" "0 \<le> gy (pe_geometry e0)"
        "gy (pe_geometry e0) + gh (pe_geometry e0) \<le> snd c + 2"
      using assms(1) e0(1) by (auto simp: column_ok_def)
    have e': "gy (pe_geometry e) = rnd (gy (pe_geometry e0) + rnd (rnd (H - snd c) / 2))" "gh (pe_geometry e) = gh (pe_geometry e0)"
      by (simp_all add: e0(2))
    have "- 2 \<le> gy (pe_geometry e)" "gy (pe_geometry e) + gh (pe_geometry e) \<le> H + 3"
      unfolding e' using y [OF e0(1)] assms(5-8) g by linarith+
    then show ?thesis using g assms(2-4) by (simp add: within_band_def e0(2))
  qed
qed

end


definition band_entries :: "(placement_kind, placement_entry list \<times> xywh) js_map \<Rightarrow> placement_kind list \<Rightarrow> placement_entry list" where
  "band_entries groups kinds = concat (map (group_entries groups) kinds)"

definition box_ok :: "rat \<Rightarrow> xywh \<Rightarrow> bool" where
  "box_ok H b \<longleftrightarrow> 0 \<le> gh b \<and> gh b \<le> H \<and> 0 \<le> gx b \<and> gx b \<le> 1000000000 \<and> 0 \<le> gw b \<and> gw b \<le> 1000000000"

definition band_ok :: "rat \<Rightarrow> (placement_kind, placement_entry list \<times> xywh) js_map \<Rightarrow> placement_kind list \<Rightarrow> bool" where
  "band_ok H groups kinds \<longleftrightarrow>
     sorted_wrt (entries_apart 198) (band_entries groups kinds)
     \<and> (\<forall>e \<in> set (band_entries groups kinds). within_band H e)
     \<and> 0 \<le> H \<and> H \<le> 100000000
     \<and> (\<forall>k p. map_get groups k = Some p \<longrightarrow> k \<in> set kinds \<and> box_ok H (snd p))
     \<and> (H = 0 \<or> (\<exists>k p. map_get groups k = Some p \<and> gh (snd p) = H))
     \<and> (1 / 4 \<le> H \<or> H = 0 \<and> flat_entries (band_entries groups kinds))"

lemma band_ok_box: "band_ok H groups kinds \<Longrightarrow> map_get groups k = Some p \<Longrightarrow> k \<in> set kinds \<and> box_ok H (snd p)"
  unfolding band_ok_def by blast

lemma band_ok_height: "band_ok H groups kinds \<Longrightarrow> H \<noteq> 0 \<Longrightarrow> \<exists>k p. map_get groups k = Some p \<and> gh (snd p) = H"
  unfolding band_ok_def by blast

context rounding
begin

lemma centered_columns:
  assumes "columns_ok x cols" "x \<le> 1000000000" "0 \<le> H" "H \<le> 100000000"
    and "\<And>c. c \<in> set cols \<Longrightarrow> - 1 \<le> snd c \<and> snd c \<le> H + 1"
  shows "sorted_wrt (entries_apart 198) (concat (map (centered rnd H) cols))"
    and "e \<in> set (concat (map (centered rnd H) cols)) \<Longrightarrow> within_band H e"
proof -
  have c: "sorted_wrt (entries_apart 198) (centered rnd H c) \<and> (\<forall>e \<in> set (centered rnd H c). within_band H e)"
    if "c \<in> set cols" for c
  proof -
    obtain x0 w where "column_ok x0 w (snd c + 2) (fst c)" "0 \<le> x0" "0 \<le> w" "x0 + w + 199 \<le> x"
      using assms(1) \<open>c \<in> set cols\<close> by (auto simp: columns_ok_def)
    then show ?thesis using centered_column [of x0 w c H] assms(2-4) assms(5) [OF \<open>c \<in> set cols\<close>] by auto
  qed
  then show "within_band H e" if "e \<in> set (concat (map (centered rnd H) cols))" using that by auto
  have "sorted_wrt (\<lambda>c d. \<forall>e \<in> set (fst c). \<forall>f \<in> set (fst d). gx (pe_geometry e) + gw (pe_geometry e) + 199 \<le> gx (pe_geometry f)) cols"
    using assms(1) by (simp add: columns_ok_def)
  then have "sorted_wrt (\<lambda>c d. \<forall>e \<in> set (centered rnd H c). \<forall>g \<in> set (centered rnd H d). entries_apart 198 e g) cols"
    by (rule sorted_wrt_mono_rel [rotated]) (fastforce simp: centered_def apart_by_def)
  with c show "sorted_wrt (entries_apart 198) (concat (map (centered rnd H) cols))" by (intro sorted_wrt_concat) auto
qed

lemma group_ok_column: "group_ok g \<Longrightarrow> c \<in> set (gr_columns g) \<Longrightarrow> - 1 \<le> snd c \<and> snd c \<le> gh (gr_bbox g) + 1"
  by (simp add: group_ok_def)

lemma group_ok_flat: "group_ok g \<Longrightarrow> gh (gr_bbox g) \<le> 0 \<Longrightarrow> c \<in> set (gr_columns g) \<Longrightarrow> flat_entries (fst c) \<and> snd c = 0"
  by (auto simp: group_ok_def)

lemma total_columns_ge: "g \<in> set gs \<Longrightarrow> length (gr_columns g) \<le> total_columns gs"
  by (induction gs) auto

lemma alignColumns_band:
  assumes "dims_ok dims" "columns_small columns" "distinct kinds" "length kinds \<le> 3"
  shows "\<exists>H. band_ok H (alignColumns rnd dims columns kinds) kinds"
proof -
  obtain al gs where run: "fold (align_kind rnd dims columns) kinds (\<lparr>al_x = 0, al_y = 0, al_entireHeight = 0\<rparr>, []) = (al, gs)"
    by fastforce
  have "align_inv al (map snd gs) \<and> total_columns (map snd gs) \<le> 10000"
    by (rule align_inv_kinds [OF assms(1,2) _ _ run])
      (use assms(4) in \<open>simp_all add: align_inv_def columns_ok_def\<close>)
  then have inv: "align_inv al (map snd gs)" "total_columns (map snd gs) \<le> 10000" by auto
  define H where "H = al_entireHeight al"
  define groups where "groups = alignColumns rnd dims columns kinds"
  have groups: "groups = map (\<lambda>(k, gr). (k, concat (map (centered rnd H) (gr_columns gr)), gr_bbox gr)) gs"
    by (simp add: groups_def alignColumns_def run H_def center_group_entries)
  have "map fst gs = filter (\<lambda>k. map_get columns k \<noteq> None) kinds"
    using align_kinds_keys [of rnd dims columns kinds "\<lparr>al_x = 0, al_y = 0, al_entireHeight = 0\<rparr>" "[]"] unfolding run by simp
  then have keys: "map fst groups = filter (\<lambda>k. map_get columns k \<noteq> None) kinds"
    by (simp add: groups comp_def split_def)
  have all: "band_entries groups kinds = concat (map (centered rnd H) (concat (map gr_columns (map snd gs))))"
    unfolding band_entries_def group_entries_concat [OF keys assms(3)]
    by (simp add: groups map_concat comp_def split_def concat_map_singleton) (induction gs; simp)
  have g: "group_ok g" "gh (gr_bbox g) \<le> H" "0 \<le> gx (gr_bbox g)" "gx (gr_bbox g) \<le> al_x al" if "g \<in> set (map snd gs)" for g
    using inv(1) that unfolding align_inv_def H_def by blast+
  have H: "0 \<le> H" "H = 0 \<or> (\<exists>g \<in> set (map snd gs). H = gh (gr_bbox g))"
    using inv(1) unfolding align_inv_def H_def by blast+
  have small: "H \<le> 100000000" "1 / 4 \<le> H \<or> H = 0" using H g by (auto simp: group_ok_def)
  have "of_nat (total_columns (map snd gs)) \<le> (of_nat 10000 :: rat)" using inv(2) by (simp only: of_nat_le_iff)
  then have x: "al_x al \<le> 1000000000" using inv(1) unfolding align_inv_def by simp
  have cols: "- 1 \<le> snd c \<and> snd c \<le> H + 1" if "c \<in> set (concat (map gr_columns (map snd gs)))" for c
  proof -
    from that have "\<exists>kg \<in> set gs. c \<in> set (gr_columns (snd kg))" by auto
    then obtain kg where kg: "kg \<in> set gs" "c \<in> set (gr_columns (snd kg))" ..
    then have gr: "snd kg \<in> set (map snd gs)" by simp
    show ?thesis using group_ok_column [OF g(1) [OF gr] kg(2)] g(2) [OF gr] by linarith
  qed
  have ok: "columns_ok (al_x al) (concat (map gr_columns (map snd gs)))" using inv(1) by (simp add: align_inv_def)
  note c = centered_columns [OF ok x H(1) small(1) cols]
  have box: "k \<in> set kinds \<and> box_ok H (snd p)" if kp: "map_get groups k = Some p" for k p
  proof -
    have "(k, p) \<in> set groups" using kp by (rule map_of_SomeD)
    then have "\<exists>kg \<in> set gs. snd p = gr_bbox (snd kg)" by (force simp: groups)
    then have "\<exists>gr \<in> set (map snd gs). snd p = gr_bbox gr" by simp
    then obtain gr where gr: "gr \<in> set (map snd gs)" "snd p = gr_bbox gr" ..
    have "of_nat (length (gr_columns gr)) \<le> (of_nat 10000 :: rat)"
      using inv(2) total_columns_ge [OF gr(1)] unfolding of_nat_le_iff by linarith
    then have "gw (gr_bbox gr) \<le> 1000000000" using g(1) [OF gr(1)] by (simp add: group_ok_def)
    moreover have "k \<in> set (map fst groups)" using \<open>(k, p) \<in> set groups\<close> by force
    ultimately show ?thesis using g [OF gr(1)] x by (simp add: box_ok_def gr(2) keys group_ok_def)
  qed
  have top: "\<exists>k p. map_get groups k = Some p \<and> gh (snd p) = H" if "H \<noteq> 0"
  proof -
    have "\<exists>kg \<in> set gs. H = gh (gr_bbox (snd kg))" using H(2) that by auto
    then obtain k gr where "(k, gr) \<in> set gs" "H = gh (gr_bbox gr)" by force
    moreover have "distinct (map fst groups)" using assms(3) by (simp add: keys)
    ultimately have "map_get groups k = Some (concat (map (centered rnd H) (gr_columns gr)), gr_bbox gr)"
      by (intro map_of_is_SomeI) (auto simp: groups intro!: image_eqI [of _ _ "(k, gr)"])
    then show ?thesis using \<open>H = gh (gr_bbox gr)\<close> by (metis snd_conv)
  qed
  have "flat_entries (band_entries groups kinds)" if "H = 0"
  proof -
    have "flat_entries (fst c) \<and> snd c = 0" if "c \<in> set (concat (map gr_columns (map snd gs)))" for c
    proof -
      from that have "\<exists>kg \<in> set gs. c \<in> set (gr_columns (snd kg))" by auto
    then obtain kg where kg: "kg \<in> set gs" "c \<in> set (gr_columns (snd kg))" ..
      then have gr: "snd kg \<in> set (map snd gs)" by simp
      show ?thesis by (rule group_ok_flat [OF g(1) [OF gr] _ kg(2)]) (use g(2) [OF gr] \<open>H = 0\<close> in simp)
    qed
    then show ?thesis unfolding all by (auto simp: flat_entries_def centered_def \<open>H = 0\<close>)
  qed
  then have "band_ok H groups kinds" using c H(1) small box top by (auto simp: band_ok_def all)
  then show ?thesis unfolding groups_def ..
qed

end


section \<open>The bands above each other\<close>

text \<open>Two rectangles overlap when they share an area.\<close>

definition overlap :: "xywh \<Rightarrow> xywh \<Rightarrow> bool" where
  "overlap a b \<longleftrightarrow>
     max (gx a) (gx b) < min (gx a + gw a) (gx b + gw b) \<and> max (gy a) (gy b) < min (gy a + gh a) (gy b + gh b)"

abbreviation clear :: "placement_entry \<Rightarrow> placement_entry \<Rightarrow> bool" where
  "clear e f \<equiv> \<not> overlap (pe_geometry e) (pe_geometry f)"

lemma overlap_sym: "overlap a b = overlap b a"
  by (auto simp: overlap_def)

lemma apart_clear: "apart_by m a b \<Longrightarrow> 0 \<le> m \<Longrightarrow> \<not> overlap a b"
  by (auto simp: apart_by_def overlap_def)

lemma above_clear: "gy a + gh a \<le> l \<Longrightarrow> l \<le> gy b \<Longrightarrow> \<not> overlap a b"
  by (auto simp: overlap_def)

lemma flat_clear: "gh a = 0 \<Longrightarrow> \<not> overlap a b"
  by (auto simp: overlap_def)

text \<open>A band that is not moved, or moved.\<close>

definition moved :: "rounding \<Rightarrow> (rat \<times> rat) option \<Rightarrow> placement_entry list \<Rightarrow> placement_entry list" where
  "moved rnd shift es = (case shift of None \<Rightarrow> es | Some s \<Rightarrow> shift_entries rnd s es)"

lemma moved_append: "moved rnd s (es @ fs) = moved rnd s es @ moved rnd s fs"
  by (simp add: moved_def shift_entries_def split: option.splits)

definition shift_amount :: "(rat \<times> rat) option \<Rightarrow> rat" where
  "shift_amount s = (case s of None \<Rightarrow> 0 | Some d \<Rightarrow> snd d)"

definition shift_ok :: "(rat \<times> rat) option \<Rightarrow> bool" where
  "shift_ok s \<longleftrightarrow> (case s of None \<Rightarrow> True | Some d \<Rightarrow> \<bar>fst d\<bar> \<le> 2000000000 \<and> 0 \<le> snd d \<and> snd d \<le> 1000000000)"

context rounding
begin

lemma shift_entry_bounds:
  assumes "within_band H e" "H \<le> 100000000" "\<bar>dx\<bar> \<le> 2000000000" "0 \<le> dy" "dy \<le> 1000000000"
  shows "\<bar>gx (pe_geometry (shift_entry rnd dx dy e)) - (gx (pe_geometry e) + dx)\<bar> \<le> 1 / 1000000"
    and "\<bar>gy (pe_geometry (shift_entry rnd dx dy e)) - (gy (pe_geometry e) + dy)\<bar> \<le> 1 / 1000000"
    and "gw (pe_geometry (shift_entry rnd dx dy e)) = gw (pe_geometry e)"
    and "gh (pe_geometry (shift_entry rnd dx dy e)) = gh (pe_geometry e)"
proof -
  have e: "0 \<le> gx (pe_geometry e)" "gx (pe_geometry e) \<le> 1000000000" "- 2 \<le> gy (pe_geometry e)"
    "gy (pe_geometry e) \<le> H + 3"
    using assms(1) by (auto simp: within_band_def)
  show "\<bar>gx (pe_geometry (shift_entry rnd dx dy e)) - (gx (pe_geometry e) + dx)\<bar> \<le> 1 / 1000000"
    unfolding shift_entry_def placement_entry.simps xywh.simps
    using rnd_near [of "gx (pe_geometry e) + dx"] e assms(3) by simp
  show "\<bar>gy (pe_geometry (shift_entry rnd dx dy e)) - (gy (pe_geometry e) + dy)\<bar> \<le> 1 / 1000000"
    unfolding shift_entry_def placement_entry.simps xywh.simps
    using rnd_near [of "gy (pe_geometry e) + dy"] e assms(2,4,5) by simp
qed (simp_all add: shift_entry_def)

lemma shift_entries_clear:
  assumes "sorted_wrt (entries_apart 198) es" "\<And>e. e \<in> set es \<Longrightarrow> within_band H e" "H \<le> 100000000" "shift_ok s"
  shows "sorted_wrt clear (moved rnd s es)"
proof (cases s)
  case None
  then show ?thesis using sorted_wrt_weaken [OF assms(1), of clear] apart_clear [of 198] by (simp add: moved_def)
next
  case (Some d)
  then have d: "\<bar>fst d\<bar> \<le> 2000000000" "0 \<le> snd d" "snd d \<le> 1000000000" using assms(4) by (simp_all add: shift_ok_def)
  have "clear (shift_entry rnd (fst d) (snd d) e) (shift_entry rnd (fst d) (snd d) f)"
    if "e \<in> set es" "f \<in> set es" "entries_apart 198 e f" for e f
  proof (rule apart_clear)
    note ge = shift_entry_bounds [OF assms(2) [OF that(1)] assms(3) d]
    note gf = shift_entry_bounds [OF assms(2) [OF that(2)] assms(3) d]
    show "entries_apart 0 (shift_entry rnd (fst d) (snd d) e) (shift_entry rnd (fst d) (snd d) f)"
      using that(3) unfolding apart_by_def ge(3,4) gf(3,4)
      by (elim disjE) (use ge(1,2) gf(1,2) in linarith)+
  qed simp
  then show ?thesis using sorted_wrt_weaken [OF assms(1)] by (simp add: moved_def Some shift_entries_def sorted_wrt_map)
qed

lemma moved_within:
  assumes "\<And>e. e \<in> set es \<Longrightarrow> within_band H e" "H \<le> 100000000" "shift_ok s" "e \<in> set (moved rnd s es)"
  shows "shift_amount s - 3 \<le> gy (pe_geometry e)" and "gy (pe_geometry e) + gh (pe_geometry e) \<le> shift_amount s + H + 4"
proof -
  have "shift_amount s - 3 \<le> gy (pe_geometry e) \<and> gy (pe_geometry e) + gh (pe_geometry e) \<le> shift_amount s + H + 4"
  proof (cases s)
    case None
    then show ?thesis using assms(1) [of e] assms(4) by (simp add: moved_def shift_amount_def within_band_def)
  next
    case (Some d)
    then obtain e0 where e0: "e0 \<in> set es" "e = shift_entry rnd (fst d) (snd d) e0"
      using assms(4) by (auto simp: moved_def shift_entries_def)
    have d: "\<bar>fst d\<bar> \<le> 2000000000" "0 \<le> snd d" "snd d \<le> 1000000000" using assms(3) Some by (simp_all add: shift_ok_def)
    note w = assms(1) [OF e0(1)]
    show ?thesis using shift_entry_bounds(2,4) [OF w assms(2) d] w
      unfolding within_band_def shift_amount_def Some e0(2) option.simps by (intro conjI) linarith+
  qed
  then show "shift_amount s - 3 \<le> gy (pe_geometry e)" "gy (pe_geometry e) + gh (pe_geometry e) \<le> shift_amount s + H + 4"
    by auto
qed

lemma moved_flat: "flat_entries es \<Longrightarrow> e \<in> set (moved rnd s es) \<Longrightarrow> gh (pe_geometry e) = 0"
  by (auto simp: moved_def flat_entries_def shift_entries_def shift_entry_def split: option.splits)

end


text \<open>Three bands, each below the last, do not overlap.\<close>

context rounding
begin

lemma bands_clear:
  assumes "band_ok Ha a ka" "band_ok Hm m km" "band_ok Hb b kb" "shift_ok sa" "shift_ok sm" "shift_ok sb"
    and "shift_amount sa = 0" "band_entries a ka \<noteq> [] \<Longrightarrow> Ha + 399 \<le> shift_amount sm"
    and "shift_amount sm \<le> shift_amount sb" "Hm \<noteq> 0 \<Longrightarrow> shift_amount sm + Hm + 399 \<le> shift_amount sb"
  shows "sorted_wrt clear (moved rnd sa (band_entries a ka) @ moved rnd sm (band_entries m km) @ moved rnd sb (band_entries b kb))"
proof -
  have a: "sorted_wrt (entries_apart 198) (band_entries a ka)" "\<And>e. e \<in> set (band_entries a ka) \<Longrightarrow> within_band Ha e" "Ha \<le> 100000000"
    and m: "sorted_wrt (entries_apart 198) (band_entries m km)" "\<And>e. e \<in> set (band_entries m km) \<Longrightarrow> within_band Hm e" "Hm \<le> 100000000"
    and b: "sorted_wrt (entries_apart 198) (band_entries b kb)" "\<And>e. e \<in> set (band_entries b kb) \<Longrightarrow> within_band Hb e" "Hb \<le> 100000000"
    and flat_entries: "Hm = 0 \<Longrightarrow> flat_entries (band_entries m km)"
    using assms(1-3) unfolding band_ok_def by auto
  have am: "clear e f" if "e \<in> set (moved rnd sa (band_entries a ka))"
      "shift_amount sm - 3 \<le> gy (pe_geometry f)" for e f
  proof (rule above_clear [of _ "shift_amount sm - 3"])
    have "band_entries a ka \<noteq> []" using that(1) by (auto simp: moved_def shift_entries_def split: option.splits)
    then show "gy (pe_geometry e) + gh (pe_geometry e) \<le> shift_amount sm - 3"
      using assms(8) moved_within(2) [OF a(2,3) assms(4) that(1)] assms(7) by linarith
  qed (rule that(2))
  have mb: "clear e f" if e: "e \<in> set (moved rnd sm (band_entries m km))" and f: "f \<in> set (moved rnd sb (band_entries b kb))" for e f
  proof (cases "Hm = 0")
    case True
    then show ?thesis using moved_flat [OF flat_entries e] by (simp add: flat_clear)
  next
    case False
    from assms(10) [OF this] show ?thesis
      using moved_within(2) [OF m(2,3) assms(5) e] moved_within(1) [OF b(2,3) assms(6) f]
      by (intro above_clear [of _ "shift_amount sb - 3"]) linarith+
  qed
  have "shift_amount sm - 3 \<le> gy (pe_geometry f)" if "f \<in> set (moved rnd sm (band_entries m km)) \<union> set (moved rnd sb (band_entries b kb))" for f
    using that moved_within(1) [OF m(2,3) assms(5)] moved_within(1) [OF b(2,3) assms(6)] assms(9) by (force intro: order_trans)
  with am mb show ?thesis
    using shift_entries_clear [OF a assms(4)] shift_entries_clear [OF m assms(5)] shift_entries_clear [OF b assms(6)]
    by (simp add: sorted_wrt_append)
qed

lemma center_shift_ok:
  assumes "box_ok H i" "box_ok H' b"
  shows "\<bar>fst (shiftToInsideCenter rnd i b)\<bar> \<le> 2000000000" and "snd (shiftToInsideCenter rnd i b) = 0"
proof -
  have g: "\<bar>gx i - gx b\<bar> \<le> 1000000000" "\<bar>gw i - gw b\<bar> \<le> 1000000000" using assms unfolding box_ok_def by linarith+
  have 1: "\<bar>rnd (gx i - gx b) - (gx i - gx b)\<bar> \<le> 1 / 1000000" by (rule rnd_near) (use g in linarith)
  define t where "t = rnd (gw i - gw b)"
  have 2: "\<bar>t - (gw i - gw b)\<bar> \<le> 1 / 1000000" unfolding t_def by (rule rnd_near) (use g in linarith)
  then have t: "\<bar>t / 2\<bar> \<le> 600000000" using g by linarith
  have 3: "\<bar>rnd (t / 2) - t / 2\<bar> \<le> 1 / 1000000" by (rule rnd_near) (use t in linarith)
  have s: "\<bar>rnd (gx i - gx b) + rnd (t / 2)\<bar> \<le> 1700000000" using 1 3 t g by linarith
  have "\<bar>rnd (rnd (gx i - gx b) + rnd (t / 2)) - (rnd (gx i - gx b) + rnd (t / 2))\<bar> \<le> 1 / 1000000"
    by (rule rnd_near) (use s in linarith)
  moreover have "fst (shiftToInsideCenter rnd i b) = rnd (rnd (gx i - gx b) + rnd (t / 2))"
    by (simp add: shiftToInsideCenter_def t_def)
  ultimately show "\<bar>fst (shiftToInsideCenter rnd i b)\<bar> \<le> 2000000000" using s by linarith
qed (simp add: shiftToInsideCenter_def)

end


lemma middle_height_band:
  assumes "band_ok H middle middle_kinds"
  shows "middle_height middle = H"
proof -
  have le: "gh (snd p) \<le> H" if "map_get middle k = Some p" for k p
    using assms that unfolding band_ok_def box_ok_def by blast
  have "H \<le> middle_height middle"
  proof (cases "H = 0")
    case False
    then obtain k p where "map_get middle k = Some p" "gh (snd p) = H" "k \<in> set middle_kinds"
      using assms unfolding band_ok_def by blast
    then show ?thesis by (auto simp: middle_height_def split: option.splits)
  qed (auto simp: middle_height_def split: option.splits)
  moreover have "0 \<le> H" using assms by (simp add: band_ok_def)
  then have "middle_height middle \<le> H" by (auto simp: middle_height_def dest!: le split: option.splits)
  ultimately show ?thesis by simp
qed

definition group_box :: "groups \<Rightarrow> placement_kind \<Rightarrow> xywh" where
  "group_box groups kind = (case map_get groups kind of None \<Rightarrow> xywh_empty | Some p \<Rightarrow> snd p)"

lemma place_group_moved: "place_group rnd shift groups kind = moved rnd (shift (group_box groups kind)) (group_entries groups kind)"
  by (simp add: place_group_def moved_def group_box_def group_entries_def shift_entries_def split: option.splits)

lemma place_bands_moved:
  "place_bands rnd upper middle bottom =
     moved rnd (if map_get middle InsideWithConnections = None then None else Some (to_center rnd middle (group_box upper ToWorld)))
       (band_entries upper top_kinds)
     @ moved rnd (if map_get upper ToWorld = None then None else Some (0, top_shift rnd upper)) (band_entries middle middle_kinds)
     @ moved rnd (Some (buildShiftForBottom rnd upper middle (group_box bottom AnotherNamespace))) (band_entries bottom bottom_kinds)"
  by (simp add: place_bands_def place_group_moved band_entries_def moved_append)

context rounding
begin

lemma to_center_ok:
  assumes "band_ok H middle kinds" "band_ok H' groups kinds'" 
  shows "\<bar>fst (to_center rnd middle (group_box groups kind))\<bar> \<le> 2000000000"
    and "snd (to_center rnd middle (group_box groups kind)) = 0"
proof -
  have "0 \<le> H'" using assms(2) by (simp add: band_ok_def)
  then have b: "box_ok H' (group_box groups kind)"
    using band_ok_box [OF assms(2)] unfolding group_box_def
    by (cases "map_get groups kind") (simp add: box_ok_def xywh_empty_def xywh_new_def, simp)
  have "\<bar>fst (to_center rnd middle (group_box groups kind))\<bar> \<le> 2000000000 \<and> snd (to_center rnd middle (group_box groups kind)) = 0"
  proof (cases "map_get middle InsideWithConnections")
    case (Some p)
    then have "box_ok H (snd p)" using assms(1) unfolding band_ok_def by blast
    from center_shift_ok [OF this b] show ?thesis by (simp add: to_center_def Some)
  qed (simp add: to_center_def)
  then show "\<bar>fst (to_center rnd middle (group_box groups kind))\<bar> \<le> 2000000000"
    "snd (to_center rnd middle (group_box groups kind)) = 0" by auto
qed

lemma top_shift_ok:
  assumes "band_ok H upper top_kinds"
  shows "0 \<le> top_shift rnd upper" "top_shift rnd upper \<le> 200000000"
    and "band_entries upper top_kinds \<noteq> [] \<Longrightarrow> map_get upper ToWorld \<noteq> None \<and> H + 399 \<le> top_shift rnd upper"
proof -
  have H: "0 \<le> H" "H \<le> 100000000" using assms by (auto simp: band_ok_def)
  have shift: "\<bar>top_shift rnd upper - (H + 400)\<bar> \<le> 1 / 1000000" if "map_get upper ToWorld = Some p" for p
  proof -
    have "box_ok H (snd p)" using band_ok_box [OF assms that] ..
    moreover have "gh (snd p) = H" if "H \<noteq> 0"
      using band_ok_height [OF assms that] band_ok_box [OF assms] \<open>map_get upper ToWorld = Some p\<close> by fastforce
    ultimately have "gh (snd p) = H" by (cases "H = 0") (auto simp: box_ok_def)
    then show ?thesis using rnd_near [of "H + 400"] H by (simp add: top_shift_def that)
  qed
  have "0 \<le> top_shift rnd upper \<and> top_shift rnd upper \<le> 200000000"
  proof (cases "map_get upper ToWorld")
    case (Some p)
    from shift [OF this] H show ?thesis by (intro conjI) linarith+
  qed (simp add: top_shift_def)
  then show "0 \<le> top_shift rnd upper" "top_shift rnd upper \<le> 200000000" by auto
  show "map_get upper ToWorld \<noteq> None \<and> H + 399 \<le> top_shift rnd upper" if "band_entries upper top_kinds \<noteq> []"
  proof -
    have "map_get upper ToWorld \<noteq> None"
      using that by (auto simp: band_entries_def group_entries_def split: option.splits)
    then obtain p where p: "map_get upper ToWorld = Some p" by blast
    from shift [OF p] have "H + 399 \<le> top_shift rnd upper" by linarith
    then show ?thesis by (simp add: p)
  qed
qed

lemma bottom_shift_ok:
  assumes "band_ok Ha upper top_kinds" "band_ok Hm middle middle_kinds"
  shows "top_shift rnd upper \<le> snd (buildShiftForBottom rnd upper middle b)"
    and "snd (buildShiftForBottom rnd upper middle b) \<le> 1000000000"
    and "Hm \<noteq> 0 \<Longrightarrow> top_shift rnd upper + Hm + 399 \<le> snd (buildShiftForBottom rnd upper middle b)"
proof -
  let ?s = "snd (buildShiftForBottom rnd upper middle b)"
  have m: "middle_height middle = Hm" by (rule middle_height_band [OF assms(2)])
  have Hm: "0 \<le> Hm" "Hm \<le> 100000000" "Hm = 0 \<or> 1 / 4 \<le> Hm" using assms(2) by (auto simp: band_ok_def)
  note t = top_shift_ok(1,2) [OF assms(1)]
  show far: "top_shift rnd upper + Hm + 399 \<le> ?s" if "Hm \<noteq> 0"
  proof -
    have "\<bar>rnd (top_shift rnd upper + rnd (Hm + 400)) - (top_shift rnd upper + (Hm + 400))\<bar> \<le> 2 / 1000000"
      by (rule rnd_sum_bounds) (use t Hm in linarith)+
    moreover have "1 / 2 ^ 52 < Hm" using Hm(3) that by auto
    then have "?s = rnd (top_shift rnd upper + rnd (Hm + 400))" by (simp add: buildShiftForBottom_def m)
    ultimately show ?thesis by linarith
  qed
  show "top_shift rnd upper \<le> ?s"
    using far Hm(1) by (cases "Hm = 0") (simp add: buildShiftForBottom_def m, linarith)
  have "?s \<le> 1000000000"
  proof (cases "Hm = 0")
    case False
    have "\<bar>rnd (top_shift rnd upper + rnd (Hm + 400)) - (top_shift rnd upper + (Hm + 400))\<bar> \<le> 2 / 1000000"
      by (rule rnd_sum_bounds) (use t Hm in linarith)+
    moreover have "1 / 2 ^ 52 < Hm" using Hm(3) False by auto
    then have "?s = rnd (top_shift rnd upper + rnd (Hm + 400))" by (simp add: buildShiftForBottom_def m)
    ultimately show ?thesis using t Hm by linarith
  next
    case True
    then show ?thesis using t by (simp add: buildShiftForBottom_def m)
  qed
  then show "?s \<le> 1000000000" .
qed

end


context rounding
begin

lemma layout_clear:
  assumes "dims_ok dims" "columns_small columns"
  shows "sorted_wrt clear (assign_coordinates rnd dims columns)"
proof -
  obtain Ha where a: "band_ok Ha (alignColumns rnd dims columns top_kinds) top_kinds"
    using alignColumns_band [OF assms, of top_kinds] by auto
  obtain Hm where m: "band_ok Hm (alignColumns rnd dims columns middle_kinds) middle_kinds"
    using alignColumns_band [OF assms, of middle_kinds] by auto
  obtain Hb where b: "band_ok Hb (alignColumns rnd dims columns bottom_kinds) bottom_kinds"
    using alignColumns_band [OF assms, of bottom_kinds] by auto
  note t = top_shift_ok [OF a]
  note d = bottom_shift_ok [OF a m]
  note ca = to_center_ok [OF m a]
  note cb = to_center_ok [OF m b]
  show ?thesis
    unfolding assign_coordinates_def place_bands_moved
    by (rule bands_clear [OF a m b])
      (use t d ca cb(1) in \<open>auto simp: shift_ok_def shift_amount_def buildShiftForBottom_def intro: order_trans\<close>)
qed

end


section \<open>Cutting a group into columns\<close>

lemma ceil_sqrt_pos: "0 < n \<Longrightarrow> 0 < ceil_sqrt n"
  by (simp add: ceil_sqrt_def upt_conv_Cons)

text \<open>Columns that are not empty, not too long, and whose cards weigh the same.\<close>

definition level_at :: "nat \<Rightarrow> int \<Rightarrow> placement_meta list \<Rightarrow> bool" where
  "level_at n w col \<longleftrightarrow> col \<noteq> [] \<and> length col \<le> n \<and> list_all (\<lambda>m. pm_weight m = w) col"

definition level :: "nat \<Rightarrow> placement_meta list \<Rightarrow> bool" where
  "level n col \<longleftrightarrow> level_at n (pm_weight (hd col)) col"

lemma level_at_level: "level_at n w col \<Longrightarrow> level n col"
  by (cases col) (auto simp: level_at_def level_def)

definition push_inv :: "nat \<Rightarrow> placement_meta list \<Rightarrow> placement_meta list list \<times> placement_meta list \<times> int option \<Rightarrow> bool" where
  "push_inv n ms st \<longleftrightarrow>
     (let (columns, cur, w) = st
      in concat columns @ cur = ms \<and> list_all (level n) columns \<and>
         (case w of None \<Rightarrow> ms = [] \<and> columns = [] | Some v \<Rightarrow> level_at n v cur))"

lemma push_inv_step:
  assumes "0 < n" "push_inv n ms (columns, cur, w)"
  shows "push_inv n (ms @ [m]) (column_push n m (columns, cur, w))"
proof (cases w)
  case None
  then have "ms = []" "columns = []" "cur = []" using assms(2) by (auto simp: push_inv_def)
  then show ?thesis using assms(1) by (simp add: push_inv_def column_push_def None level_at_def)
next
  case (Some v)
  then have inv: "concat columns @ cur = ms" "list_all (level n) columns" "level_at n v cur"
    using assms(2) by (auto simp: push_inv_def)
  show ?thesis
  proof (cases "n \<le> length cur \<or> v \<noteq> pm_weight m")
    case True
    then have "column_push n m (columns, cur, w) = (columns @ [cur], [m], Some (pm_weight m))"
      by (auto simp: column_push_def Some)
    then show ?thesis using inv level_at_level [OF inv(3)] assms(1) by (simp add: push_inv_def level_at_def)
  next
    case False
    then have "column_push n m (columns, cur, w) = (columns, cur @ [m], Some (pm_weight m))"
      by (simp add: column_push_def Some)
    moreover have "level_at n (pm_weight m) (cur @ [m])" using inv(3) False by (simp add: level_at_def)
    ultimately show ?thesis using inv by (simp add: push_inv_def flip: append_assoc)
  qed
qed

lemma push_inv_fold: "0 < n \<Longrightarrow> push_inv n ms st \<Longrightarrow> push_inv n (ms @ ps) (fold (column_push n) ps st)"
proof (induction ps arbitrary: ms st)
  case (Cons p ps)
  obtain columns cur w where st: "st = (columns, cur, w)" by (rule prod_cases3)
  from Cons.IH [OF Cons.prems(1) push_inv_step [OF Cons.prems(1), of ms columns cur w p]] Cons.prems(2)
  show ?case by (simp add: st)
qed simp

lemma columns_built:
  shows "concat (buildPlacementColumns ms) = js_sort (\<lambda>a b. pm_weight b - pm_weight a) ms"
    and "list_all (level (ceil_sqrt (length ms))) (buildPlacementColumns ms)"
proof -
  let ?n = "ceil_sqrt (length ms)" and ?s = "js_sort (\<lambda>a b. pm_weight b - pm_weight a) ms"
  have "concat (buildPlacementColumns ms) = ?s \<and> list_all (level ?n) (buildPlacementColumns ms)"
  proof (cases "ms = []")
    case False
    obtain columns cur w where run: "fold (column_push ?n) ?s ([], [], None) = (columns, cur, w)" by (rule prod_cases3)
    have "push_inv ?n ([] @ ?s) (fold (column_push ?n) ?s ([], [], None))"
      by (rule push_inv_fold) (use False in \<open>simp_all add: ceil_sqrt_pos push_inv_def\<close>)
    moreover have "?s \<noteq> []" using False length_js_sort [of _ ms] by (metis length_0_conv)
    ultimately show ?thesis
      by (auto simp: buildPlacementColumns_def run push_inv_def level_at_level split: option.splits)
  qed (simp add: buildPlacementColumns_def js_sort_def)
  then show "concat (buildPlacementColumns ms) = ?s" "list_all (level ?n) (buildPlacementColumns ms)" by auto
qed

lemma length_le_concat: "(\<And>c. c \<in> set cs \<Longrightarrow> c \<noteq> []) \<Longrightarrow> length cs \<le> length (concat cs)"
proof (induction cs)
  case (Cons c cs)
  then show ?case by (cases c) auto
qed simp

lemma length_part_concat: "c \<in> set cs \<Longrightarrow> length c \<le> length (concat cs)"
  by (induction cs) auto

lemma columns_built_small:
  "length (buildPlacementColumns ms) \<le> length ms" "col \<in> set (buildPlacementColumns ms) \<Longrightarrow> length col \<le> length ms"
  using length_le_concat [of "buildPlacementColumns ms"] length_part_concat [of col "buildPlacementColumns ms"]
    columns_built(2) [of ms]
  by (auto simp: columns_built(1) list_all_iff level_def level_at_def)


section \<open>The cards of the layout\<close>

abbreviation entry_tag :: "placement_entry \<Rightarrow> placement_kind \<times> service_card" where
  "entry_tag e \<equiv> (pe_kind e, pe_card e)"

abbreviation meta_tag :: "placement_meta \<Rightarrow> placement_kind \<times> service_card" where
  "meta_tag m \<equiv> (pm_kind m, pm_card m)"

abbreviation columns_tags :: "(placement_entry list \<times> rat) list \<Rightarrow> (placement_kind \<times> service_card) list" where
  "columns_tags cols \<equiv> map entry_tag (concat (map fst cols))"

lemma fold_column_tags:
  "map entry_tag (ct_entries (fold (column_step rnd dims x) ms st)) = map entry_tag (ct_entries st) @ map meta_tag ms"
  by (induction ms arbitrary: st) (simp_all add: column_step_def Let_def)

lemma align_column_tags:
  "columns_tags (gr_columns (snd (align_column rnd dims col (al, gr)))) = columns_tags (gr_columns gr) @ map meta_tag col"
  by (simp add: align_column_def Let_def fold_column_tags)

lemma align_columns_tags:
  "columns_tags (gr_columns (snd (fold (align_column rnd dims) cols (al, gr)))) =
     columns_tags (gr_columns gr) @ map meta_tag (concat cols)"
proof (induction cols arbitrary: al gr)
  case (Cons col cols)
  obtain al1 gr1 where 1: "align_column rnd dims col (al, gr) = (al1, gr1)" by fastforce
  then show ?case using Cons.IH [of al1 gr1] align_column_tags [of rnd dims col al gr] by simp
qed simp

definition kind_tags :: "(placement_kind, placement_meta list list) js_map \<Rightarrow> placement_kind \<Rightarrow> (placement_kind \<times> service_card) list" where
  "kind_tags columns kind = (case map_get columns kind of None \<Rightarrow> [] | Some cols \<Rightarrow> map meta_tag (concat cols))"

lemma align_kinds_tags:
  assumes "\<And>k gr. (k, gr) \<in> set gs \<Longrightarrow> columns_tags (gr_columns gr) = kind_tags columns k"
    and "(k, gr) \<in> set (snd (fold (align_kind rnd dims columns) kinds (al, gs)))"
  shows "columns_tags (gr_columns gr) = kind_tags columns k"
  using assms
proof (induction kinds arbitrary: al gs)
  case (Cons kind kinds)
  show ?case
  proof (cases "map_get columns kind")
    case None
    then show ?thesis using Cons.IH [of gs al] Cons.prems by (simp add: align_kind_def)
  next
    case (Some cols)
    let ?gr = "\<lparr>gr_columns = [], gr_bbox = xywh_fromArgs (al_x al) (al_y al) 0 0\<rparr>"
    obtain al1 gr1 where 1: "fold (align_column rnd dims) cols (al, ?gr) = (al1, gr1)" by fastforce
    have "columns_tags (gr_columns gr1) = kind_tags columns kind"
      using align_columns_tags [of rnd dims cols al ?gr] by (simp add: 1 Some kind_tags_def)
    then show ?thesis using Cons.IH [of "gs @ [(kind, gr1)]" al1] Cons.prems Some 1 by (auto simp: align_kind_def)
  qed
qed simp

lemma centered_tags: "map entry_tag (centered rnd H c) = map entry_tag (fst c)"
  by (simp add: centered_def comp_def)

lemma group_entries_tags:
  assumes "k \<in> set kinds"
  shows "map entry_tag (group_entries (alignColumns rnd dims columns kinds) k) = kind_tags columns k"
proof -
  obtain al gs where run: "fold (align_kind rnd dims columns) kinds (\<lparr>al_x = 0, al_y = 0, al_entireHeight = 0\<rparr>, []) = (al, gs)"
    by fastforce
  define groups where "groups = alignColumns rnd dims columns kinds"
  have groups: "groups = map (\<lambda>(k, gr). (k, concat (map (centered rnd (al_entireHeight al)) (gr_columns gr)), gr_bbox gr)) gs"
    by (simp add: groups_def alignColumns_def run center_group_entries)
  have "map fst gs = filter (\<lambda>k. map_get columns k \<noteq> None) kinds"
    using align_kinds_keys [of rnd dims columns kinds "\<lparr>al_x = 0, al_y = 0, al_entireHeight = 0\<rparr>" "[]"] unfolding run by simp
  then have keys: "map fst groups = filter (\<lambda>k. map_get columns k \<noteq> None) kinds"
    by (simp add: groups comp_def split_def)
  show ?thesis
  proof (cases "map_get groups k")
    case None
    then have "k \<notin> set (map fst groups)" by (simp add: map_of_eq_None_iff)
    then have "map_get columns k = None" using assms unfolding keys by simp
    then show ?thesis using None by (simp add: group_entries_def groups_def kind_tags_def)
  next
    case (Some p)
    then have "(k, p) \<in> set groups" by (rule map_of_SomeD)
    then obtain gr where gr: "(k, gr) \<in> set gs" "fst p = concat (map (centered rnd (al_entireHeight al)) (gr_columns gr))"
      unfolding groups by force
    have "columns_tags (gr_columns gr) = kind_tags columns k"
      using align_kinds_tags [of "[]" columns k gr rnd dims kinds "\<lparr>al_x = 0, al_y = 0, al_entireHeight = 0\<rparr>"] gr(1)
      by (simp add: run)
    moreover have "map entry_tag (fst p) = columns_tags (gr_columns gr)"
      by (simp only: gr(2) map_concat map_map comp_def centered_tags)
    ultimately show ?thesis using Some by (simp add: group_entries_def groups_def [symmetric])
  qed
qed

lemma moved_tags: "map entry_tag (moved rnd s es) = map entry_tag es"
  by (simp add: moved_def shift_entries_def shift_entry_def comp_def split: option.splits)

abbreviation all_kinds :: "placement_kind list" where
  "all_kinds \<equiv> [ToWorld, FromWorld, InsideWithConnections, InsideWithoutConnections, AnotherNamespace]"

lemma layout_tags: "map entry_tag (assign_coordinates rnd dims columns) = concat (map (kind_tags columns) all_kinds)"
  by (simp add: assign_coordinates_def place_bands_moved moved_tags band_entries_def group_entries_tags)


section \<open>Every card of the map in its group\<close>

definition card_meta :: "store_frame \<Rightarrow> shared_state \<Rightarrow> service_card \<Rightarrow> placement_meta" where
  "card_meta fr sh =
     getCardPlacementMeta (interaction_connections (sf_interactions fr)) (sf_services fr)
       (let ns = map_option nd_namespace (namespaces_current (sh_namespaces sh)) in if truthy ns then ns else None)"

lemma getCardPlacementMeta_card [simp]: "pm_card (getCardPlacementMeta conns services ns crd) = crd"
  by (simp add: getCardPlacementMeta_def Let_def)

definition add_meta :: "placement_meta \<Rightarrow> (placement_kind, placement_meta list) js_map \<Rightarrow> (placement_kind, placement_meta list) js_map" where
  "add_meta meta index = map_set (pm_kind meta) (or_empty (map_get index (pm_kind meta)) @ [meta]) index"

lemma fold_add_meta:
  "or_empty (map_get (fold add_meta ms index) k) = or_empty (map_get index k) @ filter (\<lambda>m. pm_kind m = k) ms"
  "map_get (fold add_meta ms index) k = None \<longleftrightarrow> map_get index k = None \<and> k \<notin> pm_kind ` set ms"
  "wf_map index \<Longrightarrow> wf_map (fold add_meta ms index)"
  by (induction ms arbitrary: index) (auto simp: add_meta_def or_empty_def)

lemma placementGroups_fold:
  "placementGroups conns services currentNs =
     fold add_meta (map (getCardPlacementMeta conns services (if truthy currentNs then currentNs else None)) services) []"
  by (simp add: placementGroups_def add_meta_def [abs_def] Let_def fold_map comp_def)

lemma placementColumns_get:
  assumes "wf_map groups"
  shows "map_get (placementColumns skip groups) k =
    (if skip \<and> k = AnotherNamespace then None else map_option buildPlacementColumns (map_get groups k))"
proof -
  have "map_get (fold (\<lambda>(kind, plcs) columns.
        if skip \<and> kind = AnotherNamespace then columns else map_set kind (buildPlacementColumns plcs) columns) groups m) k =
      (if skip \<and> k = AnotherNamespace then map_get m k
       else case map_get groups k of None \<Rightarrow> map_get m k | Some plcs \<Rightarrow> Some (buildPlacementColumns plcs))" for m
    using assms
  proof (induction groups arbitrary: m)
    case (Cons g groups)
    obtain kind plcs where g: "g = (kind, plcs)" by fastforce
    have "map_get groups kind = None" using Cons.prems by (simp add: g map_of_eq_None_iff)
    moreover have "wf_map groups" using Cons.prems by simp
    ultimately show ?case unfolding g fold.simps comp_def by (subst Cons.IH) (auto split: option.splits)
  qed simp
  from this [of "[]"] show ?thesis unfolding placementColumns_def by (auto split: option.splits)
qed

definition shown_metas :: "store_frame \<Rightarrow> shared_state \<Rightarrow> placement_meta list" where
  "shown_metas fr sh =
     filter (\<lambda>m. cs_showCrossNamespaceActivity (sh_controls sh) \<or> pm_kind m \<noteq> AnotherNamespace)
       (map (card_meta fr sh) (sf_services fr))"

definition map_columns :: "store_frame \<Rightarrow> shared_state \<Rightarrow> (placement_kind, placement_meta list list) js_map" where
  "map_columns fr sh =
     placementColumns (\<not> cs_showCrossNamespaceActivity (sh_controls sh))
       (placementGroups (interaction_connections (sf_interactions fr)) (sf_services fr)
         (map_option nd_namespace (namespaces_current (sh_namespaces sh))))"

lemma cardsPlacement_columns: "cardsPlacement fr sh ps = assignCoordinates (ps_cardsWHs ps) (map_columns fr sh)"
  by (simp add: cardsPlacement_def map_columns_def)

lemma map_columns_get:
  "map_get (map_columns fr sh) k =
     (if filter (\<lambda>m. pm_kind m = k) (shown_metas fr sh) = [] then None
      else Some (buildPlacementColumns (filter (\<lambda>m. pm_kind m = k) (shown_metas fr sh))))"
proof -
  define groups where "groups = fold add_meta (map (card_meta fr sh) (sf_services fr)) []"
  have g: "placementGroups (interaction_connections (sf_interactions fr)) (sf_services fr)
      (map_option nd_namespace (namespaces_current (sh_namespaces sh))) = groups"
    unfolding placementGroups_fold groups_def card_meta_def [abs_def] Let_def ..
  have wf: "wf_map groups" unfolding groups_def by (rule fold_add_meta(3)) simp
  have get: "map_get groups k = (let ms = filter (\<lambda>m. pm_kind m = k) (map (card_meta fr sh) (sf_services fr))
      in if ms = [] then None else Some ms)"
    using fold_add_meta(1,2) [of "map (card_meta fr sh) (sf_services fr)" "[]" k]
    by (cases "map_get groups k") (auto simp: groups_def filter_empty_conv or_empty_def)
  show ?thesis
    unfolding map_columns_def g placementColumns_get [OF wf] get shown_metas_def
    by (auto simp: filter_empty_conv Let_def intro!: arg_cong [of _ _ buildPlacementColumns] filter_cong)
qed


lemma map_columns_small:
  assumes "length (sf_services fr) \<le> 1024"
  shows "columns_small (map_columns fr sh)"
proof -
  have "wf_map (placementColumns skip groups)" for skip and groups :: "(placement_kind, placement_meta list) js_map"
  proof -
    have "wf_map m \<Longrightarrow> wf_map (fold (\<lambda>(kind, plcs) columns.
        if skip \<and> kind = AnotherNamespace then columns else map_set kind (buildPlacementColumns plcs) columns) groups m)" for m
      by (induction groups arbitrary: m) (auto split: prod.splits)
    then show ?thesis by (simp add: placementColumns_def)
  qed
  then have wf: "wf_map (map_columns fr sh)" by (simp add: map_columns_def)
  have "length (shown_metas fr sh) \<le> 1024"
    unfolding shown_metas_def by (rule order_trans [OF length_filter_le]) (simp add: assms)
  then have len: "length (filter P (shown_metas fr sh)) \<le> 1024" for P by (rule order_trans [OF length_filter_le])
  show ?thesis
    unfolding columns_small_def
  proof
    fix cols
    assume "cols \<in> snd ` set (map_columns fr sh)"
    then obtain k where "map_get (map_columns fr sh) k = Some cols" using wf by (auto simp: wf_map_get_iff)
    then have "cols = buildPlacementColumns (filter (\<lambda>m. pm_kind m = k) (shown_metas fr sh))"
      by (auto simp: map_columns_get split: if_splits)
    then show "length cols \<le> 1024 \<and> (\<forall>col \<in> set cols. length col \<le> 1024)"
      using order_trans [OF columns_built_small(1) len] order_trans [OF columns_built_small(2) len] by simp
  qed
qed

lemma map_columns_tags:
  "mset (kind_tags (map_columns fr sh) k) = mset (map meta_tag (filter (\<lambda>m. pm_kind m = k) (shown_metas fr sh)))"
  unfolding kind_tags_def map_columns_get by (simp add: columns_built(1) del: mset_map) (simp add: mset_map)

lemma card_meta_kind: "pm_kind (card_meta fr sh crd) \<in> set all_kinds"
  by (auto simp: card_meta_def getCardPlacementMeta_def Let_def)

lemma mset_by_kind:
  "distinct ks \<Longrightarrow> pm_kind ` set ms \<subseteq> set ks \<Longrightarrow>
     mset (concat (map (\<lambda>k. filter (\<lambda>m. pm_kind m = k) ms) ks)) = mset ms"
proof (induction ms)
  case (Cons m ms)
  have split: "mset (concat (map (\<lambda>k. filter (\<lambda>m. pm_kind m = k) (m # ms)) js)) =
      mset (concat (map (\<lambda>k. filter (\<lambda>m. pm_kind m = k) ms) js)) + (if pm_kind m \<in> set js then {#m#} else {#})"
    if "distinct js" for js
    using that by (induction js) auto
  show ?case using Cons split [OF Cons.prems(1)] by simp
qed (simp add: concat_eq_Nil_conv)

text \<open>Every card that is shown is in the layout once, and nothing else is.\<close>

lemma layout_cards:
  "mset (map entry_tag (assign_coordinates rnd dims (map_columns fr sh))) = mset (map meta_tag (shown_metas fr sh))"
proof -
  have kinds: "pm_kind ` set (shown_metas fr sh) \<subseteq> set all_kinds"
    unfolding shown_metas_def using card_meta_kind by (auto simp del: insert_iff)
  have "mset (concat (map (kind_tags (map_columns fr sh)) ks)) =
      mset (map meta_tag (concat (map (\<lambda>k. filter (\<lambda>m. pm_kind m = k) (shown_metas fr sh)) ks)))" for ks
    by (induction ks) (simp_all add: map_columns_tags)
  then have "mset (map entry_tag (assign_coordinates rnd dims (map_columns fr sh))) =
      mset (map meta_tag (concat (map (\<lambda>k. filter (\<lambda>m. pm_kind m = k) (shown_metas fr sh)) all_kinds)))"
    unfolding layout_tags by blast
  also have "\<dots> = image_mset meta_tag (mset (shown_metas fr sh))"
    unfolding mset_map by (subst mset_by_kind [OF _ kinds]) simp_all
  finally show ?thesis by simp
qed


section \<open>What the map promises\<close>

lemma assignCoordinates_entry:
  assumes "map_get (assignCoordinates dims columns) i = Some e"
  shows "e \<in> set (assign_coordinates fl dims columns) \<and> card_id (pe_card e) = i"
proof -
  have "find (\<lambda>e. card_id (pe_card e) = i) (rev (assign_coordinates fl dims columns)) = Some e"
    using assms by (simp add: assignCoordinates_def map_get_fold_set split: option.splits)
  then show ?thesis by (auto simp: find_Some_iff) (metis length_rev nth_mem set_rev)
qed

lemma sorted_wrt_pair:
  "sorted_wrt P xs \<Longrightarrow> (\<And>x y. P x y = P y x) \<Longrightarrow> x \<in> set xs \<Longrightarrow> y \<in> set xs \<Longrightarrow> x \<noteq> y \<Longrightarrow> P x y"
  by (induction xs) auto

text \<open>C32: as long as the map has at most 1024 cards, none wider or higher than 65536 pixels and none with a height between zero
  and one pixel, no two of the cards it places share an area, with the rounding of IEEE arithmetic.\<close>

theorem cards_do_not_overlap:
  assumes "length (sf_services fr) \<le> 1024" and "dims_ok (ps_cardsWHs ps)"
    and "map_get (cardsPlacement fr sh ps) i = Some e" and "map_get (cardsPlacement fr sh ps) j = Some f" and "i \<noteq> j"
  shows "\<not> overlap (pe_geometry e) (pe_geometry f)"
proof -
  let ?es = "assign_coordinates fl (ps_cardsWHs ps) (map_columns fr sh)"
  have "e \<in> set ?es \<and> card_id (pe_card e) = i" "f \<in> set ?es \<and> card_id (pe_card f) = j"
    using assms(3,4) unfolding cardsPlacement_columns by (blast dest: assignCoordinates_entry)+
  moreover have "sorted_wrt clear ?es"
    by (rule fl.layout_clear [OF assms(2) map_columns_small [OF assms(1)]])
  ultimately show ?thesis
    using sorted_wrt_pair [of clear ?es e f] assms(5) overlap_sym by blast
qed

lemma fold_set_values:
  "wf_map pl \<Longrightarrow> map_get (fold (\<lambda>(i, e) m. map_set i (g e) m) pl m) i =
     (case map_get pl i of None \<Rightarrow> map_get m i | Some e \<Rightarrow> Some (g e))"
proof (induction pl arbitrary: m)
  case (Cons p pl)
  obtain j e where p: "p = (j, e)" by fastforce
  have "map_get pl j = None" using Cons.prems by (simp add: p map_of_eq_None_iff)
  moreover have "wf_map pl" using Cons.prems by simp
  ultimately show ?case unfolding p fold.simps comp_def split by (subst Cons.IH) (auto split: option.splits)
qed simp

lemma rebuild_coords:
  "getCardCoords i (rebuild fr sh ps) =
     (case map_get (cardsPlacement fr sh ps) i of None \<Rightarrow> getCardCoords i ps | Some e \<Rightarrow> Some (xywh_xy (pe_geometry e)))"
proof -
  have wf: "wf_map m \<Longrightarrow> wf_map (fold (\<lambda>e m. map_set (card_id (pe_card e)) e m) es m)" for es m
    by (induction es arbitrary: m) auto
  have "wf_map (cardsPlacement fr sh ps)" unfolding cardsPlacement_columns assignCoordinates_def by (rule wf) simp
  then show ?thesis by (simp add: rebuild_def getCardCoords_def fold_set_values split: option.splits)
qed

lemma shown_tags:
  "(k, crd) \<in> set (map meta_tag (shown_metas fr sh)) \<longleftrightarrow>
     crd \<in> set (sf_services fr) \<and> k = pm_kind (card_meta fr sh crd)
     \<and> (cs_showCrossNamespaceActivity (sh_controls sh) \<or> k \<noteq> AnotherNamespace)"
  by (auto simp: shown_metas_def card_meta_def)

lemma layout_ids_distinct:
  assumes "wf_services (sf_services fr)"
  shows "distinct (map (\<lambda>e. card_id (pe_card e)) (assign_coordinates rnd dims (map_columns fr sh)))"
proof -
  have "mset (map (card_id \<circ> snd) (map entry_tag (assign_coordinates rnd dims (map_columns fr sh)))) =
      mset (map (card_id \<circ> snd) (map meta_tag (shown_metas fr sh)))"
    unfolding mset_map [of "card_id \<circ> snd"] layout_cards ..
  then have "mset (map (\<lambda>e. card_id (pe_card e)) (assign_coordinates rnd dims (map_columns fr sh))) =
      mset (map (\<lambda>m. card_id (pm_card m)) (shown_metas fr sh))"
    by (simp only: map_map comp_def snd_conv)
  moreover have "distinct (map (\<lambda>m. card_id (pm_card m)) (shown_metas fr sh))"
    unfolding shown_metas_def
    by (rule distinct_map_filter) (use assms in \<open>simp add: wf_services_def comp_def card_meta_def\<close>)
  ultimately show ?thesis by (metis mset_eq_imp_distinct_iff)
qed

lemma placed_ids:
  "map_has (cardsPlacement fr sh ps) i \<longleftrightarrow> i \<in> card_id ` pm_card ` set (shown_metas fr sh)"
proof -
  have "set (map entry_tag (assign_coordinates fl (ps_cardsWHs ps) (map_columns fr sh))) = set (map meta_tag (shown_metas fr sh))"
    using layout_cards by (rule mset_eq_setD)
  from arg_cong [OF this, of "image (card_id \<circ> snd)"] show ?thesis
    unfolding cardsPlacement_columns assignCoordinates_def map_has_fold_set by (simp add: image_image comp_def)
qed

lemma shown_all:
  "cs_showCrossNamespaceActivity (sh_controls sh) \<Longrightarrow> card_id ` pm_card ` set (shown_metas fr sh) = card_id ` set (sf_services fr)"
  by (simp add: shown_metas_def card_meta_def image_image)

text \<open>C33: the cards on the map are those of the services, without the ones of other namespaces when the
  cross-namespace activity is hidden; each has the kind its connections give it, and the rebuilt map
  remembers its place.\<close>

theorem every_card_is_placed:
  assumes "wf_services (sf_services fr)"
  shows "(\<exists>e. map_get (cardsPlacement fr sh ps) i = Some e \<and> pe_card e = crd \<and> pe_kind e = k
      \<and> getCardCoords i (rebuild fr sh ps) = Some (xywh_xy (pe_geometry e)))
    \<longleftrightarrow> crd \<in> set (sf_services fr) \<and> card_id crd = i \<and> k = pm_kind (card_meta fr sh crd)
      \<and> (cs_showCrossNamespaceActivity (sh_controls sh) \<or> k \<noteq> AnotherNamespace)"
proof -
  let ?es = "assign_coordinates fl (ps_cardsWHs ps) (map_columns fr sh)"
  let ?pl = "cardsPlacement fr sh ps"
  have tags: "set (map entry_tag ?es) = set (map meta_tag (shown_metas fr sh))"
    using layout_cards by (rule mset_eq_setD)
  have "map_get ?pl (card_id (pe_card e)) = Some e" if "e \<in> set ?es" for e
    unfolding cardsPlacement_columns assignCoordinates_def
    by (rule map_get_fold_set_distinct [OF layout_ids_distinct [OF assms] that])
  then have "(\<exists>e. map_get ?pl i = Some e \<and> pe_card e = crd \<and> pe_kind e = k) \<longleftrightarrow> card_id crd = i \<and> (k, crd) \<in> set (map entry_tag ?es)"
    by (auto simp: cardsPlacement_columns dest!: assignCoordinates_entry)
  then show ?thesis unfolding tags shown_tags by (auto simp: rebuild_coords)
qed


text \<open>Three cards, two of them linked, and the size of two of them known.\<close>

definition demo_placement_state :: main_store where
  "demo_placement_state = store_run uniq_first demo_url (take 2 demo_messages) (store_new 0 demo_counters)"

definition demo_placement_frame :: store_frame where
  "demo_placement_frame = ms_current demo_placement_state"

definition demo_placement_sizes :: placement_store where
  "demo_placement_sizes = placement_new\<lparr>ps_cardsWHs := [(''1'', \<lparr>dw = 560, dh = 240\<rparr>), (''2'', \<lparr>dw = 560, dh = 401 / 4\<rparr>)]\<rparr>"

lemma demo_placement_ids: "map card_id (sf_services demo_placement_frame) = [''1'', ''2'']"
  by code_simp

lemma demo_placement_shown: "cs_showCrossNamespaceActivity (sh_controls (ms_shared demo_placement_state))"
  by code_simp

lemma demo_placement_dims: "dims_ok (ps_cardsWHs demo_placement_sizes)"
  by (simp add: dims_ok_def demo_placement_sizes_def)

theorem cards_do_not_overlap_witness:
  "\<exists>e f. map_get (cardsPlacement demo_placement_frame (ms_shared demo_placement_state) demo_placement_sizes) ''1'' = Some e
     \<and> map_get (cardsPlacement demo_placement_frame (ms_shared demo_placement_state) demo_placement_sizes) ''2'' = Some f
     \<and> \<not> overlap (pe_geometry e) (pe_geometry f)"
proof -
  let ?pl = "cardsPlacement demo_placement_frame (ms_shared demo_placement_state) demo_placement_sizes"
  have "card_id ` set (sf_services demo_placement_frame) = {''1'', ''2''}"
    using arg_cong [OF demo_placement_ids, of set] by simp
  then have "map_has ?pl ''1''" "map_has ?pl ''2''" unfolding placed_ids shown_all [OF demo_placement_shown] by simp_all
  then obtain e f where ef: "map_get ?pl ''1'' = Some e" "map_get ?pl ''2'' = Some f" by blast
  have "length (sf_services demo_placement_frame) \<le> 1024"
    using arg_cong [OF demo_placement_ids, of length] by simp
  from cards_do_not_overlap [OF this demo_placement_dims ef] ef show ?thesis by blast
qed

theorem every_card_is_placed_witness:
  "\<exists>crd e. card_id crd = ''1'' \<and>
     map_get (cardsPlacement demo_placement_frame (ms_shared demo_placement_state) demo_placement_sizes) ''1'' = Some e \<and> pe_card e = crd"
proof -
  obtain crd where "crd \<in> set (sf_services demo_placement_frame)" "card_id crd = ''1''"
    using arg_cong [OF demo_placement_ids, of set] by (metis image_iff list.set_intros(1) list.set_map)
  moreover have "wf_services (sf_services demo_placement_frame)" by (simp add: wf_services_def demo_placement_ids)
  ultimately show ?thesis
    using every_card_is_placed [of demo_placement_frame "ms_shared demo_placement_state" demo_placement_sizes "''1''" crd
        "pm_kind (card_meta demo_placement_frame (ms_shared demo_placement_state) crd)"] demo_placement_shown by blast
qed


section \<open>The box around the cards\<close>

definition bbox_step :: "placement_store \<Rightarrow> string \<times> xy \<Rightarrow> xywh \<Rightarrow> xywh" where
  "bbox_step ps = (\<lambda>(cardId, p) b.
     case map_get (ps_cardsWHs ps) cardId of
       None \<Rightarrow> b
     | Some d \<Rightarrow>
         b\<lparr>gw := max (gw b) (js_add (cx p) (dw d)), gh := max (gh b) (js_add (cy p) (dh d)),
           gx := min (gx b) (cx p), gy := min (gy b) (cy p)\<rparr>)"

definition is_edge :: "placement_store \<Rightarrow> (string \<times> xy) list \<Rightarrow> rat \<Rightarrow> bool" where
  "is_edge ps xys v \<longleftrightarrow>
     list_ex (\<lambda>(k, p). case map_get (ps_cardsWHs ps) k of None \<Rightarrow> False | Some d \<Rightarrow> v = js_add (cx p) (dw d)) xys"

lemma is_edge_card:
  "is_edge ps xys v \<longleftrightarrow> (\<exists>k p d. (k, p) \<in> set xys \<and> map_get (ps_cardsWHs ps) k = Some d \<and> v = js_add (cx p) (dw d))"
  by (auto simp: is_edge_def list_ex_iff split: option.splits) fastforce+

lemma bbox_fold:
  "gw b \<le> gw (fold (bbox_step ps) xys b) \<and> gx (fold (bbox_step ps) xys b) \<le> gx b"
  "(k, p) \<in> set xys \<Longrightarrow> map_get (ps_cardsWHs ps) k = Some d \<Longrightarrow>
     js_add (cx p) (dw d) \<le> gw (fold (bbox_step ps) xys b) \<and> gx (fold (bbox_step ps) xys b) \<le> cx p"
  "gw (fold (bbox_step ps) xys b) = gw b \<or> is_edge ps xys (gw (fold (bbox_step ps) xys b))"
proof (induction xys arbitrary: b)
  case (Cons x xys)
  obtain i q where x: "x = (i, q)" by fastforce
  have step: "gw b \<le> gw (bbox_step ps x b)" "gx (bbox_step ps x b) \<le> gx b" for b
    by (auto simp: bbox_step_def x split: option.splits)
  {
    case 1
    note ih = Cons.IH(1) [of "bbox_step ps x b"]
    show ?case using order_trans [OF step(1) conjunct1 [OF ih]] order_trans [OF conjunct2 [OF ih] step(2)] by simp
  next
    case 2
    then show ?case using Cons.IH(1,2) [of "bbox_step ps x b"] by (auto simp: bbox_step_def x)
  next
    case 3
    have "gw (bbox_step ps x b) = gw b \<or> is_edge ps [x] (gw (bbox_step ps x b))"
      by (auto simp: bbox_step_def x is_edge_def max_def split: option.splits)
    then show ?case using Cons.IH(3) [of "bbox_step ps x b"] by (auto simp: is_edge_def split: option.splits)
  }
qed auto

text \<open>The box around the cards has the right edge of the rightmost one as its width; when a card lies left
  of the origin, the box ends before the rightmost card does.\<close>

theorem box_ends_before_the_last_card:
  assumes "(i, p) \<in> set (ps_cardsXYs ps)" and "map_get (ps_cardsWHs ps) i = Some di" and "cx p < 0"
    and "(j, q) \<in> set (ps_cardsXYs ps)" and "map_get (ps_cardsWHs ps) j = Some dj" and "0 < js_add (cx q) (dw dj)"
    and "\<And>n. namespaceBBox placement = Some n \<Longrightarrow> gw n \<le> js_add (cx q) (dw dj)"
  shows "\<exists>k r d. (k, r) \<in> set (ps_cardsXYs ps) \<and> map_get (ps_cardsWHs ps) k = Some d
    \<and> gx (placement_bbox placement ps) + gw (placement_bbox placement ps) < js_add (cx r) (dw d)"
proof -
  define start where "start = (case namespaceBBox placement of None \<Rightarrow> xywh_empty | Some b \<Rightarrow> b)"
  have b: "placement_bbox placement ps = fold (bbox_step ps) (ps_cardsXYs ps) start"
    by (simp add: placement_bbox_def bbox_step_def start_def)
  note left = bbox_fold(2) [OF assms(1,2), of start, folded b]
  note right = bbox_fold(2) [OF assms(4,5), of start, folded b]
  have "gw start \<le> js_add (cx q) (dw dj)"
    using assms(6,7) by (auto simp: start_def xywh_empty_def xywh_new_def split: option.splits)
  then have "\<exists>k r d. (k, r) \<in> set (ps_cardsXYs ps) \<and> map_get (ps_cardsWHs ps) k = Some d
      \<and> gw (placement_bbox placement ps) = js_add (cx r) (dw d)"
    using bbox_fold(3) [of ps "ps_cardsXYs ps" start, folded b] right assms(4,5) unfolding is_edge_card by force
  then show ?thesis using left assms(3) by force
qed

definition demo_box :: placement_store where
  "demo_box = placement_new\<lparr>ps_cardsXYs := [(''1'', \<lparr>cx = - 100, cy = 0\<rparr>), (''2'', \<lparr>cx = 660, cy = 0\<rparr>)],
     ps_cardsWHs := [(''1'', \<lparr>dw = 560, dh = 240\<rparr>), (''2'', \<lparr>dw = 560, dh = 100\<rparr>)]\<rparr>"

theorem box_ends_before_the_last_card_witness:
  "\<exists>k r d. (k, r) \<in> set (ps_cardsXYs demo_box) \<and> map_get (ps_cardsWHs demo_box) k = Some d
     \<and> gx (placement_bbox [] demo_box) + gw (placement_bbox [] demo_box) < js_add (cx r) (dw d)"
proof -
  have "fl 1220 = 1220" using fl_of_int [of 1220] by simp
  moreover have "namespaceBBox [] = None" by (simp add: namespaceBBox_def cardsBBox_def)
  ultimately show ?thesis
    by (intro box_ends_before_the_last_card [of "''1''" "\<lparr>cx = - 100, cy = 0\<rparr>" demo_box "\<lparr>dw = 560, dh = 240\<rparr>" "''2''"
        "\<lparr>cx = 660, cy = 0\<rparr>" "\<lparr>dw = 560, dh = 100\<rparr>" "[]"]) (simp_all add: demo_box_def)
qed

end
