(* ===== verification/Geometry.thy ===== *)
theory Geometry
  imports Placement
begin

text \<open>
  The rest of \<open>src/domain/geometry\<close>: vectors (\<open>vec2.ts\<close>), positions (\<open>position.ts\<close>), segments
  (\<open>utils.ts\<close>, \<open>intersections.ts\<close>) and the walk of an arrow around a card (\<open>rounding.ts\<close>).
  Numbers are rounded by \<open>fl\<close> as in the layout; a quotient that is not finite is \<open>None\<close>.  The square root
  is the correctly rounded one; the arc cosine and the tangent, whose results the language leaves to the
  engine, are arguments.
\<close>

section \<open>Square roots\<close>

text \<open>The integer square root by doubling digits.\<close>

fun isqrt :: "int \<Rightarrow> int" where
  "isqrt n = (if n \<le> 0 then 0 else (let r = 2 * isqrt (n div 4) in if (r + 1) * (r + 1) \<le> n then r + 1 else r))"

declare isqrt.simps [simp del]

lemma isqrt_spec: "0 \<le> n \<Longrightarrow> 0 \<le> isqrt n \<and> isqrt n * isqrt n \<le> n \<and> n < (isqrt n + 1) * (isqrt n + 1)"
proof (induction n rule: isqrt.induct)
  case (1 n)
  show ?case
  proof (cases "n = 0")
    case False
    define s where "s = isqrt (n div 4)"
    have "\<not> n \<le> 0" using False "1.prems" by simp
    then have s: "0 \<le> s" "s * s \<le> n div 4" "n div 4 < (s + 1) * (s + 1)" using "1.IH" "1.prems" by (auto simp: s_def)
    then have "4 * (s * s) \<le> n" by linarith
    moreover have "n < 4 * ((s + 1) * (s + 1))" using s(3) by linarith
    ultimately show ?thesis
      unfolding isqrt.simps [of n] s_def [symmetric] using s(1) "1.prems" by (simp add: Let_def algebra_simps)
  qed (simp add: isqrt.simps)
qed

text \<open>\<open>Math.sqrt\<close>: at least 60 digits of the root, and a half digit more when they are not all of it, decide
  the rounding.\<close>

definition js_sqrt :: "rat \<Rightarrow> rat" where
  "js_sqrt x =
     (if x \<le> 0 then 0
      else (let k = 61 - ilog2 x div 2;
                scaled = x * 4 powi k;
                n = isqrt \<lfloor>scaled\<rfloor>;
                tail = (if of_int n * of_int n = scaled then 0 else 1 / 2)
            in fl ((of_int n + tail) / 2 powi k)))"

section \<open>Vectors\<close>

definition vec2_add :: "xy \<Rightarrow> xy \<Rightarrow> xy" where
  "vec2_add v arg = \<lparr>cx = js_add (cx v) (cx arg), cy = js_add (cy v) (cy arg)\<rparr>"

definition vec2_addInPlace :: "xy \<Rightarrow> xy \<Rightarrow> xy" where
  "vec2_addInPlace v arg = \<lparr>cx = js_add (cx v) (cx arg), cy = js_add (cy v) (cy arg)\<rparr>"

definition vec2_sub :: "xy \<Rightarrow> xy \<Rightarrow> xy" where
  "vec2_sub v arg = \<lparr>cx = js_sub (cx v) (cx arg), cy = js_sub (cy v) (cy arg)\<rparr>"

definition vec2_mul :: "xy \<Rightarrow> rat \<Rightarrow> xy" where
  "vec2_mul v n = \<lparr>cx = js_mul (cx v) n, cy = js_mul (cy v) n\<rparr>"

definition vec2_zero :: xy where
  "vec2_zero = \<lparr>cx = 0, cy = 0\<rparr>"

definition vec2_fromXY :: "xy \<Rightarrow> xy" where
  "vec2_fromXY p = \<lparr>cx = cx p, cy = cy p\<rparr>"

definition vec2_linterp :: "xy \<Rightarrow> xy \<Rightarrow> rat \<Rightarrow> xy" where
  "vec2_linterp v rhs t =
     \<lparr>cx = js_add (js_mul (cx v) (js_sub 1 t)) (js_mul (cx rhs) t),
      cy = js_add (js_mul (cy v) (js_sub 1 t)) (js_mul (cy rhs) t)\<rparr>"

definition vec2_slope :: "xy \<Rightarrow> xy \<Rightarrow> rat" where
  "vec2_slope v p = (let dx = js_sub (cx p) (cx v) in if tooSmall dx then 0 else js_div (js_sub (cy p) (cy v)) dx)"

definition vec2_length :: "xy \<Rightarrow> rat" where
  "vec2_length v = js_sqrt (js_add (js_mul (cx v) (cx v)) (js_mul (cy v) (cy v)))"

abbreviation number_epsilon :: rat where "number_epsilon \<equiv> 1 / 2 ^ 52"

definition vec2_normalize :: "xy \<Rightarrow> xy" where
  "vec2_normalize v =
     (let l = vec2_length v
      in if l < number_epsilon then vec2_zero else \<lparr>cx = js_div (cx v) l, cy = js_div (cy v) l\<rparr>)"

definition geom_distance :: "xy \<Rightarrow> xy \<Rightarrow> rat" where
  "geom_distance p q =
     (let dx = \<bar>js_sub (cx q) (cx p)\<bar>; dy = \<bar>js_sub (cy q) (cy p)\<bar>
      in js_sqrt (js_add (js_mul dx dx) (js_mul dy dy)))"

definition vec2_distance :: "xy \<Rightarrow> xy \<Rightarrow> rat" where
  "vec2_distance v p =
     (let dx = \<bar>js_sub (cx p) (cx v)\<bar>; dy = \<bar>js_sub (cy p) (cy v)\<bar>
      in js_sqrt (js_add (js_mul dx dx) (js_mul dy dy)))"

definition vec2_dot :: "xy \<Rightarrow> xy \<Rightarrow> rat" where
  "vec2_dot v rhs = js_add (js_mul (cx v) (cx rhs)) (js_mul (cy v) (cy rhs))"

definition vec2_angle :: "(rat \<Rightarrow> rat) \<Rightarrow> xy \<Rightarrow> xy \<Rightarrow> rat" where
  "vec2_angle acos_fn v rhs =
     (let l1 = vec2_length v; l2 = vec2_length rhs
      in if l1 < number_epsilon \<or> l2 < number_epsilon then 0
         else acos_fn (js_div (vec2_dot v rhs) (js_mul l1 l2)))"

definition vec2_directionAngle :: "(rat \<Rightarrow> rat) \<Rightarrow> xy \<Rightarrow> rat" where
  "vec2_directionAngle acos_fn v = vec2_angle acos_fn v \<lparr>cx = 1, cy = 0\<rparr>"

definition vec2_negate :: "xy \<Rightarrow> xy" where
  "vec2_negate v = \<lparr>cx = - cx v, cy = - cy v\<rparr>"

definition vec2_clone :: "rat \<Rightarrow> rat \<Rightarrow> xy \<Rightarrow> xy" where
  "vec2_clone dx dy v = \<lparr>cx = js_add (cx v) dx, cy = js_add (cy v) dy\<rparr>"

definition vec2_isZero :: "xy \<Rightarrow> bool" where
  "vec2_isZero v \<longleftrightarrow> vec2_length v < number_epsilon"

definition vec2_isClockwise :: "xy \<Rightarrow> xy \<Rightarrow> bool" where
  "vec2_isClockwise v rhs \<longleftrightarrow> js_sub (js_mul (cx v) (cy rhs)) (js_mul (cy v) (cx rhs)) < 0"

section \<open>Segments\<close>

definition angleBetweenSegments :: "(rat \<Rightarrow> rat) \<Rightarrow> xy \<Rightarrow> xy \<Rightarrow> xy \<Rightarrow> rat" where
  "angleBetweenSegments acos_fn p0 p1 p2 =
     (let side1X = js_sub (cx p0) (cx p1); side1Y = js_sub (cy p0) (cy p1);
          side2X = js_sub (cx p2) (cx p1); side2Y = js_sub (cy p2) (cy p1);
          l1 = geom_distance p0 p1; l2 = geom_distance p1 p2
      in if l1 < number_epsilon \<or> l2 < number_epsilon then 0
         else acos_fn (js_div (js_add (js_mul side1X side2X) (js_mul side1Y side2Y)) (js_mul l1 l2)))"

definition linterp2 :: "xy \<Rightarrow> xy \<Rightarrow> rat \<Rightarrow> xy" where
  "linterp2 p q t =
     \<lparr>cx = js_add (js_mul (cx p) (js_sub 1 t)) (js_mul (cx q) t),
      cy = js_add (js_mul (cy p) (js_sub 1 t)) (js_mul (cy q) t)\<rparr>"

text \<open>A corner between three points: where the arc starts and ends, and its angle; \<open>pi_value\<close> is \<open>Math.PI\<close>.\<close>

definition roundCorner ::
  "(rat \<Rightarrow> rat) \<Rightarrow> (rat \<Rightarrow> rat) \<Rightarrow> rat \<Rightarrow> rat \<Rightarrow> xy \<times> xy \<times> xy \<Rightarrow> xy \<times> xy \<times> rat" where
  "roundCorner acos_fn tan_fn pi_value r points =
     (let (p0, p1, p2) = points; angle = angleBetweenSegments acos_fn p0 p1 p2
      in if angle < number_epsilon then (p0, p2, pi_value)
         else (let offset = js_div r (tan_fn (js_div angle 2))
               in (linterp2 p1 p0 (js_div offset (geom_distance p0 p1)),
                   linterp2 p1 p2 (js_div offset (geom_distance p2 p1)), angle)))"

definition pointSideOfLine :: "xy \<Rightarrow> xy \<Rightarrow> xy \<Rightarrow> int" where
  "pointSideOfLine start end point =
     (let a = js_mul (js_sub (cx end) (cx start)) (js_sub (cy point) (cy start));
          b = js_mul (js_sub (cy end) (cy start)) (js_sub (cx point) (cx start));
          result = js_sub a b
      in if result = 0 then 0 else if 0 < result then 1 else - 1)"

subsection \<open>Intersections\<close>

definition outOfSegments :: "rat \<Rightarrow> rat \<Rightarrow> xy \<Rightarrow> xy \<Rightarrow> xy \<Rightarrow> xy \<Rightarrow> bool" where
  "outOfSegments x y p1 p2 p3 p4 =
     (let eps = fl (5 / 1000);
          inside = (\<lambda>p q.
            (let (xlm, xrm) = (if cx p < cx q then (cx p, cx q) else (cx q, cx p));
                 (ylm, yrm) = (if cy p < cy q then (cy p, cy q) else (cy q, cy p))
             in js_sub xlm eps \<le> x \<and> x \<le> js_add xrm eps \<and> js_sub ylm eps \<le> y \<and> y \<le> js_add yrm eps))
      in \<not> (inside p1 p2 \<and> inside p3 p4))"

text \<open>The slope of a line, \<open>None\<close> when it is infinite or not a number.\<close>

definition line_slope :: "rat \<Rightarrow> rat \<Rightarrow> rat option" where
  "line_slope dy dx = (if dx = 0 then None else Some (js_div dy dx))"

definition segmentsIntersection :: "xy \<Rightarrow> xy \<Rightarrow> xy \<Rightarrow> xy \<Rightarrow> bool \<Rightarrow> xy option" where
  "segmentsIntersection p1 p2 p3 p4 lineMode =
     (let dx1 = js_sub (cx p2) (cx p1); dy1 = js_sub (cy p2) (cy p1);
          dx2 = js_sub (cx p4) (cx p3); dy2 = js_sub (cy p4) (cy p3);
          checked = (\<lambda>x y. if \<not> lineMode \<and> outOfSegments x y p1 p2 p3 p4 then None else Some \<lparr>cx = x, cy = y\<rparr>)
      in if tooSmall dx2 \<and> tooSmall dx1 then None
         else if tooSmall dy1 \<and> tooSmall dy2 then None
         else (case (line_slope dy1 dx1, line_slope dy2 dx2) of
             (Some s1, Some s2) \<Rightarrow>
               if tooSmall (js_sub s1 s2) then None
               else if \<not> tooSmall dx1 \<and> tooSmall dx2
               then (let x = cx p3 in checked x (js_add (js_mul s1 (js_sub x (cx p1))) (cy p1)))
               else if \<not> tooSmall dx2 \<and> tooSmall dx1
               then (let x = cx p1 in checked x (js_add (js_mul s2 (js_sub x (cx p3))) (cy p3)))
               else (let x = js_div (js_add (js_sub (js_sub (js_mul s1 (cx p1)) (cy p1)) (js_mul s2 (cx p3))) (cy p3)) (js_sub s1 s2)
                     in checked x (js_add (js_mul s1 (js_sub x (cx p1))) (cy p1)))
           | (Some s1, None) \<Rightarrow> (let x = cx p3 in checked x (js_add (js_mul s1 (js_sub x (cx p1))) (cy p1)))
           | (None, Some s2) \<Rightarrow> (let x = cx p1 in checked x (js_add (js_mul s2 (js_sub x (cx p3))) (cy p3)))
           | (None, None) \<Rightarrow> None))"


subsection \<open>Lines\<close>

text \<open>A line \<open>a * x + b * y + c = 0\<close>.\<close>

record line2 =
  l2_a :: rat
  l2_b :: rat
  l2_c :: rat

definition line2_throughPoints :: "xy \<Rightarrow> xy \<Rightarrow> line2" where
  "line2_throughPoints p1 p2 =
     (if tooSmall (js_sub (cx p2) (cx p1)) then \<lparr>l2_a = 1, l2_b = 0, l2_c = - cx p1\<rparr>
      else (let k = js_div (js_sub (cy p2) (cy p1)) (js_sub (cx p2) (cx p1))
            in \<lparr>l2_a = - k, l2_b = 1, l2_c = js_sub (js_mul k (cx p1)) (cy p1)\<rparr>))"

definition line2_fromPoint :: "xy \<Rightarrow> xy \<Rightarrow> line2" where
  "line2_fromPoint start d =
     (if tooSmall (cx d) then \<lparr>l2_a = 0, l2_b = 0, l2_c = 0\<rparr>
      else (let k = js_div (cy d) (cx d)
            in \<lparr>l2_a = - k, l2_b = 1, l2_c = js_sub (js_mul k (cx start)) (cy start)\<rparr>))"

definition line2_normal :: "line2 \<Rightarrow> xy" where
  "line2_normal l = vec2_normalize \<lparr>cx = l2_a l, cy = l2_b l\<rparr>"

definition line2_direction :: "line2 \<Rightarrow> xy" where
  "line2_direction l = vec2_normalize \<lparr>cx = - l2_b l, cy = l2_a l\<rparr>"

text \<open>A direction straight up gives no line: every point would be on it.\<close>

lemma fromPoint_vertical: "line2_fromPoint p \<lparr>cx = 0, cy = d\<rparr> = line2_fromPoint q \<lparr>cx = 0, cy = e\<rparr>"
  by (simp add: line2_fromPoint_def tooSmall_def)

section \<open>Positions\<close>

text \<open>Bit masks \<open>tmbrcl\<close>.\<close>

definition pos_Top :: int where "pos_Top = 32"
definition pos_Middle :: int where "pos_Middle = 16"
definition pos_Bottom :: int where "pos_Bottom = 8"
definition pos_Left :: int where "pos_Left = 1"
definition pos_Center :: int where "pos_Center = 2"
definition pos_Right :: int where "pos_Right = 4"

unbundle bit_operations_syntax

definition pos_x :: "int \<Rightarrow> int" where "pos_x n = n AND 7"
definition pos_has :: "int \<Rightarrow> int \<Rightarrow> bool" where "pos_has flag n \<longleftrightarrow> n AND flag > 0"
definition pos_TopLeft :: int where "pos_TopLeft = pos_Top OR pos_Left"
definition pos_TopRight :: int where "pos_TopRight = pos_Top OR pos_Right"
definition pos_TopCenter :: int where "pos_TopCenter = pos_Top OR pos_Center"
definition pos_MiddleLeft :: int where "pos_MiddleLeft = pos_Middle OR pos_Left"
definition pos_MiddleRight :: int where "pos_MiddleRight = pos_Middle OR pos_Right"
definition pos_MiddleCenter :: int where "pos_MiddleCenter = pos_Middle OR pos_Center"
definition pos_BottomLeft :: int where "pos_BottomLeft = pos_Bottom OR pos_Left"
definition pos_BottomRight :: int where "pos_BottomRight = pos_Bottom OR pos_Right"
definition pos_BottomCenter :: int where "pos_BottomCenter = pos_Bottom OR pos_Center"
definition pos_top :: "int \<Rightarrow> bool" where "pos_top n = pos_has pos_Top n"
definition pos_middle :: "int \<Rightarrow> bool" where "pos_middle n = pos_has pos_Middle n"
definition pos_bottom :: "int \<Rightarrow> bool" where "pos_bottom n = pos_has pos_Bottom n"
definition pos_left :: "int \<Rightarrow> bool" where "pos_left n = pos_has pos_Left n"
definition pos_center :: "int \<Rightarrow> bool" where "pos_center n = pos_has pos_Center n"
definition pos_right :: "int \<Rightarrow> bool" where "pos_right n = pos_has pos_Right n"
definition pos_topLeft :: "int \<Rightarrow> bool" where "pos_topLeft n = pos_has pos_TopLeft n"
definition pos_topCenter :: "int \<Rightarrow> bool" where "pos_topCenter n = pos_has pos_TopCenter n"
definition pos_topRight :: "int \<Rightarrow> bool" where "pos_topRight n = pos_has pos_TopRight n"
definition pos_bottomLeft :: "int \<Rightarrow> bool" where "pos_bottomLeft n = pos_has pos_BottomLeft n"
definition pos_bottomCenter :: "int \<Rightarrow> bool" where "pos_bottomCenter n = pos_has pos_BottomCenter n"
definition pos_bottomRight :: "int \<Rightarrow> bool" where "pos_bottomRight n = pos_has pos_BottomRight n"

definition pos_toString :: "int \<Rightarrow> string" where
  "pos_toString n =
     (let s = (if pos_top n then ''Top'' else []);
          s = (if pos_middle n then ''Middle'' @ s else s);
          s = (if pos_bottom n then ''Bottom'' @ s else s)
      in s @ (if pos_left n then ''Left'' else []) @ (if pos_center n then ''Center'' else [])
           @ (if pos_right n then ''Right'' else []))"

text \<open>The getters of corners hold for the edges too: the top edge in the middle counts as both top corners.\<close>

lemma top_center_is_every_top_corner:
  "pos_topLeft pos_TopCenter \<and> pos_topRight pos_TopCenter \<and> pos_topLeft pos_TopRight"
  by code_simp

section \<open>Around a card\<close>

datatype box_side = SideTop | SideBottom | SideLeft | SideRight

text \<open>The corner, or side, by which an arrow with these two intersections is led past a box.\<close>

definition getAroundPointByCase ::
  "sides \<Rightarrow> box_side \<times> xy \<Rightarrow> box_side \<times> xy \<Rightarrow> rat \<Rightarrow> rat \<Rightarrow> xy" where
  "getAroundPointByCase sds s1 s2 padX padY =
     (let (side1, first) = s1; (side2, second) = s2;
          bottomY = cy (fst (si_bottom sds)); topY = cy (fst (si_top sds));
          leftX = cx (fst (si_left sds)); rightX = cx (fst (si_right sds));
          onLeft = js_sub leftX padX; onRight = js_add rightX padX;
          above = js_sub topY padY; below = js_add bottomY padY
      in if {side1, side2} = {SideBottom, SideTop} then
           (let midX = js_div (js_add leftX rightX) 2;
                keepLeft = (js_div (js_add (cx second) (cx first)) 2 < midX \<and> cx second < cx first)
            in \<lparr>cx = (if keepLeft then onLeft else onRight), cy = (if side1 = SideBottom then below else above)\<rparr>)
         else if {side1, side2} = {SideLeft, SideRight} then
           (let midY = js_div (js_add bottomY topY) 2;
                keepTop = (js_div (js_add (cy second) (cy first)) 2 < midY \<and> cy second < cy first)
            in \<lparr>cx = (if side1 = SideLeft then onLeft else onRight), cy = (if keepTop then above else below)\<rparr>)
         else if {side1, side2} = {SideLeft, SideTop} then \<lparr>cx = onLeft, cy = above\<rparr>
         else if {side1, side2} = {SideRight, SideTop} then \<lparr>cx = onRight, cy = above\<rparr>
         else if {side1, side2} = {SideBottom, SideRight} then \<lparr>cx = onRight, cy = below\<rparr>
         else if {side1, side2} = {SideBottom, SideLeft} then \<lparr>cx = onLeft, cy = below\<rparr>
         else \<lparr>cx = 0, cy = 0\<rparr>)"

definition side_intersections :: "xy \<Rightarrow> xy \<Rightarrow> sides \<Rightarrow> (box_side \<times> xy) list" where
  "side_intersections p q sds =
     concat (map (\<lambda>(side, ends). case segmentsIntersection p q (fst ends) (snd ends) False of
         None \<Rightarrow> [] | Some x \<Rightarrow> [(side, x)])
       [(SideTop, si_top sds), (SideBottom, si_bottom sds), (SideLeft, si_left sds), (SideRight, si_right sds)])"

definition getAroundPoint :: "xy \<Rightarrow> xy \<Rightarrow> sides \<Rightarrow> rat \<Rightarrow> rat \<Rightarrow> xy option" where
  "getAroundPoint p q sds padX padY =
     (let found = side_intersections p q sds
      in if length found < 2 then None
         else (case js_sort (\<lambda>a b. js_sub (geom_distance p (snd a)) (geom_distance p (snd b))) found of
             s1 # s2 # _ \<Rightarrow> Some (getAroundPointByCase sds s1 s2 padX padY)
           | _ \<Rightarrow> None))"

definition goAroundTheBox :: "xywh \<Rightarrow> xy \<Rightarrow> xy \<Rightarrow> rat \<Rightarrow> rat \<Rightarrow> xy list" where
  "goAroundTheBox box p q padX padY =
     (let sds = xywh_sides box
      in case getAroundPoint p q sds padX padY of
           None \<Rightarrow> []
         | Some pivot1 \<Rightarrow>
             (case getAroundPoint pivot1 q sds padX padY of None \<Rightarrow> [pivot1] | Some pivot2 \<Rightarrow> [pivot1, pivot2]))"

text \<open>Wherever it starts and leads, the walk has at most two points, each in a corner outside the box.\<close>

definition outside_corner :: "xywh \<Rightarrow> rat \<Rightarrow> rat \<Rightarrow> xy \<Rightarrow> bool" where
  "outside_corner box padX padY p \<longleftrightarrow>
     (cx p = js_sub (gx box) padX \<or> cx p = js_add (js_add (gx box) (gw box)) padX)
     \<and> (cy p = js_sub (gy box) padY \<or> cy p = js_add (js_add (gy box) (gh box)) padY)"

lemma distinct_sides: "distinct (map fst (side_intersections p q sds))"
  by (auto simp: side_intersections_def split: option.splits)

lemma getAroundPoint_corner:
  assumes "getAroundPoint p q (xywh_sides box) padX padY = Some pivot"
  shows "outside_corner box padX padY pivot"
proof -
  let ?cmp = "\<lambda>a b. js_sub (geom_distance p (snd a)) (geom_distance p (snd b))"
  let ?found = "side_intersections p q (xywh_sides box)"
  obtain s1 s2 rest where sorted: "js_sort ?cmp ?found = s1 # s2 # rest"
    and pivot: "pivot = getAroundPointByCase (xywh_sides box) s1 s2 padX padY"
    using assms by (auto simp: getAroundPoint_def Let_def split: if_splits list.splits)
  have "mset (map fst (js_sort ?cmp ?found)) = mset (map fst ?found)" by simp
  then have "distinct (map fst (js_sort ?cmp ?found))"
    by (rule iffD2 [OF mset_eq_imp_distinct_iff distinct_sides])
  then have ne: "fst s1 \<noteq> fst s2" by (simp add: sorted)
  obtain a p1 b p2 where s: "s1 = (a, p1)" "s2 = (b, p2)" by fastforce
  from ne show ?thesis
    unfolding pivot getAroundPointByCase_def outside_corner_def xywh_sides_def Let_def s
    by (cases a; cases b) (simp_all add: doubleton_eq_iff)
qed

lemma walk_outside_corners:
  "length (goAroundTheBox box p q padX padY) \<le> 2 \<and>
     list_all (outside_corner box padX padY) (goAroundTheBox box p q padX padY)"
  by (auto simp: goAroundTheBox_def Let_def split: option.splits dest!: getAroundPoint_corner)

end
