(* ===== verification/Iter_Tools.thy ===== *)
theory Iter_Tools
  imports Prelude "HOL-Library.Word"
begin

text \<open>
  \<open>src/utils/iter-tools\<close>, \<open>advancer.ts\<close>, \<open>numbers.ts\<close>, \<open>option.ts\<close> and \<open>result.ts\<close>: overlapping chunks
  of an array, the tuples of a product of index ranges, counters per key, thousands separators, and
  optional values and results.  Callbacks are recorded: a traversal returns the list of the arguments
  its callback gets, in order.
\<close>

section \<open>Chunks\<close>

text \<open>\<open>arr.slice(a, b)\<close>: a negative index counts from the end.\<close>

definition slice_index :: "nat \<Rightarrow> int \<Rightarrow> nat" where
  "slice_index n k = (if k < 0 then nat (max (int n + k) 0) else min (nat k) n)"

definition js_slice :: "'d list \<Rightarrow> int \<Rightarrow> int \<Rightarrow> 'd list" where
  "js_slice arr a b =
     (let s = slice_index (length arr) a; e = slice_index (length arr) b in take (e - s) (drop s arr))"

text \<open>\<open>x | 0\<close> of the quotient of two integers, which is exact enough: numerator and denominator have
  less than 32 bits.\<close>

definition quot_or_0 :: "int \<Rightarrow> int \<Rightarrow> int" where
  "quot_or_0 a b =
     sint (word_of_int (if (a < 0) = (b < 0) then \<bar>a\<bar> div \<bar>b\<bar> else - (\<bar>a\<bar> div \<bar>b\<bar>)) :: 32 word)"

lemma slice_index_le: "slice_index n k \<le> n"
  by (simp add: slice_index_def) arith

lemma length_js_slice: "length (js_slice arr a b) = slice_index (length arr) b - slice_index (length arr) a"
  using slice_index_le [of "length arr" b] by (simp add: js_slice_def Let_def)

text \<open>A chunk that starts before the array is not full.\<close>

lemma slice_before_start:
  assumes "0 < k" "start < - int n"
  shows "int (slice_index n (start + k)) < k"
  using assms by (auto simp: slice_index_def)

text \<open>The loop of \<open>forEach\<close>, which is entered with a positive size and a step other than zero only.\<close>

function chunks_loop :: "'d list \<Rightarrow> int \<Rightarrow> int \<Rightarrow> int \<Rightarrow> nat \<Rightarrow> ('d list \<times> nat \<times> int) list" where
  "chunks_loop arr sz overlap start idx =
     (if sz \<le> 0 \<or> sz = overlap \<or> \<not> start + sz \<le> int (length arr) then []
      else (let chunk = js_slice arr start (start + sz);
                ntotal = quot_or_0 (int (length arr) - overlap) (sz - overlap)
            in if int (length chunk) < sz then []
               else (chunk, idx, ntotal) # chunks_loop arr sz overlap (start + (sz - overlap)) (idx + 1)))"
  by pat_completeness auto

text \<open>With a positive step the start moves to the end; with a negative one it soon has no full chunk.\<close>

termination
proof (relation "measure (\<lambda>(arr, sz, overlap, start, idx).
    if overlap < sz then nat (int (length arr) - start) else nat (start + int (length arr) + 1))")
  fix arr :: "'d list" and sz overlap start :: int and idx chunk ntotal
  assume guard: "\<not> (sz \<le> 0 \<or> sz = overlap \<or> \<not> start + sz \<le> int (length arr))"
    and chunk: "chunk = js_slice arr start (start + sz)"
    and "ntotal = quot_or_0 (int (length arr) - overlap) (sz - overlap)"
    and full: "\<not> int (length chunk) < sz"
  have "- int (length arr) \<le> start"
    using guard full slice_before_start [of sz start "length arr"] unfolding chunk length_js_slice by linarith
  then show "((arr, sz, overlap, start + (sz - overlap), idx + 1), arr, sz, overlap, start, idx)
      \<in> measure (\<lambda>(arr, sz, overlap, start, idx).
          if overlap < sz then nat (int (length arr) - start) else nat (start + int (length arr) + 1))"
    using guard by auto
qed simp

declare chunks_loop.simps [simp del]

text \<open>\<open>Chunks.forEach\<close>: the calls of the callback, or the error.\<close>

definition chunks_forEach :: "'d list \<Rightarrow> int \<Rightarrow> int \<Rightarrow> string + ('d list \<times> nat \<times> int) list" where
  "chunks_forEach arr sz overlap =
     (if sz \<le> 0 \<or> overlap < 0 \<or> length arr = 0 then Inr []
      else if sz - overlap = 0 then Inl ''chunks: failed to run with overlap === size''
      else Inr (chunks_loop arr sz overlap 0 0))"

definition chunks_map :: "('d list \<Rightarrow> nat \<Rightarrow> int \<Rightarrow> 'r) \<Rightarrow> 'd list \<Rightarrow> int \<Rightarrow> int \<Rightarrow> string + 'r list" where
  "chunks_map cb arr sz overlap =
     map_sum id (map (\<lambda>(chunk, i, ntotal). cb chunk i ntotal)) (chunks_forEach arr sz overlap)"

section \<open>Combinations\<close>

record array_combinations =
  ac_tupleSizes :: "nat list"
  ac_indices :: "nat list"
  ac_stop :: bool
  ac_ntuples :: nat

definition combinations_new :: "nat list \<Rightarrow> array_combinations" where
  "combinations_new sizes =
     (let ntuples = foldl (\<lambda>acc ts. acc * ts) 1 sizes
      in \<lparr>ac_tupleSizes = sizes, ac_indices = replicate (length sizes) 0, ac_stop = (ntuples = 0),
          ac_ntuples = ntuples\<rparr>)"

text \<open>The loop of \<open>advanceIndices\<close> runs from the last index down: sizes and indices are reversed here, and
  the flag is the carry.\<close>

fun advance_loop :: "nat list \<Rightarrow> nat list \<Rightarrow> bool \<Rightarrow> nat list \<times> bool" where
  "advance_loop (ts # sizes) (i # indices) carry =
     (let carry' = (ts \<le> i + 1); i' = (i + 1) mod ts
      in if \<not> carry' then (i' # indices, False)
         else (let (rest, stop) = advance_loop sizes indices True in (i' # rest, stop)))"
| "advance_loop sizes indices carry = (indices, carry)"

definition combinations_advanceIndices :: "array_combinations \<Rightarrow> array_combinations" where
  "combinations_advanceIndices ac =
     (let (indices, stop) = advance_loop (rev (ac_tupleSizes ac)) (rev (ac_indices ac)) False
      in ac\<lparr>ac_indices := rev indices, ac_stop := (ac_stop ac \<or> stop)\<rparr>)"

definition combinations_next :: "array_combinations \<Rightarrow> nat list option \<times> array_combinations" where
  "combinations_next ac =
     (if ac_stop ac then (None, ac) else (Some (ac_indices ac), combinations_advanceIndices ac))"

text \<open>\<open>asArray\<close> loops until \<open>next\<close> has no tuple; \<open>None\<close> when it never returns.\<close>

partial_function (option) combinations_loop :: "array_combinations \<Rightarrow> nat list list \<Rightarrow> nat list list option" where
  "combinations_loop ac arr =
     (case combinations_next ac of
        (None, _) \<Rightarrow> Some arr
      | (Some indices, ac') \<Rightarrow> combinations_loop ac' (arr @ [indices]))"

definition combinations_asArray :: "array_combinations \<Rightarrow> nat list list option" where
  "combinations_asArray ac = combinations_loop ac []"

fun combinations_forEach_from ::
  "array_combinations \<Rightarrow> nat \<Rightarrow> nat \<Rightarrow> (nat list \<times> nat \<times> nat) list" where
  "combinations_forEach_from ac idx 0 = []"
| "combinations_forEach_from ac idx (Suc left) =
     (case combinations_next ac of
        (None, _) \<Rightarrow> []
      | (Some tuple, ac') \<Rightarrow> (tuple, idx, ac_ntuples ac) # combinations_forEach_from ac' (idx + 1) left)"

definition combinations_forEach :: "array_combinations \<Rightarrow> (nat list \<times> nat \<times> nat) list" where
  "combinations_forEach ac = combinations_forEach_from ac 0 (ac_ntuples ac)"

section \<open>Maps\<close>

definition mapUtils_map :: "('k \<Rightarrow> 'v \<Rightarrow> 't) \<Rightarrow> ('k, 'v) js_map \<Rightarrow> 't list" where
  "mapUtils_map fn m = fold (\<lambda>(k, v) values. values @ [fn k v]) m []"

definition mapUtils_mapKeys :: "('k \<Rightarrow> 't) \<Rightarrow> ('k, 'v) js_map \<Rightarrow> 't list" where
  "mapUtils_mapKeys fn m = fold (\<lambda>(k, v) values. values @ [fn k]) m []"

definition mapUtils_mapValues :: "('v \<Rightarrow> 't) \<Rightarrow> ('k, 'v) js_map \<Rightarrow> 't list" where
  "mapUtils_mapValues fn m = fold (\<lambda>(k, v) values. values @ [fn v]) m []"

definition mapUtils_pickFirst :: "('k, 'v) js_map \<Rightarrow> 'v option" where
  "mapUtils_pickFirst m = (case map_keys m of [] \<Rightarrow> None | key # _ \<Rightarrow> map_get m key)"

section \<open>Counters per key\<close>

record ('k, 's) advancer =
  ad_data :: "('k, 's) js_map"
  ad_step :: 's
  ad_initialValue :: 's
  ad_inc :: "'s \<Rightarrow> 's \<Rightarrow> 's"
  ad_dec :: "'s \<Rightarrow> 's \<Rightarrow> 's"

definition advancer_new :: "int \<Rightarrow> int \<Rightarrow> ('k, int) advancer" where
  "advancer_new stp iv =
     \<lparr>ad_data = [], ad_step = stp, ad_initialValue = iv, ad_inc = (\<lambda>a b. a + b), ad_dec = (\<lambda>a b. a - b)\<rparr>"

definition advancer_current :: "'k \<Rightarrow> ('k, 's) advancer \<Rightarrow> 's" where
  "advancer_current k ad = (case map_get (ad_data ad) k of None \<Rightarrow> ad_initialValue ad | Some v \<Rightarrow> v)"

definition advancer_advance :: "'k \<Rightarrow> ('k, 's) advancer \<Rightarrow> 's \<times> ('k, 's) advancer" where
  "advancer_advance k ad =
     (let current = advancer_current k ad
      in (current, ad\<lparr>ad_data := map_set k (ad_inc ad current (ad_step ad)) (ad_data ad)\<rparr>))"

definition advancer_rewind :: "'k \<Rightarrow> ('k, 's) advancer \<Rightarrow> 's \<times> ('k, 's) advancer" where
  "advancer_rewind k ad =
     (let current = advancer_current k ad; prev = ad_dec ad current (ad_step ad)
      in (prev, ad\<lparr>ad_data := map_set k prev (ad_data ad)\<rparr>))"

definition advancer_setAdder :: "('s \<Rightarrow> 's \<Rightarrow> 's) \<Rightarrow> ('k, 's) advancer \<Rightarrow> ('k, 's) advancer" where
  "advancer_setAdder adder ad = ad\<lparr>ad_inc := adder\<rparr>"

definition advancer_setSubtractor :: "('s \<Rightarrow> 's \<Rightarrow> 's) \<Rightarrow> ('k, 's) advancer \<Rightarrow> ('k, 's) advancer" where
  "advancer_setSubtractor sub ad = ad\<lparr>ad_dec := sub\<rparr>"

section \<open>Thousands separators\<close>

definition numberWithCommas :: "string \<Rightarrow> string" where
  "numberWithCommas str =
     (let len = length str; commaIndex = len mod 3
      in fold (\<lambda>i formatted.
           (if 0 < i \<and> i mod 3 = commaIndex then formatted @ '','' else formatted) @ [str ! i]) [0..<len] [])"

section \<open>Chunks: results\<close>

definition chunk_count :: "nat \<Rightarrow> nat \<Rightarrow> nat \<Rightarrow> nat" where
  "chunk_count n s l = (if s \<le> n then (n - l) div (s - l) else 0)"

lemma before_count:
  assumes "l < s"
  shows "j * (s - l) + s \<le> n \<longleftrightarrow> j < chunk_count n s l"
proof (cases "s \<le> n")
  case True
  have "j * (s - l) + s \<le> n \<longleftrightarrow> Suc j * (s - l) \<le> n - l" using assms True by auto
  also have "\<dots> \<longleftrightarrow> Suc j \<le> (n - l) div (s - l)" using assms by (simp add: less_eq_div_iff_mult_less_eq)
  finally show ?thesis using True by (simp add: chunk_count_def Suc_le_eq)
qed (simp add: chunk_count_def)

lemma slice_inside:
  "a + s \<le> length arr \<Longrightarrow> js_slice arr (int a) (int a + int s) = take s (drop a arr)"
  by (simp add: js_slice_def slice_index_def nat_add_distrib)

lemma chunks_loop_inside:
  assumes l: "l < s"
  shows "chunks_loop arr (int s) (int l) (int (j * (s - l))) j =
    map (\<lambda>i. (take s (drop (i * (s - l)) arr), i, quot_or_0 (int (length arr) - int l) (int s - int l)))
      [j..<chunk_count (length arr) s l]"
proof (induction "chunk_count (length arr) s l - j" arbitrary: j)
  case 0
  then have "\<not> j * (s - l) + s \<le> length arr" unfolding before_count [OF l] by simp
  then have "\<not> int (j * (s - l)) + int s \<le> int (length arr)" by linarith
  then show ?case using 0 by (subst chunks_loop.simps) simp
next
  case (Suc x)
  then have j: "j < chunk_count (length arr) s l" by simp
  then have inside: "j * (s - l) + s \<le> length arr" unfolding before_count [OF l] .
  then have fits: "int (j * (s - l)) + int s \<le> int (length arr)" by linarith
  have full: "length (take s (drop (j * (s - l)) arr)) = s" using inside by simp
  have guard: "\<not> (int s \<le> 0 \<or> int s = int l \<or> \<not> int (j * (s - l)) + int s \<le> int (length arr))"
    using fits l by simp
  have "int (s - l) = int s - int l" using l by simp
  then have nxt: "int (j * (s - l)) + (int s - int l) = int ((j + 1) * (s - l))"
    by (simp only: of_nat_mult of_nat_add of_nat_1 distrib_right mult_1)
  have rest: "chunks_loop arr (int s) (int l) (int ((j + 1) * (s - l))) (j + 1) =
      map (\<lambda>i. (take s (drop (i * (s - l)) arr), i, quot_or_0 (int (length arr) - int l) (int s - int l)))
        [j + 1..<chunk_count (length arr) s l]"
    using Suc by (intro Suc.hyps) simp
  have "chunks_loop arr (int s) (int l) (int (j * (s - l))) j =
      (take s (drop (j * (s - l)) arr), j, quot_or_0 (int (length arr) - int l) (int s - int l))
        # chunks_loop arr (int s) (int l) (int ((j + 1) * (s - l))) (j + 1)"
    unfolding nxt [symmetric] slice_inside [OF inside, symmetric]
    by (subst chunks_loop.simps) (simp only: guard full Let_def slice_inside [OF inside] if_False less_irrefl)
  then show ?case unfolding rest using j by (simp add: upt_conv_Cons)
qed

lemma quot_count:
  assumes "l < s" "s \<le> n" "n < 2 ^ 31"
  shows "quot_or_0 (int n - int l) (int s - int l) = int (chunk_count n s l)"
proof -
  have "int n - int l = int (n - l)" "int s - int l = int (s - l)" using assms by simp_all
  moreover have "(n - l) div (s - l) < 2 ^ 31"
    using assms by (meson div_le_dividend diff_le_self le_less_trans)
  then have "sint (word_of_int (int ((n - l) div (s - l))) :: 32 word) = int ((n - l) div (s - l))"
    unfolding sint_sbintrunc' by (intro signed_take_bit_int_eq_self) simp_all
  ultimately show ?thesis using assms by (simp add: quot_or_0_def chunk_count_def zdiv_int)
qed

text \<open>with an overlap less than the size, the callback gets the chunks that start at the multiples of the
  difference, as many as fit, each with its number and the number of all the chunks.\<close>

theorem chunks_forEach_spec:
  assumes "l < s" "length arr < 2 ^ 31"
  shows "chunks_forEach arr (int s) (int l) =
    Inr (map (\<lambda>i. (take s (drop (i * (s - l)) arr), i, int (chunk_count (length arr) s l)))
      [0..<chunk_count (length arr) s l])"
proof -
  have "chunks_loop arr (int s) (int l) 0 0 =
      map (\<lambda>i. (take s (drop (i * (s - l)) arr), i, quot_or_0 (int (length arr) - int l) (int s - int l)))
        [0..<chunk_count (length arr) s l]"
    using chunks_loop_inside [OF assms(1), of arr 0] by simp
  moreover have "quot_or_0 (int (length arr) - int l) (int s - int l) = int (chunk_count (length arr) s l)"
    if "0 < chunk_count (length arr) s l"
    using quot_count [OF assms(1) _ assms(2)] that by (cases "s \<le> length arr") (simp_all add: chunk_count_def)
  ultimately show ?thesis
    using assms by (auto simp: chunks_forEach_def chunk_count_def)
qed

theorem chunks_forEach_spec_witness:
  "chunks_forEach [1, 2, 3, 4 :: nat] 2 1 = Inr [([1, 2], 0, 3), ([2, 3], 1, 3), ([3, 4], 2, 3)]"
  using chunks_forEach_spec [of 1 2 "[1, 2, 3, 4 :: nat]"] by (simp add: chunk_count_def upt_rec)

text \<open>Whatever size and overlap.\<close>

lemma chunks_loop_bound:
  "length (chunks_loop arr sz overlap start idx) \<le>
     (if overlap < sz then nat (int (length arr) - start) else nat (start + int (length arr) + 1))
   \<and> (\<forall>(chunk, i, n) \<in> set (chunks_loop arr sz overlap start idx). int (length chunk) = sz)"
proof (induction arr sz overlap start idx rule: chunks_loop.induct)
  case (1 arr sz overlap start idx)
  show ?case
  proof (cases "sz \<le> 0 \<or> sz = overlap \<or> \<not> start + sz \<le> int (length arr)
      \<or> int (length (js_slice arr start (start + sz))) < sz")
    case True
    then show ?thesis by (subst (1 2) chunks_loop.simps) (auto simp: Let_def)
  next
    case False
    then have start: "- int (length arr) \<le> start"
      using slice_before_start [of sz start "length arr"] unfolding length_js_slice by linarith
    have full: "int (length (js_slice arr start (start + sz))) = sz"
      using False unfolding length_js_slice by (auto simp: slice_index_def split: if_splits)
    have unfold_loop: "chunks_loop arr sz overlap start idx =
        (js_slice arr start (start + sz), idx, quot_or_0 (int (length arr) - overlap) (sz - overlap))
          # chunks_loop arr sz overlap (start + (sz - overlap)) (idx + 1)"
      using False by (subst chunks_loop.simps) (simp add: Let_def)
    have "length (chunks_loop arr sz overlap (start + (sz - overlap)) (idx + 1)) \<le>
        (if overlap < sz then nat (int (length arr) - (start + (sz - overlap)))
         else nat (start + (sz - overlap) + int (length arr) + 1))
      \<and> (\<forall>(chunk, i, n) \<in> set (chunks_loop arr sz overlap (start + (sz - overlap)) (idx + 1)).
           int (length chunk) = sz)"
      using False by (intro 1) auto
    then show ?thesis using False start full unfolding unfold_loop by auto
  qed
qed

text \<open>the traversal ends for every size and overlap, an overlap above the size, for which the start moves to
  the left, included: it calls back at most once more than the array is long, with full chunks only.\<close>

theorem chunks_forEach_bounded:
  "case chunks_forEach arr sz overlap of
     Inl e \<Rightarrow> 0 < sz \<and> overlap = sz
   | Inr calls \<Rightarrow> length calls \<le> length arr + 1 \<and> (\<forall>(chunk, i, n) \<in> set calls. int (length chunk) = sz)"
  using chunks_loop_bound [of arr sz overlap 0 0]
  by (auto simp: chunks_forEach_def split: if_splits)

section \<open>Combinations: results\<close>

text \<open>All tuples of a product of ranges in lexicographic order, and the same by numbers: the digits of
  \<open>k\<close> to the mixed base, the last one first.\<close>

fun tuples :: "nat list \<Rightarrow> nat list list" where
  "tuples [] = [[]]"
| "tuples (t # ts) = concat (map (\<lambda>i. map ((#) i) (tuples ts)) [0..<t])"

fun digits_rev :: "nat list \<Rightarrow> nat \<Rightarrow> nat list" where
  "digits_rev [] k = []"
| "digits_rev (t # ts) k = (k mod t) # digits_rev ts (k div t)"

lemma advance_digits:
  "0 < prod_list ts \<Longrightarrow> k < prod_list ts \<Longrightarrow>
     advance_loop ts (digits_rev ts k) carry = (digits_rev ts (k + 1), if ts = [] then carry else k + 1 = prod_list ts)"
proof (induction ts arbitrary: k carry)
  case (Cons t ts)
  have t: "0 < t" "0 < prod_list ts" using Cons.prems by simp_all
  have k: "k div t < prod_list ts"
    using Cons.prems t by (simp add: less_mult_imp_div_less mult.commute)
  show ?case
  proof (cases "k mod t + 1 < t")
    case True
    have "(k + 1) mod t = k mod t + 1" "(k + 1) div t = k div t"
      using True by (simp_all add: mod_Suc div_Suc)
    moreover have "k + 1 \<noteq> t * prod_list ts"
      using True calculation(1) by auto
    ultimately show ?thesis using True by simp
  next
    case False
    then have last_digit: "k mod t + 1 = t" using mod_less_divisor [OF t(1), of k] by simp
    then have wrap: "(k + 1) mod t = 0" "(k + 1) div t = k div t + 1"
      by (simp_all add: mod_Suc div_Suc)
    then have "k + 1 = t * (k div t + 1)" using div_mult_mod_eq [of "k + 1" t] by (simp add: mult.commute)
    then have "k + 1 = t * prod_list ts \<longleftrightarrow> t * (k div t + 1) = t * prod_list ts" by (simp only:)
    also have "\<dots> \<longleftrightarrow> k div t + 1 = prod_list ts" using t(1) by (simp only: mult_cancel1) simp
    finally have "k + 1 = t * prod_list ts \<longleftrightarrow> k div t + 1 = prod_list ts" .
    moreover have "advance_loop ts (digits_rev ts (k div t)) True =
        (digits_rev ts (k div t + 1), if ts = [] then True else k div t + 1 = prod_list ts)"
      by (rule Cons.IH [OF t(2) k])
    moreover have "ts = [] \<Longrightarrow> k div t + 1 = prod_list ts" using k by simp
    ultimately show ?thesis using last_digit wrap by auto
  qed
qed simp

lemma digits_of_zero: "digits_rev ts 0 = replicate (length ts) 0"
  by (induction ts) simp_all

definition at_tuple :: "nat list \<Rightarrow> nat \<Rightarrow> array_combinations" where
  "at_tuple ts k =
     \<lparr>ac_tupleSizes = ts, ac_indices = rev (digits_rev (rev ts) k), ac_stop = (prod_list ts \<le> k),
      ac_ntuples = prod_list ts\<rparr>"

lemma foldl_prod: "foldl (\<lambda>acc ts. acc * ts) a ts = a * prod_list (ts :: nat list)"
  by (induction ts arbitrary: a) simp_all

lemma combinations_new_eq: "combinations_new ts = at_tuple ts 0"
  by (simp add: combinations_new_def at_tuple_def foldl_prod digits_of_zero Let_def)

lemma prod_list_rev: "prod_list (rev ts) = prod_list (ts :: nat list)"
  by (induction ts) simp_all

lemma next_at_tuple:
  assumes "ts \<noteq> []"
  shows "combinations_next (at_tuple ts k) =
    (if k < prod_list ts then (Some (rev (digits_rev (rev ts) k)), at_tuple ts (k + 1)) else (None, at_tuple ts k))"
proof (cases "k < prod_list ts")
  case True
  then have "advance_loop (rev ts) (digits_rev (rev ts) k) False = (digits_rev (rev ts) (k + 1), k + 1 = prod_list ts)"
    using advance_digits [of "rev ts" k False] assms by (simp add: prod_list_rev)
  then show ?thesis
    using True by (auto simp: combinations_next_def combinations_advanceIndices_def at_tuple_def)
qed (simp add: combinations_next_def at_tuple_def)

lemma loop_at_tuple:
  assumes "ts \<noteq> []" "k \<le> prod_list ts"
  shows "combinations_loop (at_tuple ts k) arr =
    Some (arr @ map (\<lambda>j. rev (digits_rev (rev ts) j)) [k..<prod_list ts])"
  using assms(2)
proof (induction "prod_list ts - k" arbitrary: k arr)
  case 0
  then show ?case using assms(1) by (subst combinations_loop.simps) (simp add: next_at_tuple)
next
  case (Suc n)
  then have k: "k < prod_list ts" by simp
  have "combinations_loop (at_tuple ts (k + 1)) (arr @ [rev (digits_rev (rev ts) k)]) =
      Some ((arr @ [rev (digits_rev (rev ts) k)]) @ map (\<lambda>j. rev (digits_rev (rev ts) j)) [k + 1..<prod_list ts])"
    using Suc k by (intro Suc.hyps) simp_all
  then show ?case
    using assms(1) k by (subst combinations_loop.simps) (simp add: next_at_tuple upt_conv_Cons)
qed

lemma digits_rev_snoc:
  "digits_rev (ts @ [t]) k = digits_rev ts k @ [(k div prod_list ts) mod t]"
  by (induction ts arbitrary: k) (simp_all add: div_mult2_eq)

lemma digits_rev_mod: "0 < prod_list ts \<Longrightarrow> digits_rev ts (k mod prod_list ts) = digits_rev ts k"
proof (induction ts arbitrary: k)
  case (Cons t ts)
  then have "0 < t" "0 < prod_list ts" by simp_all
  then show ?case
    using Cons.IH [of "k div t"] by (simp add: mod_mult2_eq)
qed simp

lemma upt_mult: "[0..<t * n] = concat (map (\<lambda>i. map (\<lambda>j. i * n + j) [0..<n]) [0..<t])"
proof (induction t)
  case (Suc t)
  have "[0..<Suc t * n] = [0..<t * n] @ [t * n..<t * n + n]"
    using upt_add_eq_append [of 0 "t * n" n] by (simp add: add.commute)
  moreover have "[t * n..<t * n + n] = map (\<lambda>j. t * n + j) [0..<n]"
    using map_add_upt [of "t * n" n] by (simp add: add.commute)
  ultimately show ?case using Suc by simp
qed simp

lemma tuples_digits:
  "tuples ts = map (\<lambda>k. rev (digits_rev (rev ts) k)) [0..<prod_list ts]"
proof (induction ts)
  case (Cons t ts)
  let ?n = "prod_list ts"
  have digits: "rev (digits_rev (rev (t # ts)) (i * ?n + j)) = i # rev (digits_rev (rev ts) j)"
    if "i < t" "j < ?n" for i j
    using that digits_rev_mod [of "rev ts" "i * ?n + j"]
    by (simp add: digits_rev_snoc prod_list_rev)
  have "map (\<lambda>k. rev (digits_rev (rev (t # ts)) k)) [0..<t * ?n] =
      concat (map (\<lambda>i. map (\<lambda>j. rev (digits_rev (rev (t # ts)) (i * ?n + j))) [0..<?n]) [0..<t])"
    unfolding upt_mult map_concat map_map by (simp only: comp_def map_map)
  also have "\<dots> = concat (map (\<lambda>i. map ((#) i) (tuples ts)) [0..<t])"
    unfolding Cons.IH map_map by (intro arg_cong [where f = concat] map_cong refl) (simp only: digits comp_def set_upt atLeastLessThan_iff)
  finally show ?case by simp
qed simp

text \<open>unless it is given no sizes at all, \<open>asArray\<close> of new combinations returns all the tuples of the
  product of the ranges, each once, in lexicographic order.\<close>

theorem combinations_asArray_all:
  assumes "sizes \<noteq> []"
  shows "combinations_asArray (combinations_new sizes) = Some (tuples sizes)"
  using loop_at_tuple [OF assms, of 0 "[]"]
  by (simp add: combinations_asArray_def combinations_new_eq tuples_digits)

theorem combinations_asArray_all_witness:
  "combinations_asArray (combinations_new [2, 3]) =
     Some [[0, 0], [0, 1], [0, 2], [1, 0], [1, 1], [1, 2]]"
  using combinations_asArray_all [of "[2, 3]"] by (simp add: upt_rec numeral_nat)

text \<open>with no sizes the carry that ends the loop never comes: \<open>asArray\<close> does not return, where \<open>forEach\<close>
  gives the empty tuple once.\<close>

theorem combinations_of_nothing:
  "combinations_asArray (combinations_new []) = None
    \<and> combinations_forEach (combinations_new []) = [([], 0, 1)]"
proof
  have next_nothing: "combinations_next (combinations_new []) = (Some [], combinations_new [])"
    by (simp add: combinations_next_def combinations_advanceIndices_def combinations_new_def)
  have "ac \<noteq> combinations_new []" if "combinations_loop ac arr = Some out" for ac arr out
  proof (rule combinations_loop.raw_induct [of "\<lambda>ac arr out. ac \<noteq> combinations_new []", OF _ that])
    fix loop ac arr out
    assume IH: "\<And>ac arr out. loop ac arr = Some out \<Longrightarrow> ac \<noteq> combinations_new []"
      and body: "(case combinations_next ac of
            (None, _) \<Rightarrow> Some arr
          | (Some indices, ac') \<Rightarrow> loop ac' (arr @ [indices])) = Some out"
    show "ac \<noteq> combinations_new []"
    proof
      assume "ac = combinations_new []"
      then have "loop (combinations_new []) (arr @ [[]]) = Some out" using body by (simp add: next_nothing)
      then show False using IH by blast
    qed
  qed
  then show "combinations_asArray (combinations_new []) = None"
    unfolding combinations_asArray_def by (metis option.exhaust)
  show "combinations_forEach (combinations_new []) = [([], 0, 1)]"
    by (simp add: combinations_forEach_def combinations_new_def combinations_next_def combinations_advanceIndices_def)
qed

section \<open>Maps, counters and separators: results\<close>

lemma mapUtils_map_eq: "mapUtils_map fn m = map (\<lambda>(k, v). fn k v) m"
proof -
  have "fold (\<lambda>(k, v) values. values @ [fn k v]) m acc = acc @ map (\<lambda>(k, v). fn k v) m" for acc
    by (induction m arbitrary: acc) auto
  then show ?thesis by (simp add: mapUtils_map_def)
qed

lemma mapUtils_pickFirst_eq: "mapUtils_pickFirst m = (case m of [] \<Rightarrow> None | (k, v) # _ \<Rightarrow> Some v)"
  by (cases m) (auto simp: mapUtils_pickFirst_def)

text \<open>What callers of a counter rely on: going back undoes going forward.\<close>

locale counter =
  fixes inc dec :: "'s \<Rightarrow> 's \<Rightarrow> 's" and stp :: 's
  assumes dec_inc: "dec (inc a stp) stp = a"
begin

lemma rewind_advance:
  assumes "ad_inc ad = inc" "ad_dec ad = dec" "ad_step ad = stp"
    and "advancer_advance k ad = (v, ad1)" "advancer_rewind k ad1 = (w, ad2)"
  shows "w = v \<and> (\<forall>k'. advancer_current k' ad2 = advancer_current k' ad)"
  using assms dec_inc by (cases ad) (auto simp: advancer_advance_def advancer_rewind_def advancer_current_def Let_def split: option.splits if_splits)

end

interpretation int_counter: counter "\<lambda>a b. a + b" "\<lambda>a b. a - b" stp for stp :: int
  by unfold_locales simp

lemma advancer_new_round_trip:
  "advancer_advance k (advancer_new stp iv) = (v, ad1) \<Longrightarrow> advancer_rewind k ad1 = (w, ad2) \<Longrightarrow> w = v"
  using int_counter.rewind_advance [of "advancer_new stp iv" stp k v ad1 w ad2] by (simp add: advancer_new_def)

lemma numberWithCommas_eq:
  "numberWithCommas str =
     concat (map (\<lambda>i. if 0 < i \<and> (length str - i) mod 3 = 0 then [CHR '','', str ! i] else [str ! i]) [0..<length str])"
proof -
  have place: "i mod 3 = n mod 3 \<longleftrightarrow> (n - i) mod 3 = 0" if "i < n" for i n :: nat
    using that mod_eq_dvd_iff_nat [of i n 3] by (auto simp: mod_eq_0_iff_dvd)
  have "fold (\<lambda>i formatted. (if 0 < i \<and> i mod 3 = length str mod 3 then formatted @ '','' else formatted) @ [str ! i]) is acc =
      acc @ concat (map (\<lambda>i. if 0 < i \<and> i mod 3 = length str mod 3 then [CHR '','', str ! i] else [str ! i]) is)" for "is" acc
    by (induction "is" arbitrary: acc) auto
  then have "numberWithCommas str =
      concat (map (\<lambda>i. if 0 < i \<and> i mod 3 = length str mod 3 then [CHR '','', str ! i] else [str ! i]) [0..<length str])"
    by (simp add: numberWithCommas_def Let_def)
  also have "\<dots> =
      concat (map (\<lambda>i. if 0 < i \<and> (length str - i) mod 3 = 0 then [CHR '','', str ! i] else [str ! i]) [0..<length str])"
    by (intro arg_cong [where f = concat] map_cong refl) (simp add: place)
  finally show ?thesis .
qed

lemma count_step:
  fixes A B C n k k' :: nat
  assumes "B = C + (if P then 1 else 0)" "B \<le> A" "k = n + (A - B)" "k' = k + (if P then 2 else 1)"
  shows "k' = Suc n + (A - C)"
  using assms by (auto split: if_splits)

text \<open>the separators are all that \<open>numberWithCommas\<close> adds, one before every group of three characters
  counted from the end; a sign counts as a character, so that \<open>-123\<close> becomes \<open>-,123\<close>.\<close>

theorem numberWithCommas_spec:
  "(CHR '','' \<notin> set str \<longrightarrow> filter (\<lambda>c. c \<noteq> CHR '','') (numberWithCommas str) = str)
    \<and> length (numberWithCommas str) = length str + (length str - 1) div 3
    \<and> numberWithCommas ''-123'' = ''-,123''"
proof (intro conjI impI)
  assume clean: "CHR '','' \<notin> set str"
  have "filter (\<lambda>c. c \<noteq> CHR '','') (numberWithCommas str) = concat (map (\<lambda>i. [str ! i]) [0..<length str])"
    unfolding numberWithCommas_eq filter_concat map_map
    using clean by (intro arg_cong [where f = concat] map_cong refl) (auto simp: in_set_conv_nth)
  also have "\<dots> = map (\<lambda>i. str ! i) [0..<length str]" by (rule concat_map_singleton)
  finally show "filter (\<lambda>c. c \<noteq> CHR '','') (numberWithCommas str) = str" by (simp add: map_nth)
next
  have count: "(\<Sum>i \<leftarrow> [0..<n]. if 0 < i \<and> (m - i) mod 3 = 0 then 2 else 1) =
      n + ((m - 1) div 3 - (m - n) div 3)" if "n \<le> m" "0 < n" for n m :: nat
    using that
  proof (induction n)
    case (Suc n)
    show ?case
    proof (cases "n = 0")
      case False
      have step_down: "Suc (m - Suc n) = m - n" using Suc.prems by simp
      then have d: "(m - n) div 3 = (m - Suc n) div 3 + (if (m - n) mod 3 = 0 then 1 else 0)"
        using div_Suc [of "m - Suc n" 3] unfolding step_down by simp
      have le: "(m - n) div 3 \<le> (m - 1) div 3" using False by (intro div_le_mono) simp
      have ih: "(\<Sum>i \<leftarrow> [0..<n]. if 0 < i \<and> (m - i) mod 3 = 0 then 2 else 1) =
          n + ((m - 1) div 3 - (m - n) div 3)"
        using Suc.IH Suc.prems False by simp
      have "(\<Sum>i \<leftarrow> [0..<Suc n]. if 0 < i \<and> (m - i) mod 3 = 0 then 2 else 1) =
          (\<Sum>i \<leftarrow> [0..<n]. if 0 < i \<and> (m - i) mod 3 = 0 then 2 else 1) + (if (m - n) mod 3 = 0 then 2 else 1)"
        using False by (simp only: upt_Suc map_append sum_list_append if_True le0) simp
      from count_step [OF d le ih this] show ?thesis .
    qed simp
  qed simp
  have "length (numberWithCommas str) =
      (\<Sum>i \<leftarrow> [0..<length str]. if 0 < i \<and> (length str - i) mod 3 = 0 then 2 else 1)"
    unfolding numberWithCommas_eq length_concat map_map
    by (intro arg_cong [where f = sum_list] map_cong refl) simp
  then show "length (numberWithCommas str) = length str + (length str - 1) div 3"
    using count [of "length str" "length str"] by (cases "str = []") simp_all
  show "numberWithCommas ''-123'' = ''-,123''" by code_simp
qed

end
