(* ===== verification/Arrows.thy ===== *)
theory Arrows
  imports Geometry Iter_Tools
begin

text \<open>
  \<open>src/ui-layer/service-map/coordinates/arrow.ts\<close>, \<open>arrows.ts\<close> and \<open>helpers\<close>, with \<open>src/ui/layout/abstract/arrows.ts\<close>
  and \<open>src/domain/ids.ts\<close>: the arrows between the cards.  An arrow holds the object with the coordinates of its
  connector, which is moved after the arrow was made; here such a point refers to the connector by its identifier
  (\<open>PointOf\<close>).  The map of combined arrows likewise refers to the arrow that owns a small arrow.
\<close>

section \<open>Connectors\<close>

abbreviation connectorGap :: rat where "connectorGap \<equiv> 50"
abbreviation connectorCardStartGap :: rat where "connectorCardStartGap \<equiv> 40"
abbreviation connectorCardEndGap :: rat where "connectorCardEndGap \<equiv> 120"
abbreviation arrowStartTopOffset :: rat where "arrowStartTopOffset \<equiv> 50"
abbreviation arrowOverlapGap :: int where "arrowOverlapGap \<equiv> 20"
abbreviation aroundCardPad :: int where "aroundCardPad \<equiv> 40"

definition ids_cardConnector :: "string \<Rightarrow> string list \<Rightarrow> string" where
  "ids_cardConnector cardId accessPointIds =
     ''cnctr-'' @ cardId @ ''-('' @ join_with ''/'' (js_sort str_compare accessPointIds) @ '')''"

record connector_accumulator =
  cc_ids :: "(string, string list) js_map"
  cc_coords :: "(string, xy) js_map"

definition accumulator_new :: connector_accumulator where
  "accumulator_new = \<lparr>cc_ids = [], cc_coords = []\<rparr>"

definition accumulator_accumulate ::
  "link_connections \<Rightarrow> (string, xy) js_map \<Rightarrow> (string, xywh) js_map \<Rightarrow> string \<Rightarrow> string \<Rightarrow> connector_accumulator \<Rightarrow>
   string option \<times> connector_accumulator" where
  "accumulator_accumulate conns midPoints bboxes senderId receiverId acc =
     (case (map_get bboxes senderId, map_get bboxes receiverId, map_get (get_or_empty (lc_outgoings conns) senderId) receiverId) of
        (Some _, Some receiverBBox, Some aps) \<Rightarrow>
          (let connectorId = ids_cardConnector receiverId (map_keys aps)
           in if map_has (cc_coords acc) connectorId then (Some connectorId, acc)
              else (let connectors = or_empty (map_get (cc_ids acc) receiverId);
                        connectorIdx = length connectors;
                        connectors' = set_add connectorId connectors
                    in case map_get midPoints receiverId of
                         None \<Rightarrow>
                           (None, if map_has (cc_ids acc) receiverId
                                  then acc\<lparr>cc_ids := map_set receiverId connectors' (cc_ids acc)\<rparr> else acc)
                       | Some midPoint \<Rightarrow>
                           (Some connectorId,
                            acc\<lparr>cc_ids := map_set receiverId connectors' (cc_ids acc),
                                cc_coords := map_set connectorId
                                  \<lparr>cx = js_sub (gx receiverBBox) connectorCardEndGap,
                                   cy = js_add (cy (vec2_clone 0 0 midPoint)) (js_mul (of_nat connectorIdx) connectorGap)\<rparr>
                                  (cc_coords acc)\<rparr>)))
      | _ \<Rightarrow> (None, acc))"

text \<open>The objects with the coordinates are changed where they are.\<close>

definition adjust_connector :: "nat \<Rightarrow> string \<Rightarrow> (string, xy) js_map \<Rightarrow> (string, xy) js_map" where
  "adjust_connector n connectorId coords =
     (case map_get coords connectorId of
        None \<Rightarrow> coords
      | Some p \<Rightarrow>
          (let gutHeight = js_mul (of_int (int n - 1)) connectorGap
           in map_set connectorId (p\<lparr>cy := js_sub (cy p) (js_div gutHeight 2)\<rparr>) coords))"

definition accumulator_adjustVertically :: "connector_accumulator \<Rightarrow> connector_accumulator" where
  "accumulator_adjustVertically acc =
     acc\<lparr>cc_coords := fold (\<lambda>(cardId, connectorIds). fold (adjust_connector (length connectorIds)) connectorIds)
       (cc_ids acc) (cc_coords acc)\<rparr>"

section \<open>Arrows\<close>

datatype point_ref = PointAt xy | PointOf string

definition point_resolve :: "(string, xy) js_map \<Rightarrow> point_ref \<Rightarrow> xy" where
  "point_resolve coords p =
     (case p of PointAt v \<Rightarrow> v | PointOf c \<Rightarrow> (case map_get coords c of None \<Rightarrow> vec2_zero | Some v \<Rightarrow> v))"

record ap_arrow =
  aa_connectorId :: "string option"
  aa_accessPointId :: "string option"
  aa_verdicts :: "verdict list"
  aa_authTypes :: "auth_type list"
  aa_isEncrypted :: bool
  aa_points :: "point_ref list"

definition apArrow_new :: ap_arrow where
  "apArrow_new = \<lparr>aa_connectorId = None, aa_accessPointId = None, aa_verdicts = [], aa_authTypes = [],
     aa_isEncrypted = False, aa_points = []\<rparr>"

definition apArrow_fromConnector :: "string \<Rightarrow> ap_arrow \<Rightarrow> ap_arrow" where
  "apArrow_fromConnector connectorId a = a\<lparr>aa_connectorId := Some connectorId\<rparr>"

definition apArrow_toAccessPoint :: "string \<Rightarrow> ap_arrow \<Rightarrow> ap_arrow" where
  "apArrow_toAccessPoint accessPointId a = a\<lparr>aa_accessPointId := Some accessPointId\<rparr>"

definition apArrow_addVerdicts :: "verdict list \<Rightarrow> ap_arrow \<Rightarrow> ap_arrow" where
  "apArrow_addVerdicts verdicts a = a\<lparr>aa_verdicts := set_add_all verdicts (aa_verdicts a)\<rparr>"

definition apArrow_setEncryption :: "bool \<Rightarrow> ap_arrow \<Rightarrow> ap_arrow" where
  "apArrow_setEncryption encryption a = (if aa_isEncrypted a then a else a\<lparr>aa_isEncrypted := encryption\<rparr>)"

definition apArrow_addAuthTypes :: "auth_type list \<Rightarrow> ap_arrow \<Rightarrow> ap_arrow" where
  "apArrow_addAuthTypes authTypes a = a\<lparr>aa_authTypes := set_add_all authTypes (aa_authTypes a)\<rparr>"

definition apArrow_addPoint :: "point_ref \<Rightarrow> ap_arrow \<Rightarrow> ap_arrow" where
  "apArrow_addPoint p a = a\<lparr>aa_points := aa_points a @ [p]\<rparr>"

definition apArrow_id :: "ap_arrow \<Rightarrow> string" where
  "apArrow_id a =
     (case aa_connectorId a of None \<Rightarrow> [] | Some c \<Rightarrow> c) @ '' -> '' @ (case aa_accessPointId a of None \<Rightarrow> [] | Some c \<Rightarrow> c)"

definition apArrow_hasAbnormalVerdict :: "ap_arrow \<Rightarrow> bool" where
  "apArrow_hasAbnormalVerdict a \<longleftrightarrow> Verdict_Dropped \<in> set (aa_verdicts a) \<or> Verdict_Error \<in> set (aa_verdicts a)"

definition apArrow_hasAuth :: "ap_arrow \<Rightarrow> bool" where
  "apArrow_hasAuth a \<longleftrightarrow> AuthType_Spire \<in> set (aa_authTypes a)"

record map_arrow =
  ma_senderId :: "string option"
  ma_senderBBox :: "xywh option"
  ma_receiverId :: "string option"
  ma_receiverBBox :: "xywh option"
  ma_indicator :: "xy option"
  ma_linkThroughputs :: "link_throughput list"
  ma_accessPointArrows :: "(string, ap_arrow) js_map"
  ma_points :: "point_ref list"

definition mapArrow_new :: map_arrow where
  "mapArrow_new = \<lparr>ma_senderId = None, ma_senderBBox = None, ma_receiverId = None, ma_receiverBBox = None,
     ma_indicator = None, ma_linkThroughputs = [], ma_accessPointArrows = [], ma_points = []\<rparr>"

definition mapArrow_from :: "string \<Rightarrow> xywh option \<Rightarrow> map_arrow \<Rightarrow> map_arrow" where
  "mapArrow_from senderId bbox a = a\<lparr>ma_senderId := Some senderId, ma_senderBBox := bbox\<rparr>"

definition mapArrow_to :: "string \<Rightarrow> xywh option \<Rightarrow> map_arrow \<Rightarrow> map_arrow" where
  "mapArrow_to receiverId bbox a = a\<lparr>ma_receiverId := Some receiverId, ma_receiverBBox := bbox\<rparr>"

definition mapArrow_addPoint :: "point_ref \<Rightarrow> map_arrow \<Rightarrow> map_arrow" where
  "mapArrow_addPoint p a = a\<lparr>ma_points := ma_points a @ [p]\<rparr>"

definition mapArrow_addLinkThroughput :: "link_throughput \<Rightarrow> map_arrow \<Rightarrow> map_arrow" where
  "mapArrow_addLinkThroughput lt a = a\<lparr>ma_linkThroughputs := ma_linkThroughputs a @ [lt]\<rparr>"

text \<open>The new small arrow is put into the map; what is then done to it, \<open>upd\<close>, is done to that object.\<close>

definition mapArrow_addAccessPointArrow :: "string \<Rightarrow> string \<Rightarrow> (ap_arrow \<Rightarrow> ap_arrow) \<Rightarrow> map_arrow \<Rightarrow> map_arrow" where
  "mapArrow_addAccessPointArrow connectorId apId upd a =
     (let apArrow = apArrow_toAccessPoint apId (apArrow_fromConnector connectorId apArrow_new)
      in a\<lparr>ma_accessPointArrows := map_set (apArrow_id apArrow) (upd apArrow) (ma_accessPointArrows a)\<rparr>)"

definition mapArrow_id :: "map_arrow \<Rightarrow> string" where
  "mapArrow_id a =
     (case ma_senderId a of None \<Rightarrow> [] | Some c \<Rightarrow> c) @ '' -> '' @ (case ma_receiverId a of None \<Rightarrow> [] | Some c \<Rightarrow> c)"

definition arrow_start :: "(string, xy) js_map \<Rightarrow> map_arrow \<Rightarrow> xy option" where
  "arrow_start coords a = (case ma_points a of [] \<Rightarrow> None | p # _ \<Rightarrow> Some (point_resolve coords p))"

definition arrow_end :: "(string, xy) js_map \<Rightarrow> map_arrow \<Rightarrow> xy option" where
  "arrow_end coords a = (case rev (ma_points a) of [] \<Rightarrow> None | p # _ \<Rightarrow> Some (point_resolve coords p))"

section \<open>The way around the cards\<close>

record card_offsets =
  co_top :: "(string, int) advancer"
  co_bottom :: "(string, int) advancer"
  co_around :: "(string, int) advancer"

definition createCardOffsetAdvancers :: card_offsets where
  "createCardOffsetAdvancers =
     \<lparr>co_top = advancer_new arrowOverlapGap arrowOverlapGap, co_bottom = advancer_new arrowOverlapGap arrowOverlapGap,
      co_around = advancer_new arrowOverlapGap aroundCardPad\<rparr>"

definition last_or :: "'a \<Rightarrow> 'a list \<Rightarrow> 'a" where
  "last_or d xs = (if xs = [] then d else last xs)"

text \<open>\<open>splice(1, 0, ...)\<close>.\<close>

definition splice_after_first :: "'a list \<Rightarrow> 'a list \<Rightarrow> 'a list" where
  "splice_after_first new xs = take 1 xs @ new @ drop 1 xs"

text \<open>The sharp angle at the connector is removed from a copy of the points, so nothing is removed.\<close>

definition mapArrow_buildPointsAroundSenderAndReceiver ::
  "(string, xy) js_map \<Rightarrow> card_offsets \<Rightarrow> map_arrow \<Rightarrow> map_arrow \<times> card_offsets" where
  "mapArrow_buildPointsAroundSenderAndReceiver coords offsets a =
     (case (arrow_start coords a, arrow_end coords a, ma_senderId a, ma_receiverId a, ma_senderBBox a, ma_receiverBBox a) of
        (Some start, Some endp, Some senderId, Some receiverId, Some senderBBox, Some receiverBBox) \<Rightarrow>
          (let shiftedStart = vec2_add (vec2_fromXY start) \<lparr>cx = connectorCardStartGap, cy = 0\<rparr>;
               shiftedEnd = vec2_sub (vec2_fromXY endp) \<lparr>cx = connectorCardStartGap, cy = 0\<rparr>
           in if \<not> (cx start > cx endp)
              then (a\<lparr>ma_points := splice_after_first [PointAt shiftedStart, PointAt shiftedEnd] (ma_points a)\<rparr>, offsets)
              else
                (let points1 = goAroundTheBox senderBBox shiftedStart shiftedEnd (of_int aroundCardPad) (of_int aroundCardPad);
                     senderPoint = last_or shiftedStart points1;
                     (aroundOffset, around) = advancer_advance receiverId (co_around offsets);
                     pad = js_add (of_int aroundCardPad) (of_int aroundOffset);
                     points2 = goAroundTheBox receiverBBox senderPoint shiftedEnd pad pad
                 in if points2 = []
                    then (a\<lparr>ma_points := splice_after_first
                              (map PointAt ([shiftedStart] @ points1 @ [shiftedEnd])) (ma_points a)\<rparr>,
                          offsets\<lparr>co_around := snd (advancer_rewind receiverId around)\<rparr>)
                    else
                      (let goesDown = cy (last points2) > cy senderPoint;
                           (offset, adv) = advancer_advance receiverId (if goesDown then co_bottom offsets else co_top offsets);
                           x = js_sub (cx endp) (of_int offset);
                           offsets' = offsets\<lparr>co_around := around\<rparr>
                       in (a\<lparr>ma_points := splice_after_first
                               (map PointAt ([shiftedStart] @ points1 @ butlast points2 @ [(last points2)\<lparr>cx := x\<rparr>, shiftedEnd\<lparr>cx := x\<rparr>]))
                               (ma_points a)\<rparr>,
                           if goesDown then offsets'\<lparr>co_bottom := adv\<rparr> else offsets'\<lparr>co_top := adv\<rparr>))))
      | _ \<Rightarrow> (a, offsets))"

definition mapArrow_computeFlowsInfoIndicatorPosition :: "(string, xy) js_map \<Rightarrow> map_arrow \<Rightarrow> map_arrow" where
  "mapArrow_computeFlowsInfoIndicatorPosition coords a =
     (case rev (ma_points a) of
        _ # e # b # _ \<Rightarrow>
          (let shiftedEnd = point_resolve coords e; beforeShiftedEnd = point_resolve coords b;
               indicatorCoords = vec2_normalize (vec2_sub (vec2_fromXY beforeShiftedEnd) shiftedEnd)
           in a\<lparr>ma_indicator := Some (vec2_addInPlace (vec2_fromXY shiftedEnd) (vec2_mul indicatorCoords 20))\<rparr>)
      | _ \<Rightarrow> a)"


section \<open>All arrows\<close>

text \<open>What the arrows are made from: the current frame, the shared state, and the places of things.\<close>

record arrow_env =
  av_frame :: store_frame
  av_shared :: shared_state
  av_placement :: placement_store
  av_url :: "string \<Rightarrow> parsed_url"

abbreviation av_connections :: "arrow_env \<Rightarrow> link_connections" where
  "av_connections env \<equiv> interaction_connections (sf_interactions (av_frame env))"

definition connectorMidPoint :: "arrow_env \<Rightarrow> service_card \<Rightarrow> xy" where
  "connectorMidPoint env crd =
     (let place = av_placement env;
          aps = fold (\<lambda>(_, ap) p. case map_get (ps_accessPointCoords place) (serviceEndpoint_id ap) of
              None \<Rightarrow> p | Some coords \<Rightarrow> vec2_addInPlace p coords)
            (sc_accessPoints crd) vec2_zero;
          n = length (sc_accessPoints crd);
          (total, nPoints) =
            (case map_get (ps_httpEndpointCoords place) (card_id crd) of
               None \<Rightarrow> (aps, n)
             | Some urls \<Rightarrow>
                 if controls_areSomeFilterEntriesEnabled (card_filterEntries crd) (sh_controls (av_shared env))
                 then fold (\<lambda>(_, methods) (p, k). (fold (\<lambda>(_, coords) p. vec2_addInPlace p coords) methods p, k + length methods))
                   urls (aps, n)
                 else (aps, n))
      in vec2_mul total (js_div 1 (of_nat nPoints)))"

definition connectorMidPoints :: "arrow_env \<Rightarrow> (string, xy) js_map" where
  "connectorMidPoints env =
     fold (\<lambda>crd index. if sc_accessPoints crd = [] then index else map_set (card_id crd) (connectorMidPoint env crd) index)
       (sf_services (av_frame env)) []"

text \<open>The small arrows of one link, then those of the HTTP endpoints of its receiver.\<close>

definition add_http_arrow ::
  "arrow_env \<Rightarrow> string \<Rightarrow> string \<Rightarrow> link \<Rightarrow> string \<Rightarrow> http_verb \<Rightarrow> xy \<Rightarrow> map_arrow \<Rightarrow> map_arrow" where
  "add_http_arrow env connectorId receiverId l urlPath method p a =
     (case interaction_getHttpEndpointByParts (sf_interactions (av_frame env)) receiverId
             (int_to_string (link_destinationPort l)) (Some method) urlPath of
        None \<Rightarrow> a
      | Some ep \<Rightarrow>
          mapArrow_addAccessPointArrow connectorId (l7Endpoint_id (av_url env) ep)
            (\<lambda>ap. apArrow_addPoint (PointAt p) (apArrow_addPoint (PointOf connectorId)
              (apArrow_setEncryption (lk_isEncrypted l) (apArrow_addAuthTypes (lk_authTypes l)
                (apArrow_addVerdicts (l7e_verdicts ep) ap))))) a)"

definition add_link_arrows ::
  "arrow_env \<Rightarrow> string \<Rightarrow> string \<Rightarrow> (string, (http_verb, xy) js_map) js_map option \<Rightarrow> string \<times> link \<Rightarrow> map_arrow \<Rightarrow> map_arrow" where
  "add_link_arrows env connectorId receiverId endpoints apl a =
     (let (apId, l) = apl
      in case map_get (ps_accessPointCoords (av_placement env)) apId of
           None \<Rightarrow> a
         | Some coords \<Rightarrow>
             (let a1 = mapArrow_addAccessPointArrow connectorId apId
                   (\<lambda>ap. apArrow_addPoint (PointAt coords) (apArrow_addPoint (PointOf connectorId)
                     (apArrow_setEncryption (lk_isEncrypted l) (apArrow_addAuthTypes (lk_authTypes l)
                       (apArrow_addVerdicts (lk_verdicts l) ap)))))
                   (mapArrow_addLinkThroughput (link_throughput (sh_counters (av_shared env)) l) a)
              in case endpoints of
                   None \<Rightarrow> a1
                 | Some urls \<Rightarrow>
                     fold (\<lambda>(urlPath, methods). fold (\<lambda>(method, p). add_http_arrow env connectorId receiverId l urlPath method p) methods)
                       urls a1))"

definition build_arrow ::
  "arrow_env \<Rightarrow> (string, xywh) js_map \<Rightarrow> string \<Rightarrow> xywh \<Rightarrow> string \<times> (string, link) js_map \<Rightarrow>
   (string, map_arrow) js_map \<times> connector_accumulator \<Rightarrow> (string, map_arrow) js_map \<times> connector_accumulator" where
  "build_arrow env bboxes senderId senderBBox receiver s =
     (let (arrows, acc) = s; (receiverId, aps) = receiver
      in case (map_get bboxes receiverId, services_byId (sf_services (av_frame env)) receiverId) of
           (Some receiverBBox, Some receiverCard) \<Rightarrow>
             (let arrow = mapArrow_to receiverId (Some receiverBBox) (mapArrow_from senderId (Some senderBBox) mapArrow_new);
                  (connector, acc') = accumulator_accumulate (av_connections env) (connectorMidPoints env) bboxes senderId receiverId acc
              in case connector of
                   None \<Rightarrow> (map_set (mapArrow_id arrow) arrow arrows, acc')
                 | Some connectorId \<Rightarrow>
                     (let start = \<lparr>cx = js_add (gx senderBBox) (gw senderBBox), cy = js_add (gy senderBBox) arrowStartTopOffset\<rparr>;
                          arrow1 = mapArrow_addPoint (PointOf connectorId) (mapArrow_addPoint (PointAt start) arrow);
                          endpoints =
                            (if controls_areSomeFilterEntriesEnabled (card_filterEntries receiverCard) (sh_controls (av_shared env))
                             then map_get (ps_httpEndpointCoords (av_placement env)) receiverId else None)
                      in (map_set (mapArrow_id arrow) (fold (add_link_arrows env connectorId receiverId endpoints) aps arrow1) arrows, acc')))
         | _ \<Rightarrow> (arrows, acc))"

definition build_arrows :: "arrow_env \<Rightarrow> (string, map_arrow) js_map \<times> connector_accumulator" where
  "build_arrows env =
     (let bboxes = cardsBBoxes (av_placement env)
      in fold (\<lambda>(senderId, receivers) s.
           case map_get bboxes senderId of None \<Rightarrow> s | Some senderBBox \<Rightarrow> fold (build_arrow env bboxes senderId senderBBox) receivers s)
           (lc_outgoings (av_connections env)) ([], accumulator_new))"

definition finish_arrow ::
  "(string, xy) js_map \<Rightarrow> string \<times> map_arrow \<Rightarrow> (string, map_arrow) js_map \<times> card_offsets \<Rightarrow>
   (string, map_arrow) js_map \<times> card_offsets" where
  "finish_arrow coords ia s =
     (let (arrows, offsets) = s; (arrowId, a) = ia;
          (a', offsets') = mapArrow_buildPointsAroundSenderAndReceiver coords offsets a
      in (arrows @ [(arrowId, mapArrow_computeFlowsInfoIndicatorPosition coords a')], offsets'))"

text \<open>The arrows, with the final coordinates of the connectors they refer to.\<close>

definition arrowsMap :: "arrow_env \<Rightarrow> (string, map_arrow) js_map \<times> (string, xy) js_map" where
  "arrowsMap env =
     (let (arrows, acc) = build_arrows env;
          coords = cc_coords (accumulator_adjustVertically acc)
      in (fst (fold (finish_arrow coords) arrows ([], createCardOffsetAdvancers)), coords))"

section \<open>Small arrows that share a connector\<close>

type_synonym combined_arrows = "(string, (string, string) js_map) js_map"

text \<open>The combined small arrow of a connector and an access point is the one of the first arrow that has it, here the
  identifier of that arrow; the verdicts of the others are added to that object.\<close>

definition combine_one ::
  "string \<Rightarrow> string \<times> ap_arrow \<Rightarrow> combined_arrows \<times> (string, map_arrow) js_map \<Rightarrow> combined_arrows \<times> (string, map_arrow) js_map" where
  "combine_one arrowId ap s =
     (let (combined, arrows) = s; (apArrowId, apArrow) = ap
      in case aa_connectorId apArrow of
           None \<Rightarrow> (combined, arrows)
         | Some connectorId \<Rightarrow>
             (let connectorArrows = get_or_empty combined connectorId
              in case map_get connectorArrows apArrowId of
                   None \<Rightarrow> (map_set connectorId (map_set apArrowId arrowId connectorArrows) combined, arrows)
                 | Some owner \<Rightarrow>
                     (map_set connectorId connectorArrows combined,
                      (case map_get arrows owner of
                         None \<Rightarrow> arrows
                       | Some a \<Rightarrow>
                           (case map_get (ma_accessPointArrows a) apArrowId of
                              None \<Rightarrow> arrows
                            | Some existing \<Rightarrow>
                                map_set owner (a\<lparr>ma_accessPointArrows := map_set apArrowId
                                  (apArrow_addVerdicts (aa_verdicts apArrow) existing) (ma_accessPointArrows a)\<rparr>) arrows)))))"

definition combinedAccessPointArrows :: "(string, map_arrow) js_map \<Rightarrow> combined_arrows \<times> (string, map_arrow) js_map" where
  "combinedAccessPointArrows arrows =
     fold (\<lambda>(arrowId, a). fold (combine_one arrowId) (ma_accessPointArrows a)) arrows ([], arrows)"

record arrow_strategy =
  as_arrows :: "(string, map_arrow) js_map"
  as_combined :: combined_arrows
  as_coords :: "(string, xy) js_map"

definition arrows_new :: arrow_strategy where
  "arrows_new = \<lparr>as_arrows = [], as_combined = [], as_coords = []\<rparr>"

definition arrows_reset :: "arrow_strategy \<Rightarrow> arrow_strategy" where
  "arrows_reset st = st\<lparr>as_arrows := []\<rparr>"

definition arrows_clear :: "arrow_strategy \<Rightarrow> arrow_strategy" where
  "arrows_clear st = st\<lparr>as_arrows := [], as_combined := []\<rparr>"

definition arrows_rebuild :: "arrow_env \<Rightarrow> arrow_strategy \<Rightarrow> arrow_strategy" where
  "arrows_rebuild env st =
     (let st0 = arrows_clear st; (arrows, coords) = arrowsMap env; (combined, arrows') = combinedAccessPointArrows arrows
      in st0\<lparr>as_arrows := arrows', as_combined := combined, as_coords := coords\<rparr>)"


section \<open>Arrows stay attached\<close>

text \<open>What an arrow is after it was built: nothing but its ends, or an arrow to a connector.\<close>

definition small_ok :: "string \<Rightarrow> string \<times> ap_arrow \<Rightarrow> bool" where
  "small_ok connectorId kap \<longleftrightarrow>
     aa_connectorId (snd kap) = Some connectorId \<and> fst kap = apArrow_id (snd kap)
     \<and> (\<exists>q. aa_points (snd kap) = [PointOf connectorId, PointAt q])"

definition attached_arrow :: "string \<Rightarrow> map_arrow \<Rightarrow> bool" where
  "attached_arrow connectorId a \<longleftrightarrow>
     wf_map (ma_accessPointArrows a) \<and> (\<forall>kap \<in> set (ma_accessPointArrows a). small_ok connectorId kap)"

lemma attached_add:
  assumes "attached_arrow c a" "\<And>ap. apArrow_id (upd ap) = apArrow_id ap" "\<And>ap. aa_connectorId (upd ap) = aa_connectorId ap"
    and "\<And>ap. aa_points ap = [] \<Longrightarrow> \<exists>q. aa_points (upd ap) = [PointOf c, PointAt q]"
  shows "attached_arrow c (mapArrow_addAccessPointArrow c apId upd a)"
proof -
  let ?ap = "apArrow_toAccessPoint apId (apArrow_fromConnector c apArrow_new)"
  have "small_ok c (apArrow_id ?ap, upd ?ap)"
    using assms(2-4) [of ?ap] by (simp add: small_ok_def apArrow_toAccessPoint_def apArrow_fromConnector_def apArrow_new_def)
  then show ?thesis
    using assms(1) set_map_set [of "apArrow_id ?ap" "upd ?ap" "ma_accessPointArrows a"]
    by (auto simp: attached_arrow_def mapArrow_addAccessPointArrow_def Let_def)
qed

lemmas ap_arrow_defs = apArrow_addPoint_def apArrow_setEncryption_def apArrow_addAuthTypes_def apArrow_addVerdicts_def apArrow_id_def

lemma attached_http: "attached_arrow c a \<Longrightarrow> attached_arrow c (add_http_arrow env c rid l url method p a)"
  unfolding add_http_arrow_def by (cases "interaction_getHttpEndpointByParts (sf_interactions (av_frame env)) rid
             (int_to_string (link_destinationPort l)) (Some method) url")
    (auto intro!: attached_add simp: ap_arrow_defs)

lemma attached_fold:
  "(\<And>x a. attached_arrow c a \<Longrightarrow> attached_arrow c (f x a)) \<Longrightarrow> attached_arrow c a \<Longrightarrow> attached_arrow c (fold f xs a)"
  by (induction xs arbitrary: a) auto

lemma attached_link: "attached_arrow c a \<Longrightarrow> attached_arrow c (add_link_arrows env c rid endpoints apl a)"
proof -
  assume a: "attached_arrow c a"
  have th: "attached_arrow c (mapArrow_addLinkThroughput lt a)" for lt
    using a by (simp add: attached_arrow_def mapArrow_addLinkThroughput_def)
  show ?thesis
    unfolding add_link_arrows_def Let_def
    by (auto split: prod.splits option.splits intro!: a attached_fold attached_http attached_add th simp: ap_arrow_defs)
qed

lemma add_http_points [simp]:
  "ma_points (add_http_arrow env c rid l url method p a) = ma_points a"
  "ma_senderId (add_http_arrow env c rid l url method p a) = ma_senderId a"
  "ma_receiverId (add_http_arrow env c rid l url method p a) = ma_receiverId a"
  "ma_senderBBox (add_http_arrow env c rid l url method p a) = ma_senderBBox a"
  "ma_receiverBBox (add_http_arrow env c rid l url method p a) = ma_receiverBBox a"
  by (simp_all add: add_http_arrow_def mapArrow_addAccessPointArrow_def Let_def split: option.split)

lemma fold_keeps: "(\<And>x a. g (f x a) = g a) \<Longrightarrow> g (fold f xs a) = g a"
  by (induction xs arbitrary: a) auto

lemma add_link_points [simp]:
  "ma_points (add_link_arrows env c rid endpoints apl a) = ma_points a"
  "ma_senderId (add_link_arrows env c rid endpoints apl a) = ma_senderId a"
  "ma_receiverId (add_link_arrows env c rid endpoints apl a) = ma_receiverId a"
  "ma_senderBBox (add_link_arrows env c rid endpoints apl a) = ma_senderBBox a"
  "ma_receiverBBox (add_link_arrows env c rid endpoints apl a) = ma_receiverBBox a"
  by (simp_all add: add_link_arrows_def Let_def fold_keeps mapArrow_addAccessPointArrow_def mapArrow_addLinkThroughput_def
      split: prod.split option.split)


definition arrow_origin :: "xywh \<Rightarrow> xy" where
  "arrow_origin b = \<lparr>cx = js_add (gx b) (gw b), cy = js_add (gy b) arrowStartTopOffset\<rparr>"

text \<open>The cards an arrow belongs to, and its connector.\<close>

definition arrow_cards :: "arrow_env \<Rightarrow> map_arrow \<Rightarrow> string \<Rightarrow> string \<Rightarrow> xywh \<Rightarrow> bool" where
  "arrow_cards env a senderId receiverId b \<longleftrightarrow>
     ma_senderId a = Some senderId \<and> ma_receiverId a = Some receiverId \<and> ma_senderBBox a = Some b
     \<and> map_get (cardsBBoxes (av_placement env)) senderId = Some b"

definition arrow_connector :: "arrow_env \<Rightarrow> string \<Rightarrow> string \<Rightarrow> string \<Rightarrow> bool" where
  "arrow_connector env senderId receiverId c \<longleftrightarrow>
     (\<exists>aps. map_get (get_or_empty (lc_outgoings (av_connections env)) senderId) receiverId = Some aps
        \<and> c = ids_cardConnector receiverId (map_keys aps))"

definition arrow_built :: "arrow_env \<Rightarrow> connector_accumulator \<Rightarrow> string \<times> map_arrow \<Rightarrow> bool" where
  "arrow_built env acc ia \<longleftrightarrow>
     fst ia = mapArrow_id (snd ia)
     \<and> (\<exists>senderId receiverId b. arrow_cards env (snd ia) senderId receiverId b
          \<and> (ma_points (snd ia) = [] \<and> ma_accessPointArrows (snd ia) = []
             \<or> (\<exists>c. ma_points (snd ia) = [PointAt (arrow_origin b), PointOf c] \<and> attached_arrow c (snd ia)
                  \<and> map_has (cc_coords acc) c \<and> arrow_connector env senderId receiverId c)))"

definition acc_le :: "connector_accumulator \<Rightarrow> connector_accumulator \<Rightarrow> bool" where
  "acc_le acc acc' \<longleftrightarrow> (\<forall>k. map_has (cc_coords acc) k \<longrightarrow> map_has (cc_coords acc') k)"

lemma accumulate_grows: "acc_le acc (snd (accumulator_accumulate conns mids bboxes s r acc))"
  by (auto simp: acc_le_def accumulator_accumulate_def Let_def split: option.splits)

lemma accumulate_result:
  assumes "accumulator_accumulate conns mids bboxes s r acc = (Some c, acc')"
  shows "map_has (cc_coords acc') c"
    and "\<exists>aps. map_get (get_or_empty (lc_outgoings conns) s) r = Some aps \<and> c = ids_cardConnector r (map_keys aps)"
  using assms by (auto simp: accumulator_accumulate_def Let_def split: option.splits if_splits)

lemma arrow_built_grows:
  assumes "arrow_built env acc ia" "acc_le acc acc'"
  shows "arrow_built env acc' ia"
  using assms unfolding arrow_built_def acc_le_def by blast

definition built_inv :: "arrow_env \<Rightarrow> (string, map_arrow) js_map \<times> connector_accumulator \<Rightarrow> bool" where
  "built_inv env s \<longleftrightarrow> wf_map (fst s) \<and> (\<forall>ia \<in> set (fst s). arrow_built env (snd s) ia)"

lemma built_inv_set:
  assumes "built_inv env (arrows, acc)" "acc_le acc acc'"
    and "arrow_built env acc' (i, a)"
  shows "built_inv env (map_set i a arrows, acc')"
proof -
  have "arrow_built env acc' ia" if "ia \<in> set arrows" for ia
    using that assms(1) arrow_built_grows [OF _ assms(2)] by (auto simp: built_inv_def)
  moreover have "wf_map (map_set i a arrows)" using assms(1) by (simp add: built_inv_def)
  ultimately show ?thesis using assms(3) set_map_set [of i a arrows] unfolding built_inv_def fst_conv snd_conv by blast
qed

lemma built_inv_grow:
  assumes "built_inv env (arrows, acc)" "acc_le acc acc'"
  shows "built_inv env (arrows, acc')"
  using assms arrow_built_grows [OF _ assms(2)] by (auto simp: built_inv_def)

lemma built_inv_arrow:
  assumes "built_inv env s" "map_get (cardsBBoxes (av_placement env)) sid = Some b"
  shows "built_inv env (build_arrow env (cardsBBoxes (av_placement env)) sid b receiver s)"
proof -
  obtain arrows acc where s: "s = (arrows, acc)" by fastforce
  obtain rid aps where r: "receiver = (rid, aps)" by fastforce
  show ?thesis
  proof (cases "map_get (cardsBBoxes (av_placement env)) rid = None \<or> services_byId (sf_services (av_frame env)) rid = None")
    case True
    then show ?thesis using assms(1) by (auto simp: build_arrow_def s r split: option.split)
  next
    case False
    obtain rb where rb1: "map_get (cardsBBoxes (av_placement env)) rid = Some rb" using False by auto
    obtain crd where rb2: "services_byId (sf_services (av_frame env)) rid = Some crd" using False by auto
    note rb = rb1 rb2
    obtain con acc' where acc': "accumulator_accumulate (av_connections env) (connectorMidPoints env)
        (cardsBBoxes (av_placement env)) sid rid acc = (con, acc')" by fastforce
    have grows: "acc_le acc acc'"
      using accumulate_grows [of acc "av_connections env" "connectorMidPoints env" "cardsBBoxes (av_placement env)" sid rid]
      by (simp add: acc')
    let ?a = "mapArrow_to rid (Some rb) (mapArrow_from sid (Some b) mapArrow_new)"
    have a: "mapArrow_id ?a = sid @ '' -> '' @ rid" "ma_points ?a = []" "ma_accessPointArrows ?a = []" "ma_senderId ?a = Some sid"
        "ma_receiverId ?a = Some rid" "ma_senderBBox ?a = Some b"
      by (simp_all add: mapArrow_id_def mapArrow_to_def mapArrow_from_def mapArrow_new_def)
    show ?thesis
    proof (cases con)
      case None
      have "arrow_built env acc' (mapArrow_id ?a, ?a)"
        unfolding arrow_built_def arrow_cards_def using assms(2) a by simp
      then show ?thesis
        using built_inv_set [OF _ grows] assms(1) by (simp add: build_arrow_def s r rb acc' None Let_def)
    next
      case (Some c)
      note res = accumulate_result [OF acc' [unfolded Some]]
      define endpoints where "endpoints =
        (if controls_areSomeFilterEntriesEnabled (card_filterEntries crd) (sh_controls (av_shared env))
         then map_get (ps_httpEndpointCoords (av_placement env)) rid else None)"
      define a1 where "a1 = mapArrow_addPoint (PointOf c) (mapArrow_addPoint (PointAt (arrow_origin b)) ?a)"
      define a2 where "a2 = fold (add_link_arrows env c rid endpoints) aps a1"
      have a1: "ma_points a1 = [PointAt (arrow_origin b), PointOf c]" "ma_senderId a1 = Some sid" "ma_receiverId a1 = Some rid"
          "ma_senderBBox a1 = Some b" "attached_arrow c a1"
        using a by (simp_all add: a1_def mapArrow_addPoint_def attached_arrow_def)
      have a2: "ma_points a2 = [PointAt (arrow_origin b), PointOf c]" "ma_senderId a2 = Some sid" "ma_receiverId a2 = Some rid"
          "ma_senderBBox a2 = Some b" "attached_arrow c a2"
        unfolding a2_def using a1 by (simp_all add: fold_keeps attached_fold attached_link)
      have "arrow_built env acc' (mapArrow_id ?a, a2)"
        unfolding arrow_built_def arrow_cards_def arrow_connector_def fst_conv snd_conv
        using assms(2) a(1) a2 res by (auto simp: mapArrow_id_def)
      moreover have "build_arrow env (cardsBBoxes (av_placement env)) sid b receiver s = (map_set (mapArrow_id ?a) a2 arrows, acc')"
        by (simp add: build_arrow_def s r rb acc' Some Let_def a2_def a1_def endpoints_def arrow_origin_def)
      ultimately show ?thesis using built_inv_set [OF _ grows] assms(1) by (simp add: s)
    qed
  qed
qed

lemma built_inv_arrows: "built_inv env (build_arrows env)"
proof -
  let ?bb = "cardsBBoxes (av_placement env)"
  have inner: "built_inv env s \<Longrightarrow> map_get ?bb sid = Some b \<Longrightarrow> built_inv env (fold (build_arrow env ?bb sid b) receivers s)"
    for s sid b receivers
    by (induction receivers arbitrary: s) (simp_all add: built_inv_arrow)
  have "built_inv env s \<Longrightarrow> built_inv env (fold (\<lambda>(sid, receivers) s. case map_get ?bb sid of None \<Rightarrow> s
      | Some b \<Rightarrow> fold (build_arrow env ?bb sid b) receivers s) outs s)" for s outs
    by (induction outs arbitrary: s) (auto simp: inner split: option.split prod.split)
  then show ?thesis unfolding build_arrows_def Let_def by (auto simp: built_inv_def)
qed


lemma adjust_keeps_keys: "map_get (adjust_connector n c coords) k = None \<longleftrightarrow> map_get coords k = None"
  by (auto simp: adjust_connector_def Let_def split: option.split)

lemma fold_keeps_keys:
  "(\<And>x m. map_get (f x m) k = None \<longleftrightarrow> map_get m k = None) \<Longrightarrow> map_get (fold f xs m) k = None \<longleftrightarrow> map_get m k = None"
  by (induction xs arbitrary: m) simp_all

lemma adjustVertically_keeps_keys: "map_get (cc_coords (accumulator_adjustVertically acc)) k = None \<longleftrightarrow> map_get (cc_coords acc) k = None"
  unfolding accumulator_adjustVertically_def
  by (simp add: fold_keeps_keys adjust_keeps_keys split_def)

text \<open>Leading an arrow around the cards leaves its ends and its small arrows alone.\<close>

definition same_ends :: "map_arrow \<Rightarrow> map_arrow \<Rightarrow> bool" where
  "same_ends a a' \<longleftrightarrow>
     (ma_points a' = ma_points a \<or> ma_points a \<noteq> [] \<and> (\<exists>new. ma_points a' = splice_after_first new (ma_points a)))
     \<and> ma_senderId a' = ma_senderId a \<and> ma_receiverId a' = ma_receiverId a \<and> ma_senderBBox a' = ma_senderBBox a
     \<and> ma_accessPointArrows a' = ma_accessPointArrows a"

lemma same_ends_around: "same_ends a (fst (mapArrow_buildPointsAroundSenderAndReceiver coords offsets a))"
proof (cases "ma_points a = []")
  case True
  then show ?thesis by (simp add: mapArrow_buildPointsAroundSenderAndReceiver_def arrow_start_def same_ends_def)
next
  case False
  then show ?thesis
    unfolding mapArrow_buildPointsAroundSenderAndReceiver_def Let_def same_ends_def
    by (auto split: option.split prod.split)
qed

lemma same_ends_indicator: "same_ends a a' \<Longrightarrow> same_ends a (mapArrow_computeFlowsInfoIndicatorPosition coords a')"
  unfolding mapArrow_computeFlowsInfoIndicatorPosition_def Let_def same_ends_def by (auto split: list.split)

definition finished :: "string \<times> map_arrow \<Rightarrow> string \<times> map_arrow \<Rightarrow> bool" where
  "finished ia ia' \<longleftrightarrow> fst ia' = fst ia \<and> same_ends (snd ia) (snd ia')"

lemma finish_arrow_appends: "\<exists>ia'. fst (finish_arrow coords ia s) = fst s @ [ia'] \<and> finished ia ia'"
proof -
  obtain a' offsets' where a': "mapArrow_buildPointsAroundSenderAndReceiver coords (snd s) (snd ia) = (a', offsets')" by fastforce
  have "same_ends (snd ia) (mapArrow_computeFlowsInfoIndicatorPosition coords a')"
    using same_ends_around [of "snd ia" coords "snd s"] by (simp add: a' same_ends_indicator)
  then show ?thesis by (simp add: finish_arrow_def finished_def a' split_def)
qed

lemma finish_arrows: "\<exists>new. fst (fold (finish_arrow coords) arrows s) = fst s @ new \<and> list_all2 finished arrows new"
proof (induction arrows arbitrary: s)
  case (Cons ia arrows)
  obtain ia' where ia': "fst (finish_arrow coords ia s) = fst s @ [ia']" "finished ia ia'"
    using finish_arrow_appends [of coords ia s] by blast
  obtain new where "fst (fold (finish_arrow coords) arrows (finish_arrow coords ia s)) = fst (finish_arrow coords ia s) @ new"
      "list_all2 finished arrows new"
    using Cons.IH [of "finish_arrow coords ia s"] by blast
  then show ?case using ia' by (intro exI [of _ "ia' # new"]) simp
qed simp

lemma arrowsMap_finishes: "list_all2 finished (fst (build_arrows env)) (fst (arrowsMap env))"
  using finish_arrows [of _ "fst (build_arrows env)" "([], createCardOffsetAdvancers)"]
  by (auto simp: arrowsMap_def Let_def split_def)

lemma list_all2_mem2: "list_all2 P xs ys \<Longrightarrow> y \<in> set ys \<Longrightarrow> \<exists>x \<in> set xs. P x y"
  by (induction rule: list_all2_induct) auto

lemma same_ends_points: "same_ends a a' \<Longrightarrow> ma_points a' = [] \<longleftrightarrow> ma_points a = []"
  by (auto simp: same_ends_def splice_after_first_def)

text \<open>C34: every arrow with points starts below the top right corner of the card of its sender and ends where the
  connector of its receiver was finally put, although the connector moved after the arrow was made; its small
  arrows start there too.\<close>

theorem arrows_are_attached:
  assumes "arrowsMap env = (arrows, coords)" and "(i, a) \<in> set arrows" and "ma_points a \<noteq> []"
  shows "\<exists>senderId receiverId b c p. arrow_cards env a senderId receiverId b \<and> arrow_connector env senderId receiverId c
    \<and> map_get coords c = Some p \<and> arrow_start coords a = Some (arrow_origin b) \<and> arrow_end coords a = Some p
    \<and> (\<forall>(k, ap) \<in> set (ma_accessPointArrows a). \<exists>q. map (point_resolve coords) (aa_points ap) = [p, q])"
proof -
  obtain built acc where b: "build_arrows env = (built, acc)" by fastforce
  have inv: "built_inv env (built, acc)" using built_inv_arrows [of env] by (simp add: b)
  have coords: "coords = cc_coords (accumulator_adjustVertically acc)"
    using assms(1) by (simp add: arrowsMap_def b Let_def)
  obtain a0 where a0: "(i, a0) \<in> set built" "same_ends a0 a"
    using list_all2_mem2 [OF arrowsMap_finishes [of env], of "(i, a)"] assms(1,2) by (auto simp: b finished_def)
  have "arrow_built env acc (i, a0)" using inv a0(1) by (auto simp: built_inv_def)
  moreover have "ma_points a0 \<noteq> []" using same_ends_points [OF a0(2)] assms(3) by simp
  ultimately obtain s r bb c where c: "arrow_cards env a0 s r bb" "ma_points a0 = [PointAt (arrow_origin bb), PointOf c]"
      "attached_arrow c a0" "map_has (cc_coords acc) c" "arrow_connector env s r c"
    unfolding arrow_built_def by auto
  have "map_has coords c" using c(4) adjustVertically_keeps_keys [of acc c] by (auto simp: coords)
  then obtain p where p: "map_get coords c = Some p" by blast
  have "\<exists>new. ma_points a = PointAt (arrow_origin bb) # new @ [PointOf c]"
    using a0(2) c(2) by (auto simp: same_ends_def splice_after_first_def)
  then have "arrow_start coords a = Some (arrow_origin bb)" "arrow_end coords a = Some p"
    by (auto simp: arrow_start_def arrow_end_def point_resolve_def p)
  moreover have "arrow_cards env a s r bb" using c(1) a0(2) by (simp add: arrow_cards_def same_ends_def)
  moreover have "\<exists>q. map (point_resolve coords) (aa_points ap) = [p, q]" if "(k, ap) \<in> set (ma_accessPointArrows a)" for k ap
  proof -
    have "small_ok c (k, ap)" using that c(3) a0(2) by (simp add: same_ends_def attached_arrow_def)
    then show ?thesis by (auto simp: small_ok_def point_resolve_def p)
  qed
  ultimately show ?thesis using c(5) p by blast
qed


definition demo_arrow_env :: arrow_env where
  "demo_arrow_env =
     \<lparr>av_frame = demo_placement_frame, av_shared = ms_shared demo_placement_state,
      av_placement = placement_new\<lparr>
        ps_cardsXYs := [(''1'', \<lparr>cx = 0, cy = 0\<rparr>), (''2'', \<lparr>cx = 900, cy = 100\<rparr>)],
        ps_cardsWHs := [(''1'', \<lparr>dw = 560, dh = 240\<rparr>), (''2'', \<lparr>dw = 560, dh = 200\<rparr>)],
        ps_accessPointCoords := [(link_apId demo_link, \<lparr>cx = 940, cy = 180\<rparr>)]\<rparr>,
      av_url = demo_url\<rparr>"

lemma demo_built: "map (\<lambda>(i, a). length (ma_points a)) (fst (build_arrows demo_arrow_env)) = [2]"
  by code_simp

theorem arrows_are_attached_witness:
  "\<exists>a \<in> snd ` set (fst (arrowsMap demo_arrow_env)). \<exists>b p.
     arrow_start (snd (arrowsMap demo_arrow_env)) a = Some (arrow_origin b)
     \<and> arrow_end (snd (arrowsMap demo_arrow_env)) a = Some p"
proof -
  obtain i a0 where a0: "fst (build_arrows demo_arrow_env) = [(i, a0)]" "length (ma_points a0) = 2"
    using demo_built by (auto simp: map_eq_Cons_conv)
  obtain a where a: "fst (arrowsMap demo_arrow_env) = [(i, a)]" "same_ends a0 a"
    using arrowsMap_finishes [of demo_arrow_env] by (auto simp: a0(1) list_all2_Cons1 finished_def)
  have "ma_points a \<noteq> []" using same_ends_points [OF a(2)] a0(2) by auto
  moreover have "arrowsMap demo_arrow_env = ([(i, a)], snd (arrowsMap demo_arrow_env))" using a(1) by (metis prod.collapse)
  ultimately obtain b p where "arrow_start (snd (arrowsMap demo_arrow_env)) a = Some (arrow_origin b)"
      "arrow_end (snd (arrowsMap demo_arrow_env)) a = Some p"
    using arrows_are_attached [of demo_arrow_env "[(i, a)]" "snd (arrowsMap demo_arrow_env)" i a] by auto
  then show ?thesis using a(1) by auto
qed


section \<open>Connectors are centred\<close>

text \<open>What the accumulator holds while the arrows are built: the connectors of a card, one below the other from its middle.\<close>

definition connector_at :: "xy \<Rightarrow> xywh \<Rightarrow> nat \<Rightarrow> xy" where
  "connector_at m b i =
     \<lparr>cx = js_sub (gx b) connectorCardEndGap, cy = js_add (cy (vec2_clone 0 0 m)) (js_mul (of_nat i) connectorGap)\<rparr>"

definition stacked :: "(string, xy) js_map \<Rightarrow> (string, xywh) js_map \<Rightarrow> (string, xy) js_map \<Rightarrow> string \<Rightarrow> string list \<Rightarrow> bool" where
  "stacked mids bboxes coords r cs \<longleftrightarrow>
     distinct cs \<and> (\<forall>c \<in> set cs. \<exists>aps. c = ids_cardConnector r aps) \<and> map_has bboxes r
     \<and> (\<exists>m b. map_get mids r = Some m \<and> map_get bboxes r = Some b
           \<and> (\<forall>i < length cs. map_get coords (cs ! i) = Some (connector_at m b i)))"

definition acc_ok :: "(string, xy) js_map \<Rightarrow> (string, xywh) js_map \<Rightarrow> connector_accumulator \<Rightarrow> bool" where
  "acc_ok mids bboxes acc \<longleftrightarrow>
     wf_map (cc_ids acc) \<and> (\<forall>r cs. map_get (cc_ids acc) r = Some cs \<longrightarrow> stacked mids bboxes (cc_coords acc) r cs)"

lemma stacked_known: "stacked mids bboxes coords r cs \<Longrightarrow> c \<in> set cs \<Longrightarrow> map_has coords c"
  by (auto simp: stacked_def in_set_conv_nth)

lemma stacked_other: "stacked mids bboxes coords r cs \<Longrightarrow> map_get coords c = None \<Longrightarrow> stacked mids bboxes (map_set c v coords) r cs"
  using stacked_known [of mids bboxes coords r cs c] unfolding stacked_def by (auto dest!: nth_mem)

lemma stacked_snoc:
  assumes "cs = [] \<or> stacked mids bboxes coords r cs" "map_get coords c = None" "c = ids_cardConnector r aps"
    and "map_get mids r = Some m" "map_get bboxes r = Some b"
  shows "stacked mids bboxes (map_set c (connector_at m b (length cs)) coords) r (set_add c cs)"
proof -
  have old: "distinct cs" "\<forall>c \<in> set cs. \<exists>aps. c = ids_cardConnector r aps"
      "\<forall>i < length cs. map_get coords (cs ! i) = Some (connector_at m b i)"
    using assms by (auto simp: stacked_def)
  have new: "c \<notin> set cs" using old(3) assms(2) by (auto simp: in_set_conv_nth)
  then have "cs ! i \<noteq> c" if "i < length cs" for i using that by auto
  then show ?thesis using old new assms(3-5) by (auto simp: stacked_def set_add_def nth_append less_Suc_eq)
qed

lemma accumulate_ok:
  assumes "acc_ok mids bboxes acc"
  shows "acc_ok mids bboxes (snd (accumulator_accumulate conns mids bboxes s r acc))"
proof (cases "map_get bboxes s = None \<or> map_get bboxes r = None \<or> map_get (get_or_empty (lc_outgoings conns) s) r = None")
  case True
  then show ?thesis using assms by (auto simp: accumulator_accumulate_def split: option.split)
next
  case False
  then obtain sb b aps where some: "map_get bboxes s = Some sb" "map_get bboxes r = Some b"
      "map_get (get_or_empty (lc_outgoings conns) s) r = Some aps"
    by auto
  define c where "c = ids_cardConnector r (map_keys aps)"
  show ?thesis
  proof (cases "map_get (cc_coords acc) c")
    case (Some p)
    then show ?thesis using assms by (simp add: accumulator_accumulate_def some c_def Let_def)
  next
    case None
    note new = None
    show ?thesis
    proof (cases "map_get mids r")
      case None
      then have "\<not> stacked mids bboxes (cc_coords acc) r cs" for cs by (simp add: stacked_def)
      then have "map_get (cc_ids acc) r = None"
        using assms unfolding acc_ok_def by (metis not_None_eq)
      then show ?thesis using assms None new by (simp add: accumulator_accumulate_def some c_def Let_def)
    next
      case (Some m)
      let ?cs = "or_empty (map_get (cc_ids acc) r)"
      have "?cs = [] \<or> stacked mids bboxes (cc_coords acc) r ?cs"
        using assms by (cases "map_get (cc_ids acc) r") (auto simp: acc_ok_def or_empty_def)
      then have "stacked mids bboxes (map_set c (connector_at m b (length ?cs)) (cc_coords acc)) r (set_add c ?cs)"
        by (rule stacked_snoc [OF _ new c_def Some some(2)])
      then show ?thesis
        using assms stacked_other [OF _ new] Some new
        by (auto simp: accumulator_accumulate_def some c_def [symmetric] Let_def acc_ok_def connector_at_def)
    qed
  qed
qed


lemma build_arrow_acc:
  "snd (build_arrow env bboxes sid b receiver s) = snd s
   \<or> (\<exists>rid. snd (build_arrow env bboxes sid b receiver s) =
          snd (accumulator_accumulate (av_connections env) (connectorMidPoints env) bboxes sid rid (snd s)))"
  by (auto simp: build_arrow_def Let_def split_def split: option.split)

lemma build_arrows_acc: "acc_ok (connectorMidPoints env) (cardsBBoxes (av_placement env)) (snd (build_arrows env))"
proof -
  let ?bb = "cardsBBoxes (av_placement env)" and ?ok = "acc_ok (connectorMidPoints env) (cardsBBoxes (av_placement env))"
  have one: "?ok (snd s) \<Longrightarrow> ?ok (snd (build_arrow env ?bb sid b receiver s))" for sid b receiver s
    using build_arrow_acc [of env ?bb sid b receiver s] accumulate_ok by metis
  have inner: "?ok (snd s) \<Longrightarrow> ?ok (snd (fold (build_arrow env ?bb sid b) receivers s))" for s sid b receivers
    by (induction receivers arbitrary: s) (simp_all add: one)
  have "?ok (snd s) \<Longrightarrow> ?ok (snd (fold (\<lambda>(sid, receivers) s. case map_get ?bb sid of None \<Rightarrow> s
      | Some b \<Rightarrow> fold (build_arrow env ?bb sid b) receivers s) outs s))" for s outs
    by (induction outs arbitrary: s) (auto simp: inner split: option.split prod.split)
  then show ?thesis unfolding build_arrows_def Let_def by (simp add: acc_ok_def accumulator_new_def)
qed

text \<open>Connectors of different cards differ, so that each of them is moved once.\<close>

lemma plain_prefix:
  "x @ CHR ''('' # u = y @ CHR ''('' # v \<Longrightarrow> CHR ''('' \<notin> set x \<Longrightarrow> CHR ''('' \<notin> set y \<Longrightarrow> x = y"
proof (induction x arbitrary: y)
  case Nil
  then show ?case by (cases y) auto
next
  case (Cons c x)
  then show ?case by (cases y) auto
qed

lemma cardConnector_card:
  assumes "ids_cardConnector r aps = ids_cardConnector r' aps'" "CHR ''('' \<notin> set r" "CHR ''('' \<notin> set r'"
  shows "r = r'"
proof -
  obtain u v where "(r @ ''-'') @ CHR ''('' # u = (r' @ ''-'') @ CHR ''('' # v"
    using assms(1) by (simp add: ids_cardConnector_def)
  from plain_prefix [OF this] assms(2,3) show ?thesis by simp
qed

definition moved :: "nat \<Rightarrow> xy \<Rightarrow> xy" where
  "moved n p = p\<lparr>cy := js_sub (cy p) (js_div (js_mul (of_int (int n - 1)) connectorGap) 2)\<rparr>"

lemma adjust_get: "map_get (adjust_connector n c coords) k = (if k = c then map_option (moved n) (map_get coords k) else map_get coords k)"
  by (auto simp: adjust_connector_def moved_def Let_def split: option.split)

lemma adjust_list:
  "distinct cs \<Longrightarrow> map_get (fold (adjust_connector n) cs coords) k =
     (if k \<in> set cs then map_option (moved n) (map_get coords k) else map_get coords k)"
  by (induction cs arbitrary: coords) (auto simp: adjust_get)

lemma adjust_others:
  "\<forall>(r, cs) \<in> set ids. distinct cs \<and> k \<notin> set cs \<Longrightarrow>
   map_get (fold (\<lambda>(cardId, cs). fold (adjust_connector (length cs)) cs) ids coords) k = map_get coords k"
  by (induction ids arbitrary: coords) (auto simp: adjust_list)

lemma adjust_all:
  assumes "(r, cs) \<in> set ids" "k \<in> set cs" "\<forall>(r, cs) \<in> set ids. distinct cs" "wf_map ids"
    and "\<forall>(r', cs') \<in> set ids. r' \<noteq> r \<longrightarrow> k \<notin> set cs'"
  shows "map_get (fold (\<lambda>(cardId, cs). fold (adjust_connector (length cs)) cs) ids coords) k =
    map_option (moved (length cs)) (map_get coords k)"
  using assms
proof (induction ids arbitrary: coords)
  case (Cons x ids)
  obtain r' cs' where x: "x = (r', cs')" by fastforce
  show ?case
  proof (cases "r' = r")
    case True
    then have cs: "cs' = cs" using Cons.prems(1,4) x by force
    have "\<forall>(r'', cs'') \<in> set ids. distinct cs'' \<and> k \<notin> set cs''" using Cons.prems x True by force
    then show ?thesis using Cons.prems(2,3) x cs by (simp add: adjust_others adjust_list)
  next
    case False
    then have "(r, cs) \<in> set ids" "k \<notin> set cs'" using Cons.prems x by auto
    then show ?thesis using Cons.IH [of "fold (adjust_connector (length cs')) cs' coords"] Cons.prems x by (auto simp: adjust_list)
  qed
qed simp


lemma connector_place:
  assumes "\<bar>cy m\<bar> \<le> 2000000" "n \<le> 1000" "i < n"
  shows "\<bar>cy (moved n (connector_at m b i)) - (cy m + 50 * of_nat i - 25 * (of_nat n - 1))\<bar> \<le> 1 / 100000"
proof -
  have i: "js_mul (of_nat i) connectorGap = 50 * of_nat i"
    using fl.rnd_int [of "50 * int i"] assms(2,3) by (simp add: mult.commute)
  have n: "js_div (js_mul (of_int (int n - 1)) connectorGap) 2 = 25 * (of_nat n - 1)"
  proof -
    have "js_mul (of_int (int n - 1)) connectorGap = 50 * (of_nat n - 1)"
      using fl.rnd_int [of "50 * (int n - 1)"] assms(2,3) by (simp add: mult.commute)
    moreover have "50 * (of_nat n - 1) / 2 = (25 * (of_nat n - 1) :: rat)" by simp
    moreover have "fl (25 * (of_nat n - 1)) = 25 * (of_nat n - 1)"
      using fl.rnd_int [of "25 * (int n - 1)"] assms(2,3) by simp
    ultimately show ?thesis by metis
  qed
  define x where "x = fl (cy m)"
  define y where "y = fl (x + 50 * of_nat i)"
  define u where "u = y - 25 * (of_nat n - 1)"
  have bounds: "(of_nat n :: rat) \<le> 1000" "(of_nat i :: rat) \<le> 1000" "(0 :: rat) \<le> of_nat i" "(1 :: rat) \<le> of_nat n"
    using assms(2,3) by simp_all
  have 1: "cy m - 1 / 1000000 \<le> x \<and> x \<le> cy m + 1 / 1000000"
    unfolding x_def using assms(1) by (intro fl.rnd_bounds) linarith
  then have 2: "x + 50 * of_nat i - 1 / 1000000 \<le> y \<and> y \<le> x + 50 * of_nat i + 1 / 1000000"
    unfolding y_def using assms(1) bounds by (intro fl.rnd_bounds) linarith
  then have "u \<le> 4000000000" "- u \<le> 4000000000"
    unfolding u_def right_diff_distrib using 1 assms(1) bounds by linarith+
  then have 3: "u - 1 / 1000000 \<le> fl u \<and> fl u \<le> u + 1 / 1000000"
    by (intro fl.rnd_bounds abs_leI)
  have "cy (moved n (connector_at m b i)) = fl u"
    by (simp only: moved_def connector_at_def vec2_clone_def xy.simps i n x_def y_def u_def add_0_right)
  moreover have "u = y - 25 * (of_nat n - 1)" by (rule u_def)
  ultimately show ?thesis using 1 2 3 by linarith
qed

text \<open>Around the middle that the source computes.\<close>

lemma connectors_stacked:
  assumes "map_get (cc_ids (snd (build_arrows env))) r = Some cs" and "i < length cs" and "length cs \<le> 1000"
    and "map_get (connectorMidPoints env) r = Some m" and "\<bar>cy m\<bar> \<le> 2000000"
    and "\<forall>r'. map_has (cardsBBoxes (av_placement env)) r' \<longrightarrow> CHR ''('' \<notin> set r'"
  shows "\<exists>b p. map_get (cardsBBoxes (av_placement env)) r = Some b \<and> map_get (snd (arrowsMap env)) (cs ! i) = Some p
    \<and> cx p = js_sub (gx b) connectorCardEndGap
    \<and> \<bar>cy p - (cy m + 50 * of_nat i - 25 * (of_nat (length cs) - 1))\<bar> \<le> 1 / 100000"
proof -
  let ?acc = "snd (build_arrows env)" and ?bb = "cardsBBoxes (av_placement env)"
  have ok: "wf_map (cc_ids ?acc)"
      "map_get (cc_ids ?acc) r' = Some cs' \<Longrightarrow> stacked (connectorMidPoints env) ?bb (cc_coords ?acc) r' cs'" for r' cs'
    using build_arrows_acc [of env] by (simp_all add: acc_ok_def)
  obtain b where b: "map_get ?bb r = Some b" "map_get (cc_coords ?acc) (cs ! i) = Some (connector_at m b i)"
    using ok(2) [OF assms(1)] assms(2,4) by (auto simp: stacked_def)
  have all: "distinct cs' \<and> (r' \<noteq> r \<longrightarrow> cs ! i \<notin> set cs')" if mem: "(r', cs') \<in> set (cc_ids ?acc)" for r' cs'
  proof -
    have st: "stacked (connectorMidPoints env) ?bb (cc_coords ?acc) r' cs'"
      using ok(2) mem wf_map_get_iff [OF ok(1)] by blast
    have "r' = r" if c: "cs ! i \<in> set cs'"
    proof -
      obtain aps aps' where "cs ! i = ids_cardConnector r aps" "cs ! i = ids_cardConnector r' aps'"
        using st c ok(2) [OF assms(1)] nth_mem [OF assms(2)] unfolding stacked_def by metis
      then show ?thesis using cardConnector_card [of r' aps' r aps] assms(6) st ok(2) [OF assms(1)] unfolding stacked_def by metis
    qed
    then show ?thesis using st by (auto simp: stacked_def)
  qed
  have "snd (arrowsMap env) = cc_coords (accumulator_adjustVertically ?acc)" by (simp add: arrowsMap_def Let_def split_def)
  then have "map_get (snd (arrowsMap env)) (cs ! i) = Some (moved (length cs) (connector_at m b i))"
    using adjust_all [of r cs "cc_ids ?acc" "cs ! i" "cc_coords ?acc"] all ok(1) assms(1,2) b(2) wf_map_get_iff [OF ok(1)]
    by (auto simp: accumulator_adjustVertically_def)
  then show ?thesis using connector_place [OF assms(5,3,2), of b] b(1) by (auto simp: moved_def connector_at_def)
qed


lemma demo_connectors:
  "map (\<lambda>(r, cs). (r, length cs)) (cc_ids (snd (build_arrows demo_arrow_env))) = [(''2'', 1)]
   \<and> connectorMidPoints demo_arrow_env = [(''2'', \<lparr>cx = 940, cy = 180\<rparr>)]
   \<and> map_keys (cardsBBoxes (av_placement demo_arrow_env)) = [''1'', ''2'']"
  by code_simp

text \<open>That middle is the mean of the points of the card, but for rounding: its access points, and its HTTP endpoints while one
  of its filter entries is chosen.\<close>

definition card_points :: "arrow_env \<Rightarrow> service_card \<Rightarrow> xy list" where
  "card_points env crd =
     List.map_filter (\<lambda>(_, ap). map_get (ps_accessPointCoords (av_placement env)) (serviceEndpoint_id ap)) (sc_accessPoints crd)
     @ (if controls_areSomeFilterEntriesEnabled (card_filterEntries crd) (sh_controls (av_shared env))
        then concat (map (map_values \<circ> snd) (get_or_empty (ps_httpEndpointCoords (av_placement env)) (card_id crd))) else [])"

definition mean_y :: "xy list \<Rightarrow> rat" where
  "mean_y ps = sum_list (map cy ps) / of_nat (length ps)"

abbreviation add_points :: "xy list \<Rightarrow> xy \<Rightarrow> xy" where
  "add_points \<equiv> fold (\<lambda>q p. vec2_addInPlace p q)"

lemma add_access_points:
  "fold (\<lambda>(_, ap) p. case coords ap of None \<Rightarrow> p | Some q \<Rightarrow> vec2_addInPlace p q) aps p =
     add_points (List.map_filter (\<lambda>(_, ap). coords ap) aps) p"
  by (induction aps arbitrary: p) (auto simp: map_filter_simps split: option.split)

lemma sum_endpoint_points:
  fixes urls :: "('u \<times> ('m \<times> xy) list) list"
  shows "fold (\<lambda>(_, methods) (p, k). (fold (\<lambda>(_, q) p. vec2_addInPlace p q) methods p, k + length methods)) urls (p, n) =
     (add_points (concat (map (map_values \<circ> snd) urls)) p, n + length (concat (map (map_values \<circ> snd) urls)))"
proof -
  have one: "fold (\<lambda>(_, q) p. vec2_addInPlace p q) methods p = add_points (map_values methods) p" for methods :: "('m \<times> xy) list" and p
    by (induction methods arbitrary: p) auto
  show ?thesis
  proof (induction urls arbitrary: p n)
    case (Cons u urls)
    then show ?case by (cases u) (simp add: one)
  qed simp
qed

lemma connectorMidPoint_mean:
  assumes "\<forall>(_, ap) \<in> set (sc_accessPoints crd). map_has (ps_accessPointCoords (av_placement env)) (serviceEndpoint_id ap)"
  shows "connectorMidPoint env crd =
    vec2_mul (add_points (card_points env crd) vec2_zero) (js_div 1 (of_nat (length (card_points env crd))))"
proof -
  have all: "length (List.map_filter (\<lambda>(_, ap). map_get (ps_accessPointCoords (av_placement env)) (serviceEndpoint_id ap)) aps) = length aps"
    if "\<forall>(_, ap) \<in> set aps. map_has (ps_accessPointCoords (av_placement env)) (serviceEndpoint_id ap)" for aps :: "(string \<times> service_endpoint) list"
    using that by (induction aps) (auto simp: map_filter_simps)
  show ?thesis
    using all [OF assms]
    by (auto simp: connectorMidPoint_def card_points_def Let_def add_access_points sum_endpoint_points get_or_empty_def or_empty_def
        split: option.split)
qed

lemma fl_near_unit:
  assumes "\<bar>x\<bar> \<le> 1"
  shows "\<bar>fl x - x\<bar> \<le> 1 / 4503599627370496"
proof -
  define k where "k = \<lfloor>x * 4503599627370496\<rfloor>"
  have k: "of_int k / 2 ^ 52 \<le> x" "x \<le> of_int (k + 1) / 2 ^ 52"
    unfolding k_def by (simp_all add: field_simps) linarith
  have "x * 4503599627370496 \<le> 4503599627370496" "- 4503599627370496 \<le> x * 4503599627370496" using assms by linarith+
  then have "k \<le> 4503599627370496" "- 4503599627370496 \<le> k" unfolding k_def by linarith+
  then have "fl (of_int k / 2 ^ 52) = of_int k / 2 ^ 52" "fl (of_int (k + 1) / 2 ^ 52) = of_int (k + 1) / 2 ^ 52"
    by (intro fl_scaled; simp)+
  then have "of_int k / 2 ^ 52 \<le> fl x" "fl x \<le> of_int (k + 1) / 2 ^ 52" using fl_mono [OF k(1)] fl_mono [OF k(2)] by simp_all
  then have "of_int k / 4503599627370496 \<le> fl x" "fl x \<le> of_int k / 4503599627370496 + 1 / 4503599627370496"
      "of_int k / 4503599627370496 \<le> x" "x \<le> of_int k / 4503599627370496 + 1 / 4503599627370496"
    using k by (simp_all add: add_divide_distrib)
  then show ?thesis by linarith
qed

lemma add_points_near:
  assumes "\<forall>q \<in> set ps. \<bar>cy q\<bar> \<le> 1000000" "\<bar>cy p\<bar> + 1000001 * of_nat (length ps) \<le> 2000000000"
  shows "\<bar>cy (add_points ps p) - (cy p + sum_list (map cy ps))\<bar> \<le> of_nat (length ps) / 1000000"
  using assms
proof (induction ps arbitrary: p)
  case (Cons q ps)
  let ?p = "vec2_addInPlace p q"
  have q: "\<bar>cy q\<bar> \<le> 1000000" using Cons.prems(1) by simp
  have len: "\<bar>cy p\<bar> + 1000001 + 1000001 * of_nat (length ps) \<le> (2000000000 :: rat)"
    using Cons.prems(2) by (simp add: algebra_simps)
  have pos: "(0 :: rat) \<le> of_nat (length ps)" by simp
  have near: "\<bar>cy ?p - (cy p + cy q)\<bar> \<le> 1 / 1000000"
    unfolding vec2_addInPlace_def xy.simps using q len pos by (intro fl_near) linarith
  have "\<bar>cy ?p\<bar> + 1000001 * of_nat (length ps) \<le> 2000000000" using near q len by linarith
  then have "\<bar>cy (add_points ps ?p) - (cy ?p + sum_list (map cy ps))\<bar> \<le> of_nat (length ps) / 1000000"
    using Cons.IH Cons.prems(1) by simp
  then have ih: "- (of_nat (length ps) / 1000000) \<le> cy (add_points ps ?p) - (cy ?p + sum_list (map cy ps))"
    "cy (add_points ps ?p) - (cy ?p + sum_list (map cy ps)) \<le> of_nat (length ps) / 1000000"
    by linarith+
  have eqs: "(of_nat (length (q # ps)) :: rat) / 1000000 = of_nat (length ps) / 1000000 + 1 / 1000000"
    "add_points (q # ps) p = add_points ps ?p" "sum_list (map cy (q # ps)) = cy q + sum_list (map cy ps)"
    by (simp_all add: add_divide_distrib)
  show ?case unfolding eqs by (rule abs_leI) (use near ih in linarith)+
qed simp

lemma connectorMidPoint_near:
  assumes "\<forall>(_, ap) \<in> set (sc_accessPoints crd). map_has (ps_accessPointCoords (av_placement env)) (serviceEndpoint_id ap)"
    and "\<forall>q \<in> set (card_points env crd). \<bar>cy q\<bar> \<le> 1000000" "card_points env crd \<noteq> []" "length (card_points env crd) \<le> 1000"
  shows "\<bar>cy (connectorMidPoint env crd) - mean_y (card_points env crd)\<bar> \<le> 1 / 100000"
    and "\<bar>mean_y (card_points env crd)\<bar> \<le> 1000000"
proof -
  let ?ps = "card_points env crd"
  define n where "n = (of_nat (length ?ps) :: rat)"
  define total where "total = sum_list (map cy ?ps)"
  define t where "t = cy (add_points ?ps vec2_zero)"
  define u where "u = fl (1 / n)"
  have n: "1 \<le> n" "n \<le> 1000"
    using assms(3,4) by (simp_all add: n_def Suc_le_eq [of 0, simplified, symmetric] del: of_nat_le_iff) (cases ?ps; simp)+
  have "\<bar>sum_list (map cy ps)\<bar> \<le> 1000000 * of_nat (length ps)" if "\<forall>q \<in> set ps. \<bar>cy q\<bar> \<le> 1000000" for ps
    using that
  proof (induction ps)
    case (Cons q ps)
    then have "\<bar>cy q\<bar> \<le> 1000000" "\<bar>sum_list (map cy ps)\<bar> \<le> 1000000 * of_nat (length ps)" by simp_all
    then show ?case by (simp add: algebra_simps)
  qed simp
  then have total: "\<bar>total\<bar> \<le> 1000000 * n" using assms(2) by (simp add: total_def n_def)
  then show "\<bar>mean_y ?ps\<bar> \<le> 1000000"
    using n(1) by (simp add: mean_y_def total_def [symmetric] n_def [symmetric] abs_divide pos_divide_le_eq)
  have t: "\<bar>t - total\<bar> \<le> n / 1000000"
    using add_points_near [OF assms(2), of vec2_zero] n(2) by (simp add: t_def total_def n_def vec2_zero_def)
  have u: "\<bar>u - 1 / n\<bar> \<le> 1 / 4503599627370496" unfolding u_def using n(1) by (intro fl_near_unit) simp
  have tb: "\<bar>t\<bar> \<le> 1000001000" using t total n by linarith
  have "\<bar>t * (u - 1 / n)\<bar> \<le> 1000001000 * (1 / 4503599627370496)"
    unfolding abs_mult using tb u by (intro mult_mono) simp_all
  moreover have "\<bar>(t - total) / n\<bar> \<le> 1 / 1000000" using t n(1) by (simp add: abs_divide pos_divide_le_eq)
  moreover have "t * u - total / n = t * (u - 1 / n) + (t - total) / n" by (simp add: right_diff_distrib diff_divide_distrib)
  ultimately have tu: "\<bar>t * u - total / n\<bar> \<le> 2 / 1000000" by linarith
  have mean: "mean_y ?ps = total / n" by (simp add: mean_y_def total_def n_def)
  then have "\<bar>t * u\<bar> \<le> 4000000000" using tu \<open>\<bar>mean_y ?ps\<bar> \<le> 1000000\<close> by linarith
  from fl_near [OF this] have "\<bar>fl (t * u) - total / n\<bar> \<le> 1 / 100000" using tu by linarith
  moreover have "cy (connectorMidPoint env crd) = fl (t * u)"
    by (simp add: connectorMidPoint_mean [OF assms(1)] vec2_mul_def t_def u_def n_def)
  ultimately show "\<bar>cy (connectorMidPoint env crd) - mean_y ?ps\<bar> \<le> 1 / 100000" by (simp add: mean)
qed

lemma connectorMidPoints_card:
  assumes "map_get (connectorMidPoints env) r = Some m"
  shows "\<exists>crd \<in> set (sf_services (av_frame env)). card_id crd = r \<and> sc_accessPoints crd \<noteq> [] \<and> m = connectorMidPoint env crd"
proof -
  have "map_get (fold (\<lambda>crd index. if sc_accessPoints crd = [] then index else map_set (card_id crd) (connectorMidPoint env crd) index) cards index) r = Some m
      \<Longrightarrow> map_get index r = Some m \<or> (\<exists>crd \<in> set cards. card_id crd = r \<and> sc_accessPoints crd \<noteq> [] \<and> m = connectorMidPoint env crd)"
    for cards index
  proof (induction cards arbitrary: index)
    case (Cons crd cards)
    from Cons.IH [of "if sc_accessPoints crd = [] then index else map_set (card_id crd) (connectorMidPoint env crd) index"] Cons.prems
    show ?case by (auto split: if_splits)
  qed simp
  from this [of "sf_services (av_frame env)" "[]"] show ?thesis using assms by (simp add: connectorMidPoints_def)
qed

text \<open>C35: the connectors of a card stand 120 px left of it, 50 px apart in the order in which they were found, and centred
  around the mean height of the points of the card: the connector \<open>i\<close> of \<open>n\<close> is \<open>50 * i - 25 * (n - 1)\<close> px below it, up to a
  ten thousandth of a pixel by rounding.  This is so when all access points of the card have coordinates (otherwise the
  middle drifts), with at most 1000 points and connectors, heights of at most a million pixels, cards of distinct
  identifiers, and no bracket in the identifiers of placed cards.\<close>

theorem connectors_are_centred:
  assumes "map_get (cc_ids (snd (build_arrows env))) (card_id crd) = Some cs" and "i < length cs" and "length cs \<le> 1000"
    and "crd \<in> set (sf_services (av_frame env))" and "distinct (map card_id (sf_services (av_frame env)))"
    and "\<forall>(_, ap) \<in> set (sc_accessPoints crd). map_has (ps_accessPointCoords (av_placement env)) (serviceEndpoint_id ap)"
    and "\<forall>q \<in> set (card_points env crd). \<bar>cy q\<bar> \<le> 1000000" and "length (card_points env crd) \<le> 1000"
    and "\<forall>r'. map_has (cardsBBoxes (av_placement env)) r' \<longrightarrow> CHR ''('' \<notin> set r'"
  shows "\<exists>b p. map_get (cardsBBoxes (av_placement env)) (card_id crd) = Some b \<and> map_get (snd (arrowsMap env)) (cs ! i) = Some p
    \<and> cx p = js_sub (gx b) connectorCardEndGap
    \<and> \<bar>cy p - (mean_y (card_points env crd) + 50 * of_nat i - 25 * (of_nat (length cs) - 1))\<bar> \<le> 1 / 10000"
proof -
  have "stacked (connectorMidPoints env) (cardsBBoxes (av_placement env)) (cc_coords (snd (build_arrows env))) (card_id crd) cs"
    using build_arrows_acc [of env] assms(1) unfolding acc_ok_def by blast
  then obtain m where m: "map_get (connectorMidPoints env) (card_id crd) = Some m"
    unfolding stacked_def by blast
  then obtain c where "c \<in> set (sf_services (av_frame env))" "card_id c = card_id crd" "sc_accessPoints c \<noteq> []" "m = connectorMidPoint env c"
    using connectorMidPoints_card [of env "card_id crd" m] by blast
  then have crd: "sc_accessPoints crd \<noteq> []" "m = connectorMidPoint env crd"
    using assms(4,5) by (metis distinct_map inj_on_def)+
  obtain k ap q aps where "sc_accessPoints crd = (k, ap) # aps" "map_get (ps_accessPointCoords (av_placement env)) (serviceEndpoint_id ap) = Some q"
    using crd(1) assms(6) by (cases "sc_accessPoints crd") auto
  then have "card_points env crd \<noteq> []" by (simp add: card_points_def map_filter_simps)
  note near = connectorMidPoint_near [OF assms(6,7) this assms(8), folded crd(2)]
  then have "\<bar>cy m\<bar> \<le> 2000000" by linarith
  from connectors_stacked [OF assms(1-3) m this assms(9)] obtain b p where
    bp: "map_get (cardsBBoxes (av_placement env)) (card_id crd) = Some b" "map_get (snd (arrowsMap env)) (cs ! i) = Some p"
      "cx p = js_sub (gx b) connectorCardEndGap"
    and place: "\<bar>cy p - (cy m + 50 * of_nat i - 25 * (of_nat (length cs) - 1))\<bar> \<le> 1 / 100000"
    by blast
  have "\<bar>cy p - (mean_y (card_points env crd) + 50 * of_nat i - 25 * (of_nat (length cs) - 1))\<bar> \<le> 1 / 10000"
    using place near(1) by linarith
  then show ?thesis using bp by blast
qed

theorem connectors_are_centred_witness:
  "\<exists>c p. map_get (cc_ids (snd (build_arrows demo_arrow_env))) ''2'' = Some [c]
     \<and> map_get (snd (arrowsMap demo_arrow_env)) c = Some p \<and> \<bar>cy p - 180\<bar> \<le> 1 / 10000"
proof -
  obtain c where c: "map_get (cc_ids (snd (build_arrows demo_arrow_env))) ''2'' = Some [c]"
    using demo_connectors by (auto simp: map_eq_Cons_conv length_Suc_conv)
  have "map_has (cardsBBoxes (av_placement demo_arrow_env)) r \<Longrightarrow> r \<in> {''1'', ''2''}" for r
    using demo_connectors by (auto dest!: map_of_SomeD simp: map_eq_Cons_conv)
  then have plain: "\<forall>r. map_has (cardsBBoxes (av_placement demo_arrow_env)) r \<longrightarrow> CHR ''('' \<notin> set r" by fastforce
  let ?cards = "sf_services (av_frame demo_arrow_env)"
  let ?crd = "?cards ! 1"
  have crd: "length ?cards = 2" "card_id ?crd = ''2''" "distinct (map card_id ?cards)"
    "card_points demo_arrow_env ?crd = [\<lparr>cx = 940, cy = 180\<rparr>]"
    "list_all (\<lambda>(_, ap). map_has (ps_accessPointCoords (av_placement demo_arrow_env)) (serviceEndpoint_id ap)) (sc_accessPoints ?crd)"
    by code_simp+
  have "?crd \<in> set ?cards" using crd(1) by (intro nth_mem) simp
  from connectors_are_centred [of demo_arrow_env ?crd "[c]" 0, OF _ _ _ this crd(3) _ _ _ plain] crd(2,4,5) c
  show ?thesis by (auto simp: list_all_iff mean_y_def)
qed

section \<open>Combined small arrows\<close>

definition small_arrow :: "(string, map_arrow) js_map \<Rightarrow> string \<Rightarrow> string \<Rightarrow> ap_arrow option" where
  "small_arrow arrows i k = (case map_get arrows i of None \<Rightarrow> None | Some a \<Rightarrow> map_get (ma_accessPointArrows a) k)"

definition small_arrows :: "(string, map_arrow) js_map \<Rightarrow> (string \<times> string \<times> ap_arrow) list" where
  "small_arrows arrows = concat (map (\<lambda>(i, a). map (Pair i) (ma_accessPointArrows a)) arrows)"

text \<open>The verdicts of all small arrows of a connector with one identifier.\<close>

definition verdicts_of :: "(string \<times> string \<times> ap_arrow) set \<Rightarrow> string \<Rightarrow> string \<Rightarrow> verdict set" where
  "verdicts_of P c k = {v. \<exists>(i, k', ap) \<in> P. k' = k \<and> aa_connectorId ap = Some c \<and> v \<in> set (aa_verdicts ap)}"

definition owner_of :: "combined_arrows \<Rightarrow> string \<Rightarrow> string \<Rightarrow> string option" where
  "owner_of combined c k = map_get (get_or_empty combined c) k"

text \<open>What became of a small arrow: it is as it was, or it owns the combined one and has the verdicts of all.\<close>

definition combined_small ::
  "(string \<times> string \<times> ap_arrow) set \<Rightarrow> combined_arrows \<times> (string, map_arrow) js_map \<Rightarrow> string \<Rightarrow> string \<Rightarrow> ap_arrow \<Rightarrow> bool" where
  "combined_small P s i k ap \<longleftrightarrow>
     (\<exists>ap'. small_arrow (snd s) i k = Some ap' \<and> aa_connectorId ap' = aa_connectorId ap
        \<and> (\<forall>c. aa_connectorId ap = Some c \<and> owner_of (fst s) c k = Some i \<longrightarrow> set (aa_verdicts ap') = verdicts_of P c k)
        \<and> ((\<nexists>c. aa_connectorId ap = Some c \<and> owner_of (fst s) c k = Some i) \<longrightarrow> ap' = ap))"

definition combined_inv ::
  "(string, map_arrow) js_map \<Rightarrow> (string \<times> string \<times> ap_arrow) set \<Rightarrow> combined_arrows \<times> (string, map_arrow) js_map \<Rightarrow> bool" where
  "combined_inv arrows0 P s \<longleftrightarrow>
     (\<forall>c k i. owner_of (fst s) c k = Some i \<longrightarrow> (\<exists>ap. (i, k, ap) \<in> P \<and> aa_connectorId ap = Some c))
     \<and> (\<forall>i k ap c. (i, k, ap) \<in> P \<and> aa_connectorId ap = Some c \<longrightarrow> owner_of (fst s) c k \<noteq> None)
     \<and> (\<forall>i k ap. small_arrow arrows0 i k = Some ap \<longrightarrow> combined_small P s i k ap)"

lemma combined_invD:
  assumes "combined_inv arrows0 P s"
  shows "owner_of (fst s) c k = Some i \<Longrightarrow> \<exists>ap. (i, k, ap) \<in> P \<and> aa_connectorId ap = Some c"
    and "(i, k, ap) \<in> P \<Longrightarrow> aa_connectorId ap = Some c \<Longrightarrow> owner_of (fst s) c k \<noteq> None"
    and "small_arrow arrows0 i k = Some ap \<Longrightarrow> combined_small P s i k ap"
  using assms unfolding combined_inv_def by blast+

text \<open>One more small arrow keeps the invariant if owners and small arrows are as they should be.\<close>

lemma combined_invI:
  assumes "combined_inv arrows0 P s"
    and "\<And>c' k' i'. owner_of (fst s') c' k' = Some i' \<Longrightarrow>
      owner_of (fst s) c' k' = Some i' \<or> i' = i \<and> k' = k \<and> aa_connectorId ap = Some c'"
    and "\<And>c' k'. owner_of (fst s) c' k' \<noteq> None \<Longrightarrow> owner_of (fst s') c' k' \<noteq> None"
    and "\<And>c'. aa_connectorId ap = Some c' \<Longrightarrow> owner_of (fst s') c' k \<noteq> None"
    and "\<And>i' k' ap'. small_arrow arrows0 i' k' = Some ap' \<Longrightarrow> combined_small (insert (i, k, ap) P) s' i' k' ap'"
  shows "combined_inv arrows0 (insert (i, k, ap) P) s'"
  unfolding combined_inv_def
proof (intro conjI allI impI)
  fix c' k' i' assume "owner_of (fst s') c' k' = Some i'"
  from assms(2) [OF this] show "\<exists>ap'. (i', k', ap') \<in> insert (i, k, ap) P \<and> aa_connectorId ap' = Some c'"
    using combined_invD(1) [OF assms(1)] by blast
next
  fix i' k' ap' c' assume "(i', k', ap') \<in> insert (i, k, ap) P \<and> aa_connectorId ap' = Some c'"
  then show "owner_of (fst s') c' k' \<noteq> None" using combined_invD(2) [OF assms(1)] assms(3,4) by blast
qed (rule assms(5))

lemma flatten_arrows:
  "fold (\<lambda>(i, a). fold (combine_one i) (ma_accessPointArrows a)) arrows s =
   fold (\<lambda>(i, kap). combine_one i kap) (small_arrows arrows) s"
  by (induction arrows arbitrary: s) (auto simp: small_arrows_def fold_map comp_def)

lemma small_arrows_get:
  assumes "wf_map arrows" "\<forall>(i, a) \<in> set arrows. wf_map (ma_accessPointArrows a)"
  shows "(i, k, ap) \<in> set (small_arrows arrows) \<longleftrightarrow> small_arrow arrows i k = Some ap"
proof -
  have "(i, k, ap) \<in> set (small_arrows arrows) \<longleftrightarrow> (\<exists>a. (i, a) \<in> set arrows \<and> (k, ap) \<in> set (ma_accessPointArrows a))"
    by (auto simp: small_arrows_def)
  also have "\<dots> \<longleftrightarrow> (\<exists>a. map_get arrows i = Some a \<and> map_get (ma_accessPointArrows a) k = Some ap)"
  proof -
    have "(k, ap) \<in> set (ma_accessPointArrows a) \<longleftrightarrow> map_get (ma_accessPointArrows a) k = Some ap" if "(i, a) \<in> set arrows" for a
      using that assms(2) wf_map_get_iff [of "ma_accessPointArrows a" k ap] by blast
    then show ?thesis using wf_map_get_iff [OF assms(1)] by metis
  qed
  finally show ?thesis by (auto simp: small_arrow_def split: option.split)
qed

lemma verdicts_of_insert:
  "verdicts_of (insert (i, k, ap) P) c k' =
   (if k' = k \<and> aa_connectorId ap = Some c then set (aa_verdicts ap) else {}) \<union> verdicts_of P c k'"
  by (auto simp: verdicts_of_def)

lemma owner_set:
  "owner_of (map_set c m combined) c' k = (if c' = c then map_get m k else owner_of combined c' k)"
  by (simp add: owner_of_def)


lemma combined_small_other:
  assumes "combined_small P s i' k' ap0"
    and "small_arrow (snd s') i' k' = small_arrow (snd s) i' k'"
    and "\<And>c. aa_connectorId ap0 = Some c \<Longrightarrow> owner_of (fst s') c k' = Some i' \<longleftrightarrow> owner_of (fst s) c k' = Some i'"
    and "\<And>c. aa_connectorId ap0 = Some c \<Longrightarrow> aa_connectorId ap = Some c \<Longrightarrow> k' = k \<Longrightarrow> owner_of (fst s') c k' \<noteq> Some i'"
  shows "combined_small (insert (i, k, ap) P) s' i' k' ap0"
proof (cases "aa_connectorId ap0")
  case None
  then show ?thesis using assms(1,2) by (auto simp: combined_small_def)
next
  case (Some c)
  then show ?thesis using assms(1,2) assms(3,4) [OF Some] by (auto simp: combined_small_def verdicts_of_insert)
qed

lemma combined_none:
  assumes "combined_inv arrows0 P s" "aa_connectorId ap = None"
  shows "combined_inv arrows0 (insert (i, k, ap) P) (combine_one i (k, ap) s)"
proof -
  have s: "combine_one i (k, ap) s = s" using assms(2) by (simp add: combine_one_def split_def)
  have "verdicts_of (insert (i, k, ap) P) c k' = verdicts_of P c k'" for c k'
    using assms(2) by (simp add: verdicts_of_insert)
  then show ?thesis
    unfolding s using combined_invD(3) [OF assms(1)] assms(2) by (intro combined_invI [OF assms(1)]) (simp_all add: combined_small_def)
qed

lemma combined_first:
  assumes "combined_inv arrows0 P s" "aa_connectorId ap = Some c" "owner_of (fst s) c k = None"
    and "small_arrow arrows0 i k = Some ap"
  shows "combined_inv arrows0 (insert (i, k, ap) P) (combine_one i (k, ap) s)"
proof -
  let ?s = "combine_one i (k, ap) s"
  have s: "owner_of (fst ?s) c' k' = (if c' = c \<and> k' = k then Some i else owner_of (fst s) c' k')" "snd ?s = snd s" for c' k'
    using assms(2,3) by (auto simp: combine_one_def split_def Let_def owner_of_def)
  have none: "verdicts_of P c k = {}" using combined_invD(2) [OF assms(1)] assms(3) by (fastforce simp: verdicts_of_def)
  have small: "small_arrow (snd s) i k = Some ap"
    using combined_invD(3) [OF assms(1,4)] assms(2,3) by (auto simp: combined_small_def)
  have "combined_small (insert (i, k, ap) P) ?s i' k' ap0" if ap0: "small_arrow arrows0 i' k' = Some ap0" for i' k' ap0
  proof (cases "i' = i \<and> k' = k")
    case True
    then have eq: "i' = i" "k' = k" "ap0 = ap" using ap0 assms(4) by simp_all
    show ?thesis unfolding eq combined_small_def using assms(2) none small by (simp add: s verdicts_of_insert)
  next
    case False
    then show ?thesis
      using assms(2,3) by (intro combined_small_other [OF combined_invD(3) [OF assms(1) ap0]]) (auto simp: s)
  qed
  then show ?thesis using assms(2) by (intro combined_invI [OF assms(1)]) (auto simp: s split: if_splits)
qed

lemma small_update:
  assumes "small_arrow arrows own k = Some e" "map_get arrows own = Some a"
  shows "small_arrow (map_set own (a\<lparr>ma_accessPointArrows := map_set k e' (ma_accessPointArrows a)\<rparr>) arrows) i' k' =
    (if i' = own \<and> k' = k then Some e' else small_arrow arrows i' k')"
  using assms by (auto simp: small_arrow_def)

lemma combined_again:
  assumes "combined_inv arrows0 P s" "aa_connectorId ap = Some c" "owner_of (fst s) c k = Some own"
    and "\<forall>(i, k, ap) \<in> P. small_arrow arrows0 i k = Some ap"
  shows "combined_inv arrows0 (insert (i, k, ap) P) (combine_one i (k, ap) s)"
proof -
  let ?s = "combine_one i (k, ap) s"
  note inv = combined_invD [OF assms(1)]
  obtain first where first: "(own, k, first) \<in> P" "aa_connectorId first = Some c" using inv(1) [OF assms(3)] by blast
  have first0: "small_arrow arrows0 own k = Some first" using assms(4) first(1) by blast
  obtain e where e: "small_arrow (snd s) own k = Some e" "aa_connectorId e = Some c" "set (aa_verdicts e) = verdicts_of P c k"
    using inv(3) [OF first0] first(2) assms(3) by (auto simp: combined_small_def)
  obtain a where a: "map_get (snd s) own = Some a" "map_get (ma_accessPointArrows a) k = Some e"
    using e(1) by (auto simp: small_arrow_def split: option.splits)
  let ?e = "apArrow_addVerdicts (aa_verdicts ap) e"
  have s: "owner_of (fst ?s) c' k' = owner_of (fst s) c' k'"
      "small_arrow (snd ?s) i' k' = (if i' = own \<and> k' = k then Some ?e else small_arrow (snd s) i' k')" for c' i' k'
    using assms(2,3) a small_update [OF e(1) a(1)] by (simp_all add: combine_one_def split_def Let_def owner_of_def)
  have "combined_small (insert (i, k, ap) P) ?s i' k' ap0" if ap0: "small_arrow arrows0 i' k' = Some ap0" for i' k' ap0
  proof (cases "i' = own \<and> k' = k")
    case True
    then have eq: "i' = own" "k' = k" "ap0 = first" using ap0 first0 by simp_all
    show ?thesis unfolding eq combined_small_def
      using first(2) e assms(2,3) by (simp add: s verdicts_of_insert apArrow_addVerdicts_def Un_commute)
  next
    case False
    then show ?thesis
      using assms(2,3) by (intro combined_small_other [OF inv(3) [OF ap0]]) (auto simp: s)
  qed
  then show ?thesis using assms(2,3) by (intro combined_invI [OF assms(1)]) (auto simp: s)
qed

lemma combined_step:
  assumes "combined_inv arrows0 P s" "small_arrow arrows0 i k = Some ap" "\<forall>(i, k, ap) \<in> P. small_arrow arrows0 i k = Some ap"
  shows "combined_inv arrows0 (insert (i, k, ap) P) (combine_one i (k, ap) s)"
proof (cases "aa_connectorId ap")
  case None
  then show ?thesis by (rule combined_none [OF assms(1)])
next
  case (Some c)
  then show ?thesis
    using combined_first [OF assms(1) Some _ assms(2)] combined_again [OF assms(1) Some _ assms(3)]
    by (cases "owner_of (fst s) c k") auto
qed

lemma combined_all:
  assumes "combined_inv arrows0 P s" "\<forall>(i, k, ap) \<in> set smalls. small_arrow arrows0 i k = Some ap"
    and "\<forall>(i, k, ap) \<in> P. small_arrow arrows0 i k = Some ap"
  shows "combined_inv arrows0 (P \<union> set smalls) (fold (\<lambda>(i, kap). combine_one i kap) smalls s)"
  using assms
proof (induction smalls arbitrary: P s)
  case (Cons x smalls)
  obtain i k ap where x: "x = (i, k, ap)" by (cases x)
  have "combined_inv arrows0 (insert x P) (combine_one i (k, ap) s)"
    using combined_step [OF Cons.prems(1) _ Cons.prems(3), of i k ap] Cons.prems(2) by (simp add: x)
  then show ?case using Cons.IH [of "insert x P" "combine_one i (k, ap) s"] Cons.prems by (simp add: x)
qed simp


lemma arrowsMap_wf:
  "wf_map (fst (arrowsMap env)) \<and> (\<forall>(i, a) \<in> set (fst (arrowsMap env)). wf_map (ma_accessPointArrows a))"
proof
  have inv: "built_inv env (build_arrows env)" by (rule built_inv_arrows)
  have "map fst (fst (arrowsMap env)) = map fst (fst (build_arrows env))"
    using arrowsMap_finishes [of env] by (induction rule: list_all2_induct) (simp_all add: finished_def)
  then show "wf_map (fst (arrowsMap env))" using inv by (simp add: built_inv_def)
  have "wf_map (ma_accessPointArrows a)" if mem: "(i, a) \<in> set (fst (arrowsMap env))" for i a
  proof -
    obtain a0 where a0: "(i, a0) \<in> set (fst (build_arrows env))" "same_ends a0 a"
      using list_all2_mem2 [OF arrowsMap_finishes mem] by (auto simp: finished_def)
    have "arrow_built env (snd (build_arrows env)) (i, a0)" using inv a0(1) by (auto simp: built_inv_def)
    then show ?thesis using a0(2) by (auto simp: arrow_built_def attached_arrow_def same_ends_def)
  qed
  then show "\<forall>(i, a) \<in> set (fst (arrowsMap env)). wf_map (ma_accessPointArrows a)" by blast
qed

lemma rebuilt_combined:
  "combined_inv (fst (arrowsMap env)) (set (small_arrows (fst (arrowsMap env)))) (combinedAccessPointArrows (fst (arrowsMap env)))"
proof -
  let ?arrows = "fst (arrowsMap env)"
  have "combined_inv ?arrows {} ([], ?arrows)"
    by (simp add: combined_inv_def combined_small_def owner_of_def get_or_empty_def)
  moreover have "\<forall>(i, k, ap) \<in> set (small_arrows ?arrows). small_arrow ?arrows i k = Some ap"
    using small_arrows_get [of ?arrows] arrowsMap_wf [of env] by fast
  ultimately show ?thesis
    unfolding combinedAccessPointArrows_def flatten_arrows using combined_all [of ?arrows "{}"] by simp
qed

text \<open>C36: after the arrows were rebuilt, every small arrow that leaves a connector is represented by one combined
  arrow of that connector, a small arrow of some arrow of the map, and that one has exactly the verdicts of all
  small arrows of the connector to the same access point.\<close>

theorem combined_arrow_has_all_verdicts:
  assumes "small_arrow (fst (arrowsMap env)) i k = Some ap" and "aa_connectorId ap = Some c"
  shows "\<exists>first ap'. owner_of (as_combined (arrows_rebuild env st)) c k = Some first
    \<and> small_arrow (as_arrows (arrows_rebuild env st)) first k = Some ap' \<and> aa_connectorId ap' = Some c
    \<and> set (aa_verdicts ap') = verdicts_of (set (small_arrows (fst (arrowsMap env)))) c k"
proof -
  let ?arrows = "fst (arrowsMap env)" and ?s = "combinedAccessPointArrows (fst (arrowsMap env))"
  note inv = combined_invD [OF rebuilt_combined [of env]]
  note smalls = small_arrows_get [of ?arrows] arrowsMap_wf [of env]
  have "(i, k, ap) \<in> set (small_arrows ?arrows)" using assms(1) smalls by blast
  then obtain first where first: "owner_of (fst ?s) c k = Some first" using inv(2) assms(2) by blast
  then obtain ap0 where ap0: "(first, k, ap0) \<in> set (small_arrows ?arrows)" "aa_connectorId ap0 = Some c" using inv(1) by blast
  then have "small_arrow ?arrows first k = Some ap0" using smalls by blast
  from inv(3) [OF this] obtain ap' where "small_arrow (snd ?s) first k = Some ap'" "aa_connectorId ap' = Some c"
      "set (aa_verdicts ap') = verdicts_of (set (small_arrows ?arrows)) c k"
    using first ap0(2) by (auto simp: combined_small_def)
  then show ?thesis using first by (auto simp: arrows_rebuild_def arrows_clear_def split_def Let_def)
qed

theorem combined_arrow_has_all_verdicts_witness:
  "\<exists>c k first ap'. owner_of (as_combined (arrows_rebuild demo_arrow_env arrows_new)) c k = Some first
     \<and> small_arrow (as_arrows (arrows_rebuild demo_arrow_env arrows_new)) first k = Some ap'
     \<and> aa_verdicts ap' \<noteq> []"
proof -
  have "map (\<lambda>(i, a). map (\<lambda>(k, ap). (aa_connectorId ap \<noteq> None, aa_verdicts ap)) (ma_accessPointArrows a)) (fst (build_arrows demo_arrow_env))
      = [[(True, [Verdict_Dropped])]]"
    by code_simp
  then obtain i a k ap c where a: "fst (build_arrows demo_arrow_env) = [(i, a)]" "ma_accessPointArrows a = [(k, ap)]"
      "aa_connectorId ap = Some c" "aa_verdicts ap = [Verdict_Dropped]"
    by (auto simp: map_eq_Cons_conv)
  obtain a' where a': "fst (arrowsMap demo_arrow_env) = [(i, a')]" "ma_accessPointArrows a' = [(k, ap)]"
    using arrowsMap_finishes [of demo_arrow_env] by (auto simp: a(1,2) list_all2_Cons1 finished_def same_ends_def)
  then have "small_arrow (fst (arrowsMap demo_arrow_env)) i k = Some ap" by (simp add: small_arrow_def)
  moreover have "Verdict_Dropped \<in> verdicts_of (set (small_arrows (fst (arrowsMap demo_arrow_env)))) c k"
    using a a' by (simp add: verdicts_of_def small_arrows_def)
  ultimately show ?thesis using combined_arrow_has_all_verdicts [of demo_arrow_env i k ap c arrows_new] a(3) by fastforce
qed

end
