(* ===== verification/Map_Layer.thy ===== *)
theory Map_Layer
  imports Arrows
begin

text \<open>
  \<open>src/ui/service-map/collector.ts\<close> and \<open>src/ui-layer/service-map/index.ts\<close>: how the sizes and places of things on the
  page get into the map, whose arrows are then built anew.  Of the page the model knows, as arguments, which elements are
  attached, their rectangles and the matrix of the drawing.
\<close>

section \<open>Collecting places\<close>

text \<open>The references to elements of the page, by what they stand for.  An HTTP connector is found by path and method alone.\<close>

record 'el refs_collector =
  rc_accessPoints :: "(string, 'el option) js_map"
  rc_cardRoots :: "(string, 'el option) js_map"
  rc_httpConnectors :: "(string, (http_verb, 'el option) js_map) js_map"
  rc_rootSVG :: "'el option"
  rc_scheduled :: bool

definition collector_new :: "'el refs_collector" where
  "collector_new = \<lparr>rc_accessPoints = [], rc_cardRoots = [], rc_httpConnectors = [], rc_rootSVG = None, rc_scheduled = False\<rparr>"

definition collector_clear :: "'el refs_collector \<Rightarrow> 'el refs_collector" where
  "collector_clear c = \<lparr>rc_accessPoints = [], rc_cardRoots = [], rc_httpConnectors = [], rc_rootSVG = None, rc_scheduled = False\<rparr>"

text \<open>A reference is made when it is first asked for; the page fills it later, which schedules a collection.\<close>

definition collector_cardRoot :: "string \<Rightarrow> 'el refs_collector \<Rightarrow> 'el refs_collector" where
  "collector_cardRoot cardId c =
     (if map_has (rc_cardRoots c) cardId then c else c\<lparr>rc_cardRoots := map_set cardId None (rc_cardRoots c)\<rparr>)"

definition collector_accessPointConnector :: "string \<Rightarrow> 'el refs_collector \<Rightarrow> 'el refs_collector" where
  "collector_accessPointConnector apId c =
     (if map_has (rc_accessPoints c) apId then c else c\<lparr>rc_accessPoints := map_set apId None (rc_accessPoints c)\<rparr>)"

definition collector_httpMethodConnector :: "string \<Rightarrow> http_verb \<Rightarrow> 'el refs_collector \<Rightarrow> 'el refs_collector" where
  "collector_httpMethodConnector urlPathname httpMethod c =
     (let pathnames = get_or_empty (rc_httpConnectors c) urlPathname
      in c\<lparr>rc_httpConnectors := map_set urlPathname
            (if map_has pathnames httpMethod then pathnames else map_set httpMethod None pathnames) (rc_httpConnectors c)\<rparr>)"

datatype element_ref = Ref_Card string | Ref_AccessPoint string | Ref_Http string http_verb

definition collector_refSet :: "element_ref \<Rightarrow> 'el option \<Rightarrow> 'el refs_collector \<Rightarrow> 'el refs_collector" where
  "collector_refSet r el c =
     (let c1 = (case r of
          Ref_Card cardId \<Rightarrow> c\<lparr>rc_cardRoots := map_set cardId el (rc_cardRoots c)\<rparr>
        | Ref_AccessPoint apId \<Rightarrow> c\<lparr>rc_accessPoints := map_set apId el (rc_accessPoints c)\<rparr>
        | Ref_Http url method \<Rightarrow>
            c\<lparr>rc_httpConnectors := map_set url (map_set method el (get_or_empty (rc_httpConnectors c) url)) (rc_httpConnectors c)\<rparr>)
      in c1\<lparr>rc_scheduled := True\<rparr>)"

definition collector_cardsMutationsObserved :: "'el refs_collector \<Rightarrow> 'el refs_collector" where
  "collector_cardsMutationsObserved c = c\<lparr>rc_scheduled := True\<rparr>"

record page_coords =
  pc_accessPoints :: "(string \<times> string \<times> xywh) list"
  pc_cards :: "(string \<times> xywh) list"
  pc_httpEndpoints :: "(string \<times> string \<times> http_verb \<times> xywh) list"

text \<open>The page: which elements are attached to it, their rectangles, and the group of the drawing an element is in.\<close>

record 'el page =
  pg_attached :: "'el \<Rightarrow> bool"
  pg_bbox :: "'el \<Rightarrow> xywh"
  pg_svgGroup :: "'el \<Rightarrow> 'el option"

definition collector_ensureRootSVGGElement :: "'el page \<Rightarrow> 'el \<Rightarrow> 'el refs_collector \<Rightarrow> 'el refs_collector" where
  "collector_ensureRootSVGGElement pg el c = (if rc_rootSVG c \<noteq> None then c else c\<lparr>rc_rootSVG := pg_svgGroup pg el\<rparr>)"

text \<open>The HTTP endpoints of one access point of a card.\<close>

definition collect_http ::
  "(string \<Rightarrow> parsed_url) \<Rightarrow> 'el page \<Rightarrow> 'el refs_collector \<Rightarrow> string \<Rightarrow> l7_endpoint \<Rightarrow> (string \<times> string \<times> http_verb \<times> xywh) list" where
  "collect_http url pg c cardId ep =
     (case l7_http (l7e_l7 ep) of
        None \<Rightarrow> []
      | Some h \<Rightarrow>
          (let urlPath = pu_pathname (url (http_url h))
           in case parseMethod (http_method h) of
                None \<Rightarrow> []
              | Some method \<Rightarrow>
                  (case map_get (get_or_empty (rc_httpConnectors c) urlPath) method of
                     Some (Some el) \<Rightarrow> [(cardId, urlPath, method, pg_bbox pg el)]
                   | _ \<Rightarrow> [])))"

definition collect_accessPoint ::
  "(string \<Rightarrow> parsed_url) \<Rightarrow> 'el page \<Rightarrow> interaction_store \<Rightarrow> 'el refs_collector \<Rightarrow> string \<Rightarrow> string \<times> service_endpoint \<Rightarrow> page_coords \<Rightarrow> page_coords" where
  "collect_accessPoint url pg ints c cardId iap acc =
     (let (apId, ap) = iap
      in case map_get (rc_accessPoints c) apId of
           Some (Some el) \<Rightarrow>
             (let acc1 = acc\<lparr>pc_accessPoints := pc_accessPoints acc @ [(apId, cardId, pg_bbox pg el)]\<rparr>
              in case map_get (is_l7endpoints ints) cardId of
                   None \<Rightarrow> acc1
                 | Some ports \<Rightarrow>
                     (case map_get (get_or_empty ports (int_to_string (se_port ap))) (l7_kind_str L7Kind_HTTP) of
                        None \<Rightarrow> acc1
                      | Some eps \<Rightarrow>
                          acc1\<lparr>pc_httpEndpoints := pc_httpEndpoints acc1 @ concat (map (collect_http url pg c cardId) (map_values eps))\<rparr>))
         | _ \<Rightarrow> acc)"

definition collect_card ::
  "(string \<Rightarrow> parsed_url) \<Rightarrow> 'el page \<Rightarrow> store_frame \<Rightarrow> string \<times> 'el option \<Rightarrow> page_coords \<times> 'el refs_collector \<Rightarrow> page_coords \<times> 'el refs_collector" where
  "collect_card url pg fr icard s =
     (let (cardId, cardRef) = icard; (acc, c) = s
      in case cardRef of
           None \<Rightarrow> (acc, c)
         | Some el \<Rightarrow>
             if \<not> pg_attached pg el then (acc, c)
             else (let c1 = collector_ensureRootSVGGElement pg el c;
                       acc1 = acc\<lparr>pc_cards := pc_cards acc @ [(cardId, pg_bbox pg el)]\<rparr>
                   in case services_byId (sf_services fr) cardId of
                        None \<Rightarrow> (acc1, c1)
                      | Some svc \<Rightarrow> (fold (collect_accessPoint url pg (sf_interactions fr) c1 cardId) (sc_accessPoints svc) acc1, c1)))"

text \<open>\<open>cardsUpdated\<close> before it waits for the rectangles.\<close>

definition collector_collect :: "(string \<Rightarrow> parsed_url) \<Rightarrow> 'el page \<Rightarrow> store_frame \<Rightarrow> 'el refs_collector \<Rightarrow> page_coords \<times> 'el refs_collector" where
  "collector_collect url pg fr c =
     fold (collect_card url pg fr) (rc_cardRoots c)
       (\<lparr>pc_accessPoints = [], pc_cards = [], pc_httpEndpoints = []\<rparr>, c\<lparr>rc_scheduled := False\<rparr>)"

text \<open>The matrix of the screen: how it moves a point, and its scale.\<close>

record dom_matrix =
  dm_point :: "xy \<Rightarrow> xy"
  dm_a :: rat
  dm_d :: rat

definition xywh_applyDOMMatrix :: "dom_matrix \<Rightarrow> xywh \<Rightarrow> xywh" where
  "xywh_applyDOMMatrix m g =
     (let txy = dm_point m \<lparr>cx = gx g, cy = gy g\<rparr>
      in xywh_fromArgs (cx txy) (cy txy) (js_mul (gw g) (dm_a m)) (js_mul (gh g) (dm_d m)))"

definition mapCoordsWithMatrix :: "dom_matrix \<Rightarrow> (string \<times> xywh) list \<Rightarrow> (string \<times> xywh) list" where
  "mapCoordsWithMatrix m coords = map (\<lambda>(i, bbox). (i, xywh_applyDOMMatrix m bbox)) coords"

definition mapHTTPCoordsWithMatrix :: "dom_matrix \<Rightarrow> (string \<times> string \<times> http_verb \<times> xywh) list \<Rightarrow> (string \<times> string \<times> http_verb \<times> xywh) list" where
  "mapHTTPCoordsWithMatrix m coords = map (\<lambda>(cardId, url, method, bbox). (cardId, url, method, xywh_applyDOMMatrix m bbox)) coords"

definition mapAPCoordsWithMatrix :: "dom_matrix \<Rightarrow> (string \<times> string \<times> xywh) list \<Rightarrow> (string \<times> string \<times> xywh) list" where
  "mapAPCoordsWithMatrix m coords = map (\<lambda>(i, cardId, bbox). (i, cardId, xywh_applyDOMMatrix m bbox)) coords"

text \<open>\<open>cardsUpdated\<close> after the wait: nothing is emitted if the collector was cleared in between or there is no matrix.\<close>

definition collector_finish :: "('el \<Rightarrow> dom_matrix option) \<Rightarrow> page_coords \<Rightarrow> 'el refs_collector \<Rightarrow> page_coords option" where
  "collector_finish inverse_ctm pc c =
     (case rc_rootSVG c of
        None \<Rightarrow> None
      | Some g \<Rightarrow>
          (case inverse_ctm g of
             None \<Rightarrow> None
           | Some m \<Rightarrow>
               Some \<lparr>pc_accessPoints = mapAPCoordsWithMatrix m (pc_accessPoints pc), pc_cards = mapCoordsWithMatrix m (pc_cards pc),
                     pc_httpEndpoints = mapHTTPCoordsWithMatrix m (pc_httpEndpoints pc)\<rparr>))"

section \<open>The map of the user interface\<close>

record 'el map_layer =
  ml_collector :: "'el refs_collector"
  ml_placement :: placement_store
  ml_arrows :: arrow_strategy
  ml_flowStatsLoading :: bool
  ml_fullFlowLoading :: bool
  ml_flowsPageLoading :: bool
  ml_logsUploading :: bool

definition map_layer_new :: "'el map_layer" where
  "map_layer_new =
     \<lparr>ml_collector = collector_new, ml_placement = placement_new, ml_arrows = arrows_new, ml_flowStatsLoading = False,
      ml_fullFlowLoading = False, ml_flowsPageLoading = False, ml_logsUploading = False\<rparr>"

definition map_setFlowStatsLoading :: "bool \<Rightarrow> 'el map_layer \<Rightarrow> 'el map_layer" where
  "map_setFlowStatsLoading state ml = ml\<lparr>ml_flowStatsLoading := state\<rparr>"

definition map_setFullFlowLoading :: "bool \<Rightarrow> 'el map_layer \<Rightarrow> 'el map_layer" where
  "map_setFullFlowLoading state ml = ml\<lparr>ml_fullFlowLoading := state\<rparr>"

definition map_setFlowsPageLoading :: "bool \<Rightarrow> 'el map_layer \<Rightarrow> 'el map_layer" where
  "map_setFlowsPageLoading state ml = ml\<lparr>ml_flowsPageLoading := state\<rparr>"

definition map_setServiceMapLogsUploading :: "bool \<Rightarrow> 'el map_layer \<Rightarrow> 'el map_layer" where
  "map_setServiceMapLogsUploading state ml = ml\<lparr>ml_logsUploading := state\<rparr>"

definition map_cardsMutationsObserved :: "'el map_layer \<Rightarrow> 'el map_layer" where
  "map_cardsMutationsObserved ml = ml\<lparr>ml_collector := collector_cardsMutationsObserved (ml_collector ml)\<rparr>"

definition map_clearCoordinates :: "'el map_layer \<Rightarrow> 'el map_layer" where
  "map_clearCoordinates ml =
     ml\<lparr>ml_collector := collector_clear (ml_collector ml), ml_placement := placement_reset (ml_placement ml),
        ml_arrows := arrows_reset (ml_arrows ml)\<rparr>"

definition map_toggleDetached :: "'el map_layer \<Rightarrow> 'el map_layer" where
  "map_toggleDetached ml = map_clearCoordinates ml"

definition map_isCardActive :: "shared_state \<Rightarrow> service_card \<Rightarrow> bool" where
  "map_isCardActive sh crd = controls_areSomeFilterEntriesEnabled (card_filterEntries crd) (sh_controls sh)"

text \<open>The coordinates of points of a card that has no place yet are left out.\<close>

definition map_placeAccessPoint :: "string \<times> string \<times> xywh \<Rightarrow> placement_store \<Rightarrow> placement_store" where
  "map_placeAccessPoint apCoords ps =
     (let (apId, cardId, bbox) = apCoords
      in if map_has (ps_cardsXYs ps) cardId then fst (setAccessPointCoords apId (xywh_center bbox) (Some (1 / 2)) ps) else ps)"

definition map_placeHttpEndpoint :: "string \<times> string \<times> http_verb \<times> xywh \<Rightarrow> placement_store \<Rightarrow> placement_store" where
  "map_placeHttpEndpoint apCoords ps =
     (let (cardId, urlPath, method, bbox) = apCoords
      in if map_has (ps_cardsXYs ps) cardId then setHttpEndpointCoords cardId urlPath method (xywh_center bbox) ps else ps)"

definition map_placeCoords :: "page_coords \<Rightarrow> placement_store \<Rightarrow> placement_store" where
  "map_placeCoords pc ps =
     fold map_placeHttpEndpoint (pc_httpEndpoints pc)
       (fold map_placeAccessPoint (pc_accessPoints pc) (fst (setCardHeights (pc_cards pc) (Some (1 / 2)) ps)))"

text \<open>The handler of the collector; then the reaction that places the cards anew runs.\<close>

definition map_coordsUpdated :: "store_frame \<Rightarrow> shared_state \<Rightarrow> (string \<Rightarrow> parsed_url) \<Rightarrow> page_coords \<Rightarrow> 'el map_layer \<Rightarrow> 'el map_layer" where
  "map_coordsUpdated fr sh url pc ml =
     (let ps = map_placeCoords pc (ml_placement ml);
          env = \<lparr>av_frame = fr, av_shared = sh, av_placement = ps, av_url = url\<rparr>
      in ml\<lparr>ml_placement := rebuild fr sh ps, ml_arrows := arrows_rebuild env (ml_arrows ml)\<rparr>)"


subsection \<open>What the collector finds\<close>

definition http_place_ok :: "'el page \<Rightarrow> 'el refs_collector \<Rightarrow> string \<times> string \<times> http_verb \<times> xywh \<Rightarrow> bool" where
  "http_place_ok pg c p \<longleftrightarrow>
     (case p of (cardId, url, method, bbox) \<Rightarrow>
        \<exists>el. map_get (get_or_empty (rc_httpConnectors c) url) method = Some (Some el) \<and> bbox = pg_bbox pg el)"

lemma collect_http_ok: "p \<in> set (collect_http url pg c cardId ep) \<Longrightarrow> http_place_ok pg c p"
  by (auto simp: collect_http_def http_place_ok_def Let_def split: option.splits) metis

lemma collect_accessPoint_ok:
  assumes "\<forall>p \<in> set (pc_httpEndpoints acc). http_place_ok pg c p"
  shows "\<forall>p \<in> set (pc_httpEndpoints (collect_accessPoint url pg ints c cardId iap acc)). http_place_ok pg c p"
  using assms collect_http_ok [of _ url pg c cardId]
  by (auto simp: collect_accessPoint_def Let_def split: prod.split option.split)

lemma collect_accessPoints_ok:
  "\<forall>p \<in> set (pc_httpEndpoints acc). http_place_ok pg c p \<Longrightarrow>
   \<forall>p \<in> set (pc_httpEndpoints (fold (collect_accessPoint url pg ints c cardId) aps acc)). http_place_ok pg c p"
proof (induction aps arbitrary: acc)
  case (Cons iap aps)
  show ?case using Cons.IH [OF collect_accessPoint_ok [OF Cons.prems]] by simp
qed simp

lemma root_keeps_connectors [simp]: "rc_httpConnectors (collector_ensureRootSVGGElement pg el c) = rc_httpConnectors c"
  by (simp add: collector_ensureRootSVGGElement_def)

lemma http_place_root [simp]: "http_place_ok pg (collector_ensureRootSVGGElement pg el c) p \<longleftrightarrow> http_place_ok pg c p"
  by (simp add: http_place_ok_def)

definition collected_ok :: "'el page \<Rightarrow> 'el refs_collector \<Rightarrow> page_coords \<times> 'el refs_collector \<Rightarrow> bool" where
  "collected_ok pg c s \<longleftrightarrow> rc_httpConnectors (snd s) = rc_httpConnectors c \<and> (\<forall>p \<in> set (pc_httpEndpoints (fst s)). http_place_ok pg c p)"

lemma http_place_cong: "rc_httpConnectors c' = rc_httpConnectors c \<Longrightarrow> http_place_ok pg c' = http_place_ok pg c"
  by (auto simp: http_place_ok_def fun_eq_iff)

lemma collect_card_ok:
  assumes "collected_ok pg c s"
  shows "collected_ok pg c (collect_card url pg fr icard s)"
proof (cases "snd icard")
  case None
  then show ?thesis using assms by (simp add: collect_card_def split_def)
next
  case (Some el)
  let ?c1 = "collector_ensureRootSVGGElement pg el (snd s)"
  have same: "http_place_ok pg ?c1 = http_place_ok pg c" using assms by (intro http_place_cong) (simp add: collected_ok_def)
  have "\<forall>p \<in> set (pc_httpEndpoints (fold (collect_accessPoint url pg ints ?c1 i) aps
      ((fst s)\<lparr>pc_cards := cards\<rparr>))). http_place_ok pg c p" for ints i aps cards
    using collect_accessPoints_ok [of "(fst s)\<lparr>pc_cards := cards\<rparr>" pg ?c1] assms by (simp add: same collected_ok_def)
  then show ?thesis using assms Some by (auto simp: collect_card_def split_def Let_def collected_ok_def split: option.split)
qed

lemma collector_collect_ok: "p \<in> set (pc_httpEndpoints (fst (collector_collect url pg fr c))) \<Longrightarrow> http_place_ok pg c p"
proof -
  have cards: "collected_ok pg c s \<Longrightarrow> collected_ok pg c (fold (collect_card url pg fr) cards s)" for cards s
    by (induction cards arbitrary: s) (simp_all add: collect_card_ok)
  have "collected_ok pg c (collector_collect url pg fr c)"
    unfolding collector_collect_def by (rule cards) (simp add: collected_ok_def)
  then show "p \<in> set (pc_httpEndpoints (fst (collector_collect url pg fr c))) \<Longrightarrow> http_place_ok pg c p"
    by (simp add: collected_ok_def)
qed

text \<open>The connector of an HTTP endpoint is looked up by path and method without the card, so all cards that
  show an endpoint with that path and method get the place of the same element, whichever card it is in.\<close>

theorem http_endpoints_share_their_place:
  assumes "(card1, url, method, bbox1) \<in> set (pc_httpEndpoints (fst (collector_collect up pg fr c)))"
    and "(card2, url, method, bbox2) \<in> set (pc_httpEndpoints (fst (collector_collect up pg fr c)))"
  shows "bbox1 = bbox2"
  using collector_collect_ok [OF assms(1)] collector_collect_ok [OF assms(2)] by (auto simp: http_place_ok_def)

subsection \<open>What the map takes over\<close>

lemma heights_keep:
  "ps_accessPointCoords (fst (setCardHeights coords eps ps)) = ps_accessPointCoords ps
   \<and> ps_cardsXYs (fst (setCardHeights coords eps ps)) = ps_cardsXYs ps"
proof -
  have one: "ps_accessPointCoords (fst (setCardHeight i h eps ps)) = ps_accessPointCoords ps
      \<and> ps_cardsXYs (fst (setCardHeight i h eps ps)) = ps_cardsXYs ps" for i h ps
    by (simp add: setCardHeight_def setCardWH_def split: option.split)
  have "ps_accessPointCoords (fst (fold (\<lambda>(cardId, bbox) (ps, n).
       if gh bbox < 0 then (ps, n)
       else (let (ps1, updated) = setCardHeight cardId (gh bbox) eps ps in (ps1, if updated then n + 1 else n))) coords s))
      = ps_accessPointCoords (fst s)
     \<and> ps_cardsXYs (fst (fold (\<lambda>(cardId, bbox) (ps, n).
       if gh bbox < 0 then (ps, n)
       else (let (ps1, updated) = setCardHeight cardId (gh bbox) eps ps in (ps1, if updated then n + 1 else n))) coords s))
      = ps_cardsXYs (fst s)" for s :: "placement_store \<times> nat"
    by (induction coords arbitrary: s) (simp_all add: split_def Let_def one)
  then show ?thesis by (simp add: setCardHeights_def)
qed

lemma http_keep: "ps_accessPointCoords (fold map_placeHttpEndpoint coords ps) = ps_accessPointCoords ps"
  by (induction coords arbitrary: ps) (simp_all add: split_def setHttpEndpointCoords_def map_placeHttpEndpoint_def)

text \<open>Near enough: no coordinate differs by more than half a pixel.\<close>

definition near_point :: "xy \<Rightarrow> xy \<Rightarrow> bool" where
  "near_point p c \<longleftrightarrow> p = c \<or> \<bar>js_sub (cx p) (cx c)\<bar> \<le> 1 / 2 \<and> \<bar>js_sub (cy p) (cy c)\<bar> \<le> 1 / 2"

lemma place_ap_keeps: "ps_cardsXYs (map_placeAccessPoint x ps) = ps_cardsXYs ps"
  by (simp add: map_placeAccessPoint_def setAccessPointCoords_def split_def)

lemma place_ap_other: "apId \<noteq> fst x \<Longrightarrow> map_get (ps_accessPointCoords (map_placeAccessPoint x ps)) apId = map_get (ps_accessPointCoords ps) apId"
  by (simp add: map_placeAccessPoint_def setAccessPointCoords_def split_def)

lemma place_ap_here:
  "map_has (ps_cardsXYs ps) cardId \<Longrightarrow>
   \<exists>p. map_get (ps_accessPointCoords (map_placeAccessPoint (apId, cardId, bbox) ps)) apId = Some p \<and> near_point (xywh_center bbox) p"
  by (auto simp: map_placeAccessPoint_def setAccessPointCoords_def near_point_def split: option.splits)

lemma place_aps_other: "apId \<notin> fst ` set xs \<Longrightarrow>
    map_get (ps_accessPointCoords (fold map_placeAccessPoint xs ps)) apId = map_get (ps_accessPointCoords ps) apId"
  by (induction xs arbitrary: ps) (simp_all add: place_ap_other)

lemma place_aps_keeps: "ps_cardsXYs (fold map_placeAccessPoint xs ps) = ps_cardsXYs ps"
  by (induction xs arbitrary: ps) (simp_all add: place_ap_keeps)

lemma place_aps:
  assumes "(apId, cardId, bbox) \<in> set xs" "distinct (map fst xs)"
  shows "if map_has (ps_cardsXYs ps) cardId
    then \<exists>p. map_get (ps_accessPointCoords (fold map_placeAccessPoint xs ps)) apId = Some p \<and> near_point (xywh_center bbox) p
    else map_get (ps_accessPointCoords (fold map_placeAccessPoint xs ps)) apId = map_get (ps_accessPointCoords ps) apId"
  using assms
proof (induction xs arbitrary: ps)
  case (Cons x xs)
  show ?case
  proof (cases "x = (apId, cardId, bbox)")
    case True
    then have "apId \<notin> fst ` set xs" using Cons.prems(2) by simp
    moreover have "map_get (ps_cardsXYs ps) cardId = None \<Longrightarrow> map_placeAccessPoint (apId, cardId, bbox) ps = ps"
      by (simp add: map_placeAccessPoint_def)
    ultimately show ?thesis using place_ap_here [of ps cardId apId bbox] by (cases "map_get (ps_cardsXYs ps) cardId") (simp_all add: place_aps_other True)
  next
    case False
    then have "(apId, cardId, bbox) \<in> set xs" "fst x \<noteq> apId" using Cons.prems by (auto simp: image_iff)
    then show ?thesis using Cons.IH [of "map_placeAccessPoint x ps"] Cons.prems(2) place_ap_other [of apId x ps] by (simp add: place_ap_keeps)
  qed
qed simp

text \<open>C37: after the coordinates of the page arrived, with each access point reported once, every reported access point whose card
  has a place on the map is at most half a pixel from the middle of its element, and every other reported one stays where it
  was.\<close>

theorem access_points_follow_the_page:
  assumes "(apId, cardId, bbox) \<in> set (pc_accessPoints pc)" and "distinct (map fst (pc_accessPoints pc))"
  shows "if map_has (ps_cardsXYs (ml_placement ml)) cardId
    then \<exists>p. map_get (ps_accessPointCoords (ml_placement (map_coordsUpdated fr sh url pc ml))) apId = Some p
           \<and> near_point (xywh_center bbox) p
    else map_get (ps_accessPointCoords (ml_placement (map_coordsUpdated fr sh url pc ml))) apId =
         map_get (ps_accessPointCoords (ml_placement ml)) apId"
proof -
  let ?ps1 = "fst (setCardHeights (pc_cards pc) (Some (1 / 2)) (ml_placement ml))"
  have "ps_accessPointCoords (ml_placement (map_coordsUpdated fr sh url pc ml)) =
      ps_accessPointCoords (fold map_placeAccessPoint (pc_accessPoints pc) ?ps1)"
    by (simp add: map_coordsUpdated_def map_placeCoords_def Let_def rebuild_def http_keep)
  then show ?thesis
    using place_aps [OF assms, of ?ps1] heights_keep [of "pc_cards pc" "Some (1 / 2)" "ml_placement ml"] by simp
qed


definition demo_http :: layer7 where
  "demo_http = \<lparr>l7_type = L7FlowType_Request, l7_latencyNs = 0, l7_dns = None,
     l7_http = Some \<lparr>http_code = 200, http_method = ''GET'', http_url = ''/api'', http_protocol = ''HTTP/1.1'', http_headersList = []\<rparr>,
     l7_kafka = None\<rparr>"

definition demo_map_frame :: store_frame where
  "demo_map_frame =
     demo_placement_frame\<lparr>
       sf_services := map (\<lambda>i. (card_fromService (sample_service i [] 1))\<lparr>sc_accessPoints := [(''ap-'' @ i, serviceEndpoint_new i 80 IPProtocol_TCP [])]\<rparr>) [''1'', ''2''],
       sf_interactions := (sf_interactions demo_placement_frame)\<lparr>is_l7endpoints :=
         map (\<lambda>i. (i, [(''80'', [(l7_kind_str L7Kind_HTTP, [(''e'', l7Endpoint_new demo_http)])])])) [''1'', ''2'']\<rparr>\<rparr>"

definition demo_collector :: "nat refs_collector" where
  "demo_collector =
     \<lparr>rc_accessPoints = [(''ap-1'', Some 3), (''ap-2'', Some 4)], rc_cardRoots = [(''1'', Some 1), (''2'', Some 2)],
      rc_httpConnectors = [(''/api'', [(Method_GET, Some 5)])], rc_rootSVG = Some 0, rc_scheduled = True\<rparr>"

definition demo_page :: "nat page" where
  "demo_page = \<lparr>pg_attached = (\<lambda>el. True), pg_bbox = (\<lambda>el. xywh_new (of_nat el) 0 10 10), pg_svgGroup = (\<lambda>el. Some 0)\<rparr>"

lemma demo_collected:
  "map (\<lambda>(i, url, m, b). (i, url, m)) (pc_httpEndpoints (fst (collector_collect demo_url demo_page demo_map_frame demo_collector)))
   = [(''1'', ''/api'', Method_GET), (''2'', ''/api'', Method_GET)]"
  by code_simp

theorem http_endpoints_share_their_place_witness:
  "\<exists>b. set (pc_httpEndpoints (fst (collector_collect demo_url demo_page demo_map_frame demo_collector)))
     = {(''1'', ''/api'', Method_GET, b), (''2'', ''/api'', Method_GET, b)}"
proof -
  obtain b1 b2 where found: "pc_httpEndpoints (fst (collector_collect demo_url demo_page demo_map_frame demo_collector))
      = [(''1'', ''/api'', Method_GET, b1), (''2'', ''/api'', Method_GET, b2)]"
    using demo_collected by (auto simp: map_eq_Cons_conv)
  have "b1 = b2"
    by (rule http_endpoints_share_their_place [of "''1''" "''/api''" Method_GET b1 demo_url demo_page demo_map_frame demo_collector "''2''" b2])
      (simp_all add: found)
  then show ?thesis by (intro exI [of _ b1]) (simp add: found)
qed

theorem access_points_follow_the_page_witness:
  "\<exists>p. map_get (ps_accessPointCoords (ml_placement (map_coordsUpdated demo_placement_frame (ms_shared demo_placement_state) demo_url
        \<lparr>pc_accessPoints = [(''ap-2'', ''2'', xywh_new 900 100 20 20)], pc_cards = [], pc_httpEndpoints = []\<rparr>
        (map_layer_new\<lparr>ml_placement := placement_new\<lparr>ps_cardsXYs := [(''2'', vec2_zero)]\<rparr>\<rparr>)))) ''ap-2'' = Some p
     \<and> near_point (xywh_center (xywh_new 900 100 20 20)) p"
  using access_points_follow_the_page [of "''ap-2''" "''2''" "xywh_new 900 100 20 20"
      "\<lparr>pc_accessPoints = [(''ap-2'', ''2'', xywh_new 900 100 20 20)], pc_cards = [], pc_httpEndpoints = []\<rparr>"
      "map_layer_new\<lparr>ml_placement := placement_new\<lparr>ps_cardsXYs := [(''2'', vec2_zero)]\<rparr>\<rparr>"
      demo_placement_frame "ms_shared demo_placement_state" demo_url]
  by simp

end
