(* ===== verification/Spec2Isabelle.thy ===== *)
theory Spec2Isabelle
  imports Emitter Storage Timers Notifier Map_Layer
begin

text \<open>
  A model of the Hubble user interface (\<open>src/src\<close>): the program that asks a Hubble server for the flows
  and services of a Kubernetes cluster and shows them as a map and a table.

  \<^bold>\<open>How the program works.\<close>  The backend is polled with messages (\<open>api/customprotocol-core\<close>).  The stream
  of the service map (\<open>api/customprotocol\<close>) sends the filters as a request and turns the answers into
  events: flows, services, links.  The data layer (\<open>data-layer\<close>) writes them to the current frame of the
  main store (\<open>store\<close>), whose events keep the global frame alike.  When a control changes the filters
  the stream is stopped, the current frame is filled again from what passes in the global frame, and a
  new stream is made.  The domain (\<open>domain\<close>) holds the data and the rules by which it is filtered.

  \<^bold>\<open>Theories, in the order of their imports.\<close>

  \<^item> \<open>Prelude\<close>, \<open>JS_Number\<close>: what the source uses of the language: maps in insertion order, stable sorting,
    texts, and numbers as rationals rounded to 53 bits with not-a-number and the infinities.
  \<^item> \<open>Hubble\<close>, \<open>Labels\<close>, \<open>Cilium\<close>, \<open>Helpers\<close>, \<open>Times\<close>: the data of \<open>domain/hubble.ts\<close>, the labels of a
    service (\<open>domain/labels.ts\<close>), code tables, and \<open>domain/helpers\<close>.  \<open>Samples\<close> holds data for witnesses.
  \<^item> \<open>Filter_Entry\<close>, \<open>Flows\<close>, \<open>Diffs\<close>, \<open>Connections\<close>, \<open>Cards\<close>, \<open>Filtering\<close>: \<open>domain/filtering\<close>, \<open>domain/flows\<close>,
    \<open>domain/diff\<close>, \<open>domain/link.ts\<close>, \<open>domain/interactions\<close> and \<open>domain/service-map\<close>.  Entries are parsed and
    printed, filters compared, and a frame is filtered by flows, links and cards.
  \<^item> \<open>Interaction_Store\<close>, \<open>Service_Store\<close>, \<open>Control_Stores\<close>, \<open>Frame_Store\<close>: \<open>store\<close>.  The stores are records,
    their methods functions on them; a frame returns the events it emits, and the main store hands them to
    its handlers.  \<open>Frame_Store\<close> has the invariants of the whole store.
  \<^item> \<open>Iter_Tools\<close>, \<open>Emitter\<close>, \<open>Retry\<close>: \<open>utils\<close>.  \<open>Stream_Core\<close>: the polling stream as a labelled step function,
    with each asynchronous method cut at its waits.
  \<^item> \<open>Proto_Factory\<close>, \<open>Flow_Conversions\<close>, \<open>Backend_Streams\<close>: requests (\<open>factories/proto\<close>), the reading of
    messages, and the events of the two streams.
  \<^item> \<open>Data_Controls\<close>, \<open>Data_Service_Map\<close>: the data layer, composed of the store, the controls and the streams.
  \<^item> \<open>Status_Center\<close>: the log of what happened (\<open>ui/status-center\<close>, \<open>ui-layer/status-center.ts\<close>), whose entries are
    shared and changed in place, so they live in a heap.
  \<^item> \<open>Router\<close>, \<open>UI_Layer\<close>: the URL as a copy of the controls (\<open>router\<close>), and the controls of the user
    (\<open>ui-layer/controls.ts\<close>, \<open>ui-layer/ui-layer.ts\<close>), which join the data layer, the router and the status log.
  \<^item> \<open>Placement\<close>: the layout of the map (\<open>domain/geometry\<close>, \<open>ui/layout\<close>,
    \<open>ui-layer/service-map/coordinates/placement.ts\<close>): cards by kind, columns by weight, and coordinates.  The layout
    is a function of the rounding of its arithmetic; the locale \<open>rounding\<close> states what the proof that cards never
    overlap needs of it, and is interpreted on the IEEE rounding \<open>fl\<close>.
  \<^item> \<open>Geometry\<close>, \<open>Arrows\<close>: the rest of \<open>domain/geometry\<close> and the arrows of the map
    (\<open>ui-layer/service-map/coordinates\<close>): vectors, intersections, the walk around a card, connectors, arrows and
    the small arrows that share a connector.  A point of an arrow that is a connector refers to it by its identifier,
    because the connectors are moved after the arrows were made.
  \<^item> \<open>Map_Layer\<close>: \<open>ui/service-map/collector.ts\<close> and \<open>ui-layer/service-map/index.ts\<close>: the collector reads rectangles
    from the page, and the map stores them as sizes of cards and points of arrows, places the cards and builds the arrows.
  \<^item> \<open>Storage\<close>: the settings in the browser's storage (\<open>storage/local\<close>) and the aggregation they hold
    (\<open>domain/aggregation\<close>).  The storage is a map from texts to texts, which implements a record of settings.
  \<^item> \<open>Timers\<close>: timers, tickers, the throttled emitter, disposers, memoised functions, \<open>Option\<close> and \<open>Result\<close> of \<open>utils\<close>.
    The timeouts the browser holds are part of the state, and their firing is a step.
  \<^item> \<open>Notifier\<close>: notifications about new status entries (\<open>notifier\<close>), with the toasts on the screen, their owners and
    the calls of their dismiss handlers that are still to come.

  \<^bold>\<open>What the lemmas show.\<close>  Each store has an invariant that every operation keeps, and where the source
  keeps a list that it searches, the operation refines an update of a partial function from identifiers
  (links, cards).  Filtering is characterised by what passes, printing and parsing are inverse, the
  optimised pass over labels equals the separate queries, the whitelist of a request means the filters it is
  made from, where what filters and entries mean is stated of their fields alone (\<open>switches_meant\<close>,
  \<open>source_meant\<close>, \<open>destination_meant\<close>).  The retry loop is compared with the calls of its operation, the
  connectors of a card with the exact mean of its points, the storage with a record of all settings.  The stream and the data layer are step functions; their invariants hold for every
  interleaving.  Some properties of kind \<open>error\<close> state what the code does in cases where it does not do
  what it means to; each has a finding.

  \<^bold>\<open>Interfaces.\<close>  Locales state the contracts one part relies on: a comparator of a sort, the diff of a
  value, an endpoint that is combined, an update of a card, a counter of combinations, a delayer of
  retries, and an invariant of the stream.  Each is interpreted on the definitions of the source.

  \<^bold>\<open>Parameters.\<close>  \<open>up\<close> parses a URL, \<open>uniqBy\<close> is lodash's function (its documented behaviour is the
  predicate \<open>uniqBy_doc\<close>, met by \<open>uniq_first\<close>), \<open>now\<close> is the reading of the clock, and whether a single
  element of a request's filter matches an event is decided by a \<open>matcher\<close>.  Encoding and decoding of
  messages are parameters, and so are \<open>JSON\<close> and the conversions between fractions and texts (\<open>Storage\<close>), the
  identifiers of toasts (\<open>Notifier\<close>) and the elements of the page (\<open>Map_Layer\<close>).

  \<^bold>\<open>Conventions.\<close>  Null and undefined are \<open>None\<close>; where the source tells them apart the theory says so.  Objects
  are values; only the counters of links, which frames share, have an identity (\<open>hl_ref\<close>) and live in a
  store of their own.  Errors and missing results are values of option or sum types.  Loops that may run
  forever are partial functions whose value is then \<open>None\<close>: the retry loop returns exactly when a call
  of the operation decides or the number of attempts is limited.  A store holds at most 1024 flows, as in the source.

  \<^bold>\<open>Not modelled.\<close>  The React components render; the old route store is not used any more; generated protobuf code appears as records with the fields that
  are read; the HTTP client is the network; console output is left out; the Go backend is another
  language, of which only the rules that apply a request's filters are modelled.
\<close>

end
